(* ===== verification/Prelude.thy ===== *)
theory Prelude
  imports Complex_Main "HOL-Library.AList" "HOL-Library.List_Lexorder" "HOL-Library.Char_ord"
    "HOL-Library.Multiset"
begin

text \<open>
  What every component shares.  A Python dict is an association list in insertion order
  (\<open>dict\<close>): \<open>dget\<close> is \<open>d.get(k)\<close>, \<open>dset\<close> is \<open>d[k] = v\<close> (an existing key keeps its place, a
  new one goes last) and \<open>ddel\<close> is \<open>d.pop(k, None)\<close>.  A Python str is a \<open>string\<close>, the list of
  its code points below 256.  A float (a clock reading, a ratio) is a \<open>real\<close>: rounding of
  binary floats is not modelled.  A JSON-like value (\<open>dict[str, Any]\<close> payloads and results)
  is a \<open>json\<close>, and \<open>dumps\<close> is \<open>json.dumps(_, sort_keys=True, default=str)\<close>.
\<close>

section \<open>Dictionaries\<close>

type_synonym ('k, 'v) dict = "('k \<times> 'v) list"

abbreviation dget :: "('k, 'v) dict \<Rightarrow> 'k \<Rightarrow> 'v option" where
  "dget \<equiv> map_of"

abbreviation dset :: "'k \<Rightarrow> 'v \<Rightarrow> ('k, 'v) dict \<Rightarrow> ('k, 'v) dict" where
  "dset \<equiv> AList.update"

abbreviation ddel :: "'k \<Rightarrow> ('k, 'v) dict \<Rightarrow> ('k, 'v) dict" where
  "ddel \<equiv> AList.delete"

abbreviation keys :: "('k, 'v) dict \<Rightarrow> 'k list" where
  "keys d \<equiv> map fst d"

definition dhas :: "('k, 'v) dict \<Rightarrow> 'k \<Rightarrow> bool" where
  "dhas d k \<longleftrightarrow> dget d k \<noteq> None"

definition dget_or :: "('k, 'v) dict \<Rightarrow> 'k \<Rightarrow> 'v \<Rightarrow> 'v" where
  "dget_or d k v = (case dget d k of None \<Rightarrow> v | Some x \<Rightarrow> x)"

named_theorems dict_simps "lookups in an updated or shrunk dict"

lemma dget_dset [dict_simps, simp]: "dget (dset k v d) = (dget d)(k \<mapsto> v)"
  by (rule update_conv')

lemma dget_ddel [dict_simps, simp]: "dget (ddel k d) = (dget d)(k := None)"
  by (rule delete_conv')

lemma dhas_dset [dict_simps, simp]: "dhas (dset k v d) k' \<longleftrightarrow> k' = k \<or> dhas d k'"
  by (simp add: dhas_def)

lemma dhas_ddel [dict_simps, simp]: "dhas (ddel k d) k' \<longleftrightarrow> k' \<noteq> k \<and> dhas d k'"
  by (simp add: dhas_def)

text \<open>The library turns lookups in a dict with distinct keys into membership; keep the lookups.\<close>

declare map_of_eq_Some_iff [simp del] Some_eq_map_of_iff [simp del]

lemma dhas_Nil [simp]: "\<not> dhas [] k"
  by (simp add: dhas_def)

lemma dhas_iff_keys: "dhas d k \<longleftrightarrow> k \<in> set (keys d)"
  by (simp add: dhas_def map_of_eq_None_iff)

lemma dhas_None: "\<not> dhas d k \<longleftrightarrow> dget d k = None"
  by (simp add: dhas_def)

lemma distinct_dset [intro, simp]: "distinct (keys d) \<Longrightarrow> distinct (keys (dset k v d))"
  by (rule distinct_update)

lemma distinct_ddel [intro, simp]: "distinct (keys d) \<Longrightarrow> distinct (keys (ddel k d))"
  by (rule distinct_delete)

lemma keys_dset: "keys (dset k v d) = (if k \<in> set (keys d) then keys d else keys d @ [k])"
  by (simp add: update_keys)

lemma set_keys_dset: "set (keys (dset k v d)) = insert k (set (keys d))"
  by (simp only: keys_dset) auto

lemma remdups_const: "xs \<noteq> [] \<Longrightarrow> (\<And>y. y \<in> set xs \<Longrightarrow> y = x) \<Longrightarrow> remdups xs = [x]"
proof (induction xs)
  case (Cons a xs)
  have a: "a = x" using Cons.prems(2)[of a] by simp
  show ?case
  proof (cases xs)
    case Nil
    then show ?thesis using a by simp
  next
    case xs: (Cons b ys)
    then have "b = x" using Cons.prems(2)[of b] by simp
    moreover have "remdups xs = [x]" using Cons.IH Cons.prems(2) xs by auto
    ultimately show ?thesis using a xs by simp
  qed
qed simp

lemma length_dset_new: "\<not> dhas d k \<Longrightarrow> length (dset k v d) = Suc (length d)"
proof -
  assume "\<not> dhas d k"
  then have "length (keys (dset k v d)) = Suc (length (keys d))"
    by (simp only: keys_dset dhas_iff_keys) simp
  then show ?thesis by simp
qed

lemma dset_new: "dget d k = None \<Longrightarrow> dset k v d = d @ [(k, v)]"
  by (induction d) (auto split: if_splits)

lemma dict_mem_iff: "distinct (keys d) \<Longrightarrow> (k, v) \<in> set d \<longleftrightarrow> dget d k = Some v"
  using map_of_is_SomeI[of d k v] map_of_SomeD[of d k v] by blast

lemma distinct_filter_keys [intro, simp]:
  "distinct (keys d) \<Longrightarrow> distinct (keys (filter P d))"
  by (induction d) auto

lemma dget_filter:
  "distinct (keys d) \<Longrightarrow>
   dget (filter P d) k = (case dget d k of None \<Rightarrow> None | Some v \<Rightarrow> if P (k, v) then Some v else None)"
  by (induction d) (auto split: option.splits simp: map_of_eq_None_iff image_iff)

lemma dget_filter_key: "dget (filter (\<lambda>x. P (fst x)) d) k = (if P k then dget d k else None)"
  by (induction d) auto

lemma dget_in_set: "dget d k = Some v \<Longrightarrow> (k, v) \<in> set d"
  by (rule map_of_SomeD)

lemma in_set_dget: "distinct (keys d) \<Longrightarrow> (k, v) \<in> set d \<Longrightarrow> dget d k = Some v"
  by (rule map_of_is_SomeI)

section \<open>Text\<close>

text \<open>\<open>str(n)\<close> of a natural number, and \<open>sep.join(xs)\<close>.\<close>

definition digit_char :: "nat \<Rightarrow> char" where
  "digit_char d = char_of (48 + d)"

fun nat_str :: "nat \<Rightarrow> string" where
  "nat_str n = (if n < 10 then [digit_char n] else nat_str (n div 10) @ [digit_char (n mod 10)])"

declare nat_str.simps [simp del]

definition int_str :: "int \<Rightarrow> string" where
  "int_str i = (if i < 0 then ''-'' @ nat_str (nat (- i)) else nat_str (nat i))"

fun join :: "string \<Rightarrow> string list \<Rightarrow> string" where
  "join sep [] = []"
| "join sep [x] = x"
| "join sep (x # xs) = x @ sep @ join sep xs"

text \<open>\<open>xs[:i]\<close> and \<open>xs[i:]\<close>, where a negative index counts from the end.\<close>

definition slice_to :: "int \<Rightarrow> 'a list \<Rightarrow> 'a list" where
  "slice_to i xs = take (nat (if i < 0 then int (length xs) + i else i)) xs"

definition slice_from :: "int \<Rightarrow> 'a list \<Rightarrow> 'a list" where
  "slice_from i xs = drop (nat (if i < 0 then int (length xs) + i else i)) xs"

lemma slice_append [simp]: "slice_to i xs @ slice_from i xs = xs"
  by (simp add: slice_to_def slice_from_def)

text \<open>\<open>round(x, n)\<close> of a real: to the nearest multiple of \<open>10^-n\<close>, ties to the even one.\<close>

definition py_round :: "nat \<Rightarrow> real \<Rightarrow> real" where
  "py_round n x =
    (let y = x * 10 ^ n; f = floor y; d = y - of_int f in
     of_int (if d < 1/2 then f else if d > 1/2 then f + 1 else if even f then f else f + 1) / 10 ^ n)"

definition str_nat :: "string \<Rightarrow> nat" where
  "str_nat s = foldl (\<lambda>n c. 10 * n + (of_char c - 48)) 0 s"

lemma of_char_digit: "d < 10 \<Longrightarrow> (of_char (digit_char d) :: nat) = 48 + d"
  by (simp add: digit_char_def)

lemma str_nat_nat_str [simp]: "str_nat (nat_str n) = n"
proof (induction n rule: nat_str.induct)
  case (1 n)
  show ?case
  proof (cases "n < 10")
    case True
    then show ?thesis by (simp add: nat_str.simps[of n] str_nat_def of_char_digit)
  next
    case False
    with "1" have "str_nat (nat_str (n div 10)) = n div 10" by simp
    with False show ?thesis
      by (simp add: nat_str.simps[of n] str_nat_def of_char_digit)
  qed
qed

lemma nat_str_inject [simp]: "nat_str m = nat_str n \<longleftrightarrow> m = n"
  by (metis str_nat_nat_str)

section \<open>JSON values\<close>

text \<open>
  \<open>JFloat\<close> holds the text Python's \<open>repr\<close> gives a float, \<open>JOther\<close> the text \<open>str\<close> gives an
  object json cannot encode (the \<open>default=str\<close> of the calls).
\<close>

datatype json =
    JNull
  | JBool bool
  | JInt int
  | JFloat string
  | JStr string
  | JList "json list"
  | JDict "(string \<times> json) list"
  | JOther string

definition hex_char :: "nat \<Rightarrow> char" where
  "hex_char d = (if d < 10 then char_of (48 + d) else char_of (87 + d))"

text \<open>The escapes of json's ASCII encoder for one code point below 256.\<close>

definition json_escape :: "char \<Rightarrow> string" where
  "json_escape c =
    (let n = (of_char c :: nat) in
     if n = 92 then [char_of (92::nat), char_of (92::nat)]
     else if n = 34 then [char_of (92::nat), char_of (34::nat)]
     else if n = 10 then [char_of (92::nat), CHR ''n'']
     else if n = 13 then [char_of (92::nat), CHR ''r'']
     else if n = 9 then [char_of (92::nat), CHR ''t'']
     else if n = 12 then [char_of (92::nat), CHR ''f'']
     else if n = 8 then [char_of (92::nat), CHR ''b'']
     else if 32 \<le> n \<and> n \<le> 126 then [c]
     else [char_of (92::nat), CHR ''u'', CHR ''0'', CHR ''0'', hex_char (n div 16), hex_char (n mod 16)])"

definition json_quote :: "string \<Rightarrow> string" where
  "json_quote s = [char_of (34::nat)] @ concat (map json_escape s) @ [char_of (34::nat)]"

fun dumps :: "json \<Rightarrow> string" where
  "dumps JNull = ''null''"
| "dumps (JBool b) = (if b then ''true'' else ''false'')"
| "dumps (JInt i) = int_str i"
| "dumps (JFloat s) = s"
| "dumps (JStr s) = json_quote s"
| "dumps (JList xs) = ''['' @ join '', '' (map dumps xs) @ '']''"
| "dumps (JDict kvs) = ''{'' @ join '', '' (map (\<lambda>(k, s). json_quote k @ '': '' @ s)
     (sort_key fst (map (\<lambda>(k, v). (k, dumps v)) kvs))) @ ''}''"
| "dumps (JOther s) = json_quote s"

text \<open>\<open>if v:\<close> of a value, and of an optional str, dict or int.\<close>

fun truthy :: "json \<Rightarrow> bool" where
  "truthy JNull = False"
| "truthy (JBool b) = b"
| "truthy (JInt i) = (i \<noteq> 0)"
| "truthy (JFloat s) = (s \<noteq> ''0.0'' \<and> s \<noteq> ''-0.0'')"
| "truthy (JStr s) = (s \<noteq> [])"
| "truthy (JList xs) = (xs \<noteq> [])"
| "truthy (JDict d) = (d \<noteq> [])"
| "truthy (JOther s) = True"

definition nonempty :: "'a list option \<Rightarrow> bool" where
  "nonempty s \<longleftrightarrow> (case s of None \<Rightarrow> False | Some xs \<Rightarrow> xs \<noteq> [])"

lemma nonempty_simps [simp]: "\<not> nonempty None" "nonempty (Some xs) \<longleftrightarrow> xs \<noteq> []"
  by (simp_all add: nonempty_def)

text \<open>
  \<open>same_json\<close>: two values that differ at most in the insertion order of dict entries, at any
  depth.
\<close>

inductive same_json :: "json \<Rightarrow> json \<Rightarrow> bool" where
  same_refl: "same_json a a"
| same_list: "list_all2 same_json xs ys \<Longrightarrow> same_json (JList xs) (JList ys)"
| same_dict: "mset p' = mset q \<Longrightarrow> distinct (keys p) \<Longrightarrow>
    list_all2 (\<lambda>x y. fst x = fst y \<and> same_json (snd x) (snd y)) p p' \<Longrightarrow> same_json (JDict p) (JDict q)"

lemma filter_key_unique:
  "distinct (map fst zs) \<Longrightarrow> x \<in> set zs \<Longrightarrow> filter (\<lambda>y. fst x = fst y) zs = [x]"
  by (induction zs) (auto simp: filter_empty_conv image_iff)

lemma sort_key_fst_perm:
  fixes xs ys :: "('a::linorder \<times> 'b) list"
  assumes "mset xs = mset ys" and "distinct (map fst xs)"
  shows "sort_key fst xs = sort_key fst ys"
proof (rule properties_for_sort_key [symmetric])
  show "mset (sort_key fst xs) = mset ys" using assms by simp
  show "sorted (map fst (sort_key fst xs))" by simp
  have dy: "distinct (map fst ys)"
    using assms mset_eq_imp_distinct_iff[of "map fst xs" "map fst ys"] by simp
  have dx: "distinct (map fst (sort_key fst xs))"
    using assms(2) mset_eq_imp_distinct_iff[of "map fst (sort_key fst xs)" "map fst xs"] by simp
  fix k assume k: "k \<in> set (sort_key fst xs)"
  then have "k \<in> set ys" using mset_eq_setD[OF assms(1)] by simp
  then show "filter (\<lambda>x. fst k = fst x) (sort_key fst xs) = filter (\<lambda>x. fst k = fst x) ys"
    by (simp only: filter_key_unique[OF dx k] filter_key_unique[OF dy])
qed

lemma keys_map_snd: "map fst (map (\<lambda>(k, v). (k, f v)) p) = map fst p"
  by (induction p) auto

lemma dumps_same_json: "same_json a b \<Longrightarrow> dumps a = dumps b"
proof (induction rule: same_json.induct)
  case (same_list xs ys)
  then have "map dumps xs = map dumps ys"
    by (simp add: list_all2_conv_all_nth list_eq_iff_nth_eq)
  then show ?case by simp
next
  case (same_dict p' q p)
  let ?d = "\<lambda>(k, v). (k, dumps v)"
  have ks: "map fst p = map fst p'" and ps: "map ?d p = map ?d p'"
    using same_dict(3)
    by (simp_all add: list_all2_conv_all_nth list_eq_iff_nth_eq case_prod_unfold)
  have "mset (map ?d p') = mset (map ?d q)" using same_dict(1) by simp
  moreover have "distinct (map fst (map ?d p'))"
    using same_dict(2) ks by (simp only: keys_map_snd)
  ultimately have "sort_key fst (map ?d p') = sort_key fst (map ?d q)"
    by (rule sort_key_fst_perm)
  with ps show ?case by simp
qed simp

end
