(* ===== verification/Snapshots.thy ===== *)
theory Snapshots
  imports Prelude
begin

text \<open>
  \<open>sky_claw/antigravity/db/snapshot_manager.py\<close>: snapshots of files, their restoration and the limit
  on their total size.  The file system is a dict from paths (lists of components) to contents;
  directories are not stored: one exists while a file lies under it.  \<open>sha256\<close> is the hex digest of
  a content, \<open>loads\<close> is \<open>json.loads\<close> (\<open>None\<close>: it raises a \<open>ValueError\<close>) and \<open>parse_date\<close> gives the
  timestamp of a directory name in the form \<open>%Y-%m-%d\<close> (\<open>None\<close>: any other name).
\<close>

type_synonym path = "string list"
type_synonym file_system = "(path, string) dict"

definition inside :: "path \<Rightarrow> path \<Rightarrow> bool" where
  "inside d p \<longleftrightarrow> length d < length p \<and> take (length d) p = d"

definition is_directory :: "file_system \<Rightarrow> path \<Rightarrow> bool" where
  "is_directory fs p \<longleftrightarrow> list_ex (inside p) (keys fs)"

definition tree_size :: "file_system \<Rightarrow> path \<Rightarrow> nat" where
  "tree_size fs d = sum_list (map (\<lambda>x. length (snd x)) (filter (\<lambda>x. inside d (fst x)) fs))"

definition rmtree :: "path \<Rightarrow> file_system \<Rightarrow> file_system" where
  "rmtree d fs = filter (\<lambda>x. \<not> inside d (fst x)) fs"

text \<open>\<open>p.with_suffix(p.suffix + s)\<close> appends to the last component.\<close>

definition add_suffix :: "path \<Rightarrow> string \<Rightarrow> path" where
  "add_suffix p s = (if p = [] then p else butlast p @ [last p @ s])"

record snapshot_store =
  snapshot_dir :: path
  max_size_bytes :: nat

record snapshot_info =
  snapshot_id :: string
  original_path :: path
  snapshot_path :: path
  checksum :: string
  size_bytes :: nat
  snap_metadata :: json

datatype snapshot_error = Journal_Snapshot_Error string | Uncaught string

section \<open>The size limit\<close>

text \<open>The directories right under the snapshot directory, in some order.\<close>

definition subdirs :: "path \<Rightarrow> file_system \<Rightarrow> string list" where
  "subdirs d fs = remdups (map (\<lambda>x. fst x ! length d)
     (filter (\<lambda>x. inside d (fst x) \<and> length d + 1 < length (fst x)) fs))"

definition dated_dirs :: "(string \<Rightarrow> int option) \<Rightarrow> path \<Rightarrow> file_system \<Rightarrow> string list" where
  "dated_dirs parse_date d fs =
    sort_key (\<lambda>n. the (parse_date n)) (filter (\<lambda>n. parse_date n \<noteq> None) (subdirs d fs))"

fun remove_oldest :: "snapshot_store \<Rightarrow> string list \<Rightarrow> int \<Rightarrow> file_system \<Rightarrow> file_system" where
  "remove_oldest m [] current_size fs = fs"
| "remove_oldest m (d # ds) current_size fs =
    (if real_of_int current_size \<le> real (max_size_bytes m) * (9/10) then fs
     else let dir = snapshot_dir m @ [d]
          in remove_oldest m ds (current_size - int (tree_size fs dir)) (rmtree dir fs))"

definition enforce_size_limit :: "(string \<Rightarrow> int option) \<Rightarrow> snapshot_store \<Rightarrow> file_system \<Rightarrow> file_system" where
  "enforce_size_limit parse_date m fs =
    (let current_size = tree_size fs (snapshot_dir m) in
     if current_size \<le> max_size_bytes m then fs
     else remove_oldest m (dated_dirs parse_date (snapshot_dir m) fs) (int current_size) fs)"

section \<open>Creating\<close>

text \<open>
  One creation: the day and the identifier the clock gives, and, when an \<open>OSError\<close> interrupts it, the
  file system it leaves.
\<close>

record create_env =
  day :: string
  new_id :: string
  os_error :: "file_system option"

definition snapshot_file :: "snapshot_store \<Rightarrow> create_env \<Rightarrow> path \<Rightarrow> path" where
  "snapshot_file m env p = snapshot_dir m @ [day env, new_id env @ ''_'' @ last p]"

definition meta_file :: "path \<Rightarrow> path" where
  "meta_file sp = add_suffix sp ''.meta.json''"

definition meta_text :: "string \<Rightarrow> string" where
  "meta_text c = dumps (JDict [(''checksum'', JStr c)])"

definition copied ::
  "(string \<Rightarrow> string) \<Rightarrow> snapshot_store \<Rightarrow> create_env \<Rightarrow> path \<Rightarrow> string \<Rightarrow> file_system \<Rightarrow> file_system" where
  "copied sha256 m env p content fs =
    dset (meta_file (snapshot_file m env p)) (meta_text (sha256 content))
      (dset (snapshot_file m env p) content fs)"

definition create_snapshot ::
  "(string \<Rightarrow> string) \<Rightarrow> (string \<Rightarrow> int option) \<Rightarrow> snapshot_store \<Rightarrow> create_env \<Rightarrow> path \<Rightarrow> json \<Rightarrow> file_system \<Rightarrow>
   file_system \<times> (snapshot_error + snapshot_info)" where
  "create_snapshot sha256 parse_date m env p metadata fs =
    (case dget fs p of
       None \<Rightarrow> (fs, Inl (Journal_Snapshot_Error
          (if is_directory fs p then ''Cannot create snapshot: path is not a file''
           else ''Cannot create snapshot: file does not exist'')))
     | Some content \<Rightarrow>
        (case os_error env of
           Some fs' \<Rightarrow> (fs', Inl (Journal_Snapshot_Error ''Failed to create snapshot''))
         | None \<Rightarrow>
            (enforce_size_limit parse_date m (copied sha256 m env p content fs),
             Inr \<lparr>snapshot_id = new_id env, original_path = p, snapshot_path = snapshot_file m env p,
                  checksum = sha256 content, size_bytes = length content, snap_metadata = metadata\<rparr>)))"

text \<open>The synchronous version does not enforce the limit.\<close>

definition create_snapshot_sync ::
  "(string \<Rightarrow> string) \<Rightarrow> snapshot_store \<Rightarrow> create_env \<Rightarrow> path \<Rightarrow> json \<Rightarrow> file_system \<Rightarrow>
   file_system \<times> (snapshot_error + snapshot_info)" where
  "create_snapshot_sync sha256 m env p metadata fs =
    (case dget fs p of
       None \<Rightarrow> (fs, Inl (Journal_Snapshot_Error (if is_directory fs p then ''Failed to create snapshot''
           else ''Cannot create snapshot: file does not exist'')))
     | Some content \<Rightarrow>
        (case os_error env of
           Some fs' \<Rightarrow> (fs', Inl (Journal_Snapshot_Error ''Failed to create snapshot''))
         | None \<Rightarrow>
            (copied sha256 m env p content fs,
             Inr \<lparr>snapshot_id = new_id env, original_path = p, snapshot_path = snapshot_file m env p,
                  checksum = sha256 content, size_bytes = length content, snap_metadata = metadata\<rparr>)))"

section \<open>Checksums\<close>

text \<open>\<open>int(s, 16)\<close> accepts: blanks around, a sign, a prefix \<open>0x\<close>, digits with single underscores.\<close>

definition hex_digit :: "char \<Rightarrow> bool" where
  "hex_digit c \<longleftrightarrow> c \<in> set ''0123456789abcdefABCDEF''"

fun hex_digits :: "string \<Rightarrow> bool" where
  "hex_digits [] = False"
| "hex_digits [c] = hex_digit c"
| "hex_digits (c # d # s) = (hex_digit c \<and> (if d = CHR ''_'' then hex_digits s else hex_digits (d # s)))"

definition strip_blank :: "string \<Rightarrow> string" where
  "strip_blank s = (let b = (\<lambda>c. c = CHR '' '' \<or> c \<in> {CHR 0x09, CHR 0x0A, CHR 0x0B, CHR 0x0C, CHR 0x0D,
       CHR 0x1C, CHR 0x1D, CHR 0x1E, CHR 0x1F, CHR 0x85, CHR 0xA0})
     in rev (dropWhile b (rev (dropWhile b s))))"

definition int16_ok :: "string \<Rightarrow> bool" where
  "int16_ok s =
    (let t = strip_blank s;
         u = (case t of [] \<Rightarrow> [] | c # cs \<Rightarrow> if c = CHR ''+'' \<or> c = CHR ''-'' then cs else t);
         v = (if take 2 u = ''0x'' \<or> take 2 u = ''0X''
              then (case drop 2 u of [] \<Rightarrow> [] | c # cs \<Rightarrow> if c = CHR ''_'' then cs else c # cs) else u)
     in hex_digits v)"

definition validate_checksum_format :: "string \<Rightarrow> bool" where
  "validate_checksum_format c \<longleftrightarrow> length c = 64 \<and> int16_ok c"

text \<open>
  The checksum in the sidecar.  Its caught errors (\<open>OSError\<close>, \<open>ValueError\<close>) give None; a JSON value
  that is no dict, or a checksum that has no length, raises.
\<close>

definition extract_checksum_from_meta ::
  "(string \<Rightarrow> json option) \<Rightarrow> file_system \<Rightarrow> path \<Rightarrow> snapshot_error + string option" where
  "extract_checksum_from_meta loads fs sp =
    (case dget fs (meta_file sp) of
       None \<Rightarrow> Inr None
     | Some text \<Rightarrow>
        (case loads text of
           None \<Rightarrow> Inr None
         | Some (JDict d) \<Rightarrow>
             (case dget_or d ''checksum'' (JStr []) of
                JStr c \<Rightarrow> Inr (if validate_checksum_format c then Some c else None)
              | JList xs \<Rightarrow> if length xs \<noteq> 64 then Inr None else Inl (Uncaught ''TypeError'')
              | JDict e \<Rightarrow> if length e \<noteq> 64 then Inr None else Inl (Uncaught ''TypeError'')
              | _ \<Rightarrow> Inl (Uncaught ''TypeError''))
         | Some _ \<Rightarrow> Inl (Uncaught ''AttributeError'')))"

section \<open>Restoring\<close>

text \<open>Where an \<open>OSError\<close> strikes; a failed copy may leave part of the content in the target.\<close>

datatype restore_fault = No_Io_Fault | Backup_Fails | Copy_Fails string

definition backup_file :: "path \<Rightarrow> path" where
  "backup_file p = add_suffix p ''.restore_backup''"

definition restore_snapshot ::
  "(string \<Rightarrow> string) \<Rightarrow> (string \<Rightarrow> json option) \<Rightarrow> restore_fault \<Rightarrow> path \<Rightarrow> path \<Rightarrow> bool \<Rightarrow> file_system \<Rightarrow>
   file_system \<times> (snapshot_error + bool)" where
  "restore_snapshot sha256 loads io sp target verify fs =
    (case dget fs sp of
       None \<Rightarrow> (fs, Inl (Journal_Snapshot_Error ''Snapshot file does not exist''))
     | Some content \<Rightarrow>
        (let old = dget fs target; backup = backup_file target;
             fs1 = (case old of None \<Rightarrow> fs | Some c \<Rightarrow> dset backup c fs);
             failed = Inl (Journal_Snapshot_Error ''Failed to restore snapshot'')
         in if io = Backup_Fails \<and> old \<noteq> None then (fs, failed)
            else case io of
              Copy_Fails partial \<Rightarrow> (dset target partial fs1, failed)
            | _ \<Rightarrow>
               (let fs2 = dset target content fs1 in
                case (if verify then extract_checksum_from_meta loads fs2 sp else Inr None) of
                  Inl e \<Rightarrow> (fs2, Inl e)
                | Inr expected \<Rightarrow>
                    if expected \<noteq> None \<and> expected \<noteq> Some (sha256 content)
                    then (case old of None \<Rightarrow> fs2 | Some c \<Rightarrow> ddel backup (dset target c fs2),
                          Inl (Journal_Snapshot_Error ''Checksum verification failed''))
                    else (case old of None \<Rightarrow> fs2 | Some _ \<Rightarrow> ddel backup fs2, Inr True))))"

section \<open>Cleaning up\<close>

record cleanup_result =
  deleted_count :: nat
  freed_bytes :: nat

definition tree_count :: "file_system \<Rightarrow> path \<Rightarrow> nat" where
  "tree_count fs d = length (filter (\<lambda>x. inside d (fst x)) fs)"

text \<open>\<open>dir_time\<close> is \<open>mktime(strptime(name))\<close>; a directory is old when it is before the cutoff.\<close>

definition cleanup_old_snapshots ::
  "(string \<Rightarrow> real option) \<Rightarrow> snapshot_store \<Rightarrow> nat \<Rightarrow> bool \<Rightarrow> real \<Rightarrow> file_system \<Rightarrow> file_system \<times> cleanup_result" where
  "cleanup_old_snapshots dir_time m days_old dry_run now fs =
    (let cutoff = now - real (days_old * 24 * 60 * 60);
         old = filter (\<lambda>n. case dir_time n of None \<Rightarrow> False | Some t \<Rightarrow> t < cutoff) (subdirs (snapshot_dir m) fs);
         dirs = map (\<lambda>n. snapshot_dir m @ [n]) old
     in (if dry_run then fs else foldl (\<lambda>fs d. rmtree d fs) fs dirs,
         \<lparr>deleted_count = sum_list (map (tree_count fs) dirs), freed_bytes = sum_list (map (tree_size fs) dirs)\<rparr>))"

text \<open>\<open>matches\<close> is the glob pattern on a path under the snapshot directory.\<close>

definition cleanup_by_pattern ::
  "(path \<Rightarrow> bool) \<Rightarrow> snapshot_store \<Rightarrow> bool \<Rightarrow> file_system \<Rightarrow> file_system \<times> cleanup_result" where
  "cleanup_by_pattern matches m dry_run fs =
    (let hit = (\<lambda>x. inside (snapshot_dir m) (fst x) \<and> matches (fst x)); found = filter hit fs
     in (if dry_run then fs else filter (\<lambda>x. \<not> hit x) fs,
         \<lparr>deleted_count = length found, freed_bytes = sum_list (map (\<lambda>x. length (snd x)) found)\<rparr>))"

section \<open>Lemmas\<close>

lemma inside_iff: "inside d p \<longleftrightarrow> (\<exists>q. q \<noteq> [] \<and> p = d @ q)"
  unfolding inside_def by (metis append_eq_conv_conj append_self_conv append_take_drop_id length_append
      length_greater_0_conv less_add_same_cancel1 nat_neq_iff)

lemma inside_snoc: "inside (d @ [n]) p \<Longrightarrow> inside d p"
  by (auto simp: inside_iff)

lemma dget_rmtree [simp]: "dget (rmtree d fs) p = (if inside d p then None else dget fs p)"
  unfolding rmtree_def by (subst dget_filter_key) simp

lemma tree_size_split:
  "tree_size fs d = tree_size (rmtree (d @ [n]) fs) d + tree_size fs (d @ [n])"
  unfolding tree_size_def rmtree_def by (induction fs) (auto dest: inside_snoc)

lemma tree_size_rmtree_other: "tree_size (rmtree d fs) e \<le> tree_size fs e"
  unfolding tree_size_def rmtree_def by (induction fs) auto

lemma tree_size_rmtree_self [simp]: "tree_size (rmtree d fs) d = 0"
  unfolding tree_size_def rmtree_def by (induction fs) auto

lemma remove_oldest_dget:
  "dget (remove_oldest m ds n fs) p = dget fs p
   \<or> (dget (remove_oldest m ds n fs) p = None \<and> inside (snapshot_dir m) p)"
proof (induction ds arbitrary: n fs)
  case (Cons d ds)
  then show ?case
    using Cons.IH[of "n - int (tree_size fs (snapshot_dir m @ [d]))" "rmtree (snapshot_dir m @ [d]) fs"]
    by (auto simp: Let_def dest: inside_snoc split: if_splits)
qed simp

lemma enforce_dget:
  "dget (enforce_size_limit parse_date m fs) p = dget fs p
   \<or> (dget (enforce_size_limit parse_date m fs) p = None \<and> inside (snapshot_dir m) p)"
  using remove_oldest_dget by (auto simp: enforce_size_limit_def Let_def)

lemma remove_oldest_mono: "tree_size (remove_oldest m ds n fs) e \<le> tree_size fs e"
proof (induction ds arbitrary: n fs)
  case (Cons d ds)
  have "tree_size (rmtree (snapshot_dir m @ [d]) fs) e \<le> tree_size fs e" by (rule tree_size_rmtree_other)
  with Cons show ?case by (auto simp: Let_def intro: le_trans)
qed simp

lemma remove_oldest_size:
  "(let fs' = remove_oldest m ds (int (tree_size fs (snapshot_dir m))) fs in
    real (tree_size fs' (snapshot_dir m)) \<le> real (max_size_bytes m) * (9/10)
    \<or> (\<forall>d \<in> set ds. tree_size fs' (snapshot_dir m @ [d]) = 0))"
proof (induction ds arbitrary: fs)
  case (Cons d ds)
  let ?dir = "snapshot_dir m @ [d]"
  have size: "int (tree_size fs (snapshot_dir m)) - int (tree_size fs ?dir) = int (tree_size (rmtree ?dir fs) (snapshot_dir m))"
    using tree_size_split[of fs "snapshot_dir m" d] by simp
  have "tree_size (remove_oldest m ds k (rmtree ?dir fs)) ?dir = 0" for k
    using remove_oldest_mono[of m ds k "rmtree ?dir fs" ?dir] by simp
  then show ?case using Cons[of "rmtree ?dir fs"] size by (auto simp: Let_def)
qed simp

section \<open>Properties\<close>

text \<open>
  After a creation the snapshot directory is within the limit, or within nine tenths of it, or
  nothing is left in any of its dated directories.
\<close>

theorem size_limit_enforced:
  "(let fs' = enforce_size_limit parse_date m fs in
     tree_size fs' (snapshot_dir m) \<le> max_size_bytes m
     \<or> (\<forall>d \<in> set (dated_dirs parse_date (snapshot_dir m) fs). tree_size fs' (snapshot_dir m @ [d]) = 0))
   \<and> (\<forall>p. \<not> inside (snapshot_dir m) p \<longrightarrow> dget (enforce_size_limit parse_date m fs) p = dget fs p)"
proof -
  let ?n = "tree_size fs (snapshot_dir m)"
  have "\<not> inside (snapshot_dir m) p \<longrightarrow> dget (enforce_size_limit parse_date m fs) p = dget fs p" for p
    using enforce_dget by blast
  moreover have "tree_size (enforce_size_limit parse_date m fs) (snapshot_dir m) \<le> max_size_bytes m
     \<or> (\<forall>d \<in> set (dated_dirs parse_date (snapshot_dir m) fs).
          tree_size (enforce_size_limit parse_date m fs) (snapshot_dir m @ [d]) = 0)"
    using remove_oldest_size[of m "dated_dirs parse_date (snapshot_dir m) fs" fs]
    by (auto simp: enforce_size_limit_def Let_def)
  ultimately show ?thesis by (simp add: Let_def)
qed

lemma inside_add_suffix [simp]: "p \<noteq> [] \<Longrightarrow> inside d (add_suffix p s) \<longleftrightarrow> inside d p"
proof -
  assume "p \<noteq> []"
  then obtain q x where "p = q @ [x]" by (cases p rule: rev_cases) auto
  then show ?thesis by (auto simp: add_suffix_def inside_def)
qed

lemma snapshot_paths:
  "inside (snapshot_dir m) (snapshot_file m env p)"
  "meta_file (snapshot_file m env p) = snapshot_dir m @ [day env, (new_id env @ ''_'' @ last p) @ ''.meta.json'']"
  "inside (snapshot_dir m) (meta_file (snapshot_file m env p))"
  "meta_file (snapshot_file m env p) \<noteq> snapshot_file m env p"
  by (auto simp: snapshot_file_def inside_def meta_file_def add_suffix_def butlast_append)

lemma create_snapshot_Inr:
  "create_snapshot sha256 parse_date m env p md fs = (fs1, Inr info) \<Longrightarrow>
   \<exists>c. dget fs p = Some c \<and> fs1 = enforce_size_limit parse_date m (copied sha256 m env p c fs)
     \<and> snapshot_path info = snapshot_file m env p \<and> original_path info = p \<and> checksum info = sha256 c"
  by (auto simp: create_snapshot_def split: option.splits)

text \<open>What a creation leaves at the snapshot, at its sidecar and elsewhere, unless the limit removed it.\<close>

lemma create_snapshot_files:
  assumes "create_snapshot sha256 parse_date m env p md fs = (fs1, Inr info)"
  obtains c where "dget fs p = Some c"
    and "dget fs1 (snapshot_path info) \<in> {Some c, None}"
    and "dget fs1 (meta_file (snapshot_path info)) \<in> {Some (meta_text (sha256 c)), None}"
    and "\<And>q. \<not> inside (snapshot_dir m) q \<Longrightarrow> dget fs1 q = dget fs q"
proof -
  obtain c where c: "dget fs p = Some c" and fs1: "fs1 = enforce_size_limit parse_date m (copied sha256 m env p c fs)"
    and sp: "snapshot_path info = snapshot_file m env p"
    using create_snapshot_Inr[OF assms] by blast
  note e = enforce_dget[of parse_date m "copied sha256 m env p c fs"]
  show thesis
  proof (rule that[OF c])
    show "dget fs1 (snapshot_path info) \<in> {Some c, None}"
      "dget fs1 (meta_file (snapshot_path info)) \<in> {Some (meta_text (sha256 c)), None}"
      using e[of "snapshot_file m env p"] e[of "meta_file (snapshot_file m env p)"] snapshot_paths(4)[of m env p]
      by (auto simp: fs1 sp copied_def)
    fix q assume "\<not> inside (snapshot_dir m) q"
    then show "dget fs1 q = dget fs q" using e[of q] snapshot_paths(1,3)[of m env p]
      by (auto simp: fs1 copied_def)
  qed
qed

lemma extract_meta:
  "loads (meta_text h) = Some (JDict [(''checksum'', JStr h)]) \<Longrightarrow>
   dget fs (meta_file sp) \<in> {Some (meta_text h), None} \<Longrightarrow>
   extract_checksum_from_meta loads fs sp \<in> {Inr None, Inr (Some h)}"
  by (auto simp: extract_checksum_from_meta_def dget_or_def)

text \<open>A snapshot whose checksum is right, or unknown, is restored.\<close>

lemma restore_verified:
  assumes "dget fs sp = Some c" "p \<noteq> []" "meta_file sp \<noteq> p" "meta_file sp \<noteq> backup_file p"
    and "\<And>fs'. dget fs' (meta_file sp) = dget fs (meta_file sp) \<Longrightarrow> extract_checksum_from_meta loads fs' sp \<in> {Inr None, Inr (Some (sha256 c))}"
  shows "\<exists>fs'. restore_snapshot sha256 loads No_Io_Fault sp p True fs = (fs', Inr True)
    \<and> dget fs' p = Some c \<and> (\<forall>q. q \<noteq> p \<longrightarrow> q \<noteq> backup_file p \<longrightarrow> dget fs' q = dget fs q)"
proof -
  have b: "backup_file p \<noteq> p" using assms(2)
    by (cases p rule: rev_cases) (auto simp: backup_file_def add_suffix_def)
  let ?fs2 = "dset p c (case dget fs p of None \<Rightarrow> fs | Some o' \<Rightarrow> dset (backup_file p) o' fs)"
  have "dget ?fs2 (meta_file sp) = dget fs (meta_file sp)" using assms(3,4) by (auto split: option.split)
  then have x: "extract_checksum_from_meta loads ?fs2 sp \<in> {Inr None, Inr (Some (sha256 c))}" by (rule assms(5))
  show ?thesis
  proof (cases "dget fs p")
    case None
    then show ?thesis using x assms(1) by (auto simp: restore_snapshot_def Let_def)
  next
    case (Some old)
    then show ?thesis using x assms(1) b by (auto simp: restore_snapshot_def Let_def)
  qed
qed

text \<open>
  C17: a snapshot undoes whatever happened to its file: as long as the snapshot and its sidecar are as
  the creation left them and no I/O fails, restoring it, checksum verified, succeeds and gives the file
  back the content it had.  No other file changes but the backup: when the file is still there its
  \<open>.restore_backup\<close> is written and removed, so that none is left, not even one from before; when the
  file is gone no backup is touched.
\<close>

theorem restore_undoes_changes:
  assumes "create_snapshot sha256 parse_date m env p md fs = (fs1, Inr info)"
    and "dget fs1 (snapshot_path info) \<noteq> None" and "p \<noteq> []" and "\<not> inside (snapshot_dir m) p"
    and "dget fs p = Some content"
    and "loads (meta_text (sha256 content)) = Some (JDict [(''checksum'', JStr (sha256 content))])"
    and "dget fs2 (snapshot_path info) = dget fs1 (snapshot_path info)"
    and "dget fs2 (meta_file (snapshot_path info)) = dget fs1 (meta_file (snapshot_path info))"
  shows "\<exists>fs3. restore_snapshot sha256 loads No_Io_Fault (snapshot_path info) p True fs2 = (fs3, Inr True)
    \<and> dget fs3 p = dget fs p \<and> (\<forall>q. q \<noteq> p \<longrightarrow> q \<noteq> backup_file p \<longrightarrow> dget fs3 q = dget fs2 q)
    \<and> dget fs3 (backup_file p) = (if dget fs2 p = None then dget fs2 (backup_file p) else None)"
proof -
  obtain c where c: "dget fs p = Some c" and sp: "dget fs2 (snapshot_path info) = Some c"
    and meta: "dget fs2 (meta_file (snapshot_path info)) \<in> {Some (meta_text (sha256 c)), None}"
    using assms(1,2,7,8) by (auto elim: create_snapshot_files)
  have law: "loads (meta_text (sha256 c)) = Some (JDict [(''checksum'', JStr (sha256 c))])"
    using c assms(5,6) by simp
  have "snapshot_path info = snapshot_file m env p" using create_snapshot_Inr[OF assms(1)] by blast
  then have ne: "meta_file (snapshot_path info) \<noteq> p" "meta_file (snapshot_path info) \<noteq> backup_file p"
    using snapshot_paths(3)[of m env p] assms(3,4) inside_add_suffix[of p "snapshot_dir m" "''.restore_backup''"]
    by (auto simp: backup_file_def)
  have pb: "backup_file p \<noteq> p" using assms(3)
    by (cases p rule: rev_cases) (auto simp: backup_file_def add_suffix_def)
  let ?fs1 = "case dget fs2 p of None \<Rightarrow> fs2 | Some old \<Rightarrow> dset (backup_file p) old fs2"
  have "dget (dset p c ?fs1) (meta_file (snapshot_path info)) \<in> {Some (meta_text (sha256 c)), None}"
    using meta ne by (auto split: option.split)
  then have "extract_checksum_from_meta loads (dset p c ?fs1) (snapshot_path info) \<in> {Inr None, Inr (Some (sha256 c))}"
    by (rule extract_meta[of loads, OF law])
  then show ?thesis using sp c pb
    by (cases "dget fs2 p") (auto simp: restore_snapshot_def Let_def)
qed

definition demo_store :: snapshot_store where
  "demo_store = \<lparr>snapshot_dir = [''snap''], max_size_bytes = 1000\<rparr>"

definition demo_env :: create_env where
  "demo_env = \<lparr>day = ''2025-01-01'', new_id = ''id'', os_error = None\<rparr>"

definition demo_fs :: file_system where
  "demo_fs = [([''mods'', ''a.esp''], ''old'')]"

lemma demo_create:
  "create_snapshot id (\<lambda>_. Some 0) demo_store demo_env [''mods'', ''a.esp''] JNull demo_fs =
    (copied id demo_store demo_env [''mods'', ''a.esp''] ''old'' demo_fs,
     Inr \<lparr>snapshot_id = ''id'', original_path = [''mods'', ''a.esp''],
       snapshot_path = [''snap'', ''2025-01-01'', ''id_a.esp''], checksum = ''old'', size_bytes = 3, snap_metadata = JNull\<rparr>)"
proof -
  have "tree_size (copied id demo_store demo_env [''mods'', ''a.esp''] ''old'' demo_fs) [''snap''] \<le> 1000"
    by (simp add: copied_def snapshot_file_def meta_file_def add_suffix_def demo_store_def demo_env_def demo_fs_def
        tree_size_def inside_def meta_text_def json_quote_def json_escape_def)
  then show ?thesis
    by (simp add: create_snapshot_def enforce_size_limit_def demo_store_def demo_env_def snapshot_file_def demo_fs_def Let_def)
qed

theorem size_limit_enforced_witness:
  "dget (enforce_size_limit (\<lambda>_. Some 0) \<lparr>snapshot_dir = [''snap''], max_size_bytes = 1\<rparr>
      (copied id demo_store demo_env [''mods'', ''a.esp''] ''old'' demo_fs)) [''mods'', ''a.esp''] = Some ''old''"
proof -
  let ?m = "\<lparr>snapshot_dir = [''snap''], max_size_bytes = 1\<rparr>" and ?p = "[''mods'', ''a.esp'']"
  let ?fs = "copied id demo_store demo_env ?p ''old'' demo_fs"
  have "\<not> inside (snapshot_dir ?m) ?p" by (simp add: inside_def)
  then have "dget (enforce_size_limit (\<lambda>_. Some 0) ?m ?fs) ?p = dget ?fs ?p"
    using size_limit_enforced[of "\<lambda>_. Some 0" ?m ?fs] by blast
  then show ?thesis
    by (simp add: copied_def snapshot_file_def meta_file_def add_suffix_def demo_env_def demo_fs_def demo_store_def)
qed

theorem restore_undoes_changes_witness:
  "\<exists>fs3. restore_snapshot id (\<lambda>_. Some (JDict [(''checksum'', JStr ''old'')])) No_Io_Fault
      [''snap'', ''2025-01-01'', ''id_a.esp''] [''mods'', ''a.esp''] True
      (dset [''mods'', ''a.esp''] ''broken'' (copied id demo_store demo_env [''mods'', ''a.esp''] ''old'' demo_fs)) = (fs3, Inr True)
    \<and> dget fs3 [''mods'', ''a.esp''] = Some ''old''"
proof -
  let ?p = "[''mods'', ''a.esp'']" and ?l = "\<lambda>_::string. Some (JDict [(''checksum'', JStr ''old'')])"
  let ?fs1 = "copied id demo_store demo_env ?p ''old'' demo_fs"
  have "\<exists>fs3. restore_snapshot id ?l No_Io_Fault [''snap'', ''2025-01-01'', ''id_a.esp''] ?p True (dset ?p ''broken'' ?fs1) = (fs3, Inr True)
    \<and> dget fs3 ?p = dget demo_fs ?p \<and> (\<forall>q. q \<noteq> ?p \<longrightarrow> q \<noteq> backup_file ?p \<longrightarrow> dget fs3 q = dget (dset ?p ''broken'' ?fs1) q)
    \<and> dget fs3 (backup_file ?p) = (if dget (dset ?p ''broken'' ?fs1) ?p = None then dget (dset ?p ''broken'' ?fs1) (backup_file ?p) else None)"
    using restore_undoes_changes[OF demo_create, of "''old''" ?l "dset ?p ''broken'' ?fs1"]
    by (simp add: demo_fs_def demo_store_def demo_env_def inside_def copied_def snapshot_file_def meta_file_def add_suffix_def)
  then show ?thesis by (auto simp: demo_fs_def)
qed

text \<open>
  A restore that fails its verification puts the target back: the file has the content it had
  before the restore, its backup is gone, nothing else changed, and the error is raised.
\<close>

theorem failed_verification_keeps_target:
  assumes "dget fs sp = Some corrupt" and "dget fs p = Some old" and "p \<noteq> []" and "meta_file sp \<notin> {p, backup_file p}"
    and "dget fs (meta_file sp) = Some text" and "loads text = Some (JDict [(''checksum'', JStr h)])"
    and "validate_checksum_format h" and "sha256 corrupt \<noteq> h"
  shows "\<exists>fs'. restore_snapshot sha256 loads No_Io_Fault sp p True fs
        = (fs', Inl (Journal_Snapshot_Error ''Checksum verification failed''))
      \<and> dget fs' p = Some old \<and> dget fs' (backup_file p) = None
      \<and> (\<forall>q. q \<noteq> backup_file p \<longrightarrow> dget fs' q = dget fs q)"
proof -
  have pb: "backup_file p \<noteq> p" using assms(3)
    by (cases p rule: rev_cases) (auto simp: backup_file_def add_suffix_def)
  have "extract_checksum_from_meta loads (dset p corrupt (dset (backup_file p) old fs)) sp = Inr (Some h)"
    using assms(4-7) by (simp add: extract_checksum_from_meta_def dget_or_def)
  then show ?thesis using assms(1,2,8) pb
    by (auto simp: restore_snapshot_def Let_def fun_eq_iff)
qed

definition demo_hash :: string where
  "demo_hash = replicate 64 (CHR ''0'')"

lemma demo_hash_ok: "validate_checksum_format demo_hash"
  unfolding demo_hash_def by code_simp

theorem failed_verification_keeps_target_witness:
  "\<exists>fs'. restore_snapshot (\<lambda>_. []) (\<lambda>_. Some (JDict [(''checksum'', JStr demo_hash)])) No_Io_Fault [''snap'', ''d'', ''s''] [''a''] True
      [([''snap'', ''d'', ''s''], ''bad''), ([''snap'', ''d'', ''s.meta.json''], ''x''), ([''a''], ''mine'')]
      = (fs', Inl (Journal_Snapshot_Error ''Checksum verification failed'')) \<and> dget fs' [''a''] = Some ''mine''"
proof -
  let ?fs = "[([''snap'', ''d'', ''s''], ''bad''), ([''snap'', ''d'', ''s.meta.json''], ''x''), ([''a''], ''mine'')]"
  have "meta_file [''snap'', ''d'', ''s''] = [''snap'', ''d'', ''s.meta.json'']" "backup_file [''a''] = [''a.restore_backup'']"
    by (simp_all add: meta_file_def backup_file_def add_suffix_def)
  then show ?thesis
    using failed_verification_keeps_target[of ?fs "[''snap'', ''d'', ''s'']" "''bad''" "[''a'']" "''mine''" "''x''"
      "\<lambda>_. Some (JDict [(''checksum'', JStr demo_hash)])" demo_hash "\<lambda>_. []"] demo_hash_ok
    by (auto simp: demo_hash_def)
qed

text \<open>
  The size limit can remove the snapshot it was called for: when all snapshots lie in today's
  directory and exceed the limit, \<open>create_snapshot\<close> reports success, but the snapshot it returns (and
  every earlier one of the day) no longer exists and restoring it fails.
\<close>

theorem limit_deletes_new_snapshot:
  assumes "dget fs p = Some content" and "os_error env = None" and "parse_date (day env) = Some ts"
    and "\<And>q. q \<in> set (keys fs) \<Longrightarrow> inside (snapshot_dir m) q \<Longrightarrow> inside (snapshot_dir m @ [day env]) q"
    and "max_size_bytes m < tree_size (copied sha256 m env p content fs) (snapshot_dir m)"
  shows "\<exists>fs1 info. create_snapshot sha256 parse_date m env p md fs = (fs1, Inr info)
    \<and> (\<forall>q. inside (snapshot_dir m) q \<longrightarrow> dget fs1 q = None)
    \<and> restore_snapshot sha256 loads io (snapshot_path info) target verify fs1
        = (fs1, Inl (Journal_Snapshot_Error ''Snapshot file does not exist''))"
proof -
  let ?d = "snapshot_dir m" and ?fs = "copied sha256 m env p content fs"
  let ?n = "tree_size ?fs ?d" and ?today = "snapshot_dir m @ [day env]"
  have new: "inside ?today (snapshot_file m env p)" "inside ?today (meta_file (snapshot_file m env p))"
    unfolding snapshot_paths(2) by (auto simp: snapshot_file_def inside_def)
  have keys_fs: "set (keys ?fs) = insert (meta_file (snapshot_file m env p)) (insert (snapshot_file m env p) (set (keys fs)))"
    unfolding copied_def by (simp only: set_keys_dset)
  have all: "inside ?today q" if "q \<in> set (keys ?fs)" "inside ?d q" for q
    using that assms(4)[of q] new unfolding keys_fs by blast
  have gone: "dget (rmtree ?today ?fs) q = None" if "inside ?d q" for q
  proof (cases "dget ?fs q")
    case (Some x)
    then have "q \<in> set (keys ?fs)" using dget_in_set[OF Some] by force
    then show ?thesis using all that by simp
  qed simp
  have "subdirs ?d ?fs = [day env]"
    unfolding subdirs_def
  proof (rule remdups_const)
    have "snapshot_file m env p \<in> set (keys ?fs)" unfolding keys_fs by blast
    then obtain x where x: "x \<in> set ?fs" "fst x = snapshot_file m env p" by auto
    then have "inside ?d (fst x) \<and> length ?d + 1 < length (fst x)" by (simp add: snapshot_file_def inside_def)
    with x(1) show "map (\<lambda>x. fst x ! length ?d) (filter (\<lambda>x. inside ?d (fst x) \<and> length ?d + 1 < length (fst x)) ?fs) \<noteq> []"
      unfolding map_is_Nil_conv filter_empty_conv by blast
  next
    fix y assume "y \<in> set (map (\<lambda>x. fst x ! length ?d) (filter (\<lambda>x. inside ?d (fst x) \<and> length ?d + 1 < length (fst x)) ?fs))"
    then obtain x where x: "x \<in> set ?fs" "inside ?d (fst x)" "y = fst x ! length ?d" by auto
    then have "inside ?today (fst x)" using all[of "fst x"] by force
    then show "y = day env" using x(3) by (auto simp: inside_iff nth_append)
  qed
  then have "dated_dirs parse_date ?d ?fs = [day env]" using assms(3) by (simp add: dated_dirs_def)
  moreover have "\<not> real_of_int (int ?n) \<le> real (max_size_bytes m) * (9/10)" using assms(5) by linarith
  ultimately have "enforce_size_limit parse_date m ?fs = rmtree ?today ?fs"
    using assms(5) by (simp add: enforce_size_limit_def Let_def)
  then show ?thesis using gone assms(1,2) snapshot_paths(1)[of m env p]
    by (auto simp: create_snapshot_def restore_snapshot_def)
qed

theorem limit_deletes_new_snapshot_witness:
  "\<exists>fs1 info. create_snapshot (\<lambda>_. []) (\<lambda>_. Some 0) \<lparr>snapshot_dir = [''snap''], max_size_bytes = 1\<rparr> demo_env
      [''mods'', ''a.esp''] JNull demo_fs = (fs1, Inr info)
    \<and> restore_snapshot (\<lambda>_. []) (\<lambda>_. None) No_Io_Fault (snapshot_path info) [''mods'', ''a.esp''] False fs1
        = (fs1, Inl (Journal_Snapshot_Error ''Snapshot file does not exist''))"
proof -
  let ?m = "\<lparr>snapshot_dir = [''snap''], max_size_bytes = 1\<rparr>" and ?p = "[''mods'', ''a.esp'']"
  have "dget demo_fs ?p = Some ''old''" "os_error demo_env = None" by (simp_all add: demo_fs_def demo_env_def)
  moreover have "inside (snapshot_dir ?m @ [day demo_env]) q"
    if "q \<in> set (keys demo_fs)" "inside (snapshot_dir ?m) q" for q
    using that by (simp add: demo_fs_def inside_def)
  moreover have "max_size_bytes ?m < tree_size (copied (\<lambda>_. []) ?m demo_env ?p ''old'' demo_fs) (snapshot_dir ?m)"
    by (simp add: copied_def snapshot_file_def meta_file_def add_suffix_def demo_env_def demo_fs_def
        tree_size_def inside_def)
  ultimately have "\<exists>fs1 info. create_snapshot (\<lambda>_. []) (\<lambda>_. Some 0) ?m demo_env ?p JNull demo_fs = (fs1, Inr info)
      \<and> (\<forall>q. inside (snapshot_dir ?m) q \<longrightarrow> dget fs1 q = None)
      \<and> restore_snapshot (\<lambda>_. []) (\<lambda>_. None) No_Io_Fault (snapshot_path info) ?p False fs1
        = (fs1, Inl (Journal_Snapshot_Error ''Snapshot file does not exist''))"
    by (intro limit_deletes_new_snapshot) auto
  then show ?thesis by blast
qed

end
