(* ===== verification/Net_Address.thy ===== *)
theory Net_Address
  imports Prelude "HOL-Library.Word"
begin

text \<open>
  What \<open>security/network_gateway.py\<close> and \<open>core/validators/ssrf.py\<close> use of Python's \<open>ipaddress\<close>:
  \<open>ip_address\<close> of a text, the properties \<open>is_private\<close>, \<open>is_loopback\<close> and \<open>is_link_local\<close> with the
  tables of CPython 3.13, and membership in a network.  An address is a 32-bit or 128-bit word; a zone
  after a percent sign is checked and forgotten.
\<close>

datatype ip = V4 "32 word" | V6 "128 word"

section \<open>Text\<close>

text \<open>\<open>s.split(c)\<close> for one character, and \<open>s.partition(c)\<close> (\<open>None\<close>: the separator is absent).\<close>

fun split_on :: "char \<Rightarrow> string \<Rightarrow> string list" where
  "split_on c [] = [[]]"
| "split_on c (x # xs) = (if x = c then [] # split_on c xs
     else case split_on c xs of [] \<Rightarrow> [[x]] | w # ws \<Rightarrow> (x # w) # ws)"

definition partition_at :: "char \<Rightarrow> string \<Rightarrow> string \<times> string option" where
  "partition_at c s = (if c \<in> set s then (takeWhile (\<lambda>x. x \<noteq> c) s, Some (tl (dropWhile (\<lambda>x. x \<noteq> c) s))) else (s, None))"

definition digit :: "char \<Rightarrow> bool" where
  "digit c \<longleftrightarrow> CHR ''0'' \<le> c \<and> c \<le> CHR ''9''"

definition hex_digit :: "char \<Rightarrow> bool" where
  "hex_digit c \<longleftrightarrow> digit c \<or> CHR ''a'' \<le> c \<and> c \<le> CHR ''f'' \<or> CHR ''A'' \<le> c \<and> c \<le> CHR ''F''"

definition hex_value :: "char \<Rightarrow> nat" where
  "hex_value c = (if digit c then of_char c - 48 else if CHR ''a'' \<le> c then of_char c - 87 else of_char c - 55)"

section \<open>Addresses from text\<close>

definition parse_octet :: "string \<Rightarrow> nat option" where
  "parse_octet s = (if s = [] \<or> \<not> list_all digit s \<or> length s > 3 \<or> (length s > 1 \<and> hd s = CHR ''0'') then None
     else let n = str_nat s in if n > 255 then None else Some n)"

definition parse_v4 :: "string \<Rightarrow> 32 word option" where
  "parse_v4 s = (case map parse_octet (split_on (CHR ''.'') s) of
     [Some a, Some b, Some c, Some d] \<Rightarrow> Some (word_of_nat (((a * 256 + b) * 256 + c) * 256 + d))
   | _ \<Rightarrow> None)"

definition parse_hextet :: "string \<Rightarrow> nat option" where
  "parse_hextet s = (if s = [] \<or> \<not> list_all hex_digit s \<or> length s > 4 then None
     else Some (foldl (\<lambda>n c. 16 * n + hex_value c) 0 s))"

definition hex_str :: "nat \<Rightarrow> string" where
  "hex_str n = [hex_char (n div 4096 mod 16), hex_char (n div 256 mod 16), hex_char (n div 16 mod 16), hex_char (n mod 16)]"

text \<open>The last part may be an IPv4 address, which stands for two hextets.\<close>

definition expand_v4_tail :: "string list \<Rightarrow> string list option" where
  "expand_v4_tail parts =
    (if CHR ''.'' \<notin> set (last parts) then Some parts
     else case parse_v4 (last parts) of None \<Rightarrow> None
       | Some w \<Rightarrow> let n = unat w in Some (butlast parts @ [hex_str (n div 65536), hex_str (n mod 65536)]))"

definition hextets :: "string list \<Rightarrow> nat list option" where
  "hextets ss = those (map parse_hextet ss)"

definition join_hextets :: "nat list \<Rightarrow> nat" where
  "join_hextets = foldl (\<lambda>n h. n * 65536 + h) 0"

definition parse_v6_parts :: "string list \<Rightarrow> nat option" where
  "parse_v6_parts parts =
    (let n = length parts;
         inner = filter (\<lambda>i. parts ! i = []) [1..<n - 1] in
     if n > 9 then None
     else case inner of
       [] \<Rightarrow> if n \<noteq> 8 then None else map_option join_hextets (hextets parts)
     | [i] \<Rightarrow>
        (if (hd parts = [] \<and> i \<noteq> 1) \<or> (last parts = [] \<and> n - i - 1 \<noteq> 1) then None
         else let hi = (if hd parts = [] then [] else take i parts);
                  lo = (if last parts = [] then [] else drop (i + 1) parts) in
           if 8 < length hi + length lo + 1 then None
           else case (hextets hi, hextets lo) of
             (Some h, Some l) \<Rightarrow> Some (join_hextets h * 65536 ^ (8 - length h) + join_hextets l)
           | _ \<Rightarrow> None)
     | _ \<Rightarrow> None)"

definition parse_v6 :: "string \<Rightarrow> 128 word option" where
  "parse_v6 s =
    (let (a, zone) = partition_at (CHR ''%'') s;
         parts = split_on (CHR '':'') a in
     if zone = Some [] \<or> (case zone of None \<Rightarrow> False | Some z \<Rightarrow> CHR ''%'' \<in> set z) \<or> length parts < 3 then None
     else case expand_v4_tail parts of None \<Rightarrow> None
       | Some ps \<Rightarrow> map_option word_of_nat (parse_v6_parts ps))"

definition ip_address :: "string \<Rightarrow> ip option" where
  "ip_address s = (if CHR ''/'' \<in> set s then None
     else case parse_v4 s of Some w \<Rightarrow> Some (V4 w) | None \<Rightarrow> map_option V6 (parse_v6 s))"

section \<open>Networks\<close>

text \<open>The addresses that agree with \<open>base\<close> on the first \<open>n\<close> bits.\<close>

definition in_net :: "'a::len word \<Rightarrow> nat \<Rightarrow> 'a word \<Rightarrow> bool" where
  "in_net base n a \<longleftrightarrow> drop_bit (LENGTH('a) - n) a = drop_bit (LENGTH('a) - n) base"

text \<open>A network, written as \<open>ip_network\<close> takes it: an address and the number of its leading bits.\<close>

type_synonym network = "ip \<times> nat"

definition in_network :: "ip \<Rightarrow> network \<Rightarrow> bool" where
  "in_network a n = (case (a, n) of
     (V4 w, (V4 b, k)) \<Rightarrow> in_net b k w
   | (V6 w, (V6 b, k)) \<Rightarrow> in_net b k w
   | _ \<Rightarrow> False)"

definition v4 :: "nat \<Rightarrow> nat \<Rightarrow> nat \<Rightarrow> nat \<Rightarrow> ip" where
  "v4 a b c d = V4 (word_of_nat (((a * 256 + b) * 256 + c) * 256 + d))"

text \<open>An IPv6 address from its first three hextets, and its last ones.\<close>

definition v6 :: "nat \<Rightarrow> nat \<Rightarrow> nat \<Rightarrow> nat \<Rightarrow> ip" where
  "v6 a b c low = V6 (word_of_nat (((a * 65536 + b) * 65536 + c) * 65536 ^ 5 + low))"

definition v4_private :: "network list" where
  "v4_private = [(v4 0 0 0 0, 8), (v4 10 0 0 0, 8), (v4 127 0 0 0, 8), (v4 169 254 0 0, 16), (v4 172 16 0 0, 12),
     (v4 192 0 0 0, 24), (v4 192 0 0 170, 31), (v4 192 0 2 0, 24), (v4 192 168 0 0, 16), (v4 198 18 0 0, 15),
     (v4 198 51 100 0, 24), (v4 203 0 113 0, 24), (v4 240 0 0 0, 4), (v4 255 255 255 255, 32)]"

definition v4_private_exceptions :: "network list" where
  "v4_private_exceptions = [(v4 192 0 0 9, 32), (v4 192 0 0 10, 32)]"

definition v6_private :: "network list" where
  "v6_private = [(v6 0 0 0 1, 128), (v6 0 0 0 0, 128), (v6 0 0 0 0xFFFF00000000, 96), (v6 0x64 0xFF9B 1 0, 48),
     (v6 0x100 0 0 0, 64), (v6 0x2001 0 0 0, 23), (v6 0x2001 0xDB8 0 0, 32), (v6 0x2002 0 0 0, 16),
     (v6 0x3FFF 0 0 0, 20), (v6 0xFC00 0 0 0, 7), (v6 0xFE80 0 0 0, 10)]"

definition v6_private_exceptions :: "network list" where
  "v6_private_exceptions = [(v6 0x2001 1 0 1, 128), (v6 0x2001 1 0 2, 128), (v6 0x2001 3 0 0, 32),
     (v6 0x2001 4 0x112 0, 48), (v6 0x2001 0x20 0 0, 28), (v6 0x2001 0x30 0 0, 28)]"

definition listed :: "network list \<Rightarrow> ip \<Rightarrow> bool" where
  "listed ns a \<longleftrightarrow> list_ex (in_network a) ns"

text \<open>The IPv4 address an IPv4-mapped IPv6 address stands for, and any other address itself.\<close>

definition unmapped :: "ip \<Rightarrow> ip" where
  "unmapped a = (case a of
     V6 w \<Rightarrow> if drop_bit 32 w = 0xFFFF then V4 (ucast w) else a
   | V4 w \<Rightarrow> a)"

definition is_private :: "ip \<Rightarrow> bool" where
  "is_private a = (case unmapped a of
     V4 w \<Rightarrow> listed v4_private (V4 w) \<and> \<not> listed v4_private_exceptions (V4 w)
   | V6 w \<Rightarrow> listed v6_private (V6 w) \<and> \<not> listed v6_private_exceptions (V6 w))"

definition is_loopback :: "ip \<Rightarrow> bool" where
  "is_loopback a \<longleftrightarrow> in_network (unmapped a) (v4 127 0 0 0, 8) \<or> unmapped a = v6 0 0 0 1"

definition is_link_local :: "ip \<Rightarrow> bool" where
  "is_link_local a \<longleftrightarrow> in_network (unmapped a) (v4 169 254 0 0, 16) \<or> in_network (unmapped a) (v6 0xFE80 0 0 0, 10)"

section \<open>Membership in a network\<close>

lemma in_net_iff:
  "in_net base n (a :: 'a::len word) \<longleftrightarrow> unat a div 2 ^ (LENGTH('a) - n) = unat base div 2 ^ (LENGTH('a) - n)"
  unfolding in_net_def word_unat_eq_iff unat_drop_bit_eq unsigned_take_bit_eq drop_bit_eq_div[where 'a = nat]
  by simp

text \<open>Every address of a network is in each wider network around it.\<close>

lemma in_net_wider:
  assumes "in_net base n (a :: 'a::len word)" and "m \<le> n"
  shows "in_net base m a"
proof -
  have "unat a div 2 ^ (LENGTH('a) - n) = unat base div 2 ^ (LENGTH('a) - n)" using assms(1) by (simp add: in_net_iff)
  moreover have "(2::nat) ^ (LENGTH('a) - m) = 2 ^ (LENGTH('a) - n) * 2 ^ (LENGTH('a) - m - (LENGTH('a) - n))"
    using assms(2) by (simp add: power_add[symmetric])
  ultimately show ?thesis by (simp add: in_net_iff div_mult2_eq)
qed

section \<open>Dotted addresses\<close>

definition dotted :: "nat \<Rightarrow> nat \<Rightarrow> nat \<Rightarrow> nat \<Rightarrow> string" where
  "dotted a b c d = nat_str a @ ''.'' @ nat_str b @ ''.'' @ nat_str c @ ''.'' @ nat_str d"

lemma digit_of_nat: "n < 10 \<Longrightarrow> digit (digit_char n)"
  by (simp add: digit_def digit_char_def less_eq_char_def)

lemma digits_nat_str: "list_all digit (nat_str n)"
proof (induction n rule: nat_str.induct)
  case (1 n)
  then show ?case by (cases "n < 10") (simp_all add: nat_str.simps[of n] digit_of_nat)
qed

lemma nat_str_nonempty [simp]: "nat_str n \<noteq> []"
  by (simp add: nat_str.simps[of n])

lemma nat_str_head: "0 < n \<Longrightarrow> hd (nat_str n) \<noteq> CHR ''0''"
proof (induction n rule: nat_str.induct)
  case (1 n)
  show ?case
  proof (cases "n < 10")
    case True
    have "digit_char n \<noteq> CHR ''0''"
    proof
      assume "digit_char n = CHR ''0''"
      then have "(of_char (digit_char n) :: nat) = 48" by simp
      then show False using True 1(2) by (simp add: of_char_digit)
    qed
    then show ?thesis using True by (simp add: nat_str.simps[of n])
  next
    case False
    then have "hd (nat_str (n div 10)) \<noteq> CHR ''0''" using 1(1) by simp
    then show ?thesis using False by (simp add: nat_str.simps[of n])
  qed
qed

lemma nat_str_length: "n < 1000 \<Longrightarrow> length (nat_str n) \<le> 3"
  by (simp add: nat_str.simps[of n] nat_str.simps[of "n div 10"] nat_str.simps[of "n div 10 div 10"])

lemma parse_octet_nat_str: "n < 256 \<Longrightarrow> parse_octet (nat_str n) = Some n"
  using nat_str_head[of n] nat_str_length[of n] digits_nat_str[of n]
proof (cases "n = 0")
  case True
  then show ?thesis by (simp add: parse_octet_def nat_str.simps[of 0] digit_of_nat str_nat_def of_char_digit)
qed (auto simp: parse_octet_def)

lemma split_on_word: "c \<notin> set w \<Longrightarrow> split_on c (w @ c # s) = w # split_on c s" "c \<notin> set w \<Longrightarrow> split_on c w = [w]"
  by (induction w) auto

lemma no_dot: "CHR ''.'' \<notin> set (nat_str n)"
  using digits_nat_str[of n] by (auto simp: list_all_iff digit_def less_eq_char_def)

text \<open>The dotted form of four octets is read back as the word they make.\<close>

lemma parse_dotted:
  assumes "a < 256" "b < 256" "c < 256" "d < 256"
  shows "ip_address (dotted a b c d) = Some (v4 a b c d)"
proof -
  have "split_on (CHR ''.'') (dotted a b c d) = [nat_str a, nat_str b, nat_str c, nat_str d]"
    by (simp add: dotted_def split_on_word no_dot)
  moreover have "CHR ''/'' \<notin> set (nat_str n)" for n
    using digits_nat_str[of n] by (auto simp: list_all_iff digit_def less_eq_char_def)
  ultimately show ?thesis using assms
    by (simp add: ip_address_def parse_v4_def parse_octet_nat_str v4_def dotted_def)
qed

end
