(* ===== verification/Urls.thy ===== *)
theory Urls
  imports Net_Address
begin

text \<open>
  What the security modules use of Python's \<open>urllib.parse.urlparse\<close> (CPython 3.11 and later) and of
  \<open>str\<close>: \<open>strip\<close>, \<open>lower\<close>, \<open>upper\<close> on the first 256 code points (\<open>upper\<close> on ASCII, all the sources
  pass to it), the parts of a URL, its host name and its port.
\<close>

section \<open>Strings\<close>

definition code :: "char \<Rightarrow> nat" where
  "code c = of_char c"

definition lower_char :: "char \<Rightarrow> char" where
  "lower_char c = (let n = code c in
     if 65 \<le> n \<and> n \<le> 90 \<or> 192 \<le> n \<and> n \<le> 222 \<and> n \<noteq> 215 then char_of (n + 32) else c)"

definition lower :: "string \<Rightarrow> string" where
  "lower s = map lower_char s"

definition upper :: "string \<Rightarrow> string" where
  "upper s = map (\<lambda>c. if 97 \<le> code c \<and> code c \<le> 122 then char_of (code c - 32) else c) s"

definition is_space :: "char \<Rightarrow> bool" where
  "is_space c \<longleftrightarrow> (let n = code c in 9 \<le> n \<and> n \<le> 13 \<or> 28 \<le> n \<and> n \<le> 32 \<or> n = 133 \<or> n = 160)"

definition strip :: "string \<Rightarrow> string" where
  "strip s = rev (dropWhile is_space (rev (dropWhile is_space s)))"

definition starts_with :: "string \<Rightarrow> string \<Rightarrow> bool" where
  "starts_with p s \<longleftrightarrow> take (length p) s = p"

definition ends_with :: "string \<Rightarrow> string \<Rightarrow> bool" where
  "ends_with p s \<longleftrightarrow> length p \<le> length s \<and> drop (length s - length p) s = p"

lemma strip_id: "s \<noteq> [] \<Longrightarrow> \<not> is_space (hd s) \<Longrightarrow> \<not> is_space (last s) \<Longrightarrow> strip s = s"
proof -
  assume s: "s \<noteq> []" "\<not> is_space (hd s)" "\<not> is_space (last s)"
  then have "dropWhile is_space s = s" by (cases s) simp_all
  moreover have "dropWhile is_space (rev s) = rev s" using s by (cases s rule: rev_cases) simp_all
  ultimately show ?thesis by (simp add: strip_def)
qed

lemma strip_last: "strip s = s \<Longrightarrow> s \<noteq> [] \<Longrightarrow> \<not> is_space (last s)"
proof -
  assume s: "strip s = s" "s \<noteq> []"
  let ?d = "dropWhile is_space (rev (dropWhile is_space s))"
  have "rev ?d = s" using s(1) by (simp add: strip_def)
  moreover have d: "?d \<noteq> []" using calculation s(2) by (metis rev.simps(1))
  moreover have "\<not> is_space (hd ?d)" by (rule hd_dropWhile) (rule d)
  ultimately show ?thesis by (metis last_rev)
qed

lemma strip_ends: "strip s \<noteq> [] \<Longrightarrow> \<not> is_space (hd (strip s)) \<and> \<not> is_space (last (strip s))"
proof -
  assume ne: "strip s \<noteq> []"
  let ?d = "dropWhile is_space s"
  have e: "strip s = rev (dropWhile is_space (rev ?d))" by (simp add: strip_def)
  have dw: "dropWhile is_space (rev ?d) \<noteq> []" using ne by (simp add: e)
  then have "\<not> is_space (hd (dropWhile is_space (rev ?d)))" by (rule hd_dropWhile)
  then have l: "\<not> is_space (last (strip s))" using dw by (simp add: e last_rev)
  obtain y where "rev ?d = y @ dropWhile is_space (rev ?d)" by (metis takeWhile_dropWhile_id)
  then have d: "?d = strip s @ rev y" by (metis e rev_append rev_rev_ident)
  then have dn: "?d \<noteq> []" using ne by auto
  then have "\<not> is_space (hd ?d)" by (rule hd_dropWhile)
  then show ?thesis using l d ne by (metis hd_append2)
qed

lemma strip_strip [simp]: "strip (strip s) = strip s"
proof (cases "strip s = []")
  case True
  moreover have "strip [] = []" by (simp add: strip_def)
  ultimately show ?thesis by simp
next
  case False
  then show ?thesis by (intro strip_id) (simp_all add: strip_ends)
qed

lemma strip_append_space: "list_all is_space u \<Longrightarrow> strip (w @ u) = strip w"
proof (cases "list_all is_space w")
  case True
  moreover assume "list_all is_space u"
  ultimately show ?thesis
    by (metis dropWhile_eq_Nil_conv list_all_append list_all_iff rev.simps(1) strip_def)
next
  case False
  then have "dropWhile is_space (w @ u) = dropWhile is_space w @ u"
    by (auto simp: list_all_iff dropWhile_append)
  moreover assume "list_all is_space u"
  ultimately show ?thesis by (simp add: strip_def dropWhile_append list_all_iff dropWhile_eq_Nil_conv)
qed

lemma starts_with_iff: "starts_with p s \<longleftrightarrow> (\<exists>t. s = p @ t)"
  unfolding starts_with_def by (metis append_eq_conv_conj append_take_drop_id)

lemma ends_with_iff: "ends_with p s \<longleftrightarrow> (\<exists>t. s = t @ p)"
  unfolding ends_with_def
  by (metis append_eq_conv_conj append_take_drop_id diff_add_inverse2 le_add2 length_append)

lemma lower_append: "lower (a @ b) = lower a @ lower b"
  by (simp add: lower_def)

lemma lower_char_idem [simp]: "lower_char (lower_char c) = lower_char c"
proof -
  have n: "code c < 256" by (simp add: code_def)
  consider "65 \<le> code c \<and> code c \<le> 90" | "192 \<le> code c \<and> code c \<le> 222 \<and> code c \<noteq> 215"
    | "\<not> (65 \<le> code c \<and> code c \<le> 90 \<or> 192 \<le> code c \<and> code c \<le> 222 \<and> code c \<noteq> 215)" by blast
  then show ?thesis
    by cases (auto simp: lower_char_def Let_def code_def)
qed

lemma lower_lower [simp]: "lower (lower s) = lower s"
  by (simp add: lower_def)

section \<open>The parts of a URL\<close>

record url =
  scheme :: string
  netloc :: string
  url_path :: string
  query :: string

text \<open>Leading control characters and spaces and any tab or line break are dropped.\<close>

definition clean :: "string \<Rightarrow> string" where
  "clean s = filter (\<lambda>c. code c \<notin> {9, 10, 13}) (dropWhile (\<lambda>c. code c \<le> 32) s)"

definition scheme_char :: "char \<Rightarrow> bool" where
  "scheme_char c \<longleftrightarrow> (let n = code c in 97 \<le> n \<and> n \<le> 122 \<or> 65 \<le> n \<and> n \<le> 90 \<or> 48 \<le> n \<and> n \<le> 57 \<or> c \<in> {CHR ''+'', CHR ''-'', CHR ''.''})"

definition ascii_letter :: "char \<Rightarrow> bool" where
  "ascii_letter c \<longleftrightarrow> 97 \<le> code c \<and> code c \<le> 122 \<or> 65 \<le> code c \<and> code c \<le> 90"

definition split_scheme :: "string \<Rightarrow> string \<times> string" where
  "split_scheme s =
    (case partition_at (CHR '':'') s of
       (a, Some rest) \<Rightarrow> if a \<noteq> [] \<and> ascii_letter (hd a) \<and> list_all scheme_char a then (lower a, rest) else ([], s)
     | (a, None) \<Rightarrow> ([], s))"

definition delimiter :: "char \<Rightarrow> bool" where
  "delimiter c \<longleftrightarrow> c \<in> {CHR ''/'', CHR ''?'', CHR ''#''}"

text \<open>\<open>_check_bracketed_host\<close>: what stands in brackets is an IPv6 address or a future version.\<close>

definition check_bracketed :: "string \<Rightarrow> bool" where
  "check_bracketed h =
    (if starts_with ''v'' h
     then (let hex = takeWhile hex_digit (tl h); rest = dropWhile hex_digit (tl h) in
           hex \<noteq> [] \<and> starts_with ''.'' rest \<and> 2 \<le> length rest)
     else case ip_address h of Some (V6 w) \<Rightarrow> True | _ \<Rightarrow> False)"

definition valid_netloc :: "string \<Rightarrow> bool" where
  "valid_netloc n = (let o1 = CHR ''['' \<in> set n; c1 = CHR '']'' \<in> set n in
     if o1 \<noteq> c1 then False
     else if o1 \<and> c1 then
       check_bracketed (fst (partition_at (CHR '']'') (case snd (partition_at (CHR ''['') n) of Some r \<Rightarrow> r | None \<Rightarrow> [])))
     else True)"

text \<open>\<open>_splitparams\<close>: the parameters of the last segment, which \<open>parsed.path\<close> does not hold.\<close>

definition strip_params :: "string \<Rightarrow> string" where
  "strip_params p = (let segs = split_on (CHR ''/'') p; last_seg = fst (partition_at (CHR '';'') (last segs)) in
     join ''/'' (butlast segs @ [last_seg]))"

definition uses_params :: "string list" where
  "uses_params = [[], ''ftp'', ''hdl'', ''prospero'', ''http'', ''imap'', ''https'', ''shttp'', ''rtsp'', ''rtsps'',
     ''rtspu'', ''sip'', ''sips'', ''mms'', ''sftp'', ''tel'']"

text \<open>\<open>None\<close>: a \<open>ValueError\<close>.\<close>

definition urlparse :: "string \<Rightarrow> url option" where
  "urlparse s =
    (let (sch, rest) = split_scheme (clean s);
         has_netloc = starts_with ''//'' rest;
         nl = (if has_netloc then takeWhile (Not \<circ> delimiter) (drop 2 rest) else []);
         after = (if has_netloc then dropWhile (Not \<circ> delimiter) (drop 2 rest) else rest);
         (no_frag, _) = partition_at (CHR ''#'') after;
         (p, q) = partition_at (CHR ''?'') no_frag
     in if has_netloc \<and> \<not> valid_netloc nl then None
        else Some \<lparr>scheme = sch, netloc = nl,
          url_path = (if sch \<in> set uses_params \<and> CHR '';'' \<in> set p then strip_params p else p),
          query = (case q of None \<Rightarrow> [] | Some t \<Rightarrow> t)\<rparr>)"

text \<open>\<open>_hostinfo\<close>: what follows the last at sign, in brackets or up to the colon, and the text of the port.\<close>

definition after_last :: "char \<Rightarrow> string \<Rightarrow> string" where
  "after_last c s = rev (takeWhile (\<lambda>x. x \<noteq> c) (rev s))"

definition hostinfo :: "url \<Rightarrow> string \<times> string option" where
  "hostinfo u =
    (let h = after_last (CHR ''@'') (netloc u) in
     case partition_at (CHR ''['') h of
       (_, Some bracketed) \<Rightarrow>
         (let (name, rest) = partition_at (CHR '']'') bracketed;
              p = snd (partition_at (CHR '':'') (case rest of None \<Rightarrow> [] | Some r \<Rightarrow> r))
          in (name, p))
     | (_, None) \<Rightarrow> partition_at (CHR '':'') h)"

definition url_hostname :: "url \<Rightarrow> string option" where
  "url_hostname u =
    (let h = fst (hostinfo u) in
     if h = [] then None
     else case partition_at (CHR ''%'') h of
       (a, None) \<Rightarrow> Some (lower a)
     | (a, Some zone) \<Rightarrow> Some (lower a @ ''%'' @ zone))"

text \<open>\<open>port\<close>: \<open>None\<close> is a \<open>ValueError\<close>, \<open>Some None\<close> no port.\<close>

definition url_port :: "url \<Rightarrow> nat option option" where
  "url_port u =
    (case snd (hostinfo u) of
       None \<Rightarrow> Some None
     | Some [] \<Rightarrow> Some None
     | Some p \<Rightarrow> if list_all digit p \<and> str_nat p \<le> 65535 then Some (Some (str_nat p)) else None)"

end
