(* ===== verification/File_Names.thy ===== *)
theory File_Names
  imports Urls
begin

text \<open>
  What the sources use of the names of \<open>pathlib\<close>: \<open>suffix\<close>, \<open>stem\<close> and \<open>with_suffix\<close>.
\<close>

text \<open>\<open>suffix\<close> and \<open>stem\<close> of the last component: the last dot counts when it is neither first nor last.\<close>

definition file_suffix :: "string \<Rightarrow> string" where
  "file_suffix name =
    (let ext = after_last (CHR ''.'') name; n = length name - length ext in
     if ext \<noteq> [] \<and> 1 < n then CHR ''.'' # ext else [])"

definition file_stem :: "string \<Rightarrow> string" where
  "file_stem name = take (length name - length (file_suffix name)) name"

definition with_suffix :: "string \<Rightarrow> string \<Rightarrow> string" where
  "with_suffix name sfx = file_stem name @ sfx"

end
