(* ===== verification/Governance.thy ===== *)
theory Governance
  imports Snapshots File_Names
begin

text \<open>
  \<open>sky_claw/antigravity/security/governance.py\<close>: the whitelist with its HMAC and the cache of scans.  A save is a
  sequence of file operations, each of which may fail and before each of which the process may stop.  HMAC, SHA-256,
  the random key and JSON are parameters; the set of hashes is the list in which it is written,
  and paths are relative to the base path.
\<close>

section \<open>Files\<close>

definition WHITELIST_FILE :: string where "WHITELIST_FILE = ''.purple_whitelist.json''"

definition whitelist_path :: path where "whitelist_path = [WHITELIST_FILE]"
definition hmac_key_path :: path where "hmac_key_path = [WHITELIST_FILE @ ''.hmac_key'']"
definition hmac_sig_path :: path where "hmac_sig_path = [WHITELIST_FILE @ ''.hmac'']"
definition whitelist_tmp :: path where "whitelist_tmp = [with_suffix WHITELIST_FILE ''.json.tmp'']"
definition sig_tmp :: path where "sig_tmp = [with_suffix (WHITELIST_FILE @ ''.hmac'') ''.hmac.tmp'']"
definition key_tmp :: path where "key_tmp = [with_suffix (WHITELIST_FILE @ ''.hmac_key'') ''.tmp'']"

text \<open>The temporary files of the whitelist and of the key are one and the same.\<close>

lemma paths:
  "whitelist_path = [''.purple_whitelist.json'']" "hmac_key_path = [''.purple_whitelist.json.hmac_key'']"
  "hmac_sig_path = [''.purple_whitelist.json.hmac'']" "whitelist_tmp = [''.purple_whitelist.json.tmp'']"
  "sig_tmp = [''.purple_whitelist.json.hmac.tmp'']" "key_tmp = [''.purple_whitelist.json.tmp'']"
  by code_simp+

lemma same_temporary: "key_tmp = whitelist_tmp"
  by (simp add: paths)

lemma distinct_paths: "distinct [whitelist_path, hmac_key_path, hmac_sig_path, whitelist_tmp, sig_tmp]"
  by (simp add: paths)

section \<open>Saving\<close>

datatype fs_op = Write path string | Restrict path | Rename path path | Unlink path

text \<open>The failure of an operation: \<open>Some\<close> the part a failed write leaves, if any.\<close>

record gov_env =
  hmac :: "string \<Rightarrow> string \<Rightarrow> string"
  render :: "string list \<Rightarrow> string"
  parse :: "string \<Rightarrow> string list option"
  new_key :: string
  key_hardens :: bool
  key_unlinks :: bool
  failure :: "nat \<Rightarrow> string option option"

definition run_op :: "fs_op \<Rightarrow> file_system \<Rightarrow> file_system option" where
  "run_op x fs =
    (case x of
       Write p c \<Rightarrow> Some (dset p c fs)
     | Restrict p \<Rightarrow> Some fs
     | Unlink p \<Rightarrow> Some (ddel p fs)
     | Rename p q \<Rightarrow> (case dget fs p of None \<Rightarrow> None | Some c \<Rightarrow> Some (dset q c (ddel p fs))))"

definition broken_op :: "fs_op \<Rightarrow> string option \<Rightarrow> file_system \<Rightarrow> file_system" where
  "broken_op x part fs = (case (x, part) of (Write p _, Some c) \<Rightarrow> dset p c fs | _ \<Rightarrow> fs)"

text \<open>The states between the operations, and whether all of them worked.\<close>

fun run_ops :: "gov_env \<Rightarrow> nat \<Rightarrow> fs_op list \<Rightarrow> file_system \<Rightarrow> file_system list \<times> file_system \<times> bool" where
  "run_ops env n [] fs = ([fs], fs, True)"
| "run_ops env n (x # xs) fs =
    (case failure env n of
       Some part \<Rightarrow> ([fs, broken_op x part fs], broken_op x part fs, False)
     | None \<Rightarrow>
        (case run_op x fs of
           None \<Rightarrow> ([fs], fs, False)
         | Some fs' \<Rightarrow> (case run_ops env (Suc n) xs fs' of (states, fs'', ok) \<Rightarrow> (fs # states, fs'', ok))))"

text \<open>The key is used when it can be hardened, else a new one takes its place.\<close>

definition create_key_ops :: "gov_env \<Rightarrow> fs_op list" where
  "create_key_ops env = [Write key_tmp (new_key env), Restrict key_tmp, Rename key_tmp hmac_key_path]"

definition key_ops :: "gov_env \<Rightarrow> file_system \<Rightarrow> fs_op list" where
  "key_ops env fs =
    (if \<not> dhas fs hmac_key_path then create_key_ops env
     else if key_hardens env then [Restrict hmac_key_path]
     else (if key_unlinks env then [Unlink hmac_key_path] else []) @ create_key_ops env)"

definition key_used :: "gov_env \<Rightarrow> file_system \<Rightarrow> string" where
  "key_used env fs = (if dhas fs hmac_key_path \<and> key_hardens env then the (dget fs hmac_key_path) else new_key env)"

definition save_ops :: "gov_env \<Rightarrow> string list \<Rightarrow> file_system \<Rightarrow> fs_op list" where
  "save_ops env whitelist fs =
    (let raw = render env whitelist in
     [Write whitelist_tmp raw, Restrict whitelist_tmp] @ key_ops env fs
     @ [Write sig_tmp (hmac env (key_used env fs) raw), Restrict sig_tmp, Rename whitelist_tmp whitelist_path, Rename sig_tmp hmac_sig_path])"

text \<open>A failure removes the temporary files and is raised again.\<close>

definition save_whitelist :: "gov_env \<Rightarrow> string list \<Rightarrow> file_system \<Rightarrow> file_system list \<times> file_system \<times> bool" where
  "save_whitelist env whitelist fs =
    (case run_ops env 0 (save_ops env whitelist fs) fs of
       (states, fs', True) \<Rightarrow> (states, fs', True)
     | (states, fs', False) \<Rightarrow>
        (states @ [ddel whitelist_tmp fs', ddel sig_tmp (ddel whitelist_tmp fs')], ddel sig_tmp (ddel whitelist_tmp fs'), False))"

section \<open>Loading\<close>

datatype refusal = Missing_Signature | Bad_Signature | Corrupt

definition signature_check :: "gov_env \<Rightarrow> file_system \<Rightarrow> string \<Rightarrow> refusal option" where
  "signature_check env fs raw =
    (case dget fs hmac_key_path of
       None \<Rightarrow> None
     | Some key \<Rightarrow>
        (case dget fs hmac_sig_path of
           None \<Rightarrow> Some Missing_Signature
         | Some sig \<Rightarrow> if strip sig = hmac env key raw then None else Some Bad_Signature))"

definition load_whitelist :: "gov_env \<Rightarrow> file_system \<Rightarrow> refusal + string list" where
  "load_whitelist env fs =
    (case dget fs whitelist_path of
       None \<Rightarrow> Inr []
     | Some raw \<Rightarrow>
        (case signature_check env fs raw of
           Some r \<Rightarrow> Inl r
         | None \<Rightarrow> (case parse env raw of None \<Rightarrow> Inl Corrupt | Some hs \<Rightarrow> Inr hs)))"

section \<open>Scans\<close>

text \<open>The row of a hash; the manager is not \<open>online\<close> when no lifecycle was injected or the database fails.\<close>

record scan_row =
  scanned_path :: path
  scan_time :: string
  scan_results :: string
  scan_status :: string

record governance =
  whitelist :: "string list"
  scan_cache :: "(string, scan_row) dict"

text \<open>The one manager of the process: another base path is refused, and a whitelist that is not trusted makes none.\<close>

datatype instance_error = Other_Base | Not_Loaded refusal

definition get_instance ::
  "(string \<Rightarrow> string) \<Rightarrow> (string \<Rightarrow> refusal + string list) \<Rightarrow> (string, scan_row) dict \<Rightarrow> string \<Rightarrow> (string \<times> governance) option \<Rightarrow>
   (string \<times> governance) option \<times> (instance_error + governance)" where
  "get_instance resolved load cache base inst =
    (case inst of
       Some (b, g) \<Rightarrow> (inst, if resolved b \<noteq> resolved base then Inl Other_Base else Inr g)
     | None \<Rightarrow>
        (case load base of
           Inl r \<Rightarrow> (None, Inl (Not_Loaded r))
         | Inr hs \<Rightarrow> (let g = \<lparr>whitelist = hs, scan_cache = cache\<rparr> in (Some (base, g), Inr g))))"

definition file_hash :: "(string \<Rightarrow> string) \<Rightarrow> file_system \<Rightarrow> path \<Rightarrow> string option" where
  "file_hash sha256 fs p = map_option sha256 (dget fs p)"

definition is_scanned_and_clean :: "(string \<Rightarrow> string) \<Rightarrow> bool \<Rightarrow> governance \<Rightarrow> file_system \<Rightarrow> path \<Rightarrow> bool" where
  "is_scanned_and_clean sha256 online g fs p =
    (case file_hash sha256 fs p of
       None \<Rightarrow> False
     | Some h \<Rightarrow>
        if h \<in> set (whitelist g) then True
        else if \<not> online then False
        else (case dget (scan_cache g) h of None \<Rightarrow> False | Some row \<Rightarrow> scan_status row = ''CLEAN''))"

definition update_scan_result ::
  "(string \<Rightarrow> string) \<Rightarrow> bool \<Rightarrow> string \<Rightarrow> file_system \<Rightarrow> path \<Rightarrow> string \<Rightarrow> string \<Rightarrow> governance \<Rightarrow> governance" where
  "update_scan_result sha256 online now fs p results status g =
    (case file_hash sha256 fs p of
       None \<Rightarrow> g
     | Some h \<Rightarrow>
        if \<not> online then g
        else g\<lparr>scan_cache := dset h \<lparr>scanned_path = p, scan_time = now, scan_results = results, scan_status = status\<rparr> (scan_cache g)\<rparr>)"

text \<open>An approved file is in the whitelist of the process even when the save fails.\<close>

definition approve_file ::
  "gov_env \<Rightarrow> (string \<Rightarrow> string) \<Rightarrow> path \<Rightarrow> governance \<Rightarrow> file_system \<Rightarrow> governance \<times> file_system list \<times> file_system \<times> bool" where
  "approve_file env sha256 p g fs =
    (case file_hash sha256 fs p of
       None \<Rightarrow> (g, [fs], fs, True)
     | Some h \<Rightarrow> (let g' = g\<lparr>whitelist := List.insert h (whitelist g)\<rparr> in (g', save_whitelist env (whitelist g') fs)))"

section \<open>What a crash leaves\<close>

text \<open>An operation that leaves a file alone.\<close>

definition leaves :: "path \<Rightarrow> fs_op \<Rightarrow> bool" where
  "leaves p x \<longleftrightarrow> (case x of Write q _ \<Rightarrow> q \<noteq> p | Restrict _ \<Rightarrow> True | Rename q r \<Rightarrow> q \<noteq> p \<and> r \<noteq> p | Unlink q \<Rightarrow> q \<noteq> p)"

lemma run_op_leaves: "run_op x fs = Some fs' \<Longrightarrow> leaves p x \<Longrightarrow> dget fs' p = dget fs p"
  by (auto simp: run_op_def leaves_def split: fs_op.splits option.splits)

lemma broken_op_leaves: "leaves p x \<Longrightarrow> dget (broken_op x part fs) p = dget fs p"
  by (auto simp: broken_op_def leaves_def split: fs_op.splits option.splits)

lemma run_ops_leaves:
  "run_ops env n xs fs = (states, fs', ok) \<Longrightarrow> list_all (leaves p) xs \<Longrightarrow> s \<in> insert fs' (set states) \<Longrightarrow> dget s p = dget fs p"
proof (induction xs arbitrary: n fs states fs' ok)
  case (Cons x xs)
  show ?case
  proof (cases "failure env n")
    case (Some part)
    then show ?thesis using Cons.prems by (auto simp: broken_op_leaves)
  next
    case None
    show ?thesis
    proof (cases "run_op x fs")
      case (Some fs1)
      obtain states1 fs2 ok1 where r: "run_ops env (Suc n) xs fs1 = (states1, fs2, ok1)" by (metis surj_pair)
      then have e: "states = fs # states1" "fs' = fs2" using Cons.prems(1) None Some by auto
      have one: "dget fs1 p = dget fs p" using run_op_leaves[OF Some] Cons.prems(2) by simp
      from Cons.prems(3) e show ?thesis using Cons.IH[OF r] Cons.prems(2) one by auto
    qed (use Cons.prems None in auto)
  qed
qed auto

lemma run_ops_append:
  "run_ops env n (xs @ ys) fs =
    (case run_ops env n xs fs of
       (states, fs', False) \<Rightarrow> (states, fs', False)
     | (states, fs', True) \<Rightarrow> (case run_ops env (n + length xs) ys fs' of (states', fs'', ok) \<Rightarrow> (butlast states @ states', fs'', ok)))"
proof (induction xs arbitrary: n fs)
  case (Cons x xs)
  have ne: "run_ops env m zs w = (st, w', ok) \<Longrightarrow> st \<noteq> []" for m zs w st w' ok
    by (cases zs) (auto split: option.splits prod.splits)
  show ?case
    using ne by (auto simp: Cons.IH split: option.splits prod.splits bool.splits) 
qed (auto split: prod.splits)

definition prepare_ops :: "gov_env \<Rightarrow> string list \<Rightarrow> file_system \<Rightarrow> fs_op list" where
  "prepare_ops env xs fs =
    [Write whitelist_tmp (render env xs), Restrict whitelist_tmp] @ key_ops env fs
     @ [Write sig_tmp (hmac env (key_used env fs) (render env xs)), Restrict sig_tmp]"

lemma save_ops_split: "save_ops env xs fs = prepare_ops env xs fs @ [Rename whitelist_tmp whitelist_path, Rename sig_tmp hmac_sig_path]"
  by (simp add: save_ops_def prepare_ops_def Let_def)

lemma prepare_leaves: "list_all (leaves whitelist_path) (prepare_ops env xs fs)" "list_all (leaves hmac_sig_path) (prepare_ops env xs fs)"
  by (auto simp: prepare_ops_def key_ops_def create_key_ops_def leaves_def paths)

text \<open>When the preparation worked the whitelist's temporary file holds the new text, or was renamed away as a new key.\<close>

definition keeps_key :: "gov_env \<Rightarrow> file_system \<Rightarrow> bool" where
  "keeps_key env fs \<longleftrightarrow> dhas fs hmac_key_path \<and> key_hardens env"

lemma prepared:
  assumes "run_ops env n (prepare_ops env xs fs) fs = (states, w, True)"
  shows "dget w whitelist_tmp = (if keeps_key env fs then Some (render env xs) else None)
    \<and> dget w sig_tmp = Some (hmac env (key_used env fs) (render env xs))
    \<and> dget w hmac_key_path = Some (key_used env fs)"
proof (cases "keeps_key env fs")
  case True
  then have "key_ops env fs = [Restrict hmac_key_path]" by (simp add: keeps_key_def key_ops_def)
  with assms True show ?thesis
    by (auto simp: prepare_ops_def run_op_def keeps_key_def key_used_def dhas_def paths split: option.splits prod.splits)
next
  case False
  then have "key_used env fs = new_key env" by (auto simp: keeps_key_def key_used_def)
  moreover have "key_ops env fs = create_key_ops env \<or> key_ops env fs = Unlink hmac_key_path # create_key_ops env"
    using False by (auto simp: keeps_key_def key_ops_def)
  ultimately show ?thesis using assms False
    by (elim disjE) (auto simp: prepare_ops_def create_key_ops_def run_op_def paths split: option.splits prod.splits)
qed

lemma run_two_renames:
  assumes "run_ops env n [Rename whitelist_tmp whitelist_path, Rename sig_tmp hmac_sig_path] w = (states, w', ok)"
    and "dget w whitelist_tmp \<in> {None, Some raw}" "s \<in> insert w' (set states)"
  shows "dget s whitelist_path \<in> {dget w whitelist_path, Some raw}"
  using assms by (auto simp: run_op_def broken_op_def paths split: option.splits)

lemma cleanup_keeps: "dget (ddel sig_tmp (ddel whitelist_tmp s)) whitelist_path = dget s whitelist_path"
    "dget (ddel whitelist_tmp s) whitelist_path = dget s whitelist_path"
  by (simp_all add: paths)

text \<open>At every moment the whitelist is the old text or the new one.\<close>

lemma save_is_atomic:
  assumes "save_whitelist env xs fs = (states, fs', ok)" "s \<in> insert fs' (set states)"
  shows "dget s whitelist_path \<in> {dget fs whitelist_path, Some (render env xs)}"
proof -
  obtain st w ok1 where run: "run_ops env 0 (save_ops env xs fs) fs = (st, w, ok1)" by (metis surj_pair)
  have here: "dget t whitelist_path \<in> {dget fs whitelist_path, Some (render env xs)}" if t: "t \<in> insert w (set st)" for t
  proof -
    obtain st1 w1 ok2 where p: "run_ops env 0 (prepare_ops env xs fs) fs = (st1, w1, ok2)" by (metis surj_pair)
    have old: "dget u whitelist_path = dget fs whitelist_path" if "u \<in> insert w1 (set st1)" for u
      by (rule run_ops_leaves[OF p prepare_leaves(1) that])
    show ?thesis
    proof (cases ok2)
      case False
      then have "st = st1" "w = w1" using run p by (auto simp: save_ops_split run_ops_append)
      with t old show ?thesis by auto
    next
      case True
      let ?m = "length (prepare_ops env xs fs)"
      obtain st2 w2 ok3 where q: "run_ops env ?m [Rename whitelist_tmp whitelist_path, Rename sig_tmp hmac_sig_path] w1 = (st2, w2, ok3)"
        by (metis surj_pair)
      then have e: "st = butlast st1 @ st2" "w = w2" using run p True by (simp_all add: save_ops_split run_ops_append)
      have "dget w1 whitelist_tmp \<in> {None, Some (render env xs)}" using prepared[of env 0 xs fs st1 w1] p True by simp
      note two = run_two_renames[OF q this]
      from t e consider "t \<in> set (butlast st1)" | "t \<in> insert w2 (set st2)" by auto
      then show ?thesis
      proof cases
        case 1
        then show ?thesis using old[of t] by (auto dest: in_set_butlastD)
      next
        case 2
        then show ?thesis using two[of t] old[of w1] by auto
      qed
    qed
  qed
  show ?thesis
  proof (cases ok1)
    case True
    then have "states = st" "fs' = w" using assms(1) run by (simp_all add: save_whitelist_def)
    with assms(2) here show ?thesis by auto
  next
    case False
    then have e: "states = st @ [ddel whitelist_tmp w, ddel sig_tmp (ddel whitelist_tmp w)]" "fs' = ddel sig_tmp (ddel whitelist_tmp w)"
      using assms(1) run by (auto simp: save_whitelist_def)
    from assms(2) e consider "s \<in> set st" | "s = ddel whitelist_tmp w" | "s = ddel sig_tmp (ddel whitelist_tmp w)" by auto
    then show ?thesis by cases (use here[of s] here[of w] cleanup_keeps[of w] in auto)
  qed
qed

text \<open>
  C37: wherever the process stops in a save, and whichever of its operations fail, what a later start loads is the whitelist
  from before or the new one, or it refuses to start; no third set of hashes is ever loaded.
\<close>

theorem save_never_loses_the_whitelist:
  assumes "save_whitelist env xs fs = (states, fs', ok)" and "s \<in> insert fs' (set states)"
    and "load_whitelist env fs = Inr old" and "parse env (render env xs) = Some xs"
  shows "dget s whitelist_path \<in> {dget fs whitelist_path, Some (render env xs)}
    \<and> (load_whitelist env s = Inr old \<or> load_whitelist env s = Inr xs \<or> (\<exists>r. load_whitelist env s = Inl r))"
proof -
  from save_is_atomic[OF assms(1,2)] show ?thesis
    using assms(3,4) by (auto simp: load_whitelist_def split: option.splits)
qed

text \<open>A save with a key that can be hardened and no failure is read back.\<close>

lemma save_is_read_back:
  assumes "keeps_key env fs" "\<forall>n. failure env n = None" "parse env (render env xs) = Some xs"
    and "\<forall>k c. strip (hmac env k c) = hmac env k c"
  shows "\<exists>states fs'. save_whitelist env xs fs = (states, fs', True) \<and> load_whitelist env fs' = Inr xs"
proof -
  have "key_ops env fs = [Restrict hmac_key_path]" using assms(1) by (simp add: keeps_key_def key_ops_def)
  then show ?thesis using assms
    by (simp add: save_whitelist_def save_ops_def Let_def run_op_def load_whitelist_def signature_check_def
        keeps_key_def key_used_def dhas_def paths split: option.splits)
qed

text \<open>
  The first save fails: its new key is written to the whitelist's temporary file and moved away with it.  It leaves a
  key without a signature, and a whitelist that was there is refused from then on.
\<close>

theorem first_save_fails:
  assumes "dget fs hmac_key_path = None" and "\<forall>n. failure env n = None"
  shows "\<exists>states fs'. save_whitelist env xs fs = (states, fs', False) \<and> dget fs' whitelist_path = dget fs whitelist_path
    \<and> dget fs' hmac_key_path = Some (new_key env)
    \<and> (dget fs hmac_sig_path = None \<longrightarrow> dget fs whitelist_path \<noteq> None \<longrightarrow> load_whitelist env fs' = Inl Missing_Signature)"
proof -
  have "key_ops env fs = create_key_ops env" using assms(1) by (simp add: key_ops_def dhas_def)
  then show ?thesis using assms
    by (auto simp: save_whitelist_def save_ops_def Let_def run_op_def create_key_ops_def load_whitelist_def signature_check_def
        paths split: option.splits)
qed

text \<open>With a key, only a whitelist signed with it is loaded; without one, any.\<close>

lemma loaded_is_signed:
  assumes "load_whitelist env fs = Inr xs" "dget fs hmac_key_path = Some key" "dget fs whitelist_path = Some raw"
  shows "\<exists>sig. dget fs hmac_sig_path = Some sig \<and> strip sig = hmac env key raw \<and> parse env raw = Some xs"
  using assms by (auto simp: load_whitelist_def signature_check_def split: option.splits if_splits)

lemma keyless_whitelist_is_trusted:
  assumes "dget fs whitelist_path = Some raw" "parse env raw = Some xs"
  shows "load_whitelist env (ddel hmac_key_path fs) = Inr xs"
  using assms by (simp add: load_whitelist_def signature_check_def paths)

text \<open>A file is taken for clean only by its present content: approved, or last scanned as clean.\<close>

lemma clean_means_known:
  assumes "is_scanned_and_clean sha256 online g fs p"
  shows "\<exists>c. dget fs p = Some c \<and> (sha256 c \<in> set (whitelist g)
    \<or> (\<exists>row. dget (scan_cache g) (sha256 c) = Some row \<and> scan_status row = ''CLEAN''))"
  using assms by (auto simp: is_scanned_and_clean_def file_hash_def split: option.splits if_splits)

lemma last_scan_counts:
  assumes "dget fs p = Some c" "sha256 c \<notin> set (whitelist g)"
  shows "is_scanned_and_clean sha256 True (update_scan_result sha256 True now fs p results status g) fs q
    \<longleftrightarrow> (if file_hash sha256 fs q = Some (sha256 c) then status = ''CLEAN'' else is_scanned_and_clean sha256 True g fs q)"
  using assms by (auto simp: is_scanned_and_clean_def update_scan_result_def file_hash_def split: option.splits)

definition demo_gov :: gov_env where
  "demo_gov = \<lparr>hmac = (\<lambda>k c. k @ c), render = concat, parse = (\<lambda>s. Some [s]), new_key = ''k'', key_hardens = True, key_unlinks = True,
     failure = (\<lambda>_. None)\<rparr>"

theorem first_save_fails_witness:
  "\<exists>states fs'. save_whitelist demo_gov [''a''] [(whitelist_path, ''b'')] = (states, fs', False) \<and> load_whitelist demo_gov fs' = Inl Missing_Signature"
  using first_save_fails[of "[(whitelist_path, ''b'')]" demo_gov "[''a'']"] by (auto simp: demo_gov_def paths)

theorem save_never_loses_the_whitelist_witness:
  "\<exists>states fs'. save_whitelist demo_gov [''a''] [(whitelist_path, ''b'')] = (states, fs', False) \<and> length states = 10
     \<and> (\<forall>s \<in> set states. load_whitelist demo_gov s = Inr [''b''] \<or> load_whitelist demo_gov s = Inr [''a''] \<or> (\<exists>r. load_whitelist demo_gov s = Inl r))"
proof -
  have "case save_whitelist demo_gov [''a''] [(whitelist_path, ''b'')] of (states, fs', ok) \<Rightarrow> \<not> ok \<and> length states = 10" by code_simp
  then obtain states fs' where r: "save_whitelist demo_gov [''a''] [(whitelist_path, ''b'')] = (states, fs', False)" "length states = 10" by auto
  have l: "load_whitelist demo_gov [(whitelist_path, ''b'')] = Inr [''b'']" "parse demo_gov (render demo_gov [''a'']) = Some [''a'']" by code_simp+
  show ?thesis
    using save_never_loses_the_whitelist[OF r(1) _ l] r by (intro exI[of _ states] exI[of _ fs']) auto
qed

end
