(* ===== verification/Json_Values.thy ===== *)
theory Json_Values
  imports Urls
begin

text \<open>
  \<open>str\<close>, \<open>repr\<close>, \<open>int\<close> and \<open>isdigit\<close> of Python on the values a parsed JSON document holds.  \<open>int\<close> of a float needs
  the number its text stands for, which is an argument.
\<close>

section \<open>Text of a value\<close>

definition SINGLE_QUOTE :: char where
  "SINGLE_QUOTE = char_of (39::nat)"

definition repr_char :: "char \<Rightarrow> char \<Rightarrow> string" where
  "repr_char quote c =
    (let n = code c; esc = char_of (92::nat) in
     if c = quote \<or> n = 92 then [esc, c]
     else if n = 10 then [esc, CHR ''n'']
     else if n = 13 then [esc, CHR ''r'']
     else if n = 9 then [esc, CHR ''t'']
     else if 32 \<le> n \<and> n \<le> 126 \<or> 161 \<le> n \<and> n \<noteq> 173 then [c]
     else [esc, CHR ''x'', hex_char (n div 16), hex_char (n mod 16)])"

definition repr_str :: "string \<Rightarrow> string" where
  "repr_str s =
    (let quote = (if SINGLE_QUOTE \<in> set s \<and> char_of (34::nat) \<notin> set s then char_of (34::nat) else SINGLE_QUOTE)
     in [quote] @ concat (map (repr_char quote) s) @ [quote])"

fun py_repr :: "json \<Rightarrow> string" where
  "py_repr JNull = ''None''"
| "py_repr (JBool b) = (if b then ''True'' else ''False'')"
| "py_repr (JInt i) = int_str i"
| "py_repr (JFloat s) = s"
| "py_repr (JStr s) = repr_str s"
| "py_repr (JList xs) = ''['' @ join '', '' (map py_repr xs) @ '']''"
| "py_repr (JDict kvs) = ''{'' @ join '', '' (map (\<lambda>(k, s). repr_str k @ '': '' @ s) (map (\<lambda>(k, v). (k, py_repr v)) kvs)) @ ''}''"
| "py_repr (JOther s) = s"

definition py_str :: "json \<Rightarrow> string" where
  "py_str v = (case v of JStr s \<Rightarrow> s | _ \<Rightarrow> py_repr v)"

section \<open>Numbers from text\<close>

definition is_digit :: "char \<Rightarrow> bool" where
  "is_digit c \<longleftrightarrow> 48 \<le> code c \<and> code c \<le> 57"

text \<open>\<open>str.isdigit\<close> is also true of the superscripts one, two and three, which \<open>int\<close> does not read.\<close>

definition isdigit :: "string \<Rightarrow> bool" where
  "isdigit s \<longleftrightarrow> s \<noteq> [] \<and> list_all (\<lambda>c. is_digit c \<or> code c \<in> {178, 179, 185}) s"

text \<open>The digits \<open>int\<close> reads: single underscores may stand between them.\<close>

fun digit_groups :: "string \<Rightarrow> string option" where
  "digit_groups [] = None"
| "digit_groups [c] = (if is_digit c then Some [c] else None)"
| "digit_groups (c # d # s) =
    (if \<not> is_digit c then None
     else map_option ((#) c) (if d = CHR ''_'' then digit_groups s else digit_groups (d # s)))"

definition str_int :: "string \<Rightarrow> int option" where
  "str_int s =
    (case strip s of
       [] \<Rightarrow> None
     | c # cs \<Rightarrow>
        if c = CHR ''-'' then map_option (\<lambda>d. - int (str_nat d)) (digit_groups cs)
        else map_option (\<lambda>d. int (str_nat d)) (digit_groups (if c = CHR ''+'' then cs else c # cs)))"

definition py_int :: "(string \<Rightarrow> int option) \<Rightarrow> json \<Rightarrow> int option" where
  "py_int float_int v =
    (case v of
       JInt n \<Rightarrow> Some n
     | JBool b \<Rightarrow> Some (if b then 1 else 0)
     | JStr s \<Rightarrow> str_int s
     | JFloat t \<Rightarrow> float_int t
     | _ \<Rightarrow> None)"

text \<open>Plain digits are read as the number they write.\<close>

lemma digit_groups_digits: "s \<noteq> [] \<Longrightarrow> list_all is_digit s \<Longrightarrow> digit_groups s = Some s"
proof (induction s rule: digit_groups.induct)
  case (3 c d s)
  then have "d \<noteq> CHR ''_''" by (auto simp: is_digit_def code_def)
  with 3 show ?case by simp
qed auto

lemma str_int_digits:
  assumes "s \<noteq> []" "list_all is_digit s"
  shows "str_int s = Some (int (str_nat s))"
proof -
  have hl: "is_digit (hd s)" "is_digit (last s)" using assms by (auto simp: list_all_iff)
  then have "strip s = s" using assms(1) by (intro strip_id) (auto simp: is_digit_def is_space_def)
  moreover have "hd s \<noteq> CHR ''-''" "hd s \<noteq> CHR ''+''" using hl by (auto simp: is_digit_def code_def)
  ultimately show ?thesis using assms digit_groups_digits[OF assms] by (cases s) (simp_all add: str_int_def)
qed

lemma str_int_superscript:
  assumes "isdigit s" "\<not> list_all is_digit s"
  shows "str_int s = None"
proof -
  have no: "list_all (\<lambda>c. is_digit c \<or> code c \<in> {178, 179, 185}) t \<Longrightarrow> \<not> list_all is_digit t \<Longrightarrow> digit_groups t = None" for t
  proof (induction t rule: digit_groups.induct)
    case (3 c d s)
    then have "d \<noteq> CHR ''_''" by (auto simp: is_digit_def code_def)
    with 3 show ?case by auto
  qed auto
  have s: "s \<noteq> []" "list_all (\<lambda>c. is_digit c \<or> code c \<in> {178, 179, 185}) s" using assms(1) by (auto simp: isdigit_def)
  have ne: "\<not> is_space c \<and> c \<noteq> CHR ''-'' \<and> c \<noteq> CHR ''+''" if "c \<in> set s" for c
  proof -
    have "is_digit c \<or> code c \<in> {178, 179, 185}" using s(2) that by (simp add: list_all_iff)
    moreover have "code (CHR ''-'') = 45" "code (CHR ''+'') = 43" by (simp_all add: code_def)
    ultimately show ?thesis by (auto simp: is_digit_def is_space_def)
  qed
  have "hd s \<in> set s" "last s \<in> set s" using s(1) by simp_all
  then have "strip s = s" "hd s \<noteq> CHR ''-''" "hd s \<noteq> CHR ''+''" using s(1) ne[of "hd s"] ne[of "last s"] by (auto intro!: strip_id)
  then show ?thesis using s no[OF s(2) assms(2)] by (cases s) (simp_all add: str_int_def)
qed

end
