(* ===== verification/Auth_Token.thy ===== *)
theory Auth_Token
  imports Json_Values
begin

text \<open>
  \<open>sky_claw/antigravity/security/auth_token_manager.py\<close>: the token the user interface and the daemon share, its
  validation, rotation and revocation, and the reading of its file.  SHA-256, the random token, JSON texts and the
  clock are parameters; \<open>number\<close> is the value of a JSON number.  The directory and its permissions are left out.
\<close>

definition TOKEN_TTL :: real where "TOKEN_TTL = 3600"

record token_manager =
  token_hash :: "string option"
  created_at :: real
  token_file :: "string option"

definition new_token_manager :: "string option \<Rightarrow> token_manager" where
  "new_token_manager file_text = \<lparr>token_hash = None, created_at = 0, token_file = file_text\<rparr>"

text \<open>
  The token and its time are in memory before the file is written; a write that fails raises, and may leave a part.
  \<open>payload\<close> is the text of the file.
\<close>

definition generate ::
  "(string \<Rightarrow> string) \<Rightarrow> (string \<Rightarrow> real \<Rightarrow> string) \<Rightarrow> string option option \<Rightarrow> string \<Rightarrow> real \<Rightarrow> token_manager \<Rightarrow> token_manager \<times> bool" where
  "generate sha256 payload failure token now m =
    (let m1 = m\<lparr>token_hash := Some (sha256 token), created_at := now\<rparr> in
     case failure of
       Some None \<Rightarrow> (m1, False)
     | Some (Some part) \<Rightarrow> (m1\<lparr>token_file := Some part\<rparr>, False)
     | None \<Rightarrow> (m1\<lparr>token_file := Some (payload token now)\<rparr>, True))"

definition validate :: "(string \<Rightarrow> string) \<Rightarrow> token_manager \<Rightarrow> string \<Rightarrow> real \<Rightarrow> bool" where
  "validate sha256 m token now =
    (case token_hash m of
       None \<Rightarrow> False
     | Some h \<Rightarrow> if h = [] then False else if now - created_at m > TOKEN_TTL then False else sha256 token = h)"

definition revoke :: "token_manager \<Rightarrow> token_manager" where
  "revoke m = m\<lparr>token_hash := None, created_at := 0, token_file := None\<rparr>"

text \<open>A round of the rotation: the callbacks run only after a rotation that worked, and their failures are logged.\<close>

definition rotate ::
  "(string \<Rightarrow> string) \<Rightarrow> (string \<Rightarrow> real \<Rightarrow> string) \<Rightarrow> string option option \<Rightarrow> string \<Rightarrow> real \<Rightarrow> 'cb list \<Rightarrow> token_manager \<Rightarrow>
   token_manager \<times> 'cb list" where
  "rotate sha256 payload failure token now callbacks m =
    (case generate sha256 payload failure token now m of (m', ok) \<Rightarrow> (m', if ok then callbacks else []))"

definition register_rotation_callback :: "'cb \<Rightarrow> 'cb list \<Rightarrow> 'cb list" where
  "register_rotation_callback cb cbs = (if cb \<in> set cbs then cbs else cbs @ [cb])"

text \<open>
  The daemon's side: no token, a token (of a JSON object any value), or a \<open>TypeError\<close> when the time is no number.
\<close>

definition read_token_file ::
  "(string \<Rightarrow> json option) \<Rightarrow> (json \<Rightarrow> real option) \<Rightarrow> string option \<Rightarrow> real \<Rightarrow> unit + json option" where
  "read_token_file loads number file_text now =
    (case file_text of
       None \<Rightarrow> Inr None
     | Some text \<Rightarrow>
        let raw = strip text in
        if raw = [] then Inr None
        else
          (case loads raw of
             Some (JDict kvs) \<Rightarrow>
              (let token = dget_or kvs ''token'' JNull; created = dget_or kvs ''created_at'' (JInt 0);
                   given = (if truthy token then Some token else None)
               in if \<not> truthy created then Inr given
                  else (case number created of
                          None \<Rightarrow> Inl ()
                        | Some c \<Rightarrow> if now - c > TOKEN_TTL then Inr None else Inr given))
           | _ \<Rightarrow> Inr (Some (JStr raw))))"

section \<open>The life of a token\<close>

datatype token_op = Generated string real "string option option" | Revoked

definition token_step :: "(string \<Rightarrow> string) \<Rightarrow> (string \<Rightarrow> real \<Rightarrow> string) \<Rightarrow> token_manager \<Rightarrow> token_op \<Rightarrow> token_manager" where
  "token_step sha256 payload m x =
    (case x of Generated t now failure \<Rightarrow> fst (generate sha256 payload failure t now m) | Revoked \<Rightarrow> revoke m)"

text \<open>The token of the last operation, if that was no revocation.\<close>

fun current_token :: "token_op list \<Rightarrow> (string \<times> real) option" where
  "current_token [] = None"
| "current_token (x # xs) =
    (if xs \<noteq> [] then current_token xs else case x of Generated t now _ \<Rightarrow> Some (t, now) | Revoked \<Rightarrow> None)"

lemma current_token_snoc:
  "current_token (xs @ [x]) = (case x of Generated t now _ \<Rightarrow> Some (t, now) | Revoked \<Rightarrow> None)"
  by (induction xs) auto

lemma token_state:
  "foldl (token_step sha256 payload) (new_token_manager f) xs = m \<Longrightarrow>
   (case current_token xs of None \<Rightarrow> token_hash m = None | Some (t, now) \<Rightarrow> token_hash m = Some (sha256 t) \<and> created_at m = now)"
proof (induction xs arbitrary: m rule: rev_induct)
  case (snoc x xs)
  then show ?case
    by (auto simp: current_token_snoc token_step_def generate_def revoke_def Let_def split: token_op.splits option.splits)
qed (auto simp: new_token_manager_def)

text \<open>
  C38: after any history of generations, failed ones too, rotations and revocations, a token is accepted exactly when the last
  operation generated one with the same hash at most an hour ago: rotated and revoked tokens are refused.
\<close>

theorem only_the_last_token_is_accepted:
  assumes "\<And>t. sha256 t \<noteq> []"
  shows "validate sha256 (foldl (token_step sha256 payload) (new_token_manager f) xs) token now
    \<longleftrightarrow> (\<exists>t c. current_token xs = Some (t, c) \<and> sha256 token = sha256 t \<and> now - c \<le> 3600)"
  using token_state[of sha256 payload f xs, OF refl] assms
  by (auto simp: validate_def TOKEN_TTL_def split: option.splits)

theorem only_the_last_token_is_accepted_witness:
  "validate (\<lambda>t. CHR ''h'' # t) (foldl (token_step (\<lambda>t. CHR ''h'' # t) (\<lambda>t _. t)) (new_token_manager None)
       [Generated ''a'' 0 None, Generated ''b'' 1800 None]) ''b'' 5000
   \<and> \<not> validate (\<lambda>t. CHR ''h'' # t) (foldl (token_step (\<lambda>t. CHR ''h'' # t) (\<lambda>t _. t)) (new_token_manager None)
       [Generated ''a'' 0 None, Generated ''b'' 1800 None]) ''a'' 5000"
  by (simp only: only_the_last_token_is_accepted[of "\<lambda>t. CHR ''h'' # t"] list.simps simp_thms) simp

text \<open>What the interface wrote the daemon reads, for an hour, and the interface accepts it.\<close>

lemma generated_token_is_read_back:
  assumes "generate sha256 payload None token now m = (m', ok)" "token \<noteq> []" "sha256 token \<noteq> []"
    and "loads (strip (payload token now)) = Some (JDict [(''token'', JStr token), (''created_at'', c), (''ttl'', JInt 3600)])"
    and "strip (payload token now) \<noteq> []" "truthy c" "number c = Some now" "now' - now \<le> 3600"
  shows "read_token_file loads number (token_file m') now' = Inr (Some (JStr token)) \<and> validate sha256 m' token now'"
  using assms by (auto simp: generate_def read_token_file_def validate_def TOKEN_TTL_def dget_or_def Let_def)

text \<open>A rotation whose write fails refuses the token of the file, the only one the daemon can read.\<close>

lemma failed_rotation_locks_out:
  assumes "sha256 new \<noteq> sha256 old" "sha256 new \<noteq> []" "token_file m = Some (payload old t0)"
  shows "\<not> validate sha256 (fst (rotate sha256 payload (Some None) new now cbs m)) old now'
    \<and> token_file (fst (rotate sha256 payload (Some None) new now cbs m)) = Some (payload old t0)"
  using assms by (auto simp: rotate_def generate_def validate_def Let_def)

text \<open>A file without a time never expires, and a document that is no object is a token as a whole.\<close>

lemma timeless_token_never_expires:
  assumes "loads (strip text) = Some (JDict [(''token'', JStr t)])" "strip text \<noteq> []" "t \<noteq> []"
  shows "read_token_file loads number (Some text) now = Inr (Some (JStr t))"
  using assms by (simp add: read_token_file_def dget_or_def Let_def)

lemma list_is_a_token:
  "loads (strip text) = Some (JList xs) \<Longrightarrow> strip text \<noteq> [] \<Longrightarrow> read_token_file loads number (Some text) now = Inr (Some (JStr (strip text)))"
  by (simp add: read_token_file_def Let_def)

end
