(* ===== verification/Step_System.thy ===== *)
theory Step_System
  imports Prelude
begin

text \<open>
  The interface of a concurrent component that settles: \<open>step a s\<close> is the state after the action \<open>a\<close> of
  one of its tasks, \<open>None\<close> when the task cannot do it now.  What is promised of the steps gives bounded
  runs without deadlock.  The loops of a single task have an interface of their own: a pass gives the next
  state or the result.
\<close>

section \<open>Loops\<close>

fun run_loop :: "('s \<Rightarrow> 's + 'r) \<Rightarrow> nat \<Rightarrow> 's \<Rightarrow> 's + 'r" where
  "run_loop step 0 s = Inl s"
| "run_loop step (Suc n) s = (case step s of Inl t \<Rightarrow> run_loop step n t | Inr r \<Rightarrow> Inr r)"

locale checked_loop =
  fixes step :: "'s \<Rightarrow> 's + 'r"
    and inv :: "'s \<Rightarrow> bool"
    and good :: "'r \<Rightarrow> bool"
  assumes keeps: "inv s \<Longrightarrow> step s = Inl t \<Longrightarrow> inv t"
    and gives: "inv s \<Longrightarrow> step s = Inr r \<Longrightarrow> good r"
begin

lemma loop_keeps: "inv s \<Longrightarrow> run_loop step n s = Inl t \<Longrightarrow> inv t"
  by (induction n arbitrary: s) (auto split: sum.splits dest: keeps)

lemma loop_gives: "inv s \<Longrightarrow> run_loop step n s = Inr r \<Longrightarrow> good r"
  by (induction n arbitrary: s) (auto split: sum.splits dest: keeps gives)

end

locale ending_loop = checked_loop step inv good
  for step :: "'s \<Rightarrow> 's + 'r" and inv :: "'s \<Rightarrow> bool" and good :: "'r \<Rightarrow> bool" +
  fixes left :: "'s \<Rightarrow> nat"
  assumes pass_spends: "inv s \<Longrightarrow> step s = Inl t \<Longrightarrow> left t < left s"
begin

lemma loop_ends: "inv s \<Longrightarrow> left s < n \<Longrightarrow> \<exists>r. run_loop step n s = Inr r"
proof (induction n arbitrary: s)
  case (Suc n)
  then show ?case using keeps[of s] pass_spends[of s] by (cases "step s") fastforce+
qed simp

end

section \<open>Concurrent tasks\<close>

fun run_actions :: "('a \<Rightarrow> 's \<Rightarrow> 's option) \<Rightarrow> 'a list \<Rightarrow> 's \<Rightarrow> 's option" where
  "run_actions step [] s = Some s"
| "run_actions step (a # as) s = (case step a s of None \<Rightarrow> None | Some s' \<Rightarrow> run_actions step as s')"

lemma run_actions_append:
  "run_actions step (as @ bs) s = (case run_actions step as s of None \<Rightarrow> None | Some s' \<Rightarrow> run_actions step bs s')"
  by (induction as arbitrary: s) (auto split: option.split)

locale stepping =
  fixes step :: "'a \<Rightarrow> 's \<Rightarrow> 's option"
    and inv :: "'s \<Rightarrow> bool"
  assumes step_inv: "inv s \<Longrightarrow> step a s = Some t \<Longrightarrow> inv t"
begin

lemma run_inv: "inv s \<Longrightarrow> run_actions step as s = Some t \<Longrightarrow> inv t"
  by (induction as arbitrary: s) (auto split: option.splits dest: step_inv)

end

locale settling = stepping step inv for step :: "'a \<Rightarrow> 's \<Rightarrow> 's option" and inv :: "'s \<Rightarrow> bool" +
  fixes final :: "'s \<Rightarrow> bool"
    and work :: "'s \<Rightarrow> nat"
  assumes spends: "inv s \<Longrightarrow> step a s = Some t \<Longrightarrow> work t < work s"
    and moves: "inv s \<Longrightarrow> \<not> final s \<Longrightarrow> \<exists>a t. step a s = Some t"
begin

lemma run_bounded: "inv s \<Longrightarrow> run_actions step as s = Some t \<Longrightarrow> length as + work t \<le> work s"
proof (induction as arbitrary: s)
  case (Cons a as)
  then obtain u where u: "step a s = Some u" "run_actions step as u = Some t" by (auto split: option.splits)
  then have "length as + work t \<le> work u" using Cons.IH step_inv[OF Cons.prems(1)] by blast
  then show ?case using spends[OF Cons.prems(1) u(1)] by simp
qed simp

lemma settles: "inv s \<Longrightarrow> \<exists>as t. run_actions step as s = Some t \<and> final t"
proof (induction "work s" arbitrary: s rule: less_induct)
  case less
  show ?case
  proof (cases "final s")
    case True
    then show ?thesis by (intro exI[of _ "[]"] exI[of _ s]) simp
  next
    case False
    then obtain a u where u: "step a s = Some u" using moves less.prems by blast
    then obtain as t where "run_actions step as u = Some t" "final t"
      using less.hyps[of u] spends[OF less.prems u] step_inv[OF less.prems u] by blast
    then show ?thesis using u by (intro exI[of _ "a # as"] exI[of _ t]) simp
  qed
qed

end

end
