(* ===== verification/Db_Lifecycle.thy ===== *)
theory Db_Lifecycle
  imports Step_System
begin

text \<open>
  \<open>sky_claw/antigravity/core/db_lifecycle.py\<close>: the pool of connections, their initialisation with the recovery of
  orphaned WAL files, checkpoints, shutdown and health.  A path is its text; \<open>real_path\<close> is \<open>resolve\<close>, and
  \<open>beside\<close> names the database whose WAL file is found by adding \<open>-wal\<close> to a path, which is the resolved one unless
  the path is a link.  What SQLite does is a parameter: whether recovery, opening and checkpoints work, and the size
  of the WAL file they leave.  Each initialisation is an attempt with its own verdict: the same path may fail once and
  open the next time.
\<close>

section \<open>State\<close>

record lifecycle_config =
  wal_warning_threshold :: nat
  wal_critical_threshold :: nat

definition default_lifecycle :: lifecycle_config where
  "default_lifecycle = \<lparr>wal_warning_threshold = 10485760, wal_critical_threshold = 52428800\<rparr>"

text \<open>\<open>wal_files\<close> are the sizes of the WAL files by the path of their database, \<open>shm_files\<close> the shared memory files.\<close>

text \<open>\<open>abandoned\<close> are the connections that opened, were never closed and are in nobody's hands, with their paths.\<close>

record lifecycle =
  lc_config :: lifecycle_config
  db_paths :: "string list"
  connections :: "(string, nat) dict"
  next_conn :: nat
  attempts :: nat
  abandoned :: "(string \<times> nat) list"
  wal_files :: "(string, nat) dict"
  shm_files :: "string list"
  quarantined :: "string list"
  atexit_registered :: bool

text \<open>
  What comes of connecting and of the statements that follow: the connection does not open, it opens and a statement
  on it raises, or all of it works.
\<close>

datatype open_outcome = Not_Opened | Statement_Raised | Opened

record sqlite =
  real_path :: "string \<Rightarrow> string"
  beside :: "string \<Rightarrow> string"
  recovers :: "nat \<Rightarrow> string \<Rightarrow> open_outcome"
  moves_wal :: "string \<Rightarrow> bool"
  opens :: "nat \<Rightarrow> string \<Rightarrow> open_outcome"
  checkpoints :: "string \<Rightarrow> bool \<Rightarrow> (int \<times> int \<times> int) option option"
  wal_after :: "string \<Rightarrow> bool \<Rightarrow> nat"
  close_removes :: "string \<Rightarrow> bool"

definition new_lifecycle :: "string list \<Rightarrow> lifecycle_config \<Rightarrow> lifecycle" where
  "new_lifecycle paths c = \<lparr>lc_config = c, db_paths = paths, connections = [], next_conn = 0, attempts = 0, abandoned = [], wal_files = [], shm_files = [],
     quarantined = [], atexit_registered = False\<rparr>"

definition add_db_path :: "sqlite \<Rightarrow> string \<Rightarrow> lifecycle \<Rightarrow> lifecycle" where
  "add_db_path q p m =
    (if real_path q p \<notin> set (map (real_path q) (db_paths m)) then m\<lparr>db_paths := db_paths m @ [p]\<rparr> else m)"

section \<open>Initialisation\<close>

definition has_wal :: "sqlite \<Rightarrow> lifecycle \<Rightarrow> string \<Rightarrow> bool" where
  "has_wal q m p = dhas (wal_files m) (beside q p)"

definition has_shm :: "sqlite \<Rightarrow> lifecycle \<Rightarrow> string \<Rightarrow> bool" where
  "has_shm q m p \<longleftrightarrow> beside q p \<in> set (shm_files m)"

text \<open>A connection whose statement raised stays open: nothing closes it and nothing remembers it.\<close>

definition abandon :: "string \<Rightarrow> lifecycle \<Rightarrow> lifecycle" where
  "abandon p m = m\<lparr>abandoned := abandoned m @ [(p, next_conn m)], next_conn := next_conn m + 1\<rparr>"

text \<open>A recovery that works checkpoints the WAL away; one that fails moves it aside, if it can.\<close>

definition recover_orphaned_wal :: "sqlite \<Rightarrow> string \<Rightarrow> lifecycle \<Rightarrow> lifecycle" where
  "recover_orphaned_wal q p m =
    (let outcome = recovers q (attempts m) p in
     if outcome = Opened then m\<lparr>wal_files := ddel p (wal_files m), shm_files := removeAll p (shm_files m)\<rparr>
     else
       let m1 = (if outcome = Statement_Raised then abandon p m else m)
       in if has_wal q m1 p \<and> moves_wal q p
          then m1\<lparr>wal_files := ddel p (wal_files m1), quarantined := quarantined m1 @ [p]\<rparr> else m1)"

text \<open>The pool takes the connection only when the pragmas have been applied; the outcome is returned with the state.\<close>

definition init_single :: "sqlite \<Rightarrow> string \<Rightarrow> lifecycle \<Rightarrow> lifecycle \<times> open_outcome" where
  "init_single q db_path m0 =
    (let p = real_path q db_path; m = m0\<lparr>attempts := attempts m0 + 1\<rparr>;
         m1 = (if has_wal q m p \<or> has_shm q m p then recover_orphaned_wal q p m else m);
         outcome = opens q (attempts m) p
     in case outcome of
          Not_Opened \<Rightarrow> (m1, outcome)
        | Statement_Raised \<Rightarrow> (abandon p m1, outcome)
        | Opened \<Rightarrow> (m1\<lparr>connections := dset p (next_conn m1) (connections m1), next_conn := next_conn m1 + 1\<rparr>, outcome))"

fun init_paths :: "sqlite \<Rightarrow> string list \<Rightarrow> lifecycle \<Rightarrow> lifecycle \<times> open_outcome" where
  "init_paths q [] m = (m, Opened)"
| "init_paths q (p # ps) m = (case init_single q p m of (m', Opened) \<Rightarrow> init_paths q ps m' | (m', e) \<Rightarrow> (m', e))"

definition init_all :: "sqlite \<Rightarrow> lifecycle \<Rightarrow> lifecycle \<times> open_outcome" where
  "init_all q m = init_paths q (db_paths m) m"

definition evict_connection :: "sqlite \<Rightarrow> string \<Rightarrow> lifecycle \<Rightarrow> lifecycle" where
  "evict_connection q p m = m\<lparr>connections := ddel (real_path q p) (connections m)\<rparr>"

section \<open>Checkpoints, shutdown and health\<close>

definition wal_size :: "sqlite \<Rightarrow> lifecycle \<Rightarrow> string \<Rightarrow> nat" where
  "wal_size q m p = dget_or (wal_files m) (beside q p) 0"

text \<open>The result of a checkpoint: an error, or the row of SQLite with the sizes around it; \<open>True\<close> is \<open>TRUNCATE\<close>.\<close>

record checkpoint_result =
  busy :: int
  log_frames :: int
  checkpointed_frames :: int
  size_before :: nat
  size_after :: nat

definition set_wal :: "string \<Rightarrow> nat \<Rightarrow> lifecycle \<Rightarrow> lifecycle" where
  "set_wal p n m = m\<lparr>wal_files := dset p n (wal_files m)\<rparr>"

definition checkpoint_one :: "sqlite \<Rightarrow> bool \<Rightarrow> string \<Rightarrow> lifecycle \<Rightarrow> lifecycle \<times> checkpoint_result option" where
  "checkpoint_one q hard p m =
    (let before = wal_size q m p in
     case checkpoints q p hard of
       None \<Rightarrow> (m, None)
     | Some row \<Rightarrow>
        let m1 = set_wal p (wal_after q p hard) m;
            (b, l, c) = (case row of None \<Rightarrow> (-1, -1, -1) | Some r \<Rightarrow> r);
            result = \<lparr>busy = b, log_frames = l, checkpointed_frames = c, size_before = before, size_after = wal_size q m1 p\<rparr>
        in if \<not> hard \<and> wal_critical_threshold (lc_config m) < before then
             (case checkpoints q p True of None \<Rightarrow> (m1, None) | Some _ \<Rightarrow> (set_wal p (wal_after q p True) m1, Some result))
           else (m1, Some result))"

fun checkpoint_paths :: "sqlite \<Rightarrow> bool \<Rightarrow> string list \<Rightarrow> lifecycle \<Rightarrow> lifecycle \<times> (string \<times> checkpoint_result option) list" where
  "checkpoint_paths q hard [] m = (m, [])"
| "checkpoint_paths q hard (p # ps) m =
    (case checkpoint_one q hard p m of
       (m1, r) \<Rightarrow> (case checkpoint_paths q hard ps m1 of (m2, rs) \<Rightarrow> (m2, (p, r) # rs)))"

definition checkpoint_all :: "sqlite \<Rightarrow> bool \<Rightarrow> lifecycle \<Rightarrow> lifecycle \<times> (string \<times> checkpoint_result option) list" where
  "checkpoint_all q hard m = checkpoint_paths q hard (keys (connections m)) m"

text \<open>Closing a connection, which may raise, removes the files of its database or leaves them.\<close>

definition close_conn :: "sqlite \<Rightarrow> string \<Rightarrow> lifecycle \<Rightarrow> lifecycle" where
  "close_conn q p m =
    (if close_removes q p then m\<lparr>wal_files := ddel p (wal_files m), shm_files := removeAll p (shm_files m)\<rparr> else m)"

text \<open>Shutdown gives also the paths whose files it finds left, by the registered path, not the resolved one.\<close>

definition shutdown_all :: "sqlite \<Rightarrow> lifecycle \<Rightarrow> lifecycle \<times> string list" where
  "shutdown_all q m =
    (if connections m = [] then (m, [])
     else
       let m1 = fst (checkpoint_all q True m); m2 = (fold (close_conn q) (keys (connections m1)) m1)\<lparr>connections := []\<rparr>
       in (m2, filter (\<lambda>p. has_wal q m2 p \<or> has_shm q m2 p) (db_paths m2)))"

datatype wal_status = Healthy | Warning | Critical

definition wal_health :: "lifecycle_config \<Rightarrow> nat \<Rightarrow> wal_status" where
  "wal_health c n = (if wal_critical_threshold c < n then Critical else if wal_warning_threshold c < n then Warning else Healthy)"

text \<open>The states of a WAL in the order of their urgency.\<close>

fun urgency :: "wal_status \<Rightarrow> nat" where
  "urgency Healthy = 0" | "urgency Warning = 1" | "urgency Critical = 2"

instantiation wal_status :: linorder
begin

definition less_eq_wal_status :: "wal_status \<Rightarrow> wal_status \<Rightarrow> bool" where
  "less_eq_wal_status a b \<longleftrightarrow> urgency a \<le> urgency b"

definition less_wal_status :: "wal_status \<Rightarrow> wal_status \<Rightarrow> bool" where
  "less_wal_status a b \<longleftrightarrow> urgency a < urgency b"

instance
proof
  fix a b :: wal_status
  show "a \<le> b \<Longrightarrow> b \<le> a \<Longrightarrow> a = b" by (cases a; cases b) (auto simp: less_eq_wal_status_def)
qed (auto simp: less_eq_wal_status_def less_wal_status_def)

end

text \<open>A larger WAL is never reported as less urgent, in whatever order the two thresholds are configured.\<close>

lemma wal_health_mono: "mono (wal_health c)"
  by (rule monoI) (auto simp: wal_health_def less_eq_wal_status_def)

definition health_check :: "sqlite \<Rightarrow> lifecycle \<Rightarrow> (string, bool \<times> nat \<times> wal_status) dict" where
  "health_check q m =
    foldl (\<lambda>d p. dset p (0 < wal_size q m p, wal_size q m p, wal_health (lc_config m) (wal_size q m p)) d) [] (db_paths m)"

text \<open>\<open>_sync_shutdown\<close>: the paths in order; an error after more than ten seconds ends it.  \<open>elapsed\<close> is its clock.\<close>

fun sync_shutdown :: "sqlite \<Rightarrow> (string \<Rightarrow> nat) \<Rightarrow> string list \<Rightarrow> lifecycle \<Rightarrow> lifecycle" where
  "sync_shutdown q elapsed [] m = m"
| "sync_shutdown q elapsed (p # ps) m =
    (case checkpoints q p True of
       Some _ \<Rightarrow> sync_shutdown q elapsed ps (set_wal (real_path q p) (wal_after q p True) m)
     | None \<Rightarrow> if 10 < elapsed p then m else sync_shutdown q elapsed ps m)"

definition register_atexit_handler :: "lifecycle \<Rightarrow> lifecycle" where
  "register_atexit_handler m = m\<lparr>atexit_registered := True\<rparr>"

section \<open>Concurrent requests for connections\<close>

text \<open>
  The callers of \<open>get_connection\<close>, interleaved at its awaits: the first look, the lock, the second look with the
  registration of the path, and the initialisation under the lock.  \<open>opened\<close> records every initialisation, by the resolved
  path, with its outcome.
\<close>

datatype caller = Fresh | Wants_Lock | Holds_Lock | Opening | Has nat | Failed

record pool =
  lc :: lifecycle
  holder :: "nat option"
  callers :: "(string \<times> caller) list"
  opened :: "(string \<times> open_outcome) list"

definition register_path :: "sqlite \<Rightarrow> string \<Rightarrow> lifecycle \<Rightarrow> lifecycle" where
  "register_path q p m = (if real_path q p \<in> set (map (real_path q) (db_paths m)) then m else m\<lparr>db_paths := db_paths m @ [p]\<rparr>)"

definition get_connection_step :: "sqlite \<Rightarrow> nat \<Rightarrow> pool \<Rightarrow> pool option" where
  "get_connection_step q i s =
    (if length (callers s) \<le> i then None
     else
       let (p, c) = callers s ! i; m = lc s; found = dget (connections m) (real_path q p);
           now = (\<lambda>x. s\<lparr>callers := (callers s)[i := (p, x)]\<rparr>)
       in case c of
            Fresh \<Rightarrow> Some (now (case found of Some n \<Rightarrow> Has n | None \<Rightarrow> Wants_Lock))
          | Wants_Lock \<Rightarrow> if holder s = None then Some ((now Holds_Lock)\<lparr>holder := Some i\<rparr>) else None
          | Holds_Lock \<Rightarrow>
             (case found of
                Some n \<Rightarrow> Some ((now (Has n))\<lparr>holder := None\<rparr>)
              | None \<Rightarrow> Some ((now Opening)\<lparr>lc := register_path q p m\<rparr>))
          | Opening \<Rightarrow>
             (case init_single q p m of
                (m', outcome) \<Rightarrow>
                   Some ((now (if outcome = Opened then Has (the (dget (connections m') (real_path q p))) else Failed))
                     \<lparr>lc := m', holder := None, opened := opened s @ [(real_path q p, outcome)]\<rparr>))
          | _ \<Rightarrow> None)"

definition start_pool :: "lifecycle \<Rightarrow> string list \<Rightarrow> pool" where
  "start_pool m ps = \<lparr>lc = m, holder = None, callers = map (\<lambda>p. (p, Fresh)) ps, opened = []\<rparr>"

definition served :: "pool \<Rightarrow> bool" where
  "served s \<longleftrightarrow> list_all (\<lambda>(p, c). case c of Has _ \<Rightarrow> True | Failed \<Rightarrow> True | _ \<Rightarrow> False) (callers s)"

fun stage :: "caller \<Rightarrow> nat" where
  "stage Fresh = 4" | "stage Wants_Lock = 3" | "stage Holds_Lock = 2" | "stage Opening = 1" | "stage (Has n) = 0" | "stage Failed = 0"

definition waiting :: "pool \<Rightarrow> nat" where
  "waiting s = sum_list (map (stage \<circ> snd) (callers s))"

fun caller_ok :: "sqlite \<Rightarrow> (string, nat) dict \<Rightarrow> string \<times> caller \<Rightarrow> bool" where
  "caller_ok q conns (p, Opening) = (dget conns (real_path q p) = None)"
| "caller_ok q conns (p, Has n) = (dget conns (real_path q p) = Some n)"
| "caller_ok q conns (p, c) = True"

fun holds :: "caller \<Rightarrow> bool" where
  "holds Holds_Lock = True" | "holds Opening = True" | "holds c = False"

text \<open>
  The lock is held by the one caller between its acquisition and its release; a caller that opens found nothing;
  every connection given out is the pool's; after a path has opened, the pool has it and nobody opens it again.
\<close>

definition callers_ok :: "sqlite \<Rightarrow> pool \<Rightarrow> bool" where
  "callers_ok q s \<longleftrightarrow>
     (\<forall>i < length (callers s). holds (snd (callers s ! i)) = (holder s = Some i) \<and> caller_ok q (connections (lc s)) (callers s ! i))
   \<and> (\<forall>i. holder s = Some i \<longrightarrow> i < length (callers s))"

definition opened_ok :: "(string, nat) dict \<Rightarrow> pool \<Rightarrow> bool" where
  "opened_ok old s \<longleftrightarrow> sorted_wrt (\<lambda>a b. fst b = fst a \<longrightarrow> snd a \<noteq> Opened) (opened s)
   \<and> (\<forall>p. (p, Opened) \<in> set (opened s) \<longrightarrow> dhas (connections (lc s)) p)
   \<and> (\<forall>(p, _) \<in> set (opened s). \<not> dhas old p)
   \<and> (\<forall>p n. dget old p = Some n \<longrightarrow> dget (connections (lc s)) p = Some n)
   \<and> length (filter (\<lambda>(_, c). c = Failed) (callers s)) = length (filter (\<lambda>(_, r). r \<noteq> Opened) (opened s))"

definition pool_ok :: "sqlite \<Rightarrow> (string, nat) dict \<Rightarrow> pool \<Rightarrow> bool" where
  "pool_ok q old s \<longleftrightarrow> callers_ok q s \<and> opened_ok old s"

lemma recover_connections [simp]: "connections (recover_orphaned_wal q p m) = connections m"
  by (simp add: recover_orphaned_wal_def abandon_def Let_def)

lemma abandon_connections [simp]: "connections (abandon p m) = connections m"
  by (simp add: abandon_def)

lemma register_connections [simp]: "connections (register_path q p m) = connections m"
  by (simp add: register_path_def)

lemma init_single_result:
  "init_single q p m = (m', r) \<Longrightarrow>
   (if r = Opened then \<exists>n. connections m' = dset (real_path q p) n (connections m) else connections m' = connections m)"
  by (auto simp: init_single_def Let_def split: open_outcome.splits if_splits)

text \<open>The steps a caller can make, one by one.\<close>

inductive pool_move :: "sqlite \<Rightarrow> nat \<Rightarrow> string \<Rightarrow> caller \<Rightarrow> pool \<Rightarrow> caller \<Rightarrow> nat option \<Rightarrow> lifecycle \<Rightarrow> (string \<times> open_outcome) list \<Rightarrow> bool"
  for q i p where
  seen: "dget (connections (lc s)) (real_path q p) = Some n \<Longrightarrow> pool_move q i p Fresh s (Has n) (holder s) (lc s) (opened s)"
| missed: "pool_move q i p Fresh s Wants_Lock (holder s) (lc s) (opened s)"
| locks: "holder s = None \<Longrightarrow> pool_move q i p Wants_Lock s Holds_Lock (Some i) (lc s) (opened s)"
| seen_now: "dget (connections (lc s)) (real_path q p) = Some n \<Longrightarrow> pool_move q i p Holds_Lock s (Has n) None (lc s) (opened s)"
| registers: "dget (connections (lc s)) (real_path q p) = None \<Longrightarrow>
    pool_move q i p Holds_Lock s Opening (holder s) (register_path q p (lc s)) (opened s)"
| opens_it: "init_single q p (lc s) = (m', Opened) \<Longrightarrow>
    pool_move q i p Opening s (Has (the (dget (connections m') (real_path q p)))) None m' (opened s @ [(real_path q p, Opened)])"
| fails: "init_single q p (lc s) = (m', r) \<Longrightarrow> r \<noteq> Opened \<Longrightarrow>
    pool_move q i p Opening s Failed None m' (opened s @ [(real_path q p, r)])"

inductive_cases pool_moveE: "pool_move q i p c s c' h m' os"

lemma step_moves_pair:
  "get_connection_step q i s = Some t \<Longrightarrow> callers s ! i = (p, c) \<Longrightarrow>
   i < length (callers s) \<and> pool_move q i p c s (snd (callers t ! i)) (holder t) (lc t) (opened t)
     \<and> callers t = (callers s)[i := (p, snd (callers t ! i))]"
  by (cases c)
    (auto simp: get_connection_step_def Let_def intro: pool_move.intros split: if_splits option.splits prod.splits bool.splits)

lemma step_moves:
  "get_connection_step q i s = Some t \<Longrightarrow>
   \<exists>p c c'. i < length (callers s) \<and> callers s ! i = (p, c) \<and> pool_move q i p c s c' (holder t) (lc t) (opened t)
     \<and> callers t = (callers s)[i := (p, c')]"
  using step_moves_pair[of q i s t "fst (callers s ! i)" "snd (callers s ! i)"] by (metis prod.collapse)

text \<open>What a move does to the stage, to the lock and to the connections.\<close>

lemma move_stage: "pool_move q i p c s c' h m' os \<Longrightarrow> stage c' < stage c"
  by (erule pool_moveE) auto

lemma move_lock:
  "pool_move q i p c s c' h m' os \<Longrightarrow> holds c = (holder s = Some i) \<Longrightarrow>
   holds c' = (h = Some i) \<and> (\<forall>j. j \<noteq> i \<longrightarrow> (h = Some j) = (holder s = Some j))"
  by (erule pool_moveE) auto

lemma move_connections:
  "pool_move q i p c s c' h m' os \<Longrightarrow>
   connections m' = connections (lc s) \<and> os = opened s \<and> c' \<noteq> Failed
   \<or> c = Opening \<and> (\<exists>r. r \<noteq> Opened \<and> os = opened s @ [(real_path q p, r)]) \<and> connections m' = connections (lc s) \<and> c' = Failed
   \<or> c = Opening \<and> os = opened s @ [(real_path q p, Opened)] \<and> c' \<noteq> Failed
     \<and> (\<exists>n. connections m' = dset (real_path q p) n (connections (lc s)))"
  by (erule pool_moveE) (auto dest: init_single_result)

lemma move_caller:
  "pool_move q i p c s c' h m' os \<Longrightarrow> caller_ok q (connections m') (p, c')"
  by (erule pool_moveE) (fastforce dest: init_single_result)+

lemma other_caller_ok:
  "caller_ok q conns (p, c) \<Longrightarrow> \<not> holds c \<Longrightarrow> dget conns k = None \<Longrightarrow> caller_ok q (dset k n conns) (p, c)"
  by (cases c) auto

lemma move_keeps_callers:
  assumes "callers_ok q s" "i < length (callers s)" "callers s ! i = (p, c)" "pool_move q i p c s c' (holder t) (lc t) (opened t)"
    "callers t = (callers s)[i := (p, c')]"
  shows "callers_ok q t"
proof -
  have c: "holds c = (holder s = Some i)" "caller_ok q (connections (lc s)) (p, c)"
    using assms(1-3) unfolding callers_ok_def by (auto dest!: spec[of _ i])
  note lock = move_lock[OF assms(4) c(1)]
  have others: "holds (snd (callers t ! j)) = (holder t = Some j) \<and> caller_ok q (connections (lc t)) (callers t ! j)"
    if j: "j < length (callers t)" for j
  proof (cases "j = i")
    case True
    then show ?thesis using lock move_caller[OF assms(4)] assms(2,5) by simp
  next
    case False
    obtain p' d where d: "callers s ! j = (p', d)" by fastforce
    have s: "callers t ! j = (p', d)" "holds d = (holder s = Some j)" "caller_ok q (connections (lc s)) (p', d)"
      using False d j assms(1,5) unfolding callers_ok_def by (auto dest!: spec[of _ j])
    have "caller_ok q (connections (lc t)) (p', d)"
      using move_connections[OF assms(4)]
    proof (elim disjE conjE)
      assume o: "c = Opening" "\<exists>n. connections (lc t) = dset (real_path q p) n (connections (lc s))"
      then have "\<not> holds d" using c(1) s(2) False by auto
      then show ?thesis using o c(2) s(3) other_caller_ok by auto
    qed (simp_all add: s(3))
    then show ?thesis using s lock False by simp
  qed
  have "i' < length (callers t)" if "holder t = Some i'" for i'
    using that lock assms(1,2,5) unfolding callers_ok_def by (cases "i' = i") auto
  then show ?thesis using others unfolding callers_ok_def by blast
qed

lemma filter_update:
  "i < length xs \<Longrightarrow> length (filter P (xs[i := x])) + (if P (xs ! i) then 1 else 0) = length (filter P xs) + (if P x then 1 else 0)"
proof (induction xs arbitrary: i)
  case (Cons y xs)
  then show ?case by (cases i) auto
qed simp

lemma move_unfailed: "pool_move q i p c s c' h m' os \<Longrightarrow> c \<noteq> Failed"
  by (erule pool_moveE) auto

lemma move_keeps_opened:
  assumes "opened_ok old s" "caller_ok q (connections (lc s)) (p, c)" "pool_move q i p c s c' (holder t) (lc t) (opened t)"
    and "i < length (callers s)" "callers s ! i = (p, c)" "callers t = (callers s)[i := (p, c')]"
  shows "opened_ok old t"
proof -
  have f: "length (filter (\<lambda>(_, c). c = Failed) (callers t)) = length (filter (\<lambda>(_, c). c = Failed) (callers s)) + (if c' = Failed then 1 else 0)"
    using filter_update[OF assms(4), of "\<lambda>(_, c). c = Failed" "(p, c')"] move_unfailed[OF assms(3)] assms(5,6) by simp
  have no: "(real_path q p, Opened) \<notin> set (opened s) \<and> \<not> dhas old (real_path q p)" if "c = Opening"
    using that assms(1,2) unfolding opened_ok_def dhas_def by (auto split: option.splits) (metis not_None_eq)
  show ?thesis using move_connections[OF assms(3)]
  proof (elim disjE conjE exE)
    fix r assume "c = Opening" "r \<noteq> Opened" "opened t = opened s @ [(real_path q p, r)]"
      "connections (lc t) = connections (lc s)" "c' = Failed"
    then show ?thesis using assms(1) f no unfolding opened_ok_def by (auto simp: sorted_wrt_append)
  next
    fix n assume "c = Opening" "opened t = opened s @ [(real_path q p, Opened)]" "c' \<noteq> Failed"
      "connections (lc t) = dset (real_path q p) n (connections (lc s))"
    then show ?thesis using assms(1) f no unfolding opened_ok_def by (auto simp: sorted_wrt_append dhas_def)
  qed (use assms(1) f in \<open>simp add: opened_ok_def\<close>)
qed

lemma step_keeps_pool:
  assumes "pool_ok q old s" "get_connection_step q i s = Some t"
  shows "pool_ok q old t"
proof -
  obtain p c c' where m: "i < length (callers s)" "callers s ! i = (p, c)" "pool_move q i p c s c' (holder t) (lc t) (opened t)"
    "callers t = (callers s)[i := (p, c')]" using step_moves[OF assms(2)] by blast
  have "caller_ok q (connections (lc s)) (p, c)" using assms(1) m(1,2) unfolding pool_ok_def callers_ok_def by (auto dest!: spec[of _ i])
  then show ?thesis using assms(1) move_keeps_callers[OF _ m] move_keeps_opened[OF _ _ m(3,1,2,4)] unfolding pool_ok_def by blast
qed

lemma waiting_update:
  "i < length cs \<Longrightarrow> cs ! i = (p, c) \<Longrightarrow> stage c' < stage c \<Longrightarrow>
   sum_list (map (stage \<circ> snd) (cs[i := (p, c')])) < sum_list (map (stage \<circ> snd) cs)"
proof (induction cs arbitrary: i)
  case (Cons x cs)
  then show ?case by (cases i) auto
qed simp

lemma caller_spends: "get_connection_step q i s = Some t \<Longrightarrow> waiting t < waiting s"
  using step_moves[of q i s t] waiting_update move_stage by (fastforce simp: waiting_def)

text \<open>Somebody can move: the one who holds the lock, or, when nobody does, anyone not served.\<close>

lemma step_moves_on:
  assumes "pool_ok q old s" "\<not> served s"
  shows "\<exists>i t. get_connection_step q i s = Some t"
proof -
  have unserved: "\<exists>i < length (callers s). \<not> (case snd (callers s ! i) of Has _ \<Rightarrow> True | Failed \<Rightarrow> True | _ \<Rightarrow> False)"
    using assms(2) by (auto simp: served_def list_all_length split_beta)
  show ?thesis
  proof (cases "holder s")
    case None
    from unserved obtain i where i: "i < length (callers s)" "\<not> (case snd (callers s ! i) of Has _ \<Rightarrow> True | Failed \<Rightarrow> True | _ \<Rightarrow> False)"
      by blast
    then have "\<not> holds (snd (callers s ! i))" using assms(1) None unfolding pool_ok_def callers_ok_def by (auto dest!: spec[of _ i])
    then have "\<exists>t. get_connection_step q i s = Some t"
      using i None by (cases "callers s ! i"; cases "snd (callers s ! i)") (auto simp: get_connection_step_def Let_def split: option.splits)
    then show ?thesis by blast
  next
    case (Some i)
    then have i: "i < length (callers s)" "holds (snd (callers s ! i))" using assms(1) unfolding pool_ok_def callers_ok_def by auto
    have "\<exists>t. get_connection_step q i s = Some t"
      using i by (cases "callers s ! i"; cases "snd (callers s ! i)")
        (auto simp: get_connection_step_def Let_def split: option.splits prod.splits bool.splits)
    then show ?thesis by blast
  qed
qed

interpretation conns: settling "get_connection_step q" "pool_ok q old" served waiting for q old
  by unfold_locales (auto intro: step_keeps_pool caller_spends step_moves_on)

lemma start_pool_ok: "pool_ok q (connections m) (start_pool m ps)"
  by (auto simp: pool_ok_def callers_ok_def opened_ok_def start_pool_def)

lemma served_pairs: "pool_ok q old s \<Longrightarrow> (p, Has n) \<in> set (callers s) \<Longrightarrow> dget (connections (lc s)) (real_path q p) = Some n"
  unfolding pool_ok_def callers_ok_def by (metis caller_ok.simps(2) in_set_conv_nth)

lemma run_keeps_pool:
  "run_actions (get_connection_step q) is (start_pool m ps) = Some s \<Longrightarrow> pool_ok q (connections m) s"
  by (rule conns.run_inv[OF start_pool_ok])

lemma waiting_at_start: "waiting (start_pool m ps) = 4 * length ps"
  by (simp add: waiting_def start_pool_def sum_list_triv comp_def)

section \<open>Properties\<close>

text \<open>
  C36: whatever the interleaving of concurrent \<open>get_connection\<close> calls, a path is opened again only after its opening
  failed, never after it opened and never when the pool had it before; as many callers fail as there were failed
  openings; the pool keeps every connection it had, and two callers whose paths resolve alike get the same connection,
  which is the pool's; the callers make at most four steps each, and from every state they can all be served: nobody
  waits for ever for the lock, also when opening fails.
\<close>

theorem one_connection_per_path:
  assumes "run_actions (get_connection_step q) is (start_pool m ps) = Some s"
  shows "(\<forall>j k. j < k \<and> k < length (opened s) \<and> fst (opened s ! k) = fst (opened s ! j) \<longrightarrow> snd (opened s ! j) \<noteq> Opened)
    \<and> (\<forall>(p, r) \<in> set (opened s). \<not> dhas (connections m) p)
    \<and> length (filter (\<lambda>(_, c). c = Failed) (callers s)) = length (filter (\<lambda>(_, r). r \<noteq> Opened) (opened s))
    \<and> (\<forall>p n. dget (connections m) p = Some n \<longrightarrow> dget (connections (lc s)) p = Some n)
    \<and> (\<forall>p n p' n'. (p, Has n) \<in> set (callers s) \<and> (p', Has n') \<in> set (callers s) \<and> real_path q p = real_path q p' \<longrightarrow>
         n = n' \<and> dget (connections (lc s)) (real_path q p) = Some n)
    \<and> length is \<le> 4 * length ps
    \<and> (\<exists>js t. run_actions (get_connection_step q) js s = Some t \<and> served t)"
proof -
  note ok = run_keeps_pool[OF assms]
  have "length is \<le> 4 * length ps"
    using conns.run_bounded[OF start_pool_ok assms] waiting_at_start[of m ps] by simp
  moreover have "\<exists>js t. run_actions (get_connection_step q) js s = Some t \<and> served t"
    by (rule conns.settles[OF ok])
  moreover have "n = n' \<and> dget (connections (lc s)) (real_path q p) = Some n"
    if "(p, Has n) \<in> set (callers s)" "(p', Has n') \<in> set (callers s)" "real_path q p = real_path q p'" for p n p' n'
    using served_pairs[OF ok that(1)] served_pairs[OF ok that(2)] that(3) by simp
  moreover have "snd (opened s ! j) \<noteq> Opened"
    if "j < k" "k < length (opened s)" "fst (opened s ! k) = fst (opened s ! j)" for j k
    using ok that unfolding pool_ok_def opened_ok_def sorted_wrt_iff_nth_less by auto
  ultimately show ?thesis using ok unfolding pool_ok_def opened_ok_def by (intro conjI) blast+
qed

text \<open>
  An example: two names of one database and two callers of another, whose first opening leaves a connection behind; the
  resolution drops a leading \<open>./\<close>.
\<close>

definition demo_sqlite :: sqlite where
  "demo_sqlite = \<lparr>real_path = (\<lambda>p. if take 2 p = ''./'' then drop 2 p else p), beside = (\<lambda>p. if take 2 p = ''./'' then drop 2 p else p),
     recovers = (\<lambda>_ _. Opened), moves_wal = (\<lambda>p. True), opens = (\<lambda>k p. if p = ''b'' \<and> k = 2 then Statement_Raised else Opened),
     checkpoints = (\<lambda>p hard. Some (Some (0, 1, 1))), wal_after = (\<lambda>p hard. if hard then 0 else 7), close_removes = (\<lambda>p. True)\<rparr>"

definition demo_pool :: pool where
  "demo_pool = start_pool (new_lifecycle [] default_lifecycle) [''a'', ''./a'', ''b'', ''b'']"

definition demo_schedule :: "nat list" where
  "demo_schedule = [0, 1, 0, 0, 2, 0, 1, 1, 2, 3, 2, 2, 3, 3, 3]"

definition pool_answers :: "pool option \<Rightarrow> (caller list \<times> (string \<times> open_outcome) list \<times> (string \<times> nat) list) option" where
  "pool_answers r = (case r of None \<Rightarrow> None | Some s \<Rightarrow> Some (map snd (callers s), opened s, abandoned (lc s)))"

lemma demo_pool_run:
  "pool_answers (run_actions (get_connection_step demo_sqlite) demo_schedule demo_pool) =
   Some ([Has 0, Has 0, Failed, Has 2], [(''a'', Opened), (''b'', Statement_Raised), (''b'', Opened)], [(''b'', 1)])"
  by (simp add: pool_answers_def demo_schedule_def demo_pool_def start_pool_def new_lifecycle_def default_lifecycle_def
      get_connection_step_def Let_def demo_sqlite_def init_single_def has_wal_def has_shm_def register_path_def abandon_def
      numeral_2_eq_2 numeral_3_eq_3)

theorem one_connection_per_path_witness:
  "\<exists>s. run_actions (get_connection_step demo_sqlite) demo_schedule demo_pool = Some s
    \<and> map snd (callers s) = [Has 0, Has 0, Failed, Has 2]
    \<and> length (filter (\<lambda>(_, c). c = Failed) (callers s)) = length (filter (\<lambda>(_, r). r \<noteq> Opened) (opened s))
    \<and> length demo_schedule \<le> 4 * length [''a'', ''./a'', ''b'', ''b'']"
proof -
  obtain s where s: "run_actions (get_connection_step demo_sqlite) demo_schedule demo_pool = Some s"
    "map snd (callers s) = [Has 0, Has 0, Failed, Has 2]"
    using demo_pool_run unfolding pool_answers_def by (cases "run_actions (get_connection_step demo_sqlite) demo_schedule demo_pool") simp_all
  have p: "length (filter (\<lambda>(_, c). c = Failed) (callers s)) = length (filter (\<lambda>(_, r). r \<noteq> Opened) (opened s))"
    "length demo_schedule \<le> 4 * length [''a'', ''./a'', ''b'', ''b'']"
    using one_connection_per_path[OF s(1)[unfolded demo_pool_def]] by blast+
  show ?thesis by (rule exI[of _ s]) (intro conjI s p)
qed

section \<open>The rest of the manager\<close>

text \<open>\<open>init_all\<close> takes no lock and does not look: a database that is open is opened again, and the first connection is
  dropped without being closed.\<close>

lemma init_drops_open_connection:
  assumes "opens q (attempts m + 1) (real_path q p) = Opened" "dget (connections m) (real_path q p) = Some n" "n < next_conn m"
  shows "\<exists>m' k. init_single q p m = (m', Opened) \<and> dget (connections m') (real_path q p) = Some k \<and> k \<noteq> n"
  using assms by (auto simp: init_single_def recover_orphaned_wal_def abandon_def Let_def)

text \<open>
  A pragma that raises leaves its connection open and forgotten: the pool has none, so the next caller opens the database
  again, and a shutdown closes only what the pool has.
\<close>

lemma raised_pragma_leaves_connection:
  assumes "opens q (attempts m + 1) (real_path q p) = Statement_Raised"
  shows "\<exists>m' k. init_single q p m = (m', Statement_Raised) \<and> connections m' = connections m
    \<and> (real_path q p, k) \<in> set (abandoned m') \<and> next_conn m \<le> k"
  using assms by (auto simp: init_single_def recover_orphaned_wal_def abandon_def Let_def)

text \<open>After the eviction the next caller opens a new connection; a shutdown leaves none, and an empty pool is not looked at.\<close>

lemma evicted_is_reopened:
  "\<not> dhas (connections (evict_connection q p m)) (real_path q p)"
  by (simp add: evict_connection_def)

lemma shutdown_leaves_none: "connections (fst (shutdown_all q m)) = []"
  by (simp add: shutdown_all_def Let_def)

lemma empty_shutdown_checks_nothing: "connections m = [] \<Longrightarrow> shutdown_all q m = (m, [])"
  by (simp add: shutdown_all_def)

text \<open>The WAL file of a database that is opened through a link is not seen by the health check: it is looked for beside the link.\<close>

lemma linked_wal_is_not_seen:
  "\<not> dhas (wal_files m) (beside q p) \<Longrightarrow> db_paths m = [p] \<Longrightarrow> health_check q m = [(p, False, 0, Healthy)]"
  by (simp add: health_check_def wal_size_def dget_or_def dhas_def wal_health_def)

text \<open>A critical WAL is truncated at once by the periodic checkpoint, whatever the passive one did.\<close>

lemma critical_wal_is_truncated:
  "wal_critical_threshold (lc_config m) < wal_size q m p \<Longrightarrow> checkpoints q p False \<noteq> None \<Longrightarrow> checkpoints q p True \<noteq> None \<Longrightarrow>
   dget (wal_files (fst (checkpoint_one q False p m))) p = Some (wal_after q p True)"
  by (auto simp: checkpoint_one_def Let_def set_wal_def split: option.split prod.split)

end
