(* ===== verification/Token_Budget.thy ===== *)
theory Token_Budget
  imports Prelude
begin

text \<open>
  \<open>sky_claw/antigravity/agent/token_budget.py\<close>: the estimate of a conversation's size, the verdict
  on it, and the two ways of shrinking it.  A message is the dict it is in Python.  Dividing a
  length by \<open>4.0\<close> and truncating is division of naturals.
\<close>

type_synonym message = "(string, json) dict"

record budget_config =
  max_context_tokens :: int
  warning_threshold_pct :: real
  critical_threshold_pct :: real
  messages_to_preserve :: int
  enable_auto_summarization :: bool

record budget_manager =
  config :: budget_config
  session_start :: real
  total_tokens_consumed :: int
  peak_context_tokens :: int
  summarization_count :: nat

record budget_verdict =
  verdict_action :: string
  current_tokens :: int
  max_tokens :: int
  utilization_pct :: real
  messages_affected :: int

record session_report =
  report_total :: int
  report_cost :: real
  report_peak :: int
  report_summaries :: nat
  report_duration :: real

definition default_config :: budget_config where
  "default_config = \<lparr>max_context_tokens = 32000, warning_threshold_pct = 3/4, critical_threshold_pct = 9/10,
     messages_to_preserve = 6, enable_auto_summarization = True\<rparr>"

definition new_budget_manager :: "budget_config option \<Rightarrow> real \<Rightarrow> budget_manager" where
  "new_budget_manager c now = \<lparr>config = (case c of None \<Rightarrow> default_config | Some c \<Rightarrow> c), session_start = now,
     total_tokens_consumed = 0, peak_context_tokens = 0, summarization_count = 0\<rparr>"

definition estimate_tokens :: "string \<Rightarrow> nat" where
  "estimate_tokens text = (if text = [] then 0 else max 1 (length text div 4))"

definition part_tokens :: "json \<Rightarrow> nat" where
  "part_tokens part =
    (case part of JDict d \<Rightarrow> (case dget_or d ''text'' (JStr []) of JStr t \<Rightarrow> estimate_tokens t | _ \<Rightarrow> 0)
     | _ \<Rightarrow> 0)"

definition content_tokens :: "message \<Rightarrow> nat" where
  "content_tokens msg =
    (case dget_or msg ''content'' (JStr []) of
       JStr s \<Rightarrow> estimate_tokens s
     | JList parts \<Rightarrow> sum_list (map part_tokens parts)
     | _ \<Rightarrow> 0)"

definition estimate_messages_tokens :: "message list \<Rightarrow> nat" where
  "estimate_messages_tokens messages = sum_list (map content_tokens messages)"

definition utilization :: "budget_manager \<Rightarrow> message list \<Rightarrow> real" where
  "utilization m messages =
    (let current = estimate_messages_tokens messages; max = max_context_tokens (config m)
     in if max > 0 then real current / of_int max else 1)"

definition check_budget :: "budget_manager \<Rightarrow> message list \<Rightarrow> budget_manager \<times> budget_verdict" where
  "check_budget m messages =
    (let current = int (estimate_messages_tokens messages);
         u = utilization m messages;
         m' = (if current > peak_context_tokens m then m\<lparr>peak_context_tokens := current\<rparr> else m);
         affected = max 0 (int (length messages) - messages_to_preserve (config m) - 1);
         verdict = (\<lambda>action n. \<lparr>verdict_action = action, current_tokens = current,
           max_tokens = max_context_tokens (config m), utilization_pct = py_round 1 (u * 100), messages_affected = n\<rparr>)
     in (m', if u \<ge> 1 then verdict ''reject'' (int (length messages))
             else if u \<ge> critical_threshold_pct (config m) then verdict ''truncate'' affected
             else if u \<ge> warning_threshold_pct (config m) then verdict ''summarize'' affected
             else verdict ''allow'' 0))"

definition is_system :: "message \<Rightarrow> bool" where
  "is_system msg \<longleftrightarrow> dget msg ''role'' = Some (JStr ''system'')"

text \<open>\<open>fmt\<close> is how an f-string prints a role that is no str.\<close>

definition summary_line :: "(json \<Rightarrow> string) \<Rightarrow> message \<Rightarrow> string" where
  "summary_line fmt msg =
    (let role = (case dget_or msg ''role'' (JStr ''unknown'') of JStr s \<Rightarrow> s | v \<Rightarrow> fmt v);
         preview = (case dget_or msg ''content'' (JStr []) of
             JStr c \<Rightarrow> if length c > 200 then take 200 c @ ''...'' else c
           | _ \<Rightarrow> ''[multi-part content]'')
     in ''['' @ role @ '']: '' @ preview)"

definition summary_text :: "(json \<Rightarrow> string) \<Rightarrow> budget_config \<Rightarrow> message list \<Rightarrow> string" where
  "summary_text fmt c older =
    (let text = ''CONTEXT SUMMARY (auto-generated):'' @ [CHR 0x0A] @ join [CHR 0x0A] (map (summary_line fmt) older);
         max_chars = nat (floor (of_int (max_context_tokens c) * 4 * (15/100) :: real))
     in if length text > max_chars then take max_chars text @ [CHR 0x0A] @ ''... [summary truncated]'' else text)"

definition summarize_older_messages ::
  "(json \<Rightarrow> string) \<Rightarrow> budget_manager \<Rightarrow> message list \<Rightarrow> budget_manager \<times> message list" where
  "summarize_older_messages fmt m messages =
    (if \<not> enable_auto_summarization (config m) then (m, messages)
     else if int (length messages) \<le> messages_to_preserve (config m) + 1 then (m, messages)
     else
       let system_msgs = filter is_system messages;
           conv_msgs = filter (Not \<circ> is_system) messages;
           preserve_count = messages_to_preserve (config m)
       in if int (length conv_msgs) \<le> preserve_count then (m, messages)
          else let older = slice_to (- preserve_count) conv_msgs;
                   recent = slice_from (- preserve_count) conv_msgs;
                   summary_msg = [(''role'', JStr ''system''), (''content'', JStr (summary_text fmt (config m) older))]
               in (m\<lparr>summarization_count := summarization_count m + 1\<rparr>, system_msgs @ [summary_msg] @ recent))"

definition truncate_older_messages :: "budget_manager \<Rightarrow> message list \<Rightarrow> message list" where
  "truncate_older_messages m messages =
    (let system_msgs = filter is_system messages;
         conv_msgs = filter (Not \<circ> is_system) messages;
         preserve_count = messages_to_preserve (config m);
         recent = (if int (length conv_msgs) > preserve_count then slice_from (- preserve_count) conv_msgs
                   else conv_msgs)
     in system_msgs @ recent)"

definition record_usage :: "budget_manager \<Rightarrow> int \<Rightarrow> budget_manager" where
  "record_usage m tokens_used = m\<lparr>total_tokens_consumed := total_tokens_consumed m + tokens_used\<rparr>"

definition get_session_report :: "budget_manager \<Rightarrow> real \<Rightarrow> session_report" where
  "get_session_report m now =
    \<lparr>report_total = total_tokens_consumed m,
     report_cost = py_round 6 (of_int (total_tokens_consumed m) * (15/100 / 1000000)),
     report_peak = peak_context_tokens m, report_summaries = summarization_count m,
     report_duration = py_round 2 (now - session_start m)\<rparr>"

section \<open>Lemmas\<close>

lemma slice_from_neg: "0 < n \<Longrightarrow> slice_from (- n) xs = drop (length xs - nat n) xs"
  by (cases "n \<le> int (length xs)") (auto simp: slice_from_def nat_diff_distrib)

lemma slice_to_neg: "0 < n \<Longrightarrow> slice_to (- n) xs = take (length xs - nat n) xs"
  by (cases "n \<le> int (length xs)") (auto simp: slice_to_def nat_diff_distrib)

lemma tokens_append [simp]:
  "estimate_messages_tokens (xs @ ys) = estimate_messages_tokens xs + estimate_messages_tokens ys"
  by (simp add: estimate_messages_tokens_def)

lemma tokens_drop: "estimate_messages_tokens (drop n xs) \<le> estimate_messages_tokens xs"
proof -
  have "estimate_messages_tokens xs = estimate_messages_tokens (take n xs) + estimate_messages_tokens (drop n xs)"
    by (metis append_take_drop_id tokens_append)
  then show ?thesis by simp
qed

lemma tokens_split:
  "estimate_messages_tokens (filter P xs) + estimate_messages_tokens (filter (Not \<circ> P) xs) = estimate_messages_tokens xs"
  by (induction xs) (simp_all add: estimate_messages_tokens_def)

lemma truncate_eq:
  "0 < messages_to_preserve (config m) \<Longrightarrow> truncate_older_messages m messages
   = filter is_system messages @ (let conv = filter (Not \<circ> is_system) messages
       in drop (length conv - nat (messages_to_preserve (config m))) conv)"
  by (auto simp: truncate_older_messages_def Let_def slice_from_neg)

section \<open>Properties\<close>

text \<open>
  C22: with a positive \<open>messages_to_preserve\<close>, truncation keeps every system message and exactly the last so many
  others, each group in order; with zero it keeps everything, in that order.  In both cases it never makes the
  estimate larger, and truncating again changes nothing.
\<close>

theorem truncate_keeps_recent:
  assumes "0 \<le> messages_to_preserve (config m)"
  shows "truncate_older_messages m messages = filter is_system messages
      @ (let conv = filter (Not \<circ> is_system) messages
         in if messages_to_preserve (config m) = 0 then conv else drop (length conv - nat (messages_to_preserve (config m))) conv)
    \<and> estimate_messages_tokens (truncate_older_messages m messages) \<le> estimate_messages_tokens messages
    \<and> truncate_older_messages m (truncate_older_messages m messages) = truncate_older_messages m messages"
proof -
  define keep where "keep = (\<lambda>c::message list. if messages_to_preserve (config m) = 0 then c
    else drop (length c - nat (messages_to_preserve (config m))) c)"
  let ?conv = "filter (Not \<circ> is_system) messages"
  have tr: "truncate_older_messages m xs = filter is_system xs @ keep (filter (Not \<circ> is_system) xs)" for xs
  proof (cases "messages_to_preserve (config m) = 0")
    case True
    then show ?thesis by (simp add: truncate_older_messages_def Let_def slice_from_def keep_def)
  next
    case False
    then show ?thesis using truncate_eq[of m xs] assms by (simp add: keep_def Let_def)
  qed
  have sub: "set (keep ?conv) \<subseteq> set ?conv" by (auto simp: keep_def dest: in_set_dropD)
  have "estimate_messages_tokens (keep ?conv) \<le> estimate_messages_tokens ?conv" by (simp add: keep_def tokens_drop)
  then have tokens: "estimate_messages_tokens (truncate_older_messages m messages) \<le> estimate_messages_tokens messages"
    using tokens_split[of is_system messages] by (simp add: tr)
  have r: "\<forall>x \<in> set (keep ?conv). \<not> is_system x" using sub by auto
  have "filter is_system (keep ?conv) = []" using r by (rule filter_False)
  moreover have "filter (Not \<circ> is_system) (keep ?conv) = keep ?conv" by (rule filter_True) (use r in \<open>simp only: comp_apply\<close>)
  moreover have "filter (Not \<circ> is_system) (filter is_system messages) = []" by (simp add: comp_def)
  moreover have "keep (keep ?conv) = keep ?conv" by (simp add: keep_def)
  ultimately have "truncate_older_messages m (truncate_older_messages m messages) = truncate_older_messages m messages"
    by (simp only: tr filter_append filter_filter) simp
  with tokens show ?thesis using tr[of messages] by (simp add: keep_def Let_def)
qed

definition demo_message :: "string \<Rightarrow> string \<Rightarrow> message" where
  "demo_message role text = [(''role'', JStr role), (''content'', JStr text)]"

definition demo_manager :: "int \<Rightarrow> budget_manager" where
  "demo_manager n = new_budget_manager (Some (default_config\<lparr>messages_to_preserve := n\<rparr>)) 0"

theorem truncate_keeps_recent_witness:
  "truncate_older_messages (demo_manager 2)
     [demo_message ''user'' ''a'', demo_message ''system'' ''s'', demo_message ''user'' ''b'', demo_message ''user'' ''c'']
   = [demo_message ''system'' ''s'', demo_message ''user'' ''b'', demo_message ''user'' ''c'']"
proof -
  have "0 \<le> messages_to_preserve (config (demo_manager 2))" by (simp add: demo_manager_def new_budget_manager_def)
  from truncate_keeps_recent[OF this] show ?thesis
    by (simp add: demo_manager_def new_budget_manager_def is_system_def demo_message_def)
qed

text \<open>
  Configured to preserve no message, neither truncation nor summarisation drops anything
  (\<open>xs[-0:]\<close> is all of \<open>xs\<close>): truncation keeps every message, and summarisation even adds a summary
  of nothing.
\<close>

theorem preserve_none_drops_nothing:
  assumes "messages_to_preserve (config m) = 0" and "enable_auto_summarization (config m)"
    and "filter (Not \<circ> is_system) messages \<noteq> []" and "1 < length messages"
  shows "mset (truncate_older_messages m messages) = mset messages
    \<and> estimate_messages_tokens (truncate_older_messages m messages) = estimate_messages_tokens messages
    \<and> length (snd (summarize_older_messages fmt m messages)) = Suc (length messages)
    \<and> set messages \<subseteq> set (snd (summarize_older_messages fmt m messages))"
proof -
  let ?sys = "filter is_system messages" and ?conv = "filter (Not \<circ> is_system) messages"
  have tr: "truncate_older_messages m messages = ?sys @ ?conv"
    using assms(1) by (simp add: truncate_older_messages_def Let_def slice_from_def)
  have su: "\<exists>s. snd (summarize_older_messages fmt m messages) = ?sys @ [s] @ ?conv"
    using assms by (auto simp: summarize_older_messages_def Let_def slice_from_def)
  have len: "length ?sys + length ?conv = length messages"
    using sum_length_filter_compl[of is_system messages] by (simp add: comp_def)
  have "mset (?sys @ ?conv) = mset messages" by (simp add: comp_def)
  with tr su len tokens_split[of is_system messages] show ?thesis by (auto simp del: mset_append)
qed

theorem preserve_none_drops_nothing_witness:
  "mset (truncate_older_messages (demo_manager 0) [demo_message ''user'' ''a'', demo_message ''user'' ''b''])
   = mset [demo_message ''user'' ''a'', demo_message ''user'' ''b'']"
  by (rule preserve_none_drops_nothing[THEN conjunct1])
    (simp_all add: demo_manager_def new_budget_manager_def default_config_def is_system_def demo_message_def)

text \<open>
  Every summarisation leaves one more system message, which no later summarisation or
  truncation removes: after \<open>k\<close> rounds that each summarised something, \<open>k\<close> summaries are in the
  context for good.
\<close>

fun summarize_rounds :: "(json \<Rightarrow> string) \<Rightarrow> budget_manager \<Rightarrow> message list \<Rightarrow> message list list \<Rightarrow> budget_manager \<times> message list" where
  "summarize_rounds fmt m messages [] = (m, messages)"
| "summarize_rounds fmt m messages (new # rest) =
    (let (m', kept) = summarize_older_messages fmt m (messages @ new) in summarize_rounds fmt m' kept rest)"

lemma summarize_systems:
  assumes "summarize_older_messages fmt m messages = (m', messages')"
  shows "config m' = config m \<and> (\<exists>new. filter is_system messages' = filter is_system messages @ new
    \<and> summarization_count m' = summarization_count m + length new)"
proof -
  have none: "filter is_system (slice_from i (filter (Not \<circ> is_system) messages)) = []" for i
    by (auto simp: filter_empty_conv slice_from_def dest: in_set_dropD)
  have sys: "is_system [(''role'', JStr ''system''), (''content'', JStr t)]" for t
    by (simp add: is_system_def)
  consider "m' = m" "messages' = messages"
    | t i where "m' = m\<lparr>summarization_count := summarization_count m + 1\<rparr>"
      "messages' = filter is_system messages @ [[(''role'', JStr ''system''), (''content'', JStr t)]]
         @ slice_from i (filter (Not \<circ> is_system) messages)"
    using assms unfolding summarize_older_messages_def Let_def by (auto split: if_splits)
  then show ?thesis
  proof cases
    case 2
    then show ?thesis using none[of i] sys[of t]
      by (intro conjI exI[of _ "[[(''role'', JStr ''system''), (''content'', JStr t)]]"]) simp_all
  qed simp
qed

text \<open>
  Every summary is a system message and stays for good: after any number of rounds of new
  messages and summarisation, even a truncation keeps all the original system messages and one more
  for each summarisation that was done.
\<close>

theorem summaries_accumulate:
  assumes "0 < messages_to_preserve (config m)" and "summarize_rounds fmt m messages rounds = (m', messages')"
  shows "length (filter is_system (truncate_older_messages m' messages'))
    = length (filter is_system (messages @ concat rounds)) + (summarization_count m' - summarization_count m)
    \<and> summarization_count m \<le> summarization_count m'"
  using assms
proof (induction rounds arbitrary: m messages)
  case Nil
  then have "m' = m" "messages' = messages" by simp_all
  with Nil show ?case
    by (auto simp: truncate_eq Let_def filter_empty_conv dest: in_set_dropD)
next
  case (Cons new rest)
  obtain m1 kept where s: "summarize_older_messages fmt m (messages @ new) = (m1, kept)" by fastforce
  from summarize_systems[OF s] obtain extra where
    c: "config m1 = config m" and f: "filter is_system kept = filter is_system (messages @ new) @ extra"
    and n: "summarization_count m1 = summarization_count m + length extra" by blast
  have run: "summarize_rounds fmt m1 kept rest = (m', messages')" using Cons.prems(2) s by simp
  have "0 < messages_to_preserve (config m1)" using Cons.prems(1) c by simp
  from Cons.IH[OF this run] f n show ?case by simp
qed

theorem summaries_accumulate_witness:
  "\<exists>m' messages'. summarize_rounds (\<lambda>_. []) (demo_manager 1) []
       [[demo_message ''user'' ''a'', demo_message ''user'' ''b'', demo_message ''user'' ''c''], [demo_message ''user'' ''d'']]
     = (m', messages') \<and> summarization_count m' = 2
    \<and> length (filter is_system (truncate_older_messages m' messages')) = 2"
proof -
  let ?rounds = "[[demo_message ''user'' ''a'', demo_message ''user'' ''b'', demo_message ''user'' ''c''], [demo_message ''user'' ''d'']]"
  obtain m' messages' where r: "summarize_rounds (\<lambda>_. []) (demo_manager 1) [] ?rounds = (m', messages')" by fastforce
  have p: "0 < messages_to_preserve (config (demo_manager 1))" and c: "summarization_count (demo_manager 1) = 0"
    by (simp_all add: demo_manager_def new_budget_manager_def)
  have "summarization_count m' = 2" using r
    by (auto simp: summarize_older_messages_def Let_def demo_manager_def new_budget_manager_def
        default_config_def is_system_def demo_message_def slice_to_def slice_from_def)
  with summaries_accumulate[OF p r] r c show ?thesis by (simp add: demo_message_def is_system_def)
qed

text \<open>The verdict against the thresholds, and the peak.\<close>

lemma check_budget_action:
  assumes "0 < max_context_tokens (config m)" and "warning_threshold_pct (config m) \<le> critical_threshold_pct (config m)"
    and "critical_threshold_pct (config m) \<le> 1"
  shows "verdict_action (snd (check_budget m messages)) = ''allow'' \<longleftrightarrow>
    real (estimate_messages_tokens messages) < warning_threshold_pct (config m) * of_int (max_context_tokens (config m))"
proof -
  let ?u = "utilization m messages"
  have "?u < warning_threshold_pct (config m) \<longleftrightarrow>
      real (estimate_messages_tokens messages) < warning_threshold_pct (config m) * of_int (max_context_tokens (config m))"
    using assms(1) by (simp add: utilization_def Let_def divide_less_eq)
  moreover have "verdict_action (snd (check_budget m messages)) = ''allow'' \<longleftrightarrow> ?u < warning_threshold_pct (config m)"
    using assms(2,3) by (auto simp: check_budget_def Let_def)
  ultimately show ?thesis by simp
qed

lemma check_budget_peak:
  "peak_context_tokens (fst (check_budget m messages)) = max (peak_context_tokens m) (int (estimate_messages_tokens messages))"
  by (simp add: check_budget_def Let_def max_def)

end
