(* ===== verification/Circuit_Breakers.thy ===== *)
theory Circuit_Breakers
  imports Prelude
begin

text \<open>
  The two circuit breakers: \<open>TokenCircuitBreaker\<close> (\<open>antigravity/agent/token_circuit_breaker.py\<close>)
  and \<open>_CircuitBreaker\<close> with its client \<open>fetch_mod_info\<close> (\<open>antigravity/scraper/masterlist.py\<close>).
  Every \<open>time.monotonic()\<close> of an operation is an argument of its own.  The interface both share is
  the locale \<open>timed_breaker\<close>.
\<close>

datatype breaker_state = Closed | Open | Half_Open

section \<open>The interface of a breaker with a recovery timeout\<close>

locale timed_breaker =
  fixes is_open :: "'s \<Rightarrow> bool"
    and reopens_at :: "'s \<Rightarrow> real"
    and asked_at :: "'q \<Rightarrow> real"
    and ask :: "'s \<Rightarrow> 'q \<Rightarrow> 's \<times> bool"
  assumes open_rejects: "is_open s \<Longrightarrow> asked_at q < reopens_at s \<Longrightarrow> ask s q = (s, False)"
    and open_expires: "is_open s \<Longrightarrow> reopens_at s \<le> asked_at q \<Longrightarrow> snd (ask s q)"
begin

fun asks :: "'s \<Rightarrow> 'q list \<Rightarrow> 's \<times> bool list" where
  "asks s [] = (s, [])"
| "asks s (q # qs) = (let (s1, a) = ask s q; (s2, as) = asks s1 qs in (s2, a # as))"

text \<open>An open breaker refuses every request before its deadline and keeps its state.\<close>

lemma asks_before:
  "is_open s \<Longrightarrow> list_all (\<lambda>q. asked_at q < reopens_at s) qs \<Longrightarrow>
   asks s qs = (s, replicate (length qs) False)"
  by (induction qs) (simp_all add: open_rejects)

lemma asks_append: "asks s (ps @ qs) = (let (s1, as) = asks s ps; (s2, bs) = asks s1 qs in (s2, as @ bs))"
  by (induction ps arbitrary: s) (simp_all add: case_prod_unfold Let_def)

text \<open>The first request at or after the deadline is the one that is let through.\<close>

lemma asks_first_after:
  assumes "is_open s" and "list_all (\<lambda>q. asked_at q < reopens_at s) qs" and "reopens_at s \<le> asked_at q"
  shows "snd (asks s (qs @ [q])) = replicate (length qs) False @ [True]"
  using assms asks_before[of s qs] open_expires[of s q]
  by (simp add: asks_append case_prod_unfold Let_def)

end

section \<open>TokenCircuitBreaker\<close>

record token_breaker =
  spike_threshold_tokens :: int
  window_budget_tokens :: int
  window_duration_seconds :: real
  recovery_timeout_seconds :: real
  cb_state :: breaker_state
  opened_at :: real
  window_start :: real
  window_consumed :: int
  half_open_used :: bool

definition new_token_breaker :: "int \<Rightarrow> int \<Rightarrow> real \<Rightarrow> real \<Rightarrow> real \<Rightarrow> token_breaker" where
  "new_token_breaker spike budget window recovery now =
    \<lparr>spike_threshold_tokens = spike, window_budget_tokens = budget, window_duration_seconds = window,
     recovery_timeout_seconds = recovery, cb_state = Closed, opened_at = 0, window_start = now,
     window_consumed = 0, half_open_used = False\<rparr>"

definition trip :: "token_breaker \<Rightarrow> real \<Rightarrow> token_breaker" where
  "trip b now = b\<lparr>cb_state := Open, opened_at := now\<rparr>"

definition token_state :: "token_breaker \<Rightarrow> real \<Rightarrow> token_breaker \<times> breaker_state" where
  "token_state b now =
    (let b' = (if cb_state b = Open \<and> now - opened_at b \<ge> recovery_timeout_seconds b
               then b\<lparr>cb_state := Half_Open, half_open_used := False\<rparr> else b)
     in (b', cb_state b'))"

definition maybe_reset_window :: "token_breaker \<Rightarrow> real \<Rightarrow> real \<Rightarrow> token_breaker" where
  "maybe_reset_window b now now' =
    (if now - window_start b \<ge> window_duration_seconds b
     then b\<lparr>window_consumed := 0, window_start := now'\<rparr> else b)"

text \<open>The clock readings one \<open>check_request\<close> may make, and its argument.\<close>

record token_request =
  estimated_tokens :: int
  t_state :: real
  t_window :: real
  t_restart :: real
  t_trip :: real

definition check_request :: "token_breaker \<Rightarrow> token_request \<Rightarrow> token_breaker \<times> bool" where
  "check_request b q =
    (let (b1, current_state) = token_state b (t_state q) in
     case current_state of
       Closed \<Rightarrow>
         if estimated_tokens q > spike_threshold_tokens b1 then (trip b1 (t_trip q), False)
         else (let b2 = maybe_reset_window b1 (t_window q) (t_restart q) in
               if window_consumed b2 + estimated_tokens q > window_budget_tokens b2
               then (trip b2 (t_trip q), False) else (b2, True))
     | Half_Open \<Rightarrow>
         if \<not> half_open_used b1 then (b1\<lparr>half_open_used := True\<rparr>, True) else (b1, False)
     | Open \<Rightarrow> (b1, False))"

definition record_response :: "token_breaker \<Rightarrow> int \<Rightarrow> real \<Rightarrow> token_breaker" where
  "record_response b tokens_used now =
    (let b1 = b\<lparr>window_consumed := window_consumed b + tokens_used\<rparr> in
     if cb_state b1 = Half_Open then
       (if tokens_used \<le> spike_threshold_tokens b1
        then b1\<lparr>cb_state := Closed, half_open_used := False\<rparr> else trip b1 now)
     else b1)"

definition reset_token_breaker :: "token_breaker \<Rightarrow> real \<Rightarrow> token_breaker" where
  "reset_token_breaker b now =
    b\<lparr>cb_state := Closed, half_open_used := False, window_consumed := 0, window_start := now\<rparr>"

lemmas token_defs = check_request_def token_state_def maybe_reset_window_def trip_def Let_def

interpretation token: timed_breaker "\<lambda>b. cb_state b = Open"
    "\<lambda>b. opened_at b + recovery_timeout_seconds b" t_state check_request
  by unfold_locales (auto simp: token_defs algebra_simps)

section \<open>The masterlist breaker\<close>

record fetch_breaker =
  failure_threshold :: int
  recovery_timeout :: real
  failure_count :: int
  last_failure_time :: real
  fetch_state :: breaker_state

definition new_fetch_breaker :: "int \<Rightarrow> real \<Rightarrow> fetch_breaker" where
  "new_fetch_breaker threshold timeout =
    \<lparr>failure_threshold = threshold, recovery_timeout = timeout, failure_count = 0,
     last_failure_time = 0, fetch_state = Closed\<rparr>"

definition reset_fetch_breaker :: "fetch_breaker \<Rightarrow> fetch_breaker" where
  "reset_fetch_breaker b = b\<lparr>failure_count := 0, last_failure_time := 0, fetch_state := Closed\<rparr>"

definition promote :: "fetch_breaker \<Rightarrow> real \<Rightarrow> fetch_breaker \<times> breaker_state" where
  "promote b now =
    (let b' = (if fetch_state b = Open \<and> now - last_failure_time b \<ge> recovery_timeout b
               then b\<lparr>fetch_state := Half_Open\<rparr> else b)
     in (b', fetch_state b'))"

definition record_success :: "fetch_breaker \<Rightarrow> fetch_breaker" where
  "record_success b = b\<lparr>failure_count := 0, fetch_state := Closed\<rparr>"

definition record_failure :: "fetch_breaker \<Rightarrow> real \<Rightarrow> fetch_breaker" where
  "record_failure b now =
    (let b1 = b\<lparr>failure_count := failure_count b + 1, last_failure_time := now\<rparr> in
     if failure_count b1 \<ge> failure_threshold b1 then b1\<lparr>fetch_state := Open\<rparr> else b1)"

definition allow_request :: "fetch_breaker \<Rightarrow> real \<Rightarrow> fetch_breaker \<times> bool" where
  "allow_request b now = (let (b', s) = promote b now in (b', s = Closed \<or> s = Half_Open))"

interpretation fetch: timed_breaker "\<lambda>b. fetch_state b = Open"
    "\<lambda>b. last_failure_time b + recovery_timeout b" "\<lambda>t. t" allow_request
  by unfold_locales (auto simp: allow_request_def promote_def Let_def algebra_simps)

text \<open>
  What the gateway's request gives: an exception, of a kind the client records
  (\<open>aiohttp.ClientError\<close>; \<open>OSError\<close>, of which \<open>TimeoutError\<close> is a subclass) or of another kind, or a response whose text and
  JSON body are read from it (reading may raise too).
\<close>

datatype fetch_exn = Client_Error string | Os_Error string | Other_Error string
datatype gateway_reply = Raises fetch_exn | Responds int "fetch_exn + string" "fetch_exn + json"
datatype fetch_error = Circuit_Open | Fetch_Error string | Passed_On fetch_exn

definition fetch_body :: "int \<Rightarrow> gateway_reply \<Rightarrow> fetch_error + json" where
  "fetch_body mod_id reply =
    (case reply of
       Raises e \<Rightarrow> Inl (Passed_On e)
     | Responds status txt body \<Rightarrow>
         if status \<noteq> 200 then
           (case txt of
              Inl e \<Rightarrow> Inl (Passed_On e)
            | Inr t \<Rightarrow> Inl (Fetch_Error (''HTTP '' @ int_str status @ '' for mod '' @ int_str mod_id @ '': '' @ take 200 t)))
         else (case body of Inl e \<Rightarrow> Inl (Passed_On e) | Inr data \<Rightarrow> Inr data))"

definition fetch_mod_info ::
  "fetch_breaker \<Rightarrow> int \<Rightarrow> real \<Rightarrow> real \<Rightarrow> gateway_reply \<Rightarrow> fetch_breaker \<times> (fetch_error + json)" where
  "fetch_mod_info b mod_id t_ask t_fail reply =
    (let (b1, ok) = allow_request b t_ask in
     if \<not> ok then (b1, Inl Circuit_Open)
     else case fetch_body mod_id reply of
       Inr data \<Rightarrow> (record_success b1, Inr data)
     | Inl (Passed_On (Other_Error e)) \<Rightarrow> (b1, Inl (Passed_On (Other_Error e)))
     | Inl e \<Rightarrow> (record_failure b1 t_fail, Inl e))"

section \<open>Properties\<close>

text \<open>
  C28: a tripped token breaker fails fast and recovers on time: of any requests put to it, all
  before \<open>opened_at + recovery_timeout\<close> are rejected and change nothing, and the first at or after
  that time is admitted.
\<close>

theorem token_breaker_recovers:
  assumes "cb_state b = Open"
    and "list_all (\<lambda>q. t_state q < opened_at b + recovery_timeout_seconds b) qs"
    and "opened_at b + recovery_timeout_seconds b \<le> t_state q"
  shows "token.asks b qs = (b, replicate (length qs) False)
    \<and> snd (token.asks b (qs @ [q])) = replicate (length qs) False @ [True]"
  using token.asks_before[OF assms(1,2)] token.asks_first_after[OF assms(1,2,3)] by blast

definition demo_tripped :: token_breaker where
  "demo_tripped = fst (check_request (new_token_breaker 50000 200000 300 60 0)
     \<lparr>estimated_tokens = 60000, t_state = 5, t_window = 5, t_restart = 5, t_trip = 5\<rparr>)"

definition demo_request :: "int \<Rightarrow> real \<Rightarrow> token_request" where
  "demo_request n t = \<lparr>estimated_tokens = n, t_state = t, t_window = t, t_restart = t, t_trip = t\<rparr>"

theorem token_breaker_recovers_witness:
  "snd (token.asks demo_tripped ([demo_request 10 6, demo_request 10 64] @ [demo_request 10 65])) = [False, False, True]"
proof -
  have "cb_state demo_tripped = Open" "opened_at demo_tripped + recovery_timeout_seconds demo_tripped = 65"
    by (simp_all add: demo_tripped_def token_defs new_token_breaker_def)
  with token_breaker_recovers[of demo_tripped "[demo_request 10 6, demo_request 10 64]" "demo_request 10 65"]
  show ?thesis by (simp add: demo_request_def)
qed

text \<open>
  While closed, a request is admitted exactly when it is no spike and fits what is left of the
  window's budget (a window over its duration is started afresh), and a rejected one opens the
  breaker at the time of the rejection.
\<close>

theorem token_breaker_admits:
  assumes "cb_state b = Closed" and "check_request b q = (b', ok)"
  shows "(ok \<longleftrightarrow> estimated_tokens q \<le> spike_threshold_tokens b \<and>
      (if t_window q - window_start b \<ge> window_duration_seconds b then 0 else window_consumed b)
        + estimated_tokens q \<le> window_budget_tokens b)
    \<and> (if ok then cb_state b' = Closed else cb_state b' = Open \<and> opened_at b' = t_trip q)"
  using assms by (auto simp: token_defs split: if_splits)

theorem token_breaker_admits_witness:
  "snd (check_request (new_token_breaker 50000 200000 300 60 0) (demo_request 50000 1))
   \<and> \<not> snd (check_request (record_response (new_token_breaker 50000 200000 300 60 0) 160000 1) (demo_request 50000 2))"
proof -
  let ?b = "new_token_breaker 50000 200000 300 60 0"
  let ?c = "record_response ?b 160000 1"
  have "cb_state ?b = Closed" "cb_state ?c = Closed"
    by (simp_all add: new_token_breaker_def record_response_def)
  moreover obtain b1 ok1 b2 ok2 where "check_request ?b (demo_request 50000 1) = (b1, ok1)"
      "check_request ?c (demo_request 50000 2) = (b2, ok2)" by (metis surj_pair)
  ultimately show ?thesis
    using token_breaker_admits[of ?b "demo_request 50000 1" b1 ok1]
      token_breaker_admits[of ?c "demo_request 50000 2" b2 ok2]
    by (simp add: new_token_breaker_def demo_request_def record_response_def)
qed

text \<open>
  The probe of a half-open token breaker has no timeout: when the probe's response is never
  recorded (the model call raises or times out), the breaker rejects every later request, however
  late, until it is reset by hand.
\<close>

theorem lost_probe_blocks_forever:
  assumes "cb_state b = Half_Open" and "\<not> half_open_used b"
  shows "snd (token.asks b (q # qs)) = True # replicate (length qs) False
    \<and> cb_state (fst (token.asks b (q # qs))) = Half_Open"
proof -
  have used: "token.asks b' qs = (b', replicate (length qs) False)"
    if "cb_state b' = Half_Open" "half_open_used b'" for b'
    using that by (induction qs) (simp_all add: token_defs)
  show ?thesis using assms used[of "b\<lparr>half_open_used := True\<rparr>"] by (simp add: token_defs)
qed

definition demo_half_open :: token_breaker where
  "demo_half_open = (new_token_breaker 50000 200000 300 60 0)\<lparr>cb_state := Half_Open\<rparr>"

theorem lost_probe_blocks_forever_witness:
  "snd (token.asks demo_half_open [demo_request 10 65, demo_request 10 1000000]) = [True, False]"
proof -
  have "cb_state demo_half_open = Half_Open" "\<not> half_open_used demo_half_open"
    by (simp_all add: demo_half_open_def new_token_breaker_def)
  from lost_probe_blocks_forever[OF this, of "demo_request 10 65" "[demo_request 10 1000000]"]
  show ?thesis by simp
qed

text \<open>The events of a fetch breaker: requests asked for, successes, failures (with their time).\<close>

datatype fetch_event = Asked real | Succeeded | Failed real

fun fetch_step :: "fetch_breaker \<Rightarrow> fetch_event \<Rightarrow> fetch_breaker" where
  "fetch_step b (Asked t) = fst (allow_request b t)"
| "fetch_step b Succeeded = record_success b"
| "fetch_step b (Failed t) = record_failure b t"

definition recent_failures :: "fetch_event list \<Rightarrow> nat" where
  "recent_failures evs =
    length (takeWhile (\<lambda>e. e \<noteq> Succeeded) (rev (filter (\<lambda>e. \<forall>t. e \<noteq> Asked t) evs)))"

lemma recent_failures_snoc [simp]:
  "recent_failures (evs @ [Asked t]) = recent_failures evs"
  "recent_failures (evs @ [Succeeded]) = 0"
  "recent_failures (evs @ [Failed t]) = Suc (recent_failures evs)"
  by (simp_all add: recent_failures_def)

text \<open>
  Whatever requests, successes and failures interleave, the masterlist breaker counts the
  failures since the last success, and is closed exactly while they are below the threshold.
\<close>

theorem fetch_breaker_counts:
  assumes "1 \<le> threshold"
  shows "(let b = foldl fetch_step (new_fetch_breaker threshold timeout) evs in
     failure_count b = int (recent_failures evs) \<and> failure_threshold b = threshold
     \<and> (fetch_state b = Closed \<longleftrightarrow> int (recent_failures evs) < threshold))"
proof (induction evs rule: rev_induct)
  case (snoc e evs)
  then show ?case using assms
    by (cases e) (auto simp: allow_request_def promote_def record_success_def record_failure_def Let_def)
qed (use assms in \<open>simp add: new_fetch_breaker_def recent_failures_def\<close>)

theorem fetch_breaker_counts_witness:
  "fetch_state (foldl fetch_step (new_fetch_breaker 2 60) [Failed 1, Asked 2, Failed 3]) \<noteq> Closed
   \<and> fetch_state (foldl fetch_step (new_fetch_breaker 2 60) [Failed 1, Succeeded, Failed 3]) = Closed"
  using fetch_breaker_counts[of 2 60 "[Failed 1, Asked 2, Failed 3]"]
    fetch_breaker_counts[of 2 60 "[Failed 1, Succeeded, Failed 3]"]
  by (simp add: recent_failures_def Let_def)

text \<open>
  A half-open masterlist breaker lets every request through, not one probe: until a response is
  recorded any number of requests asked at any time is admitted.
\<close>

theorem half_open_admits_everyone:
  assumes "fetch_state b = Half_Open"
  shows "fetch.asks b ts = (b, replicate (length ts) True)"
  using assms by (induction ts) (simp_all add: allow_request_def promote_def)

theorem half_open_admits_everyone_witness:
  "snd (fetch.asks ((new_fetch_breaker 5 60)\<lparr>fetch_state := Half_Open\<rparr>) [1, 2, 3]) = [True, True, True]"
  using half_open_admits_everyone[of "(new_fetch_breaker 5 60)\<lparr>fetch_state := Half_Open\<rparr>" "[1, 2, 3]"] by simp

text \<open>One fetch, by what the breaker and the gateway say.\<close>

lemma fetch_mod_info_open:
  "fetch_state b = Open \<Longrightarrow> t < last_failure_time b + recovery_timeout b \<Longrightarrow>
   fetch_mod_info b mod_id t t' reply = (b, Inl Circuit_Open)"
  using fetch.open_rejects[of b t] by (simp add: fetch_mod_info_def)

lemma fetch_mod_info_success:
  "fetch_mod_info b mod_id t t' reply = (b', Inr data) \<Longrightarrow> fetch_state b' = Closed \<and> failure_count b' = 0"
  by (auto simp: fetch_mod_info_def record_success_def split: prod.splits if_splits sum.splits
      fetch_error.splits fetch_exn.splits)

end
