(* ===== verification/Chat_Router.thy ===== *)
theory Chat_Router
  imports Token_Budget Circuit_Breakers Json_Values
begin

text \<open>
  \<open>sky_claw/antigravity/agent/router.py\<close> and \<open>hermes_parser.py\<close>: the conversation loop.  A message of the user is
  saved, and for at most ten rounds the model is called, within the token budget and the circuit breaker, and the
  tools it asks for are run.  The model, the tools, the guardrail, the routing with its context and the text
  sanitizer are parameters; so are \<open>json.loads\<close> and \<open>json.dumps\<close> (\<open>raw_text\<close> is the one without ASCII escapes).
  A tool's name that is no string is passed as its text, and the long dash of a message is a plain one.
\<close>

section \<open>Tool calls in plain text\<close>

definition OPEN_TAG :: string where "OPEN_TAG = ''<tool_call>''"
definition CLOSE_TAG :: string where "CLOSE_TAG = ''</tool_call>''"

text \<open>The text before the first occurrence of a word, and after it.\<close>

fun split_at :: "string \<Rightarrow> string \<Rightarrow> (string \<times> string) option" where
  "split_at w [] = (if w = [] then Some ([], []) else None)"
| "split_at w (c # s) =
    (if starts_with w (c # s) then Some ([], drop (length w) (c # s))
     else map_option (\<lambda>(a, b). (c # a, b)) (split_at w s))"

lemma split_at_length: "split_at w s = Some (a, b) \<Longrightarrow> length a + length w + length b = length s"
proof (induction s arbitrary: a)
  case (Cons c s)
  show ?case
  proof (cases "starts_with w (c # s)")
    case True
    then obtain t where "c # s = w @ t" by (auto simp: starts_with_iff)
    then have "length w \<le> length (c # s)" by simp
    with True Cons.prems show ?thesis by (auto simp: min_def)
  next
    case False
    then obtain a' where "split_at w s = Some (a', b)" "a = c # a'" using Cons.prems by (auto split: if_splits)
    with Cons.IH show ?thesis by simp
  qed
qed (auto split: if_splits)

text \<open>\<open>re.findall\<close> of \<open><tool_call>\s*(.*?)\s*</tool_call>\<close>.\<close>

function tool_call_blocks :: "string \<Rightarrow> string list" where
  "tool_call_blocks s =
    (case split_at OPEN_TAG s of
       None \<Rightarrow> []
     | Some (_, rest) \<Rightarrow>
        (case split_at CLOSE_TAG rest of
           None \<Rightarrow> []
         | Some (inner, rest') \<Rightarrow> strip inner # tool_call_blocks rest'))"
  by pat_completeness auto
termination
proof (relation "measure length", goal_cases)
  case 1
  then show ?case by simp
next
  case (2 s p a rest q inner rest')
  then have "length a + length OPEN_TAG + length rest = length s" "length inner + length CLOSE_TAG + length rest' = length rest"
    using split_at_length by force+
  moreover have "0 < length OPEN_TAG" by (simp add: OPEN_TAG_def)
  ultimately show ?case by (simp only: in_measure)
qed

declare tool_call_blocks.simps [simp del]

definition has_tool_calls :: "string \<Rightarrow> bool" where
  "has_tool_calls text \<longleftrightarrow> tool_call_blocks text \<noteq> []"

type_synonym tool_call = "string \<times> json"

definition read_tool_call :: "(string \<Rightarrow> json option) \<Rightarrow> string \<Rightarrow> string + tool_call" where
  "read_tool_call loads raw =
    (case loads raw of
       None \<Rightarrow> Inl ''Malformed JSON in <tool_call>''
     | Some (JDict kvs) \<Rightarrow>
        (case dget kvs ''name'' of
           None \<Rightarrow> Inl (''Missing 'name' key in tool call: '' @ repr_str raw)
         | Some n \<Rightarrow>
            (let given = dget_or kvs ''arguments'' JNull; arguments = (if truthy given then given else JDict []) in
             case arguments of
               JDict _ \<Rightarrow> Inr (py_str n, arguments)
             | _ \<Rightarrow> Inl '''arguments' must be a JSON object''))
     | Some _ \<Rightarrow> Inl (''<tool_call> payload must be a JSON object: '' @ repr_str raw))"

fun read_tool_calls :: "(string \<Rightarrow> json option) \<Rightarrow> string list \<Rightarrow> string + tool_call list" where
  "read_tool_calls loads [] = Inr []"
| "read_tool_calls loads (raw # raws) =
    (case read_tool_call loads raw of
       Inl e \<Rightarrow> Inl e
     | Inr c \<Rightarrow> (case read_tool_calls loads raws of Inl e \<Rightarrow> Inl e | Inr cs \<Rightarrow> Inr (c # cs)))"

definition extract_tool_calls :: "(string \<Rightarrow> json option) \<Rightarrow> string \<Rightarrow> string + tool_call list" where
  "extract_tool_calls loads text = read_tool_calls loads (tool_call_blocks text)"

section \<open>The router\<close>

definition MAX_TOOL_ROUNDS :: nat where "MAX_TOOL_ROUNDS = 10"
definition MAX_HERMES_RETRIES :: nat where "MAX_HERMES_RETRIES = 3"

text \<open>\<open>_is_valid_api_key\<close>; a key that is no str is never valid.\<close>

definition API_KEY_PLACEHOLDERS :: "string list" where
  "API_KEY_PLACEHOLDERS = [''your_api_key_here'', ''insert_your_key'', ''xxx'', ''sk-xxx'', ''sk-...'', ''your-api-key'',
     ''change_me'', ''api_key_here'', ''paste_your_key'', ''sk-test'', ''sk-placeholder'', ''sk-your-key-here'']"

definition is_valid_api_key :: "string option \<Rightarrow> bool" where
  "is_valid_api_key key =
    (case key of
       None \<Rightarrow> False
     | Some k \<Rightarrow>
        let stripped = strip k in
        k \<noteq> [] \<and> 8 \<le> length stripped \<and> 2 < length (remdups stripped) \<and> lower stripped \<notin> set API_KEY_PLACEHOLDERS)"

record chat_row =
  row_chat :: string
  row_role :: string
  row_content :: string
  row_time :: real

record router =
  chat_history :: "chat_row list"
  db_open :: bool
  token_budget :: budget_manager
  circuit_breaker :: token_breaker
  max_context :: int
  has_provider :: bool
  has_tools :: bool
  hermes_mode :: bool
  system_prompt :: string
  tool_schemas :: "json list"
  hermes_block :: string

text \<open>How a call of \<open>chat\<close> ends: its answer, a text of the model's or one of the fixed ones, or an exception.\<close>

datatype notice =
    Input_Blocked | Input_Error | Budget_Exceeded | Breaker_Open | No_Data | Parse_Retries | Exec_Retries
  | Output_Blocked | Output_Schema | Critical_Error

datatype chat_exn = No_Chat_Id | Db_Closed | Too_Many_Rounds | Interrupted | Fatal_Error string | Other_Exception string

datatype chat_end = Said string | Notice notice | Threw chat_exn

datatype guard_exn = Security_Violation | Orchestration_Error | Guard_Failure string

text \<open>
  The ends of a call of the model and of a tool, by the classes the handlers tell apart.  An invalid call brings the
  errors of its fields: place, message and input.  The timeouts of both calls are \<open>OSError\<close>s.
\<close>

datatype model_end = Replied json | Model_Interrupted | Model_Fatal string | Model_Failed string

datatype tool_end =
    Tool_Text string | Tool_Invalid "(string list \<times> json \<times> json) list" | Tool_Failed string string
  | Tool_Interrupted | Tool_Fatal string | Tool_Other string

record router_env =
  sanitize :: "string \<Rightarrow> string"
  before_model :: "(string \<Rightarrow> guard_exn + string) option"
  after_model :: "string \<Rightarrow> guard_exn option"
  route :: "string \<Rightarrow> chat_exn + string"
  loads :: "string \<Rightarrow> json option"
  json_text :: "json \<Rightarrow> string"
  raw_text :: "json \<Rightarrow> string"
  model :: "nat \<Rightarrow> message list \<Rightarrow> json list \<Rightarrow> string \<Rightarrow> model_end"
  tool :: "nat \<Rightarrow> string \<Rightarrow> json \<Rightarrow> tool_end"
  clock :: "nat \<Rightarrow> token_request"
  response_time :: "nat \<Rightarrow> real"
  save_time :: "nat \<Rightarrow> real"

text \<open>The variables of a call of \<open>chat\<close>, with what it asked the model and the tools.\<close>

record chat_state =
  rt :: router
  messages :: "message list"
  consecutive_errors :: nat
  parse_errors :: nat
  exec_errors :: nat
  model_calls :: "(message list \<times> json list \<times> string) list"
  tool_runs :: "(string \<times> json) list"

text \<open>The constructor's two refusals, and the exchange of the provider: \<open>vault\<close> answers a secret, or fails.\<close>

definition init_refused :: "bool \<Rightarrow> bool \<Rightarrow> string option \<Rightarrow> bool \<Rightarrow> bool \<Rightarrow> bool" where
  "init_refused provider vault api_key hermes registry \<longleftrightarrow>
     \<not> provider \<and> \<not> vault \<and> \<not> is_valid_api_key api_key \<or> hermes \<and> \<not> registry"

definition reload_provider ::
  "(string \<Rightarrow> unit + string option) option \<Rightarrow> (string \<Rightarrow> string \<Rightarrow> bool) \<Rightarrow> string \<Rightarrow> router \<Rightarrow> router \<times> bool" where
  "reload_provider vault create name r =
    (case vault of
       None \<Rightarrow> (r, False)
     | Some get_secret \<Rightarrow>
        (case get_secret (name @ ''_api_key'') of
           Inl _ \<Rightarrow> (r, False)
         | Inr secret \<Rightarrow>
            if \<not> nonempty secret \<or> \<not> create name (the secret) then (r, False)
            else (r\<lparr>has_provider := True\<rparr>, True)))"

section \<open>History\<close>

definition save_message :: "router_env \<Rightarrow> string \<Rightarrow> string \<Rightarrow> string \<Rightarrow> router \<Rightarrow> chat_exn + router" where
  "save_message env chat role content r =
    (if \<not> db_open r then Inl Db_Closed
     else Inr (r\<lparr>chat_history := chat_history r @ [\<lparr>row_chat = chat, row_role = role, row_content = content,
                  row_time = save_time env (length (chat_history r))\<rparr>]\<rparr>))"

definition limited :: "int \<Rightarrow> 'a list \<Rightarrow> 'a list" where
  "limited n xs = (if n < 0 then xs else take (nat n) xs)"

definition message_of :: "router_env \<Rightarrow> chat_row \<Rightarrow> message" where
  "message_of env row =
    [(''role'', JStr (row_role row)),
     (''content'', case loads env (row_content row) of Some (JList xs) \<Rightarrow> JList xs | _ \<Rightarrow> JStr (row_content row))]"

definition load_context :: "router_env \<Rightarrow> string \<Rightarrow> router \<Rightarrow> chat_exn + message list" where
  "load_context env chat r =
    (if \<not> db_open r then Inl Db_Closed
     else Inr (map (message_of env)
       (rev (limited (max_context r) (rev (filter (\<lambda>row. row_chat row = chat) (chat_history r)))))))"

section \<open>Tools\<close>

definition truncated_result :: "string \<Rightarrow> string" where
  "truncated_result s =
    (if 4000 < length s then take 4000 s @ [char_of (10::nat), char_of (10::nat)] @ ''[... truncated ...]'' else s)"

definition format_validation_feedback :: "string \<Rightarrow> (string list \<times> json \<times> json) list \<Rightarrow> json" where
  "format_validation_feedback name errs =
    JDict [(''error'', JStr ''Invalid arguments for tool - please retry with corrected types/values.''),
      (''tool'', JStr name),
      (''validation_errors'', JList (map (\<lambda>(loc, msg, given).
         JDict [(''field'', JStr (let f = join ''.'' loc in if f = [] then ''<root>'' else f)), (''issue'', msg), (''input'', given)]) errs)),
      (''instruction'', JStr ''Re-emit the tool_use block respecting the input_schema field types, constraints (min/max length, regex pattern, gt/lt) and required fields.'')]"

definition failure_feedback :: "router_env \<Rightarrow> string \<Rightarrow> string \<Rightarrow> json" where
  "failure_feedback env cls text =
    JDict [(''error'', JStr ''Critical tool execution failure.''), (''exception_type'', JStr cls),
      (''details'', JStr (sanitize env text)),
      (''instruction'', JStr ''Verify that requirements are met and that external processes (LOOT/xEdit) are not blocked.'')]"

definition tool_result :: "router_env \<Rightarrow> json \<Rightarrow> string \<Rightarrow> json" where
  "tool_result env i s = JDict [(''type'', JStr ''tool_result''), (''tool_use_id'', i), (''content'', JStr (sanitize env (truncated_result s)))]"

text \<open>One call of a tool by its name; a router without tools has no \<open>execute\<close>.\<close>

definition execute_tool :: "router_env \<Rightarrow> string \<Rightarrow> json \<Rightarrow> chat_state \<Rightarrow> chat_state \<times> tool_end" where
  "execute_tool env name args st =
    (if \<not> has_tools (rt st) then (st, Tool_Fatal ''AttributeError'')
     else (st\<lparr>tool_runs := tool_runs st @ [(name, args)]\<rparr>, tool env (length (tool_runs st)) name args))"

text \<open>The text of one result of the native loop; \<open>Inl\<close> is what leaves it.\<close>

definition native_result :: "router_env \<Rightarrow> string \<Rightarrow> tool_end \<Rightarrow> chat_state \<Rightarrow> chat_state \<times> (chat_end + string)" where
  "native_result env name e st =
    (case e of
       Tool_Text s \<Rightarrow> (st\<lparr>consecutive_errors := 0\<rparr>, Inr s)
     | Tool_Invalid errs \<Rightarrow>
         (st\<lparr>consecutive_errors := consecutive_errors st + 1\<rparr>, Inr (raw_text env (format_validation_feedback name errs)))
     | Tool_Failed cls text \<Rightarrow>
         (st\<lparr>consecutive_errors := consecutive_errors st + 1\<rparr>, Inr (json_text env (failure_feedback env cls text)))
     | Tool_Interrupted \<Rightarrow> (st, Inl (Threw Interrupted))
     | Tool_Fatal s \<Rightarrow> (st, Inl (Threw (Fatal_Error s)))
     | Tool_Other _ \<Rightarrow> (st, Inl (Notice Critical_Error)))"

definition backoff :: "nat \<Rightarrow> nat" where
  "backoff errors = min (2 ^ errors) 16"

text \<open>The blocks in order: \<open>Inr\<close> the results, one for each block that asks for a tool.\<close>

fun run_blocks :: "router_env \<Rightarrow> json list \<Rightarrow> chat_state \<Rightarrow> chat_state \<times> (chat_end + json list)" where
  "run_blocks env [] st = (st, Inr [])"
| "run_blocks env (JDict kvs # bs) st =
    (if dget kvs ''type'' \<noteq> Some (JStr ''tool_use'') then run_blocks env bs st
     else
       (case (dget kvs ''id'', dget kvs ''name'') of
          (Some i, Some n) \<Rightarrow>
            (case execute_tool env (py_str n) (dget_or kvs ''input'' (JDict [])) st of
               (st1, e) \<Rightarrow>
                 (case native_result env (py_str n) e st1 of
                    (st2, Inl stop) \<Rightarrow> (st2, Inl stop)
                  | (st2, Inr s) \<Rightarrow>
                      (case run_blocks env bs st2 of
                         (st3, Inl stop) \<Rightarrow> (st3, Inl stop)
                       | (st3, Inr rs) \<Rightarrow> (st3, Inr (tool_result env i s # rs)))))
        | _ \<Rightarrow> (st, Inl (Notice Critical_Error))))"
| "run_blocks env (_ # bs) st = (st, Inl (Threw (Fatal_Error ''AttributeError'')))"

text \<open>Iterating over a value of the reply: a number, a bool or none is a \<open>TypeError\<close>.\<close>

definition iterate :: "json \<Rightarrow> chat_end + json list" where
  "iterate v =
    (case v of
       JList xs \<Rightarrow> Inr xs
     | JDict kvs \<Rightarrow> Inr (map (JStr \<circ> fst) kvs)
     | JStr s \<Rightarrow> Inr (map (\<lambda>c. JStr [c]) s)
     | _ \<Rightarrow> Inl (Notice Critical_Error))"

fun text_parts :: "json list \<Rightarrow> chat_end + json list" where
  "text_parts [] = Inr []"
| "text_parts (JDict kvs # bs) =
    (case text_parts bs of
       Inl e \<Rightarrow> Inl e
     | Inr ts \<Rightarrow> Inr (if dget kvs ''type'' = Some (JStr ''text'') then dget_or kvs ''text'' (JStr []) # ts else ts))"
| "text_parts (_ # bs) = Inl (Threw (Fatal_Error ''AttributeError''))"

definition as_text :: "json \<Rightarrow> string option" where
  "as_text j = (case j of JStr s \<Rightarrow> Some s | _ \<Rightarrow> None)"

definition full_text :: "json \<Rightarrow> chat_end + string" where
  "full_text content =
    (case iterate content of
       Inl e \<Rightarrow> Inl e
     | Inr bs \<Rightarrow>
        (case text_parts bs of
           Inl e \<Rightarrow> Inl e
         | Inr ts \<Rightarrow>
            (case those (map as_text ts) of
               None \<Rightarrow> Inl (Notice Critical_Error)
             | Some ss \<Rightarrow> Inr (join [char_of (10::nat)] ss))))"

definition output_gate :: "router_env \<Rightarrow> string \<Rightarrow> chat_end" where
  "output_gate env text =
    (if before_model env = None then Said text
     else case after_model env text of
            None \<Rightarrow> Said text
          | Some Security_Violation \<Rightarrow> Notice Output_Blocked
          | Some Orchestration_Error \<Rightarrow> Notice Output_Schema
          | Some (Guard_Failure _) \<Rightarrow> Notice Critical_Error)"

section \<open>A round\<close>

definition said_by :: "string \<Rightarrow> json \<Rightarrow> message" where
  "said_by role content = [(''role'', JStr role), (''content'', content)]"

text \<open>Saving inside the loop: an exception there is of no fatal class.\<close>

definition save_in_loop :: "router_env \<Rightarrow> string \<Rightarrow> string \<Rightarrow> string \<Rightarrow> chat_state \<Rightarrow> chat_state option" where
  "save_in_loop env chat role content st =
    (case save_message env chat role content (rt st) of Inl _ \<Rightarrow> None | Inr r \<Rightarrow> Some (st\<lparr>rt := r\<rparr>))"

definition say_in_loop :: "router_env \<Rightarrow> string \<Rightarrow> string \<Rightarrow> string \<Rightarrow> chat_state \<Rightarrow> chat_state option" where
  "say_in_loop env chat role content st =
    map_option (\<lambda>st'. st'\<lparr>messages := messages st' @ [said_by role (JStr content)]\<rparr>) (save_in_loop env chat role content st)"

definition windowed :: "chat_state \<Rightarrow> chat_state" where
  "windowed st = st\<lparr>messages := slice_from (- max_context (rt st)) (messages st)\<rparr>"

text \<open>The budget, the estimate with the system prompt and the circuit breaker before a call.\<close>

definition within_budget :: "chat_state \<Rightarrow> chat_state \<times> bool" where
  "within_budget st =
    (let (b, verdict) = check_budget (token_budget (rt st)) (messages st);
         st1 = st\<lparr>rt := (rt st)\<lparr>token_budget := b\<rparr>\<rparr>
     in if verdict_action verdict = ''reject'' then (st1, False)
        else if verdict_action verdict = ''truncate'' then (st1\<lparr>messages := truncate_older_messages b (messages st)\<rparr>, True)
        else if verdict_action verdict = ''summarize'' then
          (let (b', ms) = summarize_older_messages py_str b (messages st)
           in (st1\<lparr>rt := (rt st1)\<lparr>token_budget := b'\<rparr>, messages := ms\<rparr>, True))
        else (st1, True))"

definition effective_system :: "string \<Rightarrow> router \<Rightarrow> string" where
  "effective_system injected r = system_prompt r @ [char_of (10::nat), char_of (10::nat)] @ injected"

definition pre_call_tokens :: "string \<Rightarrow> chat_state \<Rightarrow> int" where
  "pre_call_tokens injected st =
     int (estimate_messages_tokens (messages st)) + int (estimate_tokens (effective_system injected (rt st)))"

definition admitted :: "router_env \<Rightarrow> string \<Rightarrow> nat \<Rightarrow> chat_state \<Rightarrow> chat_state \<times> bool" where
  "admitted env injected n st =
    (let (b, ok) = check_request (circuit_breaker (rt st)) ((clock env n)\<lparr>estimated_tokens := pre_call_tokens injected st\<rparr>)
     in (st\<lparr>rt := (rt st)\<lparr>circuit_breaker := b\<rparr>\<rparr>, ok))"

text \<open>The reply of the model is counted, saved and added to the messages.\<close>

definition take_reply :: "router_env \<Rightarrow> string \<Rightarrow> nat \<Rightarrow> int \<Rightarrow> json \<Rightarrow> chat_state \<Rightarrow> chat_state \<times> bool" where
  "take_reply env chat n pre content st =
    (let used = pre + int (estimate_tokens (json_text env content)); r = rt st;
         st1 = st\<lparr>rt := r\<lparr>token_budget := record_usage (token_budget r) used,
                           circuit_breaker := record_response (circuit_breaker r) used (response_time env n)\<rparr>\<rparr>
     in case save_in_loop env chat ''assistant'' (json_text env content) st1 of
          None \<Rightarrow> (st1, False)
        | Some st2 \<Rightarrow> (st2\<lparr>messages := messages st2 @ [said_by ''assistant'' content]\<rparr>, True))"

text \<open>One call of the text mode; \<open>Inl\<close> ends \<open>chat\<close>.\<close>

definition hermes_error :: "router_env \<Rightarrow> string \<Rightarrow> string \<Rightarrow> chat_state \<Rightarrow> chat_state \<times> chat_end option" where
  "hermes_error env chat content st =
    (let st1 = st\<lparr>exec_errors := exec_errors st + 1\<rparr> in
     if MAX_HERMES_RETRIES \<le> exec_errors st1 then (st1, Some (Notice Exec_Retries))
     else case say_in_loop env chat ''user'' content st1 of
            None \<Rightarrow> (st1, Some (Notice Critical_Error))
          | Some st2 \<Rightarrow> (st2, None))"

definition hermes_call :: "router_env \<Rightarrow> string \<Rightarrow> tool_call \<Rightarrow> chat_state \<Rightarrow> chat_state \<times> chat_end option" where
  "hermes_call env chat call st =
    (case execute_tool env (fst call) (snd call) st of
       (st1, Tool_Text s) \<Rightarrow>
         (let st2 = st1\<lparr>exec_errors := 0\<rparr> in
          case say_in_loop env chat ''user'' (sanitize env (''[Tool Result] '' @ truncated_result s)) st2 of
            None \<Rightarrow> (st2, Some (Notice Critical_Error))
          | Some st3 \<Rightarrow> (st3, None))
     | (st1, Tool_Invalid errs) \<Rightarrow>
         hermes_error env chat (sanitize env (''[Tool Error] '' @ raw_text env (format_validation_feedback (fst call) errs))) st1
     | (st1, Tool_Failed _ text) \<Rightarrow>
         hermes_error env chat (sanitize env (''[Tool Error] Error executing '' @ fst call @ '': '' @ text)) st1
     | (st1, Tool_Interrupted) \<Rightarrow> (st1, Some (Threw Interrupted))
     | (st1, Tool_Fatal s) \<Rightarrow> (st1, Some (Threw (Fatal_Error s)))
     | (st1, Tool_Other _) \<Rightarrow> (st1, Some (Notice Critical_Error)))"

fun hermes_calls :: "router_env \<Rightarrow> string \<Rightarrow> tool_call list \<Rightarrow> chat_state \<Rightarrow> chat_state \<times> chat_end option" where
  "hermes_calls env chat [] st = (st, None)"
| "hermes_calls env chat (c # cs) st =
    (case hermes_call env chat c st of
       (st', Some e) \<Rightarrow> (st', Some e)
     | (st', None) \<Rightarrow> hermes_calls env chat cs st')"

text \<open>What a round does with the reply: \<open>None\<close> goes on with the next one.\<close>

definition hermes_round :: "router_env \<Rightarrow> string \<Rightarrow> json \<Rightarrow> chat_state \<Rightarrow> chat_state \<times> chat_end option" where
  "hermes_round env chat content st =
    (case full_text content of
       Inl e \<Rightarrow> (st, Some e)
     | Inr text \<Rightarrow>
        if \<not> has_tool_calls text then (st\<lparr>parse_errors := 0, exec_errors := 0\<rparr>, Some (output_gate env text))
        else
          (case extract_tool_calls (loads env) text of
             Inl problem \<Rightarrow>
              (let st1 = st\<lparr>parse_errors := parse_errors st + 1\<rparr> in
               if MAX_HERMES_RETRIES \<le> parse_errors st1 then (st1, Some (Notice Parse_Retries))
               else (st1\<lparr>messages := messages st1 @
                      [said_by ''user'' (JStr (sanitize env (''[Tool Error] Error parsing tool call: '' @ problem)))]\<rparr>, None))
           | Inr calls \<Rightarrow>
              (case hermes_calls env chat calls (st\<lparr>parse_errors := 0\<rparr>) of
                 (st1, Some e) \<Rightarrow> (st1, Some e)
               | (st1, None) \<Rightarrow> (windowed st1, None))))"

definition native_round :: "router_env \<Rightarrow> string \<Rightarrow> (string \<times> json) list \<Rightarrow> json \<Rightarrow> chat_state \<Rightarrow> chat_state \<times> chat_end option" where
  "native_round env chat reply content st =
    (if dget_or reply ''stop_reason'' (JStr ''end_turn'') \<noteq> JStr ''tool_use'' then
       (st, Some (case full_text content of Inl e \<Rightarrow> e | Inr text \<Rightarrow> output_gate env text))
     else
       (case iterate content of
          Inl e \<Rightarrow> (st, Some e)
        | Inr bs \<Rightarrow>
           (case run_blocks env bs st of
              (st1, Inl e) \<Rightarrow> (st1, Some e)
            | (st1, Inr results) \<Rightarrow>
               (case save_in_loop env chat ''user'' (json_text env (JList results)) st1 of
                  None \<Rightarrow> (st1, Some (Notice Critical_Error))
                | Some st2 \<Rightarrow>
                   (windowed (st2\<lparr>messages := messages st2 @ [said_by ''user'' (JList results)]\<rparr>), None)))))"

definition call_model :: "router_env \<Rightarrow> string \<Rightarrow> nat \<Rightarrow> chat_state \<Rightarrow> chat_state \<times> model_end" where
  "call_model env injected n st =
    (if \<not> has_provider (rt st) then (st, Model_Failed ''RuntimeError'')
     else
       let hermes = hermes_mode (rt st) \<and> has_tools (rt st);
           eff = effective_system injected (rt st) @ (if hermes then hermes_block (rt st) else []);
           tools = (if hermes then [] else tool_schemas (rt st))
       in (st\<lparr>model_calls := model_calls st @ [(messages st, tools, eff)]\<rparr>, model env n (messages st) tools eff))"

definition chat_round :: "router_env \<Rightarrow> string \<Rightarrow> string \<Rightarrow> nat \<Rightarrow> chat_state \<Rightarrow> chat_state \<times> chat_end option" where
  "chat_round env chat injected n st =
    (case within_budget st of
       (st1, False) \<Rightarrow> (st1, Some (Notice Budget_Exceeded))
     | (st1, True) \<Rightarrow>
        (case admitted env injected n st1 of
           (st2, False) \<Rightarrow> (st2, Some (Notice Breaker_Open))
         | (st2, True) \<Rightarrow>
            (case call_model env injected n st2 of
               (st3, Model_Interrupted) \<Rightarrow> (st3, Some (Threw Interrupted))
             | (st3, Model_Fatal s) \<Rightarrow> (st3, Some (Threw (Fatal_Error s)))
             | (st3, Model_Failed _) \<Rightarrow> (st3, Some (Notice Critical_Error))
             | (st3, Replied (JDict reply)) \<Rightarrow>
                (let content = dget_or reply ''content'' (JList []) in
                 case take_reply env chat n (pre_call_tokens injected st1) content st3 of
                   (st4, False) \<Rightarrow> (st4, Some (Notice Critical_Error))
                 | (st4, True) \<Rightarrow> if hermes_mode (rt st4) then hermes_round env chat content st4
                                 else native_round env chat reply content st4)
             | (st3, Replied _) \<Rightarrow> (st3, Some (Notice No_Data)))))"

text \<open>The loop: \<open>n\<close> rounds are left.\<close>

fun rounds :: "router_env \<Rightarrow> string \<Rightarrow> string \<Rightarrow> nat \<Rightarrow> chat_state \<Rightarrow> chat_state \<times> chat_end" where
  "rounds env chat injected 0 st = (st, Threw Too_Many_Rounds)"
| "rounds env chat injected (Suc n) st =
    (case chat_round env chat injected (MAX_TOOL_ROUNDS - Suc n) st of
       (st', Some e) \<Rightarrow> (st', e)
     | (st', None) \<Rightarrow> rounds env chat injected n st')"

definition input_gate :: "router_env \<Rightarrow> string \<Rightarrow> chat_end + string" where
  "input_gate env text =
    (case before_model env of
       None \<Rightarrow> Inr (sanitize env text)
     | Some gate \<Rightarrow>
        (case gate text of
           Inr text' \<Rightarrow> Inr text'
         | Inl Security_Violation \<Rightarrow> Inl (Notice Input_Blocked)
         | Inl Orchestration_Error \<Rightarrow> Inl (Notice Input_Error)
         | Inl (Guard_Failure s) \<Rightarrow> Inl (Threw (Other_Exception s))))"

definition start_chat :: "router \<Rightarrow> chat_state" where
  "start_chat r = \<lparr>rt = r, messages = [], consecutive_errors = 0, parse_errors = 0, exec_errors = 0, model_calls = [], tool_runs = []\<rparr>"

text \<open>\<open>route\<close> is the routing of the message and the context it injects.\<close>

definition chat :: "router_env \<Rightarrow> string \<Rightarrow> string \<Rightarrow> router \<Rightarrow> chat_state \<times> chat_end" where
  "chat env chat_id text r =
    (let st = start_chat r in
     if chat_id = [] then (st, Threw No_Chat_Id)
     else
       (case route env text of
          Inl e \<Rightarrow> (st, Threw e)
        | Inr injected \<Rightarrow>
           (case input_gate env text of
              Inl e \<Rightarrow> (st, e)
            | Inr text' \<Rightarrow>
               (case save_message env chat_id ''user'' text' r of
                  Inl e \<Rightarrow> (st, Threw e)
                | Inr r1 \<Rightarrow>
                   (case load_context env chat_id r1 of
                      Inl e \<Rightarrow> (st\<lparr>rt := r1\<rparr>, Threw e)
                    | Inr ms \<Rightarrow> rounds env chat_id injected MAX_TOOL_ROUNDS (st\<lparr>rt := r1, messages := ms\<rparr>))))))"

section \<open>Every request for a tool is answered\<close>

definition requested :: "json \<Rightarrow> json list" where
  "requested b =
    (case b of
       JDict kvs \<Rightarrow> if dget kvs ''type'' = Some (JStr ''tool_use'') then [the (dget kvs ''id'')] else []
     | _ \<Rightarrow> [])"

definition requested_ids :: "json list \<Rightarrow> json list" where
  "requested_ids bs = concat (map requested bs)"

definition result_id :: "json \<Rightarrow> json" where
  "result_id r = (case r of JDict kvs \<Rightarrow> the (dget kvs ''tool_use_id'') | _ \<Rightarrow> JNull)"

lemma result_id_tool_result [simp]: "result_id (tool_result env i s) = i"
  by (simp add: result_id_def tool_result_def)

lemma execute_tool_frame:
  assumes "execute_tool env name args st = (st', e)"
  shows "rt st' = rt st" "messages st' = messages st" "model_calls st' = model_calls st"
  using assms by (auto simp: execute_tool_def split: if_splits)

lemma native_result_frame:
  assumes "native_result env name e st = (st', r)"
  shows "rt st' = rt st" "messages st' = messages st" "model_calls st' = model_calls st"
  using assms by (auto simp: native_result_def split: tool_end.splits)

text \<open>The three ways through one block.\<close>

lemma run_blocks_Cons:
  assumes "run_blocks env (b # bs) st = (st', r)"
  obtains (stop) e where "st' = st" "r = Inl e" "\<forall>t. e \<noteq> Said t"
    | (skip) "requested b = []" "run_blocks env bs st = (st', r)"
    | (stopped) st1 name args e st2 x where "execute_tool env name args st = (st1, e)" "native_result env name e st1 = (st2, Inl x)"
        "st' = st2" "r = Inl x"
    | (run) i st1 name args e st2 s st3 q where "requested b = [i]" "execute_tool env name args st = (st1, e)"
        "native_result env name e st1 = (st2, Inr s)" "run_blocks env bs st2 = (st3, q)" "st' = st3"
        "r = (case q of Inl x \<Rightarrow> Inl x | Inr rs \<Rightarrow> Inr (tool_result env i s # rs))"
proof (cases "\<exists>kvs. b = JDict kvs \<and> dget kvs ''type'' = Some (JStr ''tool_use'') \<and> dget kvs ''id'' \<noteq> None \<and> dget kvs ''name'' \<noteq> None")
  case False
  show thesis
  proof (cases "\<exists>kvs. b = JDict kvs \<and> dget kvs ''type'' \<noteq> Some (JStr ''tool_use'')")
    case True
    with assms skip show thesis by (auto simp: requested_def)
  next
    case other: False
    have "\<exists>e. st' = st \<and> r = Inl e \<and> (\<forall>t. e \<noteq> Said t)"
      using assms False other by (cases b) (auto split: option.splits)
    with stop show thesis by blast
  qed
next
  case True
  then obtain kvs i n where b: "b = JDict kvs" "dget kvs ''type'' = Some (JStr ''tool_use'')" "dget kvs ''id'' = Some i" "dget kvs ''name'' = Some n"
    by auto
  obtain st1 e where ex: "execute_tool env (py_str n) (dget_or kvs ''input'' (JDict [])) st = (st1, e)"
    by (cases "execute_tool env (py_str n) (dget_or kvs ''input'' (JDict [])) st")
  obtain st2 q where na: "native_result env (py_str n) e st1 = (st2, q)" by (cases "native_result env (py_str n) e st1")
  have req: "requested b = [i]" using b by (simp add: requested_def)
  show thesis
  proof (cases q)
    case (Inl x)
    then show thesis using assms b ex na by (intro stopped[OF ex]) auto
  next
    case (Inr s)
    obtain st3 q3 where bs: "run_blocks env bs st2 = (st3, q3)" by (cases "run_blocks env bs st2")
    show thesis
      by (rule run[OF req ex na[unfolded Inr] bs]) (use assms b ex na Inr bs in \<open>auto split: sum.splits\<close>)
  qed
qed

lemma run_blocks_frame:
  "run_blocks env bs st = (st', r) \<Longrightarrow> rt st' = rt st \<and> messages st' = messages st \<and> model_calls st' = model_calls st"
proof (induction bs arbitrary: st st' r)
  case (Cons b bs)
  from Cons.prems show ?case
  proof (cases rule: run_blocks_Cons)
    case skip
    then show ?thesis using Cons.IH by simp
  next
    case (stopped st1 name args e st2 x)
    then show ?thesis using execute_tool_frame[OF stopped(1)] native_result_frame[OF stopped(2)] by simp
  next
    case (run i st1 name args e st2 s st3 q)
    from Cons.IH[OF run(4)] show ?thesis
      unfolding run(5) using execute_tool_frame[OF run(2)] native_result_frame[OF run(3)] by simp
  qed auto
qed auto

text \<open>When the blocks ran through there is one result for every request, with its identifier and in order.\<close>

lemma run_blocks_ids: "run_blocks env bs st = (st', Inr rs) \<Longrightarrow> map result_id rs = requested_ids bs"
proof (induction bs arbitrary: st rs)
  case (Cons b bs)
  from Cons.prems show ?case
  proof (cases rule: run_blocks_Cons)
    case (run i st1 name args e st2 s st3 q)
    obtain rs' where q: "q = Inr rs'" "rs = tool_result env i s # rs'" using run(6) by (cases q) auto
    have "run_blocks env bs st2 = (st', Inr rs')" using run(4) unfolding run(5) q(1) .
    from Cons.IH[OF this] show ?thesis unfolding q(2) requested_ids_def using run(1) by simp
  qed (auto simp: requested_ids_def intro: Cons.IH[unfolded requested_ids_def])
qed (auto simp: requested_ids_def)

lemma run_blocks_never_says: "run_blocks env bs st = (st', Inl x) \<Longrightarrow> x \<noteq> Said t"
proof (induction bs arbitrary: st st')
  case (Cons b bs)
  from Cons.prems show ?case
  proof (cases rule: run_blocks_Cons)
    case skip
    then show ?thesis using Cons.IH by simp
  next
    case (stopped st1 name args e st2 y)
    then show ?thesis by (auto simp: native_result_def split: tool_end.splits)
  next
    case (run i st1 name args e st2 s st3 q)
    then have "q = Inl x" by (cases q) auto
    from Cons.IH[OF run(4)[unfolded this]] show ?thesis .
  qed auto
qed auto

lemma text_parts_never_says: "text_parts bs = Inl x \<Longrightarrow> x \<noteq> Said t"
  by (induction bs rule: text_parts.induct) (auto split: sum.splits)

lemma full_text_never_says: "full_text content = Inl x \<Longrightarrow> x \<noteq> Said t"
  by (auto simp: full_text_def iterate_def split: json.splits sum.splits option.splits dest!: text_parts_never_says)

lemma output_gate_says: "output_gate env text = Said t \<Longrightarrow> text = t"
  by (auto simp: output_gate_def split: if_splits option.splits guard_exn.splits)

section \<open>What a call saves\<close>

text \<open>The rows a part of a call adds to the history, all of its own conversation.\<close>

definition adds :: "string \<Rightarrow> chat_state \<Rightarrow> chat_state \<Rightarrow> (string \<times> string) list \<Rightarrow> bool" where
  "adds c st st' said \<longleftrightarrow> hermes_mode (rt st') = hermes_mode (rt st)
     \<and> (\<exists>rows. chat_history (rt st') = chat_history (rt st) @ rows
          \<and> map (\<lambda>x. (row_role x, row_content x)) rows = said \<and> (\<forall>x \<in> set rows. row_chat x = c))"

lemma adds_none: "chat_history (rt st') = chat_history (rt st) \<Longrightarrow> hermes_mode (rt st') = hermes_mode (rt st) \<Longrightarrow> adds c st st' []"
  by (simp add: adds_def)

lemma adds_trans: "adds c st st1 a \<Longrightarrow> adds c st1 st2 b \<Longrightarrow> adds c st st2 (a @ b)"
  unfolding adds_def
proof (elim conjE exE, intro conjI)
  fix r1 r2
  assume "chat_history (rt st1) = chat_history (rt st) @ r1" "map (\<lambda>x. (row_role x, row_content x)) r1 = a" "\<forall>x \<in> set r1. row_chat x = c"
    "chat_history (rt st2) = chat_history (rt st1) @ r2" "map (\<lambda>x. (row_role x, row_content x)) r2 = b" "\<forall>x \<in> set r2. row_chat x = c"
  then show "\<exists>rows. chat_history (rt st2) = chat_history (rt st) @ rows
      \<and> map (\<lambda>x. (row_role x, row_content x)) rows = a @ b \<and> (\<forall>x \<in> set rows. row_chat x = c)"
    by (intro exI[of _ "r1 @ r2"]) auto
qed simp

lemma adds_save:
  assumes "save_in_loop env c role content st = Some st'"
  shows "adds c st st' [(role, content)]"
  using assms by (auto simp: save_in_loop_def save_message_def adds_def split: sum.splits if_splits)

lemma adds_windowed [simp]: "adds c st (windowed st') said \<longleftrightarrow> adds c st st' said"
  by (simp add: adds_def windowed_def)

lemma adds_messages [simp]: "adds c st (st'\<lparr>messages := ms\<rparr>) said \<longleftrightarrow> adds c st st' said"
  by (simp add: adds_def)

lemma within_budget_adds: "within_budget st = (st', ok) \<Longrightarrow> adds c st st' []"
  by (auto simp: within_budget_def Let_def intro!: adds_none split: prod.splits if_splits)

lemma admitted_adds: "admitted env injected n st = (st', ok) \<Longrightarrow> adds c st st' []"
  by (auto simp: admitted_def Let_def intro!: adds_none split: prod.splits)

lemma call_model_adds: "call_model env injected n st = (st', m) \<Longrightarrow> adds c st st' []"
  by (auto simp: call_model_def Let_def intro!: adds_none split: if_splits)

lemma take_reply_adds:
  assumes "take_reply env c n pre content st = (st', ok)"
  shows "adds c st st' (if ok then [(''assistant'', json_text env content)] else [])"
proof -
  let ?used = "pre + int (estimate_tokens (json_text env content))"
  let ?st1 = "st\<lparr>rt := (rt st)\<lparr>token_budget := record_usage (token_budget (rt st)) ?used,
      circuit_breaker := record_response (circuit_breaker (rt st)) ?used (response_time env n)\<rparr>\<rparr>"
  have "adds c st ?st1 []" by (rule adds_none) simp_all
  moreover have "adds c ?st1 st' (if ok then [(''assistant'', json_text env content)] else [])"
    using assms adds_save[of env c "''assistant''" "json_text env content" ?st1]
    by (auto simp: take_reply_def Let_def intro: adds_none split: option.splits)
  ultimately show ?thesis using adds_trans by fastforce
qed

lemma run_blocks_adds:
  assumes "run_blocks env bs st = (st', r)"
  shows "adds c st st' []"
  using run_blocks_frame[OF assms] by (intro adds_none) simp_all

text \<open>A native round that goes on has answered the blocks; one that ends adds nothing.\<close>

lemma native_round_adds:
  assumes "native_round env c reply content st = (st', e)"
  shows "(e = None \<and> (\<exists>bs rs. iterate content = Inr bs \<and> map result_id rs = requested_ids bs
            \<and> adds c st st' [(''user'', json_text env (JList rs))]))
       \<or> (e \<noteq> None \<and> adds c st st' [] \<and> (\<forall>t. e = Some (Said t) \<longrightarrow> full_text content = Inr t))"
proof (cases "dget_or reply ''stop_reason'' (JStr ''end_turn'') \<noteq> JStr ''tool_use''")
  case True
  then have "st' = st" "e \<noteq> None" "\<forall>t. e = Some (Said t) \<longrightarrow> full_text content = Inr t"
    using assms full_text_never_says[of content] output_gate_says[of env]
    by (auto simp: native_round_def split: sum.splits if_splits)
  then show ?thesis by (auto intro: adds_none)
next
  case False
  show ?thesis
  proof (cases "iterate content")
    case (Inl x)
    then have "x = Notice Critical_Error" by (auto simp: iterate_def split: json.splits)
    with Inl False assms show ?thesis by (auto simp: native_round_def intro: adds_none)
  next
    case (Inr bs)
    obtain st1 r where rb: "run_blocks env bs st = (st1, r)" by (cases "run_blocks env bs st")
    note quiet = run_blocks_adds[OF rb, of c]
    show ?thesis
    proof (cases r)
      case (Inl x)
      have "x \<noteq> Said t" for t
        using rb unfolding Inl by (rule run_blocks_never_says)
      with Inl Inr False assms rb quiet show ?thesis by (auto simp: native_round_def)
    next
      case (Inr results)
      note ids = run_blocks_ids[OF rb[unfolded Inr]]
      show ?thesis
      proof (cases "save_in_loop env c ''user'' (json_text env (JList results)) st1")
        case None
        with Inr \<open>iterate content = Inr bs\<close> False assms rb quiet show ?thesis by (auto simp: native_round_def)
      next
        case (Some st2)
        have "adds c st st2 ([] @ [(''user'', json_text env (JList results))])" by (rule adds_trans[OF quiet adds_save[OF Some]])
        with Some Inr \<open>iterate content = Inr bs\<close> False assms rb ids show ?thesis
          by (auto simp: native_round_def intro!: exI[of _ results])
      qed
    qed
  qed
qed

text \<open>
  The rounds that were gone through: a reply of the model and the results, one for each request of the reply in order.
\<close>

inductive answered :: "router_env \<Rightarrow> (string \<times> string) list \<Rightarrow> bool" for env where
  answered_none: "answered env []"
| answered_round: "answered env said \<Longrightarrow> iterate content = Inr bs \<Longrightarrow> map result_id rs = requested_ids bs
    \<Longrightarrow> answered env ((''assistant'', json_text env content) # (''user'', json_text env (JList rs)) # said)"

text \<open>What may follow them: a last reply, which is what was said if anything was.\<close>

definition last_reply :: "router_env \<Rightarrow> chat_end \<Rightarrow> (string \<times> string) list \<Rightarrow> bool" where
  "last_reply env e tail \<longleftrightarrow> (tail = [] \<and> (\<forall>t. e \<noteq> Said t))
     \<or> (\<exists>content. tail = [(''assistant'', json_text env content)] \<and> (\<forall>t. e = Said t \<longrightarrow> full_text content = Inr t))"

lemma chat_round_adds:
  assumes "chat_round env c injected n st = (st', e)" "\<not> hermes_mode (rt st)"
  shows "(\<exists>content bs rs. e = None \<and> iterate content = Inr bs \<and> map result_id rs = requested_ids bs
      \<and> adds c st st' [(''assistant'', json_text env content), (''user'', json_text env (JList rs))])
    \<or> (\<exists>x tail. e = Some x \<and> adds c st st' tail \<and> last_reply env x tail)"
proof -
  have quit: "\<exists>x tail. e = Some x \<and> adds c st st' tail \<and> last_reply env x tail"
    if "adds c st st' []" "e = Some x" "\<forall>t. x \<noteq> Said t" for x
    using that by (auto simp: last_reply_def)
  obtain st1 ok1 where b: "within_budget st = (st1, ok1)" by (cases "within_budget st")
  obtain st2 ok2 where a: "admitted env injected n st1 = (st2, ok2)" by (cases "admitted env injected n st1")
  obtain st3 m where cm: "call_model env injected n st2 = (st3, m)" by (cases "call_model env injected n st2")
  have a1: "adds c st st1 []" by (rule within_budget_adds[OF b])
  have a2: "adds c st st2 []" using adds_trans[OF a1 admitted_adds[OF a]] by simp
  have a3: "adds c st st3 []" using adds_trans[OF a2 call_model_adds[OF cm]] by simp
  show ?thesis
  proof (cases "ok1 \<and> ok2 \<and> (\<exists>reply. m = Replied (JDict reply))")
    case False
    have "(st' = st1 \<or> st' = st2 \<or> st' = st3) \<and> (\<exists>x. e = Some x \<and> (\<forall>t. x \<noteq> Said t))"
      using assms(1) False b a cm
      by (cases ok1; cases ok2) (auto simp: chat_round_def split: model_end.splits json.splits)
    then show ?thesis using quit a1 a2 a3 by blast
  next
    case True
    then obtain reply where m: "m = Replied (JDict reply)" by blast
    let ?content = "dget_or reply ''content'' (JList [])"
    obtain st4 ok where t: "take_reply env c n (pre_call_tokens injected st1) ?content st3 = (st4, ok)"
      by (cases "take_reply env c n (pre_call_tokens injected st1) ?content st3")
    have a4: "adds c st st4 (if ok then [(''assistant'', json_text env ?content)] else [])"
      using adds_trans[OF a3 take_reply_adds[OF t]] by simp
    have native: "\<not> hermes_mode (rt st4)" using assms(2) a4 by (simp add: adds_def)
    show ?thesis
    proof (cases ok)
      case False
      then have "st' = st4 \<and> e = Some (Notice Critical_Error)"
        using assms(1) True unfolding chat_round_def b a prod.case cm m by (simp add: t)
      then show ?thesis using quit a4 False by simp
    next
      case ok: True
      then have nr: "native_round env c reply ?content st4 = (st', e)"
        using assms(1) True native unfolding chat_round_def b a prod.case cm m by (simp add: t)
      have one: "adds c st st4 [(''assistant'', json_text env ?content)]" using a4 ok by simp
      from native_round_adds[OF nr] show ?thesis
      proof
        assume "e = None \<and> (\<exists>bs rs. iterate ?content = Inr bs \<and> map result_id rs = requested_ids bs
          \<and> adds c st4 st' [(''user'', json_text env (JList rs))])"
        with adds_trans[OF one] show ?thesis by fastforce
      next
        assume ended: "e \<noteq> None \<and> adds c st4 st' [] \<and> (\<forall>t. e = Some (Said t) \<longrightarrow> full_text ?content = Inr t)"
        then obtain x where x: "e = Some x" by auto
        have "adds c st st' [(''assistant'', json_text env ?content)]" using adds_trans[OF one, of st' "[]"] ended by simp
        with ended x show ?thesis unfolding last_reply_def by blast
      qed
    qed
  qed
qed

lemma rounds_adds:
  assumes "rounds env c injected n st = (st', e)" "\<not> hermes_mode (rt st)"
  shows "\<exists>said tail. adds c st st' (said @ tail) \<and> answered env said \<and> last_reply env e tail"
  using assms
proof (induction n arbitrary: st)
  case 0
  then show ?case by (intro exI[of _ "[]"]) (auto simp: answered_none last_reply_def intro: adds_none)
next
  case (Suc n)
  obtain st1 r where cr: "chat_round env c injected (MAX_TOOL_ROUNDS - Suc n) st = (st1, r)"
    by (cases "chat_round env c injected (MAX_TOOL_ROUNDS - Suc n) st")
  from chat_round_adds[OF cr Suc.prems(2)] show ?case
  proof (elim disjE exE conjE)
    fix content bs rs
    assume r: "r = None" "iterate content = Inr bs" "map result_id rs = requested_ids bs"
      and a: "adds c st st1 [(''assistant'', json_text env content), (''user'', json_text env (JList rs))]"
    have "rounds env c injected n st1 = (st', e)" using Suc.prems(1) cr r(1) by simp
    moreover have "\<not> hermes_mode (rt st1)" using a Suc.prems(2) by (simp add: adds_def)
    ultimately obtain said tail where "adds c st1 st' (said @ tail)" "answered env said" "last_reply env e tail"
      using Suc.IH by blast
    with adds_trans[OF a] answered_round[OF _ r(2,3)] show ?thesis
      by (intro exI[of _ "(''assistant'', json_text env content) # (''user'', json_text env (JList rs)) # said"] exI[of _ tail]) auto
  next
    fix x tail
    assume "r = Some x" "adds c st st1 tail" "last_reply env x tail"
    with Suc.prems(1) cr show ?thesis by (intro exI[of _ "[]"] exI[of _ tail]) (auto simp: answered_none)
  qed
qed

text \<open>
  C33: a call of \<open>chat\<close> in native mode only appends to the history, and only to its own conversation: the user's
  message, then replies of the model each followed by the results of its tools, exactly one for every request of the
  reply and in order; only a last reply may stand without results, and what the call says is the text of that reply.
\<close>

theorem every_tool_request_is_answered:
  assumes "chat env c text r = (st, e)" and "\<not> hermes_mode r"
  shows "\<exists>asked said tail. adds c (start_chat r) st (asked @ said @ tail)
    \<and> (asked = [] \<or> (\<exists>t. asked = [(''user'', t)])) \<and> answered env said \<and> last_reply env e tail"
proof -
  have quiet: ?thesis if "rt st = r" "\<forall>t. e \<noteq> Said t"
    using that by (intro exI[of _ "[]"]) (auto simp: adds_def start_chat_def answered_none last_reply_def)
  show ?thesis
  proof (cases "c = [] \<or> (\<exists>x. route env text = Inl x)")
    case True
    have "rt st = r \<and> (\<forall>t. e \<noteq> Said t)" using assms(1) True
      by (auto simp: chat_def start_chat_def Let_def split: if_splits)
    then show ?thesis using quiet by blast
  next
    case False
    then obtain injected where injected: "c \<noteq> []" "route env text = Inr injected" by (cases "route env text") auto
    show ?thesis
    proof (cases "input_gate env text")
      case (Inl x)
      have "\<forall>t. x \<noteq> Said t" using Inl by (auto simp: input_gate_def split: option.splits sum.splits guard_exn.splits)
      with Inl injected assms(1) quiet show ?thesis by (auto simp: chat_def start_chat_def Let_def)
    next
      case (Inr t)
      show ?thesis
      proof (cases "db_open r")
        case False
        with Inr injected assms(1) quiet show ?thesis by (auto simp: chat_def start_chat_def Let_def save_message_def)
      next
        case True
        define row where "row = \<lparr>row_chat = c, row_role = ''user'', row_content = t, row_time = save_time env (length (chat_history r))\<rparr>"
        define r1 where "r1 = r\<lparr>chat_history := chat_history r @ [row]\<rparr>"
        have saved: "save_message env c ''user'' t r = Inr r1" using True by (simp add: save_message_def r1_def row_def)
        obtain ms where loaded: "load_context env c r1 = Inr ms" using True by (simp add: load_context_def r1_def)
        define st1 where "st1 = (start_chat r)\<lparr>rt := r1, messages := ms\<rparr>"
        have "rounds env c injected MAX_TOOL_ROUNDS st1 = (st, e)"
          using assms(1) injected Inr saved loaded by (simp add: chat_def Let_def st1_def)
        moreover have "\<not> hermes_mode (rt st1)" using assms(2) by (simp add: st1_def r1_def)
        ultimately obtain said tail where "adds c st1 st (said @ tail)" "answered env said" "last_reply env e tail"
          using rounds_adds by blast
        moreover have "adds c (start_chat r) st1 [(''user'', t)]"
          by (simp add: adds_def start_chat_def st1_def r1_def row_def)
        ultimately show ?thesis using adds_trans by blast
      qed
    qed
  qed
qed

definition demo_breaker :: token_breaker where
  "demo_breaker = new_token_breaker 1000 5000 60 60 0"

definition demo_router :: router where
  "demo_router = \<lparr>chat_history = [], db_open = True, token_budget = new_budget_manager None 0, circuit_breaker = demo_breaker,
     max_context = 20, has_provider = True, has_tools = True, hermes_mode = False, system_prompt = ''s'', tool_schemas = [],
     hermes_block = []\<rparr>"

text \<open>A model that asks for one tool and then says what it is.\<close>

definition demo_reply :: "nat \<Rightarrow> json" where
  "demo_reply n =
    (if n = 0 then JDict [(''stop_reason'', JStr ''tool_use''), (''content'', JList [JDict [(''type'', JStr ''text''), (''text'', JStr ''a'')],
        JDict [(''type'', JStr ''tool_use''), (''id'', JStr ''1''), (''name'', JStr ''t'')]])]
     else JDict [(''content'', JList [JDict [(''type'', JStr ''text''), (''text'', JStr ''b'')]])])"

definition demo_env :: router_env where
  "demo_env = \<lparr>sanitize = id, before_model = None, after_model = (\<lambda>_. None), route = (\<lambda>_. Inr []), loads = (\<lambda>_. None),
     json_text = (\<lambda>_. ''j''), raw_text = (\<lambda>_. ''j''), model = (\<lambda>n _ _ _. Replied (demo_reply n)), tool = (\<lambda>_ _ _. Tool_Text ''ok''),
     clock = (\<lambda>n. \<lparr>estimated_tokens = 0, t_state = real n, t_window = real n, t_restart = real n, t_trip = real n\<rparr>),
     response_time = real, save_time = real\<rparr>"

lemma demo_chat:
  "case chat demo_env ''c'' ''hi'' demo_router of
     (st, e) \<Rightarrow> e = Said ''b'' \<and> length (chat_history (rt st)) = 4 \<and> tool_runs st = [(''t'', JDict [])] \<and> length (model_calls st) = 2"
  by code_simp

lemma demo_chat_ends:
  obtains st where "chat demo_env ''c'' ''hi'' demo_router = (st, Said ''b'')" "length (chat_history (rt st)) = 4"
    "tool_runs st = [(''t'', JDict [])]" "length (model_calls st) = 2"
  using demo_chat by (auto split: prod.splits)

theorem every_tool_request_is_answered_witness:
  "\<exists>st asked said tail. chat demo_env ''c'' ''hi'' demo_router = (st, Said ''b'') \<and> length (chat_history (rt st)) = 4
     \<and> adds ''c'' (start_chat demo_router) st (asked @ said @ tail) \<and> answered demo_env said \<and> last_reply demo_env (Said ''b'') tail"
proof -
  obtain st where st: "chat demo_env ''c'' ''hi'' demo_router = (st, Said ''b'')" "length (chat_history (rt st)) = 4"
    by (rule demo_chat_ends)
  from every_tool_request_is_answered[OF st(1)] st show ?thesis by (auto simp: demo_router_def)
qed

section \<open>What the model is asked\<close>

definition setting :: "chat_state \<Rightarrow> budget_config" where
  "setting st = config (token_budget (rt st))"

text \<open>A summary takes at most fifteen hundredths of the budget.\<close>

lemma estimate_tokens_le: "4 * estimate_tokens s \<le> length s + 4"
  by (auto simp: estimate_tokens_def)

lemma summary_text_length:
  assumes "0 \<le> max_context_tokens c"
  shows "real (length (summary_text fmt c older)) \<le> of_int (max_context_tokens c) * (60/100) + 26"
proof -
  let ?m = "nat (floor (of_int (max_context_tokens c) * 4 * (15/100) :: real))"
  have m: "real ?m \<le> of_int (max_context_tokens c) * (60/100)"
  proof -
    have "0 \<le> (of_int (max_context_tokens c) * 4 * (15/100) :: real)" using assms by simp
    then have "real ?m = of_int (floor (of_int (max_context_tokens c) * 4 * (15/100) :: real))" by simp
    also have "\<dots> \<le> of_int (max_context_tokens c) * 4 * (15/100)" by linarith
    finally show ?thesis by simp
  qed
  have "length (summary_text fmt c older) \<le> ?m + 26"
    by (simp only: summary_text_def Let_def) (auto split: if_splits)
  then have "real (length (summary_text fmt c older)) \<le> real ?m + 26" by linarith
  with m show ?thesis by linarith
qed

lemma tokens_slice_from: "estimate_messages_tokens (slice_from i xs) \<le> estimate_messages_tokens xs"
  unfolding slice_from_def by (rule tokens_drop)

lemma summarize_tokens:
  assumes "summarize_older_messages fmt b ms = (b', ms')" "0 \<le> max_context_tokens (config b)"
  shows "config b' = config b
    \<and> real (estimate_messages_tokens ms') \<le> real (estimate_messages_tokens ms) + of_int (max_context_tokens (config b)) * (15/100) + 8"
proof -
  let ?sys = "filter is_system ms" and ?conv = "filter (Not \<circ> is_system) ms"
  have parts: "estimate_messages_tokens ?sys + estimate_messages_tokens ?conv = estimate_messages_tokens ms" by (rule tokens_split)
  from assms(1) consider (same) "b' = b" "ms' = ms"
    | (summed) older where "config b' = config b"
        "ms' = ?sys @ [[(''role'', JStr ''system''), (''content'', JStr (summary_text fmt (config b) older))]]
           @ slice_from (- messages_to_preserve (config b)) ?conv"
    by (auto simp: summarize_older_messages_def Let_def split: if_splits)
  then show ?thesis
  proof cases
    case same
    then show ?thesis using assms(2) by simp
  next
    case summed
    let ?sum = "[(''role'', JStr ''system''), (''content'', JStr (summary_text fmt (config b) older))] :: message"
    have "content_tokens ?sum = estimate_tokens (summary_text fmt (config b) older)"
      by (simp add: content_tokens_def dget_or_def)
    then have "4 * real (content_tokens ?sum) \<le> of_int (max_context_tokens (config b)) * (60/100) + 30"
      using estimate_tokens_le[of "summary_text fmt (config b) older"] summary_text_length[OF assms(2), of fmt older] by linarith
    moreover have "estimate_messages_tokens ms'
        \<le> estimate_messages_tokens ms + content_tokens ?sum"
      unfolding summed(2) using parts tokens_slice_from[of "- messages_to_preserve (config b)" ?conv]
      by (simp add: estimate_messages_tokens_def)
    ultimately show ?thesis using summed(1) by simp
  qed
qed

lemma truncate_tokens: "estimate_messages_tokens (truncate_older_messages b ms) \<le> estimate_messages_tokens ms"
proof -
  have "truncate_older_messages b ms = filter is_system ms @ filter (Not \<circ> is_system) ms
      \<or> truncate_older_messages b ms = filter is_system ms @ slice_from (- messages_to_preserve (config b)) (filter (Not \<circ> is_system) ms)"
    by (auto simp: truncate_older_messages_def Let_def)
  then show ?thesis
    using tokens_split[of is_system ms] tokens_slice_from[of "- messages_to_preserve (config b)" "filter (Not \<circ> is_system) ms"] by auto
qed

text \<open>What passes the budget has fewer tokens than it allows, but for a summary.\<close>

definition modest :: "budget_config \<Rightarrow> message list \<Rightarrow> bool" where
  "modest c ms \<longleftrightarrow> real (estimate_messages_tokens ms) \<le> of_int (max_context_tokens c) * (115/100) + 8"

lemma within_budget_modest:
  assumes "within_budget st = (st', ok)" "0 < max_context_tokens (setting st)"
  shows "setting st' = setting st \<and> model_calls st' = model_calls st \<and> (ok \<longrightarrow> modest (setting st) (messages st'))"
proof -
  obtain b v where v: "check_budget (token_budget (rt st)) (messages st) = (b, v)"
    by (cases "check_budget (token_budget (rt st)) (messages st)")
  have b: "config b = setting st" using v by (auto simp: check_budget_def Let_def setting_def split: if_splits)
  let ?n = "estimate_messages_tokens (messages st)"
  have small: "real ?n \<le> of_int (max_context_tokens (setting st))" if "verdict_action v \<noteq> ''reject''"
  proof -
    have "utilization (token_budget (rt st)) (messages st) < 1"
      using v that by (auto simp: check_budget_def Let_def split: if_splits)
    then show ?thesis using assms(2) by (simp add: utilization_def setting_def Let_def)
  qed
  show ?thesis
  proof (cases "verdict_action v = ''reject''")
    case True
    then show ?thesis using assms(1) v b by (auto simp: within_budget_def setting_def Let_def)
  next
    case False
    show ?thesis
    proof (cases "verdict_action v = ''summarize''")
      case True
      obtain b' ms where s: "summarize_older_messages py_str b (messages st) = (b', ms)"
        by (cases "summarize_older_messages py_str b (messages st)")
      have "config b' = setting st \<and> modest (setting st) ms"
        using summarize_tokens[OF s] assms(2) small[OF False] unfolding b modest_def by auto
      then show ?thesis using assms(1) v s True by (auto simp: within_budget_def setting_def Let_def)
    next
      case not_summed: False
      have "messages st' = messages st \<or> messages st' = truncate_older_messages b (messages st)"
        and "setting st' = setting st \<and> model_calls st' = model_calls st"
        using assms(1) v b False not_summed by (auto simp: within_budget_def setting_def Let_def split: if_splits)
      moreover have "real (estimate_messages_tokens (truncate_older_messages b (messages st))) \<le> of_int (max_context_tokens (setting st))"
        using truncate_tokens[of b "messages st"] small[OF False] by linarith
      ultimately show ?thesis using small[OF False] assms(2) unfolding modest_def by auto
    qed
  qed
qed

text \<open>Nothing else of a round changes the settings of the budget or calls the model.\<close>

definition same_calls :: "chat_state \<Rightarrow> chat_state \<Rightarrow> bool" where
  "same_calls st st' \<longleftrightarrow> setting st' = setting st \<and> model_calls st' = model_calls st"

lemma same_calls_trans: "same_calls st st1 \<Longrightarrow> same_calls st1 st2 \<Longrightarrow> same_calls st st2"
  by (simp add: same_calls_def)

lemma same_calls_refl [simp]: "same_calls st st"
  by (simp add: same_calls_def)

lemma same_calls_updates [simp]:
  "same_calls st (st'\<lparr>messages := ms\<rparr>) \<longleftrightarrow> same_calls st st'" "same_calls st (st'\<lparr>parse_errors := n\<rparr>) \<longleftrightarrow> same_calls st st'"
  "same_calls st (st'\<lparr>exec_errors := n\<rparr>) \<longleftrightarrow> same_calls st st'" "same_calls st (windowed st') \<longleftrightarrow> same_calls st st'"
  by (simp_all add: same_calls_def setting_def windowed_def)

lemma save_same_calls: "save_in_loop env c role content st = Some st' \<Longrightarrow> same_calls st st'"
  by (auto simp: save_in_loop_def save_message_def same_calls_def setting_def split: sum.splits if_splits)

lemma say_same_calls: "say_in_loop env c role content st = Some st' \<Longrightarrow> same_calls st st'"
  by (auto simp: say_in_loop_def dest!: save_same_calls)

lemma execute_same_calls: "execute_tool env name args st = (st', e) \<Longrightarrow> same_calls st st'"
  using execute_tool_frame[of env name args st st' e] by (simp add: same_calls_def setting_def)

lemma hermes_error_same_calls: "hermes_error env c content st = (st', e) \<Longrightarrow> same_calls st st'"
  by (auto simp: hermes_error_def Let_def split: if_splits option.splits dest!: say_same_calls) (simp add: same_calls_def setting_def)

lemma hermes_call_same_calls:
  assumes "hermes_call env c call st = (st', e)"
  shows "same_calls st st'"
proof -
  obtain st1 t where x: "execute_tool env (fst call) (snd call) st = (st1, t)" by (cases "execute_tool env (fst call) (snd call) st")
  have one: "same_calls st st1" by (rule execute_same_calls[OF x])
  have err: "hermes_error env c content st1 = (st', e) \<Longrightarrow> same_calls st1 st'" for content by (rule hermes_error_same_calls)
  have "same_calls st1 st'"
  proof (cases t)
    case (Tool_Text s)
    then show ?thesis using assms x
      by (auto simp: hermes_call_def Let_def same_calls_def setting_def split: option.splits dest!: say_same_calls)
  qed (use assms x err in \<open>auto simp: hermes_call_def\<close>)
  with one show ?thesis by (rule same_calls_trans)
qed

lemma hermes_calls_same_calls: "hermes_calls env c calls st = (st', e) \<Longrightarrow> same_calls st st'"
proof (induction env c calls st rule: hermes_calls.induct)
  case (2 env c x xs st)
  obtain st1 r where h: "hermes_call env c x st = (st1, r)" by (cases "hermes_call env c x st")
  have one: "same_calls st st1" by (rule hermes_call_same_calls[OF h])
  show ?case
  proof (cases r)
    case None
    then show ?thesis using 2 h same_calls_trans[OF one] by simp
  qed (use 2(2) h one in simp)
qed simp

lemma hermes_round_same_calls:
  assumes "hermes_round env c content st = (st', e)"
  shows "same_calls st st'"
proof (cases "full_text content")
  case (Inr said)
  show ?thesis
  proof (cases "extract_tool_calls (loads env) said")
    case (Inl problem)
    then show ?thesis using assms Inr by (auto simp: hermes_round_def Let_def split: if_splits)
  next
    case calls: (Inr calls)
    obtain st1 r where h: "hermes_calls env c calls (st\<lparr>parse_errors := 0\<rparr>) = (st1, r)"
      by (cases "hermes_calls env c calls (st\<lparr>parse_errors := 0\<rparr>)")
    have "same_calls st st1"
      by (rule same_calls_trans[OF _ hermes_calls_same_calls[OF h]]) simp
    then show ?thesis using assms Inr calls h by (auto simp: hermes_round_def split: if_splits option.splits)
  qed
qed (use assms in \<open>simp add: hermes_round_def\<close>)

lemma native_round_same_calls:
  assumes "native_round env c reply content st = (st', e)"
  shows "same_calls st st'"
proof -
  have run: "same_calls st st1" if "run_blocks env bs st = (st1, r)" for bs st1 r
    using run_blocks_frame[OF that] by (simp add: same_calls_def setting_def)
  show ?thesis
  proof (cases "iterate content")
    case (Inr bs)
    obtain st1 r where rb: "run_blocks env bs st = (st1, r)" by (cases "run_blocks env bs st")
    show ?thesis
      using assms Inr rb run[OF rb]
      by (auto simp: native_round_def split: if_splits sum.splits option.splits dest!: save_same_calls intro: same_calls_trans)
  qed (use assms in \<open>auto simp: native_round_def split: if_splits\<close>)
qed

lemma take_reply_same_calls:
  assumes "take_reply env c n pre content st = (st', ok)"
  shows "same_calls st st'"
proof -
  let ?used = "pre + int (estimate_tokens (json_text env content))"
  let ?st1 = "st\<lparr>rt := (rt st)\<lparr>token_budget := record_usage (token_budget (rt st)) ?used,
      circuit_breaker := record_response (circuit_breaker (rt st)) ?used (response_time env n)\<rparr>\<rparr>"
  have "same_calls st ?st1" by (simp add: same_calls_def setting_def record_usage_def)
  moreover have "same_calls ?st1 st'"
    using assms save_same_calls[of env c "''assistant''" "json_text env content" ?st1]
    by (auto simp: take_reply_def Let_def split: option.splits)
  ultimately show ?thesis by (rule same_calls_trans)
qed

text \<open>A round calls the model at most once, with messages within the budget.\<close>

lemma chat_round_calls:
  assumes "chat_round env c injected n st = (st', e)" "0 < max_context_tokens (setting st)"
  shows "setting st' = setting st \<and> (model_calls st' = model_calls st
    \<or> (\<exists>ms tools system. model_calls st' = model_calls st @ [(ms, tools, system)] \<and> modest (setting st) ms))"
proof -
  obtain st1 ok1 where b: "within_budget st = (st1, ok1)" by (cases "within_budget st")
  obtain st2 ok2 where a: "admitted env injected n st1 = (st2, ok2)" by (cases "admitted env injected n st1")
  obtain st3 m where cm: "call_model env injected n st2 = (st3, m)" by (cases "call_model env injected n st2")
  have s1: "same_calls st st1" and modest: "ok1 \<Longrightarrow> modest (setting st) (messages st1)"
    using within_budget_modest[OF b assms(2)] by (auto simp: same_calls_def)
  have s2: "same_calls st1 st2" "messages st2 = messages st1"
    using a by (auto simp: admitted_def Let_def same_calls_def setting_def split: prod.splits)
  have s3: "setting st3 = setting st2" "model_calls st3 = model_calls st2
      \<or> (\<exists>tools system. model_calls st3 = model_calls st2 @ [(messages st2, tools, system)])"
    using cm by (auto simp: call_model_def Let_def setting_def split: if_splits)
  show ?thesis
  proof (cases "ok1 \<and> ok2")
    case False
    then have "st' = st1 \<or> st' = st2" using assms(1) b a by (cases ok1) (auto simp: chat_round_def)
    then show ?thesis using s1 s2(1) by (auto simp: same_calls_def)
  next
    case True
    have "same_calls st3 st'"
    proof (cases "\<exists>reply. m = Replied (JDict reply)")
      case False
      then have "st' = st3" using assms(1) b a cm True by (auto simp: chat_round_def split: model_end.splits json.splits)
      then show ?thesis by simp
    next
      case replied: True
      then obtain reply where m: "m = Replied (JDict reply)" by blast
      let ?content = "dget_or reply ''content'' (JList [])"
      obtain st4 ok where t: "take_reply env c n (pre_call_tokens injected st1) ?content st3 = (st4, ok)"
        by (cases "take_reply env c n (pre_call_tokens injected st1) ?content st3")
      have "same_calls st4 st'"
        using assms(1) True hermes_round_same_calls[of env c ?content st4 st' e] native_round_same_calls[of env c reply ?content st4 st' e]
        unfolding chat_round_def b a prod.case cm m by (cases ok) (auto simp: t Let_def split: if_splits)
      with take_reply_same_calls[OF t] show ?thesis by (rule same_calls_trans)
    qed
    then show ?thesis using s1 s2 s3 modest True by (auto simp: same_calls_def)
  qed
qed

lemma rounds_calls:
  assumes "rounds env c injected n st = (st', e)" "0 < max_context_tokens (setting st)"
  shows "\<exists>calls. model_calls st' = model_calls st @ calls \<and> length calls \<le> n \<and> (\<forall>(ms, tools, system) \<in> set calls. modest (setting st) ms)"
  using assms
proof (induction n arbitrary: st)
  case (Suc n)
  obtain st1 r where cr: "chat_round env c injected (MAX_TOOL_ROUNDS - Suc n) st = (st1, r)"
    by (cases "chat_round env c injected (MAX_TOOL_ROUNDS - Suc n) st")
  have set1: "setting st1 = setting st" using chat_round_calls[OF cr Suc.prems(2)] by simp
  obtain calls1 where one: "model_calls st1 = model_calls st @ calls1" "length calls1 \<le> 1" "\<forall>(ms, tools, system) \<in> set calls1. modest (setting st) ms"
    using chat_round_calls[OF cr Suc.prems(2)] by fastforce
  show ?case
  proof (cases r)
    case None
    then have "rounds env c injected n st1 = (st', e)" using Suc.prems(1) cr by simp
    from Suc.IH[OF this] Suc.prems(2) set1 obtain calls where
      "model_calls st' = model_calls st1 @ calls" "length calls \<le> n" "\<forall>(ms, tools, system) \<in> set calls. modest (setting st) ms" by auto
    then show ?thesis using one by (intro exI[of _ "calls1 @ calls"]) auto
  next
    case (Some x)
    then show ?thesis using Suc.prems(1) cr one by (intro exI[of _ calls1]) auto
  qed
qed simp

text \<open>
  C34: however the model answers, a call of \<open>chat\<close> asks it at most ten times, and each time with messages whose estimate is
  within the budget but for the fifteen hundredths that a summary may take.
\<close>

theorem chat_calls_are_bounded:
  assumes "chat env c text r = (st, e)" and "0 < max_context_tokens (config (token_budget r))"
  shows "length (model_calls st) \<le> 10 \<and> (\<forall>(ms, tools, system) \<in> set (model_calls st).
    real (estimate_messages_tokens ms) \<le> of_int (max_context_tokens (config (token_budget r))) * (115/100) + 8)"
proof (cases "\<exists>st1 injected. rounds env c injected MAX_TOOL_ROUNDS st1 = (st, e) \<and> model_calls st1 = [] \<and> setting st1 = config (token_budget r)")
  case True
  then obtain st1 injected where r: "rounds env c injected MAX_TOOL_ROUNDS st1 = (st, e)" and st1: "model_calls st1 = []"
    "setting st1 = config (token_budget r)" by blast
  from rounds_calls[OF r] assms(2) st1 show ?thesis by (auto simp: MAX_TOOL_ROUNDS_def modest_def)
next
  case False
  have "model_calls st = []"
  proof (rule ccontr)
    assume "model_calls st \<noteq> []"
    with assms(1) obtain injected r1 ms where "rounds env c injected MAX_TOOL_ROUNDS ((start_chat r)\<lparr>rt := r1, messages := ms\<rparr>) = (st, e)"
      and "save_message env c ''user'' (projr (input_gate env text)) r = Inr r1"
      by (auto simp: chat_def start_chat_def Let_def split: if_splits sum.splits)
    then have "rounds env c injected MAX_TOOL_ROUNDS ((start_chat r)\<lparr>rt := r1, messages := ms\<rparr>) = (st, e)"
      "token_budget r1 = token_budget r"
      by (auto simp: save_message_def split: if_splits)
    moreover have "model_calls ((start_chat r)\<lparr>rt := r1, messages := ms\<rparr>) = []" by (simp add: start_chat_def)
    ultimately show False using False unfolding setting_def by fastforce
  qed
  then show ?thesis by simp
qed

theorem chat_calls_are_bounded_witness:
  "\<exists>st. chat demo_env ''c'' ''hi'' demo_router = (st, Said ''b'') \<and> length (model_calls st) = 2
    \<and> (\<forall>(ms, tools, system) \<in> set (model_calls st). real (estimate_messages_tokens ms) \<le> 32000 * (115/100) + 8)"
proof -
  obtain st where st: "chat demo_env ''c'' ''hi'' demo_router = (st, Said ''b'')" "length (model_calls st) = 2"
    by (rule demo_chat_ends)
  from chat_calls_are_bounded[OF st(1)] st show ?thesis
    by (auto simp: demo_router_def new_budget_manager_def default_config_def)
qed

text \<open>The estimate counts only texts, so the results of tools, and the calls, are free.\<close>

lemma tool_results_are_free: "estimate_messages_tokens [said_by role (JList (map (\<lambda>(i, s). tool_result env i s) xs))] = 0"
proof -
  have "part_tokens (tool_result env i s) = 0" for i s
    by (simp add: part_tokens_def tool_result_def dget_or_def estimate_tokens_def)
  then show ?thesis
    by (simp add: estimate_messages_tokens_def content_tokens_def said_by_def dget_or_def comp_def case_prod_unfold)
qed

text \<open>The window counts messages, not rounds: it may keep the results of a tool without the call they answer.\<close>

lemma window_splits_a_round:
  "messages (windowed (st\<lparr>rt := (rt st)\<lparr>max_context := 1\<rparr>, messages := [said_by ''assistant'' call, said_by ''user'' (JList results)]\<rparr>))
   = [said_by ''user'' (JList results)]"
  by (simp add: windowed_def slice_from_def)

text \<open>A block without a name leaves the call of the model in the history without results, for the next \<open>chat\<close> to load.\<close>

lemma nameless_call_stays_unanswered:
  "run_blocks env [JDict [(''type'', JStr ''tool_use''), (''id'', i)]] st = (st, Inl (Notice Critical_Error))"
  by simp

text \<open>The third error of the same kind in a row ends the text mode.\<close>

lemma third_parse_error_ends:
  assumes "full_text content = Inr said" "has_tool_calls said" "extract_tool_calls (loads env) said = Inl problem" "2 \<le> parse_errors st"
  shows "snd (hermes_round env c content st) = Some (Notice Parse_Retries)"
  using assms by (simp add: hermes_round_def Let_def MAX_HERMES_RETRIES_def)

lemma third_exec_error_ends: "2 \<le> exec_errors st \<Longrightarrow> snd (hermes_error env c content st) = Some (Notice Exec_Retries)"
  by (simp add: hermes_error_def Let_def MAX_HERMES_RETRIES_def)

text \<open>Placeholders and short keys are refused.\<close>

lemma valid_key_is_long: "is_valid_api_key (Some k) \<Longrightarrow> 8 \<le> length (strip k) \<and> 2 < card (set (strip k))"
  by (auto simp: is_valid_api_key_def Let_def length_remdups_card_conv)

end
