(* ===== verification/Network_Gateway.thy ===== *)
theory Network_Gateway
  imports Urls
begin

text \<open>
  \<open>sky_claw/antigravity/security/network_gateway.py\<close>: the egress policy, the authorisation of a request,
  the request loop that follows redirects, and the resolver that pins validated addresses.  The HTTP
  session (aiohttp) and the DNS are parameters; \<open>request\<close> returns, beside the response, the requests it
  sent.  The frozenset of allowed hosts is a list in the order it is iterated.
\<close>

section \<open>Policy\<close>

record egress_policy =
  allowed_hosts :: "string list"
  allowed_methods :: "(string, string list) dict"
  telegram_path_prefix :: string
  block_private_ips :: bool

definition ALLOWED_HOSTS :: "string list" where
  "ALLOWED_HOSTS = [''api.deepseek.com'', ''api.openai.com'', ''api.telegram.org'', ''www.nexusmods.com'',
     ''api.nexusmods.com'', ''premium-files.nexusmods.com'', ''cf-files.nexusmods.com'', ''staticdelivery.nexusmods.com'',
     ''api.github.com'', ''raw.githubusercontent.com'', ''api.anthropic.com'', ''www.reddit.com'']"

definition ALLOWED_METHODS :: "(string, string list) dict" where
  "ALLOWED_METHODS = [(''api.nexusmods.com'', [''GET'', ''POST'', ''HEAD'']), (''raw.githubusercontent.com'', [''GET'']),
     (''api.anthropic.com'', [''POST'']), (''api.deepseek.com'', [''POST'']), (''api.openai.com'', [''POST'']),
     (''api.telegram.org'', [''GET'', ''POST'']), (''api.github.com'', [''GET'']), (''www.nexusmods.com'', [''GET'']),
     (''premium-files.nexusmods.com'', [''GET'']), (''cf-files.nexusmods.com'', [''GET'']),
     (''staticdelivery.nexusmods.com'', [''GET'']), (''www.reddit.com'', [''GET''])]"

definition default_policy :: egress_policy where
  "default_policy = \<lparr>allowed_hosts = ALLOWED_HOSTS, allowed_methods = ALLOWED_METHODS,
     telegram_path_prefix = ''/bot'', block_private_ips = True\<rparr>"

text \<open>The ways a request ends badly; \<open>Uncaught_Value_Error\<close> is no \<open>EgressViolationError\<close>.\<close>

datatype egress_error =
    Whitespace | Control_Chars | Bad_Prefix | Malformed | No_Hostname | Private_Address | Insecure_Scheme
  | Host_Not_Allowed | Method_Not_Allowed | Telegram_Path | Redirect_Limit | Gateway_Timeout
  | Uncaught_Value_Error | Session_Error string

section \<open>The checks\<close>

definition blocked_ip :: "ip \<Rightarrow> bool" where
  "blocked_ip a \<longleftrightarrow> is_private a \<or> is_loopback a \<or> is_link_local a"

definition is_loopback_host :: "string \<Rightarrow> bool" where
  "is_loopback_host h =
    (if h = [] then False
     else if lower h \<in> {''localhost'', ''127.0.0.1'', ''::1''} then True
     else case ip_address (lower h) of None \<Rightarrow> False | Some a \<Rightarrow> is_loopback a)"

definition host_of :: "url \<Rightarrow> string" where
  "host_of u = (case url_hostname u of None \<Rightarrow> [] | Some h \<Rightarrow> h)"

definition scheme_ok :: "url \<Rightarrow> bool" where
  "scheme_ok u \<longleftrightarrow> scheme u = ''https'' \<or> scheme u = ''http'' \<and> is_loopback_host (host_of u)"

definition pattern_matches :: "string \<Rightarrow> string \<Rightarrow> bool" where
  "pattern_matches pattern hostname =
    (let p = lower pattern; h = lower hostname in
     if starts_with ''*.'' p then ends_with (''.'' @ drop 2 p) h else h = p)"

definition matching_pattern :: "egress_policy \<Rightarrow> string \<Rightarrow> string option" where
  "matching_pattern pol hostname = find (\<lambda>p. pattern_matches p hostname) (allowed_hosts pol)"

definition method_ok :: "egress_policy \<Rightarrow> string \<Rightarrow> string \<Rightarrow> bool" where
  "method_ok pol method hostname =
    (case matching_pattern pol hostname of None \<Rightarrow> True
     | Some p \<Rightarrow> (case dget (allowed_methods pol) p of None \<Rightarrow> True | Some ms \<Rightarrow> method \<in> set ms))"

definition telegram_ok :: "egress_policy \<Rightarrow> string \<Rightarrow> string \<Rightarrow> bool" where
  "telegram_ok pol hostname path = (hostname = ''api.telegram.org'' \<longrightarrow> starts_with (telegram_path_prefix pol) path)"

definition private_literal :: "egress_policy \<Rightarrow> string \<Rightarrow> bool" where
  "private_literal pol hostname =
    (case ip_address hostname of None \<Rightarrow> False | Some a \<Rightarrow> block_private_ips pol \<and> blocked_ip a)"

text \<open>\<open>^https?://(?:[a-zA-Z0-9]|\[)\<close>\<close>

definition strict_prefix :: "string \<Rightarrow> bool" where
  "strict_prefix s =
    (let rest = (if starts_with ''https://'' s then drop 8 s else if starts_with ''http://'' s then drop 7 s else []) in
     rest \<noteq> [] \<and> (ascii_letter (hd rest) \<or> digit (hd rest) \<or> hd rest = CHR ''[''))"

definition authorize :: "egress_policy \<Rightarrow> string \<Rightarrow> string \<Rightarrow> egress_error + unit" where
  "authorize pol method u =
    (let m = upper method; stripped = strip u in
     if stripped \<noteq> u then Inl Whitespace
     else if list_ex (\<lambda>c. code c \<le> 32 \<or> code c \<ge> 127) stripped then Inl Control_Chars
     else if \<not> strict_prefix stripped then Inl Bad_Prefix
     else case urlparse stripped of
       None \<Rightarrow> Inl Malformed
     | Some parsed \<Rightarrow>
        let hostname = lower (host_of parsed) in
        if hostname = [] then Inl No_Hostname
        else if private_literal pol hostname then Inl Private_Address
        else if \<not> scheme_ok parsed then Inl Insecure_Scheme
        else if matching_pattern pol hostname = None then Inl Host_Not_Allowed
        else if \<not> method_ok pol m hostname then Inl Method_Not_Allowed
        else if \<not> telegram_ok pol hostname (url_path parsed) then Inl Telegram_Path
        else Inr ())"

section \<open>Requests\<close>

datatype reply = Timed_Out | Broken string | Response nat "string option"

text \<open>One request sent: the method, the URL, and whether certificate checks are off.\<close>

type_synonym sent = "string \<times> string \<times> bool"

definition redirect_status :: "nat \<Rightarrow> bool" where
  "redirect_status s \<longleftrightarrow> s \<in> {301, 302, 303, 307, 308}"

text \<open>A relative location is appended to scheme and authority of the current URL.\<close>

definition resolve_location :: "string \<Rightarrow> string \<Rightarrow> egress_error + string" where
  "resolve_location current location =
    (case urlparse location of
       None \<Rightarrow> Inl Uncaught_Value_Error
     | Some l \<Rightarrow>
         if netloc l \<noteq> [] then Inr location
         else (case urlparse current of None \<Rightarrow> Inl Uncaught_Value_Error
               | Some base \<Rightarrow> Inr (scheme base @ ''://'' @ netloc base @ location)))"

definition check_hop :: "egress_policy \<Rightarrow> string list option \<Rightarrow> nat \<Rightarrow> string \<Rightarrow> string \<Rightarrow> egress_error + unit" where
  "check_hop pol redirect_hosts hop method u =
    (case (if hop > 0 then redirect_hosts else None) of
       None \<Rightarrow> authorize pol method u
     | Some hosts \<Rightarrow>
        (case urlparse u of
           None \<Rightarrow> Inl Uncaught_Value_Error
         | Some parsed \<Rightarrow>
            let h = lower (host_of parsed) in
            if h \<notin> set hosts then authorize pol method u
            else if \<not> scheme_ok parsed then Inl Insecure_Scheme
            else if private_literal pol h then Inl Private_Address
            else Inr ()))"

text \<open>The loop over the hops: \<open>n\<close> of them are left.\<close>

fun request_hops ::
  "egress_policy \<Rightarrow> (sent \<Rightarrow> 'w \<Rightarrow> 'w \<times> reply) \<Rightarrow> string list option \<Rightarrow> string \<Rightarrow> nat \<Rightarrow> nat \<Rightarrow> string \<Rightarrow> 'w \<Rightarrow>
   'w \<times> sent list \<times> (egress_error + nat)" where
  "request_hops pol session hosts method hop 0 u w = (w, [], Inl Redirect_Limit)"
| "request_hops pol session hosts method hop (Suc n) u w =
    (case check_hop pol hosts hop method u of
       Inl e \<Rightarrow> (w, [], Inl e)
     | Inr _ \<Rightarrow>
        (case urlparse u of
           None \<Rightarrow> (w, [], Inl Uncaught_Value_Error)
         | Some parsed \<Rightarrow>
            if \<not> scheme_ok parsed then (w, [], Inl Insecure_Scheme)
            else
              let s = (method, u, is_loopback_host (host_of parsed) \<and> scheme parsed = ''http'') in
              (case session s w of
                 (w', Timed_Out) \<Rightarrow> (w', [s], Inl Gateway_Timeout)
               | (w', Broken e) \<Rightarrow> (w', [s], Inl (Session_Error e))
               | (w', Response status location) \<Rightarrow>
                  if redirect_status status \<and> nonempty location then
                    (case resolve_location u (the location) of
                       Inl e \<Rightarrow> (w', [s], Inl e)
                     | Inr next_url \<Rightarrow>
                        (let (w'', ss, r) = request_hops pol session hosts method (Suc hop) n next_url w'
                         in (w'', s # ss, r)))
                  else (w', [s], Inr status))))"

definition gateway_request ::
  "egress_policy \<Rightarrow> (sent \<Rightarrow> 'w \<Rightarrow> 'w \<times> reply) \<Rightarrow> string \<Rightarrow> string \<Rightarrow> nat \<Rightarrow> string list option \<Rightarrow> 'w \<Rightarrow>
   'w \<times> sent list \<times> (egress_error + nat)" where
  "gateway_request pol session method u max_redirects hosts w =
     request_hops pol session hosts method 0 (max_redirects + 1) u w"

fun validate_redirection_chain :: "egress_policy \<Rightarrow> string list \<Rightarrow> egress_error + unit" where
  "validate_redirection_chain pol [] = Inr ()"
| "validate_redirection_chain pol (u # us) =
    (case authorize pol ''GET'' u of
       Inl e \<Rightarrow> Inl e
     | Inr _ \<Rightarrow> (case urlparse u of
          None \<Rightarrow> Inl Uncaught_Value_Error
        | Some p \<Rightarrow> if scheme p \<noteq> ''https'' then Inl Insecure_Scheme else validate_redirection_chain pol us))"

section \<open>The resolver\<close>

record resolved_host =
  res_hostname :: string
  res_host :: string
  res_port :: int

type_synonym pins = "(string \<times> int, resolved_host list) dict"

definition MAX_PINNED_ENTRIES :: nat where
  "MAX_PINNED_ENTRIES = 1024"

datatype resolve_error = Dns_Failure | Unparsable_Address | Egress_Private ip

text \<open>\<open>infos\<close> is what \<open>getaddrinfo\<close> answers: addresses with ports, or a failure.\<close>

fun validated :: "egress_policy \<Rightarrow> string \<Rightarrow> (string \<times> int) list \<Rightarrow> resolve_error + resolved_host list" where
  "validated pol host [] = Inr []"
| "validated pol host ((a, p) # rest) =
    (case ip_address a of
       None \<Rightarrow> Inl Unparsable_Address
     | Some i \<Rightarrow> if block_private_ips pol \<and> blocked_ip i then Inl (Egress_Private i)
         else (case validated pol host rest of Inl e \<Rightarrow> Inl e
               | Inr rs \<Rightarrow> Inr (\<lparr>res_hostname = host, res_host = a, res_port = p\<rparr> # rs)))"

definition resolve_host ::
  "egress_policy \<Rightarrow> string \<Rightarrow> int \<Rightarrow> (string \<times> int) list option \<Rightarrow> pins \<Rightarrow> pins \<times> (resolve_error + resolved_host list)" where
  "resolve_host pol host port infos pinned =
    (case dget pinned (host, port) of
       Some rs \<Rightarrow> (ddel (host, port) pinned @ [((host, port), rs)], Inr rs)
     | None \<Rightarrow>
        (case infos of
           None \<Rightarrow> (pinned, Inl Dns_Failure)
         | Some [] \<Rightarrow> (pinned, Inl Dns_Failure)
         | Some xs \<Rightarrow>
            (case validated pol host xs of
               Inl e \<Rightarrow> (pinned, Inl e)
             | Inr rs \<Rightarrow>
                 let p1 = dset (host, port) rs pinned in
                 (if length p1 > MAX_PINNED_ENTRIES then tl p1 else p1, Inr rs))))"

section \<open>What an authorised URL is\<close>

lemma authorizeD:
  assumes "authorize pol method u = Inr ()"
  obtains p where "urlparse u = Some p" and "scheme_ok p" and "lower (host_of p) \<noteq> []"
    and "\<not> private_literal pol (lower (host_of p))" and "matching_pattern pol (lower (host_of p)) \<noteq> None"
    and "method_ok pol (upper method) (lower (host_of p))" and "telegram_ok pol (lower (host_of p)) (url_path p)"
    and "list_all (\<lambda>c. 32 < code c \<and> code c < 127) u"
proof -
  have strip: "strip u = u" using assms by (auto simp: authorize_def Let_def split: if_splits)
  have chars: "list_all (\<lambda>c. 32 < code c \<and> code c < 127) u"
    using assms unfolding authorize_def strip Let_def by (auto simp: list_ex_iff list_all_iff not_le split: if_splits)
  obtain p where p: "urlparse u = Some p"
    using assms unfolding authorize_def strip Let_def by (auto split: if_splits option.splits)
  show thesis
    by (rule that[OF p]) (use assms chars in \<open>auto simp: authorize_def strip Let_def p split: if_splits\<close>)
qed

lemma matching_patternD:
  assumes "matching_pattern pol h \<noteq> None"
  shows "\<exists>pat \<in> set (allowed_hosts pol). lower h = lower pat \<or> (\<exists>sub base. lower pat = ''*.'' @ base \<and> lower h = sub @ ''.'' @ base)"
proof -
  obtain pat where pat: "pat \<in> set (allowed_hosts pol)" "pattern_matches pat h"
    using assms by (auto simp: matching_pattern_def find_Some_iff dest: nth_mem)
  have "lower h = lower pat \<or> (\<exists>sub base. lower pat = ''*.'' @ base \<and> lower h = sub @ ''.'' @ base)"
  proof (cases "starts_with ''*.'' (lower pat)")
    case True
    then obtain base where "lower pat = ''*.'' @ base" by (auto simp: starts_with_iff)
    with pat(2) True show ?thesis by (auto simp: pattern_matches_def ends_with_iff)
  qed (use pat(2) in \<open>simp add: pattern_matches_def\<close>)
  with pat(1) show ?thesis by blast
qed

lemma default_hosts_plain: "pat \<in> set ALLOWED_HOSTS \<Longrightarrow> lower pat = pat \<and> \<not> starts_with ''*.'' pat \<and> \<not> is_loopback_host pat"
proof -
  have "list_all (\<lambda>pat. lower pat = pat \<and> \<not> starts_with ''*.'' pat \<and> \<not> is_loopback_host pat) ALLOWED_HOSTS"
    by code_simp
  then show "pat \<in> set ALLOWED_HOSTS \<Longrightarrow> lower pat = pat \<and> \<not> starts_with ''*.'' pat \<and> \<not> is_loopback_host pat"
    by (simp add: list_all_iff)
qed

lemma scheme_ok_cases: "scheme_ok p \<longleftrightarrow> scheme p = ''https'' \<or> scheme p = ''http'' \<and> is_loopback_host (host_of p)"
  by (simp add: scheme_ok_def)

lemma lower_host_of: "is_loopback_host (lower h) = is_loopback_host h"
proof -
  have "lower h = [] \<longleftrightarrow> h = []" by (simp add: lower_def)
  then show ?thesis by (simp only: is_loopback_host_def lower_lower)
qed

text \<open>
  Under the default policy an authorised URL is printable ASCII, is fetched over https from one of
  the twelve listed hosts exactly, with a method listed for that host, and on the Telegram host only
  below \<open>/bot\<close>; no URL with an address for a host passes.
\<close>

theorem default_policy_is_tight:
  assumes "authorize default_policy method u = Inr ()"
  shows "\<exists>p. urlparse u = Some p \<and> scheme p = ''https'' \<and> lower (host_of p) \<in> set ALLOWED_HOSTS
    \<and> (\<exists>ms. dget ALLOWED_METHODS (lower (host_of p)) = Some ms \<and> upper method \<in> set ms)
    \<and> (lower (host_of p) = ''api.telegram.org'' \<longrightarrow> (\<exists>t. url_path p = ''/bot'' @ t))
    \<and> list_all (\<lambda>c. 32 < code c \<and> code c < 127) u"
proof -
  obtain p where p: "urlparse u = Some p" and sc: "scheme_ok p" and m: "matching_pattern default_policy (lower (host_of p)) \<noteq> None"
    and meth: "method_ok default_policy (upper method) (lower (host_of p))"
    and tel: "telegram_ok default_policy (lower (host_of p)) (url_path p)"
    and ascii: "list_all (\<lambda>c. 32 < code c \<and> code c < 127) u"
    by (rule authorizeD[OF assms])
  let ?h = "lower (host_of p)"
  have exact: "?h = pat" if "pattern_matches pat ?h" "pat \<in> set ALLOWED_HOSTS" for pat
    using that default_hosts_plain[OF that(2)] by (simp add: pattern_matches_def)
  obtain pat where mp: "matching_pattern default_policy ?h = Some pat" using m by blast
  then have pat: "pattern_matches pat ?h" "pat \<in> set ALLOWED_HOSTS"
    by (auto simp: matching_pattern_def find_Some_iff default_policy_def)
  have h: "?h = pat" by (rule exact[OF pat])
  have "\<not> is_loopback_host (host_of p)"
    using default_hosts_plain[OF pat(2)] h lower_host_of[of "host_of p"] by simp
  then have "scheme p = ''https''" using sc by (simp add: scheme_ok_cases)
  moreover have "\<exists>ms. dget ALLOWED_METHODS pat = Some ms"
  proof -
    have "list_all (\<lambda>h. dget ALLOWED_METHODS h \<noteq> None) ALLOWED_HOSTS" by code_simp
    then show ?thesis using pat(2) by (auto simp: list_all_iff)
  qed
  ultimately show ?thesis
    using p h pat(2) meth mp tel ascii
    by (auto simp: method_ok_def telegram_ok_def default_policy_def starts_with_iff split: option.splits)
qed

section \<open>What is sent\<close>

definition cleared :: "egress_policy \<Rightarrow> string list option \<Rightarrow> string \<Rightarrow> string \<Rightarrow> bool" where
  "cleared pol hosts method u \<longleftrightarrow> authorize pol method u = Inr ()
    \<or> (case (hosts, urlparse u) of (Some hs, Some p) \<Rightarrow> lower (host_of p) \<in> set hs \<and> \<not> private_literal pol (lower (host_of p))
       | _ \<Rightarrow> False)"

lemma check_hopD:
  assumes "check_hop pol hosts hop method u = Inr ()"
  shows "cleared pol hosts method u" and "hop = 0 \<Longrightarrow> authorize pol method u = Inr ()"
  using assms by (auto simp: check_hop_def cleared_def Let_def split: option.splits if_splits)

lemma hops_sent:
  "request_hops pol session hosts verb hop n u w = (w', ss, r) \<Longrightarrow>
   length ss \<le> n \<and> (\<forall>s \<in> set ss. fst s = verb \<and> cleared pol hosts verb (fst (snd s))
     \<and> (\<exists>p. urlparse (fst (snd s)) = Some p \<and> scheme_ok p
          \<and> (snd (snd s) \<longleftrightarrow> is_loopback_host (host_of p) \<and> scheme p = ''http'')))
   \<and> (hop = 0 \<longrightarrow> ss \<noteq> [] \<longrightarrow> fst (snd (hd ss)) = u \<and> authorize pol verb u = Inr ())"
proof (induction pol session hosts verb hop n u w arbitrary: w' ss r rule: request_hops.induct)
  case (2 pol session hosts verb hop n u w)
  show ?case
  proof (cases "check_hop pol hosts hop verb u")
    case (Inr x)
    then have c: "check_hop pol hosts hop verb u = Inr ()" by simp
    show ?thesis
    proof (cases "urlparse u")
      case (Some parsed)
      show ?thesis
      proof (cases "scheme_ok parsed")
        case True
        let ?s = "(verb, u, is_loopback_host (host_of parsed) \<and> scheme parsed = ''http'')"
        have this1: "fst ?s = verb \<and> cleared pol hosts verb (fst (snd ?s))
          \<and> (\<exists>p. urlparse (fst (snd ?s)) = Some p \<and> scheme_ok p
            \<and> (snd (snd ?s) \<longleftrightarrow> is_loopback_host (host_of p) \<and> scheme p = ''http''))"
          using check_hopD(1)[OF c] Some True by simp
        obtain w1 rep where sess: "session ?s w = (w1, rep)" by fastforce
        show ?thesis
        proof (cases "\<exists>status loc next_url. rep = Response status loc \<and> redirect_status status \<and> nonempty loc
            \<and> resolve_location u (the loc) = Inr next_url")
          case True
          then obtain status loc next_url where rep: "rep = Response status loc" and red: "redirect_status status" "nonempty loc"
            and nx: "resolve_location u (the loc) = Inr next_url" by blast
          obtain w2 ss' r' where rest: "request_hops pol session hosts verb (Suc hop) n next_url w1 = (w2, ss', r')"
            by (metis surj_pair)
          have ss: "ss = ?s # ss'"
            using 2(2) c Some \<open>scheme_ok parsed\<close> sess rep red nx rest by simp
          have ih: "length ss' \<le> n \<and> (\<forall>s \<in> set ss'. fst s = verb \<and> cleared pol hosts verb (fst (snd s))
            \<and> (\<exists>p. urlparse (fst (snd s)) = Some p \<and> scheme_ok p
              \<and> (snd (snd s) \<longleftrightarrow> is_loopback_host (host_of p) \<and> scheme p = ''http'')))"
            using 2(1)[OF c Some _ refl sess[symmetric] rep _ nx rest] \<open>scheme_ok parsed\<close> red by simp
          show ?thesis unfolding ss using ih this1 check_hopD(2)[OF c] by auto
        next
          case False
          have "ss = [?s]"
            using 2(2) c Some \<open>scheme_ok parsed\<close> sess False
            by (cases rep) (auto simp: Let_def split: if_splits sum.splits)
          then show ?thesis using this1 check_hopD(2)[OF c] by auto
        qed
      qed (use 2(2) c Some in simp)
    qed (use 2(2) c in simp)
  qed (use 2(2) in simp)
qed simp

text \<open>
  C10: whatever the servers answer, every request the gateway sends was cleared by the policy: it is
  https, or http to a loopback host, its URL passed the full authorisation or, after a redirect, names
  one of the redirect hosts and no private address; certificate checks are off only for http to a
  loopback host; the first request goes to the given, authorised URL, and at most
  \<open>max_redirects + 1\<close> requests are sent.
\<close>

theorem every_request_is_cleared:
  assumes "gateway_request pol session method u max_redirects hosts w = (w', ss, r)"
  shows "length ss \<le> max_redirects + 1
    \<and> (\<forall>s \<in> set ss. fst s = method \<and> cleared pol hosts method (fst (snd s))
        \<and> (\<exists>p. urlparse (fst (snd s)) = Some p \<and> scheme_ok p
            \<and> (snd (snd s) \<longleftrightarrow> is_loopback_host (host_of p) \<and> scheme p = ''http'')))
    \<and> (ss = [] \<or> fst (snd (hd ss)) = u \<and> authorize pol method u = Inr ())"
  using hops_sent[OF assms[unfolded gateway_request_def]] by auto

section \<open>Pinned addresses\<close>

definition public_host :: "egress_policy \<Rightarrow> resolved_host \<Rightarrow> bool" where
  "public_host pol r \<longleftrightarrow>
    (case ip_address (res_host r) of None \<Rightarrow> False | Some i \<Rightarrow> \<not> (block_private_ips pol \<and> blocked_ip i))"

definition public_pins :: "egress_policy \<Rightarrow> pins \<Rightarrow> bool" where
  "public_pins pol pinned \<longleftrightarrow> list_all (\<lambda>x. list_all (public_host pol) (snd x)) pinned"

definition pins_ok :: "egress_policy \<Rightarrow> pins \<Rightarrow> bool" where
  "pins_ok pol pinned \<longleftrightarrow> distinct (keys pinned) \<and> length pinned \<le> MAX_PINNED_ENTRIES \<and> public_pins pol pinned"

text \<open>A run of the resolver: queries with what the DNS would answer to each.\<close>

fun resolve_all :: "egress_policy \<Rightarrow> (string \<times> int \<times> (string \<times> int) list option) list \<Rightarrow> pins \<Rightarrow> pins" where
  "resolve_all pol [] pinned = pinned"
| "resolve_all pol ((h, p, infos) # qs) pinned = resolve_all pol qs (fst (resolve_host pol h p infos pinned))"

lemma validated_public:
  "validated pol host infos = Inr rs \<Longrightarrow> list_all (public_host pol) rs"
  by (induction pol host infos arbitrary: rs rule: validated.induct)
    (auto simp: public_host_def split: option.splits if_splits sum.splits)

lemma length_ddel: "distinct (keys d) \<Longrightarrow> dget d k = Some v \<Longrightarrow> Suc (length (ddel k d)) = length d"
proof (induction d)
  case (Cons a d)
  have "ddel k d = d" if "k \<notin> set (keys d)" using that by (simp add: delete_id)
  with Cons show ?case by (auto simp: AList.delete_eq filter_id_conv split: if_splits)
qed simp

lemma keys_ddel: "keys (ddel k d) = filter (\<lambda>x. x \<noteq> k) (keys d)"
  by (induction d) auto

lemma list_all_ddel: "list_all P d \<Longrightarrow> list_all P (ddel k d)"
  by (induction d) auto

lemma resolve_miss:
  assumes "dget pinned (h, p) = None"
  obtains e where "resolve_host pol h p infos pinned = (pinned, Inl e)"
    | rs where "list_all (public_host pol) rs"
        "resolve_host pol h p infos pinned = (if length (pinned @ [((h, p), rs)]) > MAX_PINNED_ENTRIES
           then tl (pinned @ [((h, p), rs)]) else pinned @ [((h, p), rs)], Inr rs)"
proof (cases infos)
  case (Some xs)
  show thesis
  proof (cases "xs = []")
    case False
    then obtain a b where xs: "xs = a # b" by (cases xs) auto
    show thesis
    proof (cases "validated pol h xs")
      case (Inl e)
      then show thesis using that(1) assms by (simp add: resolve_host_def Some xs)
    next
      case (Inr rs)
      then show thesis using that(2)[OF validated_public[OF Inr]] assms
        by (simp add: resolve_host_def Some xs dset_new Let_def)
    qed
  qed (use that(1) assms in \<open>simp add: resolve_host_def Some\<close>)
qed (use that(1) assms in \<open>simp add: resolve_host_def\<close>)

lemma resolve_keeps_ok:
  assumes ok: "pins_ok pol pinned" and r: "resolve_host pol h p infos pinned = (pinned', res)"
  shows "pins_ok pol pinned'"
    and "res = Inr rs \<Longrightarrow> list_all (public_host pol) rs"
proof -
  have d: "distinct (keys pinned)" and l: "length pinned \<le> MAX_PINNED_ENTRIES" and pub: "public_pins pol pinned"
    using ok by (simp_all add: pins_ok_def)
  have "pins_ok pol pinned' \<and> (\<forall>rs. res = Inr rs \<longrightarrow> list_all (public_host pol) rs)"
  proof (cases "dget pinned (h, p)")
    case (Some v)
    then have "pinned' = ddel (h, p) pinned @ [((h, p), v)]" "res = Inr v" using r by (simp_all add: resolve_host_def)
    moreover have "((h, p), v) \<in> set pinned" using Some by (rule map_of_SomeD)
    moreover have "list_all P (ddel (h, p) pinned)" if "list_all P pinned" for P using that by (rule list_all_ddel)
    ultimately show ?thesis using d l pub length_ddel[OF d Some]
      by (auto simp: pins_ok_def public_pins_def keys_ddel list_all_iff distinct_filter)
  next
    case None
    from None show ?thesis
    proof (cases rule: resolve_miss[where pol = pol and infos = infos])
      case (2 rs)
      let ?p1 = "pinned @ [((h, p), rs)]"
      have pr: "pinned' = (if length ?p1 > MAX_PINNED_ENTRIES then tl ?p1 else ?p1)" "res = Inr rs"
        using r 2(2) by simp_all
      have d1: "distinct (keys ?p1)" using d None by (auto simp: map_of_eq_None_iff)
      have p1: "public_pins pol ?p1" using pub 2(1) by (simp add: public_pins_def)
      have "public_pins pol (tl ?p1)" using p1 by (cases ?p1) (simp_all add: public_pins_def)
      moreover have "distinct (keys (tl ?p1))" using d1 by (metis distinct_tl map_tl)
      ultimately show ?thesis using pr d1 p1 l 2(1) by (auto simp: pins_ok_def)
    qed (use r ok in auto)
  qed
  then show "pins_ok pol pinned'"
    and "res = Inr rs \<Longrightarrow> list_all (public_host pol) rs" by blast+
qed

lemma ddel_split: "distinct (keys (xs @ (k, v) # ys)) \<Longrightarrow> k' \<noteq> k \<Longrightarrow>
  ddel k' (xs @ (k, v) # ys) = ddel k' xs @ (k, v) # ddel k' ys"
  by (simp add: AList.delete_eq)

text \<open>A pinned entry moves at most one place towards the eviction end in one query.\<close>

lemma resolve_moves_one:
  assumes ok: "pins_ok pol pinned" and e: "pinned = xs @ (k, v) # ys" and few: "length ys < MAX_PINNED_ENTRIES - 1"
  shows "\<exists>xs' ys'. fst (resolve_host pol h p infos pinned) = xs' @ (k, v) # ys' \<and> length ys' \<le> length ys + 1"
proof (cases "dget pinned (h, p)")
  case (Some w)
  have d: "distinct (keys pinned)" using ok by (simp add: pins_ok_def)
  have eq: "fst (resolve_host pol h p infos pinned) = ddel (h, p) pinned @ [((h, p), w)]"
    using Some by (simp add: resolve_host_def)
  show ?thesis
  proof (cases "(h, p) = k")
    case True
    have "dget pinned k = Some v" by (rule in_set_dget[OF d]) (simp add: e)
    then have "w = v" using Some True by simp
    then show ?thesis using eq True by (intro exI[of _ "ddel k pinned"] exI[of _ "[]"]) simp
  next
    case False
    have "length (ddel (h, p) ys) \<le> length ys" by (simp add: AList.delete_eq)
    moreover have "fst (resolve_host pol h p infos pinned) = ddel (h, p) xs @ (k, v) # (ddel (h, p) ys @ [((h, p), w)])"
      using eq ddel_split[OF d[unfolded e] False] by (simp add: e)
    ultimately show ?thesis by (metis add_le_mono1 length_append_singleton Suc_eq_plus1)
  qed
next
  case None
  consider "fst (resolve_host pol h p infos pinned) = pinned"
    | rs where "fst (resolve_host pol h p infos pinned) = pinned @ [((h, p), rs)]"
    | rs where "fst (resolve_host pol h p infos pinned) = tl (pinned @ [((h, p), rs)])"
        "length (pinned @ [((h, p), rs)]) > MAX_PINNED_ENTRIES"
    using None by (cases rule: resolve_miss[where pol = pol and infos = infos]) (auto split: if_splits)
  then show ?thesis
  proof cases
    case 1
    then show ?thesis using e by (metis le_add1)
  next
    case (2 rs)
    then show ?thesis unfolding e by (intro exI[of _ xs] exI[of _ "ys @ [((h, p), rs)]"]) simp
  next
    case (3 rs)
    have "xs \<noteq> []" using 3(2) few unfolding e by (auto simp: MAX_PINNED_ENTRIES_def)
    then have "fst (resolve_host pol h p infos pinned) = tl xs @ (k, v) # (ys @ [((h, p), rs)])"
      using 3(1) by (simp add: e)
    then show ?thesis by (metis Suc_eq_plus1 length_append_singleton order_refl)
  qed
qed

text \<open>
  C26: dNS rebinding: once a host has been resolved, asking for it again gives the same, public
  addresses whatever the DNS answers by then, as long as fewer than 1024 queries came in between; the
  table never exceeds 1024 entries and never holds a private address.
\<close>

theorem no_dns_rebinding:
  assumes "pins_ok pol pinned" and "resolve_host pol h p infos pinned = (pinned1, Inr rs)"
    and "length queries < MAX_PINNED_ENTRIES"
  shows "snd (resolve_host pol h p infos' (resolve_all pol queries pinned1)) = Inr rs
    \<and> pins_ok pol (resolve_all pol queries pinned1)
    \<and> list_all (public_host pol) rs"
proof -
  have ok1: "pins_ok pol pinned1" and pub: "list_all (public_host pol) rs"
    using resolve_keeps_ok[OF assms(1,2)] by blast+
  have "\<exists>xs. pinned1 = xs @ [((h, p), rs)]"
  proof (cases "dget pinned (h, p)")
    case None
    then have "pinned1 = (if length (pinned @ [((h, p), rs)]) > MAX_PINNED_ENTRIES
        then tl (pinned @ [((h, p), rs)]) else pinned @ [((h, p), rs)])"
      by (cases rule: resolve_miss[where pol = pol and infos = infos]) (use assms(2) in auto)
    moreover have "pinned \<noteq> []" if "length (pinned @ [((h, p), rs)]) > MAX_PINNED_ENTRIES"
      using that by (auto simp: MAX_PINNED_ENTRIES_def)
    ultimately show ?thesis by auto
  qed (use assms(2) in \<open>auto simp: resolve_host_def\<close>)
  then obtain xs where start: "pinned1 = xs @ ((h, p), rs) # []" by auto
  have walk: "pins_ok pol (resolve_all pol qs q) \<and> (\<exists>xs ys. resolve_all pol qs q = xs @ ((h, p), rs) # ys)"
    if "pins_ok pol q" "q = as @ ((h, p), rs) # bs" "length bs + length qs < MAX_PINNED_ENTRIES" for qs q as bs
    using that
  proof (induction qs arbitrary: q as bs)
    case (Cons a qs)
    obtain h' p' i' where a: "a = (h', p', i')" by (metis surj_pair)
    have "length bs < MAX_PINNED_ENTRIES - 1" using Cons.prems(3) by simp
    then obtain as' bs' where step: "fst (resolve_host pol h' p' i' q) = as' @ ((h, p), rs) # bs'" and l: "length bs' \<le> length bs + 1"
      using resolve_moves_one[OF Cons.prems(1,2)] by blast
    have "pins_ok pol (fst (resolve_host pol h' p' i' q))"
      using resolve_keeps_ok(1)[OF Cons.prems(1)] by (metis prod.collapse)
    moreover have "length bs' + length qs < MAX_PINNED_ENTRIES" using l Cons.prems(3) by simp
    ultimately show ?case using Cons.IH[OF _ step] by (simp add: a)
  qed auto
  have "length ([] :: ((string \<times> int) \<times> resolved_host list) list) + length queries < MAX_PINNED_ENTRIES" using assms(3) by simp
  from walk[OF ok1 start this] obtain as bs where fin: "pins_ok pol (resolve_all pol queries pinned1)"
    "resolve_all pol queries pinned1 = as @ ((h, p), rs) # bs" by blast
  have "dget (resolve_all pol queries pinned1) (h, p) = Some rs"
    by (rule in_set_dget) (use fin in \<open>simp_all add: pins_ok_def\<close>)
  then show ?thesis using fin(1) pub by (simp add: resolve_host_def)
qed

section \<open>Relative redirects\<close>

definition plain_char :: "char \<Rightarrow> bool" where
  "plain_char c \<longleftrightarrow> ascii_letter c \<or> digit c \<or> c = CHR ''-'' \<or> c = CHR ''.''"

lemma plain_charD:
  assumes "plain_char c"
  shows "32 < code c" "c \<notin> {CHR ''/'', CHR ''?'', CHR ''#'', CHR '':'', CHR ''['', CHR '']'', CHR ''@'', CHR ''%''}"
  using assms by (auto simp: plain_char_def ascii_letter_def digit_def code_def less_eq_char_def)

lemma plain_clean: "list_all plain_char s \<Longrightarrow> clean s = s" "list_all plain_char s \<Longrightarrow> clean (''https://'' @ s) = ''https://'' @ s"
proof -
  assume s: "list_all plain_char s"
  have big: "32 < code c" if "c \<in> set s" for c using s that plain_charD(1) by (auto simp: list_all_iff)
  have "dropWhile (\<lambda>c. code c \<le> 32) s = s" using big by (cases s) (auto simp: not_le)
  moreover have "filter (\<lambda>c. code c \<notin> {9, 10, 13}) s = s" using big by (force simp: filter_id_conv)
  ultimately show "clean s = s" "clean (''https://'' @ s) = ''https://'' @ s" by (simp_all add: clean_def code_def)
qed

lemma partition_at_absent [simp]: "c \<notin> set s \<Longrightarrow> partition_at c s = (s, None)"
  by (simp add: partition_at_def)

lemma plain_free: "list_all plain_char s \<Longrightarrow> c \<in> {CHR ''/'', CHR ''?'', CHR ''#'', CHR '':'', CHR ''['', CHR '']'', CHR ''@'', CHR ''%''} \<Longrightarrow> c \<notin> set s"
  using plain_charD(2) by (auto simp: list_all_iff)

lemma plain_no_delimiter: "list_all plain_char s \<Longrightarrow> takeWhile (Not \<circ> delimiter) s = s \<and> dropWhile (Not \<circ> delimiter) s = []"
  using plain_charD(2) by (auto simp: list_all_iff delimiter_def takeWhile_eq_all_conv dropWhile_eq_Nil_conv)

lemma urlparse_plain: "list_all plain_char s \<Longrightarrow> urlparse s = Some \<lparr>scheme = [], netloc = [], url_path = s, query = []\<rparr>
    \<or> (\<exists>p. urlparse s = Some \<lparr>scheme = [], netloc = [], url_path = p, query = []\<rparr>)"
proof -
  assume s: "list_all plain_char s"
  have "\<not> starts_with ''//'' s" using plain_free[OF s, of "CHR ''/''"] by (auto simp: starts_with_iff)
  then show ?thesis using s by (auto simp: urlparse_def plain_clean split_scheme_def plain_free Let_def)
qed

lemma urlparse_https: "list_all plain_char s \<Longrightarrow>
  urlparse (''https://'' @ s) = Some \<lparr>scheme = ''https'', netloc = s, url_path = [], query = []\<rparr>"
proof -
  assume s: "list_all plain_char s"
  have "split_scheme (''https://'' @ s) = (''https'', ''//'' @ s)"
    by (simp add: split_scheme_def partition_at_def ascii_letter_def scheme_char_def code_def lower_def lower_char_def Let_def)
  moreover have "valid_netloc s" using plain_free[OF s] by (simp add: valid_netloc_def)
  ultimately show ?thesis unfolding urlparse_def plain_clean(2)[OF s]
    by (simp add: starts_with_def Let_def conjunct1[OF plain_no_delimiter[OF s]] conjunct2[OF plain_no_delimiter[OF s]])
qed

lemma host_of_plain: "list_all plain_char s \<Longrightarrow> s \<noteq> [] \<Longrightarrow>
  host_of \<lparr>scheme = sc, netloc = s, url_path = p, query = q\<rparr> = lower s"
proof -
  assume s: "list_all plain_char s" and ne: "s \<noteq> []"
  have "takeWhile (\<lambda>x. x \<noteq> CHR ''@'') (rev s) = rev s"
    using plain_free[OF s, of "CHR ''@''"] by (auto simp: takeWhile_eq_all_conv)
  note t = this
  have "after_last (CHR ''@'') s = s" by (simp add: after_last_def t)
  then show ?thesis using ne plain_free[OF s] by (simp add: host_of_def url_hostname_def hostinfo_def)
qed

text \<open>
  A redirect to a relative path without a leading slash is followed to another host: the path is
  glued to the authority, so the next URL names the host \<open>authority\<close> followed by the path, and under
  the default policy the download fails although the redirect stays on the same server.
\<close>

theorem relative_redirect_changes_host:
  assumes "urlparse current = Some base" and "scheme base = ''https''" and "list_all plain_char (netloc base)"
    and "netloc base \<noteq> []" and "list_all plain_char location" and "location \<noteq> []"
  shows "\<exists>u p. resolve_location current location = Inr u \<and> urlparse u = Some p
    \<and> host_of p = lower (netloc base @ location) \<and> host_of p \<noteq> host_of base"
proof -
  have n: "list_all plain_char (netloc base @ location)" using assms(3,5) by simp
  have "resolve_location current location = Inr (''https://'' @ (netloc base @ location))"
    using urlparse_plain[OF assms(5)] assms(1,2) by (auto simp: resolve_location_def)
  moreover have "urlparse (''https://'' @ (netloc base @ location))
      = Some \<lparr>scheme = ''https'', netloc = netloc base @ location, url_path = [], query = []\<rparr>"
    by (rule urlparse_https[OF n])
  moreover have "host_of base = lower (netloc base)"
    using assms(3,4) by (cases base) (simp add: host_of_plain)
  moreover have "length (lower (netloc base @ location)) \<noteq> length (lower (netloc base))"
    using assms(6) by (simp add: lower_def)
  ultimately show ?thesis using host_of_plain[OF n] assms(4) by (metis append_is_Nil_conv)
qed

section \<open>Witnesses\<close>

theorem default_policy_is_tight_witness:
  "\<exists>p. urlparse ''https://api.github.com/repos'' = Some p \<and> scheme p = ''https'' \<and> lower (host_of p) \<in> set ALLOWED_HOSTS"
proof -
  have "authorize default_policy ''get'' ''https://api.github.com/repos'' = Inr ()" by code_simp
  from default_policy_is_tight[OF this] show ?thesis by blast
qed

definition demo_session :: "sent \<Rightarrow> unit \<Rightarrow> unit \<times> reply" where
  "demo_session s w = (if fst (snd s) = ''https://api.github.com/a''
     then (w, Response 302 (Some ''https://objects.githubusercontent.com/x'')) else (w, Response 200 None))"

lemma demo_request:
  "gateway_request default_policy demo_session ''GET'' ''https://api.github.com/a'' 5 (Some [''objects.githubusercontent.com'']) ()
    = ((), [(''GET'', ''https://api.github.com/a'', False), (''GET'', ''https://objects.githubusercontent.com/x'', False)], Inr 200)"
  by code_simp

theorem every_request_is_cleared_witness:
  "cleared default_policy (Some [''objects.githubusercontent.com'']) ''GET'' ''https://objects.githubusercontent.com/x''"
  using every_request_is_cleared[OF demo_request] by simp

theorem relative_redirect_changes_host_witness:
  "\<exists>u p. resolve_location ''https://api.github.com'' ''x.zip'' = Inr u \<and> urlparse u = Some p
    \<and> host_of p = ''api.github.comx.zip''"
proof -
  have n: "list_all plain_char ''api.github.com''" "list_all plain_char ''x.zip''"
    by (simp_all add: plain_char_def ascii_letter_def code_def)
  have low: "lower (''api.github.com'' @ ''x.zip'') = ''api.github.comx.zip''"
    by (simp add: lower_def lower_char_def code_def Let_def)
  note urlparse_https[OF n(1)]
  then have p: "urlparse ''https://api.github.com'' = Some \<lparr>scheme = ''https'', netloc = ''api.github.com'', url_path = [], query = []\<rparr>"
    by simp
  have "\<exists>u p. resolve_location ''https://api.github.com'' ''x.zip'' = Inr u \<and> urlparse u = Some p
    \<and> host_of p = lower (''api.github.com'' @ ''x.zip'')"
    using relative_redirect_changes_host[OF p, of "''x.zip''"] n by auto
  then show ?thesis unfolding low .
qed

theorem no_dns_rebinding_witness:
  "snd (resolve_host default_policy ''a'' 443 (Some [(''127.0.0.1'', 443)])
      (resolve_all \<lparr>allowed_hosts = [], allowed_methods = [], telegram_path_prefix = [], block_private_ips = False\<rparr>
        [(''b'', 443, None)] [((''a'', 443), [\<lparr>res_hostname = ''a'', res_host = dotted 8 8 8 8, res_port = 443\<rparr>])]))
    = Inr [\<lparr>res_hostname = ''a'', res_host = dotted 8 8 8 8, res_port = 443\<rparr>]"
proof -
  let ?pol = "\<lparr>allowed_hosts = [], allowed_methods = [], telegram_path_prefix = [], block_private_ips = False\<rparr>"
  let ?rs = "[\<lparr>res_hostname = ''a'', res_host = dotted 8 8 8 8, res_port = 443\<rparr>]"
  have "pins_ok ?pol []" by (simp add: pins_ok_def public_pins_def)
  moreover have "resolve_host ?pol ''a'' 443 (Some [(dotted 8 8 8 8, 443)]) [] = ([((''a'', 443), ?rs)], Inr ?rs)"
    by (simp add: resolve_host_def parse_dotted MAX_PINNED_ENTRIES_def)
  ultimately have "snd (resolve_host ?pol ''a'' 443 (Some [(''127.0.0.1'', 443)])
      (resolve_all ?pol [(''b'', 443, None)] [((''a'', 443), ?rs)])) = Inr ?rs"
    using no_dns_rebinding[of ?pol "[]" "''a''" 443 _ _ ?rs "[(''b'', 443, None)]"] by (simp add: MAX_PINNED_ENTRIES_def)
  then show ?thesis by (simp add: resolve_host_def)
qed

end
