(* ===== verification/Path_Guard.thy ===== *)
theory Path_Guard
  imports Urls "HOL-Library.Sublist"
begin

text \<open>
  \<open>sky_claw/antigravity/security/path_validator.py\<close> (sandbox roots, safe components, safe joins) and
  \<open>sky_claw/antigravity/core/validators/path.py\<close> (traversal patterns in raw and percent-encoded text).
  What the file system does is a parameter: \<open>resolve\<close> is \<open>Path.resolve\<close>, \<open>is_symlink\<close> and
  \<open>resolve_strict\<close> (\<open>None\<close>: the target does not exist) what they say.  A resolved path is the list of
  its parts.
\<close>

type_synonym parts = "string list"

section \<open>Sandboxes\<close>

datatype path_violation =
    Not_A_String | Empty_Name | Traversal_Segment | Has_Separator | Has_Nul | Control_Character
  | Escapes_Root | Traversal_Component | Symlink_Missing | Symlink_Escapes | Outside_Roots

definition assert_safe_component :: "string option \<Rightarrow> path_violation + string" where
  "assert_safe_component name =
    (case name of
       None \<Rightarrow> Inl Not_A_String
     | Some s \<Rightarrow>
        if s = [] then Inl Empty_Name
        else if s \<in> {''.'', ''..''} then Inl Traversal_Segment
        else if CHR ''/'' \<in> set s \<or> char_of (92::nat) \<in> set s then Inl Has_Separator
        else if char_of (0::nat) \<in> set s then Inl Has_Nul
        else if list_ex (\<lambda>c. code c < 32) s then Inl Control_Character
        else Inr s)"

text \<open>\<open>p.relative_to(root)\<close> does not raise.\<close>

definition relative_to :: "parts \<Rightarrow> parts \<Rightarrow> bool" where
  "relative_to p base \<longleftrightarrow> prefix base p"

text \<open>\<open>join_path root s\<close> is \<open>root / s\<close>.\<close>

definition safe_join :: "(parts \<Rightarrow> parts) \<Rightarrow> (parts \<Rightarrow> string \<Rightarrow> parts) \<Rightarrow> parts \<Rightarrow> string \<Rightarrow> path_violation + parts" where
  "safe_join resolve join_path base untrusted =
    (let root_resolved = resolve base; candidate = resolve (join_path root_resolved untrusted) in
     if relative_to candidate root_resolved then Inr candidate else Inl Escapes_Root)"

text \<open>\<open>Inl\<close> of the constructor: no root, a \<open>ValueError\<close>.\<close>

definition path_validator :: "(parts \<Rightarrow> parts) \<Rightarrow> parts list \<Rightarrow> string + parts list" where
  "path_validator resolve roots = (if roots = [] then Inl ''At least one sandbox root is required'' else Inr (map resolve roots))"

definition validate_path ::
  "(parts \<Rightarrow> parts) \<Rightarrow> (parts \<Rightarrow> bool) \<Rightarrow> (parts \<Rightarrow> parts option) \<Rightarrow> parts list \<Rightarrow> bool \<Rightarrow> parts \<Rightarrow> path_violation + parts" where
  "validate_path resolve is_symlink resolve_strict roots strict_symlink target =
    (let inside_root = (\<lambda>p. list_ex (relative_to p) roots);
         resolved = resolve target;
         final = (if inside_root resolved then Inr resolved else Inl Outside_Roots) in
     if ''..'' \<in> set target then Inl Traversal_Component
     else if strict_symlink \<and> is_symlink target then
       (case resolve_strict target of
          None \<Rightarrow> Inl Symlink_Missing
        | Some t \<Rightarrow> if \<not> inside_root t then Inl Symlink_Escapes else final)
     else final)"

text \<open>The decorator: the call happens only with a path argument the validator accepts.\<close>

definition sandboxed_call ::
  "(parts \<Rightarrow> path_violation + parts) \<Rightarrow> parts option \<Rightarrow> ('w \<Rightarrow> 'w \<times> 'r) \<Rightarrow> 'w \<Rightarrow> 'w \<times> (path_violation option + 'r)" where
  "sandboxed_call check raw_path fn w =
    (case raw_path of
       None \<Rightarrow> (w, Inl None)
     | Some p \<Rightarrow> (case check p of Inl e \<Rightarrow> (w, Inl (Some e)) | Inr _ \<Rightarrow> (case fn w of (w', r) \<Rightarrow> (w', Inr r))))"

section \<open>Traversal patterns\<close>

definition contains :: "string \<Rightarrow> string \<Rightarrow> bool" where
  "contains p s \<longleftrightarrow> list_ex (\<lambda>i. starts_with p (drop i s)) [0..<Suc (length s)]"

definition BACKSLASH :: char where
  "BACKSLASH = char_of (92::nat)"

definition separator :: "char \<Rightarrow> bool" where
  "separator c \<longleftrightarrow> c = CHR ''/'' \<or> c = BACKSLASH"

text \<open>The pieces between separators of either kind.\<close>

fun pieces :: "string \<Rightarrow> string list" where
  "pieces [] = [[]]"
| "pieces (c # cs) = (if separator c then [] # pieces cs
     else case pieces cs of [] \<Rightarrow> [[c]] | w # ws \<Rightarrow> (c # w) # ws)"

text \<open>
  The eleven patterns; those with both cases of a hex digit are searched in the lower-case text.  The
  fifth asks for \<open>..\<close> between separators or the ends, where the end may be followed by one line break.
\<close>

definition traversal_match :: "string \<Rightarrow> bool" where
  "traversal_match s \<longleftrightarrow>
     contains ''../'' s \<or> contains (''..'' @ [BACKSLASH]) s
   \<or> contains ''..%2f'' (lower s) \<or> contains ''..%5c'' (lower s)
   \<or> ''..'' \<in> set (pieces s) \<or> last (pieces s) = ''..'' @ [char_of (10::nat)]
   \<or> contains ''%2e%2e'' (lower s) \<or> contains ''%2e.'' (lower s) \<or> contains ''.%2e'' (lower s)
   \<or> contains ''%252e'' (lower s) \<or> contains ''%c0%af'' (lower s) \<or> contains ''%c1%9c'' (lower s)"

definition null_match :: "string \<Rightarrow> bool" where
  "null_match s \<longleftrightarrow> contains ''%00'' s \<or> contains ([BACKSLASH] @ ''x00'') s \<or> char_of (0::nat) \<in> set s"

definition dangerous_prefix :: "string \<Rightarrow> bool" where
  "dangerous_prefix s \<longleftrightarrow> starts_with ''/'' s \<or> starts_with [BACKSLASH, BACKSLASH] s"

text \<open>\<open>^[a-zA-Z]:\<close> or \<open>:.*:\<close>, where the dot matches no line break.\<close>

definition windows_match :: "string \<Rightarrow> bool" where
  "windows_match s \<longleftrightarrow> (2 \<le> length s \<and> ascii_letter (s ! 0) \<and> s ! 1 = CHR '':'')
   \<or> list_ex (\<lambda>line. 2 \<le> length (filter (\<lambda>c. c = CHR '':'') line)) (split_on (char_of (10::nat)) s)"

text \<open>
  \<open>unquote\<close>: a percent sign with two hex digits is a byte.  Bytes from 128 on stand for the characters
  of that number; Python decodes them as UTF-8, but no pattern tells characters beyond ASCII apart.
\<close>

fun unquote :: "string \<Rightarrow> string" where
  "unquote (p # a # b # cs) =
    (if p = CHR ''%'' \<and> hex_digit a \<and> hex_digit b then char_of (16 * hex_value a + hex_value b) # unquote cs
     else p # unquote (a # b # cs))"
| "unquote s = s"

record path_result =
  path_valid :: bool
  normalized_path :: "string option"
  path_error :: "string option"
  path_absolute :: bool

definition path_refused :: "string \<Rightarrow> bool \<Rightarrow> path_result" where
  "path_refused msg b = \<lparr>path_valid = False, normalized_path = None, path_error = Some msg, path_absolute = b\<rparr>"

text \<open>\<open>str(pathlib.PosixPath(s))\<close>: exactly two leading slashes stay, empty and dot parts go.\<close>

definition posix_path :: "string \<Rightarrow> string" where
  "posix_path s =
    (let ps = filter (\<lambda>p. p \<noteq> [] \<and> p \<noteq> ''.'') (split_on (CHR ''/'') s);
         lead = (if \<not> starts_with ''/'' s then []
           else if starts_with ''//'' s \<and> \<not> starts_with ''///'' s then ''//'' else ''/'')
     in if lead @ join ''/'' ps = [] then ''.'' else lead @ join ''/'' ps)"

definition slashes :: "string \<Rightarrow> string" where
  "slashes s = map (\<lambda>c. if c = BACKSLASH then CHR ''/'' else c) s"

definition encoded_error :: "string \<Rightarrow> path_result option" where
  "encoded_error s =
    (if traversal_match s then Some (path_refused ''Secuencia de path traversal detectada (codificada)'' False)
     else if dangerous_prefix s then Some (path_refused ''Ruta absoluta detectada en path codificado'' True)
     else if windows_match s then Some (path_refused (''Patr'' @ [CHR 0xF3] @ ''n de path Windows detectado en path codificado'') True)
     else None)"

text \<open>\<open>in_roots\<close>: whether the resolved path lies below an allowed root; \<open>None\<close>: there are no roots.\<close>

definition validate_traversal :: "bool \<Rightarrow> (string \<Rightarrow> bool) option \<Rightarrow> string \<Rightarrow> path_result" where
  "validate_traversal allow_absolute in_roots s =
    (if s = [] \<or> strip s = [] then path_refused (''Path vac'' @ [CHR 0xED] @ ''o'') False
     else if null_match s then path_refused ''Byte nulo detectado en path'' False
     else if traversal_match s then path_refused ''Secuencia de path traversal detectada'' False
     else
       let once = unquote s; twice = unquote once in
       case (if once \<noteq> s then encoded_error once else None) of Some r \<Rightarrow> r
     | None \<Rightarrow>
       case (if twice \<noteq> once then encoded_error twice else None) of Some r \<Rightarrow> r
     | None \<Rightarrow>
        let absolute = dangerous_prefix s \<or> windows_match s in
        if absolute \<and> \<not> allow_absolute then path_refused ''Rutas absolutas no permitidas'' True
        else if absolute \<and> (case in_roots of None \<Rightarrow> False | Some f \<Rightarrow> \<not> f s)
          then path_refused ''Path absoluto fuera de directorios permitidos'' True
        else \<lparr>path_valid = True, normalized_path = Some (slashes (posix_path s)), path_error = None, path_absolute = absolute\<rparr>)"

definition validate_path_strict :: "string \<Rightarrow> string option + string" where
  "validate_path_strict s =
    (let r = validate_traversal False None s in
     if path_valid r then Inr (the (normalized_path r)) else Inl (path_error r))"

section \<open>What the checks guarantee\<close>

text \<open>
  C24: whatever the file system says, a path the sandbox accepts has no \<open>..\<close> part and resolves below one
  of the roots; if it is a symbolic link (and links are checked), so does the target of the link.
\<close>

theorem sandbox_contains_accepted:
  assumes "validate_path resolve is_symlink resolve_strict roots strict_symlink target = Inr p"
  shows "p = resolve target \<and> ''..'' \<notin> set target \<and> (\<exists>root \<in> set roots. prefix root p)
    \<and> (strict_symlink \<and> is_symlink target \<longrightarrow>
        (\<exists>t. resolve_strict target = Some t \<and> (\<exists>root \<in> set roots. prefix root t)))"
  using assms
  by (auto simp: validate_path_def Let_def list_ex_iff relative_to_def split: if_splits option.splits)

theorem sandbox_contains_accepted_witness:
  "\<exists>root \<in> set [[''/'', ''mo2'']]. prefix root [''/'', ''mo2'', ''mods'']"
  using sandbox_contains_accepted[of id "\<lambda>_. False" "\<lambda>_. None" "[[''/'', ''mo2'']]" True "[''/'', ''mo2'', ''mods'']"
      "[''/'', ''mo2'', ''mods'']"]
  by (simp add: validate_path_def relative_to_def)

lemma pieces_nonempty [simp]: "pieces s \<noteq> []"
  by (induction s) (auto split: list.split)

lemma pieces_single: "\<forall>c \<in> set s. \<not> separator c \<Longrightarrow> pieces s = [s]"
  by (induction s) auto

text \<open>A safe component is one piece, so appending it to a directory names an entry of that directory.\<close>

lemma safe_component_is_one_piece:
  assumes "assert_safe_component name = Inr s"
  shows "name = Some s \<and> pieces s = [s] \<and> s \<notin> {[], ''.'', ''..''} \<and> list_all (\<lambda>c. 32 \<le> code c) s"
proof -
  have n: "name = Some s" using assms by (auto simp: assert_safe_component_def split: option.splits if_splits)
  have "\<forall>c \<in> set s. \<not> separator c"
    using assms by (auto simp: assert_safe_component_def separator_def BACKSLASH_def split: option.splits if_splits)
  then have "pieces s = [s]" by (rule pieces_single)
  moreover have "s \<notin> {[], ''.'', ''..''}"
    using assms n by (simp add: assert_safe_component_def split: if_splits)
  moreover have "\<not> list_ex (\<lambda>c. code c < 32) s"
    using assms n by (simp add: assert_safe_component_def split: if_splits)
  then have "list_all (\<lambda>c. 32 \<le> code c) s" by (auto simp: list_all_iff list_ex_iff not_less)
  ultimately show ?thesis using n by blast
qed

section \<open>Accepted relative paths\<close>

lemma pieces_append: "separator c \<Longrightarrow> pieces (a @ c # b) = pieces a @ pieces b"
proof (induction a)
  case (Cons x a)
  then show ?case by (cases "pieces a") auto
qed simp

lemma pieces_slashes: "pieces (slashes s) = pieces s"
proof (induction s)
  case (Cons c s)
  have "separator (if c = BACKSLASH then CHR ''/'' else c) = separator c" by (simp add: separator_def)
  then show ?case using Cons by (auto simp: slashes_def separator_def)
qed (simp add: slashes_def)

lemma split_on_nonempty [simp]: "split_on c s \<noteq> []"
  by (induction s) (auto split: list.split)

lemma pieces_split: "pieces s = concat (map pieces (split_on (CHR ''/'') s))"
proof (induction s)
  case (Cons x s)
  show ?case
  proof (cases "x = CHR ''/''")
    case True
    then show ?thesis using Cons by (simp add: separator_def)
  next
    case False
    obtain w ws where w: "split_on (CHR ''/'') s = w # ws" by (cases "split_on (CHR ''/'') s") auto
    show ?thesis
    proof (cases "separator x")
      case True
      then show ?thesis using Cons False w by simp
    next
      case ns: False
      obtain v vs where v: "pieces w = v # vs" by (cases "pieces w") auto
      then have "pieces s = v # (vs @ concat (map pieces ws))" using Cons w by simp
      then show ?thesis using False ns w v by simp
    qed
  qed
qed simp

lemma pieces_join: "ps \<noteq> [] \<Longrightarrow> pieces (join ''/'' ps) = concat (map pieces ps)"
  by (induction "''/''" ps rule: join.induct) (simp_all add: pieces_append separator_def)

lemma posix_path_pieces:
  assumes "\<not> starts_with ''/'' s" and "''..'' \<notin> set (pieces s)"
  shows "''..'' \<notin> set (pieces (posix_path s))"
proof -
  define ps where "ps = filter (\<lambda>p. p \<noteq> [] \<and> p \<noteq> ''.'') (split_on (CHR ''/'') s)"
  have p: "posix_path s = (if join ''/'' ps = [] then ''.'' else join ''/'' ps)"
    using assms(1) by (simp add: posix_path_def Let_def ps_def)
  have "set ps \<subseteq> set (split_on (CHR ''/'') s)" by (auto simp: ps_def)
  then have "set (concat (map pieces ps)) \<subseteq> set (pieces s)" unfolding pieces_split[of s] by auto
  moreover have "ps \<noteq> []" if "join ''/'' ps \<noteq> []" using that by (cases ps) simp_all
  ultimately show ?thesis using assms(2) pieces_join[of ps] by (auto simp: p separator_def)
qed

lemma encoded_errorD: "encoded_error s = None \<Longrightarrow> \<not> traversal_match s \<and> \<not> dangerous_prefix s \<and> \<not> windows_match s"
  by (simp add: encoded_error_def split: if_splits)

lemma traversal_match_piece: "\<not> traversal_match s \<Longrightarrow> ''..'' \<notin> set (pieces s)"
  by (simp add: traversal_match_def)

lemma split_on_parts: "p \<in> set (split_on c s) \<Longrightarrow> c \<notin> set p \<and> set p \<subseteq> set s"
proof (induction s arbitrary: p)
  case (Cons x s)
  then show ?case by (cases "split_on c s") (fastforce split: if_splits)+
qed simp

lemma slashes_same: "BACKSLASH \<notin> set s \<Longrightarrow> slashes s = s"
  unfolding slashes_def by (rule map_idI) auto

lemma join_head: "ps \<noteq> [] \<Longrightarrow> hd ps \<noteq> [] \<Longrightarrow> join sep ps \<noteq> [] \<and> hd (join sep ps) = hd (hd ps)"
  by (cases "(sep, ps)" rule: join.cases) auto

lemma join_chars: "set (join sep ps) \<subseteq> set sep \<union> (\<Union>p \<in> set ps. set p)"
  by (induction sep ps rule: join.induct) auto

text \<open>Only a backslash can make the normal form absolute.\<close>

lemma normal_form_relative:
  assumes "\<not> starts_with ''/'' s" "BACKSLASH \<notin> set s"
  shows "\<not> starts_with ''/'' (slashes (posix_path s))"
proof -
  define ps where "ps = filter (\<lambda>p. p \<noteq> [] \<and> p \<noteq> ''.'') (split_on (CHR ''/'') s)"
  have p: "posix_path s = (if join ''/'' ps = [] then ''.'' else join ''/'' ps)"
    using assms(1) by (simp add: posix_path_def Let_def ps_def)
  have parts: "p \<noteq> [] \<and> CHR ''/'' \<notin> set p \<and> set p \<subseteq> set s" if "p \<in> set ps" for p
    using that split_on_parts by (fastforce simp: ps_def)
  have bs: "BACKSLASH \<noteq> CHR ''/''" "BACKSLASH \<noteq> CHR ''.''" by code_simp+
  have "BACKSLASH \<notin> set (join ''/'' ps)"
  proof
    assume "BACKSLASH \<in> set (join ''/'' ps)"
    then have "BACKSLASH \<in> set ''/'' \<union> (\<Union>p \<in> set ps. set p)" using join_chars by blast
    then show False using parts assms(2) bs(1) by auto
  qed
  then have "BACKSLASH \<notin> set (posix_path s)" using bs(2) by (auto simp: p)
  then have "slashes (posix_path s) = posix_path s" by (rule slashes_same)
  moreover have "\<not> starts_with ''/'' (posix_path s)"
  proof (cases ps)
    case (Cons q qs)
    then have q: "q \<noteq> []" "CHR ''/'' \<notin> set q" using parts[of q] by simp_all
    then have "hd q \<noteq> CHR ''/''" using hd_in_set[of q] by metis
    moreover have "join ''/'' ps \<noteq> [] \<and> hd (join ''/'' ps) = hd q" using join_head[of ps "''/''"] Cons q(1) by simp
    ultimately show ?thesis by (cases "join ''/'' ps") (auto simp: p starts_with_def)
  qed (simp add: p starts_with_def)
  ultimately show ?thesis by simp
qed

text \<open>
  C25: a path accepted without permission for absolute ones has no \<open>..\<close> between separators of either
  kind, neither as it stands nor after percent-decoding once or twice, no NUL character, and in none of
  the three readings a leading slash, two leading backslashes, a drive letter or two colons in a line.
  Its normal form has no \<open>..\<close> either, and is relative when the path has no backslash; one leading
  backslash is not caught (below).
\<close>

theorem accepted_path_has_no_traversal:
  assumes "path_valid (validate_traversal False in_roots s)"
  shows "(\<forall>t \<in> {s, unquote s, unquote (unquote s)}. ''..'' \<notin> set (pieces t) \<and> \<not> dangerous_prefix t \<and> \<not> windows_match t)
    \<and> char_of (0::nat) \<notin> set s
    \<and> (\<exists>n. normalized_path (validate_traversal False in_roots s) = Some n \<and> ''..'' \<notin> set (pieces n)
         \<and> (BACKSLASH \<notin> set s \<longrightarrow> \<not> starts_with ''/'' n))"
proof -
  let ?once = "unquote s" and ?twice = "unquote (unquote s)"
  have s: "\<not> (s = [] \<or> strip s = [])" "\<not> null_match s" "\<not> traversal_match s"
    using assms by (auto simp: validate_traversal_def path_refused_def split: if_splits)
  have e1: "(if ?once \<noteq> s then encoded_error ?once else None) = None"
    using assms s by (auto simp: validate_traversal_def path_refused_def Let_def encoded_error_def split: option.splits if_splits)
  have e2: "(if ?twice \<noteq> ?once then encoded_error ?twice else None) = None"
    using assms s by (auto simp: validate_traversal_def path_refused_def Let_def encoded_error_def split: option.splits if_splits)
  have rel: "\<not> (dangerous_prefix s \<or> windows_match s)"
    using assms s e1 e2 by (auto simp: validate_traversal_def path_refused_def Let_def split: option.splits if_splits)
  have n: "normalized_path (validate_traversal False in_roots s) = Some (slashes (posix_path s))"
    using s e1 e2 rel by (simp add: validate_traversal_def Let_def)
  have once: "\<not> traversal_match ?once \<and> \<not> dangerous_prefix ?once \<and> \<not> windows_match ?once"
    using e1 encoded_errorD[of ?once] s(3) rel by (cases "?once = s") auto
  have twice: "\<not> traversal_match ?twice \<and> \<not> dangerous_prefix ?twice \<and> \<not> windows_match ?twice"
    using e2 encoded_errorD[of ?twice] once by (cases "?twice = ?once") auto
  have nosl: "\<not> starts_with ''/'' s" using rel by (simp add: dangerous_prefix_def)
  have "''..'' \<notin> set (pieces (slashes (posix_path s)))"
    using posix_path_pieces[OF nosl traversal_match_piece[OF s(3)]] by (simp add: pieces_slashes)
  moreover have "char_of (0::nat) \<notin> set s" using s(2) by (simp add: null_match_def)
  ultimately show ?thesis using n once twice rel s(3) traversal_match_piece normal_form_relative[OF nosl] by auto
qed

section \<open>A leading backslash\<close>

lemma contains_chars: "contains p s \<Longrightarrow> set p \<subseteq> set s"
  by (auto simp: contains_def list_ex_iff starts_with_iff dest!: in_set_dropD[where xs = s] arg_cong[where f = set])

lemma unquote_plain: "CHR ''%'' \<notin> set s \<Longrightarrow> unquote s = s"
  by (induction s rule: unquote.induct) auto

lemma contains_lower: "contains p (lower s) \<Longrightarrow> set p \<subseteq> lower_char ` set s"
  using contains_chars[of p "lower s"] by (simp add: lower_def)

lemma leading_backslash_accepted:
  assumes "list_all ascii_letter t" and "t \<noteq> []"
  shows "validate_traversal False None (BACKSLASH # t)
    = \<lparr>path_valid = True, normalized_path = Some (''/'' @ t), path_error = None, path_absolute = False\<rparr>"
proof -
  let ?s = "BACKSLASH # t"
  have letters: "c \<in> {97..122} \<union> {65..90}" if "c \<in> code ` set t" for c
    using assms(1) that by (auto simp: list_all_iff ascii_letter_def)
  have b: "code BACKSLASH = 92" by (simp add: code_def BACKSLASH_def)
  have absent: "x \<notin> set ?s" if "code x \<notin> {97..122} \<union> {65..90} \<union> {92}" for x
    using that letters b by (auto simp del: atLeastAtMost_iff)
  have chars: "code (CHR ''%'') = 37" "code (CHR ''.'') = 46" "code (CHR ''/'') = 47" "code (CHR ''0'') = 48"
    "code (CHR '':'') = 58" "code (char_of (0::nat)) = 0" "code (char_of (10::nat)) = 10" by (simp_all add: code_def)
  have no: "CHR ''%'' \<notin> set ?s" "CHR ''.'' \<notin> set ?s" "CHR ''/'' \<notin> set ?s" "CHR ''0'' \<notin> set ?s"
    "CHR '':'' \<notin> set ?s" "char_of (0::nat) \<notin> set ?s" "char_of (10::nat) \<notin> set ?s"
    by (rule absent, simp add: chars)+
  have low: "code (lower_char c) \<in> {97..122} \<union> {92}" if "c \<in> set ?s" for c
    using that letters[of "code c"] b by (auto simp: lower_char_def Let_def code_def)
  have lowpct: "CHR ''%'' \<notin> lower_char ` set ?s" using low chars(1) by force
  have nosep: "\<forall>c \<in> set t. \<not> separator c"
    using assms(1) b by (auto simp: list_all_iff separator_def ascii_letter_def code_def)
  have pcs: "pieces ?s = [[], t]" using pieces_single[OF nosep] by (simp add: separator_def)
  have "\<not> null_match ?s"
    using contains_chars[of "''%00''" ?s] contains_chars[of "[BACKSLASH] @ ''x00''" ?s] no by (auto simp: null_match_def)
  moreover have "\<not> traversal_match ?s"
  proof -
    have "\<not> contains p ?s" if "CHR ''.'' \<in> set p" for p using contains_chars[of p ?s] no(2) that by blast
    moreover have "\<not> contains p (lower ?s)" if "CHR ''%'' \<in> set p" for p using contains_lower[of p ?s] lowpct that by blast
    moreover have "t \<noteq> ''..''" "t \<noteq> ''..'' @ [char_of (10::nat)]" using no(2) by auto
    ultimately show ?thesis unfolding traversal_match_def pcs by simp
  qed
  moreover have "\<not> dangerous_prefix ?s"
  proof -
    obtain c u where t: "t = c # u" using assms(2) by (cases t) auto
    have "c \<noteq> BACKSLASH" using nosep t by (simp add: separator_def)
    moreover have "BACKSLASH \<noteq> CHR ''/''" using no(3) by auto
    ultimately show ?thesis by (simp add: dangerous_prefix_def starts_with_def t)
  qed
  moreover have "\<not> windows_match ?s"
  proof -
    have "split_on (char_of (10::nat)) ?s = [?s]" using no(7) by (rule split_on_word(2))
    moreover have "filter (\<lambda>c. c = CHR '':'') ?s = []" using no(5) by (auto simp: filter_empty_conv)
    ultimately show ?thesis by (simp add: windows_match_def BACKSLASH_def ascii_letter_def code_def)
  qed
  moreover have "strip ?s \<noteq> []"
  proof
    have ns: "\<not> is_space BACKSLASH" by (simp add: is_space_def b)
    assume "strip ?s = []"
    then have "dropWhile is_space (rev ?s) = []" using ns by (simp only: strip_def dropWhile.simps if_False rev_is_Nil_conv)
    then have "\<forall>x \<in> set (rev ?s). is_space x" by (simp only: dropWhile_eq_Nil_conv)
    then show False using ns by simp
  qed
  moreover have "unquote ?s = ?s" using no(1) by (rule unquote_plain)
  moreover have "posix_path ?s = ?s"
  proof -
    have sp: "split_on (CHR ''/'') ?s = [?s]" using no(3) by (rule split_on_word(2))
    have "BACKSLASH \<noteq> CHR ''/''" using no(3) by auto
    then have nb: "\<not> starts_with ''/'' ?s" by (simp add: starts_with_def)
    have "?s \<noteq> ''.''" using assms(2) by simp
    then show ?thesis unfolding posix_path_def sp using nb by (simp add: Let_def)
  qed
  moreover have "slashes ?s = ''/'' @ t"
  proof -
    have "map (\<lambda>c. if c = BACKSLASH then CHR ''/'' else c) t = t"
      by (rule map_idI) (use nosep in \<open>simp add: separator_def\<close>)
    then show ?thesis by (simp add: slashes_def)
  qed
  ultimately show ?thesis by (simp add: validate_traversal_def Let_def)
qed

text \<open>
  A path with one leading backslash passes the strict validation and comes back absolute: the
  prefix test knows \<open>/\<close> and two backslashes only, and the normalisation then turns backslashes into
  slashes.
\<close>

theorem leading_backslash_becomes_absolute:
  assumes "list_all ascii_letter t" and "t \<noteq> []"
  shows "validate_path_strict (BACKSLASH # t) = Inr (''/'' @ t)"
  using leading_backslash_accepted[OF assms] by (simp add: validate_path_strict_def)

theorem leading_backslash_becomes_absolute_witness:
  "validate_path_strict (BACKSLASH # ''Windows'') = Inr ''/Windows''"
proof -
  have "list_all ascii_letter ''Windows''" by (simp add: ascii_letter_def code_def)
  from leading_backslash_becomes_absolute[OF this] show ?thesis by simp
qed

theorem accepted_path_has_no_traversal_witness:
  "''..'' \<notin> set (pieces ''mods/a.esp'') \<and> \<not> windows_match ''mods/a.esp''
    \<and> (\<exists>n. normalized_path (validate_traversal False None ''mods/a.esp'') = Some n \<and> \<not> starts_with ''/'' n)"
proof -
  have "path_valid (validate_traversal False None ''mods/a.esp'')" by code_simp
  from accepted_path_has_no_traversal[OF this] have a: "''..'' \<notin> set (pieces ''mods/a.esp'') \<and> \<not> windows_match ''mods/a.esp''"
    and n: "\<exists>n. normalized_path (validate_traversal False None ''mods/a.esp'') = Some n
      \<and> (BACKSLASH \<notin> set ''mods/a.esp'' \<longrightarrow> \<not> starts_with ''/'' n)" by blast+
  have "BACKSLASH \<notin> set ''mods/a.esp''" by code_simp
  with a n show ?thesis by blast
qed

end
