(* ===== verification/Nexus_Download.thy ===== *)
theory Nexus_Download
  imports Network_Gateway Path_Guard Json_Values Snapshots
begin

text \<open>
  \<open>sky_claw/antigravity/scraper/nexus_downloader.py\<close>: the metadata of a file, its download in at most five
  attempts with the validation of its hashes, and the manual fallback that watches two directories.  The HTTP
  session (aiohttp) is a parameter: what it answers each attempt, down to the chunks of the body and the error that
  breaks them off.  \<open>md5\<close> and \<open>sha256\<close> are hex digests; \<open>path_name\<close> is \<open>Path(_).name\<close> of the platform.
\<close>

section \<open>Data and errors\<close>

record file_info =
  nexus_id :: int
  file_id :: json
  file_name :: string
  info_size :: int
  info_md5 :: string
  info_sha256 :: string
  download_url :: json

text \<open>
  The exceptions by class: a client error of aiohttp carries its text, a response error also its status.
  \<open>Uncaught_Error\<close> is any class the file does not name, the cancellation of the task among them.
\<close>

datatype nexus_error =
    Egress egress_error | Path_Violation path_violation
  | Client_Connection string | Client_Response nat string | Client_Error string
  | Timeout_Error string | Os_Error string
  | Hash_Validation string | Premium_Required string | Download_Error string | Uncaught_Error string

record downloader =
  egress :: egress_policy
  staging_dir :: parts
  game_domain :: string
  with_callback :: bool

record nexus_world =
  stored :: file_system
  sent_urls :: "string list"
  reported :: "(int \<times> nat) list"

definition NEXUS_API_BASE :: string where
  "NEXUS_API_BASE = ''https://api.nexusmods.com/v1''"

definition FREE_FALLBACK :: json where
  "FREE_FALLBACK = JStr ''FREE_FALLBACK''"

definition validate_sha256_format :: "string \<Rightarrow> bool" where
  "validate_sha256_format s \<longleftrightarrow> length s = 64 \<and> list_all hex_digit s"

definition percent :: "int \<Rightarrow> nat \<Rightarrow> real" where
  "percent expected loaded = (if expected = 0 then 0 else min (real loaded / real_of_int expected * 100) 100)"

section \<open>Retries\<close>

definition retry_text :: "string \<Rightarrow> bool" where
  "retry_text message =
    (let m = lower message in contains ''429'' m \<or> contains ''502'' m \<or> contains ''503'' m \<or> contains ''timeout'' m)"

definition should_retry :: "nexus_error \<Rightarrow> bool" where
  "should_retry e =
    (case e of
       Client_Connection _ \<Rightarrow> True
     | Timeout_Error _ \<Rightarrow> True
     | Os_Error _ \<Rightarrow> True
     | Hash_Validation _ \<Rightarrow> True
     | Client_Response status _ \<Rightarrow> status = 429 \<or> 500 \<le> status
     | Download_Error message \<Rightarrow> retry_text message
     | Premium_Required message \<Rightarrow> retry_text message
     | _ \<Rightarrow> False)"

text \<open>The wait after the \<open>n\<close>th attempt: \<open>wait_exponential(multiplier, min, max)\<close>.\<close>

definition wait_exponential :: "nat \<Rightarrow> nat \<Rightarrow> nat \<Rightarrow> nat \<Rightarrow> nat" where
  "wait_exponential multiplier low high n = max low (min (multiplier * 2 ^ (n - 1)) high)"

definition file_info_wait :: "nat \<Rightarrow> nat" where
  "file_info_wait = wait_exponential 2 2 60"

definition download_wait :: "nat \<Rightarrow> nat" where
  "download_wait = wait_exponential 4 5 120"

text \<open>\<open>AsyncRetrying\<close> with \<open>reraise\<close>: attempt \<open>k\<close>, after which \<open>retries\<close> more may follow.\<close>

fun attempts :: "nat \<Rightarrow> nat \<Rightarrow> (nat \<Rightarrow> 'w \<Rightarrow> 'w \<times> (nexus_error + 'a)) \<Rightarrow> 'w \<Rightarrow> 'w \<times> (nexus_error + 'a)" where
  "attempts 0 k body w = body k w"
| "attempts (Suc retries) k body w =
    (case body k w of
       (w', Inl e) \<Rightarrow> if should_retry e then attempts retries (Suc k) body w' else (w', Inl e)
     | (w', Inr a) \<Rightarrow> (w', Inr a))"

section \<open>The metadata of a file\<close>

text \<open>One answer of the API: an error of the session, or status, error text and what \<open>resp.json()\<close> gives.\<close>

type_synonym api_answer = "nexus_error + nat \<times> string \<times> (nexus_error + json)"

definition api_get ::
  "downloader \<Rightarrow> (string \<Rightarrow> api_answer) \<Rightarrow> string \<Rightarrow> (nat \<Rightarrow> nexus_error option) \<Rightarrow> nexus_world \<Rightarrow> nexus_world \<times> (nexus_error + json)" where
  "api_get d session u refused w =
    (case authorize (egress d) ''GET'' u of
       Inl e \<Rightarrow> (w, Inl (Egress e))
     | Inr _ \<Rightarrow>
        (w\<lparr>sent_urls := sent_urls w @ [u]\<rparr>,
         case session u of
           Inl e \<Rightarrow> Inl e
         | Inr (status, text, body) \<Rightarrow>
            (case refused status of
               Some e \<Rightarrow> Inl e
             | None \<Rightarrow> if 400 \<le> status then Inl (Client_Response status text) else body)))"

definition mod_url :: "downloader \<Rightarrow> int \<Rightarrow> string" where
  "mod_url d m = NEXUS_API_BASE @ ''/games/'' @ game_domain d @ ''/mods/'' @ int_str m"

definition as_dict :: "json \<Rightarrow> (string \<times> json) list option" where
  "as_dict j = (case j of JDict kvs \<Rightarrow> Some kvs | _ \<Rightarrow> None)"

text \<open>The primary file of the listing, or its last one; an identifier that is a list stands for its second element.\<close>

definition pick_file :: "int \<Rightarrow> json \<Rightarrow> nexus_error + json" where
  "pick_file m listing =
    (case as_dict listing of
       None \<Rightarrow> Inl (Uncaught_Error ''AttributeError'')
     | Some kvs \<Rightarrow>
        let files = dget_or kvs ''files'' (JList []) in
        if \<not> truthy files then Inl (Download_Error (''No files found for mod '' @ int_str m))
        else
          (case files of
             JList fs \<Rightarrow>
              (case those (map as_dict fs) of
                 None \<Rightarrow> Inl (Uncaught_Error ''AttributeError'')
               | Some ds \<Rightarrow>
                  let primary = filter (\<lambda>f. truthy (dget_or f ''is_primary'' JNull)) ds;
                      target = (if primary \<noteq> [] then hd primary else last ds)
                  in (case dget target ''file_id'' of
                        None \<Rightarrow> Inl (Uncaught_Error ''KeyError'')
                      | Some (JList ids) \<Rightarrow> if 1 < length ids then Inr (ids ! 1) else Inl (Uncaught_Error ''IndexError'')
                      | Some i \<Rightarrow> Inr i))
           | _ \<Rightarrow> Inl (Uncaught_Error ''AttributeError or TypeError'')))"

text \<open>
  \<open>int(data.get("size_in_bytes") or data.get("size", 0) * 1024)\<close>; \<open>float_int\<close> and \<open>float_kb\<close> read the text of a
  float, the second times 1024.
\<close>

definition size_of_file :: "(string \<Rightarrow> int option) \<Rightarrow> (string \<Rightarrow> int option) \<Rightarrow> (string \<times> json) list \<Rightarrow> int option" where
  "size_of_file float_int float_kb data =
    (let v = dget_or data ''size_in_bytes'' JNull in
     if truthy v then py_int float_int v
     else case dget_or data ''size'' (JInt 0) of
            JInt n \<Rightarrow> Some (n * 1024)
          | JBool b \<Rightarrow> Some (if b then 1024 else 0)
          | JFloat t \<Rightarrow> float_kb t
          | JStr s \<Rightarrow> str_int (concat (replicate 1024 s))
          | _ \<Rightarrow> None)"

definition control_text :: "char \<Rightarrow> string" where
  "control_text c = repr_str [c] @ '' (U+00'' @ upper [hex_char (code c div 16), hex_char (code c mod 16)] @ '')''"

definition violation_text :: "string \<Rightarrow> path_violation \<Rightarrow> string" where
  "violation_text name v = ''file_name: '' @
    (case v of
       Empty_Name \<Rightarrow> ''must not be empty''
     | Traversal_Segment \<Rightarrow> ''traversal segment '' @ repr_str name @ '' is not a valid component''
     | Has_Separator \<Rightarrow> ''path separators are not allowed in a component, got '' @ repr_str name
     | Has_Nul \<Rightarrow> ''NUL byte is not allowed''
     | Control_Character \<Rightarrow> ''control character '' @ control_text (the (find (\<lambda>c. code c < 32) name)) @ '' is not allowed''
     | _ \<Rightarrow> [])"

definition get_download_url ::
  "downloader \<Rightarrow> (string \<Rightarrow> api_answer) \<Rightarrow> int \<Rightarrow> json \<Rightarrow> nexus_world \<Rightarrow> nexus_world \<times> (nexus_error + json)" where
  "get_download_url d session m f w =
    (let u = mod_url d m @ ''/files/'' @ py_str f @ ''/download_link.json'';
         refused = (\<lambda>s. if s \<in> {401, 403} then Some (Premium_Required ''Premium API key required to generate download links'')
                        else if s = 404 then Some (Download_Error (''Download link not found for file '' @ py_str f @ '' of mod '' @ int_str m))
                        else None)
     in case api_get d session u refused w of
          (w', Inl e) \<Rightarrow> (w', Inl e)
        | (w', Inr links) \<Rightarrow>
           (w', if \<not> truthy links then Inl (Download_Error (''No CDN download links available for file '' @ py_str f))
                else case links of
                       JList (l # _) \<Rightarrow>
                        (case as_dict l of
                           None \<Rightarrow> Inl (Uncaught_Error ''TypeError'')
                         | Some kvs \<Rightarrow> (case dget kvs ''URI'' of None \<Rightarrow> Inl (Uncaught_Error ''KeyError'') | Some uri \<Rightarrow> Inr uri))
                     | _ \<Rightarrow> Inl (Uncaught_Error ''KeyError or TypeError'')))"

text \<open>
  One attempt of \<open>get_file_info\<close>.  The identifier of the file is a variable of the whole call: once the
  listing has given it, a later attempt does not list the files again.
\<close>

definition listed_file ::
  "downloader \<Rightarrow> (string \<Rightarrow> api_answer) \<Rightarrow> int \<Rightarrow> json option \<times> nexus_world \<Rightarrow> (json option \<times> nexus_world) \<times> (nexus_error + json)" where
  "listed_file d session m st =
    (case st of
       (Some f, w) \<Rightarrow> (st, Inr f)
     | (None, w) \<Rightarrow>
        (let refused = (\<lambda>s. if s \<in> {401, 403} then Some (Download_Error ''Invalid or missing Nexus API key'')
                            else if s = 404 then Some (Download_Error (''Mod '' @ int_str m @ '' not found'')) else None)
         in case api_get d session (mod_url d m @ ''/files.json'') refused w of
              (w', Inl e) \<Rightarrow> ((None, w'), Inl e)
            | (w', Inr listing) \<Rightarrow>
               (case pick_file m listing of Inl e \<Rightarrow> ((None, w'), Inl e) | Inr f \<Rightarrow> ((Some f, w'), Inr f))))"

definition file_data ::
  "downloader \<Rightarrow> (string \<Rightarrow> api_answer) \<Rightarrow> int \<Rightarrow> json \<Rightarrow> nexus_world \<Rightarrow> nexus_world \<times> (nexus_error + json)" where
  "file_data d session m f =
     api_get d session (mod_url d m @ ''/files/'' @ py_str f @ ''.json'')
       (\<lambda>s. if s = 401 then Some (Download_Error ''Invalid or missing Nexus API key'')
            else if s = 403 then Some (Download_Error ''Nexus API key does not have premium access'')
            else if s = 404 then Some (Download_Error (''File '' @ py_str f @ '' not found for mod '' @ int_str m)) else None)"

text \<open>The size, the MD5 and the checked name the metadata gives.\<close>

definition read_data ::
  "(string \<Rightarrow> string) \<Rightarrow> (string \<Rightarrow> int option) \<Rightarrow> (string \<Rightarrow> int option) \<Rightarrow> int \<Rightarrow> json \<Rightarrow> json \<Rightarrow>
   nexus_error + int \<times> string \<times> string" where
  "read_data path_name float_int float_kb m f data =
    (case as_dict data of
       None \<Rightarrow> Inl (Uncaught_Error ''AttributeError'')
     | Some kvs \<Rightarrow>
        (case size_of_file float_int float_kb kvs of
           None \<Rightarrow> Inl (Uncaught_Error ''TypeError or ValueError'')
         | Some bytes \<Rightarrow>
            let md5 = (let v = dget_or kvs ''md5'' JNull in if truthy v then py_str v else []);
                raw = py_str (dget_or kvs ''file_name'' (JStr (''mod_'' @ int_str m @ ''_file_'' @ py_str f)));
                name = (if path_name raw = [] then raw else path_name raw)
            in case assert_safe_component (Some name) of
                 Inl v \<Rightarrow> Inl (Download_Error (''Nexus API returned unsafe filename '' @ repr_str raw @ '': '' @ violation_text name v))
               | Inr _ \<Rightarrow> Inr (bytes, md5, name)))"

definition file_info_attempt ::
  "(string \<Rightarrow> string) \<Rightarrow> (string \<Rightarrow> int option) \<Rightarrow> (string \<Rightarrow> int option) \<Rightarrow> downloader \<Rightarrow> int \<Rightarrow>
   (nat \<Rightarrow> string \<Rightarrow> api_answer) \<Rightarrow> nat \<Rightarrow> json option \<times> nexus_world \<Rightarrow>
   (json option \<times> nexus_world) \<times> (nexus_error + file_info)" where
  "file_info_attempt path_name float_int float_kb d m answers k st =
    (case listed_file d (answers k) m st of
       (st1, Inl e) \<Rightarrow> (st1, Inl e)
     | ((chosen, w1), Inr f) \<Rightarrow>
        (case file_data d (answers k) m f w1 of
           (w2, Inl e) \<Rightarrow> ((chosen, w2), Inl e)
         | (w2, Inr data) \<Rightarrow>
            (case read_data path_name float_int float_kb m f data of
               Inl e \<Rightarrow> ((chosen, w2), Inl e)
             | Inr (bytes, md5, name) \<Rightarrow>
                (let info = (\<lambda>u. \<lparr>nexus_id = m, file_id = f, file_name = name, info_size = bytes, info_md5 = md5,
                                info_sha256 = [], download_url = u\<rparr>)
                 in case get_download_url d (answers k) m f w2 of
                      (w3, Inl (Premium_Required _)) \<Rightarrow> ((chosen, w3), Inr (info FREE_FALLBACK))
                    | (w3, Inl e) \<Rightarrow> ((chosen, w3), Inl e)
                    | (w3, Inr u) \<Rightarrow> ((chosen, w3), Inr (info u))))))"

definition get_file_info ::
  "(string \<Rightarrow> string) \<Rightarrow> (string \<Rightarrow> int option) \<Rightarrow> (string \<Rightarrow> int option) \<Rightarrow> downloader \<Rightarrow> int \<Rightarrow> json option \<Rightarrow>
   (nat \<Rightarrow> string \<Rightarrow> api_answer) \<Rightarrow> nexus_world \<Rightarrow> nexus_world \<times> (nexus_error + file_info)" where
  "get_file_info path_name float_int float_kb d m wanted answers w =
    (case attempts 4 1 (file_info_attempt path_name float_int float_kb d m answers) (wanted, w) of
       ((_, w'), r) \<Rightarrow> (w', r))"

section \<open>The download\<close>

text \<open>
  What one attempt meets: an error of \<open>mkdir\<close>; the session's error or status, error text and content length; an error
  of the opening of the file; the chunks written and the error that ends them; whether a removal succeeds.
\<close>

record transfer =
  mkdir_error :: "string option"
  response :: "nexus_error + nat \<times> string \<times> string option"
  open_error :: "string option"
  chunks :: "string list"
  broken_by :: "nexus_error option"
  removable :: bool

fun progress_updates :: "int \<Rightarrow> nat \<Rightarrow> string list \<Rightarrow> (int \<times> nat) list" where
  "progress_updates expected n [] = []"
| "progress_updates expected n (c # cs) = (expected, n + length c) # progress_updates expected (n + length c) cs"

definition cleanup :: "bool \<Rightarrow> parts \<Rightarrow> nexus_world \<Rightarrow> nexus_world" where
  "cleanup can dest w = (if can then w\<lparr>stored := ddel dest (stored w)\<rparr> else w)"

definition expected_total :: "file_info \<Rightarrow> string option \<Rightarrow> int option" where
  "expected_total fi content_length =
    (if info_size fi = 0 \<and> nonempty content_length then str_int (the content_length) else Some (info_size fi))"

text \<open>The body of the \<open>try\<close>: the content written, or what was raised.\<close>

definition receive :: "bool \<Rightarrow> file_info \<Rightarrow> parts \<Rightarrow> transfer \<Rightarrow> nexus_world \<Rightarrow> nexus_world \<times> (nexus_error + string)" where
  "receive callback fi dest t w =
    (case response t of
       Inl e \<Rightarrow> (w, Inl e)
     | Inr (status, text, content_length) \<Rightarrow>
        if 400 \<le> status then (w, Inl (Client_Response status text))
        else
          (case expected_total fi content_length of
             None \<Rightarrow> (w, Inl (Uncaught_Error ''ValueError''))
           | Some expected \<Rightarrow>
              (case open_error t of
                 Some e \<Rightarrow> (w, Inl (Os_Error e))
               | None \<Rightarrow>
                  (let w' = w\<lparr>stored := dset dest (concat (chunks t)) (stored w),
                              reported := reported w @ (if callback then progress_updates expected 0 (chunks t) else [])\<rparr>
                   in (w', case broken_by t of Some e \<Rightarrow> Inl e | None \<Rightarrow> Inr (concat (chunks t)))))))"

text \<open>The two \<open>except\<close> clauses: \<open>None\<close> is an exception they let through.\<close>

definition wrapped :: "file_info \<Rightarrow> nexus_error \<Rightarrow> nexus_error option" where
  "wrapped fi e =
    (case e of
       Client_Connection s \<Rightarrow> Some (Download_Error (''Download failed for '' @ repr_str (file_name fi) @ '': '' @ s))
     | Client_Response _ s \<Rightarrow> Some (Download_Error (''Download failed for '' @ repr_str (file_name fi) @ '': '' @ s))
     | Client_Error s \<Rightarrow> Some (Download_Error (''Download failed for '' @ repr_str (file_name fi) @ '': '' @ s))
     | Timeout_Error s \<Rightarrow> Some (Download_Error (''I/O or timeout error for '' @ repr_str (file_name fi) @ '': '' @ s))
     | Os_Error s \<Rightarrow> Some (Download_Error (''I/O or timeout error for '' @ repr_str (file_name fi) @ '': '' @ s))
     | _ \<Rightarrow> None)"

definition hash_error :: "(string \<Rightarrow> string) \<Rightarrow> (string \<Rightarrow> string) \<Rightarrow> file_info \<Rightarrow> string \<Rightarrow> nexus_error option" where
  "hash_error md5 sha256 fi content =
    (if info_md5 fi \<noteq> [] \<and> lower (md5 content) \<noteq> lower (info_md5 fi) then Some (Hash_Validation ''MD5 mismatch'')
     else if info_sha256 fi \<noteq> [] \<and> validate_sha256_format (info_sha256 fi) \<and> lower (sha256 content) \<noteq> lower (info_sha256 fi)
       then Some (Hash_Validation ''SHA256 mismatch'')
     else None)"

definition download_attempt ::
  "(parts \<Rightarrow> parts) \<Rightarrow> (parts \<Rightarrow> string \<Rightarrow> parts) \<Rightarrow> (string \<Rightarrow> string) \<Rightarrow> (string \<Rightarrow> string) \<Rightarrow> downloader \<Rightarrow> file_info \<Rightarrow>
   (nat \<Rightarrow> transfer) \<Rightarrow> nat \<Rightarrow> nexus_world \<Rightarrow> nexus_world \<times> (nexus_error + parts)" where
  "download_attempt resolve join_path md5 sha256 d fi transfers k w =
    (let t = transfers k in
     case mkdir_error t of
       Some e \<Rightarrow> (w, Inl (Os_Error e))
     | None \<Rightarrow>
        (case safe_join resolve join_path (staging_dir d) (file_name fi) of
           Inl v \<Rightarrow> (w, Inl (Path_Violation v))
         | Inr dest \<Rightarrow>
            (case download_url fi of
               JStr u \<Rightarrow>
                (case authorize (egress d) ''GET'' u of
                   Inl e \<Rightarrow> (w, Inl (Egress e))
                 | Inr _ \<Rightarrow>
                    (case receive (with_callback d) fi dest t (w\<lparr>sent_urls := sent_urls w @ [u]\<rparr>) of
                       (w', Inl e) \<Rightarrow>
                         (case wrapped fi e of
                            Some e' \<Rightarrow> (cleanup (removable t) dest w', Inl e')
                          | None \<Rightarrow> (w', Inl e))
                     | (w', Inr content) \<Rightarrow>
                         (case hash_error md5 sha256 fi content of
                            Some e \<Rightarrow> (cleanup (removable t) dest w', Inl e)
                          | None \<Rightarrow> (w', Inr dest))))
             | _ \<Rightarrow> (w, Inl (Uncaught_Error ''AttributeError'')))))"

section \<open>The manual fallback\<close>

text \<open>
  What a poll sees: the files, whether each of the two opens for appending (the browser has let go of it), the size
  the target has a second later (\<open>None\<close>: it is gone) and whether the copy fails.
\<close>

record poll =
  seen :: file_system
  dest_free :: bool
  target_free :: bool
  later_size :: "nat option"
  copy_fails :: bool

definition dest_ready :: "file_info \<Rightarrow> parts \<Rightarrow> poll \<Rightarrow> bool" where
  "dest_ready fi dest p =
    (case dget (seen p) dest of
       None \<Rightarrow> False
     | Some c \<Rightarrow> c \<noteq> [] \<and> (info_size fi > 0 \<longrightarrow> int (length c) = info_size fi) \<and> dest_free p)"

definition target_ready :: "file_info \<Rightarrow> poll \<Rightarrow> string \<Rightarrow> bool" where
  "target_ready fi p c \<longleftrightarrow> c \<noteq> [] \<and> (info_size fi = 0 \<or> int (length c) = info_size fi) \<and> target_free p
     \<and> (info_size fi = 0 \<longrightarrow> later_size p = Some (length c)) \<and> \<not> copy_fails p"

definition poll_once :: "file_info \<Rightarrow> parts \<Rightarrow> parts \<Rightarrow> poll \<Rightarrow> file_system option" where
  "poll_once fi dest target p =
    (if dest_ready fi dest p then Some (seen p)
     else case dget (seen p) target of
            None \<Rightarrow> None
          | Some c \<Rightarrow> if target_ready fi p c then Some (dset dest c (seen p)) else None)"

text \<open>Every two seconds for an hour; \<open>polls\<close> gives what the poll at a second sees.\<close>

function watch :: "file_info \<Rightarrow> parts \<Rightarrow> parts \<Rightarrow> (nat \<Rightarrow> poll) \<Rightarrow> nat \<Rightarrow> nexus_error + file_system" where
  "watch fi dest target polls elapsed =
    (if elapsed < 3600 then
       (case poll_once fi dest target (polls elapsed) of
          Some fs \<Rightarrow> Inr fs
        | None \<Rightarrow> watch fi dest target polls (elapsed + 2))
     else Inl (Download_Error (''Manual download for '' @ file_name fi @ '' timed out after 1 hour.'')))"
  by pat_completeness auto
termination by (relation "measure (\<lambda>(_, _, _, _, elapsed). 3600 - elapsed)") auto

declare watch.simps [simp del]

definition manual_fallback ::
  "(parts \<Rightarrow> parts) \<Rightarrow> (parts \<Rightarrow> string \<Rightarrow> parts) \<Rightarrow> downloader \<Rightarrow> file_info \<Rightarrow> parts \<Rightarrow> string option \<Rightarrow> (nat \<Rightarrow> poll) \<Rightarrow>
   nexus_world \<Rightarrow> nexus_world \<times> (nexus_error + parts)" where
  "manual_fallback resolve join_path d fi dest mkdir_fails polls w =
    (case mkdir_fails of
       Some e \<Rightarrow> (w, Inl (Os_Error e))
     | None \<Rightarrow>
        (case safe_join resolve join_path (butlast (staging_dir d) @ [''downloads'']) (file_name fi) of
           Inl v \<Rightarrow> (w, Inl (Path_Violation v))
         | Inr target \<Rightarrow>
            (case watch fi dest target polls 0 of
               Inl e \<Rightarrow> (w\<lparr>stored := seen (polls 3598)\<rparr>, Inl e)
             | Inr fs \<Rightarrow> (w\<lparr>stored := fs\<rparr>, Inr dest))))"

text \<open>What the call meets before its attempts: an error of the first \<open>mkdir\<close>, and the fallback's.\<close>

record download_env =
  staging_error :: "string option"
  downloads_error :: "string option"
  polling :: "nat \<Rightarrow> poll"
  on_attempt :: "nat \<Rightarrow> transfer"

definition download ::
  "(parts \<Rightarrow> parts) \<Rightarrow> (parts \<Rightarrow> string \<Rightarrow> parts) \<Rightarrow> (string \<Rightarrow> string) \<Rightarrow> (string \<Rightarrow> string) \<Rightarrow> downloader \<Rightarrow> download_env \<Rightarrow>
   file_info \<Rightarrow> nexus_world \<Rightarrow> nexus_world \<times> (nexus_error + parts)" where
  "download resolve join_path md5 sha256 d env fi w =
    (case assert_safe_component (Some (file_name fi)) of
       Inl v \<Rightarrow> (w, Inl (Path_Violation v))
     | Inr _ \<Rightarrow>
        (case staging_error env of
           Some e \<Rightarrow> (w, Inl (Os_Error e))
         | None \<Rightarrow>
            (case safe_join resolve join_path (staging_dir d) (file_name fi) of
               Inl v \<Rightarrow> (w, Inl (Path_Violation v))
             | Inr dest \<Rightarrow>
                if download_url fi = FREE_FALLBACK
                then manual_fallback resolve join_path d fi dest (downloads_error env) (polling env) w
                else attempts 4 1 (download_attempt resolve join_path md5 sha256 d fi (on_attempt env)) w)))"

section \<open>Attempts\<close>

lemma attempts_last:
  assumes "attempts n k body w = (w', r)" "I k w"
    and "\<And>j v v' e. I j v \<Longrightarrow> body j v = (v', Inl e) \<Longrightarrow> I (Suc j) v'"
  shows "\<exists>j v. k \<le> j \<and> j \<le> k + n \<and> I j v \<and> body j v = (w', r)"
  using assms(1,2)
proof (induction n arbitrary: k w)
  case 0
  then show ?case by auto
next
  case (Suc n)
  obtain v s where b: "body k w = (v, s)" by (cases "body k w")
  show ?case
  proof (cases "\<exists>e. s = Inl e \<and> should_retry e")
    case True
    then obtain e where e: "s = Inl e" "should_retry e" by blast
    have "attempts n (Suc k) body v = (w', r)" using Suc.prems(1) b e by simp
    from Suc.IH[OF this assms(3)[OF Suc.prems(2) b[unfolded e(1)]]] show ?thesis by (auto intro: Suc_leD)
  next
    case False
    then have "body k w = (w', r)" using Suc.prems(1) b by (auto split: sum.splits if_splits)
    with Suc.prems(2) show ?thesis by (intro exI[of _ k] exI[of _ w]) simp
  qed
qed

text \<open>Five attempts at most: what is retried no more comes out as it was raised.\<close>

lemma attempts_stop: "body k w = (w', Inl e) \<Longrightarrow> \<not> should_retry e \<Longrightarrow> attempts n k body w = (w', Inl e)"
  by (cases n) auto

lemma attempts_done: "body k w = (w', Inr a) \<Longrightarrow> attempts n k body w = (w', Inr a)"
  by (cases n) auto

lemma waits_grow: "map download_wait [1, 2, 3, 4] = [5, 8, 16, 32]" "map file_info_wait [1, 2, 3, 4] = [2, 4, 8, 16]"
  by (simp_all add: download_wait_def file_info_wait_def wait_exponential_def)

text \<open>
  A connection that breaks while a file is downloaded becomes a \<open>DownloadError\<close>, and whether that is tried again
  depends on the text alone: a reset of the connection is not, a mod that is not found is when its number has 429 in it.
\<close>

lemma broken_download_not_retried:
  "wrapped fi (Client_Connection s) = Some (Download_Error (''Download failed for '' @ repr_str (file_name fi) @ '': '' @ s))"
  "\<not> should_retry (Download_Error ''Download failed: reset'')"
  "should_retry (Client_Connection s)"
  "should_retry (Download_Error ''Mod 14290 not found'')"
  "\<not> should_retry (Download_Error ''Mod 14280 not found'')"
proof -
  show "\<not> should_retry (Download_Error ''Download failed: reset'')"
    by (simp add: should_retry_def retry_text_def lower_def lower_char_def code_def contains_def starts_with_def char_of_def Let_def)
  show "should_retry (Download_Error ''Mod 14290 not found'')"
    by (simp add: should_retry_def retry_text_def lower_def lower_char_def code_def contains_def starts_with_def char_of_def Let_def)
  show "\<not> should_retry (Download_Error ''Mod 14280 not found'')"
    by (simp add: should_retry_def retry_text_def lower_def lower_char_def code_def contains_def starts_with_def char_of_def Let_def)
qed (simp_all add: wrapped_def should_retry_def)

section \<open>What a download leaves\<close>

lemma receiveD:
  assumes "receive cb fi dest t w = (w', Inr content)"
  shows "broken_by t = None \<and> content = concat (chunks t) \<and> stored w' = dset dest content (stored w) \<and> sent_urls w' = sent_urls w"
  using assms by (auto simp: receive_def Let_def split: sum.splits prod.splits if_splits option.splits)

lemma receive_frame:
  assumes "receive cb fi dest t w = (w', r)"
  shows "sent_urls w' = sent_urls w" "p \<noteq> dest \<Longrightarrow> dget (stored w') p = dget (stored w) p"
  using assms by (auto simp: receive_def Let_def split: sum.splits prod.splits if_splits option.splits)

lemma cleanup_frame:
  "sent_urls (cleanup can dest w) = sent_urls w"
  "p \<noteq> dest \<Longrightarrow> dget (stored (cleanup can dest w)) p = dget (stored w) p"
  "dget (stored (cleanup True dest w)) dest = None"
  by (simp_all add: cleanup_def)

text \<open>The errors the \<open>except\<close> clauses name, and an attempt that meets only such.\<close>

definition handled :: "nexus_error \<Rightarrow> bool" where
  "handled e \<longleftrightarrow> (case e of Client_Connection _ \<Rightarrow> True | Client_Response _ _ \<Rightarrow> True | Client_Error _ \<Rightarrow> True
     | Timeout_Error _ \<Rightarrow> True | Os_Error _ \<Rightarrow> True | _ \<Rightarrow> False)"

definition only_handled :: "transfer \<Rightarrow> bool" where
  "only_handled t \<longleftrightarrow> removable t \<and> (case broken_by t of None \<Rightarrow> True | Some e \<Rightarrow> handled e)"

lemma wrapped_handled: "wrapped fi e = None \<longleftrightarrow> \<not> handled e"
  by (cases e) (simp_all add: wrapped_def handled_def)

text \<open>An attempt that is answered sends the one URL, which was authorised.\<close>

definition asked :: "downloader \<Rightarrow> file_info \<Rightarrow> nexus_world \<Rightarrow> nexus_world \<Rightarrow> nat \<Rightarrow> bool" where
  "asked d fi w w' n \<longleftrightarrow> sent_urls w' = sent_urls w
     \<or> (\<exists>u k. download_url fi = JStr u \<and> k \<le> n \<and> authorize (egress d) ''GET'' u = Inr () \<and> sent_urls w' = sent_urls w @ replicate k u)"

lemma asked_refl: "asked d fi w w n"
  by (simp add: asked_def)

lemma asked_mono: "asked d fi w w' n \<Longrightarrow> n \<le> m \<Longrightarrow> asked d fi w w' m"
  unfolding asked_def by (meson le_trans)

lemma asked_more:
  assumes "asked d fi w w1 n" "download_url fi = JStr u" "authorize (egress d) ''GET'' u = Inr ()" "sent_urls w2 = sent_urls w1 @ [u]"
  shows "asked d fi w w2 (Suc n)"
proof -
  have "\<exists>k \<le> n. sent_urls w1 = sent_urls w @ replicate k u" using assms(1,2) unfolding asked_def by (auto intro: exI[of _ 0])
  then obtain k where "k \<le> n" "sent_urls w1 = sent_urls w @ replicate k u" by blast
  with assms(2-4) show ?thesis
    unfolding asked_def by (intro disjI2 exI[of _ u] exI[of _ "Suc k"]) (simp add: replicate_append_same)
qed

text \<open>The two outcomes of an attempt.\<close>

lemma attempt_cases:
  assumes "download_attempt resolve join_path md5 sha256 d fi transfers k w = (w', r)"
    and dest: "safe_join resolve join_path (staging_dir d) (file_name fi) = Inr dest"
  obtains (idle) e where "w' = w" "r = Inl e"
    | (sent) u w1 r1 where "download_url fi = JStr u" "authorize (egress d) ''GET'' u = Inr ()"
        "receive (with_callback d) fi dest (transfers k) (w\<lparr>sent_urls := sent_urls w @ [u]\<rparr>) = (w1, r1)"
        "(\<exists>e. r1 = Inl e \<and> wrapped fi e = None \<and> w' = w1 \<and> r = Inl e)
         \<or> (\<exists>e. w' = cleanup (removable (transfers k)) dest w1 \<and> r = Inl e)
         \<or> (\<exists>c. r1 = Inr c \<and> hash_error md5 sha256 fi c = None \<and> w' = w1 \<and> r = Inr dest)"
proof (cases "mkdir_error (transfers k) = None \<and> (\<exists>u. download_url fi = JStr u \<and> authorize (egress d) ''GET'' u = Inr ())")
  case False
  have "\<exists>e. w' = w \<and> r = Inl e"
    using assms False by (auto simp: download_attempt_def Let_def split: option.splits json.splits sum.splits)
  with idle show thesis by blast
next
  case True
  then obtain u where u: "mkdir_error (transfers k) = None" "download_url fi = JStr u" "authorize (egress d) ''GET'' u = Inr ()" by blast
  obtain w1 r1 where rec: "receive (with_callback d) fi dest (transfers k) (w\<lparr>sent_urls := sent_urls w @ [u]\<rparr>) = (w1, r1)"
    by (cases "receive (with_callback d) fi dest (transfers k) (w\<lparr>sent_urls := sent_urls w @ [u]\<rparr>)")
  show thesis
    by (rule sent[OF u(2,3) rec])
      (use assms(1) in \<open>auto simp: download_attempt_def Let_def u dest rec split: sum.splits option.splits\<close>)
qed

lemma attempt_asked:
  assumes "download_attempt resolve join_path md5 sha256 d fi transfers k w1 = (w2, r)"
    and "safe_join resolve join_path (staging_dir d) (file_name fi) = Inr dest" and "asked d fi w w1 n"
  shows "asked d fi w w2 (Suc n)"
  using assms(1,2)
proof (cases rule: attempt_cases)
  case idle
  then show ?thesis using assms(3) by (auto intro: asked_mono)
next
  case (sent u v r1)
  have "sent_urls w2 = sent_urls v" using sent(4) by (auto simp: cleanup_frame)
  also have "\<dots> = sent_urls w1 @ [u]" using receive_frame(1)[OF sent(3)] by simp
  finally show ?thesis by (rule asked_more[OF assms(3) sent(1,2)])
qed

lemma attempt_frame:
  assumes "download_attempt resolve join_path md5 sha256 d fi transfers k w = (w', r)"
    and "safe_join resolve join_path (staging_dir d) (file_name fi) = Inr dest" and "p \<noteq> dest"
  shows "dget (stored w') p = dget (stored w) p"
  using assms(1,2)
proof (cases rule: attempt_cases)
  case (sent u v r1)
  have "dget (stored w') p = dget (stored v) p" using sent(4) assms(3) by (auto simp: cleanup_frame)
  also have "\<dots> = dget (stored w) p" using receive_frame(2)[OF sent(3) assms(3)] by simp
  finally show ?thesis .
qed simp

text \<open>A failed attempt that met only handled errors leaves the old file or none.\<close>

lemma receive_unhandled:
  assumes "receive cb fi dest t w = (w', Inl e)" "\<not> handled e" "only_handled t"
  shows "stored w' = stored w"
  using assms by (auto simp: receive_def Let_def only_handled_def split: sum.splits prod.splits if_splits option.splits)

lemma failed_attempt:
  assumes "download_attempt resolve join_path md5 sha256 d fi transfers k w = (w', Inl e)"
    and "safe_join resolve join_path (staging_dir d) (file_name fi) = Inr dest" and "only_handled (transfers k)"
  shows "dget (stored w') dest = None \<or> dget (stored w') dest = dget (stored w) dest"
  using assms(1,2)
proof (cases rule: attempt_cases)
  case (sent u v r1)
  from sent(4) consider (let_through) f where "r1 = Inl f" "wrapped fi f = None" "w' = v"
    | (cleaned) "w' = cleanup (removable (transfers k)) dest v" by auto
  then show ?thesis
  proof cases
    case let_through
    then show ?thesis using receive_unhandled[of _ fi dest "transfers k" _ v f] sent(3) assms(3) by (simp add: wrapped_handled)
  next
    case cleaned
    then show ?thesis using assms(3) by (simp add: only_handled_def cleanup_frame)
  qed
qed simp

text \<open>The direct download is the loop of attempts on a checked name.\<close>

lemma downloadD:
  assumes "download resolve join_path md5 sha256 d env fi w = (w', r)" "download_url fi \<noteq> FREE_FALLBACK"
  shows "(w' = w \<and> (\<exists>e. r = Inl e)) \<or> (assert_safe_component (Some (file_name fi)) = Inr (file_name fi)
    \<and> (\<exists>dest. safe_join resolve join_path (staging_dir d) (file_name fi) = Inr dest)
    \<and> attempts 4 1 (download_attempt resolve join_path md5 sha256 d fi (on_attempt env)) w = (w', r))"
proof (cases "assert_safe_component (Some (file_name fi))")
  case (Inr s)
  then have "s = file_name fi" by (auto simp: assert_safe_component_def split: if_splits)
  with Inr show ?thesis
    using assms by (cases "safe_join resolve join_path (staging_dir d) (file_name fi)") (auto simp: download_def split: option.splits)
qed (use assms in \<open>auto simp: download_def\<close>)

text \<open>
  C32: what a direct download returns is complete and intact: the path of a safe name below the staging directory, holding
  the chunks of an attempt that nothing broke off, with the MD5 that was given and the SHA-256 that was given in its format.
\<close>

theorem downloaded_file_is_intact:
  assumes "download resolve join_path md5 sha256 d env fi w = (w', Inr dest)" and "download_url fi \<noteq> FREE_FALLBACK"
  shows "relative_to dest (resolve (staging_dir d)) \<and> pieces (file_name fi) = [file_name fi]
    \<and> (\<exists>k content. k \<in> {1..5} \<and> broken_by (on_attempt env k) = None \<and> content = concat (chunks (on_attempt env k))
        \<and> dget (stored w') dest = Some content
        \<and> (info_md5 fi \<noteq> [] \<longrightarrow> lower (md5 content) = lower (info_md5 fi))
        \<and> (validate_sha256_format (info_sha256 fi) \<longrightarrow> lower (sha256 content) = lower (info_sha256 fi)))"
proof -
  let ?body = "download_attempt resolve join_path md5 sha256 d fi (on_attempt env)"
  from downloadD[OF assms] obtain place where safe: "assert_safe_component (Some (file_name fi)) = Inr (file_name fi)"
    and place: "safe_join resolve join_path (staging_dir d) (file_name fi) = Inr place"
    and run: "attempts 4 1 ?body w = (w', Inr dest)" by auto
  obtain k v where k: "1 \<le> k" "k \<le> 1 + 4" and b: "?body k v = (w', Inr dest)"
    using attempts_last[OF run, of "\<lambda>_ _. True"] by auto
  from b place show ?thesis
  proof (cases rule: attempt_cases)
    case (sent u w1 r1)
    then obtain c where c: "r1 = Inr c" "hash_error md5 sha256 fi c = None" "w' = w1" "dest = place" by auto
    have got: "broken_by (on_attempt env k) = None" "c = concat (chunks (on_attempt env k))" "dget (stored w') dest = Some c"
      using receiveD[of _ fi place "on_attempt env k" _ w1 c] sent(3) c by auto
    have "validate_sha256_format (info_sha256 fi) \<Longrightarrow> info_sha256 fi \<noteq> []" by (auto simp: validate_sha256_format_def)
    moreover have "relative_to dest (resolve (staging_dir d))"
      using place c(4) by (auto simp: safe_join_def Let_def split: if_splits)
    ultimately show ?thesis
      using got c(2) k safe_component_is_one_piece[OF safe] by (auto simp: hash_error_def split: if_splits)
  qed auto
qed

text \<open>
  Every request of a direct download is a GET of its one URL, authorised by the egress policy, and there are at most
  five; nothing but the destination is written.  A failed download that met only errors the code names, and could
  remove files, leaves at the destination what was there before or nothing.
\<close>

theorem failed_download_leaves_no_part:
  assumes "download resolve join_path md5 sha256 d env fi w = (w', r)" and "download_url fi \<noteq> FREE_FALLBACK"
    and "safe_join resolve join_path (staging_dir d) (file_name fi) = Inr dest"
  shows "(sent_urls w' = sent_urls w \<or> (\<exists>u n. download_url fi = JStr u \<and> n \<le> 5 \<and> authorize (egress d) ''GET'' u = Inr ()
        \<and> sent_urls w' = sent_urls w @ replicate n u))
    \<and> (\<forall>p. p \<noteq> dest \<longrightarrow> dget (stored w') p = dget (stored w) p)
    \<and> ((\<forall>k \<in> {1..5}. only_handled (on_attempt env k)) \<longrightarrow> (\<exists>e. r = Inl e)
        \<longrightarrow> dget (stored w') dest = None \<or> dget (stored w') dest = dget (stored w) dest)"
proof -
  let ?body = "download_attempt resolve join_path md5 sha256 d fi (on_attempt env)"
  let ?calm = "\<forall>k \<in> {1..5}. only_handled (on_attempt env k)"
  let ?I = "\<lambda>k v. asked d fi w v (k - 1) \<and> (\<forall>p. p \<noteq> dest \<longrightarrow> dget (stored v) p = dget (stored w) p)
    \<and> (?calm \<longrightarrow> k \<le> 6 \<longrightarrow> dget (stored v) dest = None \<or> dget (stored v) dest = dget (stored w) dest) \<and> 1 \<le> k"
  have step: "?I (Suc k) v'" if I: "?I k v" and b: "?body k v = (v', Inl e)" for k v v' e
  proof (intro conjI allI impI)
    show "asked d fi w v' (Suc k - 1)" using attempt_asked[OF b assms(3), of w "k - 1"] I by simp
    show "p \<noteq> dest \<Longrightarrow> dget (stored v') p = dget (stored w) p" for p using attempt_frame[OF b assms(3)] I by simp
    show "dget (stored v') dest = None \<or> dget (stored v') dest = dget (stored w) dest" if "?calm" "Suc k \<le> 6"
    proof -
      have "only_handled (on_attempt env k)" using that I by auto
      from failed_attempt[OF b assms(3) this] I that show ?thesis by auto
    qed
  qed simp
  from downloadD[OF assms(1,2)] show ?thesis
  proof
    assume run: "assert_safe_component (Some (file_name fi)) = Inr (file_name fi)
      \<and> (\<exists>dest. safe_join resolve join_path (staging_dir d) (file_name fi) = Inr dest) \<and> attempts 4 1 ?body w = (w', r)"
    have I1: "?I 1 w" by (simp add: asked_refl)
    have "\<exists>j v. 1 \<le> j \<and> j \<le> 1 + 4 \<and> ?I j v \<and> ?body j v = (w', r)"
      by (rule attempts_last[where I = ?I, OF conjunct2[OF conjunct2[OF run]] I1 step])
    then obtain k v where "1 \<le> k \<and> k \<le> 1 + 4 \<and> ?I k v \<and> ?body k v = (w', r)" by (elim exE)
    then have k: "1 \<le> k" "k \<le> 5" and I: "?I k v" and b: "?body k v = (w', r)" by simp_all
    have "asked d fi w w' 5" by (rule asked_mono[OF attempt_asked[OF b assms(3)]]) (use I k in auto)
    moreover have "p \<noteq> dest \<Longrightarrow> dget (stored w') p = dget (stored w) p" for p using attempt_frame[OF b assms(3)] I by simp
    moreover have "dget (stored w') dest = None \<or> dget (stored w') dest = dget (stored w) dest" if "?calm" "r = Inl e" for e
    proof -
      have "?body k v = (w', Inl e)" using b that(2) by simp
      from conjunct1[OF conjunct2[OF conjunct2[OF step[OF I this]]]] that(1) k(2) show ?thesis by simp
    qed
    ultimately show ?thesis unfolding asked_def by blast
  qed simp
qed

definition demo_downloader :: downloader where
  "demo_downloader = \<lparr>egress = \<lparr>allowed_hosts = [''a.b''], allowed_methods = [], telegram_path_prefix = [], block_private_ips = True\<rparr>,
     staging_dir = [''s''], game_domain = ''g'', with_callback = True\<rparr>"

definition demo_info :: file_info where
  "demo_info = \<lparr>nexus_id = 1, file_id = JInt 2, file_name = ''f'', info_size = 2, info_md5 = ''xy'', info_sha256 = [],
     download_url = JStr ''https://a.b/''\<rparr>"

text \<open>The first attempt times out after one chunk, the second brings the wrong bytes, the third is given.\<close>

definition demo_transfer :: "string list \<Rightarrow> nexus_error option \<Rightarrow> transfer" where
  "demo_transfer cs e = \<lparr>mkdir_error = None, response = Inr (200, [], None), open_error = None, chunks = cs, broken_by = e, removable = True\<rparr>"

definition demo_env :: "transfer \<Rightarrow> download_env" where
  "demo_env third = \<lparr>staging_error = None, downloads_error = None,
     polling = (\<lambda>_. \<lparr>seen = [], dest_free = False, target_free = False, later_size = None, copy_fails = False\<rparr>),
     on_attempt = (\<lambda>k. if k = 1 then demo_transfer [''x''] (Some (Timeout_Error []))
        else if k = 2 then demo_transfer [''x'', ''z''] None else third)\<rparr>"

definition demo_files :: nexus_world where
  "demo_files = \<lparr>stored = [([''s'', ''f''], ''old''), ([''k''], ''k'')], sent_urls = [], reported = []\<rparr>"

lemma demo_download_good:
  "download id (\<lambda>r x. r @ [x]) id id demo_downloader (demo_env (demo_transfer [''x'', ''y''] None)) demo_info demo_files
   = (\<lparr>stored = [([''k''], ''k''), ([''s'', ''f''], ''xy'')], sent_urls = replicate 3 ''https://a.b/'',
       reported = [(2, 1), (2, 1), (2, 2), (2, 1), (2, 2)]\<rparr>, Inr [''s'', ''f''])"
  by code_simp

lemma demo_download_bad:
  "download id (\<lambda>r x. r @ [x]) id id demo_downloader (demo_env (demo_transfer [''x''] (Some (Client_Connection ''r'')))) demo_info demo_files
   = (\<lparr>stored = [([''k''], ''k'')], sent_urls = replicate 3 ''https://a.b/'',
       reported = [(2, 1), (2, 1), (2, 2), (2, 1)]\<rparr>, Inl (Download_Error (''Download failed for '' @ repr_str ''f'' @ '': r'')))"
  by code_simp

lemma demo_file_url: "download_url demo_info \<noteq> FREE_FALLBACK"
  by (simp add: demo_info_def FREE_FALLBACK_def)

theorem downloaded_file_is_intact_witness:
  "\<exists>w' content. download id (\<lambda>r x. r @ [x]) id id demo_downloader (demo_env (demo_transfer [''x'', ''y''] None)) demo_info demo_files = (w', Inr [''s'', ''f''])
     \<and> dget (stored w') [''s'', ''f''] = Some content \<and> lower content = lower ''xy''"
  using downloaded_file_is_intact[OF demo_download_good demo_file_url] demo_download_good by (auto simp: demo_info_def)

theorem failed_download_leaves_no_part_witness:
  "\<exists>w' e. download id (\<lambda>r x. r @ [x]) id id demo_downloader (demo_env (demo_transfer [''x''] (Some (Client_Connection ''r'')))) demo_info demo_files = (w', Inl e)
     \<and> dget (stored w') [''s'', ''f''] \<in> {None, Some ''old''} \<and> dget (stored w') [''k''] = Some ''k'' \<and> length (sent_urls w') \<le> 5"
proof -
  have "\<forall>k \<in> {1..5::nat}. only_handled (on_attempt (demo_env (demo_transfer [''x''] (Some (Client_Connection ''r'')))) k)"
    by (simp add: demo_env_def demo_transfer_def only_handled_def handled_def)
  moreover have "safe_join id (\<lambda>r x. r @ [x]) (staging_dir demo_downloader) (file_name demo_info) = Inr [''s'', ''f'']" by code_simp
  ultimately show ?thesis
    using failed_download_leaves_no_part[OF demo_download_bad demo_file_url] demo_download_bad
    by (auto simp: demo_files_def)
qed

section \<open>What the metadata gives\<close>

lemma api_get_sent:
  assumes "api_get d session u refused w = (w', r)"
  shows "sent_urls w' = sent_urls w \<and> (\<exists>e. r = Inl e) \<or> sent_urls w' = sent_urls w @ [u] \<and> authorize (egress d) ''GET'' u = Inr ()"
  using assms by (auto simp: api_get_def split: sum.splits)

definition cleared_requests :: "downloader \<Rightarrow> int \<Rightarrow> nexus_world \<Rightarrow> nexus_world \<Rightarrow> nat \<Rightarrow> bool" where
  "cleared_requests d m w w' n \<longleftrightarrow> (\<exists>us. sent_urls w' = sent_urls w @ us \<and> length us \<le> n
     \<and> (\<forall>u \<in> set us. starts_with (mod_url d m) u \<and> authorize (egress d) ''GET'' u = Inr ()))"

lemma cleared_refl: "cleared_requests d m w w n"
  by (simp add: cleared_requests_def)

lemma cleared_trans: "cleared_requests d m w w1 n \<Longrightarrow> cleared_requests d m w1 w2 k \<Longrightarrow> cleared_requests d m w w2 (n + k)"
  unfolding cleared_requests_def
proof (elim exE conjE)
  fix us vs
  assume "sent_urls w1 = sent_urls w @ us" "length us \<le> n" "\<forall>u \<in> set us. starts_with (mod_url d m) u \<and> authorize (egress d) ''GET'' u = Inr ()"
    "sent_urls w2 = sent_urls w1 @ vs" "length vs \<le> k" "\<forall>u \<in> set vs. starts_with (mod_url d m) u \<and> authorize (egress d) ''GET'' u = Inr ()"
  then show "\<exists>us. sent_urls w2 = sent_urls w @ us \<and> length us \<le> n + k \<and> (\<forall>u \<in> set us. starts_with (mod_url d m) u \<and> authorize (egress d) ''GET'' u = Inr ())"
    by (intro exI[of _ "us @ vs"]) auto
qed

lemma api_get_cleared:
  assumes "api_get d session (mod_url d m @ rest) refused w = (w', r)"
  shows "cleared_requests d m w w' 1"
  using api_get_sent[OF assms] by (auto simp: cleared_requests_def starts_with_iff)

lemma listed_file_cleared:
  assumes "listed_file d session m st = (st', r)"
  shows "cleared_requests d m (snd st) (snd st') 1"
  using assms
  by (auto simp: listed_file_def Let_def cleared_refl split: prod.splits option.splits sum.splits dest!: api_get_cleared)

lemma file_data_cleared: "file_data d session m f w = (w', r) \<Longrightarrow> cleared_requests d m w w' 1"
  unfolding file_data_def by (rule api_get_cleared)

lemma download_url_cleared:
  assumes "get_download_url d session m f w = (w', r)"
  shows "cleared_requests d m w w' 1"
  using assms by (auto simp: get_download_url_def Let_def split: prod.splits sum.splits dest!: api_get_cleared)

lemma file_info_attempt_cleared:
  assumes "file_info_attempt path_name fi fk d m answers k st = (st', r)"
  shows "cleared_requests d m (snd st) (snd st') 3"
proof -
  obtain st1 r1 where l: "listed_file d (answers k) m st = (st1, r1)" by (cases "listed_file d (answers k) m st")
  have one: "cleared_requests d m (snd st) (snd st1) 1" by (rule listed_file_cleared[OF l])
  have wider: "cleared_requests d m u v n \<Longrightarrow> cleared_requests d m u v (n + j)" for u v n j
    by (rule cleared_trans[OF _ cleared_refl])
  show ?thesis
  proof (cases r1)
    case (Inl e)
    then have "st' = st1" using assms l by (simp add: file_info_attempt_def)
    with wider[OF one, of 2] show ?thesis by (simp add: numeral_3_eq_3)
  next
    case (Inr f)
    obtain chosen w1 where s1: "st1 = (chosen, w1)" by (cases st1)
    obtain w2 r2 where f2: "file_data d (answers k) m f w1 = (w2, r2)" by (cases "file_data d (answers k) m f w1")
    have two: "cleared_requests d m (snd st) w2 2"
      using cleared_trans[OF one file_data_cleared[of d "answers k" m f "snd st1" w2 r2]] f2 s1 by (simp add: numeral_2_eq_2)
    obtain w3 r3 where u3: "get_download_url d (answers k) m f w2 = (w3, r3)" by (cases "get_download_url d (answers k) m f w2")
    have three: "cleared_requests d m (snd st) w3 3"
      using cleared_trans[OF two download_url_cleared[OF u3]] by simp
    have "snd st' = w2 \<or> snd st' = w3"
      using assms by (auto simp: file_info_attempt_def l Inr s1 f2 u3 Let_def split: sum.splits nexus_error.splits)
    then show ?thesis using wider[OF two, of 1] three by (auto simp: numeral_3_eq_3)
  qed
qed

text \<open>The name of a file is checked, whatever the API says.\<close>

lemma read_data_safe: "read_data path_name fi fk m f data = Inr (n, md5, name) \<Longrightarrow> assert_safe_component (Some name) = Inr name"
  by (auto simp: read_data_def Let_def assert_safe_component_def split: option.splits sum.splits if_splits)

lemma file_info_attempt_safe:
  assumes "file_info_attempt path_name fi fk d m answers k st = (st', Inr info)"
  shows "assert_safe_component (Some (file_name info)) = Inr (file_name info) \<and> nexus_id info = m"
proof -
  obtain st1 f where l: "listed_file d (answers k) m st = (st1, Inr f)"
    using assms by (auto simp: file_info_attempt_def split: prod.splits sum.splits)
  obtain chosen w1 where s1: "st1 = (chosen, w1)" by (cases st1)
  obtain w2 data where f2: "file_data d (answers k) m f w1 = (w2, Inr data)"
    using assms by (auto simp: file_info_attempt_def l s1 split: prod.splits sum.splits)
  obtain n md5 name where rd: "read_data path_name fi fk m f data = Inr (n, md5, name)"
    using assms by (auto simp: file_info_attempt_def l s1 f2 split: prod.splits sum.splits)
  have "file_name info = name \<and> nexus_id info = m"
    using assms by (auto simp: file_info_attempt_def l s1 f2 rd Let_def split: prod.splits sum.splits nexus_error.splits)
  with read_data_safe[OF rd] show ?thesis by simp
qed

text \<open>
  The metadata of a file comes from at most fifteen requests below the mod's address in the API, each authorised, and
  the name it gives is a single safe component, whatever the API answered.
\<close>

lemma file_info_is_safe:
  assumes "get_file_info path_name fi fk d m wanted answers w = (w', r)"
  shows "cleared_requests d m w w' 15 \<and> (\<forall>info. r = Inr info \<longrightarrow> nexus_id info = m \<and> pieces (file_name info) = [file_name info])"
proof -
  let ?body = "file_info_attempt path_name fi fk d m answers"
  let ?I = "\<lambda>k st. 1 \<le> k \<and> cleared_requests d m w (snd st) (3 * (k - 1))"
  have step: "?I (Suc k) st'" if "?I k st" "?body k st = (st', Inl e)" for k st st' e
  proof -
    have "cleared_requests d m w (snd st') (3 * (k - 1) + 3)"
      by (rule cleared_trans[OF conjunct2[OF that(1)] file_info_attempt_cleared[OF that(2)]])
    moreover have "3 * (k - 1) + 3 = 3 * (Suc k - 1)" using conjunct1[OF that(1)] by arith
    ultimately show ?thesis by simp
  qed
  obtain chosen where run: "attempts 4 1 ?body (wanted, w) = ((chosen, w'), r)"
    using assms by (auto simp: get_file_info_def split: prod.splits)
  have I1: "?I 1 (wanted, w)" by (simp add: cleared_refl)
  have "\<exists>k st. 1 \<le> k \<and> k \<le> 1 + 4 \<and> ?I k st \<and> ?body k st = ((chosen, w'), r)"
    by (rule attempts_last[where I = ?I, OF run I1 step])
  then obtain k st where "1 \<le> k \<and> k \<le> 1 + 4 \<and> ?I k st \<and> ?body k st = ((chosen, w'), r)" by (elim exE)
  then have k: "k \<le> 5" and I: "?I k st" and b: "?body k st = ((chosen, w'), r)" by simp_all
  have "cleared_requests d m w w' (3 * (k - 1) + 3)"
    using cleared_trans[OF conjunct2[OF I] file_info_attempt_cleared[OF b]] by simp
  moreover have "3 * (k - 1) + 3 \<le> 15" using k I by linarith
  ultimately have "cleared_requests d m w w' 15" unfolding cleared_requests_def by (meson le_trans)
  moreover have "nexus_id info = m \<and> pieces (file_name info) = [file_name info]" if "r = Inr info" for info
    using file_info_attempt_safe[of path_name fi fk d m answers k st _ info] b that safe_component_is_one_piece by fastforce
  ultimately show ?thesis by blast
qed

text \<open>The identifier the listing gave is kept: a later attempt goes straight to the file.\<close>

lemma listing_is_kept: "listed_file d session m (Some f, w) = ((Some f, w), Inr f)"
  by (simp add: listed_file_def)

section \<open>What the fallback returns\<close>

lemma watch_found:
  "watch fi dest target polls n = Inr fs \<Longrightarrow> \<exists>k \<ge> n. k < 3600 \<and> poll_once fi dest target (polls k) = Some fs"
proof (induction fi dest target polls n rule: watch.induct)
  case (1 fi dest target polls n)
  note unfolded = watch.simps[of fi dest target polls n]
  have n: "n < 3600" using 1(2) unfolded by (cases "n < 3600") simp_all
  show ?case
  proof (cases "poll_once fi dest target (polls n)")
    case None
    then have "watch fi dest target polls (n + 2) = Inr fs" using 1(2) n unfolded by simp
    then obtain k where "n + 2 \<le> k \<and> k < 3600 \<and> poll_once fi dest target (polls k) = Some fs" using 1(1)[OF n None] by blast
    then show ?thesis by (intro exI[of _ k]) simp
  next
    case (Some fs')
    then show ?thesis using 1(2) n unfolded by (intro exI[of _ n]) simp
  qed
qed

lemma poll_once_ready:
  assumes "poll_once fi dest target p = Some fs"
  shows "\<exists>c. dget fs dest = Some c \<and> c \<noteq> [] \<and> (0 < info_size fi \<longrightarrow> int (length c) = info_size fi)"
proof (cases "dest_ready fi dest p")
  case True
  then show ?thesis using assms by (auto simp: poll_once_def dest_ready_def split: option.splits)
next
  case False
  then obtain c where "dget (seen p) target = Some c" "target_ready fi p c" "fs = dset dest c (seen p)"
    using assms by (auto simp: poll_once_def split: option.splits if_splits)
  then show ?thesis by (intro exI[of _ c]) (auto simp: target_ready_def)
qed

text \<open>The file of a fallback is not empty and has the known size; no hash is computed.\<close>

lemma fallback_file:
  assumes "manual_fallback resolve join_path d fi dest mkdir_fails polls w = (w', Inr p)"
  shows "p = dest \<and> (\<exists>c. dget (stored w') dest = Some c \<and> c \<noteq> [] \<and> (0 < info_size fi \<longrightarrow> int (length c) = info_size fi))"
proof -
  let ?joined = "safe_join resolve join_path (butlast (staging_dir d) @ [''downloads'']) (file_name fi)"
  have m: "mkdir_fails = None" using assms unfolding manual_fallback_def by (cases mkdir_fails) simp_all
  obtain target where joined: "?joined = Inr target"
    using assms unfolding manual_fallback_def m by (cases ?joined) simp_all
  obtain fs where watched: "watch fi dest target polls 0 = Inr fs"
    using assms unfolding manual_fallback_def m option.case joined sum.case by (cases "watch fi dest target polls 0") simp_all
  have t: "watch fi dest target polls 0 = Inr fs" "p = dest" "stored w' = fs"
    using assms watched unfolding manual_fallback_def m option.case joined sum.case by (simp_all only: sum.case prod.inject sum.inject) auto
  from watch_found[OF t(1)] obtain k where "poll_once fi dest target (polls k) = Some fs" by blast
  from poll_once_ready[OF this] t(2,3) show ?thesis by simp
qed

end
