(* ===== verification/Fomod.thy ===== *)
theory Fomod
  imports Prelude
begin

text \<open>
  \<open>sky_claw/local/fomod/models.py\<close> and \<open>resolver.py\<close>: the data of a FOMOD installer and the resolver
  that turns a user's selections into the list of files to install.  The sets of names
  \<open>_resolve_group\<close> builds are only tested for membership and emptiness, so they are lists here.
\<close>

section \<open>Data\<close>

datatype group_type = SELECT_EXACTLY_ONE | SELECT_AT_MOST_ONE | SELECT_AT_LEAST_ONE | SELECT_ALL | SELECT_ANY
datatype file_dep_state = ACTIVE | INACTIVE | MISSING
datatype dep_operator = And | Or

record flag_dependency =
  dep_flag :: string
  dep_value :: string

record file_dependency =
  dep_file :: string
  dep_state :: file_dep_state

datatype composite_dependency = Composite
  (operator: dep_operator) (flag_deps: "flag_dependency list") (file_deps: "file_dependency list")
  (nested: "composite_dependency list")

record file_install =
  source :: string
  destination :: string
  priority :: int

record condition_flag =
  flag_name :: string
  flag_value :: string

record fomod_plugin =
  plugin_name :: string
  condition_flags :: "condition_flag list"
  plugin_files :: "file_install list"
  type_descriptor :: string

record plugin_group =
  group_name :: string
  group_type :: group_type
  plugins :: "fomod_plugin list"

record install_step =
  step_name :: string
  visibility :: "composite_dependency option"
  groups :: "plugin_group list"

record conditional_pattern =
  conditions :: composite_dependency
  pattern_files :: "file_install list"

record fomod_config =
  fomod_name :: string
  required_files :: "file_install list"
  install_steps :: "install_step list"
  conditional_installs :: "conditional_pattern list"

record resolve_result =
  files :: "file_install list"
  pending_decisions :: "string list"
  flags :: "(string, string) dict"

section \<open>The resolver\<close>

fun evaluate_conditions :: "composite_dependency \<Rightarrow> (string, string) dict \<Rightarrow> bool" where
  "evaluate_conditions (Composite opr fds deps nest) fl =
    (let results = map (\<lambda>fd. dget_or fl (dep_flag fd) [] = dep_value fd) fds
           @ map (\<lambda>_. True) deps @ map (\<lambda>n. evaluate_conditions n fl) nest
     in if results = [] then True
        else if opr = And then list_all (\<lambda>b. b) results else list_ex (\<lambda>b. b) results)"

definition is_step_visible :: "install_step \<Rightarrow> (string, string) dict \<Rightarrow> bool" where
  "is_step_visible st fl =
    (case visibility st of None \<Rightarrow> True | Some c \<Rightarrow> evaluate_conditions c fl)"

definition resolve_group :: "string \<Rightarrow> plugin_group \<Rightarrow> string list \<Rightarrow> string list \<times> string list" where
  "resolve_group sname g step_selections =
    (let plugin_names = map plugin_name (plugins g);
         selected = filter (\<lambda>s. s \<in> set plugin_names) step_selections;
         pending = (\<lambda>what. [sname @ ''/'' @ group_name g @ '': must select '' @ what])
     in if group_type g = SELECT_ALL then (plugin_names, [])
        else if group_type g = SELECT_EXACTLY_ONE \<and> length (remdups selected) \<noteq> 1 then
          (selected, if selected = [] then pending ''exactly one'' else [])
        else if group_type g = SELECT_AT_LEAST_ONE \<and> selected = [] then (selected, pending ''at least one'')
        else (selected, []))"

definition take_plugin :: "resolve_result \<Rightarrow> fomod_plugin \<Rightarrow> resolve_result" where
  "take_plugin r p = r\<lparr>files := files r @ plugin_files p,
     flags := foldl (\<lambda>fl cf. dset (flag_name cf) (flag_value cf) fl) (flags r) (condition_flags p)\<rparr>"

definition take_group :: "string \<Rightarrow> string list \<Rightarrow> resolve_result \<Rightarrow> plugin_group \<Rightarrow> resolve_result" where
  "take_group sname step_selections r g =
    (let (selected, pending) = resolve_group sname g step_selections
     in foldl take_plugin (r\<lparr>pending_decisions := pending_decisions r @ pending\<rparr>)
          (filter (\<lambda>p. plugin_name p \<in> set selected) (plugins g)))"

definition take_step :: "(string, string list) dict \<Rightarrow> resolve_result \<Rightarrow> install_step \<Rightarrow> resolve_result" where
  "take_step selections r st =
    (if \<not> is_step_visible st (flags r) then r
     else foldl (take_group (step_name st) (dget_or selections (step_name st) [])) r (groups st))"

definition resolve_fomod :: "fomod_config \<Rightarrow> (string, string list) dict \<Rightarrow> resolve_result" where
  "resolve_fomod cfg selections =
    (let r0 = \<lparr>files = required_files cfg, pending_decisions = [], flags = []\<rparr>;
         r1 = foldl (take_step selections) r0 (install_steps cfg);
         matched = filter (\<lambda>p. evaluate_conditions (conditions p) (flags r1)) (conditional_installs cfg);
         all_files = files r1 @ concat (map pattern_files matched)
     in r1\<lparr>files := sort_key priority all_files\<rparr>)"

section \<open>The specification\<close>

text \<open>
  What a walk over the steps chooses: the plugins taken, in order.  The files and the flags are
  functions of that list.
\<close>

definition flags_of :: "(string, string) dict \<Rightarrow> fomod_plugin list \<Rightarrow> (string, string) dict" where
  "flags_of fl ps = foldl (\<lambda>fl cf. dset (flag_name cf) (flag_value cf) fl) fl (concat (map condition_flags ps))"

definition group_choice :: "string \<Rightarrow> string list \<Rightarrow> plugin_group \<Rightarrow> fomod_plugin list" where
  "group_choice sname sel g = filter (\<lambda>p. plugin_name p \<in> set (fst (resolve_group sname g sel))) (plugins g)"

definition step_choice :: "(string, string list) dict \<Rightarrow> install_step \<Rightarrow> fomod_plugin list" where
  "step_choice selections st =
    concat (map (group_choice (step_name st) (dget_or selections (step_name st) [])) (groups st))"

fun walk_choice :: "(string, string list) dict \<Rightarrow> (string, string) dict \<Rightarrow> install_step list \<Rightarrow> fomod_plugin list" where
  "walk_choice selections fl [] = []"
| "walk_choice selections fl (st # steps) =
    (let ps = (if is_step_visible st fl then step_choice selections st else [])
     in ps @ walk_choice selections (flags_of fl ps) steps)"

text \<open>
  The flag values after the walk: the last assignment to the name among the chosen plugins.
\<close>

definition last_flag :: "fomod_plugin list \<Rightarrow> string \<Rightarrow> string option" where
  "last_flag ps name = dget (rev (map (\<lambda>cf. (flag_name cf, flag_value cf)) (concat (map condition_flags ps)))) name"

lemma flags_of_append: "flags_of fl (ps @ qs) = flags_of (flags_of fl ps) qs"
  by (simp add: flags_of_def)

lemma flags_of_Nil [simp]: "flags_of fl [] = fl"
  by (simp add: flags_of_def)

lemma foldl_dset_flags:
  "dget (foldl (\<lambda>fl cf. dset (flag_name cf) (flag_value cf) fl) fl cfs) name
   = (case dget (rev (map (\<lambda>cf. (flag_name cf, flag_value cf)) cfs)) name of None \<Rightarrow> dget fl name | Some v \<Rightarrow> Some v)"
  by (induction cfs arbitrary: fl) (auto simp: map_add_def split: option.splits)

lemma flags_of_last: "dget (flags_of [] ps) name = last_flag ps name"
  by (simp add: flags_of_def last_flag_def foldl_dset_flags split: option.splits)

lemma take_plugins:
  "files (foldl take_plugin r ps) = files r @ concat (map plugin_files ps)
   \<and> flags (foldl take_plugin r ps) = flags_of (flags r) ps
   \<and> pending_decisions (foldl take_plugin r ps) = pending_decisions r"
  by (induction ps arbitrary: r) (simp_all add: take_plugin_def flags_of_def)

lemma take_group_choice:
  "files (take_group sname sel r g) = files r @ concat (map plugin_files (group_choice sname sel g))
   \<and> flags (take_group sname sel r g) = flags_of (flags r) (group_choice sname sel g)
   \<and> pending_decisions (take_group sname sel r g) = pending_decisions r @ snd (resolve_group sname g sel)"
  using take_plugins by (simp add: take_group_def group_choice_def case_prod_unfold Let_def)

lemma take_groups_choice:
  "files (foldl (take_group sname sel) r gs) = files r @ concat (map plugin_files (concat (map (group_choice sname sel) gs)))
   \<and> flags (foldl (take_group sname sel) r gs) = flags_of (flags r) (concat (map (group_choice sname sel) gs))
   \<and> pending_decisions (foldl (take_group sname sel) r gs)
       = pending_decisions r @ concat (map (\<lambda>g. snd (resolve_group sname g sel)) gs)"
  by (induction gs arbitrary: r) (simp_all add: take_group_choice flags_of_append)

lemma take_steps_choice:
  "files (foldl (take_step selections) r steps)
     = files r @ concat (map plugin_files (walk_choice selections (flags r) steps))
   \<and> flags (foldl (take_step selections) r steps) = flags_of (flags r) (walk_choice selections (flags r) steps)"
  by (induction steps arbitrary: r)
    (simp_all add: take_step_def step_choice_def take_groups_choice flags_of_append Let_def)

section \<open>Properties\<close>

text \<open>
  C19: the resolver installs the required files, the files of the plugins chosen on the visible
  steps and those of the conditional patterns the final flags satisfy, in exactly that order among
  files of equal priority and sorted by priority; a flag has the value of its last assignment.
\<close>

theorem resolve_installs_choice:
  "(let ps = walk_choice selections [] (install_steps cfg); r = resolve_fomod cfg selections;
        all_files = required_files cfg @ concat (map plugin_files ps)
          @ concat (map pattern_files (filter (\<lambda>p. evaluate_conditions (conditions p) (flags r)) (conditional_installs cfg)))
    in sorted (map priority (files r)) \<and> mset (files r) = mset all_files
       \<and> (\<forall>k. filter (\<lambda>f. priority f = k) (files r) = filter (\<lambda>f. priority f = k) all_files)
       \<and> (\<forall>name. dget (flags r) name = last_flag ps name))"
  using take_steps_choice[of selections "\<lparr>files = required_files cfg, pending_decisions = [], flags = []\<rparr>" "install_steps cfg"]
  by (simp add: resolve_fomod_def Let_def flags_of_last sort_key_stable)

text \<open>The groups the walk visits, with the selections they see.\<close>

fun visited_groups ::
  "(string, string list) dict \<Rightarrow> (string, string) dict \<Rightarrow> install_step list \<Rightarrow> (string \<times> plugin_group \<times> string list) list" where
  "visited_groups selections fl [] = []"
| "visited_groups selections fl (st # steps) =
    (let visible = is_step_visible st fl; sel = dget_or selections (step_name st) [] in
     (if visible then map (\<lambda>g. (step_name st, g, sel)) (groups st) else [])
       @ visited_groups selections (flags_of fl (if visible then step_choice selections st else [])) steps)"

lemma take_steps_pending:
  "pending_decisions (foldl (take_step selections) r steps) = pending_decisions r
     @ concat (map (\<lambda>(sname, g, sel). snd (resolve_group sname g sel)) (visited_groups selections (flags r) steps))"
  by (induction steps arbitrary: r)
    (simp_all add: take_step_def take_groups_choice step_choice_def comp_def)

lemma resolve_group_pending:
  "snd (resolve_group sname g sel) = [] \<longleftrightarrow>
     (group_type g = SELECT_EXACTLY_ONE \<or> group_type g = SELECT_AT_LEAST_ONE
       \<longrightarrow> (\<exists>p \<in> set (plugins g). plugin_name p \<in> set sel))"
proof -
  have "filter (\<lambda>s. s \<in> plugin_name ` set (plugins g)) sel = []
      \<longleftrightarrow> \<not> (\<exists>p \<in> set (plugins g). plugin_name p \<in> set sel)" by (auto simp: filter_empty_conv)
  then show ?thesis
    by (cases "filter (\<lambda>s. s \<in> plugin_name ` set (plugins g)) sel = []") (simp_all add: resolve_group_def Let_def)
qed

text \<open>
  A result without pending decisions chose something in every group that demands it: each
  visited group of type SelectExactlyOne or SelectAtLeastOne has a chosen plugin, and a visited
  SelectAll group has all of its plugins chosen.
\<close>

theorem nothing_pending_is_complete:
  assumes "pending_decisions (resolve_fomod cfg selections) = []"
    and "(sname, g, sel) \<in> set (visited_groups selections [] (install_steps cfg))"
  shows "(group_type g \<in> {SELECT_EXACTLY_ONE, SELECT_AT_LEAST_ONE} \<longrightarrow> group_choice sname sel g \<noteq> [])
    \<and> (group_type g = SELECT_ALL \<longrightarrow> group_choice sname sel g = plugins g)"
proof -
  have "snd (resolve_group sname g sel) = []"
    using assms by (auto simp: resolve_fomod_def Let_def take_steps_pending)
  then have "group_type g = SELECT_EXACTLY_ONE \<or> group_type g = SELECT_AT_LEAST_ONE
      \<longrightarrow> (\<exists>p \<in> set (plugins g). plugin_name p \<in> set sel)"
    by (simp only: resolve_group_pending)
  moreover have "set (fst (resolve_group sname g sel)) = (if group_type g = SELECT_ALL then plugin_name ` set (plugins g)
      else {s \<in> set sel. s \<in> plugin_name ` set (plugins g)})"
    by (auto simp: resolve_group_def Let_def filter_empty_conv)
  ultimately show ?thesis by (auto simp: group_choice_def filter_empty_conv)
qed

definition demo_plugin :: "string \<Rightarrow> int \<Rightarrow> fomod_plugin" where
  "demo_plugin name prio = \<lparr>plugin_name = name, condition_flags = [\<lparr>flag_name = ''tex'', flag_value = name\<rparr>],
     plugin_files = [\<lparr>source = name, destination = [], priority = prio\<rparr>], type_descriptor = ''Optional''\<rparr>"

definition demo_fomod :: "group_type \<Rightarrow> fomod_config" where
  "demo_fomod ty = \<lparr>fomod_name = ''Textures'', required_files = [\<lparr>source = ''base'', destination = [], priority = 0\<rparr>],
     install_steps = [\<lparr>step_name = ''s'', visibility = None,
        groups = [\<lparr>group_name = ''g'', group_type = ty, plugins = [demo_plugin ''4k'' 1, demo_plugin ''2k'' 1]\<rparr>]\<rparr>],
     conditional_installs = []\<rparr>"

lemmas demo_fomod_defs = demo_fomod_def demo_plugin_def resolve_fomod_def take_step_def take_group_def
  take_plugin_def resolve_group_def is_step_visible_def dget_or_def step_choice_def group_choice_def Let_def

theorem nothing_pending_is_complete_witness:
  "\<exists>g. visited_groups [(''s'', [''2k''])] [] (install_steps (demo_fomod SELECT_EXACTLY_ONE)) = [(''s'', g, [''2k''])]
    \<and> pending_decisions (resolve_fomod (demo_fomod SELECT_EXACTLY_ONE) [(''s'', [''2k''])]) = []
    \<and> group_choice ''s'' [''2k''] g \<noteq> []"
proof -
  obtain g where v: "visited_groups [(''s'', [''2k''])] [] (install_steps (demo_fomod SELECT_EXACTLY_ONE)) = [(''s'', g, [''2k''])]"
    and t: "group_type g = SELECT_EXACTLY_ONE" by (simp add: demo_fomod_defs)
  have p: "pending_decisions (resolve_fomod (demo_fomod SELECT_EXACTLY_ONE) [(''s'', [''2k''])]) = []"
    by (simp add: demo_fomod_defs)
  from nothing_pending_is_complete[OF p, of "''s''" g "[''2k'']"] v t p show ?thesis by simp
qed

text \<open>
  The upper bounds of the group types are not enforced: in a SelectExactlyOne or
  SelectAtMostOne group every selected plugin is chosen, however many, and with two or more no
  decision is reported pending.
\<close>

theorem select_one_not_enforced:
  assumes "group_type g \<in> {SELECT_EXACTLY_ONE, SELECT_AT_MOST_ONE}"
    and "p \<in> set (plugins g)" and "q \<in> set (plugins g)" and "plugin_name p \<noteq> plugin_name q"
    and "plugin_name p \<in> set sel" and "plugin_name q \<in> set sel"
  shows "snd (resolve_group sname g sel) = [] \<and> {p, q} \<subseteq> set (group_choice sname sel g)"
  using assms by (auto simp: resolve_group_def group_choice_def Let_def filter_empty_conv)

theorem select_one_not_enforced_witness:
  "pending_decisions (resolve_fomod (demo_fomod SELECT_EXACTLY_ONE) [(''s'', [''4k'', ''2k''])]) = []
   \<and> map source (files (resolve_fomod (demo_fomod SELECT_EXACTLY_ONE) [(''s'', [''4k'', ''2k''])])) = [''base'', ''4k'', ''2k'']
   \<and> snd (resolve_group ''s'' \<lparr>group_name = ''g'', group_type = SELECT_EXACTLY_ONE,
         plugins = [demo_plugin ''4k'' 1, demo_plugin ''2k'' 1]\<rparr> [''4k'', ''2k'']) = []"
proof -
  let ?g = "\<lparr>group_name = ''g'', group_type = SELECT_EXACTLY_ONE, plugins = [demo_plugin ''4k'' 1, demo_plugin ''2k'' 1]\<rparr>"
  have "snd (resolve_group ''s'' ?g [''4k'', ''2k'']) = []"
    by (rule select_one_not_enforced[of ?g "demo_plugin ''4k'' 1" "demo_plugin ''2k'' 1", THEN conjunct1])
      (simp_all add: demo_plugin_def)
  moreover have "pending_decisions (resolve_fomod (demo_fomod SELECT_EXACTLY_ONE) [(''s'', [''4k'', ''2k''])]) = []"
    "map source (files (resolve_fomod (demo_fomod SELECT_EXACTLY_ONE) [(''s'', [''4k'', ''2k''])])) = [''base'', ''4k'', ''2k'']"
    by (simp_all add: demo_fomod_defs)
  ultimately show ?thesis by blast
qed

end
