(* ===== verification/Fomod_Parser.thy ===== *)
theory Fomod_Parser
  imports Fomod Json_Values
begin

text \<open>
  \<open>sky_claw/local/fomod/parser.py\<close>: from the elements of a \<open>ModuleConfig.xml\<close> to the data of \<open>Fomod\<close>.  The XML
  library is a parameter: it gives the root element, or says that the text is malformed or holds a forbidden
  declaration.  Descriptions and images of plugins, which nothing reads, are left out.
\<close>

section \<open>Elements\<close>

datatype xml = Elem (xml_tag: string) (xml_attrs: "(string \<times> string) list") (xml_text: "string option") (xml_children: "xml list")

definition attr :: "xml \<Rightarrow> string \<Rightarrow> string \<Rightarrow> string" where
  "attr el k d = dget_or (xml_attrs el) k d"

definition findall :: "string \<Rightarrow> xml \<Rightarrow> xml list" where
  "findall t el = filter (\<lambda>c. xml_tag c = t) (xml_children el)"

definition find_child :: "string \<Rightarrow> xml \<Rightarrow> xml option" where
  "find_child t el = find (\<lambda>c. xml_tag c = t) (xml_children el)"

definition stripped_text :: "xml \<Rightarrow> string" where
  "stripped_text el = (case xml_text el of None \<Rightarrow> [] | Some s \<Rightarrow> strip s)"

definition norm_path :: "string \<Rightarrow> string" where
  "norm_path p = map (\<lambda>c. if c = char_of (92::nat) then CHR ''/'' else c) p"

section \<open>Files\<close>

text \<open>A file whose priority is no number is skipped, and one without a source.\<close>

definition parse_file :: "xml \<Rightarrow> file_install list" where
  "parse_file el =
    (let src = norm_path (attr el ''source'' []); dst = norm_path (attr el ''destination'' []) in
     case str_int (attr el ''priority'' ''0'') of
       None \<Rightarrow> []
     | Some p \<Rightarrow> if src = [] then [] else [\<lparr>source = src, destination = dst, priority = p\<rparr>])"

text \<open>All files come before all folders.\<close>

definition parse_file_list :: "xml option \<Rightarrow> file_install list" where
  "parse_file_list element =
    (case element of
       None \<Rightarrow> []
     | Some el \<Rightarrow> concat (map parse_file (findall ''file'' el)) @ concat (map parse_file (findall ''folder'' el)))"

section \<open>Conditions\<close>

definition parse_operator :: "xml \<Rightarrow> dep_operator" where
  "parse_operator el = (if attr el ''operator'' ''And'' = ''Or'' then Or else And)"

definition parse_flag_dep :: "xml \<Rightarrow> flag_dependency list" where
  "parse_flag_dep c =
    (if xml_tag c = ''flagDependency'' \<and> attr c ''flag'' [] \<noteq> []
     then [\<lparr>dep_flag = attr c ''flag'' [], dep_value = attr c ''value'' []\<rparr>] else [])"

definition parse_state :: "string \<Rightarrow> file_dep_state" where
  "parse_state s = (if s = ''Inactive'' then INACTIVE else if s = ''Missing'' then MISSING else ACTIVE)"

definition parse_file_dep :: "xml \<Rightarrow> file_dependency list" where
  "parse_file_dep c =
    (let f = norm_path (attr c ''file'' []) in
     if xml_tag c = ''fileDependency'' \<and> f \<noteq> [] then [\<lparr>dep_file = f, dep_state = parse_state (attr c ''state'' ''Active'')\<rparr>] else [])"

fun parse_composite_direct :: "xml \<Rightarrow> composite_dependency" where
  "parse_composite_direct (Elem t ats txt cs) =
    Composite (parse_operator (Elem t ats txt cs)) (concat (map parse_flag_dep cs)) (concat (map parse_file_dep cs))
      (concat (map (\<lambda>c. if xml_tag c = ''dependencies'' then [parse_composite_direct c] else []) cs))"

definition parse_composite :: "xml option \<Rightarrow> composite_dependency option" where
  "parse_composite element =
    (case element of
       None \<Rightarrow> None
     | Some el \<Rightarrow> Some (parse_composite_direct (case find_child ''dependencies'' el of None \<Rightarrow> el | Some d \<Rightarrow> d)))"

section \<open>Steps\<close>

definition parse_group_type :: "string \<Rightarrow> group_type" where
  "parse_group_type s =
    (if s = ''SelectExactlyOne'' then SELECT_EXACTLY_ONE else if s = ''SelectAtMostOne'' then SELECT_AT_MOST_ONE
     else if s = ''SelectAtLeastOne'' then SELECT_AT_LEAST_ONE else if s = ''SelectAll'' then SELECT_ALL else SELECT_ANY)"

definition parse_condition_flags :: "xml option \<Rightarrow> condition_flag list" where
  "parse_condition_flags element =
    (case element of
       None \<Rightarrow> []
     | Some el \<Rightarrow> map (\<lambda>f. \<lparr>flag_name = attr f ''name'' [], flag_value = stripped_text f\<rparr>)
         (filter (\<lambda>f. attr f ''name'' [] \<noteq> []) (findall ''flag'' el)))"

definition type_name :: "xml \<Rightarrow> string" where
  "type_name plugin =
    (case find_child ''typeDescriptor'' plugin of
       None \<Rightarrow> ''Optional''
     | Some td \<Rightarrow> (case find_child ''type'' td of None \<Rightarrow> ''Optional'' | Some t \<Rightarrow> attr t ''name'' ''Optional''))"

definition parse_plugins :: "xml option \<Rightarrow> fomod_plugin list" where
  "parse_plugins element =
    (case element of
       None \<Rightarrow> []
     | Some el \<Rightarrow> map (\<lambda>p. \<lparr>plugin_name = attr p ''name'' ''Unnamed Plugin'',
           condition_flags = parse_condition_flags (find_child ''conditionFlags'' p),
           plugin_files = parse_file_list (find_child ''files'' p), type_descriptor = type_name p\<rparr>) (findall ''plugin'' el))"

definition parse_groups :: "xml option \<Rightarrow> plugin_group list" where
  "parse_groups element =
    (case element of
       None \<Rightarrow> []
     | Some el \<Rightarrow> map (\<lambda>g. \<lparr>group_name = attr g ''name'' ''Unnamed Group'',
           group_type = parse_group_type (attr g ''type'' ''SelectAny''), plugins = parse_plugins (find_child ''plugins'' g)\<rparr>)
         (findall ''group'' el))"

definition parse_install_steps :: "xml option \<Rightarrow> install_step list" where
  "parse_install_steps element =
    (case element of
       None \<Rightarrow> []
     | Some el \<Rightarrow> map (\<lambda>s. \<lparr>step_name = attr s ''name'' ''Unnamed Step'', visibility = parse_composite (find_child ''visible'' s),
           groups = parse_groups (find_child ''optionalFileGroups'' s)\<rparr>) (findall ''installStep'' el))"

definition parse_conditional_installs :: "xml option \<Rightarrow> conditional_pattern list" where
  "parse_conditional_installs element =
    (case Option.bind element (find_child ''patterns'') of
       None \<Rightarrow> []
     | Some el \<Rightarrow> map (\<lambda>p. \<lparr>conditions = (case find_child ''dependencies'' p of None \<Rightarrow> Composite And [] [] [] | Some d \<Rightarrow> parse_composite_direct d),
           pattern_files = parse_file_list (find_child ''files'' p)\<rparr>) (findall ''pattern'' el))"

section \<open>The document\<close>

text \<open>What the XML library says of a text that it does not accept, and what the parser makes of it.\<close>

datatype xml_failure = Forbidden string | Malformed_Xml string
datatype fomod_error = Fomod_Security_Error string | Fomod_Parse_Error string

definition parse_module_name :: "xml \<Rightarrow> string" where
  "parse_module_name doc = (case find_child ''moduleName'' doc of None \<Rightarrow> [] | Some el \<Rightarrow> stripped_text el)"

definition read_config :: "xml \<Rightarrow> fomod_config" where
  "read_config doc = \<lparr>fomod_name = parse_module_name doc, required_files = parse_file_list (find_child ''requiredInstallFiles'' doc),
     install_steps = parse_install_steps (find_child ''installSteps'' doc),
     conditional_installs = parse_conditional_installs (find_child ''conditionalFileInstalls'' doc)\<rparr>"

definition parse_fomod :: "(string \<Rightarrow> xml_failure + xml) \<Rightarrow> string \<Rightarrow> fomod_error + fomod_config" where
  "parse_fomod parse_xml text =
    (case parse_xml text of
       Inl (Forbidden s) \<Rightarrow> Inl (Fomod_Security_Error s)
     | Inl (Malformed_Xml s) \<Rightarrow> Inl (Fomod_Parse_Error s)
     | Inr doc \<Rightarrow> Inr (read_config doc))"

section \<open>What a document gives\<close>

text \<open>Every file has a source and uses slashes only.\<close>

definition plain_file :: "file_install \<Rightarrow> bool" where
  "plain_file f \<longleftrightarrow> source f \<noteq> [] \<and> char_of (92::nat) \<notin> set (source f) \<and> char_of (92::nat) \<notin> set (destination f)"

lemma norm_path_plain: "char_of (92::nat) \<notin> set (norm_path p)"
proof -
  have "CHR ''/'' \<noteq> char_of (92::nat)" by code_simp
  then show ?thesis by (auto simp: norm_path_def)
qed

lemma parse_file_plain: "f \<in> set (parse_file el) \<Longrightarrow> plain_file f"
  by (auto simp: parse_file_def plain_file_def Let_def norm_path_plain split: option.splits if_splits)

lemma parse_file_list_plain: "f \<in> set (parse_file_list element) \<Longrightarrow> plain_file f"
  by (auto simp: parse_file_list_def split: option.splits dest: parse_file_plain)

definition config_files :: "fomod_config \<Rightarrow> file_install list" where
  "config_files cfg = required_files cfg
     @ concat (map (\<lambda>s. concat (map (\<lambda>g. concat (map plugin_files (plugins g))) (groups s))) (install_steps cfg))
     @ concat (map pattern_files (conditional_installs cfg))"

lemma parse_plugins_plain: "p \<in> set (parse_plugins element) \<Longrightarrow> f \<in> set (plugin_files p) \<Longrightarrow> plain_file f"
  using parse_file_list_plain by (auto simp: parse_plugins_def split: option.splits)

lemma parse_steps_plain:
  assumes "s \<in> set (parse_install_steps element)" "g \<in> set (groups s)" "p \<in> set (plugins g)" "f \<in> set (plugin_files p)"
  shows "plain_file f"
proof -
  obtain e where "g \<in> set (parse_groups e)" using assms(1,2) by (auto simp: parse_install_steps_def split: option.splits)
  then obtain e' where "p \<in> set (parse_plugins e')" using assms(3) by (auto simp: parse_groups_def split: option.splits)
  then show ?thesis using assms(4) by (rule parse_plugins_plain)
qed

lemma parse_patterns_plain: "p \<in> set (parse_conditional_installs element) \<Longrightarrow> f \<in> set (pattern_files p) \<Longrightarrow> plain_file f"
  using parse_file_list_plain by (auto simp: parse_conditional_installs_def split: option.splits)

lemma read_config_plain: "f \<in> set (config_files (read_config doc)) \<Longrightarrow> plain_file f"
  by (auto simp: config_files_def read_config_def intro: parse_file_list_plain parse_steps_plain parse_patterns_plain)

text \<open>The resolver installs only files of the document, so only such with a source.\<close>

lemma walk_choice_plugins:
  "p \<in> set (walk_choice selections fl steps) \<Longrightarrow> \<exists>s \<in> set steps. \<exists>g \<in> set (groups s). p \<in> set (plugins g)"
proof (induction steps arbitrary: fl)
  case (Cons s steps)
  then consider "p \<in> set (step_choice selections s)" | fl' where "p \<in> set (walk_choice selections fl' steps)"
    by (auto simp: Let_def split: if_splits)
  then show ?case
    by cases (use Cons.IH in \<open>auto simp: step_choice_def group_choice_def\<close>)
qed simp

lemma resolved_files:
  assumes "f \<in> set (files (resolve_fomod cfg selections))"
  shows "f \<in> set (config_files cfg)"
proof -
  let ?r0 = "\<lparr>files = required_files cfg, pending_decisions = [], flags = []\<rparr>"
  let ?r1 = "foldl (take_step selections) ?r0 (install_steps cfg)"
  have "set (files (resolve_fomod cfg selections)) \<subseteq> set (files ?r1) \<union> set (concat (map pattern_files (conditional_installs cfg)))"
    by (auto simp: resolve_fomod_def Let_def)
  then have "f \<in> set (files ?r1) \<or> f \<in> set (concat (map pattern_files (conditional_installs cfg)))" using assms by blast
  moreover have "files ?r1 = required_files cfg @ concat (map plugin_files (walk_choice selections [] (install_steps cfg)))"
    using take_steps_choice[of selections ?r0 "install_steps cfg"] by simp
  ultimately show ?thesis by (auto simp: config_files_def dest!: walk_choice_plugins)
qed

lemma parsed_install_is_plain:
  assumes "parse_fomod parse_xml text = Inr cfg" "f \<in> set (files (resolve_fomod cfg selections))"
  shows "plain_file f"
  using assms(1) read_config_plain resolved_files[OF assms(2)]
  by (auto simp: parse_fomod_def split: sum.splits xml_failure.splits)

text \<open>A file with a malformed priority is dropped, and folders are installed after files whatever their order.\<close>

lemma malformed_priority_drops_file: "str_int (attr el ''priority'' ''0'') = None \<Longrightarrow> parse_file el = []"
  by (simp add: parse_file_def Let_def)

lemma folders_come_last:
  "parse_file_list (Some (Elem t ats txt [Elem ''folder'' [(''source'', ''a'')] None [], Elem ''file'' [(''source'', ''b'')] None []]))
   = [\<lparr>source = ''b'', destination = [], priority = 0\<rparr>, \<lparr>source = ''a'', destination = [], priority = 0\<rparr>]"
  by code_simp

end
