(* ===== verification/Fomod_Install.thy ===== *)
theory Fomod_Install
  imports Fomod_Parser Path_Guard Snapshots File_Names
begin

text \<open>
  \<open>sky_claw/local/fomod/installer.py\<close>: an archive is extracted into a temporary directory and its files are placed
  into the directory of the mod, by the document of the installer when there is one.  The archive libraries are a
  parameter: the members they list, or the error they raise; so is \<open>copy2\<close>, which may fail and leave a part.
  Directories exist while a file lies under them.
\<close>

section \<open>Names\<close>

fun segments :: "string \<Rightarrow> string list" where
  "segments [] = [[]]"
| "segments (c # cs) =
    (if c = CHR ''/'' then [] # segments cs else case segments cs of [] \<Rightarrow> [[c]] | w # ws \<Rightarrow> (c # w) # ws)"

definition is_safe_path :: "string \<Rightarrow> bool" where
  "is_safe_path member_path \<longleftrightarrow> ''..'' \<notin> set (segments member_path)"

section \<open>Extraction\<close>

record member =
  member_name :: string
  is_folder :: bool
  member_data :: "string + string"

datatype archive_kind = Zip | Seven_Zip | Rar

definition extractor :: "string \<Rightarrow> archive_kind option" where
  "extractor sfx = dget [(''.zip'', Zip), (''.7z'', Seven_Zip), (''.rar'', Rar)] sfx"

datatype extract_error = Zip_Slip string | Extract_Error string

record install_env =
  real_path :: "parts \<Rightarrow> parts"
  join_path :: "parts \<Rightarrow> string \<Rightarrow> parts"
  check_path :: "parts \<Rightarrow> path_violation + parts"
  parse_xml :: "string \<Rightarrow> xml_failure + xml"
  members_of :: "parts \<Rightarrow> string + member list"
  windows :: bool
  tmp_dir :: parts
  tmp_removed :: bool
  copy_failure :: "parts \<Rightarrow> string option option"

text \<open>Where a member goes, if it may.\<close>

definition member_target :: "install_env \<Rightarrow> parts \<Rightarrow> string \<Rightarrow> extract_error + parts" where
  "member_target env dest name =
    (let target = real_path env (join_path env dest name) in
     if \<not> is_safe_path name then Inl (Zip_Slip name)
     else if \<not> relative_to target dest then Inl (Zip_Slip name) else Inr target)"

text \<open>Zip and rar: one member after the other, each checked before it is written.\<close>

fun extract_members :: "install_env \<Rightarrow> parts \<Rightarrow> member list \<Rightarrow> file_system \<Rightarrow> file_system \<times> extract_error option" where
  "extract_members env dest [] fs = (fs, None)"
| "extract_members env dest (m # ms) fs =
    (if is_folder m then extract_members env dest ms fs
     else
       (case member_target env dest (member_name m) of
          Inl e \<Rightarrow> (fs, Some e)
        | Inr target \<Rightarrow>
           (case member_data m of
              Inl e \<Rightarrow> (fs, Some (Extract_Error e))
            | Inr content \<Rightarrow> extract_members env dest ms (dset target content fs))))"

text \<open>7z: all names are checked, folders too, before the first is extracted.\<close>

fun check_members :: "install_env \<Rightarrow> parts \<Rightarrow> member list \<Rightarrow> extract_error option" where
  "check_members env dest [] = None"
| "check_members env dest (m # ms) =
    (case member_target env dest (member_name m) of Inl e \<Rightarrow> Some e | Inr _ \<Rightarrow> check_members env dest ms)"

definition extract_7z :: "install_env \<Rightarrow> parts \<Rightarrow> member list \<Rightarrow> file_system \<Rightarrow> file_system \<times> extract_error option" where
  "extract_7z env dest ms fs =
    (case check_members env dest ms of Some e \<Rightarrow> (fs, Some e) | None \<Rightarrow> extract_members env dest ms fs)"

definition extract_archive :: "install_env \<Rightarrow> archive_kind \<Rightarrow> parts \<Rightarrow> file_system \<Rightarrow> file_system \<times> extract_error option" where
  "extract_archive env kind archive fs =
    (let dest = real_path env (tmp_dir env) in
     case members_of env archive of
       Inl e \<Rightarrow> (fs, Some (Extract_Error e))
     | Inr ms \<Rightarrow> (case kind of Seven_Zip \<Rightarrow> extract_7z env dest ms fs | _ \<Rightarrow> extract_members env dest ms fs))"

section \<open>Copying\<close>

text \<open>A copied file is named by its destination in the document and its place below it.\<close>

record install_result =
  result_mod :: string
  files_copied :: "(string \<times> parts) list"
  result_pending :: "string list"
  result_errors :: "string list"
  installed :: bool

datatype install_exn = Path_Violated path_violation | Slipped string | Security_Violated string | Copy_Error parts

definition files_under :: "parts \<Rightarrow> file_system \<Rightarrow> parts list" where
  "files_under d fs = filter (inside d) (keys fs)"

definition copy_file :: "install_env \<Rightarrow> parts \<Rightarrow> parts \<Rightarrow> file_system \<Rightarrow> file_system \<times> install_exn option" where
  "copy_file env src dest fs =
    (case copy_failure env dest of
       Some None \<Rightarrow> (fs, Some (Copy_Error dest))
     | Some (Some part) \<Rightarrow> (dset dest part fs, Some (Copy_Error dest))
     | None \<Rightarrow> (case dget fs src of None \<Rightarrow> (fs, Some (Copy_Error dest)) | Some c \<Rightarrow> (dset dest c fs, None)))"

text \<open>A child that would leave the destination is skipped.\<close>

fun copy_children ::
  "install_env \<Rightarrow> parts \<Rightarrow> parts \<Rightarrow> string \<Rightarrow> parts list \<Rightarrow> file_system \<Rightarrow> (string \<times> parts) list \<Rightarrow>
   file_system \<times> (install_exn + (string \<times> parts) list)" where
  "copy_children env src dest dest_rel [] fs placed = (fs, Inr placed)"
| "copy_children env src dest dest_rel (child # cs) fs placed =
    (let child_rel = drop (length src) child in
     case safe_join (real_path env) (\<lambda>r _. r @ child_rel) dest [] of
       Inl _ \<Rightarrow> copy_children env src dest dest_rel cs fs placed
     | Inr child_dest \<Rightarrow>
        (case copy_file env child child_dest fs of
           (fs', Some e) \<Rightarrow> (fs', Inl e)
         | (fs', None) \<Rightarrow> copy_children env src dest dest_rel cs fs' (placed @ [(dest_rel, child_rel)])))"

definition copy_entry ::
  "install_env \<Rightarrow> parts \<Rightarrow> parts \<Rightarrow> file_install \<Rightarrow> file_system \<Rightarrow> (string \<times> parts) list \<Rightarrow>
   file_system \<times> (install_exn + (string \<times> parts) list)" where
  "copy_entry env content_root mod_dest f fs placed =
    (let dest_rel = (if destination f = [] then source f else destination f) in
     case safe_join (real_path env) (join_path env) content_root (source f) of
       Inl _ \<Rightarrow> (fs, Inr placed)
     | Inr src \<Rightarrow>
        (case safe_join (real_path env) (join_path env) mod_dest dest_rel of
           Inl _ \<Rightarrow> (fs, Inr placed)
         | Inr dest \<Rightarrow>
            if is_directory fs src then copy_children env src dest dest_rel (files_under src fs) fs placed
            else if dhas fs src then
              (case copy_file env src dest fs of
                 (fs', Some e) \<Rightarrow> (fs', Inl e)
               | (fs', None) \<Rightarrow> (fs', Inr (placed @ [(dest_rel, [])])))
            else (fs, Inr placed)))"

fun copy_resolved_files ::
  "install_env \<Rightarrow> parts \<Rightarrow> parts \<Rightarrow> file_install list \<Rightarrow> file_system \<Rightarrow> (string \<times> parts) list \<Rightarrow>
   file_system \<times> (install_exn + (string \<times> parts) list)" where
  "copy_resolved_files env content_root mod_dest [] fs placed = (fs, Inr placed)"
| "copy_resolved_files env content_root mod_dest (f # fs') fs placed =
    (case copy_entry env content_root mod_dest f fs placed of
       (w, Inl e) \<Rightarrow> (w, Inl e)
     | (w, Inr placed') \<Rightarrow> copy_resolved_files env content_root mod_dest fs' w placed')"

fun copy_all :: "install_env \<Rightarrow> parts \<Rightarrow> parts \<Rightarrow> parts list \<Rightarrow> file_system \<Rightarrow> parts list \<Rightarrow> file_system \<times> (install_exn + parts list)" where
  "copy_all env content_root mod_dest [] fs placed = (fs, Inr placed)"
| "copy_all env content_root mod_dest (src # srcs) fs placed =
    (let rel = drop (length content_root) src in
     case copy_file env src (mod_dest @ rel) fs of
       (fs', Some e) \<Rightarrow> (fs', Inl e)
     | (fs', None) \<Rightarrow> copy_all env content_root mod_dest srcs fs' (placed @ [rel]))"

section \<open>Installing\<close>

definition failed_install :: "string \<Rightarrow> string \<Rightarrow> install_result" where
  "failed_install name error_message = \<lparr>result_mod = name, files_copied = [], result_pending = [], result_errors = [error_message], installed = False\<rparr>"

text \<open>\<open>rglob\<close> tells upper from lower case unless on Windows.\<close>

definition find_fomod_xml :: "install_env \<Rightarrow> file_system \<Rightarrow> parts option" where
  "find_fomod_xml env fs =
    find (\<lambda>p. (if windows env then lower (last p) = ''moduleconfig.xml'' else last p = ''ModuleConfig.xml'')
      \<and> lower (last (butlast p)) = ''fomod'') (files_under (tmp_dir env) fs)"

definition install_fomod ::
  "install_env \<Rightarrow> parts \<Rightarrow> parts \<Rightarrow> string \<Rightarrow> (string, string list) dict \<Rightarrow> file_system \<Rightarrow>
   file_system \<times> (install_exn + install_result)" where
  "install_fomod env xml_path mods fallback selections fs =
    (case parse_fomod (parse_xml env) (the (dget fs xml_path)) of
       Inl (Fomod_Security_Error s) \<Rightarrow> (fs, Inl (Security_Violated s))
     | Inl (Fomod_Parse_Error s) \<Rightarrow> (fs, Inr (failed_install fallback (''FOMOD parse error: '' @ s)))
     | Inr cfg \<Rightarrow>
        (let name = (if fomod_name cfg = [] then fallback else fomod_name cfg); r = resolve_fomod cfg selections in
         if pending_decisions r \<noteq> [] \<and> files r = [] then
           (fs, Inr \<lparr>result_mod = name, files_copied = [], result_pending = pending_decisions r, result_errors = [], installed = False\<rparr>)
         else
           (case copy_resolved_files env (butlast (butlast xml_path)) (join_path env mods name) (files r) fs [] of
              (fs', Inl e) \<Rightarrow> (fs', Inl e)
            | (fs', Inr placed) \<Rightarrow>
               (fs', Inr \<lparr>result_mod = name, files_copied = placed, result_pending = pending_decisions r, result_errors = [],
                         installed = (placed \<noteq> [])\<rparr>))))"

definition top_items :: "parts \<Rightarrow> file_system \<Rightarrow> string list" where
  "top_items d fs = remdups (map (\<lambda>p. p ! length d) (files_under d fs))"

definition install_simple :: "install_env \<Rightarrow> parts \<Rightarrow> string \<Rightarrow> file_system \<Rightarrow> file_system \<times> (install_exn + install_result)" where
  "install_simple env mods fallback fs =
    (let tmp = tmp_dir env;
         (content_root, name) =
           (case top_items tmp fs of
              [x] \<Rightarrow> if is_directory fs (tmp @ [x]) then (tmp @ [x], x) else (tmp, fallback)
            | _ \<Rightarrow> (tmp, fallback))
     in case copy_all env content_root (join_path env mods name) (files_under content_root fs) fs [] of
          (fs', Inl e) \<Rightarrow> (fs', Inl e)
        | (fs', Inr placed) \<Rightarrow>
           (fs', Inr \<lparr>result_mod = name, files_copied = map (Pair []) placed, result_pending = [], result_errors = [],
                     installed = (placed \<noteq> [])\<rparr>))"

definition install_extracted ::
  "install_env \<Rightarrow> archive_kind \<Rightarrow> parts \<Rightarrow> parts \<Rightarrow> string \<Rightarrow> (string, string list) dict \<Rightarrow> file_system \<Rightarrow>
   file_system \<times> (install_exn + install_result)" where
  "install_extracted env kind archive mods name selections fs =
    (case extract_archive env kind archive fs of
       (fs1, Some (Zip_Slip n)) \<Rightarrow> (fs1, Inl (Slipped n))
     | (fs1, Some (Extract_Error e)) \<Rightarrow> (fs1, Inr (failed_install name (''Extraction failed: '' @ e)))
     | (fs1, None) \<Rightarrow>
        (case find_fomod_xml env fs1 of
           Some xml_path \<Rightarrow> install_fomod env xml_path mods name selections fs1
         | None \<Rightarrow> install_simple env mods name fs1))"

text \<open>The \<open>finally\<close> removes the temporary directory, unless the removal fails silently.\<close>

definition install ::
  "install_env \<Rightarrow> parts \<Rightarrow> parts \<Rightarrow> (string, string list) dict \<Rightarrow> file_system \<Rightarrow> file_system \<times> (install_exn + install_result)" where
  "install env archive_path mods_dir selections fs =
    (case check_path env archive_path of
       Inl v \<Rightarrow> (fs, Inl (Path_Violated v))
     | Inr archive \<Rightarrow>
        (case check_path env mods_dir of
           Inl v \<Rightarrow> (fs, Inl (Path_Violated v))
         | Inr mods \<Rightarrow>
            (let name = file_stem (last archive); sfx = lower (file_suffix (last archive)) in
             case extractor sfx of
               None \<Rightarrow> (fs, Inr (failed_install name (''Unsupported archive format: '' @ repr_str sfx @ ''. Supported: .7z, .rar, .zip'')))
             | Some kind \<Rightarrow>
                (case install_extracted env kind archive mods name selections fs of
                   (fs', r) \<Rightarrow> (if tmp_removed env then rmtree (tmp_dir env) fs' else fs', r)))))"

section \<open>The preview\<close>

record fomod_preview =
  preview_mod :: string
  has_fomod :: bool
  preview_steps :: "(string \<times> (string \<times> group_type \<times> string list) list) list"

text \<open>Only a zip is read without extraction; an archive or a member that cannot be read (\<open>BadZipFile\<close>, \<open>KeyError\<close>, \<open>OSError\<close>) has no document.\<close>

fun xml_member :: "member list \<Rightarrow> string option" where
  "xml_member [] = None"
| "xml_member (m # ms) =
    (if ends_with ''fomod/moduleconfig.xml'' (lower (norm_path (member_name m)))
     then (case member_data m of Inl _ \<Rightarrow> None | Inr text \<Rightarrow> Some text) else xml_member ms)"

definition extract_fomod_xml :: "install_env \<Rightarrow> parts \<Rightarrow> string option" where
  "extract_fomod_xml env archive =
    (if lower (file_suffix (last archive)) = ''.zip''
     then (case members_of env archive of Inl _ \<Rightarrow> None | Inr ms \<Rightarrow> xml_member ms) else None)"

definition preview_step :: "install_step \<Rightarrow> string \<times> (string \<times> group_type \<times> string list) list" where
  "preview_step s = (step_name s, map (\<lambda>g. (group_name g, group_type g, map plugin_name (plugins g))) (groups s))"

definition preview :: "install_env \<Rightarrow> parts \<Rightarrow> install_exn + fomod_preview" where
  "preview env archive_path =
    (case check_path env archive_path of
       Inl v \<Rightarrow> Inl (Path_Violated v)
     | Inr archive \<Rightarrow>
        (let name = file_stem (last archive); none = \<lparr>preview_mod = name, has_fomod = False, preview_steps = []\<rparr> in
         case extract_fomod_xml env archive of
           None \<Rightarrow> Inr none
         | Some text \<Rightarrow>
            (case parse_fomod (parse_xml env) text of
               Inl (Fomod_Security_Error s) \<Rightarrow> Inl (Security_Violated s)
             | Inl (Fomod_Parse_Error _) \<Rightarrow> Inr none
             | Inr cfg \<Rightarrow> Inr \<lparr>preview_mod = (if fomod_name cfg = [] then name else fomod_name cfg), has_fomod = True,
                                preview_steps = map preview_step (install_steps cfg)\<rparr>)))"

section \<open>Nothing else is touched\<close>

definition touches_only :: "parts list \<Rightarrow> file_system \<Rightarrow> file_system \<Rightarrow> bool" where
  "touches_only ds fs fs' \<longleftrightarrow> (\<forall>p. (\<forall>d \<in> set ds. \<not> relative_to p d) \<longrightarrow> dget fs' p = dget fs p)"

lemma touches_refl [simp]: "touches_only ds fs fs"
  by (simp add: touches_only_def)

lemma touches_trans: "touches_only ds fs fs1 \<Longrightarrow> touches_only ds fs1 fs2 \<Longrightarrow> touches_only ds fs fs2"
  by (simp add: touches_only_def)

lemma touches_wider: "touches_only ds fs fs' \<Longrightarrow> set ds \<subseteq> set ds' \<Longrightarrow> touches_only ds' fs fs'"
  by (auto simp: touches_only_def)

lemma touches_dset: "relative_to p d \<Longrightarrow> d \<in> set ds \<Longrightarrow> touches_only ds fs (dset p c fs)"
  by (auto simp: touches_only_def)

lemma relative_to_trans: "relative_to p q \<Longrightarrow> relative_to q d \<Longrightarrow> relative_to p d"
  by (auto simp: relative_to_def)

text \<open>Whatever the archive holds, extraction writes only below the temporary directory.\<close>

lemma extract_members_touches: "touches_only [dest] fs (fst (extract_members env dest ms fs))"
proof (induction env dest ms fs rule: extract_members.induct)
  case (2 env dest m ms fs)
  have step: "touches_only [dest] fs (dset target c fs)" if "member_target env dest (member_name m) = Inr target" for target c
    using that by (auto simp: member_target_def Let_def intro: touches_dset split: if_splits)
  show ?case
    using 2 step by (auto split: sum.splits) (metis touches_trans)
qed simp

lemma extract_archive_touches:
  assumes "extract_archive env kind archive fs = (fs', r)"
  shows "touches_only [real_path env (tmp_dir env)] fs fs'"
proof -
  have "fs' = fs \<or> (\<exists>ms. extract_members env (real_path env (tmp_dir env)) ms fs = (fs', r))"
    using assms by (cases kind) (auto simp: extract_archive_def extract_7z_def Let_def split: sum.splits option.splits)
  then show ?thesis
  proof
    assume "\<exists>ms. extract_members env (real_path env (tmp_dir env)) ms fs = (fs', r)"
    then obtain ms where "extract_members env (real_path env (tmp_dir env)) ms fs = (fs', r)" ..
    from extract_members_touches[of "real_path env (tmp_dir env)" fs env ms, unfolded this] show ?thesis by simp
  qed simp
qed

text \<open>A member with \<open>..\<close> stops the extraction before it is written.\<close>

lemma slip_is_stopped:
  assumes "\<not> is_folder m" "''..'' \<in> set (segments (member_name m))"
  shows "extract_members env dest (m # ms) fs = (fs, Some (Zip_Slip (member_name m)))"
  using assms by (simp add: member_target_def is_safe_path_def Let_def)

lemma copy_file_touches:
  assumes "copy_file env src dest fs = (fs', e)" "relative_to dest d" "d \<in> set ds"
  shows "touches_only ds fs fs'"
  using assms by (auto simp: copy_file_def intro: touches_dset split: option.splits)

lemma safe_join_below: "safe_join resolve jn base s = Inr p \<Longrightarrow> relative_to p (resolve base)"
  by (auto simp: safe_join_def Let_def split: if_splits)

lemma copy_children_touches:
  "copy_children env src dest dest_rel cs fs placed = (fs', r) \<Longrightarrow> touches_only [real_path env dest] fs fs'"
proof (induction env src dest dest_rel cs fs placed arbitrary: fs' r rule: copy_children.induct)
  case (2 env src dest dest_rel child cs fs placed)
  let ?join = "safe_join (real_path env) (\<lambda>r _. r @ drop (length src) child) dest []"
  show ?case
  proof (cases ?join)
    case (Inl v)
    then show ?thesis using 2(1)[OF refl Inl] 2(3) by simp
  next
    case (Inr place)
    obtain fs1 e where c: "copy_file env child place fs = (fs1, e)" by (cases "copy_file env child place fs")
    have one: "touches_only [real_path env dest] fs fs1"
      by (rule copy_file_touches[OF c safe_join_below[OF Inr]]) simp
    show ?thesis
    proof (cases e)
      case None
      then have "copy_children env src dest dest_rel cs fs1 (placed @ [(dest_rel, drop (length src) child)]) = (fs', r)"
        using 2(3) Inr c by simp
      from touches_trans[OF one 2(2)[OF refl Inr c[symmetric] None this]] show ?thesis .
    next
      case (Some x)
      then show ?thesis using 2(3) Inr c one by simp
    qed
  qed
qed simp

text \<open>The resolution of a place that was resolved is the place itself.\<close>

definition settled :: "install_env \<Rightarrow> bool" where
  "settled env \<longleftrightarrow> (\<forall>p. real_path env (real_path env p) = real_path env p)"

lemma safe_join_resolved:
  assumes "settled env" "safe_join (real_path env) jn base s = Inr p"
  shows "real_path env p = p"
  using assms by (auto simp: safe_join_def Let_def settled_def split: if_splits)

lemma copy_entry_touches:
  assumes "copy_entry env content_root mod_dest f fs placed = (fs', r)" "settled env"
  shows "touches_only [real_path env mod_dest] fs fs'"
proof -
  let ?rel = "if destination f = [] then source f else destination f"
  show ?thesis
  proof (cases "\<exists>src dest. safe_join (real_path env) (join_path env) content_root (source f) = Inr src
      \<and> safe_join (real_path env) (join_path env) mod_dest ?rel = Inr dest")
    case False
    then have "fs' = fs" using assms(1) by (auto simp: copy_entry_def Let_def split: sum.splits)
    then show ?thesis by simp
  next
    case True
    then obtain src dest where src: "safe_join (real_path env) (join_path env) content_root (source f) = Inr src"
      and dest: "safe_join (real_path env) (join_path env) mod_dest ?rel = Inr dest" by blast
    have below: "relative_to dest (real_path env mod_dest)" by (rule safe_join_below[OF dest])
    have children: "touches_only [real_path env mod_dest] fs w" if "touches_only [real_path env dest] fs w" for w
      using that below safe_join_resolved[OF assms(2) dest] by (auto simp: touches_only_def dest: relative_to_trans)
    show ?thesis
    proof (cases "is_directory fs src")
      case True
      then show ?thesis using assms(1) src dest copy_children_touches children by (auto simp: copy_entry_def Let_def)
    next
      case False
      then show ?thesis
        using assms(1) src dest copy_file_touches[OF _ below, of env src fs]
        by (auto simp: copy_entry_def Let_def split: if_splits prod.splits option.splits)
    qed
  qed
qed

lemma copy_resolved_touches:
  "settled env \<Longrightarrow> copy_resolved_files env content_root mod_dest fis fs placed = (fs', r) \<Longrightarrow> touches_only [real_path env mod_dest] fs fs'"
proof (induction fis arbitrary: fs placed)
  case (Cons f fis)
  obtain w q where e: "copy_entry env content_root mod_dest f fs placed = (w, q)" by (cases "copy_entry env content_root mod_dest f fs placed")
  note one = copy_entry_touches[OF e Cons.prems(1)]
  show ?case
  proof (cases q)
    case (Inl x)
    then show ?thesis using Cons.prems(2) e one by simp
  next
    case (Inr placed')
    then have "copy_resolved_files env content_root mod_dest fis w placed' = (fs', r)" using Cons.prems(2) e by simp
    from touches_trans[OF one Cons.IH[OF Cons.prems(1) this]] show ?thesis .
  qed
qed simp

lemma copy_all_touches: "copy_all env content_root mod_dest srcs fs placed = (fs', r) \<Longrightarrow> touches_only [mod_dest] fs fs'"
proof (induction srcs arbitrary: fs placed)
  case (Cons src srcs)
  let ?rel = "drop (length content_root) src"
  obtain fs1 e where c: "copy_file env src (mod_dest @ ?rel) fs = (fs1, e)" by (cases "copy_file env src (mod_dest @ ?rel) fs")
  have one: "touches_only [mod_dest] fs fs1" by (rule copy_file_touches[OF c, of mod_dest]) (simp_all add: relative_to_def)
  show ?case
  proof (cases e)
    case None
    then have "copy_all env content_root mod_dest srcs fs1 (placed @ [?rel]) = (fs', r)" using Cons.prems c by simp
    from touches_trans[OF one Cons.IH[OF this]] show ?thesis .
  qed (use Cons.prems c one in simp)
qed simp

text \<open>The mod's directories: the one joined to the name, and what it resolves to.\<close>

definition mod_dirs :: "install_env \<Rightarrow> parts \<Rightarrow> string \<Rightarrow> parts list" where
  "mod_dirs env mods name = [join_path env mods name, real_path env (join_path env mods name)]"

text \<open>
  The name an extracted archive is installed under: the module name of its document; without one, the single folder at
  its top; otherwise the stem of the archive.
\<close>

definition document_name :: "install_env \<Rightarrow> string \<Rightarrow> string \<Rightarrow> string" where
  "document_name env stem text =
    (case parse_fomod (parse_xml env) text of Inl _ \<Rightarrow> stem | Inr cfg \<Rightarrow> if fomod_name cfg = [] then stem else fomod_name cfg)"

definition folder_name :: "install_env \<Rightarrow> string \<Rightarrow> file_system \<Rightarrow> string" where
  "folder_name env stem fs =
    (case top_items (tmp_dir env) fs of [x] \<Rightarrow> if is_directory fs (tmp_dir env @ [x]) then x else stem | _ \<Rightarrow> stem)"

definition install_name :: "install_env \<Rightarrow> string \<Rightarrow> file_system \<Rightarrow> string" where
  "install_name env stem fs =
    (case find_fomod_xml env fs of Some xml_path \<Rightarrow> document_name env stem (the (dget fs xml_path)) | None \<Rightarrow> folder_name env stem fs)"

lemma install_fomod_touches:
  assumes "install_fomod env xml_path mods fallback selections fs = (fs', r)" "settled env"
    and n: "name = document_name env fallback (the (dget fs xml_path))"
  shows "touches_only (mod_dirs env mods name) fs fs' \<and> (\<forall>res. r = Inr res \<longrightarrow> result_mod res = name)"
proof (cases "parse_fomod (parse_xml env) (the (dget fs xml_path))")
  case (Inl e)
  then show ?thesis
    using assms(1) n by (auto simp: install_fomod_def failed_install_def document_name_def split: fomod_error.splits)
next
  case (Inr cfg)
  let ?name = "if fomod_name cfg = [] then fallback else fomod_name cfg"
  let ?r = "resolve_fomod cfg selections"
  obtain w q where c: "copy_resolved_files env (butlast (butlast xml_path)) (join_path env mods ?name) (files ?r) fs [] = (w, q)"
    by (cases "copy_resolved_files env (butlast (butlast xml_path)) (join_path env mods ?name) (files ?r) fs []")
  have "touches_only (mod_dirs env mods ?name) fs w"
    using touches_wider[OF copy_resolved_touches[OF assms(2) c]] by (simp add: mod_dirs_def)
  moreover have "(fs' = fs \<or> fs' = w) \<and> (\<forall>res. r = Inr res \<longrightarrow> result_mod res = ?name)"
    using assms(1) Inr c by (cases q) (auto simp: install_fomod_def Let_def split: if_splits)
  moreover have "name = ?name" using n Inr by (simp add: document_name_def)
  ultimately show ?thesis by auto
qed

lemma install_simple_touches:
  assumes "install_simple env mods fallback fs = (fs', r)"
  shows "touches_only (mod_dirs env mods (folder_name env fallback fs)) fs fs'
    \<and> (\<forall>res. r = Inr res \<longrightarrow> result_mod res = folder_name env fallback fs)"
proof -
  let ?tmp = "tmp_dir env"
  define pick where "pick = (case top_items ?tmp fs of
      [x] \<Rightarrow> if is_directory fs (?tmp @ [x]) then (?tmp @ [x], x) else (?tmp, fallback) | _ \<Rightarrow> (?tmp, fallback))"
  obtain content_root name where p: "pick = (content_root, name)" by (cases pick)
  obtain w q where c: "copy_all env content_root (join_path env mods name) (files_under content_root fs) fs [] = (w, q)"
    by (cases "copy_all env content_root (join_path env mods name) (files_under content_root fs) fs []")
  have run: "fs' = w \<and> (\<forall>res. r = Inr res \<longrightarrow> result_mod res = name)"
    using assms p c unfolding install_simple_def Let_def pick_def[symmetric] by (cases q) auto
  moreover have "folder_name env fallback fs = name"
    using p by (auto simp: pick_def folder_name_def split: list.splits if_splits)
  moreover have "touches_only (mod_dirs env mods name) fs w"
    using touches_wider[OF copy_all_touches[OF c]] by (simp add: mod_dirs_def)
  ultimately show ?thesis by simp
qed

text \<open>A name that is one component of a path; joining such a name adds it to the path.\<close>

definition plain_component :: "string \<Rightarrow> bool" where
  "plain_component n \<longleftrightarrow> n \<noteq> [] \<and> n \<noteq> ''.'' \<and> n \<noteq> ''..'' \<and> set n \<inter> {CHR ''/'', CHR 0x5C, CHR '':''} = {}"

definition joins_components :: "install_env \<Rightarrow> bool" where
  "joins_components env \<longleftrightarrow> (\<forall>r n. plain_component n \<longrightarrow> join_path env r n = r @ [n])"

text \<open>
  C35: whatever the archive and its document hold, and whether the installation returns or raises, it writes only below
  the temporary directory and below the directory of one mod: the directory of the mods joined with the module name of
  the document, with the archive's single top folder when there is no document, or else with the stem of the archive.
  That is also the name of the result, and when it is one component of a path the directory is a folder directly in the
  directory of the mods, or what this folder resolves to.
\<close>

theorem install_writes_one_mod:
  assumes "install env archive_path mods_dir selections fs = (fs', r)" and "settled env" and "joins_components env"
  shows "fs' = fs \<or> (\<exists>archive mods kind fs1 q name.
      check_path env archive_path = Inr archive \<and> check_path env mods_dir = Inr mods
    \<and> extract_archive env kind archive fs = (fs1, q)
    \<and> name = (if q = None then install_name env (file_stem (last archive)) fs1 else file_stem (last archive))
    \<and> (\<forall>res. r = Inr res \<longrightarrow> result_mod res = name)
    \<and> (\<forall>p. \<not> relative_to p (real_path env (tmp_dir env)) \<and> \<not> inside (tmp_dir env) p
         \<and> (\<forall>d \<in> set (mod_dirs env mods name). \<not> relative_to p d) \<longrightarrow> dget fs' p = dget fs p)
    \<and> (plain_component name \<longrightarrow> mod_dirs env mods name = [mods @ [name], real_path env (mods @ [name])]))"
proof (cases "\<exists>archive mods kind. check_path env archive_path = Inr archive \<and> check_path env mods_dir = Inr mods
    \<and> extractor (lower (file_suffix (last archive))) = Some kind")
  case False
  then have "fs' = fs" using assms(1) by (auto simp: install_def Let_def split: sum.splits option.splits)
  then show ?thesis by simp
next
  case True
  then obtain archive mods kind where a: "check_path env archive_path = Inr archive" "check_path env mods_dir = Inr mods"
    "extractor (lower (file_suffix (last archive))) = Some kind" by blast
  let ?name = "file_stem (last archive)"
  obtain fs2 where body: "install_extracted env kind archive mods ?name selections fs = (fs2, r)"
    and fs': "fs' = (if tmp_removed env then rmtree (tmp_dir env) fs2 else fs2)"
    using assms(1) a by (auto simp: install_def Let_def split: prod.splits)
  obtain fs1 q where ex: "extract_archive env kind archive fs = (fs1, q)" by (cases "extract_archive env kind archive fs")
  note extracted = extract_archive_touches[OF ex]
  define name where "name = (if q = None then install_name env ?name fs1 else ?name)"
  have one: "touches_only (mod_dirs env mods name) fs1 fs2 \<and> (\<forall>res. r = Inr res \<longrightarrow> result_mod res = name)"
  proof (cases q)
    case (Some x)
    then show ?thesis using body ex by (cases x) (auto simp: install_extracted_def failed_install_def name_def)
  next
    case None
    show ?thesis
    proof (cases "find_fomod_xml env fs1")
      case (Some xml_path)
      then have "install_fomod env xml_path mods ?name selections fs1 = (fs2, r)" using body ex None by (simp add: install_extracted_def)
      from install_fomod_touches[OF this assms(2)] show ?thesis by (simp add: name_def None install_name_def Some)
    next
      case no_xml: None
      then have "install_simple env mods ?name fs1 = (fs2, r)" using body ex None by (simp add: install_extracted_def)
      from install_simple_touches[OF this] show ?thesis by (simp add: name_def None install_name_def no_xml)
    qed
  qed
  have "dget fs' p = dget fs p" if p: "\<not> relative_to p (real_path env (tmp_dir env))" "\<not> inside (tmp_dir env) p"
      "\<forall>d \<in> set (mod_dirs env mods name). \<not> relative_to p d" for p
  proof -
    have "dget fs' p = dget fs2 p" using p(2) dget_filter_key[of "\<lambda>k. \<not> inside (tmp_dir env) k" fs2 p]
      by (simp add: fs' rmtree_def)
    also have "\<dots> = dget fs1 p" using one p(3) by (simp add: touches_only_def)
    also have "\<dots> = dget fs p" using extracted p(1) by (simp add: touches_only_def)
    finally show ?thesis .
  qed
  moreover have "mod_dirs env mods name = [mods @ [name], real_path env (mods @ [name])]" if "plain_component name"
    using that assms(3) by (simp add: mod_dirs_def joins_components_def)
  ultimately show ?thesis using a(1,2) ex name_def one by blast
qed

section \<open>A run\<close>

text \<open>Paths resolved by their text alone, and an archive with a document, a file and a folder.\<close>

definition lexical :: "parts \<Rightarrow> parts" where
  "lexical p = foldl (\<lambda>acc c. if c = ''..'' then butlast acc else acc @ [c]) [] p"

definition lexical_join :: "parts \<Rightarrow> string \<Rightarrow> parts" where
  "lexical_join r s = (let ps = filter (\<lambda>x. x \<noteq> [] \<and> x \<noteq> ''.'') (segments s) in if starts_with ''/'' s then ps else r @ ps)"

definition demo_doc :: "string \<Rightarrow> xml" where
  "demo_doc name = Elem ''config'' [] None [Elem ''moduleName'' [] (Some name) [],
     Elem ''requiredInstallFiles'' [] None [Elem ''file'' [(''source'', ''f'')] None [],
       Elem ''file'' [(''source'', ''f''), (''destination'', ''../x'')] None [], Elem ''folder'' [(''source'', ''d''), (''destination'', ''e'')] None []]]"

definition demo_install_env :: "string \<Rightarrow> install_env" where
  "demo_install_env name = \<lparr>real_path = lexical, join_path = lexical_join, check_path = Inr, parse_xml = (\<lambda>_. Inr (demo_doc name)),
     members_of = (\<lambda>_. Inr [\<lparr>member_name = ''fomod/ModuleConfig.xml'', is_folder = False, member_data = Inr ''doc''\<rparr>,
       \<lparr>member_name = ''f'', is_folder = False, member_data = Inr ''1''\<rparr>, \<lparr>member_name = ''d/g'', is_folder = False, member_data = Inr ''2''\<rparr>]),
     windows = False, tmp_dir = [''t''], tmp_removed = True, copy_failure = (\<lambda>_. None)\<rparr>"

lemma demo_install:
  "install (demo_install_env ''m'') [''a.zip''] [''mods''] [] [([''k''], ''k'')]
   = ([([''k''], ''k''), ([''mods'', ''m'', ''f''], ''1''), ([''mods'', ''m'', ''e'', ''g''], ''2'')],
      Inr \<lparr>result_mod = ''m'', files_copied = [(''f'', []), (''e'', [''g''])], result_pending = [], result_errors = [], installed = True\<rparr>)"
  by code_simp

lemma lexical_settled: "settled (demo_install_env name)"
proof -
  have clean: "''..'' \<notin> set (lexical p)" for p
  proof -
    have "''..'' \<notin> set acc \<Longrightarrow> ''..'' \<notin> set (foldl (\<lambda>acc c. if c = ''..'' then butlast acc else acc @ [c]) acc p)" for acc
      by (induction p arbitrary: acc) (auto dest: in_set_butlastD)
    then show ?thesis by (simp add: lexical_def)
  qed
  have "''..'' \<notin> set p \<Longrightarrow> foldl (\<lambda>acc c. if c = ''..'' then butlast acc else acc @ [c]) acc p = acc @ p" for acc p
    by (induction p arbitrary: acc) auto
  then have "lexical p = p" if "''..'' \<notin> set p" for p using that by (simp add: lexical_def)
  with clean show ?thesis by (simp add: settled_def demo_install_env_def)
qed

lemma lexical_joins: "joins_components (demo_install_env name)"
proof -
  have "segments n = [n]" if "CHR ''/'' \<notin> set n" for n
    using that by (induction n) auto
  moreover have "\<not> starts_with ''/'' n" if "CHR ''/'' \<notin> set n" for n
    using that by (cases n) (auto simp: starts_with_def)
  ultimately show ?thesis
    by (simp add: joins_components_def plain_component_def demo_install_env_def lexical_join_def Let_def)
qed

theorem install_writes_one_mod_witness:
  "\<exists>fs'. fst (install (demo_install_env ''m'') [''a.zip''] [''mods''] [] [([''k''], ''k'')]) = fs'
     \<and> (\<forall>p. \<not> relative_to p [''t''] \<and> \<not> inside [''t''] p \<and> \<not> relative_to p [''mods'', ''m'']
          \<longrightarrow> dget fs' p = dget [([''k''], ''k'')] p)"
proof -
  let ?env = "demo_install_env ''m''" and ?fs = "[([''k''], ''k'')]"
  define fs' where "fs' = fst (install ?env [''a.zip''] [''mods''] [] ?fs)"
  obtain res where run: "install ?env [''a.zip''] [''mods''] [] ?fs = (fs', Inr res)" "result_mod res = ''m''" "fs' \<noteq> ?fs"
    unfolding fs'_def demo_install by simp
  have t: "real_path ?env (tmp_dir ?env) = [''t'']" by code_simp
  have d: "mod_dirs ?env [''mods''] ''m'' = [[''mods'', ''m''], [''mods'', ''m'']]" by code_simp
  have c: "check_path ?env p = Inr p" "tmp_dir ?env = [''t'']" for p by (simp_all add: demo_install_env_def)
  have "\<forall>p. \<not> relative_to p [''t''] \<and> \<not> inside [''t''] p \<and> \<not> relative_to p [''mods'', ''m''] \<longrightarrow> dget fs' p = dget ?fs p"
    using install_writes_one_mod[OF run(1) lexical_settled lexical_joins]
  proof (elim disjE exE conjE)
    fix mods name
    assume m: "check_path ?env [''mods''] = Inr mods"
      "\<forall>res'. Inr res = (Inr res' :: install_exn + install_result) \<longrightarrow> result_mod res' = name"
      "\<forall>p. \<not> relative_to p (real_path ?env (tmp_dir ?env)) \<and> \<not> inside (tmp_dir ?env) p
         \<and> (\<forall>d \<in> set (mod_dirs ?env mods name). \<not> relative_to p d) \<longrightarrow> dget fs' p = dget ?fs p"
    have n: "mods = [''mods'']" "name = ''m''" using m(1,2) run(2) c(1) by simp_all
    show ?thesis using m(3)[unfolded t n d] by (simp add: c(2))
  qed (use run(3) in blast)
  then show ?thesis unfolding fs'_def by blast
qed

text \<open>
  The name in the document is joined to the directory of the mods unchecked: with parts \<open>..\<close> the installation writes
  outside of it, although every destination is checked against the mod's own directory.
\<close>

lemma module_name_escapes:
  "dget (fst (install (demo_install_env ''../../q'') [''a.zip''] [''r'', ''mods''] [] [])) [''q'', ''f''] = Some ''1''"
  by code_simp

end
