(* ===== verification/Thoughts.thy ===== *)
theory Thoughts
  imports Step_System
begin

text \<open>
  The tree of thoughts of \<open>sky_claw/antigravity/reasoning/types.py\<close> and the engine's operations on it in
  \<open>engine.py\<close>: expansion, pruning and the detection of repeated states.  Nodes are shared objects (a node is
  in its parent's list of children and in the queues of a search), so the tree is a store: a node is its
  number, in the order of creation.  The generator and the evaluator are a language model: their answers are
  arguments that may change from call to call; \<open>calls\<close> counts the calls.  Scores are reals.
\<close>

section \<open>Configuration\<close>

datatype search_type = BFS | DFS | BEST_FIRST | BEAM | MCTS
datatype evaluation = PROMISING | DEAD_END | SOLUTION | UNCERTAIN
datatype pruning_method = FIXED_THRESHOLD | RELATIVE_TOP_K | RELATIVE_PERCENTILE

record tot_config =
  max_depth :: nat
  max_thoughts_per_step :: nat
  beam_width :: nat
  method_of_pruning :: pruning_method
  pruning_threshold :: real
  pruning_top_k :: nat
  pruning_percentile :: real
  solution_threshold :: real
  enable_backtracking :: bool
  max_backtracks :: nat
  search_strategy :: search_type
  mcts_exploration_constant :: real
  mcts_max_rollout_depth :: nat
  mcts_iterations :: nat
  enable_parallel_expansion :: bool
  max_parallel_expansions :: nat

definition default_tot_config :: tot_config where
  "default_tot_config = \<lparr>max_depth = 5, max_thoughts_per_step = 3, beam_width = 3, method_of_pruning = RELATIVE_TOP_K,
     pruning_threshold = 0.3, pruning_top_k = 3, pruning_percentile = 0.75, solution_threshold = 0.9,
     enable_backtracking = True, max_backtracks = 3, search_strategy = BEST_FIRST, mcts_exploration_constant = 1.414,
     mcts_max_rollout_depth = 3, mcts_iterations = 100, enable_parallel_expansion = True, max_parallel_expansions = 5\<rparr>"

text \<open>The bounds pydantic checks.\<close>

definition valid_tot_config :: "tot_config \<Rightarrow> bool" where
  "valid_tot_config cfg \<longleftrightarrow> 1 \<le> max_depth cfg \<and> max_depth cfg \<le> 10 \<and> 1 \<le> max_thoughts_per_step cfg \<and> max_thoughts_per_step cfg \<le> 5
    \<and> 1 \<le> beam_width cfg \<and> beam_width cfg \<le> 5 \<and> 0 \<le> pruning_threshold cfg \<and> pruning_threshold cfg \<le> 1
    \<and> 1 \<le> pruning_top_k cfg \<and> pruning_top_k cfg \<le> 10 \<and> 0 \<le> pruning_percentile cfg \<and> pruning_percentile cfg \<le> 1
    \<and> 0 \<le> solution_threshold cfg \<and> solution_threshold cfg \<le> 1 \<and> max_backtracks cfg \<le> 10
    \<and> 0 \<le> mcts_exploration_constant cfg \<and> mcts_exploration_constant cfg \<le> 5
    \<and> 1 \<le> mcts_max_rollout_depth cfg \<and> mcts_max_rollout_depth cfg \<le> 10
    \<and> 10 \<le> mcts_iterations cfg \<and> mcts_iterations cfg \<le> 1000
    \<and> 1 \<le> max_parallel_expansions cfg \<and> max_parallel_expansions cfg \<le> 10"

section \<open>Nodes\<close>

text \<open>The three counters are the metadata of the Monte Carlo search, absent at first.\<close>

record 'a thought_node =
  node_state :: 'a
  node_thought :: string
  node_depth :: nat
  node_score :: real
  node_parent :: "nat option"
  node_children :: "nat list"
  node_evaluation :: evaluation
  node_visits :: "nat option"
  node_total :: "real option"
  node_avg :: "real option"

definition new_node :: "'a \<Rightarrow> string \<Rightarrow> nat \<Rightarrow> real \<Rightarrow> nat option \<Rightarrow> evaluation \<Rightarrow> 'a thought_node" where
  "new_node s t d sc p ev = \<lparr>node_state = s, node_thought = t, node_depth = d, node_score = sc, node_parent = p,
     node_children = [], node_evaluation = ev, node_visits = None, node_total = None, node_avg = None\<rparr>"

text \<open>
  The dependencies: \<open>uuid\<close> is the identifier of a node, \<open>state_key\<close> the hash of a state, \<open>rank\<close> the order in
  which the evaluations of a parallel batch end, and \<open>check\<close> the solution checker (\<open>None\<close> for a falsy result).
\<close>

datatype 'a generated = Generation_Timed_Out | Generation_Raised string | Candidates "('a \<times> string) list"

record ('a, 's) tot_env =
  generate :: "nat \<Rightarrow> 'a \<Rightarrow> nat \<Rightarrow> string list \<Rightarrow> 'a generated"
  evaluate :: "nat \<Rightarrow> 'a \<Rightarrow> string \<Rightarrow> string + real \<times> evaluation"
  check :: "'a \<Rightarrow> 's option"
  state_key :: "'a \<Rightarrow> string"
  rank :: "nat \<Rightarrow> nat \<Rightarrow> nat"
  uuid :: "nat \<Rightarrow> string"

record ('a, 's) engine =
  nodes :: "'a thought_node list"
  visited :: "string list"
  solutions :: "'s list"
  calls :: nat

section \<open>The tree\<close>

definition set_node :: "nat \<Rightarrow> ('a thought_node \<Rightarrow> 'a thought_node) \<Rightarrow> ('a, 's) engine \<Rightarrow> ('a, 's) engine" where
  "set_node i f g = g\<lparr>nodes := (nodes g)[i := f (nodes g ! i)]\<rparr>"

text \<open>\<open>add_child\<close> of a node not yet in the store.\<close>

definition add_child :: "nat \<Rightarrow> 'a thought_node \<Rightarrow> ('a, 's) engine \<Rightarrow> ('a, 's) engine" where
  "add_child p c g =
    (let g' = set_node p (\<lambda>n. n\<lparr>node_children := node_children n @ [length (nodes g)]\<rparr>) g
     in g'\<lparr>nodes := nodes g' @ [c\<lparr>node_parent := Some p, node_depth := node_depth (nodes g ! p) + 1\<rparr>]\<rparr>)"

text \<open>\<open>get_path_to_root\<close>, of numbers; it follows parents, which have smaller numbers.\<close>

function path_to_root :: "('a, 's) engine \<Rightarrow> nat \<Rightarrow> nat list" where
  "path_to_root g i = (case node_parent (nodes g ! i) of
       None \<Rightarrow> [i]
     | Some p \<Rightarrow> if p < i then path_to_root g p @ [i] else [i])"
  by auto
termination by (relation "measure snd") auto

declare path_to_root.simps [simp del]

definition path_thoughts :: "('a, 's) engine \<Rightarrow> nat \<Rightarrow> string list" where
  "path_thoughts g i = map (\<lambda>k. node_thought (nodes g ! k)) (path_to_root g i)"

section \<open>Repeated states\<close>

definition is_visited :: "('a, 's) tot_env \<Rightarrow> nat \<Rightarrow> ('a, 's) engine \<Rightarrow> bool" where
  "is_visited env i g \<longleftrightarrow> state_key env (node_state (nodes g ! i)) \<in> set (visited g)"

definition mark_visited :: "('a, 's) tot_env \<Rightarrow> nat \<Rightarrow> ('a, 's) engine \<Rightarrow> ('a, 's) engine" where
  "mark_visited env i g = g\<lparr>visited := List.insert (state_key env (node_state (nodes g ! i))) (visited g)\<rparr>"

definition visited_count :: "('a, 's) engine \<Rightarrow> nat" where
  "visited_count g = length (visited g)"

section \<open>Pruning\<close>

definition kill :: "nat list \<Rightarrow> ('a, 's) engine \<Rightarrow> ('a, 's) engine" where
  "kill is g = fold (\<lambda>i. set_node i (\<lambda>n. n\<lparr>node_evaluation := DEAD_END\<rparr>)) is g"

definition score_of :: "('a, 's) engine \<Rightarrow> nat \<Rightarrow> real" where
  "score_of g i = node_score (nodes g ! i)"

definition alive :: "('a, 's) engine \<Rightarrow> nat \<Rightarrow> bool" where
  "alive g i \<longleftrightarrow> node_evaluation (nodes g ! i) \<noteq> DEAD_END"

text \<open>\<open>sorted(nodes, key=score, reverse=True)\<close>, which keeps the order of equal scores.\<close>

definition by_score :: "('a, 's) engine \<Rightarrow> nat list \<Rightarrow> nat list" where
  "by_score g is = sort_key (\<lambda>i. - score_of g i) is"

definition apply_fixed_threshold :: "real \<Rightarrow> nat list \<Rightarrow> ('a, 's) engine \<Rightarrow> ('a, 's) engine \<times> nat list" where
  "apply_fixed_threshold t is g =
    (kill (filter (\<lambda>i. score_of g i < t) is) g, filter (\<lambda>i. \<not> score_of g i < t) is)"

definition apply_top_k :: "nat \<Rightarrow> nat list \<Rightarrow> ('a, 's) engine \<Rightarrow> ('a, 's) engine \<times> nat list" where
  "apply_top_k k is g =
    (if length is \<le> k then (g, is)
     else let s = by_score g is in (kill (drop k s) g, take k s))"

text \<open>\<open>None\<close>: the threshold's index is past the end, an \<open>IndexError\<close>.\<close>

definition apply_percentile :: "real \<Rightarrow> nat list \<Rightarrow> ('a, 's) engine \<Rightarrow> (('a, 's) engine \<times> nat list) option" where
  "apply_percentile q is g =
    (if length is \<le> 1 then Some (g, is)
     else let scores = sort (map (score_of g) is); k = nat (floor (real (length scores) * q)) in
       if length scores \<le> k then None
       else Some (apply_fixed_threshold (scores ! k) is g))"

definition prune :: "tot_config \<Rightarrow> nat list \<Rightarrow> ('a, 's) engine \<Rightarrow> (('a, 's) engine \<times> nat list) option" where
  "prune cfg is g =
    (if is = [] then Some (g, is)
     else let live = filter (alive g) is in
       case method_of_pruning cfg of
         FIXED_THRESHOLD \<Rightarrow> Some (apply_fixed_threshold (pruning_threshold cfg) live g)
       | RELATIVE_TOP_K \<Rightarrow> Some (apply_top_k (pruning_top_k cfg) live g)
       | RELATIVE_PERCENTILE \<Rightarrow> apply_percentile (pruning_percentile cfg) live g)"

section \<open>Expansion\<close>

definition tick :: "('a, 's) engine \<Rightarrow> ('a, 's) engine" where
  "tick g = g\<lparr>calls := calls g + 1\<rparr>"

text \<open>\<open>_create_child_node\<close>: an evaluator that raises gives no child.\<close>

definition create_child_node ::
  "('a, 's) tot_env \<Rightarrow> tot_config \<Rightarrow> nat \<Rightarrow> 'a \<times> string \<Rightarrow> ('a, 's) engine \<Rightarrow> ('a, 's) engine \<times> nat option" where
  "create_child_node env cfg p cand g =
    (case evaluate env (calls g) (fst cand) (snd cand) of
       Inl _ \<Rightarrow> (tick g, None)
     | Inr (score, ev) \<Rightarrow>
        (let i = length (nodes g);
             g1 = add_child p (new_node (fst cand) (snd cand) (node_depth (nodes g ! p) + 1) score None ev) (tick g)
         in case (if score \<ge> solution_threshold cfg then check env (fst cand) else None) of
              None \<Rightarrow> (g1, Some i)
            | Some s \<Rightarrow> (set_node i (\<lambda>n. n\<lparr>node_evaluation := SOLUTION\<rparr>) (g1\<lparr>solutions := solutions g1 @ [s]\<rparr>), Some i)))"

text \<open>
  Evaluate the candidates in the given order of positions; the results are listed by position, as
  \<open>gather\<close> and the sequential loop do.
\<close>

fun create_in_order ::
  "('a, 's) tot_env \<Rightarrow> tot_config \<Rightarrow> nat \<Rightarrow> ('a \<times> string) list \<Rightarrow> nat list \<Rightarrow> ('a, 's) engine \<Rightarrow> ('a, 's) engine \<times> (nat \<times> nat) list" where
  "create_in_order env cfg p cands [] g = (g, [])"
| "create_in_order env cfg p cands (k # ks) g =
    (case create_child_node env cfg p (cands ! k) g of
       (g1, r) \<Rightarrow> (case create_in_order env cfg p cands ks g1 of
          (g2, rs) \<Rightarrow> (g2, (case r of None \<Rightarrow> rs | Some c \<Rightarrow> (k, c) # rs))))"

definition create_batch ::
  "('a, 's) tot_env \<Rightarrow> tot_config \<Rightarrow> nat \<Rightarrow> ('a \<times> string) list \<Rightarrow> nat list \<Rightarrow> ('a, 's) engine \<Rightarrow> ('a, 's) engine \<times> nat list" where
  "create_batch env cfg p cands order g =
    (case create_in_order env cfg p cands order g of (g', rs) \<Rightarrow> (g', map snd (sort_key fst rs)))"

text \<open>\<open>_expand_candidates_sequential\<close> and \<open>_expand_candidates_parallel\<close>.\<close>

definition expand_sequential ::
  "('a, 's) tot_env \<Rightarrow> tot_config \<Rightarrow> nat \<Rightarrow> ('a \<times> string) list \<Rightarrow> ('a, 's) engine \<Rightarrow> ('a, 's) engine \<times> nat list" where
  "expand_sequential env cfg p cands g = create_batch env cfg p cands [0..<length cands] g"

function batches :: "nat \<Rightarrow> 'b list \<Rightarrow> 'b list list" where
  "batches n xs = (if xs = [] \<or> n = 0 then [] else take n xs # batches n (drop n xs))"
  by auto
termination by (relation "measure (length \<circ> snd)") auto

declare batches.simps [simp del]

fun expand_batches ::
  "('a, 's) tot_env \<Rightarrow> tot_config \<Rightarrow> nat \<Rightarrow> ('a \<times> string) list list \<Rightarrow> ('a, 's) engine \<Rightarrow> ('a, 's) engine \<times> nat list" where
  "expand_batches env cfg p [] g = (g, [])"
| "expand_batches env cfg p (b # bs) g =
    (case create_batch env cfg p b (sort_key (rank env (calls g)) [0..<length b]) g of
       (g1, cs) \<Rightarrow> (case expand_batches env cfg p bs g1 of (g2, ds) \<Rightarrow> (g2, cs @ ds)))"

definition expand_parallel ::
  "('a, 's) tot_env \<Rightarrow> tot_config \<Rightarrow> nat \<Rightarrow> ('a \<times> string) list \<Rightarrow> ('a, 's) engine \<Rightarrow> ('a, 's) engine \<times> nat list" where
  "expand_parallel env cfg p cands g =
    expand_batches env cfg p (batches (min (length cands) (max_parallel_expansions cfg)) cands) g"

definition expand_node ::
  "('a, 's) tot_env \<Rightarrow> tot_config \<Rightarrow> nat \<Rightarrow> ('a, 's) engine \<Rightarrow> ('a, 's) engine \<times> (string + nat list)" where
  "expand_node env cfg p g =
    (case generate env (calls g) (node_state (nodes g ! p)) (max_thoughts_per_step cfg) (path_thoughts g p) of
       Generation_Timed_Out \<Rightarrow> (tick g, Inr [])
     | Generation_Raised e \<Rightarrow> (tick g, Inl e)
     | Candidates cands \<Rightarrow>
        (case (if enable_parallel_expansion cfg \<and> length cands > 1 then expand_parallel env cfg p cands (tick g)
               else expand_sequential env cfg p cands (tick g)) of
           (g', cs) \<Rightarrow> (g', Inr cs)))"

end
