(* ===== verification/Searches.thy ===== *)
theory Searches
  imports Thoughts
begin

text \<open>
  The search strategies of \<open>sky_claw/antigravity/reasoning/strategies.py\<close> and \<open>solve\<close> of \<open>engine.py\<close>.  Each
  strategy is a loop; a pass of its body is a step from one state of the search to the next or to the end.
  Waiting happens only inside a pass, so the overall timeout is a number of passes.
\<close>

datatype 's outcome = Found 's | Exhausted | Search_Raised string

definition check_solution :: "('a, 's) tot_env \<Rightarrow> nat \<Rightarrow> ('a, 's) engine \<Rightarrow> ('a, 's) engine \<times> 's option" where
  "check_solution env i g =
    (case check env (node_state (nodes g ! i)) of
       None \<Rightarrow> (g, None)
     | Some s \<Rightarrow> (g\<lparr>solutions := solutions g @ [s]\<rparr>, Some s))"

text \<open>Expand and prune, as the loops do; an index error of the pruning is an exception of the search.\<close>

definition expand_and_prune ::
  "('a, 's) tot_env \<Rightarrow> tot_config \<Rightarrow> nat \<Rightarrow> ('a, 's) engine \<Rightarrow> ('a, 's) engine \<times> (string + nat list)" where
  "expand_and_prune env cfg i g =
    (case expand_node env cfg i g of
       (g1, Inl e) \<Rightarrow> (g1, Inl e)
     | (g1, Inr cs) \<Rightarrow>
        (case prune cfg cs g1 of None \<Rightarrow> (g1, Inl ''IndexError'') | Some (g2, kept) \<Rightarrow> (g2, Inr kept)))"

section \<open>Breadth first\<close>

datatype ('a, 's) bfs = Bfs "nat list" "('a, 's) engine"

fun bfs_step :: "('a, 's) tot_env \<Rightarrow> tot_config \<Rightarrow> ('a, 's) bfs \<Rightarrow> ('a, 's) bfs + ('a, 's) engine \<times> 's outcome" where
  "bfs_step env cfg (Bfs [] g) = Inr (g, Exhausted)"
| "bfs_step env cfg (Bfs (current # queue) g) =
    (case check_solution env current g of
       (g1, Some s) \<Rightarrow> Inr (g1, Found s)
     | (g1, None) \<Rightarrow>
        if node_depth (nodes g1 ! current) \<ge> max_depth cfg then Inl (Bfs queue g1)
        else if is_visited env current g1 then Inl (Bfs queue g1)
        else (case expand_and_prune env cfg current (mark_visited env current g1) of
           (g2, Inl e) \<Rightarrow> Inr (g2, Search_Raised e)
         | (g2, Inr cs) \<Rightarrow> Inl (Bfs (queue @ cs) g2)))"

section \<open>Depth first\<close>

text \<open>The stack of nodes with the index of their next child, the top first; what is pruned is expanded all the same.\<close>

datatype ('a, 's) dfs = Dfs "(nat \<times> nat) list" nat "('a, 's) engine"

definition dfs_descend :: "nat \<Rightarrow> nat \<Rightarrow> (nat \<times> nat) list \<Rightarrow> nat \<Rightarrow> ('a, 's) engine \<Rightarrow> ('a, 's) dfs" where
  "dfs_descend current idx stack n g =
    (let cs = node_children (nodes g ! current) in
     if idx < length cs then Dfs ((cs ! idx, 0) # (current, idx + 1) # stack) n g else Dfs stack n g)"

fun dfs_step :: "('a, 's) tot_env \<Rightarrow> tot_config \<Rightarrow> ('a, 's) dfs \<Rightarrow> ('a, 's) dfs + ('a, 's) engine \<times> 's outcome" where
  "dfs_step env cfg (Dfs [] n g) = Inr (g, Exhausted)"
| "dfs_step env cfg (Dfs ((current, idx) # stack) n g) =
    (case check_solution env current g of
       (g1, Some s) \<Rightarrow> Inr (g1, Found s)
     | (g1, None) \<Rightarrow>
        if idx = 0 \<and> is_visited env current g1 then Inl (Dfs stack n g1)
        else
          (let g2 = (if idx = 0 then mark_visited env current g1 else g1) in
           if node_depth (nodes g2 ! current) \<ge> max_depth cfg
           then Inl (Dfs stack (if enable_backtracking cfg \<and> n < max_backtracks cfg then n + 1 else n) g2)
           else if node_children (nodes g2 ! current) = [] \<and> idx = 0
           then (case expand_and_prune env cfg current g2 of
                   (g3, Inl e) \<Rightarrow> Inr (g3, Search_Raised e)
                 | (g3, Inr cs) \<Rightarrow> Inl (dfs_descend current idx stack n g3))
           else Inl (dfs_descend current idx stack n g2)))"

section \<open>Best first\<close>

text \<open>The heap holds triples \<open>(-score, id, node)\<close>; \<open>heappop\<close> takes a least one.\<close>

type_synonym entry = "real \<times> string \<times> nat"

definition entry_of :: "('a, 's) tot_env \<Rightarrow> ('a, 's) engine \<Rightarrow> nat \<Rightarrow> entry" where
  "entry_of env g i = (- score_of g i, uuid env i, i)"

definition entry_le :: "entry \<Rightarrow> entry \<Rightarrow> bool" where
  "entry_le x y \<longleftrightarrow> fst x < fst y \<or> fst x = fst y \<and> fst (snd x) \<le> fst (snd y)"

fun least_entry :: "entry \<Rightarrow> entry list \<Rightarrow> entry" where
  "least_entry x [] = x"
| "least_entry x (y # ys) = least_entry (if entry_le x y then x else y) ys"

definition heappop :: "entry list \<Rightarrow> (entry \<times> entry list) option" where
  "heappop h = (case h of [] \<Rightarrow> None | x # xs \<Rightarrow> (let m = least_entry x xs in Some (m, remove1 m h)))"

datatype ('a, 's) best_first = Best "entry list" "nat list" "('a, 's) engine"

definition best_first_step ::
  "('a, 's) tot_env \<Rightarrow> tot_config \<Rightarrow> ('a, 's) best_first \<Rightarrow> ('a, 's) best_first + ('a, 's) engine \<times> 's outcome" where
  "best_first_step env cfg st =
    (case st of Best heap ids g \<Rightarrow>
      (case heappop heap of
         None \<Rightarrow> Inr (g, Exhausted)
       | Some ((sc, u, current), heap1) \<Rightarrow>
          if current \<in> set ids then Inl (Best heap1 ids g)
          else if is_visited env current g then Inl (Best heap1 (current # ids) g)
          else (case check_solution env current (mark_visited env current g) of
             (g1, Some s) \<Rightarrow> Inr (g1, Found s)
           | (g1, None) \<Rightarrow>
              if node_depth (nodes g1 ! current) \<ge> max_depth cfg then Inl (Best heap1 (current # ids) g1)
              else (case expand_and_prune env cfg current g1 of
                 (g2, Inl e) \<Rightarrow> Inr (g2, Search_Raised e)
               | (g2, Inr cs) \<Rightarrow> Inl (Best (heap1 @ map (entry_of env g2) cs) (current # ids) g2)))))"

section \<open>Beam\<close>

text \<open>The rest of the current level, the next one, and the number of levels begun.\<close>

datatype ('a, 's) beam = Beam "nat list" "nat list" nat "('a, 's) engine"

fun beam_step :: "('a, 's) tot_env \<Rightarrow> tot_config \<Rightarrow> ('a, 's) beam \<Rightarrow> ('a, 's) beam + ('a, 's) engine \<times> 's outcome" where
  "beam_step env cfg (Beam [] next_level levels g) =
    (case prune cfg next_level g of
       None \<Rightarrow> Inr (g, Search_Raised ''IndexError'')
     | Some (g1, kept) \<Rightarrow>
        (let level = take (beam_width cfg) (by_score g1 kept) in
         if levels \<ge> max_depth cfg \<or> level = [] then Inr (g1, Exhausted) else Inl (Beam level [] (levels + 1) g1)))"
| "beam_step env cfg (Beam (current # level) next_level levels g) =
    (if is_visited env current g then Inl (Beam level next_level levels g)
     else (case check_solution env current (mark_visited env current g) of
        (g1, Some s) \<Rightarrow> Inr (g1, Found s)
      | (g1, None) \<Rightarrow>
         (case expand_node env cfg current g1 of
            (g2, Inl e) \<Rightarrow> Inr (g2, Search_Raised e)
          | (g2, Inr cs) \<Rightarrow> Inl (Beam level (next_level @ cs) levels g2))))"

section \<open>Monte Carlo\<close>

definition child_visits :: "('a, 's) engine \<Rightarrow> nat \<Rightarrow> nat" where
  "child_visits g i = (case node_visits (nodes g ! i) of None \<Rightarrow> 0 | Some v \<Rightarrow> v)"

definition ucb_score :: "real \<Rightarrow> nat \<Rightarrow> ('a, 's) engine \<Rightarrow> nat \<Rightarrow> real" where
  "ucb_score c parent_visits g i =
    (case node_avg (nodes g ! i) of None \<Rightarrow> score_of g i | Some a \<Rightarrow> a)
      + c * sqrt (ln (real parent_visits) / real (child_visits g i))"

text \<open>The first child without a visit, else the first one of the greatest score.\<close>

fun best_child :: "real \<Rightarrow> nat \<Rightarrow> ('a, 's) engine \<Rightarrow> nat option \<Rightarrow> nat list \<Rightarrow> nat option" where
  "best_child c pv g best [] = best"
| "best_child c pv g best (i # is) =
    (if child_visits g i = 0 then Some i
     else best_child c pv g
       (case best of None \<Rightarrow> Some i | Some b \<Rightarrow> if ucb_score c pv g i > ucb_score c pv g b then Some i else Some b) is)"

partial_function (option) select_promising :: "real \<Rightarrow> ('a, 's) engine \<Rightarrow> nat \<Rightarrow> nat option" where
  "select_promising c g i =
    (case node_children (nodes g ! i) of
       [] \<Rightarrow> Some i
     | first # others \<Rightarrow>
        (let pv = (case node_visits (nodes g ! i) of None \<Rightarrow> 1 | Some v \<Rightarrow> v) in
         if pv \<le> 1 then Some first
         else case best_child c pv g None (first # others) of
           None \<Rightarrow> Some i
         | Some b \<Rightarrow> select_promising c g b))"

text \<open>
  A rollout: the states it passes are not nodes of the tree; \<open>score\<close> and \<open>acc\<close> are those of the walk so far,
  and an exception ends it.
\<close>

fun rollout :: "('a, 's) tot_env \<Rightarrow> string list \<Rightarrow> nat \<Rightarrow> nat \<Rightarrow> 'a \<Rightarrow> real \<Rightarrow> nat \<Rightarrow> real \<times> nat" where
  "rollout env path 0 depth st acc n = (acc / real (depth + 1), n)"
| "rollout env path (Suc k) depth st acc n =
    (if check env st \<noteq> None then (1, n)
     else case generate env n st 1 path of
       Candidates ((new_state, new_thought) # others) \<Rightarrow>
        (case evaluate env (n + 1) new_state new_thought of
           Inl _ \<Rightarrow> (acc / real (depth + 1), n + 2)
         | Inr (score, ev) \<Rightarrow>
            (let acc' = acc + score * (9 / 10) ^ depth in
             if ev = DEAD_END then (acc' / real (depth + 1), n + 2)
             else rollout env [new_thought] k (depth + 1) new_state acc' (n + 2)))
     | _ \<Rightarrow> (acc / real (depth + 1), n + 1))"


definition back_up :: "real \<Rightarrow> 'a thought_node \<Rightarrow> 'a thought_node" where
  "back_up result n =
    (let v = (case node_visits n of None \<Rightarrow> 0 | Some v \<Rightarrow> v) + 1;
         t = (case node_total n of None \<Rightarrow> 0 | Some t \<Rightarrow> t) + result
     in n\<lparr>node_visits := Some v, node_total := Some t, node_avg := Some (t / real v)\<rparr>)"

definition backpropagate :: "nat \<Rightarrow> real \<Rightarrow> ('a, 's) engine \<Rightarrow> ('a, 's) engine" where
  "backpropagate i result g = fold (\<lambda>k. set_node k (back_up result)) (rev (path_to_root g i)) g"

definition simulate :: "('a, 's) tot_env \<Rightarrow> tot_config \<Rightarrow> nat \<Rightarrow> ('a, 's) engine \<Rightarrow> ('a, 's) engine \<times> real" where
  "simulate env cfg i g =
    (case rollout env (path_thoughts g i) (mcts_max_rollout_depth cfg) 0 (node_state (nodes g ! i)) (score_of g i) (calls g) of
       (r, n) \<Rightarrow> (g\<lparr>calls := n\<rparr>, r))"

fun mcts_children :: "('a, 's) tot_env \<Rightarrow> tot_config \<Rightarrow> nat list \<Rightarrow> ('a, 's) engine \<Rightarrow> ('a, 's) engine \<times> 's option" where
  "mcts_children env cfg [] g = (g, None)"
| "mcts_children env cfg (c # cs) g =
    (if is_visited env c g then mcts_children env cfg cs g
     else (case simulate env cfg c (mark_visited env c g) of
        (g1, r) \<Rightarrow> (case check_solution env c (backpropagate c r g1) of
           (g2, Some s) \<Rightarrow> (g2, Some s)
         | (g2, None) \<Rightarrow> mcts_children env cfg cs g2)))"

text \<open>The first child with the most visits.\<close>

fun most_visited :: "('a, 's) engine \<Rightarrow> nat \<Rightarrow> nat list \<Rightarrow> nat" where
  "most_visited g best [] = best"
| "most_visited g best (i # is) = most_visited g (if child_visits g i > child_visits g best then i else best) is"

datatype ('a, 's) mcts = Mcts nat "('a, 's) engine"

fun mcts_step :: "('a, 's) tot_env \<Rightarrow> tot_config \<Rightarrow> ('a, 's) mcts \<Rightarrow> ('a, 's) mcts + ('a, 's) engine \<times> 's outcome" where
  "mcts_step env cfg (Mcts 0 g) =
    (case node_children (nodes g ! 0) of
       [] \<Rightarrow> Inr (g, Exhausted)
     | c # cs \<Rightarrow> (case check env (node_state (nodes g ! most_visited g c cs)) of
         None \<Rightarrow> Inr (g, Exhausted)
       | Some s \<Rightarrow> Inr (g, Found s)))"
| "mcts_step env cfg (Mcts (Suc k) g) =
    (case select_promising (mcts_exploration_constant cfg) g 0 of
       None \<Rightarrow> Inl (Mcts (Suc k) g)
     | Some i \<Rightarrow>
        (case check_solution env i g of
           (g1, Some s) \<Rightarrow> Inr (g1, Found s)
         | (g1, None) \<Rightarrow>
            if node_depth (nodes g1 ! i) \<ge> max_depth cfg then Inl (Mcts k g1)
            else (case expand_node env cfg i g1 of
               (g2, Inl e) \<Rightarrow> Inr (g2, Search_Raised e)
             | (g2, Inr cs) \<Rightarrow>
                (case mcts_children env cfg cs g2 of
                   (g3, Some s) \<Rightarrow> Inr (g3, Found s)
                 | (g3, None) \<Rightarrow> Inl (Mcts k g3)))))"

section \<open>The engine\<close>

datatype ('a, 's) search =
    In_Bfs "('a, 's) bfs" | In_Dfs "('a, 's) dfs" | In_Best "('a, 's) best_first" | In_Beam "('a, 's) beam" | In_Mcts "('a, 's) mcts"

definition start_search :: "('a, 's) tot_env \<Rightarrow> tot_config \<Rightarrow> ('a, 's) engine \<Rightarrow> ('a, 's) search" where
  "start_search env cfg g =
    (case search_strategy cfg of
       BFS \<Rightarrow> In_Bfs (Bfs [0] g)
     | DFS \<Rightarrow> In_Dfs (Dfs [(0, 0)] 0 g)
     | BEST_FIRST \<Rightarrow> In_Best (Best [entry_of env g 0] [] g)
     | BEAM \<Rightarrow> In_Beam (Beam [0] [] 1 g)
     | MCTS \<Rightarrow> In_Mcts (Mcts (mcts_iterations cfg)
         (set_node 0 (\<lambda>n. n\<lparr>node_visits := Some 1, node_total := Some (node_score n)\<rparr>) g)))"

definition going_on :: "('t \<Rightarrow> 'u) \<Rightarrow> 't + 'v \<Rightarrow> 'u + 'v" where
  "going_on f r = (case r of Inl t \<Rightarrow> Inl (f t) | Inr v \<Rightarrow> Inr v)"

fun search_step :: "('a, 's) tot_env \<Rightarrow> tot_config \<Rightarrow> ('a, 's) search \<Rightarrow> ('a, 's) search + ('a, 's) engine \<times> 's outcome" where
  "search_step env cfg (In_Bfs st) = going_on In_Bfs (bfs_step env cfg st)"
| "search_step env cfg (In_Dfs st) = going_on In_Dfs (dfs_step env cfg st)"
| "search_step env cfg (In_Best st) = going_on In_Best (best_first_step env cfg st)"
| "search_step env cfg (In_Beam st) = going_on In_Beam (beam_step env cfg st)"
| "search_step env cfg (In_Mcts st) = going_on In_Mcts (mcts_step env cfg st)"

fun engine_of :: "('a, 's) search \<Rightarrow> ('a, 's) engine" where
  "engine_of (In_Bfs (Bfs q g)) = g"
| "engine_of (In_Dfs (Dfs st n g)) = g"
| "engine_of (In_Best (Best h ids g)) = g"
| "engine_of (In_Beam (Beam l nl k g)) = g"
| "engine_of (In_Mcts (Mcts k g)) = g"

text \<open>At most \<open>limit\<close> passes; \<open>Inl\<close> when the search has not ended by then.\<close>

definition run_search :: "('a, 's) tot_env \<Rightarrow> tot_config \<Rightarrow> nat \<Rightarrow> ('a, 's) search \<Rightarrow> ('a, 's) search + ('a, 's) engine \<times> 's outcome" where
  "run_search env cfg = run_loop (search_step env cfg)"

definition new_engine :: "'a \<Rightarrow> string \<Rightarrow> nat \<Rightarrow> ('a, 's) engine" where
  "new_engine st thought n = \<lparr>nodes = [new_node st thought 0 1 None UNCERTAIN], visited = [], solutions = [], calls = n\<rparr>"

text \<open>\<open>Inl\<close> is the exception that \<open>solve\<close> raises; on timeout it returns the first solution seen.\<close>

definition solve :: "('a, 's) tot_env \<Rightarrow> tot_config \<Rightarrow> nat \<Rightarrow> 'a \<Rightarrow> string \<Rightarrow> string + 's option" where
  "solve env cfg limit st thought =
    (case run_search env cfg limit (start_search env cfg (new_engine st thought 0)) of
       Inl s \<Rightarrow> Inr (case solutions (engine_of s) of [] \<Rightarrow> None | x # xs \<Rightarrow> Some x)
     | Inr (g, Found s) \<Rightarrow> Inr (Some s)
     | Inr (g, Exhausted) \<Rightarrow> Inr None
     | Inr (g, Search_Raised e) \<Rightarrow> Inl e)"

end
