(* ===== verification/Search_Trees.thy ===== *)
theory Search_Trees
  imports Searches
begin

text \<open>
  The invariant of the tree of thoughts, and the lemmas on what an expansion, a pruning and a simulation do
  to the tree: all the search strategies rest on them.
\<close>

section \<open>The tree and its skeleton\<close>

text \<open>\<open>reach env s0 d s\<close>: d answers of the generator lead from s0 to s.\<close>

inductive reach :: "('a, 's) tot_env \<Rightarrow> 'a \<Rightarrow> nat \<Rightarrow> 'a \<Rightarrow> bool" for env s0 where
  reach_start: "reach env s0 0 s0"
| reach_step: "reach env s0 d s \<Longrightarrow> generate env n s k path = Candidates cands \<Longrightarrow> (t, th) \<in> set cands \<Longrightarrow> reach env s0 (Suc d) t"

definition skel :: "'a thought_node \<Rightarrow> 'a \<times> nat \<times> nat option \<times> nat list" where
  "skel n = (node_state n, node_depth n, node_parent n, node_children n)"

definition node_ok :: "('a, 's) tot_env \<Rightarrow> tot_config \<Rightarrow> 'a \<Rightarrow> 'a thought_node list \<Rightarrow> nat \<Rightarrow> bool" where
  "node_ok env cfg s0 ns i \<longleftrightarrow> reach env s0 (node_depth (ns ! i)) (node_state (ns ! i)) \<and> node_depth (ns ! i) \<le> max_depth cfg
    \<and> (case node_parent (ns ! i) of None \<Rightarrow> i = 0 | Some p \<Rightarrow> p < i \<and> node_depth (ns ! i) = Suc (node_depth (ns ! p)))
    \<and> (\<forall>c \<in> set (node_children (ns ! i)). i < c \<and> c < length ns \<and> node_parent (ns ! c) = Some i)"

definition solution_ok :: "('a, 's) tot_env \<Rightarrow> tot_config \<Rightarrow> 'a \<Rightarrow> 's \<Rightarrow> bool" where
  "solution_ok env cfg s0 s \<longleftrightarrow> (\<exists>d t. d \<le> max_depth cfg \<and> reach env s0 d t \<and> check env t = Some s)"

definition tree_ok :: "('a, 's) tot_env \<Rightarrow> tot_config \<Rightarrow> 'a \<Rightarrow> ('a, 's) engine \<Rightarrow> bool" where
  "tree_ok env cfg s0 g \<longleftrightarrow> nodes g \<noteq> [] \<and> (\<forall>i < length (nodes g). node_ok env cfg s0 (nodes g) i) \<and> (\<forall>s \<in> set (solutions g). solution_ok env cfg s0 s)"

text \<open>\<open>same_tree\<close>: the trees differ only in scores, evaluations and counters.\<close>

definition same_tree :: "('a, 's) engine \<Rightarrow> ('a, 's) engine \<Rightarrow> bool" where
  "same_tree g h \<longleftrightarrow> map skel (nodes h) = map skel (nodes g)"

lemma same_treeD:
  assumes "same_tree g h"
  shows "length (nodes h) = length (nodes g)"
    and "i < length (nodes g) \<Longrightarrow> node_state (nodes h ! i) = node_state (nodes g ! i) \<and> node_depth (nodes h ! i) = node_depth (nodes g ! i)
      \<and> node_parent (nodes h ! i) = node_parent (nodes g ! i) \<and> node_children (nodes h ! i) = node_children (nodes g ! i)"
proof -
  show l: "length (nodes h) = length (nodes g)" using assms unfolding same_tree_def by (metis length_map)
  assume "i < length (nodes g)"
  then have "skel (nodes h ! i) = skel (nodes g ! i)" using assms l unfolding same_tree_def by (metis nth_map)
  then show "node_state (nodes h ! i) = node_state (nodes g ! i) \<and> node_depth (nodes h ! i) = node_depth (nodes g ! i)
      \<and> node_parent (nodes h ! i) = node_parent (nodes g ! i) \<and> node_children (nodes h ! i) = node_children (nodes g ! i)"
    by (simp add: skel_def)
qed

lemma same_tree_refl [simp]: "same_tree g g" by (simp add: same_tree_def)

lemma same_tree_trans: "same_tree g h \<Longrightarrow> same_tree h k \<Longrightarrow> same_tree g k" by (simp add: same_tree_def)

lemma same_tree_nodes: "nodes h = nodes g \<Longrightarrow> same_tree g h" by (simp add: same_tree_def)

lemma same_tree_set_node: "(\<And>n. skel (f n) = skel n) \<Longrightarrow> same_tree g (set_node i f g)"
  unfolding same_tree_def set_node_def
  by (cases "i < length (nodes g)") (auto simp: map_update list_update_same_conv nth_map intro!: nth_equalityI)

lemma set_node_rest [simp]:
  "length (nodes (set_node i f g)) = length (nodes g)" "visited (set_node i f g) = visited g" "solutions (set_node i f g) = solutions g"
  "calls (set_node i f g) = calls g"
  by (simp_all add: set_node_def)

lemma same_tree_fold: "(\<And>n. skel (f n) = skel n) \<Longrightarrow> same_tree g (fold (\<lambda>i. set_node i f) is g)"
proof (induction "is" arbitrary: g)
  case (Cons a as)
  then show ?case using same_tree_trans[OF same_tree_set_node[of f g a]] by simp
qed simp

lemma fold_set_node_rest: "visited (fold (\<lambda>i. set_node i f) is g) = visited g" "solutions (fold (\<lambda>i. set_node i f) is g) = solutions g"
  by (induction "is" arbitrary: g) auto

lemma kill_same: "same_tree g (kill is g)" "visited (kill is g) = visited g" "solutions (kill is g) = solutions g"
  unfolding kill_def by (rule same_tree_fold) (simp_all add: skel_def fold_set_node_rest)

lemma backpropagate_same: "same_tree g (backpropagate i r g)" "visited (backpropagate i r g) = visited g" "solutions (backpropagate i r g) = solutions g"
  unfolding backpropagate_def by (rule same_tree_fold) (simp_all add: skel_def back_up_def Let_def fold_set_node_rest)

lemma tree_ok_same:
  assumes "same_tree g h" "tree_ok env cfg s0 g" "\<forall>s \<in> set (solutions h). solution_ok env cfg s0 s"
  shows "tree_ok env cfg s0 h"
proof -
  note d = same_treeD[OF assms(1)]
  have "node_ok env cfg s0 (nodes h) i" if i: "i < length (nodes h)" for i
  proof -
    have o: "node_ok env cfg s0 (nodes g) i" using assms(2) i d(1) by (simp add: tree_ok_def)
    have p: "p < i \<Longrightarrow> node_depth (nodes h ! p) = node_depth (nodes g ! p)" for p using d(2)[of p] i d(1) by simp
    have c: "c < length (nodes g) \<Longrightarrow> node_parent (nodes h ! c) = node_parent (nodes g ! c)" for c using d(2)[of c] by simp
    show ?thesis using o d(2)[of i] i d(1) p c unfolding node_ok_def by (auto split: option.splits)
  qed
  moreover have "nodes h \<noteq> []" using assms(2) d(1) by (auto simp: tree_ok_def)
  ultimately show ?thesis using assms(3) by (simp add: tree_ok_def)
qed

lemma tree_ok_update: "tree_ok env cfg s0 g \<Longrightarrow> same_tree g h \<Longrightarrow> solutions h = solutions g \<Longrightarrow> tree_ok env cfg s0 h"
  by (rule tree_ok_same) (simp_all add: tree_ok_def)

lemma tree_node: "tree_ok env cfg s0 g \<Longrightarrow> i < length (nodes g) \<Longrightarrow>
    reach env s0 (node_depth (nodes g ! i)) (node_state (nodes g ! i)) \<and> node_depth (nodes g ! i) \<le> max_depth cfg"
  unfolding tree_ok_def node_ok_def by blast

lemma tree_child: "tree_ok env cfg s0 g \<Longrightarrow> i < length (nodes g) \<Longrightarrow> c \<in> set (node_children (nodes g ! i)) \<Longrightarrow>
    i < c \<and> c < length (nodes g) \<and> node_depth (nodes g ! c) = Suc (node_depth (nodes g ! i))"
proof -
  assume a: "tree_ok env cfg s0 g" "i < length (nodes g)" "c \<in> set (node_children (nodes g ! i))"
  have "node_ok env cfg s0 (nodes g) i" using a(1,2) by (simp add: tree_ok_def)
  then have c: "i < c" "c < length (nodes g)" "node_parent (nodes g ! c) = Some i" using a(3) unfolding node_ok_def by blast+
  moreover have "node_ok env cfg s0 (nodes g) c" using a(1) c(2) by (simp add: tree_ok_def)
  ultimately show ?thesis unfolding node_ok_def by simp
qed

section \<open>Expansion\<close>

text \<open>What an expansion of \<open>p\<close> does: it adds children of \<open>p\<close> at the end of the store, at most \<open>b\<close> of them.\<close>

definition grows :: "nat \<Rightarrow> nat \<Rightarrow> ('a, 's) engine \<Rightarrow> ('a, 's) engine \<Rightarrow> bool" where
  "grows b p g h \<longleftrightarrow> length (nodes g) \<le> length (nodes h) \<and> length (nodes h) \<le> length (nodes g) + b \<and> visited h = visited g
    \<and> (\<forall>i < length (nodes g). node_state (nodes h ! i) = node_state (nodes g ! i) \<and> node_depth (nodes h ! i) = node_depth (nodes g ! i)
        \<and> node_parent (nodes h ! i) = node_parent (nodes g ! i)
        \<and> node_children (nodes h ! i) = node_children (nodes g ! i) @ (if i = p then [length (nodes g)..<length (nodes h)] else []))
    \<and> (\<forall>i. length (nodes g) \<le> i \<longrightarrow> i < length (nodes h) \<longrightarrow> node_parent (nodes h ! i) = Some p \<and> node_children (nodes h ! i) = []
        \<and> node_depth (nodes h ! i) = Suc (node_depth (nodes g ! p)))"

lemma grows_refl: "nodes h = nodes g \<Longrightarrow> visited h = visited g \<Longrightarrow> grows 0 p g h"
  by (auto simp: grows_def)

lemma grows_trans:
  assumes "grows a p g h" "grows b p h k" "p < length (nodes g)"
  shows "grows (a + b) p g k"
proof -
  have l: "length (nodes g) \<le> length (nodes h)" "length (nodes h) \<le> length (nodes k)" using assms by (auto simp: grows_def)
  then have u: "[length (nodes g)..<length (nodes h)] @ [length (nodes h)..<length (nodes k)] = [length (nodes g)..<length (nodes k)]"
    by (metis le_add_diff_inverse upt_add_eq_append)
  note gh = assms(1)[unfolded grows_def] and hk = assms(2)[unfolded grows_def]
  have "node_state (nodes k ! i) = node_state (nodes g ! i) \<and> node_depth (nodes k ! i) = node_depth (nodes g ! i)
      \<and> node_parent (nodes k ! i) = node_parent (nodes g ! i)
      \<and> node_children (nodes k ! i) = node_children (nodes g ! i) @ (if i = p then [length (nodes g)..<length (nodes k)] else [])"
    if "i < length (nodes g)" for i
  proof -
    have "i < length (nodes h)" using that l(1) by simp
    then show ?thesis using gh hk that u by simp
  qed
  moreover have "node_parent (nodes k ! i) = Some p \<and> node_children (nodes k ! i) = [] \<and> node_depth (nodes k ! i) = Suc (node_depth (nodes g ! p))"
    if i: "length (nodes g) \<le> i" "i < length (nodes k)" for i
  proof (cases "i < length (nodes h)")
    case True
    moreover have "i \<noteq> p" using i(1) assms(3) by simp
    ultimately show ?thesis using gh hk i by simp
  next
    case False
    then have "node_depth (nodes k ! i) = Suc (node_depth (nodes h ! p))" "node_parent (nodes k ! i) = Some p \<and> node_children (nodes k ! i) = []"
      using hk i by simp_all
    moreover have "node_depth (nodes h ! p) = node_depth (nodes g ! p)" using gh assms(3) by simp
    ultimately show ?thesis by simp
  qed
  ultimately show ?thesis using gh hk l unfolding grows_def by simp
qed

lemma grows_mono: "grows a p g h \<Longrightarrow> a \<le> b \<Longrightarrow> grows b p g h"
  by (auto simp: grows_def)

lemma grows_same: "grows b p g h \<Longrightarrow> same_tree h k \<Longrightarrow> visited k = visited h \<Longrightarrow> grows b p g k"
  using same_treeD[of h k] by (auto simp: grows_def)

lemma tick_simps [simp]: "nodes (tick g) = nodes g" "visited (tick g) = visited g" "solutions (tick g) = solutions g"
  by (simp_all add: tick_def)

lemma add_child_grows:
  assumes "p < length (nodes g)" "node_children c = []"
  shows "grows 1 p g (add_child p c g)" "solutions (add_child p c g) = solutions g" "length (nodes (add_child p c g)) = Suc (length (nodes g))"
    "node_state (nodes (add_child p c g) ! length (nodes g)) = node_state c"
proof -
  let ?n = "length (nodes g)"
  have ns: "nodes (add_child p c g) = (nodes g)[p := (nodes g ! p)\<lparr>node_children := node_children (nodes g ! p) @ [?n]\<rparr>]
      @ [c\<lparr>node_parent := Some p, node_depth := node_depth (nodes g ! p) + 1\<rparr>]"
    by (simp add: add_child_def set_node_def Let_def)
  show "length (nodes (add_child p c g)) = Suc ?n" by (simp add: ns)
  show "solutions (add_child p c g) = solutions g" by (simp add: add_child_def Let_def)
  show "node_state (nodes (add_child p c g) ! ?n) = node_state c" by (simp add: ns nth_append)
  show "grows 1 p g (add_child p c g)" unfolding grows_def ns using assms
    by (auto simp: nth_append nth_list_update add_child_def Let_def le_Suc_eq)
qed

text \<open>A tree that grows by answers of the generator stays in order.\<close>

lemma tree_ok_grows:
  assumes "tree_ok env cfg s0 g" "grows b p g h" "p < length (nodes g)" "node_depth (nodes g ! p) < max_depth cfg"
    and "\<And>i. length (nodes g) \<le> i \<Longrightarrow> i < length (nodes h) \<Longrightarrow> reach env s0 (Suc (node_depth (nodes g ! p))) (node_state (nodes h ! i))"
    and "\<forall>s \<in> set (solutions h). solution_ok env cfg s0 s"
  shows "tree_ok env cfg s0 h"
proof -
  note gh = assms(2)[unfolded grows_def]
  have "node_ok env cfg s0 (nodes h) i" if i: "i < length (nodes h)" for i
  proof (cases "i < length (nodes g)")
    case True
    then have o: "node_ok env cfg s0 (nodes g) i" using assms(1) by (simp add: tree_ok_def)
    have par: "q < i \<Longrightarrow> node_depth (nodes h ! q) = node_depth (nodes g ! q)" for q using gh True by simp
    have "i < c \<and> c < length (nodes h) \<and> node_parent (nodes h ! c) = Some i" if "c \<in> set (node_children (nodes h ! i))" for c
    proof (cases "c < length (nodes g)")
      case c: True
      then have "c \<in> set (node_children (nodes g ! i))" using that gh True by (auto split: if_splits)
      then have "i < c" "node_parent (nodes g ! c) = Some i" using o by (auto simp: node_ok_def)
      then show ?thesis using c gh by simp
    next
      case c: False
      then have "i = p \<and> c < length (nodes h)" using that gh True o by (auto simp: node_ok_def split: if_splits)
      then show ?thesis using c True gh by simp
    qed
    then show ?thesis using o par gh True unfolding node_ok_def by (auto split: option.splits)
  next
    case False
    moreover have "node_depth (nodes h ! p) = node_depth (nodes g ! p)" using gh assms(3) by simp
    ultimately show ?thesis using i gh assms(3,4) assms(5)[of i] by (auto simp: node_ok_def)
  qed
  then show ?thesis using assms(1,6) gh by (auto simp: tree_ok_def)
qed

text \<open>The invariant of the loops over candidates.\<close>

definition expanded :: "('a, 's) tot_env \<Rightarrow> tot_config \<Rightarrow> 'a \<Rightarrow> nat \<Rightarrow> nat \<Rightarrow> ('a, 's) engine \<Rightarrow> ('a, 's) engine \<Rightarrow> bool" where
  "expanded env cfg s0 b p g h \<longleftrightarrow> grows b p g h \<and> tree_ok env cfg s0 h"

lemma create_child_expanded:
  assumes "tree_ok env cfg s0 g" "p < length (nodes g)" "node_depth (nodes g ! p) < max_depth cfg"
    and "reach env s0 (Suc (node_depth (nodes g ! p))) (fst cand)" "create_child_node env cfg p cand g = (h, r)"
  shows "expanded env cfg s0 1 p g h \<and> (case r of None \<Rightarrow> length (nodes h) = length (nodes g)
    | Some c \<Rightarrow> c = length (nodes g) \<and> length (nodes h) = Suc (length (nodes g)))"
proof (cases "evaluate env (calls g) (fst cand) (snd cand)")
  case (Inl e)
  then have h: "h = tick g" "r = None" using assms(5) by (simp_all add: create_child_node_def)
  have "same_tree g h" by (simp add: h same_tree_nodes)
  then have "tree_ok env cfg s0 h" using assms(1) h by (auto intro: tree_ok_same simp: tree_ok_def)
  then show ?thesis using h grows_mono[OF grows_refl[of h g p], of 1] by (simp add: expanded_def)
next
  case (Inr sev)
  obtain score ev where sev: "sev = (score, ev)" by fastforce
  let ?c = "new_node (fst cand) (snd cand) (node_depth (nodes g ! p) + 1) score None ev"
  let ?g1 = "add_child p ?c (tick g)"
  have c: "node_children ?c = []" "node_state ?c = fst cand" by (simp_all add: new_node_def)
  have g1: "grows 1 p g ?g1" "solutions ?g1 = solutions g" "length (nodes ?g1) = Suc (length (nodes g))"
    "node_state (nodes ?g1 ! length (nodes g)) = fst cand"
    using add_child_grows[of p "tick g" ?c] assms(2) c by (simp_all add: grows_def)
  have new: "reach env s0 (Suc (node_depth (nodes g ! p))) (node_state (nodes ?g1 ! i))"
    if "length (nodes g) \<le> i" "i < length (nodes ?g1)" for i
    using that g1(3,4) assms(4) by (metis le_antisym less_Suc_eq_le)
  have t1: "tree_ok env cfg s0 ?g1"
    by (rule tree_ok_grows[OF assms(1) g1(1) assms(2,3) new]) (use assms(1) g1(2) in \<open>auto simp: tree_ok_def\<close>)
  show ?thesis
  proof (cases "if score \<ge> solution_threshold cfg then check env (fst cand) else None")
    case None
    then have "h = ?g1" "r = Some (length (nodes g))" using assms(5) Inr sev by (auto simp: create_child_node_def Let_def)
    then show ?thesis using g1 t1 by (simp add: expanded_def)
  next
    case (Some s)
    let ?g2 = "?g1\<lparr>solutions := solutions ?g1 @ [s]\<rparr>"
    have h: "h = set_node (length (nodes g)) (\<lambda>n. n\<lparr>node_evaluation := SOLUTION\<rparr>) ?g2" "r = Some (length (nodes g))"
      using assms(5) Inr sev Some by (auto simp: create_child_node_def Let_def)
    have same: "same_tree ?g1 h" unfolding h(1)
      by (rule same_tree_trans[OF same_tree_nodes same_tree_set_node]) (simp_all add: skel_def)
    have "solution_ok env cfg s0 s" using Some assms(3,4) by (auto simp: solution_ok_def split: if_splits intro!: exI[of _ "Suc (node_depth (nodes g ! p))"])
    then have "tree_ok env cfg s0 h" using t1 by (intro tree_ok_same[OF same t1]) (auto simp: h(1) tree_ok_def)
    moreover have "grows 1 p g h" by (rule grows_same[OF g1(1) same]) (simp add: h(1))
    ultimately show ?thesis using h same_treeD(1)[OF same] g1(3) by (simp add: expanded_def)
  qed
qed

lemma expanded_state: "grows b p g h \<Longrightarrow> i < length (nodes g) \<Longrightarrow> node_depth (nodes h ! i) = node_depth (nodes g ! i)"
  by (simp add: grows_def)

lemma expanded_trans:
  "expanded env cfg s0 a p g h \<Longrightarrow> expanded env cfg s0 b p h k \<Longrightarrow> p < length (nodes g) \<Longrightarrow> expanded env cfg s0 (a + b) p g k"
  unfolding expanded_def using grows_trans by blast

lemma create_in_order_expanded:
  assumes "tree_ok env cfg s0 g" "p < length (nodes g)" "node_depth (nodes g ! p) < max_depth cfg"
    and "\<forall>k \<in> set ks. reach env s0 (Suc (node_depth (nodes g ! p))) (fst (cands ! k))" "create_in_order env cfg p cands ks g = (h, rs)"
  shows "expanded env cfg s0 (length ks) p g h \<and> distinct (map snd rs) \<and> set (map snd rs) = {length (nodes g)..<length (nodes h)} \<and> length rs \<le> length ks"
  using assms
proof (induction ks arbitrary: g h rs)
  case Nil
  then show ?case using grows_refl[of g g p] by (auto simp: expanded_def)
next
  case (Cons k ks)
  obtain g1 r where c: "create_child_node env cfg p (cands ! k) g = (g1, r)" by fastforce
  obtain rs1 where d: "create_in_order env cfg p cands ks g1 = (h, rs1)" "rs = (case r of None \<Rightarrow> rs1 | Some c \<Rightarrow> (k, c) # rs1)"
    using Cons.prems(5) c by (auto split: prod.splits)
  have one: "expanded env cfg s0 1 p g g1" "case r of None \<Rightarrow> length (nodes g1) = length (nodes g)
    | Some c \<Rightarrow> c = length (nodes g) \<and> length (nodes g1) = Suc (length (nodes g))"
    using create_child_expanded[OF Cons.prems(1,2,3) _ c] Cons.prems(4) by auto
  have p1: "p < length (nodes g1)" "node_depth (nodes g1 ! p) = node_depth (nodes g ! p)" "tree_ok env cfg s0 g1"
    using one(1) Cons.prems(2) by (auto simp: expanded_def grows_def)
  have rest: "expanded env cfg s0 (length ks) p g1 h \<and> distinct (map snd rs1) \<and> set (map snd rs1) = {length (nodes g1)..<length (nodes h)} \<and> length rs1 \<le> length ks"
    using Cons.IH[OF p1(3,1) _ _ d(1)] p1(2) Cons.prems(3,4) by simp
  then have l: "length (nodes g1) \<le> length (nodes h)" by (simp add: expanded_def grows_def)
  have "expanded env cfg s0 (length (k # ks)) p g h" using expanded_trans[OF one(1) _ Cons.prems(2), of "length ks" h] rest by simp
  then show ?case using rest one(2) d(2) l by (cases r) (auto simp: atLeastLessThan_def)
qed

lemma create_batch_expanded:
  assumes "tree_ok env cfg s0 g" "p < length (nodes g)" "node_depth (nodes g ! p) < max_depth cfg"
    and "\<forall>k \<in> set ks. reach env s0 (Suc (node_depth (nodes g ! p))) (fst (cands ! k))" "create_batch env cfg p cands ks g = (h, cs)"
  shows "expanded env cfg s0 (length ks) p g h \<and> distinct cs \<and> set cs = {length (nodes g)..<length (nodes h)} \<and> length cs \<le> length ks"
proof -
  obtain rs where r: "create_in_order env cfg p cands ks g = (h, rs)" "cs = map snd (sort_key fst rs)"
    using assms(5) by (auto simp: create_batch_def split: prod.splits)
  have m: "mset cs = mset (map snd rs)" using r(2) by simp
  have "distinct cs = distinct (map snd rs)" by (rule mset_eq_imp_distinct_iff[OF m])
  moreover have "set cs = set (map snd rs)" by (rule mset_eq_setD[OF m])
  moreover have "length cs = length rs" using mset_eq_length[OF m] by simp
  ultimately show ?thesis using create_in_order_expanded[OF assms(1-4) r(1)] by simp
qed

lemma batches_concat: "n \<noteq> 0 \<Longrightarrow> concat (batches n xs) = xs"
  by (induction n xs rule: batches.induct) (subst batches.simps, auto)

lemma batches_cases: "concat (batches n xs) = xs \<or> batches n xs = []"
proof (cases "n = 0")
  case True
  then show ?thesis by (subst (2) batches.simps) simp
qed (simp add: batches_concat)

lemma expand_batches_expanded:
  assumes "tree_ok env cfg s0 g" "p < length (nodes g)" "node_depth (nodes g ! p) < max_depth cfg"
    and "\<forall>b \<in> set bs. \<forall>c \<in> set b. reach env s0 (Suc (node_depth (nodes g ! p))) (fst c)" "expand_batches env cfg p bs g = (h, cs)"
  shows "expanded env cfg s0 (length (concat bs)) p g h \<and> distinct cs \<and> set cs = {length (nodes g)..<length (nodes h)} \<and> length cs \<le> length (concat bs)"
  using assms
proof (induction bs arbitrary: g h cs)
  case Nil
  then show ?case using grows_refl[of g g p] by (auto simp: expanded_def)
next
  case (Cons b bs)
  let ?order = "sort_key (rank env (calls g)) [0..<length b]"
  obtain g1 cs1 where c: "create_batch env cfg p b ?order g = (g1, cs1)" by fastforce
  obtain cs2 where d: "expand_batches env cfg p bs g1 = (h, cs2)" "cs = cs1 @ cs2"
    using Cons.prems(5) c by (auto split: prod.splits)
  have one: "expanded env cfg s0 (length b) p g g1 \<and> distinct cs1 \<and> set cs1 = {length (nodes g)..<length (nodes g1)} \<and> length cs1 \<le> length b"
    using create_batch_expanded[OF Cons.prems(1,2,3) _ c] Cons.prems(4) by simp
  have p1: "p < length (nodes g1)" "node_depth (nodes g1 ! p) = node_depth (nodes g ! p)" "tree_ok env cfg s0 g1" "length (nodes g) \<le> length (nodes g1)"
    using one Cons.prems(2) by (auto simp: expanded_def grows_def)
  have rest: "expanded env cfg s0 (length (concat bs)) p g1 h \<and> distinct cs2 \<and> set cs2 = {length (nodes g1)..<length (nodes h)} \<and> length cs2 \<le> length (concat bs)"
    using Cons.IH[OF p1(3,1) _ _ d(1)] p1(2) Cons.prems(3,4) by simp
  then have "length (nodes g1) \<le> length (nodes h)" by (simp add: expanded_def grows_def)
  moreover have "expanded env cfg s0 (length b + length (concat bs)) p g h"
    by (rule expanded_trans[OF conjunct1[OF one] conjunct1[OF rest] Cons.prems(2)])
  ultimately show ?case using one rest d(2) p1(4) by auto
qed

text \<open>The generator gives at most \<open>b\<close> candidates.\<close>

definition branching :: "('a, 's) tot_env \<Rightarrow> nat \<Rightarrow> bool" where
  "branching env b \<longleftrightarrow> (\<forall>n s k path cands. generate env n s k path = Candidates cands \<longrightarrow> length cands \<le> b)"

lemma expand_node_expanded:
  assumes "tree_ok env cfg s0 g" "p < length (nodes g)" "node_depth (nodes g ! p) < max_depth cfg" "expand_node env cfg p g = (h, r)"
  shows "\<exists>b. expanded env cfg s0 b p g h \<and> (branching env n \<longrightarrow> b \<le> n) \<and> (\<forall>cs. r = Inr cs \<longrightarrow> distinct cs \<and> set cs = {length (nodes g)..<length (nodes h)} \<and> length cs \<le> b)"
proof -
  have tk: "tree_ok env cfg s0 (tick g)"
    by (rule tree_ok_same[OF same_tree_nodes assms(1)]) (use assms(1) in \<open>auto simp: tree_ok_def\<close>)
  have gt: "expanded env cfg s0 b p (tick g) h \<Longrightarrow> expanded env cfg s0 b p g h" for b by (simp add: expanded_def grows_def)
  show ?thesis
  proof (cases "generate env (calls g) (node_state (nodes g ! p)) (max_thoughts_per_step cfg) (path_thoughts g p)")
    case (Candidates cands)
    have re: "\<forall>c \<in> set cands. reach env s0 (Suc (node_depth (nodes g ! p))) (fst c)"
    proof
      fix c assume "c \<in> set cands"
      then have c: "(fst c, snd c) \<in> set cands" by simp
      have "reach env s0 (node_depth (nodes g ! p)) (node_state (nodes g ! p))" using tree_node[OF assms(1,2)] ..
      from reach_step[OF this Candidates c] show "reach env s0 (Suc (node_depth (nodes g ! p))) (fst c)" .
    qed
    have b: "branching env n \<Longrightarrow> length cands \<le> n" using Candidates by (auto simp: branching_def)
    obtain cs where r: "r = Inr cs" using assms(4) Candidates by (auto simp: expand_node_def split: prod.splits)
    show ?thesis
    proof (cases "enable_parallel_expansion cfg \<and> length cands > 1")
      case True
      let ?bs = "batches (min (length cands) (max_parallel_expansions cfg)) cands"
      have e: "expand_batches env cfg p ?bs (tick g) = (h, cs)"
        using assms(4) Candidates r True by (auto simp: expand_node_def expand_parallel_def split: prod.splits)
      have sub: "concat ?bs = cands \<or> ?bs = []"
        by (rule batches_cases)
      then have "\<forall>b \<in> set ?bs. \<forall>c \<in> set b. reach env s0 (Suc (node_depth (nodes g ! p))) (fst c)" 
      proof (cases "?bs = []")
        case False
        then have "set cands = (\<Union>b \<in> set ?bs. set b)" using sub arg_cong[of _ _ set] by (metis set_concat)
        then show ?thesis using re by simp
      qed simp
      then have "expanded env cfg s0 (length (concat ?bs)) p (tick g) h \<and> distinct cs \<and> set cs = {length (nodes (tick g))..<length (nodes h)} \<and> length cs \<le> length (concat ?bs)"
        using expand_batches_expanded[OF tk _ _ _ e] assms(2,3) by simp
      moreover have "length (concat ?bs) \<le> length cands" using sub by auto
      ultimately show ?thesis using gt b r by (intro exI[of _ "length (concat ?bs)"]) auto
    next
      case False
      have e: "create_batch env cfg p cands [0..<length cands] (tick g) = (h, cs)"
        using assms(4) Candidates r False by (auto simp: expand_node_def expand_sequential_def split: prod.splits)
      have "expanded env cfg s0 (length cands) p (tick g) h \<and> distinct cs \<and> set cs = {length (nodes (tick g))..<length (nodes h)} \<and> length cs \<le> length cands"
        using create_batch_expanded[OF tk _ _ _ e] assms(2,3) re by simp
      then show ?thesis using gt b r by (intro exI[of _ "length cands"]) auto
    qed
  qed (use assms tk in \<open>auto simp: expand_node_def expanded_def grows_def intro!: exI[of _ 0]\<close>)
qed

section \<open>Pruning\<close>

lemma by_score_set: "set (by_score g is) = set is" "length (by_score g is) = length is" "distinct (by_score g is) = distinct is" "mset (by_score g is) = mset is"
  by (simp_all add: by_score_def)

lemma threshold_kept: "apply_fixed_threshold t is g = (h, kept) \<Longrightarrow> same_tree g h \<and> visited h = visited g \<and> solutions h = solutions g
   \<and> set kept \<subseteq> set is \<and> length kept \<le> length is \<and> (distinct is \<longrightarrow> distinct kept)"
  by (auto simp: apply_fixed_threshold_def kill_same)

lemma top_k_kept: "apply_top_k k is g = (h, kept) \<Longrightarrow> same_tree g h \<and> visited h = visited g \<and> solutions h = solutions g
   \<and> set kept \<subseteq> set is \<and> length kept \<le> length is \<and> (distinct is \<longrightarrow> distinct kept)"
  using by_score_set[of g "is"] by (auto simp: apply_top_k_def Let_def kill_same distinct_take dest: in_set_takeD split: if_splits)

lemma prune_kept:
  assumes "prune cfg is g = Some (h, kept)"
  shows "same_tree g h \<and> visited h = visited g \<and> solutions h = solutions g \<and> set kept \<subseteq> set is \<and> length kept \<le> length is \<and> (distinct is \<longrightarrow> distinct kept)"
proof -
  let ?live = "filter (alive g) is"
  have "is = [] \<and> h = g \<and> kept = [] \<or> (h, kept) = (g, ?live) \<or> (\<exists>t. apply_fixed_threshold t ?live g = (h, kept)) \<or> (\<exists>k. apply_top_k k ?live g = (h, kept))"
    using assms by (auto simp: prune_def apply_percentile_def Let_def split: if_splits pruning_method.splits)
  moreover have "set ?live \<subseteq> set is" "length ?live \<le> length is" "distinct is \<longrightarrow> distinct ?live" by auto
  ultimately show ?thesis using threshold_kept[of _ ?live g h kept] top_k_kept[of _ ?live g h kept]
    by (elim disjE exE) (simp, simp, meson order_trans, meson order_trans)
qed

definition raise_tree :: "('a, 's) tot_env \<Rightarrow> tot_config \<Rightarrow> 'a \<Rightarrow> nat \<Rightarrow> nat \<Rightarrow> ('a, 's) engine \<Rightarrow> ('a, 's) engine \<Rightarrow> nat list \<Rightarrow> bool" where
  "raise_tree env cfg s0 b p g h cs \<longleftrightarrow> expanded env cfg s0 b p g h \<and> set cs \<subseteq> {length (nodes g)..<length (nodes h)} \<and> length cs \<le> b"

lemma expand_and_prune_expanded:
  assumes "tree_ok env cfg s0 g" "p < length (nodes g)" "node_depth (nodes g ! p) < max_depth cfg" "expand_and_prune env cfg p g = (h, r)"
  shows "\<exists>b. expanded env cfg s0 b p g h \<and> (branching env n \<longrightarrow> b \<le> n) \<and> (\<forall>cs. r = Inr cs \<longrightarrow> raise_tree env cfg s0 b p g h cs)"
proof -
  obtain g1 r1 where e: "expand_node env cfg p g = (g1, r1)" by fastforce
  obtain b where b: "expanded env cfg s0 b p g g1" "branching env n \<longrightarrow> b \<le> n"
    "\<forall>cs. r1 = Inr cs \<longrightarrow> distinct cs \<and> set cs = {length (nodes g)..<length (nodes g1)} \<and> length cs \<le> b"
    using expand_node_expanded[OF assms(1-3) e] by blast
  show ?thesis
  proof (cases r1)
    case (Inl x)
    then have "h = g1" "r = Inl x" using assms(4) e by (simp_all add: expand_and_prune_def)
    then show ?thesis using b by blast
  next
    case (Inr cs)
    show ?thesis
    proof (cases "prune cfg cs g1")
      case None
      then have "h = g1" "r = Inl ''IndexError''" using assms(4) e Inr by (simp_all add: expand_and_prune_def)
      then show ?thesis using b by blast
    next
      case (Some hk)
      obtain kept where k: "hk = (h, kept)" "r = Inr kept" using Some assms(4) e Inr by (cases hk) (simp add: expand_and_prune_def)
      note pk = prune_kept[OF Some[unfolded k(1)]]
      have "tree_ok env cfg s0 h" using b(1) pk by (intro tree_ok_same[of g1 h]) (auto simp: expanded_def tree_ok_def)
      moreover have "grows b p g h" using grows_same[of b p g g1 h] b(1) pk by (simp add: expanded_def)
      moreover have "length (nodes h) = length (nodes g1)" using same_treeD(1)[of g1 h] pk by simp
      ultimately have "expanded env cfg s0 b p g h" "raise_tree env cfg s0 b p g h kept"
        using pk b(3) Inr by (auto simp: expanded_def raise_tree_def)
      then show ?thesis using b(2) k(2) by blast
    qed
  qed
qed

section \<open>The searches keep the tree in order\<close>

lemma check_solution_ok:
  assumes "tree_ok env cfg s0 g" "i < length (nodes g)" "check_solution env i g = (h, r)"
  shows "nodes h = nodes g \<and> visited h = visited g \<and> tree_ok env cfg s0 h \<and> (r = None \<longrightarrow> h = g)
    \<and> (\<forall>s. r = Some s \<longrightarrow> solution_ok env cfg s0 s \<and> check env (node_state (nodes g ! i)) = Some s)"
proof (cases "check env (node_state (nodes g ! i))")
  case (Some s)
  have ok: "solution_ok env cfg s0 s" using tree_node[OF assms(1,2)] Some by (auto simp: solution_ok_def)
  have h: "h = g\<lparr>solutions := solutions g @ [s]\<rparr>" "r = Some s" using assms(3) Some by (simp_all add: check_solution_def)
  have "tree_ok env cfg s0 h" using ok assms(1) by (intro tree_ok_same[OF same_tree_nodes assms(1)]) (auto simp: h tree_ok_def)
  then show ?thesis using h ok Some by simp
qed (use assms in \<open>auto simp: check_solution_def\<close>)

lemma mark_visited_simps [simp]: "nodes (mark_visited env i g) = nodes g" "solutions (mark_visited env i g) = solutions g"
  "visited (mark_visited env i g) = List.insert (state_key env (node_state (nodes g ! i))) (visited g)"
  by (simp_all add: mark_visited_def)

lemma mark_ok: "tree_ok env cfg s0 g \<Longrightarrow> tree_ok env cfg s0 (mark_visited env i g)"
  by (rule tree_ok_same[OF same_tree_nodes]) (auto simp: tree_ok_def)

lemma simulate_simps: "simulate env cfg i g = (h, r) \<Longrightarrow> nodes h = nodes g \<and> visited h = visited g \<and> solutions h = solutions g"
  by (auto simp: simulate_def split: prod.splits)

lemma best_child_in: "best_child c pv g best is = Some b \<Longrightarrow> b \<in> set is \<or> best = Some b"
  by (induction "is" arbitrary: best) (auto split: if_splits option.splits)

lemma select_returns:
  assumes "tree_ok env cfg s0 g" "i < length (nodes g)"
  shows "\<exists>j. select_promising c g i = Some j \<and> j < length (nodes g)"
  using assms(2)
proof (induction "length (nodes g) - i" arbitrary: i rule: less_induct)
  case less
  show ?case
  proof (cases "node_children (nodes g ! i)")
    case Nil
    then show ?thesis using less.prems by (subst select_promising.simps) simp
  next
    case (Cons f fs)
    have ch: "x \<in> set (f # fs) \<Longrightarrow> i < x \<and> x < length (nodes g)" for x using tree_child[OF assms(1) less.prems] Cons by simp
    let ?pv = "case node_visits (nodes g ! i) of None \<Rightarrow> 1 | Some v \<Rightarrow> v"
    consider "?pv \<le> 1" | "\<not> ?pv \<le> 1" "best_child c ?pv g None (f # fs) = None"
      | b where "\<not> ?pv \<le> 1" "best_child c ?pv g None (f # fs) = Some b" by fastforce
    then show ?thesis
    proof cases
      case 1
      then have "select_promising c g i = Some f" using Cons by (subst select_promising.simps) (simp add: Let_def)
      then show ?thesis using ch[of f] by simp
    next
      case 2
      then have "select_promising c g i = Some i" using Cons by (subst select_promising.simps) (simp add: Let_def)
      then show ?thesis using less.prems by simp
    next
      case (3 b)
      have b: "i < b" "b < length (nodes g)" using best_child_in[OF 3(2)] ch[of b] by auto
      have "select_promising c g i = select_promising c g b" using 3 Cons by (subst select_promising.simps) (simp add: Let_def)
      then show ?thesis using less.hyps[of b] b by simp
    qed
  qed
qed

lemma mcts_children_ok:
  "tree_ok env cfg s0 g \<Longrightarrow> set cs \<subseteq> {..<length (nodes g)} \<Longrightarrow> mcts_children env cfg cs g = (h, r) \<Longrightarrow>
     tree_ok env cfg s0 h \<and> length (nodes h) = length (nodes g) \<and> (\<forall>s. r = Some s \<longrightarrow> solution_ok env cfg s0 s)"
proof (induction cs arbitrary: g)
  case (Cons c cs)
  show ?case
  proof (cases "is_visited env c g")
    case True
    then show ?thesis using Cons by simp
  next
    case False
    obtain g1 x where s: "simulate env cfg c (mark_visited env c g) = (g1, x)" by fastforce
    obtain g2 y where k: "check_solution env c (backpropagate c x g1) = (g2, y)" by fastforce
    have "tree_ok env cfg s0 g1" using simulate_simps[OF s] Cons.prems(1)
      by (intro tree_ok_same[OF same_tree_nodes Cons.prems(1)]) (auto simp: tree_ok_def)
    moreover note backpropagate_same[where g = g1 and i = c and r = x]
    ultimately have b: "tree_ok env cfg s0 (backpropagate c x g1)" "length (nodes (backpropagate c x g1)) = length (nodes g)"
      using same_treeD(1)[of g1 "backpropagate c x g1"] simulate_simps[OF s] by (auto intro: tree_ok_update)
    have c: "c < length (nodes (backpropagate c x g1))" using Cons.prems(2) b(2) by simp
    note ck = check_solution_ok[OF b(1) c k]
    show ?thesis
    proof (cases y)
      case (Some s')
      then show ?thesis using ck b(2) Cons.prems(3) False s k by auto
    next
      case None
      then have "mcts_children env cfg cs g2 = (h, r)" "tree_ok env cfg s0 g2" "length (nodes g2) = length (nodes g)"
        using Cons.prems(3) False s k ck b(2) by auto
      then show ?thesis using Cons.IH[of g2] Cons.prems(2) by simp
    qed
  qed
qed simp

text \<open>The percentile 1, which the configuration admits, is an index error as soon as two nodes are left.\<close>

lemma full_percentile_raises:
  assumes "method_of_pruning cfg = RELATIVE_PERCENTILE" "pruning_percentile cfg = 1" "2 \<le> length (filter (alive g) is)"
  shows "prune cfg is g = None"
  using assms by (auto simp: prune_def apply_percentile_def Let_def)

text \<open>The top k: nothing that is killed has a greater score than what is kept.\<close>

lemma top_k_keeps_the_best:
  assumes "apply_top_k k is g = (h, kept)" "i \<in> set is" "i \<notin> set kept" "j \<in> set kept"
  shows "score_of g i \<le> score_of g j"
proof -
  have k: "kept = take k (by_score g is)" using assms(1,2,3) by (auto simp: apply_top_k_def Let_def split: if_splits)
  have "i \<in> set (by_score g is)" using assms(2) by (simp add: by_score_set)
  then have i: "i \<in> set (drop k (by_score g is))" using assms(3) k by (metis Un_iff append_take_drop_id set_append)
  have "sorted (map (\<lambda>i. - score_of g i) (take k (by_score g is) @ drop k (by_score g is)))" by (simp add: by_score_def)
  then have "- score_of g j \<le> - score_of g i" using assms(4) i k unfolding map_append sorted_append by simp
  then show ?thesis by simp
qed

end
