(* ===== verification/Search_Runs.thy ===== *)
theory Search_Runs
  imports Search_Trees
begin

text \<open>
  The runs of the five search strategies: every pass keeps the invariant and spends a potential, so the
  searches end, and what they find is a state that the generator leads to and the checker accepts.
\<close>

section \<open>Steps\<close>

fun frontier_ok :: "tot_config \<Rightarrow> ('a, 's) search \<Rightarrow> bool" where
  "frontier_ok cfg (In_Bfs (Bfs q g)) = (\<forall>i \<in> set q. i < length (nodes g))"
| "frontier_ok cfg (In_Dfs (Dfs st n g)) = (\<forall>x \<in> set st. fst x < length (nodes g))"
| "frontier_ok cfg (In_Best (Best h ids g)) = (\<forall>e \<in> set h. snd (snd e) < length (nodes g))"
| "frontier_ok cfg (In_Beam (Beam l nl k g)) = ((\<forall>i \<in> set l. i < length (nodes g) \<and> Suc (node_depth (nodes g ! i)) = k)
     \<and> (\<forall>i \<in> set nl. i < length (nodes g) \<and> node_depth (nodes g ! i) = k) \<and> k \<le> max_depth cfg)"
| "frontier_ok cfg (In_Mcts m) = True"

definition search_ok :: "('a, 's) tot_env \<Rightarrow> tot_config \<Rightarrow> 'a \<Rightarrow> ('a, 's) search \<Rightarrow> bool" where
  "search_ok env cfg s0 st \<longleftrightarrow> tree_ok env cfg s0 (engine_of st) \<and> frontier_ok cfg st"

text \<open>A search through the beam never looks at the nodes of the last level.\<close>

definition found_depth :: "tot_config \<Rightarrow> ('a, 's) search \<Rightarrow> nat" where
  "found_depth cfg st = (case st of In_Beam b \<Rightarrow> max_depth cfg - 1 | _ \<Rightarrow> max_depth cfg)"

definition outcome_ok :: "('a, 's) tot_env \<Rightarrow> 'a \<Rightarrow> nat \<Rightarrow> 's outcome \<Rightarrow> bool" where
  "outcome_ok env s0 n out \<longleftrightarrow> (\<forall>s. out = Found s \<longrightarrow> (\<exists>d t. d \<le> n \<and> reach env s0 d t \<and> check env t = Some s))"

definition step_ok :: "('a, 's) tot_env \<Rightarrow> tot_config \<Rightarrow> 'a \<Rightarrow> nat \<Rightarrow> ('a, 's) search + ('a, 's) engine \<times> 's outcome \<Rightarrow> bool" where
  "step_ok env cfg s0 n r \<longleftrightarrow> (case r of Inl st \<Rightarrow> search_ok env cfg s0 st \<and> found_depth cfg st = n | Inr (g, out) \<Rightarrow> outcome_ok env s0 n out)"

lemma found_here:
  assumes "tree_ok env cfg s0 g" "i < length (nodes g)" "check_solution env i g = (h, Some s)" "node_depth (nodes g ! i) \<le> n"
  shows "outcome_ok env s0 n (Found s)"
proof -
  have "check env (node_state (nodes g ! i)) = Some s" using check_solution_ok[OF assms(1-3)] by simp
  then show ?thesis unfolding outcome_ok_def using tree_node[OF assms(1,2)] assms(4) by blast
qed

lemma nothing_found: "outcome_ok env s0 n Exhausted" "outcome_ok env s0 n (Search_Raised e)"
  by (simp_all add: outcome_ok_def)

lemma solution_outcome: "solution_ok env cfg s0 s \<Longrightarrow> outcome_ok env s0 (max_depth cfg) (Found s)"
  by (auto simp: solution_ok_def outcome_ok_def)

lemma raise_treeD:
  assumes "raise_tree env cfg s0 b p g h cs"
  shows "tree_ok env cfg s0 h" "length (nodes g) \<le> length (nodes h)" "grows b p g h" "\<forall>c \<in> set cs. length (nodes g) \<le> c \<and> c < length (nodes h)" "length cs \<le> b"
  using assms by (auto simp: raise_tree_def expanded_def grows_def)

lemma bfs_step_ok:
  assumes "search_ok env cfg s0 (In_Bfs st)"
  shows "step_ok env cfg s0 (max_depth cfg) (search_step env cfg (In_Bfs st))"
proof (cases st)
  case (Bfs q g)
  have t: "tree_ok env cfg s0 g" "\<forall>i \<in> set q. i < length (nodes g)" using assms Bfs by (simp_all add: search_ok_def)
  show ?thesis
  proof (cases q)
    case Nil
    then show ?thesis using Bfs by (simp add: step_ok_def going_on_def nothing_found)
  next
    case (Cons i js)
    then have i: "i < length (nodes g)" using t(2) by simp
    obtain g1 r where k: "check_solution env i g = (g1, r)" by fastforce
    note ck = check_solution_ok[OF t(1) i k]
    show ?thesis
    proof (cases r)
      case (Some s)
      then have "outcome_ok env s0 (max_depth cfg) (Found s)" using found_here[OF t(1) i] k tree_node[OF t(1) i] by simp
      then show ?thesis using Bfs Cons k Some by (simp add: step_ok_def going_on_def)
    next
      case None
      then have g1: "g1 = g" using ck by simp
      let ?g = "mark_visited env i g"
      consider "node_depth (nodes g ! i) \<ge> max_depth cfg \<or> is_visited env i g" | "node_depth (nodes g ! i) < max_depth cfg" "\<not> is_visited env i g" by fastforce
      then show ?thesis
      proof cases
        case 1
        then show ?thesis using Bfs Cons k None g1 t by (auto simp: step_ok_def going_on_def search_ok_def found_depth_def)
      next
        case 2
        obtain h r where e: "expand_and_prune env cfg i ?g = (h, r)" by fastforce
        have ex: "\<And>cs. r = Inr cs \<Longrightarrow> \<exists>b. raise_tree env cfg s0 b i ?g h cs"
          using expand_and_prune_expanded[OF mark_ok[OF t(1)] _ _ e] i 2 by auto
        show ?thesis
        proof (cases r)
          case (Inl x)
          then show ?thesis using Bfs Cons k None g1 2 e by (simp add: step_ok_def going_on_def nothing_found)
        next
          case (Inr cs)
          then obtain b where "raise_tree env cfg s0 b i ?g h cs" using ex by blast
          note rt = raise_treeD[OF this]
          have "\<forall>j \<in> set (js @ cs). j < length (nodes h)" using rt(2,4) t(2) Cons by auto
          then show ?thesis using Bfs Cons k None g1 2 e Inr rt(1) by (simp add: step_ok_def going_on_def search_ok_def found_depth_def)
        qed
      qed
    qed
  qed
qed

lemma dfs_descend_ok:
  assumes "tree_ok env cfg s0 g" "i < length (nodes g)" "\<forall>x \<in> set st. fst x < length (nodes g)"
  shows "search_ok env cfg s0 (In_Dfs (dfs_descend i k st n g))"
  using assms tree_child[OF assms(1,2), of "node_children (nodes g ! i) ! k"] by (auto simp: dfs_descend_def Let_def search_ok_def)

lemma dfs_descend_depth: "found_depth cfg (In_Dfs d) = max_depth cfg"
  by (simp add: found_depth_def)

lemma dfs_step_ok:
  assumes "search_ok env cfg s0 (In_Dfs st)"
  shows "step_ok env cfg s0 (max_depth cfg) (search_step env cfg (In_Dfs st))"
proof (cases st)
  case (Dfs s n g)
  have t: "tree_ok env cfg s0 g" "\<forall>x \<in> set s. fst x < length (nodes g)" using assms Dfs by (simp_all add: search_ok_def)
  show ?thesis
  proof (cases s)
    case Nil
    then show ?thesis using Dfs by (simp add: step_ok_def going_on_def nothing_found)
  next
    case (Cons x s')
    obtain i idx where x: "x = (i, idx)" by fastforce
    then have i: "i < length (nodes g)" and s': "\<forall>x \<in> set s'. fst x < length (nodes g)" using t(2) Cons by auto
    obtain g1 r where k: "check_solution env i g = (g1, r)" by fastforce
    note ck = check_solution_ok[OF t(1) i k]
    show ?thesis
    proof (cases r)
      case (Some y)
      then have "outcome_ok env s0 (max_depth cfg) (Found y)" using found_here[OF t(1) i] k tree_node[OF t(1) i] by simp
      then show ?thesis using Dfs Cons x k Some by (simp add: step_ok_def going_on_def)
    next
      case None
      then have g1: "g1 = g" using ck by simp
      let ?g = "if idx = 0 then mark_visited env i g else g"
      have t2: "tree_ok env cfg s0 ?g" "nodes ?g = nodes g" using t(1) mark_ok by auto
      consider "idx = 0 \<and> is_visited env i g" | "\<not> (idx = 0 \<and> is_visited env i g)" "node_depth (nodes g ! i) \<ge> max_depth cfg"
        | "\<not> (idx = 0 \<and> is_visited env i g)" "node_depth (nodes g ! i) < max_depth cfg" "node_children (nodes g ! i) = [] \<and> idx = 0"
        | "\<not> (idx = 0 \<and> is_visited env i g)" "node_depth (nodes g ! i) < max_depth cfg" "\<not> (node_children (nodes g ! i) = [] \<and> idx = 0)" by fastforce
      then show ?thesis
      proof cases
        case 1
        then show ?thesis using Dfs Cons x k None g1 t(1) s' by (simp add: step_ok_def going_on_def search_ok_def found_depth_def)
      next
        case 2
        then show ?thesis using Dfs Cons x k None g1 t2 s' by (auto simp: step_ok_def going_on_def search_ok_def found_depth_def Let_def)
      next
        case 3
        obtain h r where e: "expand_and_prune env cfg i ?g = (h, r)" by fastforce
        obtain b where b: "expanded env cfg s0 b i ?g h" using expand_and_prune_expanded[OF t2(1) _ _ e] i t2(2) 3(2) by auto
        have h: "tree_ok env cfg s0 h" "i < length (nodes h)" "\<forall>x \<in> set s'. fst x < length (nodes h)"
          using b i s' t2(2) by (auto simp: expanded_def grows_def)
        have e': "expand_and_prune env cfg i (mark_visited env i g) = (h, r)" using e 3 by simp
        show ?thesis
          using Dfs Cons x k None g1 3 e' dfs_descend_ok[OF h, of 0 n] by (cases r) (auto simp: step_ok_def going_on_def nothing_found dfs_descend_depth Let_def)
      next
        case 4
        then have "search_step env cfg (In_Dfs st) = Inl (In_Dfs (dfs_descend i idx s' n ?g))"
          using Dfs Cons x k None g1 t2(2) by (auto simp: going_on_def Let_def)
        moreover have "search_ok env cfg s0 (In_Dfs (dfs_descend i idx s' n ?g))" by (rule dfs_descend_ok) (use t2 i s' in simp_all)
        ultimately show ?thesis by (simp add: step_ok_def dfs_descend_depth)
      qed
    qed
  qed
qed

lemma least_entry_in: "least_entry x xs \<in> set (x # xs)"
proof (induction xs arbitrary: x)
  case (Cons y ys)
  have "least_entry x (y # ys) = least_entry (if entry_le x y then x else y) ys" by simp
  moreover have "least_entry (if entry_le x y then x else y) ys \<in> set ((if entry_le x y then x else y) # ys)" by (rule Cons.IH)
  ultimately show ?case by (cases "entry_le x y") (simp_all only: if_True if_False list.set insert_iff, blast+)
qed simp

lemma heappop_split: "heappop h = Some (e, h') \<Longrightarrow> mset h = add_mset e (mset h')"
proof (cases h)
  case (Cons x xs)
  assume "heappop h = Some (e, h')"
  then have "e = least_entry x xs" "h' = remove1 e h" using Cons by (auto simp: heappop_def Let_def)
  moreover have "e \<in># mset h" using least_entry_in[of x xs] Cons calculation(1) by (simp only: set_mset_mset)
  ultimately show ?thesis by (simp add: insert_DiffM)
qed (simp add: heappop_def)

lemma best_step_ok:
  assumes "search_ok env cfg s0 (In_Best st)"
  shows "step_ok env cfg s0 (max_depth cfg) (search_step env cfg (In_Best st))"
proof (cases st)
  case (Best hp ids g)
  have t: "tree_ok env cfg s0 g" "\<forall>e \<in> set hp. snd (snd e) < length (nodes g)" using assms Best by (simp_all add: search_ok_def)
  show ?thesis
  proof (cases "heappop hp")
    case None
    then show ?thesis using Best by (simp add: step_ok_def going_on_def nothing_found best_first_step_def)
  next
    case (Some p)
    obtain sc u i hp' where p: "p = ((sc, u, i), hp')" by (metis prod.exhaust_sel)
    have "set hp = insert (sc, u, i) (set hp')" using heappop_split[OF Some[unfolded p]] by (metis set_mset_add_mset_insert set_mset_mset)
    then have i: "i < length (nodes g)" and hp': "\<forall>e \<in> set hp'. snd (snd e) < length (nodes g)" using t(2) by auto
    let ?g = "mark_visited env i g"
    have tg: "tree_ok env cfg s0 ?g" "i < length (nodes ?g)" using mark_ok[OF t(1)] i by auto
    obtain g1 r where k: "check_solution env i ?g = (g1, r)" by fastforce
    note ck = check_solution_ok[OF tg k]
    show ?thesis
    proof (cases "i \<in> set ids \<or> is_visited env i g")
      case True
      then show ?thesis using Best Some p t(1) hp' by (auto simp: step_ok_def going_on_def search_ok_def found_depth_def best_first_step_def)
    next
      case new: False
      show ?thesis
      proof (cases r)
        case s: (Some s)
        then have "outcome_ok env s0 (max_depth cfg) (Found s)" using found_here[OF tg] k tree_node[OF tg] by simp
        then show ?thesis using Best Some p k s new by (simp add: step_ok_def going_on_def best_first_step_def)
      next
        case None
        then have g1: "g1 = ?g" using ck by simp
        show ?thesis
        proof (cases "node_depth (nodes g ! i) \<ge> max_depth cfg")
          case True
          then show ?thesis using Best Some p k None g1 new tg hp' by (simp add: step_ok_def going_on_def search_ok_def found_depth_def best_first_step_def)
        next
          case False
          obtain h r where e: "expand_and_prune env cfg i ?g = (h, r)" by fastforce
          have ex: "\<And>cs. r = Inr cs \<Longrightarrow> \<exists>b. raise_tree env cfg s0 b i ?g h cs"
            using expand_and_prune_expanded[OF tg _ e] False by auto
          show ?thesis
          proof (cases r)
            case (Inl x)
            then show ?thesis using Best Some p k None g1 new False e by (simp add: step_ok_def going_on_def nothing_found best_first_step_def)
          next
            case (Inr cs)
            then obtain b where "raise_tree env cfg s0 b i ?g h cs" using ex by blast
            note rt = raise_treeD[OF this]
            have "\<forall>e \<in> set (hp' @ map (entry_of env h) cs). snd (snd e) < length (nodes h)" using rt(2,4) hp' by (auto simp: entry_of_def)
            then show ?thesis using Best Some p k None g1 new False e Inr rt(1) by (simp add: step_ok_def going_on_def search_ok_def found_depth_def best_first_step_def)
          qed
        qed
      qed
    qed
  qed
qed

lemma beam_step_ok:
  assumes "search_ok env cfg s0 (In_Beam st)"
  shows "step_ok env cfg s0 (max_depth cfg - 1) (search_step env cfg (In_Beam st))"
proof (cases st)
  case (Beam l nl k g)
  have t: "tree_ok env cfg s0 g" "\<forall>i \<in> set l. i < length (nodes g) \<and> Suc (node_depth (nodes g ! i)) = k"
    "\<forall>i \<in> set nl. i < length (nodes g) \<and> node_depth (nodes g ! i) = k" "k \<le> max_depth cfg"
    using assms Beam by (simp_all add: search_ok_def)
  show ?thesis
  proof (cases l)
    case Nil
    show ?thesis
    proof (cases "prune cfg nl g")
      case None
      then show ?thesis using Beam Nil by (simp add: step_ok_def going_on_def nothing_found)
    next
      case (Some hk)
      obtain h kept where hk: "hk = (h, kept)" by fastforce
      note pk = prune_kept[OF Some[unfolded hk]]
      have same: "same_tree g h" using pk by simp
      have th: "tree_ok env cfg s0 h" using tree_ok_update[OF t(1) same] pk by simp
      have "\<forall>i \<in> set (take (beam_width cfg) (by_score h kept)). i < length (nodes h) \<and> node_depth (nodes h ! i) = k"
        using pk t(3) same_treeD[OF same] by (auto simp: by_score_set dest!: in_set_takeD)
      then show ?thesis using Beam Nil Some hk th t(4) by (auto simp: step_ok_def going_on_def nothing_found search_ok_def found_depth_def Let_def)
    qed
  next
    case (Cons i l')
    have i: "i < length (nodes g)" "Suc (node_depth (nodes g ! i)) = k" using t(2) Cons by simp_all
    let ?g = "mark_visited env i g"
    have tg: "tree_ok env cfg s0 ?g" "i < length (nodes ?g)" using mark_ok[OF t(1)] i by auto
    obtain g1 r where ck: "check_solution env i ?g = (g1, r)" by fastforce
    note ok = check_solution_ok[OF tg ck]
    show ?thesis
    proof (cases "is_visited env i g")
      case True
      then show ?thesis using Beam Cons t by (simp add: step_ok_def going_on_def search_ok_def found_depth_def)
    next
      case new: False
      show ?thesis
      proof (cases r)
        case (Some s)
        then have "outcome_ok env s0 (max_depth cfg - 1) (Found s)" using found_here[OF tg, of g1 s "max_depth cfg - 1"] ck i(2) t(4) by simp
        then show ?thesis using Beam Cons ck Some new by (simp add: step_ok_def going_on_def)
      next
        case None
        then have g1: "g1 = ?g" using ok by simp
        obtain h r where e: "expand_node env cfg i ?g = (h, r)" by fastforce
        have d: "node_depth (nodes ?g ! i) < max_depth cfg" using i t(4) by simp
        obtain b where b: "expanded env cfg s0 b i ?g h" "\<forall>cs. r = Inr cs \<longrightarrow> set cs = {length (nodes ?g)..<length (nodes h)}"
          using expand_node_expanded[OF tg d e] by blast
        show ?thesis
        proof (cases r)
          case (Inl x)
          then show ?thesis using Beam Cons ck None g1 new e by (simp add: step_ok_def going_on_def nothing_found)
        next
          case (Inr cs)
          have gr: "grows b i ?g h" using b(1) by (simp add: expanded_def)
          have "\<forall>c \<in> set cs. c < length (nodes h) \<and> node_depth (nodes h ! c) = k" using b(2) Inr gr i(2) by (auto simp: grows_def)
          moreover have "j < length (nodes g) \<Longrightarrow> j < length (nodes h) \<and> node_depth (nodes h ! j) = node_depth (nodes g ! j)" for j using gr by (simp add: grows_def)
          moreover have "tree_ok env cfg s0 h" using b(1) by (simp add: expanded_def)
          ultimately show ?thesis using Beam Cons ck None g1 new e Inr t by (auto simp: step_ok_def going_on_def search_ok_def found_depth_def)
        qed
      qed
    qed
  qed
qed

lemma most_visited_in: "most_visited g b is \<in> insert b (set is)"
proof (induction "is" arbitrary: b)
  case (Cons i "is")
  show ?case using Cons[of i] Cons[of b] by auto
qed simp

lemma mcts_step_ok:
  assumes "search_ok env cfg s0 (In_Mcts st)"
  shows "step_ok env cfg s0 (max_depth cfg) (search_step env cfg (In_Mcts st))"
proof (cases st)
  case (Mcts k g)
  have t: "tree_ok env cfg s0 g" using assms Mcts by (simp add: search_ok_def)
  have root: "0 < length (nodes g)" using t by (simp add: tree_ok_def)
  show ?thesis
  proof (cases k)
    case 0
    show ?thesis
    proof (cases "node_children (nodes g ! 0)")
      case (Cons c cs)
      let ?m = "most_visited g c cs"
      have "?m \<in> set (node_children (nodes g ! 0))" using most_visited_in[of g c cs] Cons by simp
      then have m: "?m < length (nodes g)" using tree_child[OF t root] by blast
      show ?thesis
      proof (cases "check env (node_state (nodes g ! ?m))")
        case (Some s)
        have "outcome_ok env s0 (max_depth cfg) (Found s)" using tree_node[OF t m] Some by (auto simp: outcome_ok_def)
        then show ?thesis using Mcts 0 Cons Some by (simp add: step_ok_def going_on_def)
      qed (use Mcts 0 Cons in \<open>simp add: step_ok_def going_on_def nothing_found\<close>)
    qed (use Mcts 0 in \<open>simp add: step_ok_def going_on_def nothing_found\<close>)
  next
    case (Suc k')
    obtain i where i: "select_promising (mcts_exploration_constant cfg) g 0 = Some i" "i < length (nodes g)"
      using select_returns[OF t root] by blast
    obtain g1 r where c: "check_solution env i g = (g1, r)" by fastforce
    note ck = check_solution_ok[OF t i(2) c]
    show ?thesis
    proof (cases r)
      case (Some s)
      then have "outcome_ok env s0 (max_depth cfg) (Found s)" using found_here[OF t i(2)] c tree_node[OF t i(2)] by simp
      then show ?thesis using Mcts Suc i c Some by (simp add: step_ok_def going_on_def)
    next
      case None
      then have g1: "g1 = g" using ck by simp
      show ?thesis
      proof (cases "node_depth (nodes g ! i) \<ge> max_depth cfg")
        case True
        then show ?thesis using Mcts Suc i c None g1 t by (simp add: step_ok_def going_on_def search_ok_def found_depth_def)
      next
        case False
        obtain h r where e: "expand_node env cfg i g = (h, r)" by fastforce
        have "node_depth (nodes g ! i) < max_depth cfg" using False by simp
        then obtain b where b: "expanded env cfg s0 b i g h" "\<forall>cs. r = Inr cs \<longrightarrow> set cs = {length (nodes g)..<length (nodes h)}"
          using expand_node_expanded[OF t i(2) _ e] by blast
        show ?thesis
        proof (cases r)
          case (Inl x)
          then show ?thesis using Mcts Suc i c None g1 False e by (simp add: step_ok_def going_on_def nothing_found)
        next
          case (Inr cs)
          obtain h' y where m: "mcts_children env cfg cs h = (h', y)" by fastforce
          have "tree_ok env cfg s0 h" "set cs \<subseteq> {..<length (nodes h)}" using b Inr by (auto simp: expanded_def)
          note mk = mcts_children_ok[OF this m]
          show ?thesis
          proof (cases y)
            case (Some s)
            then have "outcome_ok env s0 (max_depth cfg) (Found s)" using mk solution_outcome[of env cfg s0 s] by simp
            then show ?thesis using Mcts Suc i c None g1 False e Inr m Some by (simp add: step_ok_def going_on_def)
          qed (use Mcts Suc i c None g1 False e Inr m mk in \<open>simp add: step_ok_def going_on_def search_ok_def found_depth_def\<close>)
        qed
      qed
    qed
  qed
qed

lemma search_step_ok:
  assumes "search_ok env cfg s0 st"
  shows "step_ok env cfg s0 (found_depth cfg st) (search_step env cfg st)"
proof (cases st)
  case (In_Bfs x)
  then show ?thesis using assms bfs_step_ok by (simp add: found_depth_def)
next
  case (In_Dfs x)
  then show ?thesis using assms dfs_step_ok by (simp add: found_depth_def)
next
  case (In_Best x)
  then show ?thesis using assms best_step_ok by (simp add: found_depth_def)
next
  case (In_Beam x)
  then show ?thesis using assms beam_step_ok by (simp add: found_depth_def)
next
  case (In_Mcts x)
  then show ?thesis using assms mcts_step_ok by (simp add: found_depth_def)
qed

lemma new_engine_ok: "tree_ok env cfg s (new_engine s th n)"
  by (auto simp: tree_ok_def new_engine_def new_node_def node_ok_def reach_start)

lemma start_search_ok:
  assumes "1 \<le> max_depth cfg"
  shows "search_ok env cfg s (start_search env cfg (new_engine s th n))"
    and "found_depth cfg (start_search env cfg (new_engine s th n)) = (if search_strategy cfg = BEAM then max_depth cfg - 1 else max_depth cfg)"
proof -
  let ?g = "new_engine s th n"
  let ?m = "set_node 0 (\<lambda>n. n\<lparr>node_visits := Some 1, node_total := Some (node_score n)\<rparr>) ?g"
  have l: "nodes ?g \<noteq> []" "node_depth (nodes ?g ! 0) = 0" by (simp_all add: new_engine_def new_node_def)
  have "tree_ok env cfg s ?m" by (rule tree_ok_update[OF new_engine_ok same_tree_set_node]) (simp_all add: skel_def)
  then show "search_ok env cfg s (start_search env cfg ?g)" using assms l new_engine_ok[of env cfg s th n]
    by (cases "search_strategy cfg") (simp_all add: start_search_def search_ok_def entry_of_def)
  show "found_depth cfg (start_search env cfg ?g) = (if search_strategy cfg = BEAM then max_depth cfg - 1 else max_depth cfg)"
    by (cases "search_strategy cfg") (simp_all add: start_search_def found_depth_def)
qed


section \<open>The searches end\<close>

fun weight :: "nat \<Rightarrow> nat \<Rightarrow> nat" where
  "weight b 0 = 1"
| "weight b (Suc k) = 1 + b * (1 + weight b k)"

text \<open>What the subtree under a node can still cost, and the same after \<open>idx\<close> of its children.\<close>

definition cost :: "nat \<Rightarrow> tot_config \<Rightarrow> ('a, 's) engine \<Rightarrow> nat \<Rightarrow> nat" where
  "cost b cfg g i = weight b (max_depth cfg - node_depth (nodes g ! i))"

definition rest_cost :: "nat \<Rightarrow> tot_config \<Rightarrow> ('a, 's) engine \<Rightarrow> nat \<times> nat \<Rightarrow> nat" where
  "rest_cost b cfg g x = (case max_depth cfg - node_depth (nodes g ! fst x) of 0 \<Rightarrow> 1 | Suc k \<Rightarrow> 1 + (b - snd x) * (1 + weight b k))"

fun potential :: "nat \<Rightarrow> tot_config \<Rightarrow> ('a, 's) search \<Rightarrow> nat" where
  "potential b cfg (In_Bfs (Bfs q g)) = (\<Sum>i \<leftarrow> q. cost b cfg g i)"
| "potential b cfg (In_Dfs (Dfs st n g)) = (\<Sum>x \<leftarrow> st. rest_cost b cfg g x)"
| "potential b cfg (In_Best (Best h ids g)) = (\<Sum>e \<leftarrow> h. cost b cfg g (snd (snd e)))"
| "potential b cfg (In_Beam (Beam l nl k g)) = (max_depth cfg - k) * (beam_width cfg + 1) + length l"
| "potential b cfg (In_Mcts (Mcts k g)) = k"

lemma cost_start: "rest_cost b cfg g (i, 0) = cost b cfg g i"
  by (simp add: rest_cost_def cost_def split: nat.split)

lemma cost_same_depth: "node_depth (nodes h ! i) = node_depth (nodes g ! i) \<Longrightarrow> cost b cfg h i = cost b cfg g i"
  by (simp add: cost_def)

lemma raised_cost_old:
  assumes "grows b' p g h" "i < length (nodes g)"
  shows "cost b cfg h i = cost b cfg g i" "rest_cost b cfg h (i, k) = rest_cost b cfg g (i, k)"
  using expanded_state[OF assms] by (simp_all add: cost_def rest_cost_def)

lemma sum_list_cong: "(\<And>x. x \<in> set xs \<Longrightarrow> f x = g x) \<Longrightarrow> (\<Sum>x \<leftarrow> xs. f x) = (\<Sum>x \<leftarrow> xs. (g x :: nat))"
  by (rule arg_cong[of _ _ sum_list]) simp

lemma raised_cost_new:
  assumes "raise_tree env cfg s0 b' p g h cs" "b' \<le> b" "node_depth (nodes g ! p) < max_depth cfg"
  shows "(\<Sum>i \<leftarrow> cs. cost b cfg h i) < cost b cfg g p"
proof -
  note rt = raise_treeD[OF assms(1)]
  obtain k where k: "max_depth cfg - node_depth (nodes g ! p) = Suc k" using assms(3) by (metis Suc_diff_Suc)
  have "cost b cfg h i = weight b k" if "i \<in> set cs" for i
  proof -
    have "node_depth (nodes h ! i) = Suc (node_depth (nodes g ! p))" using rt(3,4) that by (simp add: grows_def)
    moreover have "max_depth cfg - Suc (node_depth (nodes g ! p)) = k" using k by simp
    ultimately show ?thesis by (simp add: cost_def)
  qed
  then have "(\<Sum>i \<leftarrow> cs. cost b cfg h i) = (\<Sum>i \<leftarrow> cs. weight b k)" by (rule sum_list_cong)
  also have "\<dots> = length cs * weight b k" by (simp add: sum_list_triv)
  also have "\<dots> \<le> b * weight b k" using rt(5) assms(2) by (intro mult_le_mono1) simp
  finally show ?thesis using k by (simp add: cost_def add_mult_distrib2)
qed

text \<open>Only the depth first search looks at the children: no node has more than \<open>b\<close>.\<close>

definition bushy :: "nat \<Rightarrow> ('a, 's) engine \<Rightarrow> bool" where
  "bushy b g \<longleftrightarrow> (\<forall>i < length (nodes g). length (node_children (nodes g ! i)) \<le> b)"

fun narrow :: "nat \<Rightarrow> ('a, 's) search \<Rightarrow> bool" where
  "narrow b (In_Dfs (Dfs st n g)) = bushy b g"
| "narrow b st = True"

lemma bushy_grows:
  assumes "bushy b g" "grows b' p g h" "b' \<le> b" "node_children (nodes g ! p) = []"
  shows "bushy b h"
  unfolding bushy_def
proof (intro allI impI)
  fix i assume i: "i < length (nodes h)"
  show "length (node_children (nodes h ! i)) \<le> b"
    using assms i by (cases "i < length (nodes g)") (auto simp: bushy_def grows_def)
qed

text \<open>The costly passes of each loop.\<close>

lemma bfs_passes:
  assumes "search_ok env cfg s0 (In_Bfs (Bfs (i # q) g))" "bfs_step env cfg (Bfs (i # q) g) = Inl st" "branching env b"
  shows "st = Bfs q g \<or> (\<exists>h cs b'. st = Bfs (q @ cs) h \<and> node_depth (nodes g ! i) < max_depth cfg \<and> b' \<le> b
     \<and> raise_tree env cfg s0 b' i (mark_visited env i g) h cs)"
proof -
  have t: "tree_ok env cfg s0 g" "i < length (nodes g)" using assms(1) by (simp_all add: search_ok_def)
  obtain g1 r where c: "check_solution env i g = (g1, r)" by fastforce
  have r: "r = None" "g1 = g" using check_solution_ok[OF t c] assms(2) c by (cases r; simp)+
  obtain h x where e: "expand_and_prune env cfg i (mark_visited env i g) = (h, x)" by fastforce
  consider "st = Bfs q g" | cs where "node_depth (nodes g ! i) < max_depth cfg" "x = Inr cs" "st = Bfs (q @ cs) h"
    using assms(2) c r e by (cases x) (auto split: if_splits)
  then show ?thesis
  proof cases
    case (2 cs)
    then show ?thesis using expand_and_prune_expanded[OF mark_ok[OF t(1)] _ _ e, of b] t(2) assms(3) by auto
  qed simp
qed

lemma bfs_spends:
  assumes "search_ok env cfg s0 (In_Bfs (Bfs q g))" "bfs_step env cfg (Bfs q g) = Inl st" "branching env b"
  shows "potential b cfg (In_Bfs st) < potential b cfg (In_Bfs (Bfs q g))"
proof (cases q)
  case (Cons i js)
  have old: "\<forall>j \<in> set js. j < length (nodes g)" using assms(1) Cons by (simp add: search_ok_def)
  have pos: "0 < cost b cfg g i" by (cases "max_depth cfg - node_depth (nodes g ! i)") (simp_all add: cost_def)
  consider "st = Bfs js g" | h cs b' where "st = Bfs (js @ cs) h" "node_depth (nodes g ! i) < max_depth cfg" "b' \<le> b"
     "raise_tree env cfg s0 b' i (mark_visited env i g) h cs"
    using bfs_passes[OF assms(1)[unfolded Cons] assms(2)[unfolded Cons] assms(3)] by blast
  then show ?thesis
  proof cases
    case 1
    then show ?thesis using Cons pos by simp
  next
    case (2 h cs b')
    have "(\<Sum>j \<leftarrow> js. cost b cfg h j) = (\<Sum>j \<leftarrow> js. cost b cfg g j)"
      by (rule sum_list_cong) (use raised_cost_old(1)[OF raise_treeD(3)[OF 2(4)]] old in \<open>simp add: cost_def\<close>)
    moreover have "(\<Sum>j \<leftarrow> cs. cost b cfg h j) < cost b cfg g i"
      using raised_cost_new[OF 2(4,3)] 2(2) by (simp add: cost_def)
    ultimately show ?thesis using 2(1) Cons by simp
  qed
qed (use assms(2) in simp)

lemma cost_pos: "0 < cost b cfg g i" "0 < rest_cost b cfg g x"
  by (cases "max_depth cfg - node_depth (nodes g ! i)", simp_all add: cost_def) (simp add: rest_cost_def split: nat.split)

lemma rest_cost_nodes: "nodes h = nodes g \<Longrightarrow> rest_cost b cfg h x = rest_cost b cfg g x"
  by (simp add: rest_cost_def)

lemma descend_spends:
  assumes "tree_ok env cfg s0 g" "bushy b g" "i < length (nodes g)" "node_depth (nodes g ! i) < max_depth cfg"
  shows "potential b cfg (In_Dfs (dfs_descend i idx st n g)) < rest_cost b cfg g (i, idx) + (\<Sum>x \<leftarrow> st. rest_cost b cfg g x)"
proof (cases "idx < length (node_children (nodes g ! i))")
  case True
  let ?c = "node_children (nodes g ! i) ! idx"
  obtain k where k: "max_depth cfg - node_depth (nodes g ! i) = Suc k" using assms(4) by (metis Suc_diff_Suc)
  have "node_depth (nodes g ! ?c) = Suc (node_depth (nodes g ! i))" using tree_child[OF assms(1,3), of ?c] True by simp
  then have "max_depth cfg - node_depth (nodes g ! ?c) = k" using k by simp
  then have c: "rest_cost b cfg g (?c, 0) = weight b k" unfolding cost_start by (simp add: cost_def)
  have "length (node_children (nodes g ! i)) \<le> b" using assms(2,3) by (simp add: bushy_def)
  then obtain m where m: "b - idx = Suc m" "b - Suc idx = m" using True by (metis Suc_diff_Suc less_le_trans)
  have "rest_cost b cfg g (i, idx) = 1 + Suc m * (1 + weight b k)" "rest_cost b cfg g (i, idx + 1) = 1 + m * (1 + weight b k)"
    using k m by (simp_all add: rest_cost_def)
  then show ?thesis using True c by (simp add: dfs_descend_def Let_def)
next
  case False
  then show ?thesis using cost_pos(2)[of b cfg g "(i, idx)"] by (simp add: dfs_descend_def Let_def)
qed

lemma dfs_descend_narrow: "bushy b g \<Longrightarrow> narrow b (In_Dfs (dfs_descend i idx st n g))"
  by (simp add: dfs_descend_def Let_def)

lemma dfs_spends:
  assumes "search_ok env cfg s0 (In_Dfs (Dfs s n g))" "dfs_step env cfg (Dfs s n g) = Inl st" "branching env b" "bushy b g"
  shows "potential b cfg (In_Dfs st) < potential b cfg (In_Dfs (Dfs s n g)) \<and> narrow b (In_Dfs st)"
proof (cases s)
  case (Cons x s')
  obtain i idx where x: "x = (i, idx)" by fastforce
  have t: "tree_ok env cfg s0 g" "i < length (nodes g)" and old: "\<forall>y \<in> set s'. fst y < length (nodes g)"
    using assms(1) Cons x by (simp_all add: search_ok_def)
  obtain g1 r where c: "check_solution env i g = (g1, r)" by fastforce
  have r: "r = None" "g1 = g" using check_solution_ok[OF t c] assms(2) c Cons x by (cases r; simp)+
  let ?g = "if idx = 0 then mark_visited env i g else g"
  have g: "nodes ?g = nodes g" "tree_ok env cfg s0 ?g" "bushy b ?g" using t(1) assms(4) mark_ok by (auto simp: bushy_def)
  obtain h y where e: "expand_and_prune env cfg i ?g = (h, y)" by fastforce
  have pot: "potential b cfg (In_Dfs (Dfs s n g)) = rest_cost b cfg g (i, idx) + (\<Sum>y \<leftarrow> s'. rest_cost b cfg g y)"
    using Cons x by simp
  consider n' g' where "st = Dfs s' n' g'" "nodes g' = nodes g"
    | "node_depth (nodes g ! i) < max_depth cfg" "st = dfs_descend i idx s' n ?g"
    | "node_depth (nodes g ! i) < max_depth cfg" "node_children (nodes g ! i) = []" "st = dfs_descend i idx s' n h" "idx = 0"
    using assms(2) c r e Cons x by (auto simp: Let_def split: if_splits sum.splits)
  then show ?thesis
  proof cases
    case 1
    have "(\<Sum>y \<leftarrow> s'. rest_cost b cfg g' y) = (\<Sum>y \<leftarrow> s'. rest_cost b cfg g y)" by (rule sum_list_cong) (rule rest_cost_nodes[OF 1(2)])
    moreover have "bushy b g'" using assms(4) 1(2) by (simp add: bushy_def)
    ultimately show ?thesis unfolding pot using 1(1) cost_pos(2)[of b cfg g "(i, idx)"] by simp
  next
    case 2
    have "(\<Sum>y \<leftarrow> s'. rest_cost b cfg ?g y) = (\<Sum>y \<leftarrow> s'. rest_cost b cfg g y)" by (rule sum_list_cong) (rule rest_cost_nodes[OF g(1)])
    then show ?thesis unfolding pot 2(2) using descend_spends[OF g(2,3), of i idx s' n] dfs_descend_narrow[OF g(3)] 2(1) t(2) g(1)
      by (metis rest_cost_nodes)
  next
    case 3
    obtain b' where b': "expanded env cfg s0 b' i ?g h" "b' \<le> b"
      using expand_and_prune_expanded[OF g(2) _ _ e, of b] t(2) g(1) 3(1) assms(3) by auto
    have gr: "grows b' i ?g h" and h: "tree_ok env cfg s0 h" using b'(1) by (simp_all add: expanded_def)
    have bh: "bushy b h" by (rule bushy_grows[OF g(3) gr b'(2)]) (simp add: g(1) 3(2))
    have same: "rest_cost b cfg h y = rest_cost b cfg g y" if "fst y < length (nodes g)" for y
      using raised_cost_old(2)[OF gr, of "fst y" b cfg "snd y"] that g(1) by (simp add: rest_cost_def)
    have "(\<Sum>y \<leftarrow> s'. rest_cost b cfg h y) = (\<Sum>y \<leftarrow> s'. rest_cost b cfg g y)" by (rule sum_list_cong) (use old same in simp)
    moreover have "i < length (nodes h)" "node_depth (nodes h ! i) < max_depth cfg"
      using gr t(2) g(1) 3(1) by (auto simp: grows_def)
    ultimately show ?thesis unfolding pot 3(3) using descend_spends[OF h bh, of i idx s' n] dfs_descend_narrow[OF bh] same[of "(i, idx)"] t(2) by simp
  qed
qed (use assms(2) in simp)

lemma best_spends:
  assumes "search_ok env cfg s0 (In_Best (Best hp ids g))" "best_first_step env cfg (Best hp ids g) = Inl st" "branching env b"
  shows "potential b cfg (In_Best st) < potential b cfg (In_Best (Best hp ids g))"
proof -
  obtain sc u i hp' where p: "heappop hp = Some ((sc, u, i), hp')"
    using assms(2) by (cases "heappop hp") (auto simp: best_first_step_def)
  note m = heappop_split[OF p]
  have "set hp = insert (sc, u, i) (set hp')" using m by (metis set_mset_add_mset_insert set_mset_mset)
  then have t: "tree_ok env cfg s0 g" "i < length (nodes g)" "\<forall>e \<in> set hp'. snd (snd e) < length (nodes g)"
    using assms(1) by (simp_all add: search_ok_def)
  have "(\<Sum>e \<leftarrow> hp. cost b cfg g (snd (snd e))) = sum_mset (image_mset (\<lambda>e. cost b cfg g (snd (snd e))) (mset hp))"
    by (simp flip: sum_mset_sum_list)
  also have "\<dots> = cost b cfg g i + (\<Sum>e \<leftarrow> hp'. cost b cfg g (snd (snd e)))" unfolding m by (simp flip: sum_mset_sum_list)
  finally have pot: "potential b cfg (In_Best (Best hp ids g)) = cost b cfg g i + (\<Sum>e \<leftarrow> hp'. cost b cfg g (snd (snd e)))" by simp
  let ?g = "mark_visited env i g"
  have tg: "tree_ok env cfg s0 ?g" "i < length (nodes ?g)" using mark_ok[OF t(1)] t(2) by auto
  obtain g1 r where c: "check_solution env i ?g = (g1, r)" by fastforce
  obtain h y where e: "expand_and_prune env cfg i ?g = (h, y)" by fastforce
  consider ids' g' where "st = Best hp' ids' g'" "nodes g' = nodes g"
    | cs where "node_depth (nodes g ! i) < max_depth cfg" "y = Inr cs" "st = Best (hp' @ map (entry_of env h) cs) (i # ids) h"
    using assms(2) p check_solution_ok[OF tg c] c e
    by (cases y; cases r) (auto simp: best_first_step_def split: if_splits)
  then show ?thesis
  proof cases
    case 1
    have "(\<Sum>e \<leftarrow> hp'. cost b cfg g' (snd (snd e))) = (\<Sum>e \<leftarrow> hp'. cost b cfg g (snd (snd e)))"
      by (rule sum_list_cong) (simp add: cost_def 1(2))
    then show ?thesis unfolding pot using 1(1) cost_pos(1)[of b cfg g i] by simp
  next
    case (2 cs)
    obtain b' where b': "raise_tree env cfg s0 b' i ?g h cs" "b' \<le> b"
      using expand_and_prune_expanded[OF tg _ e, of b] 2(1,2) assms(3) by auto
    have "(\<Sum>e \<leftarrow> hp'. cost b cfg h (snd (snd e))) = (\<Sum>e \<leftarrow> hp'. cost b cfg g (snd (snd e)))"
      by (rule sum_list_cong) (use raised_cost_old(1)[OF raise_treeD(3)[OF b'(1)]] t(3) in \<open>simp add: cost_def\<close>)
    moreover have "(\<Sum>j \<leftarrow> cs. cost b cfg h j) < cost b cfg g i" using raised_cost_new[OF b'] 2(1) by (simp add: cost_def)
    ultimately show ?thesis unfolding pot using 2(3) by (simp add: entry_of_def comp_def)
  qed
qed

lemma beam_spends:
  assumes "beam_step env cfg (Beam l nl k g) = Inl st"
  shows "potential b cfg (In_Beam st) < potential b cfg (In_Beam (Beam l nl k g))"
proof (cases l)
  case Nil
  then obtain h kept where p: "prune cfg nl g = Some (h, kept)" "k < max_depth cfg"
    "st = Beam (take (beam_width cfg) (by_score h kept)) [] (k + 1) h"
    using assms by (auto simp: Let_def split: option.splits if_splits)
  then obtain m where "max_depth cfg - k = Suc m" "max_depth cfg - (k + 1) = m" by (metis Suc_diff_Suc Suc_eq_plus1)
  then show ?thesis using p(3) Nil by simp
next
  case (Cons i l')
  then obtain nl' g' where "st = Beam l' nl' k g'" using assms by (auto split: if_splits prod.splits option.splits sum.splits)
  then show ?thesis using Cons by simp
qed

lemma mcts_spends:
  assumes "search_ok env cfg s0 (In_Mcts (Mcts k g))" "mcts_step env cfg (Mcts k g) = Inl st"
  shows "potential b cfg (In_Mcts st) < potential b cfg (In_Mcts (Mcts k g))"
proof (cases k)
  case 0
  then show ?thesis using assms(2) by (auto split: list.splits option.splits)
next
  case (Suc k')
  have t: "tree_ok env cfg s0 g" "0 < length (nodes g)" using assms(1) by (simp_all add: search_ok_def tree_ok_def)
  obtain i where "select_promising (mcts_exploration_constant cfg) g 0 = Some i" using select_returns[OF t] by blast
  then obtain g' where "st = Mcts k' g'" using assms(2) Suc by (auto split: prod.splits option.splits if_splits sum.splits)
  then show ?thesis using Suc by simp
qed

lemma going_onD: "going_on f r = Inl u \<Longrightarrow> \<exists>t. r = Inl t \<and> u = f t"
  by (cases r) (auto simp: going_on_def)

lemma search_step_spends:
  assumes "search_ok env cfg s0 st" "search_step env cfg st = Inl st'" "branching env b" "narrow b st"
  shows "potential b cfg st' < potential b cfg st \<and> narrow b st'"
proof -
  show ?thesis
  proof (cases st)
    case (In_Bfs x)
    then obtain q h t where "x = Bfs q h" "bfs_step env cfg x = Inl t" "st' = In_Bfs t" using assms(2) by (cases x) (auto dest!: going_onD)
    then show ?thesis using bfs_spends assms In_Bfs by fastforce
  next
    case (In_Dfs x)
    then obtain q n h t where "x = Dfs q n h" "dfs_step env cfg x = Inl t" "st' = In_Dfs t" using assms(2) by (cases x) (auto dest!: going_onD)
    then show ?thesis using dfs_spends[of env cfg s0 q n h t b] assms In_Dfs by simp
  next
    case (In_Best x)
    then obtain q ids h t where "x = Best q ids h" "best_first_step env cfg x = Inl t" "st' = In_Best t" using assms(2) by (cases x) (auto dest!: going_onD)
    then show ?thesis using best_spends assms In_Best by fastforce
  next
    case (In_Beam x)
    then obtain l nl k h t where "x = Beam l nl k h" "beam_step env cfg x = Inl t" "st' = In_Beam t" using assms(2) by (cases x) (auto dest!: going_onD)
    then show ?thesis using beam_spends assms In_Beam by fastforce
  next
    case (In_Mcts x)
    then obtain k h t where "x = Mcts k h" "mcts_step env cfg x = Inl t" "st' = In_Mcts t" using assms(2) by (cases x) (auto dest!: going_onD)
    then show ?thesis using mcts_spends assms In_Mcts by fastforce
  qed
qed

section \<open>The interpretations\<close>

lemma step_keeps:
  assumes "search_ok env cfg s0 st \<and> found_depth cfg st = n" "search_step env cfg st = Inl st'"
  shows "search_ok env cfg s0 st' \<and> found_depth cfg st' = n"
  using search_step_ok[of env cfg s0 st] assms by (simp add: step_ok_def)

lemma step_gives:
  assumes "search_ok env cfg s0 st \<and> found_depth cfg st = n" "search_step env cfg st = Inr r"
  shows "outcome_ok env s0 n (snd r)"
  using search_step_ok[of env cfg s0 st] assms by (auto simp: step_ok_def split: prod.splits)

lemma step_spends:
  assumes "search_ok env cfg s0 st \<and> found_depth cfg st = n \<and> branching env b \<and> narrow b st" "search_step env cfg st = Inl st'"
  shows "search_ok env cfg s0 st' \<and> found_depth cfg st' = n \<and> branching env b \<and> narrow b st'" "potential b cfg st' < potential b cfg st"
  using step_keeps[of env cfg s0 st n st'] search_step_spends[of env cfg s0 st st' b] assms by simp_all

interpretation tot: ending_loop "search_step env cfg"
    "\<lambda>st. search_ok env cfg s0 st \<and> found_depth cfg st = n \<and> branching env b \<and> narrow b st" "\<lambda>r. outcome_ok env s0 n (snd r)" "potential b cfg"
  for env cfg s0 n b
proof
  fix st r
  assume "search_ok env cfg s0 st \<and> found_depth cfg st = n \<and> branching env b \<and> narrow b st" "search_step env cfg st = Inr r"
  then show "outcome_ok env s0 n (snd r)" using step_gives[of env cfg s0 st n r] by simp
qed (rule step_spends; assumption)+

interpretation anytime: checked_loop "search_step env cfg" "\<lambda>st. search_ok env cfg s0 st \<and> found_depth cfg st = n" "\<lambda>r. outcome_ok env s0 n (snd r)"
  for env cfg s0 n
  by unfold_locales (rule step_keeps step_gives; assumption)+

text \<open>
  C13: \<open>solve\<close>, with any strategy and any language model, answers only with what the checker accepted for a state
  that at most \<open>max_depth\<close> answers of the generator lead to from the initial one, on timeout too.  The beam
  search, when it ends by itself, has not looked at the last level.
\<close>

theorem solutions_are_reachable:
  assumes "1 \<le> max_depth cfg" "solve env cfg limit s thought = Inr (Some x)"
  shows "\<exists>d t. d \<le> max_depth cfg \<and> reach env s d t \<and> check env t = Some x"
proof -
  let ?st = "start_search env cfg (new_engine s thought 0)"
  note ok = start_search_ok[OF assms(1), of env s thought 0]
  have inv: "search_ok env cfg s ?st \<and> found_depth cfg ?st = found_depth cfg ?st" using ok(1) by simp
  show ?thesis
  proof (cases "run_search env cfg limit ?st")
    case (Inl st)
    then have "x \<in> set (solutions (engine_of st))" using assms(2) by (auto simp: solve_def split: list.splits)
    then have "solution_ok env cfg s x" using anytime.loop_keeps[OF inv] Inl by (auto simp: run_search_def search_ok_def tree_ok_def)
    then show ?thesis by (auto simp: solution_ok_def)
  next
    case (Inr go)
    then obtain g where go: "go = (g, Found x)" using assms(2) by (auto simp: solve_def split: prod.splits outcome.splits)
    have "outcome_ok env s (found_depth cfg ?st) (Found x)" using anytime.loop_gives[OF inv] Inr go by (fastforce simp: run_search_def)
    then obtain d t where "d \<le> found_depth cfg ?st" "reach env s d t" "check env t = Some x" by (auto simp: outcome_ok_def)
    moreover have "found_depth cfg ?st \<le> max_depth cfg" using ok(2) by simp
    ultimately show ?thesis using order_trans by blast
  qed
qed

definition search_bound :: "nat \<Rightarrow> tot_config \<Rightarrow> nat" where
  "search_bound b cfg = (case search_strategy cfg of
     BEAM \<Rightarrow> (max_depth cfg - 1) * (beam_width cfg + 1) + 1 | MCTS \<Rightarrow> mcts_iterations cfg | _ \<Rightarrow> weight b (max_depth cfg))"

lemma start_potential:
  "potential b cfg (start_search env cfg (new_engine s th n)) = search_bound b cfg" "narrow b (start_search env cfg (new_engine s th n))"
  by (cases "search_strategy cfg"; simp add: start_search_def search_bound_def cost_start cost_def entry_of_def new_engine_def new_node_def bushy_def)+

text \<open>
  C30: a generator that never gives more than \<open>b\<close> candidates, \<open>max_depth\<close> and the other limits bound every search:
  after so many passes it has ended, whatever the language model answers, and the timeout cannot strike any more.
\<close>

theorem every_search_ends:
  assumes "1 \<le> max_depth cfg" "branching env b" "search_bound b cfg < limit"
  shows "\<exists>g out. run_search env cfg limit (start_search env cfg (new_engine s thought n)) = Inr (g, out)"
proof -
  let ?st = "start_search env cfg (new_engine s thought n)"
  have inv: "search_ok env cfg s ?st \<and> found_depth cfg ?st = found_depth cfg ?st \<and> branching env b \<and> narrow b ?st"
    by (intro conjI start_search_ok(1)[OF assms(1)] assms(2) start_potential(2) refl)
  have "potential b cfg ?st < limit" using assms(3) by (simp add: start_potential(1))
  then obtain r where "run_search env cfg limit ?st = Inr r" unfolding run_search_def using tot.loop_ends[OF inv] by blast
  then show ?thesis by (cases r) simp
qed

text \<open>A search for 5 by adding one or two.\<close>

definition sums_env :: "(nat, nat) tot_env" where
  "sums_env = \<lparr>generate = \<lambda>n st k path. Candidates [(st + 1, ''one''), (st + 2, ''two'')], evaluate = \<lambda>n st th. Inr (0, UNCERTAIN),
     check = \<lambda>st. if st = 5 then Some st else None, state_key = \<lambda>st. replicate st CHR ''x'', rank = \<lambda>n k. k, uuid = \<lambda>i. []\<rparr>"

definition sums_cfg :: tot_config where
  "sums_cfg = default_tot_config\<lparr>search_strategy := BFS, enable_parallel_expansion := False, max_depth := 3\<rparr>"

lemma run_search_bfs: "run_search env cfg n (In_Bfs st) = going_on In_Bfs (run_loop (bfs_step env cfg) n st)"
  unfolding run_search_def by (induction n arbitrary: st) (auto simp: going_on_def split: sum.split)

lemma demo_sums: "case run_loop (bfs_step sums_env sums_cfg) 40 (Bfs [0] (new_engine 0 [] 0)) of
    Inl st \<Rightarrow> False | Inr (g, out) \<Rightarrow> out = Found 5"
  by code_simp

lemma solve_sums: "solve sums_env sums_cfg 40 0 [] = Inr (Some 5)"
proof -
  have "start_search sums_env sums_cfg (new_engine 0 [] 0) = In_Bfs (Bfs [0] (new_engine 0 [] 0))"
    by (simp add: start_search_def sums_cfg_def)
  then show ?thesis using demo_sums by (auto simp: solve_def run_search_bfs going_on_def split: sum.splits prod.splits)
qed

lemma branching_sums: "branching sums_env 2"
  by (simp add: branching_def sums_env_def)

lemma solutions_are_reachable_witness: "\<exists>d t. d \<le> 3 \<and> reach sums_env 0 d t \<and> check sums_env t = Some 5"
  using solutions_are_reachable[OF _ solve_sums] by (simp add: sums_cfg_def default_tot_config_def)

lemma every_search_ends_witness: "\<exists>g out. run_search sums_env sums_cfg 30 (start_search sums_env sums_cfg (new_engine 0 [] 0)) = Inr (g, out)"
  by (rule every_search_ends[OF _ branching_sums]) (simp_all add: sums_cfg_def default_tot_config_def search_bound_def eval_nat_numeral)

end
