(* ===== verification/Conflicts.thy ===== *)
theory Conflicts
  imports Urls
begin

text \<open>
  \<open>sky_claw/local/xedit/conflict_analyzer.py\<close>: the lines of the conflict script, the severity of a
  record, the report grouped by plugin pairs, its summary and the suggestions.  The run of xEdit is a
  parameter.  A suggestion is a value with the numbers and names of its text.
\<close>

section \<open>Data\<close>

record record_conflict =
  form_id :: string
  editor_id :: string
  record_type :: string
  winner :: string
  losers :: "string list"
  severity :: string

record conflict_pair =
  plugin_a :: string
  plugin_b :: string
  pair_conflicts :: "record_conflict list"

record conflict_report =
  total_conflicts :: nat
  critical_conflicts :: nat
  plugin_pairs :: "conflict_pair list"
  report_summary :: string

definition count_severity :: "string \<Rightarrow> record_conflict list \<Rightarrow> nat" where
  "count_severity s cs = length (filter (\<lambda>c. severity c = s) cs)"

definition critical_count :: "conflict_pair \<Rightarrow> nat" where
  "critical_count p = count_severity ''critical'' (pair_conflicts p)"

definition warning_count :: "conflict_pair \<Rightarrow> nat" where
  "warning_count p = count_severity ''warning'' (pair_conflicts p)"

definition DEFAULT_CRITICAL_TYPES :: "string list" where
  "DEFAULT_CRITICAL_TYPES = [''NPC_'', ''QUST'', ''SCEN'', ''INFO'', ''PERK'', ''SPEL'', ''MGEF'', ''FACT'', ''DIAL'', ''PACK'']"

definition DEFAULT_WARNING_TYPES :: "string list" where
  "DEFAULT_WARNING_TYPES = [''CELL'', ''WRLD'', ''REFR'', ''ACHR'', ''NAVM'', ''LAND'', ''WEAP'', ''ARMO'', ''AMMO'',
     ''BOOK'', ''INGR'', ''ALCH'', ''MISC'', ''CONT'', ''DOOR'', ''LIGH'', ''STAT'', ''FLOR'', ''FURN'', ''LVLI'', ''LVLN'',
     ''LVSP'', ''ENCH'', ''OTFT'', ''RACE'', ''COBJ'', ''KYWD'']"

definition FULL_PLUGIN_LIMIT :: nat where
  "FULL_PLUGIN_LIMIT = 254"

definition LIGHT_PLUGIN_LIMIT :: nat where
  "LIGHT_PLUGIN_LIMIT = 4096"

section \<open>Lines\<close>

text \<open>\<open>str.splitlines\<close> on the first 256 code points; a carriage return takes a line feed after it along.\<close>

definition line_break :: "char \<Rightarrow> bool" where
  "line_break c \<longleftrightarrow> (let n = code c in 10 \<le> n \<and> n \<le> 13 \<or> 28 \<le> n \<and> n \<le> 30 \<or> n = 133)"

fun splitlines_from :: "string \<Rightarrow> string \<Rightarrow> string list" where
  "splitlines_from acc [] = (if acc = [] then [] else [rev acc])"
| "splitlines_from acc [c] = (if line_break c then [rev acc] else [rev (c # acc)])"
| "splitlines_from acc (c # d # cs) =
    (if code c = 13 \<and> code d = 10 then rev acc # splitlines_from [] cs
     else if line_break c then rev acc # splitlines_from [] (d # cs)
     else splitlines_from (c # acc) (d # cs))"

definition splitlines :: "string \<Rightarrow> string list" where
  "splitlines s = splitlines_from [] s"

definition BAR :: char where
  "BAR = CHR 0x7C"

text \<open>\<open>_FORMID_RE\<close> on a stripped text.\<close>

definition formid_ok :: "string \<Rightarrow> bool" where
  "formid_ok s \<longleftrightarrow> length s = 8 \<and> list_all hex_digit s"

definition parse_conflict_line :: "string \<Rightarrow> record_conflict option" where
  "parse_conflict_line raw =
    (let line = strip raw; ps = split_on BAR line in
     if \<not> starts_with (''CONFLICT'' @ [BAR]) line then None
     else if length ps < 6 then None
     else if \<not> formid_ok (strip (ps ! 1)) then None
     else Some \<lparr>form_id = strip (ps ! 1), editor_id = strip (ps ! 2), record_type = strip (ps ! 3),
       winner = strip (ps ! 4), losers = filter (\<lambda>e. e \<noteq> []) (map strip (split_on (CHR '','') (ps ! 5))),
       severity = ''info''\<rparr>)"

definition parse_conflict_lines :: "string \<Rightarrow> record_conflict list" where
  "parse_conflict_lines out = List.map_filter parse_conflict_line (splitlines out)"

text \<open>\<open>int(s)\<close>: an optional sign and digits with single underscores between them.\<close>

definition py_int :: "string \<Rightarrow> int option" where
  "py_int raw =
    (let s = strip raw;
         (sign, t) = (case s of [] \<Rightarrow> (1, []) | c # cs \<Rightarrow> if c = CHR ''-'' then (- 1, cs) else if c = CHR ''+'' then (1, cs) else (1, s));
         groups = split_on (CHR ''_'') t
     in if list_all (\<lambda>g. g \<noteq> [] \<and> list_all digit g) groups then Some (sign * int (str_nat (concat groups))) else None)"

definition parse_summary_line :: "string \<Rightarrow> (string, int) dict" where
  "parse_summary_line out =
    (case find (starts_with (''SUMMARY'' @ [BAR])) (map strip (splitlines out)) of
       None \<Rightarrow> []
     | Some line \<Rightarrow> foldl (\<lambda>d part. case partition_at (CHR ''='') part of
           (k, Some v) \<Rightarrow> (case py_int (strip v) of Some i \<Rightarrow> dset (strip k) i d | None \<Rightarrow> d)
         | (k, None) \<Rightarrow> d) [] (tl (split_on BAR line)))"

section \<open>Analysis\<close>

definition classify :: "string list \<Rightarrow> string list \<Rightarrow> string \<Rightarrow> string" where
  "classify critical warning rtype =
    (let sig = strip (upper rtype) in
     if sig \<in> set critical then ''critical'' else if sig \<in> set warning then ''warning'' else ''info'')"

definition pair_key :: "string \<Rightarrow> string \<Rightarrow> string \<times> string" where
  "pair_key w l = (if w < l then (w, l) else (l, w))"

text \<open>\<open>defaultdict(list)\<close> with \<open>append\<close>.\<close>

definition push :: "'k \<Rightarrow> 'v \<Rightarrow> ('k, 'v list) dict \<Rightarrow> ('k, 'v list) dict" where
  "push k v d = dset k (dget_or d k [] @ [v]) d"

definition pair_map :: "record_conflict list \<Rightarrow> (string \<times> string, record_conflict list) dict" where
  "pair_map cs = foldl (\<lambda>d c. foldl (\<lambda>d l. push (pair_key (winner c) l) c d) d (losers c)) [] cs"

definition group_by_pair :: "record_conflict list \<Rightarrow> conflict_pair list" where
  "group_by_pair cs = map (\<lambda>((a, b), xs). \<lparr>plugin_a = a, plugin_b = b, pair_conflicts = xs\<rparr>)
     (sort_key (\<lambda>x. - int (length (snd x))) (pair_map cs))"

definition build_summary :: "nat \<Rightarrow> nat \<Rightarrow> conflict_pair list \<Rightarrow> string" where
  "build_summary n_total critical pairs =
    (if n_total = 0 then ''No record-level conflicts detected between loaded plugins.''
     else join '' '' ([''Found '' @ nat_str n_total @ '' record-level conflict(s) ('' @ nat_str critical @ '' critical).'']
       @ (case pairs of [] \<Rightarrow> [] | p # _ \<Rightarrow> [''Most conflicting pair: '' @ plugin_a p @ '' vs '' @ plugin_b p @ '' (''
            @ nat_str (length (pair_conflicts p)) @ '' conflicts, '' @ nat_str (critical_count p) @ '' critical).''])
       @ (if critical > 0 then [''Critical conflicts (NPC, quests, scripts) should be resolved with compatibility patches to avoid crashes.'']
          else [])))"

definition build_report :: "string list \<Rightarrow> string list \<Rightarrow> record_conflict list \<Rightarrow> conflict_report" where
  "build_report critical warning raw =
    (let classified = map (\<lambda>c. c\<lparr>severity := classify critical warning (record_type c)\<rparr>) raw;
         pairs = group_by_pair classified;
         n = count_severity ''critical'' classified
     in \<lparr>total_conflicts = length classified, critical_conflicts = n, plugin_pairs = pairs,
         report_summary = build_summary (length classified) n pairs\<rparr>)"

text \<open>\<open>run_script\<close> gives the standard output or raises.\<close>

definition analyze ::
  "string list \<Rightarrow> string list \<Rightarrow> (string \<Rightarrow> string list \<Rightarrow> 'e + string) \<Rightarrow> string list \<Rightarrow> 'e + conflict_report" where
  "analyze critical warning run_script plugins =
    (case run_script ''list_all_conflicts.pas'' plugins of
       Inl e \<Rightarrow> Inl e
     | Inr out \<Rightarrow> Inr (build_report critical warning (parse_conflict_lines out)))"

text \<open>\<open>verify_masters\<close>: the errors of the script, or the text of what it raised.\<close>

definition verify_masters :: "(string \<Rightarrow> string list \<Rightarrow> string + bool \<times> string list) \<Rightarrow> string list \<Rightarrow> string list" where
  "verify_masters run_script plugins =
    (case run_script ''check_masters.pas'' plugins of
       Inl e \<Rightarrow> [e]
     | Inr (success, errors) \<Rightarrow> if \<not> success then map (\<lambda>e. ''Error verifying masters: '' @ e) errors else [])"

definition plugin_suffix :: "string list \<Rightarrow> string \<Rightarrow> bool" where
  "plugin_suffix exts p \<longleftrightarrow> list_ex (\<lambda>e. ends_with e (lower p)) exts"

datatype limit_error = Full_Limit nat | Light_Limit nat

definition validate_load_order_limit :: "string list \<Rightarrow> limit_error + unit" where
  "validate_load_order_limit plugins =
    (let full = length (filter (plugin_suffix [''.esp'', ''.esm'']) plugins);
         light = length (filter (plugin_suffix [''.esl'']) plugins) in
     if full > FULL_PLUGIN_LIMIT then Inl (Full_Limit full)
     else if light > LIGHT_PLUGIN_LIMIT then Inl (Light_Limit light)
     else Inr ())"

section \<open>Suggestions\<close>

datatype suggestion =
    Clean_Load_Order
  | Npc_Conflicts nat
  | Quest_Conflicts nat
  | Cell_Conflicts nat
  | Leveled_Conflicts nat
  | Heavy_Pair string string nat nat
  | Minor_Conflicts nat

definition flat_conflicts :: "conflict_report \<Rightarrow> record_conflict list" where
  "flat_conflicts r = concat (map pair_conflicts (plugin_pairs r))"

definition type_count :: "conflict_report \<Rightarrow> string list \<Rightarrow> nat" where
  "type_count r ts = length (filter (\<lambda>c. record_type c \<in> set ts) (flat_conflicts r))"

definition suggest_resolution :: "conflict_report \<Rightarrow> suggestion list" where
  "suggest_resolution r =
    (if total_conflicts r = 0 then [Clean_Load_Order]
     else
       let npc = type_count r [''NPC_'']; quest = type_count r [''QUST'', ''SCEN'', ''INFO''];
           cell = type_count r [''CELL'', ''WRLD'']; ll = type_count r [''LVLI'', ''LVLN'', ''LVSP''];
           ss = (if npc > 0 then [Npc_Conflicts npc] else []) @ (if quest > 0 then [Quest_Conflicts quest] else [])
             @ (if cell > 0 then [Cell_Conflicts cell] else []) @ (if ll > 0 then [Leveled_Conflicts ll] else [])
             @ map (\<lambda>p. Heavy_Pair (plugin_a p) (plugin_b p) (length (pair_conflicts p)) (critical_count p))
                 (filter (\<lambda>p. 10 \<le> length (pair_conflicts p)) (plugin_pairs r));
           info = count_severity ''info'' (flat_conflicts r)
       in ss @ (if info > 0 \<and> ss = [] then [Minor_Conflicts info] else []))"

section \<open>Grouping\<close>

text \<open>What the pairs are made of: each conflict once for each of its losers, under the ordered pair.\<close>

definition occurrences :: "record_conflict list \<Rightarrow> ((string \<times> string) \<times> record_conflict) list" where
  "occurrences cs = concat (map (\<lambda>c. map (\<lambda>l. (pair_key (winner c) l, c)) (losers c)) cs)"

lemma pair_map_fold: "pair_map cs = foldl (\<lambda>d (k, c). push k c d) [] (occurrences cs)"
proof -
  have inner: "foldl (\<lambda>d l. push (pair_key (winner c) l) c d) d ls
      = foldl (\<lambda>d (k, c). push k c d) d (map (\<lambda>l. (pair_key (winner c) l, c)) ls)" for c d ls
    by (induction ls arbitrary: d) simp_all
  have "foldl (\<lambda>d c. foldl (\<lambda>d l. push (pair_key (winner c) l) c d) d (losers c)) d cs
      = foldl (\<lambda>d (k, c). push k c d) d (occurrences cs)" for d
    by (induction cs arbitrary: d) (simp_all add: occurrences_def inner)
  then show ?thesis by (simp add: pair_map_def)
qed

lemma push_fold:
  assumes "distinct (keys d)"
  shows "distinct (keys (foldl (\<lambda>d (k, c). push k c d) d xs))
    \<and> dget_or (foldl (\<lambda>d (k, c). push k c d) d xs) k [] = dget_or d k [] @ map snd (filter (\<lambda>x. fst x = k) xs)
    \<and> set (keys (foldl (\<lambda>d (k, c). push k c d) d xs)) = set (keys d) \<union> fst ` set xs"
  using assms
proof (induction xs arbitrary: d)
  case (Cons x xs)
  obtain k' c where x: "x = (k', c)" by fastforce
  have "distinct (keys (push k' c d))" using Cons.prems by (simp add: push_def)
  moreover have "dget_or (push k' c d) k [] = dget_or d k [] @ (if k' = k then [c] else [])"
    by (simp add: push_def dget_or_def)
  moreover have "set (keys (push k' c d)) = insert k' (set (keys d))" unfolding push_def by (rule set_keys_dset)
  ultimately show ?case using Cons.IH[of "push k' c d"] by (simp add: x)
qed simp

lemma pair_map_get:
  "distinct (keys (pair_map cs))"
  "dget_or (pair_map cs) k [] = map snd (filter (\<lambda>x. fst x = k) (occurrences cs))"
  "set (keys (pair_map cs)) = fst ` set (occurrences cs)"
  using push_fold[of "[]" "occurrences cs" k] by (simp_all add: pair_map_fold dget_or_def)

lemma total_of_groups:
  assumes "distinct (keys d)"
  shows "sum_list (map (\<lambda>x. length (dget_or d (fst x) [])) d) = sum_list (map (length \<circ> snd) d)"
proof -
  have "length (dget_or d (fst x) []) = length (snd x)" if "x \<in> set d" for x
    using in_set_dget[OF assms, of "fst x" "snd x"] that by (simp add: dget_or_def)
  then show ?thesis by (metis (mono_tags, lifting) comp_apply map_eq_conv)
qed

lemma indicator_sum:
  "k \<notin> set ks \<Longrightarrow> sum_list (map (\<lambda>j. if k = j then 1 else 0) ks) = (0::nat)"
  "distinct ks \<Longrightarrow> k \<in> set ks \<Longrightarrow> sum_list (map (\<lambda>j. if k = j then 1 else 0) ks) = (1::nat)"
  by (induction ks) auto

lemma count_by_key:
  "distinct ks \<Longrightarrow> fst ` set xs \<subseteq> set ks \<Longrightarrow> sum_list (map (\<lambda>k. length (filter (\<lambda>x. fst x = k) xs)) ks) = length xs"
proof (induction xs)
  case (Cons x xs)
  have "sum_list (map (\<lambda>k. length (filter (\<lambda>y. fst y = k) (x # xs))) ks)
      = sum_list (map (\<lambda>k. (if fst x = k then 1 else 0) + length (filter (\<lambda>y. fst y = k) xs)) ks)"
    by (intro arg_cong[where f = sum_list] map_cong) auto
  also have "\<dots> = sum_list (map (\<lambda>k. if fst x = k then 1 else 0) ks) + length xs"
    using Cons by (simp add: sum_list_addf)
  also have "sum_list (map (\<lambda>k. if fst x = k then 1 else (0::nat)) ks) = 1"
    using Cons.prems by (intro indicator_sum(2)) auto
  finally show ?case by simp
qed (induction ks, simp_all)

definition classified :: "string list \<Rightarrow> string list \<Rightarrow> record_conflict list \<Rightarrow> record_conflict list" where
  "classified critical warning raw = map (\<lambda>c. c\<lparr>severity := classify critical warning (record_type c)\<rparr>) raw"

definition pair_of :: "conflict_pair \<Rightarrow> string \<times> string" where
  "pair_of p = (plugin_a p, plugin_b p)"

lemma group_fields:
  "map pair_of (group_by_pair cs) = keys (sort_key (\<lambda>x. - int (length (snd x))) (pair_map cs))"
  "map pair_conflicts (group_by_pair cs) = map snd (sort_key (\<lambda>x. - int (length (snd x))) (pair_map cs))"
  by (simp_all add: group_by_pair_def pair_of_def comp_def case_prod_unfold)

lemma group_distinct: "distinct (map pair_of (group_by_pair cs))"
proof -
  let ?f = "\<lambda>x. - int (length (snd x))"
  have "mset (keys (sort_key ?f (pair_map cs))) = mset (keys (pair_map cs))" by (simp add: mset_map mset_sort)
  then show ?thesis unfolding group_fields using pair_map_get(1) mset_eq_imp_distinct_iff by blast
qed

lemma group_member:
  assumes "p \<in> set (group_by_pair cs)"
  shows "pair_conflicts p = map snd (filter (\<lambda>x. fst x = pair_of p) (occurrences cs))" and "pair_conflicts p \<noteq> []"
proof -
  obtain x where x: "x \<in> set (pair_map cs)" and p: "pair_of p = fst x" "pair_conflicts p = snd x"
    using assms by (auto simp: group_by_pair_def pair_of_def)
  have "dget (pair_map cs) (fst x) = Some (snd x)" using in_set_dget[OF pair_map_get(1), of "fst x" "snd x"] x by simp
  then show eq: "pair_conflicts p = map snd (filter (\<lambda>x. fst x = pair_of p) (occurrences cs))"
    using pair_map_get(2)[of cs "fst x"] p by (simp add: dget_or_def)
  have "fst x \<in> fst ` set (occurrences cs)" using x pair_map_get(3)[of cs] by force
  then show "pair_conflicts p \<noteq> []" unfolding eq p(1) by (force simp: filter_empty_conv)
qed

lemma group_covers: "x \<in> set (occurrences cs) \<Longrightarrow> fst x \<in> set (map pair_of (group_by_pair cs))"
  unfolding group_fields using pair_map_get(3)[of cs] by (metis image_eqI set_map set_sort)

lemma group_sorted: "sorted_wrt (\<ge>) (map (length \<circ> pair_conflicts) (group_by_pair cs))"
proof -
  let ?f = "\<lambda>x. - int (length (snd x))"
  have "sorted (map ?f (sort_key ?f (pair_map cs)))" by simp
  then have "sorted_wrt (\<lambda>a b. length (snd b) \<le> length (snd a)) (sort_key ?f (pair_map cs))"
    by (simp add: sorted_map)
  then have "sorted_wrt (\<ge>) (map length (map snd (sort_key ?f (pair_map cs))))" by (simp add: sorted_wrt_map)
  then show ?thesis by (simp add: group_fields(2)[symmetric] sorted_wrt_map)
qed

lemma group_sum: "sum_list (map (length \<circ> pair_conflicts) (group_by_pair cs)) = length (occurrences cs)"
proof -
  let ?d = "pair_map cs" and ?f = "\<lambda>x. - int (length (snd x))"
  have "sum_list (map (length \<circ> pair_conflicts) (group_by_pair cs)) = sum_list (map length (map pair_conflicts (group_by_pair cs)))"
    by simp
  also have "\<dots> = sum_mset (mset (map (length \<circ> snd) (sort_key ?f ?d)))"
    unfolding group_fields sum_mset_sum_list by simp
  also have "\<dots> = sum_mset (mset (map (length \<circ> snd) ?d))" by (simp only: mset_map mset_sort)
  also have "\<dots> = sum_list (map (length \<circ> snd) ?d)" by (simp only: sum_mset_sum_list)
  also have "\<dots> = sum_list (map (\<lambda>x. length (dget_or ?d (fst x) [])) ?d)" by (rule total_of_groups[OF pair_map_get(1), symmetric])
  also have "\<dots> = sum_list (map (\<lambda>k. length (filter (\<lambda>x. fst x = k) (occurrences cs))) (keys ?d))"
    by (simp add: pair_map_get(2) comp_def)
  also have "\<dots> = length (occurrences cs)"
    by (rule count_by_key[OF pair_map_get(1)]) (simp only: pair_map_get(3) order_refl)
  finally show ?thesis .
qed

lemma occurrences_length: "length (occurrences cs) = sum_list (map (length \<circ> losers) cs)"
  by (induction cs) (simp_all add: occurrences_def)

text \<open>
  The report groups the conflicts faithfully: the plugin pairs are distinct and sorted by falling
  number of conflicts; each holds, in order, exactly the conflicts of those two plugins, once for each
  losing plugin; together they hold one entry per loser, so a record with several losers is in several
  pairs and one without losers in none, while the totals count each record once.
\<close>

theorem report_groups_conflicts:
  "let r = build_report critical warning raw; cs = classified critical warning raw; pairs = plugin_pairs r in
     distinct (map pair_of pairs)
   \<and> sorted_wrt (\<ge>) (map (length \<circ> pair_conflicts) pairs)
   \<and> (\<forall>p \<in> set pairs. pair_conflicts p = map snd (filter (\<lambda>x. fst x = pair_of p) (occurrences cs)) \<and> pair_conflicts p \<noteq> [])
   \<and> (\<forall>x \<in> set (occurrences cs). fst x \<in> set (map pair_of pairs))
   \<and> length (flat_conflicts r) = sum_list (map (length \<circ> losers) raw)
   \<and> total_conflicts r = length raw \<and> critical_conflicts r = count_severity ''critical'' cs"
proof -
  let ?cs = "classified critical warning raw"
  have pairs: "plugin_pairs (build_report critical warning raw) = group_by_pair ?cs"
    "total_conflicts (build_report critical warning raw) = length raw"
    "critical_conflicts (build_report critical warning raw) = count_severity ''critical'' ?cs"
    by (simp_all add: build_report_def Let_def classified_def)
  have "length (flat_conflicts (build_report critical warning raw)) = sum_list (map (length \<circ> losers) ?cs)"
    unfolding flat_conflicts_def pairs(1) length_concat map_map group_sum occurrences_length ..
  also have "\<dots> = sum_list (map (length \<circ> losers) raw)" by (simp add: classified_def comp_def)
  finally show ?thesis unfolding Let_def pairs
    using group_distinct group_sorted group_member group_covers by blast
qed

definition demo_conflict :: "string \<Rightarrow> string \<Rightarrow> string list \<Rightarrow> record_conflict" where
  "demo_conflict t w ls = \<lparr>form_id = ''00000001'', editor_id = [], record_type = t, winner = w, losers = ls, severity = ''info''\<rparr>"

theorem report_groups_conflicts_witness:
  "length (flat_conflicts (build_report DEFAULT_CRITICAL_TYPES DEFAULT_WARNING_TYPES
     [demo_conflict ''NPC_'' ''B'' [''A'', ''C''], demo_conflict ''LVLI'' ''B'' []])) = 2"
proof -
  let ?raw = "[demo_conflict ''NPC_'' ''B'' [''A'', ''C''], demo_conflict ''LVLI'' ''B'' []]"
  have "length (flat_conflicts (build_report DEFAULT_CRITICAL_TYPES DEFAULT_WARNING_TYPES ?raw)) = sum_list (map (length \<circ> losers) ?raw)"
    using report_groups_conflicts[of DEFAULT_CRITICAL_TYPES DEFAULT_WARNING_TYPES ?raw] unfolding Let_def by blast
  then show ?thesis by (simp add: demo_conflict_def)
qed

section \<open>The conflict lines\<close>

text \<open>The line the Pascal script prints for a conflict, and the fields for which it can be read back.\<close>

definition print_conflict :: "record_conflict \<Rightarrow> string" where
  "print_conflict c = join [BAR] [''CONFLICT'', form_id c, editor_id c, record_type c, winner c, join '','' (losers c)]"

definition clean_field :: "string \<Rightarrow> bool" where
  "clean_field s \<longleftrightarrow> strip s = s \<and> BAR \<notin> set s \<and> list_all (\<lambda>c. \<not> line_break c) s"

definition printable_conflict :: "record_conflict \<Rightarrow> bool" where
  "printable_conflict c \<longleftrightarrow> formid_ok (form_id c) \<and> clean_field (form_id c) \<and> clean_field (editor_id c)
    \<and> clean_field (record_type c) \<and> clean_field (winner c) \<and> losers c \<noteq> []
    \<and> list_all (\<lambda>l. clean_field l \<and> l \<noteq> [] \<and> CHR '','' \<notin> set l) (losers c) \<and> severity c = ''info''"

definition NL :: string where
  "NL = [char_of (10::nat)]"

lemma split_join: "ws \<noteq> [] \<Longrightarrow> list_all (\<lambda>w. c \<notin> set w) ws \<Longrightarrow> split_on c (join [c] ws) = ws"
  by (induction "[c]" ws rule: join.induct) (simp_all add: split_on_word)

lemma last_join: "ws \<noteq> [] \<Longrightarrow> last ws \<noteq> [] \<Longrightarrow> last (join sep ws) = last (last ws) \<and> join sep ws \<noteq> []"
  by (induction sep ws rule: join.induct) auto

lemma set_join: "c \<in> set (join sep ws) \<Longrightarrow> c \<in> set sep \<or> (\<exists>w \<in> set ws. c \<in> set w)"
  by (induction sep ws rule: join.induct) auto

lemma parse_print_conflict:
  assumes "printable_conflict c"
  shows "parse_conflict_line (print_conflict c) = Some c"
proof -
  let ?fs = "[''CONFLICT'', form_id c, editor_id c, record_type c, winner c, join '','' (losers c)]"
  have ls: "losers c \<noteq> []" "\<forall>l \<in> set (losers c). clean_field l \<and> l \<noteq> [] \<and> CHR '','' \<notin> set l"
    using assms by (simp_all add: printable_conflict_def list_all_iff)
  have comma: "BAR \<noteq> CHR '',''" by (simp add: BAR_def)
  have "BAR \<notin> set (join '','' (losers c))"
    using set_join[of BAR "'',''" "losers c"] ls(2) comma by (auto simp: clean_field_def)
  then have bars: "list_all (\<lambda>w. BAR \<notin> set w) ?fs"
    using assms by (simp add: printable_conflict_def clean_field_def BAR_def)
  have sp: "split_on BAR (print_conflict c) = ?fs"
    unfolding print_conflict_def by (rule split_join[OF _ bars]) simp
  have "last (losers c) \<in> set (losers c)" using ls(1) by simp
  then have ll: "last (losers c) \<noteq> []" "\<not> is_space (last (last (losers c)))"
    using ls(2) strip_last[of "last (losers c)"] by (auto simp: clean_field_def)
  have lj: "last (join '','' (losers c)) = last (last (losers c))" "join '','' (losers c) \<noteq> []"
    using last_join[OF ls(1) ll(1)] by auto
  have pre: "print_conflict c = ''CONFLICT'' @ [BAR] @ form_id c @ [BAR] @ editor_id c @ [BAR] @ record_type c @ [BAR]
      @ winner c @ [BAR] @ join '','' (losers c)"
    by (simp add: print_conflict_def)
  have st: "strip (print_conflict c) = print_conflict c"
  proof (rule strip_id)
    show "print_conflict c \<noteq> []" unfolding pre by simp
    show "\<not> is_space (hd (print_conflict c))" unfolding pre by (simp add: is_space_def code_def)
    show "\<not> is_space (last (print_conflict c))" unfolding pre using lj ll(2) by simp
  qed
  have start: "starts_with (''CONFLICT'' @ [BAR]) (print_conflict c)" unfolding pre starts_with_iff by simp
  have "split_on (CHR '','') (join '','' (losers c)) = losers c"
    by (rule split_join) (use ls in \<open>auto simp: list_all_iff\<close>)
  moreover have "map strip (losers c) = losers c" using ls(2) by (auto intro: map_idI simp: clean_field_def)
  moreover have "filter (\<lambda>e. e \<noteq> []) (losers c) = losers c" using ls(2) by (auto simp: filter_id_conv)
  ultimately show ?thesis
    using assms unfolding parse_conflict_line_def st Let_def sp
    using start[simplified] by (simp add: printable_conflict_def clean_field_def)
qed

lemma splitlines_one:
  "list_all (\<lambda>c. \<not> line_break c) w \<Longrightarrow> splitlines_from acc (w @ NL @ rest) = (rev acc @ w) # splitlines_from [] rest"
proof (induction w arbitrary: acc)
  case Nil
  have "line_break (char_of (10::nat))" "code (char_of (10::nat)) \<noteq> 13" by (simp_all add: line_break_def code_def)
  then show ?case by (cases rest) (simp_all add: NL_def)
next
  case (Cons c w)
  have nb: "\<not> line_break c" using Cons.prems by simp
  then have n13: "code c \<noteq> 13" by (auto simp: line_break_def)
  obtain d cs where d: "w @ NL @ rest = d # cs" by (cases w) (auto simp: NL_def)
  have "splitlines_from acc ((c # w) @ NL @ rest) = splitlines_from (c # acc) (w @ NL @ rest)"
    unfolding append_Cons d using nb n13 by simp
  then show ?case using Cons by simp
qed

lemma print_no_break: "printable_conflict c \<Longrightarrow> list_all (\<lambda>x. \<not> line_break x) (print_conflict c)"
  unfolding list_all_iff
proof
  fix x assume p: "printable_conflict c" and x: "x \<in> set (print_conflict c)"
  let ?ok = "\<lambda>s. \<forall>x \<in> set s. \<not> line_break x"
  have "\<not> line_break BAR" "?ok ''CONFLICT''" "\<not> line_break (CHR '','')" by (simp_all add: line_break_def BAR_def code_def)
  moreover have "?ok (join '','' (losers c))"
    using set_join[of _ "'',''" "losers c"] p calculation(3) by (fastforce simp: printable_conflict_def clean_field_def list_all_iff)
  ultimately show "\<not> line_break x"
    using set_join[of x "[BAR]" "[''CONFLICT'', form_id c, editor_id c, record_type c, winner c, join '','' (losers c)]"] x p
    by (auto simp: print_conflict_def printable_conflict_def clean_field_def list_all_iff)
qed

text \<open>
  The script's output is read back without loss: any number of conflicts printed one per line, of
  which the fields are trimmed and free of bars, line breaks and (in plugin names) commas, give exactly
  those conflicts in order.
\<close>

theorem conflict_lines_round_trip:
  assumes "list_all printable_conflict cs"
  shows "parse_conflict_lines (concat (map (\<lambda>c. print_conflict c @ NL) cs)) = cs"
proof -
  have "splitlines_from [] (concat (map (\<lambda>c. print_conflict c @ NL) cs)) = map print_conflict cs"
    using assms by (induction cs) (simp_all add: splitlines_one print_no_break)
  moreover have "List.map_filter parse_conflict_line (map print_conflict cs) = cs"
    using assms by (induction cs) (simp_all add: List.map_filter_simps parse_print_conflict)
  ultimately show ?thesis by (simp add: parse_conflict_lines_def splitlines_def)
qed

theorem conflict_lines_round_trip_witness:
  "parse_conflict_lines (concat (map (\<lambda>c. print_conflict c @ NL) [demo_conflict ''NPC_'' ''B.esp'' [''A.esp'', ''C.esp'']]))
    = [demo_conflict ''NPC_'' ''B.esp'' [''A.esp'', ''C.esp'']]"
proof -
  have "printable_conflict (demo_conflict ''NPC_'' ''B.esp'' [''A.esp'', ''C.esp''])"
    by (simp add: printable_conflict_def demo_conflict_def formid_ok_def hex_digit_def digit_def less_eq_char_def
        clean_field_def strip_def is_space_def code_def line_break_def BAR_def Let_def)
  then show ?thesis by (intro conflict_lines_round_trip) simp
qed

section \<open>The plugin limits\<close>

text \<open>
  The load order is accepted exactly up to 254 full and 4096 light plugins; files of any other
  ending do not count, and no file counts twice.
\<close>

theorem load_order_limits_exact:
  "(validate_load_order_limit plugins = Inr ()
    \<longleftrightarrow> length (filter (plugin_suffix [''.esp'', ''.esm'']) plugins) \<le> 254
      \<and> length (filter (plugin_suffix [''.esl'']) plugins) \<le> 4096)
   \<and> \<not> (plugin_suffix [''.esp'', ''.esm''] p \<and> plugin_suffix [''.esl''] p)"
proof -
  have no: "\<not> (ends_with a s \<and> ends_with b s)" if "length a = length b" "a \<noteq> b" for a b s
    using that by (auto simp: ends_with_iff)
  have "\<not> (plugin_suffix [''.esp'', ''.esm''] p \<and> plugin_suffix [''.esl''] p)"
    using no[of "''.esp''" "''.esl''" "lower p"] no[of "''.esm''" "''.esl''" "lower p"] by (simp add: plugin_suffix_def) blast
  then show ?thesis
    by (auto simp: validate_load_order_limit_def FULL_PLUGIN_LIMIT_def LIGHT_PLUGIN_LIMIT_def Let_def)
qed

end
