(* ===== verification/Patch_Plans.thy ===== *)
theory Patch_Plans
  imports Conflicts
begin

text \<open>
  \<open>sky_claw/local/xedit/patch_orchestrator.py\<close>: the two strategies, the choice between them and the
  result \<open>resolve\<close> reports.  A strategy object is a record of its class name, its priority and its two
  methods; a call that raises is an \<open>Inl\<close>.  The sets of plugin names are sorted lists.
\<close>

section \<open>Data\<close>

datatype patch_error =
    Selection_Error string
  | Generation_Error string
  | Patching_Error string
  | Other_Error string

datatype patch_kind = Merged_Patch | Xedit_Script | Forward_Declaration

record patch_plan =
  plan_kind :: patch_kind
  target_plugins :: "string list"
  output_plugin :: string
  plan_form_ids :: "string list"
  estimated_records :: nat
  requires_hitl :: bool
  script_path :: "(string \<times> string) option"

record patch_result =
  success :: bool
  output_path :: "string option"
  records_patched :: nat
  conflicts_resolved :: nat
  xedit_exit_code :: int
  warnings :: "string list"
  patch_error :: "patch_error option"

record strategy =
  strategy_class :: string
  get_priority :: int
  can_handle :: "record_conflict \<Rightarrow> patch_error + bool"
  create_plan :: "record_conflict list \<Rightarrow> patch_error + patch_plan"

section \<open>The strategies\<close>

definition HANDLED_TYPES :: "string list" where
  "HANDLED_TYPES = [''LVLI'', ''LVLN'', ''LVSP'']"

definition leveled :: "record_conflict \<Rightarrow> bool" where
  "leveled c \<longleftrightarrow> upper (record_type c) \<in> set HANDLED_TYPES"

definition critical :: "record_conflict \<Rightarrow> bool" where
  "critical c \<longleftrightarrow> severity c = ''critical''"

definition involved_plugins :: "record_conflict list \<Rightarrow> string list" where
  "involved_plugins cs = sort (remdups (concat (map (\<lambda>c. winner c # losers c) cs)))"

definition merged_plan :: "record_conflict list \<Rightarrow> patch_error + patch_plan" where
  "merged_plan cs =
    (if cs = [] then Inl (Generation_Error ''Cannot create plan: no conflicts provided'')
     else let valid = filter leveled cs in
     if valid = [] then Inl (Generation_Error ''No leveled list conflicts found in provided list'')
     else Inr \<lparr>plan_kind = Merged_Patch, target_plugins = involved_plugins valid,
       output_plugin = ''SkyClaw_MergedPatch.esp'', plan_form_ids = map form_id valid,
       estimated_records = length valid, requires_hitl = length (remdups (map winner valid)) > 3, script_path = None\<rparr>)"

definition create_merged_patch :: strategy where
  "create_merged_patch = \<lparr>strategy_class = ''CreateMergedPatch'', get_priority = 10,
     can_handle = (\<lambda>c. Inr (leveled c)), create_plan = merged_plan\<rparr>"

definition select_script_for_conflicts :: "record_conflict list \<Rightarrow> string" where
  "select_script_for_conflicts cs =
    (let types = map (\<lambda>c. upper (record_type c)) cs in
     if ''NPC_'' \<in> set types then ''fix_npc_conflicts.pas''
     else if ''QUST'' \<in> set types then ''fix_quest_conflicts.pas''
     else if ''SCPT'' \<in> set types then ''fix_script_conflicts.pas''
     else ''fix_critical_conflicts.pas'')"

definition script_plan :: "string \<Rightarrow> record_conflict list \<Rightarrow> patch_error + patch_plan" where
  "script_plan scripts_dir cs =
    (if cs = [] then Inl (Generation_Error ''Cannot create plan: no conflicts provided'')
     else let crit = filter critical cs in
     if crit = [] then Inl (Generation_Error ''No critical conflicts found in provided list'')
     else Inr \<lparr>plan_kind = Xedit_Script, target_plugins = involved_plugins crit,
       output_plugin = ''SkyClaw_CriticalPatch.esp'', plan_form_ids = map form_id crit,
       estimated_records = length crit, requires_hitl = True,
       script_path = Some (scripts_dir, select_script_for_conflicts crit)\<rparr>)"

definition execute_xedit_script :: "string \<Rightarrow> strategy" where
  "execute_xedit_script scripts_dir = \<lparr>strategy_class = ''ExecuteXEditScript'', get_priority = 20,
     can_handle = (\<lambda>c. Inr (critical c)), create_plan = script_plan scripts_dir\<rparr>"

section \<open>The orchestrator\<close>

definition by_priority :: "strategy list \<Rightarrow> strategy list" where
  "by_priority ss = sort_key (\<lambda>s. - get_priority s) ss"

definition default_strategies :: "strategy list" where
  "default_strategies = [execute_xedit_script ''.'', create_merged_patch]"

text \<open>The constructor's \<open>strategies or self._default_strategies()\<close>, sorted.\<close>

definition new_orchestrator :: "strategy list option \<Rightarrow> strategy list" where
  "new_orchestrator given = by_priority (case given of Some (s # ss) \<Rightarrow> s # ss | _ \<Rightarrow> default_strategies)"

fun select_strategy :: "strategy list \<Rightarrow> record_conflict \<Rightarrow> patch_error + strategy" where
  "select_strategy [] c = Inl (Selection_Error (''No strategy found for conflict: form_id='' @ form_id c @
     '', record_type='' @ record_type c @ '', severity='' @ severity c))"
| "select_strategy (s # ss) c = (if can_handle s c = Inr True then Inr s else select_strategy ss c)"

fun score :: "strategy \<Rightarrow> record_conflict list \<Rightarrow> patch_error + nat" where
  "score s [] = Inr 0"
| "score s (c # cs) = (case can_handle s c of
     Inl e \<Rightarrow> Inl e
   | Inr b \<Rightarrow> (case score s cs of Inl e \<Rightarrow> Inl e | Inr n \<Rightarrow> Inr (if b then n + 1 else n)))"

text \<open>The dict of scores has the class name as its key.\<close>

fun score_all :: "strategy list \<Rightarrow> record_conflict list \<Rightarrow> (string, nat) dict \<Rightarrow> patch_error + (string, nat) dict" where
  "score_all [] cs d = Inr d"
| "score_all (s # ss) cs d = (case score s cs of
     Inl e \<Rightarrow> Inl e
   | Inr n \<Rightarrow> score_all ss cs (dset (strategy_class s) n d))"

fun pick_best :: "(string, nat) dict \<Rightarrow> strategy list \<Rightarrow> strategy option \<times> nat \<Rightarrow> strategy option \<times> nat" where
  "pick_best d [] best = best"
| "pick_best d (s # ss) best =
    (let n = dget_or d (strategy_class s) 0 in pick_best d ss (if n > snd best then (Some s, n) else best))"

definition select_best_strategy :: "strategy list \<Rightarrow> record_conflict list \<Rightarrow> patch_error + strategy" where
  "select_best_strategy ss cs =
    (if cs = [] then Inl (Selection_Error ''No conflicts provided'')
     else case score_all ss cs [] of
       Inl e \<Rightarrow> Inl e
     | Inr d \<Rightarrow> (case pick_best d ss (None, 0) of
         (Some s, n) \<Rightarrow> Inr s
       | (None, n) \<Rightarrow> Inl (Selection_Error (''No strategy can handle any of the '' @ nat_str (length cs) @ '' conflicts''))))"

definition failed_result :: "patch_error \<Rightarrow> patch_result" where
  "failed_result e = \<lparr>success = False, output_path = None, records_patched = 0, conflicts_resolved = 0,
     xedit_exit_code = -1, warnings = [], patch_error = Some e\<rparr>"

text \<open>An exception that is no \<open>PatchingError\<close> leaves \<open>resolve\<close>.\<close>

definition resolve :: "strategy list \<Rightarrow> conflict_report \<Rightarrow> string + patch_result" where
  "resolve ss r =
    (if total_conflicts r = 0 then Inr \<lparr>success = True, output_path = None, records_patched = 0,
       conflicts_resolved = 0, xedit_exit_code = 0, warnings = [''No conflicts to resolve''], patch_error = None\<rparr>
     else let cs = flat_conflicts r in
     case (case select_best_strategy ss cs of Inl e \<Rightarrow> Inl e | Inr s \<Rightarrow> create_plan s cs) of
       Inl (Other_Error e) \<Rightarrow> Inl e
     | Inl e \<Rightarrow> Inr (failed_result e)
     | Inr p \<Rightarrow> Inr \<lparr>success = True, output_path = Some (output_plugin p), records_patched = estimated_records p,
         conflicts_resolved = length cs, xedit_exit_code = 0,
         warnings = (if requires_hitl p then [''Requires Human-in-the-Loop review''] else []), patch_error = None\<rparr>)"

definition add_strategy :: "strategy \<Rightarrow> strategy list \<Rightarrow> strategy list" where
  "add_strategy s ss = by_priority (ss @ [s])"

text \<open>\<open>isinstance(_, strategy_type)\<close> is the test \<open>inst\<close> of the subclass relation.\<close>

fun remove_strategy :: "(strategy \<Rightarrow> bool) \<Rightarrow> strategy list \<Rightarrow> bool \<times> strategy list" where
  "remove_strategy inst [] = (False, [])"
| "remove_strategy inst (s # ss) =
    (if inst s then (True, ss) else (let (b, ss') = remove_strategy inst ss in (b, s # ss')))"

section \<open>Order\<close>

definition prioritised :: "strategy list \<Rightarrow> bool" where
  "prioritised ss \<longleftrightarrow> sorted_wrt (\<lambda>a b. get_priority b \<le> get_priority a) ss"

lemma prioritised_by_priority: "prioritised (by_priority ss)"
proof -
  have "sorted (map (\<lambda>s. - get_priority s) (by_priority ss))" by (simp add: by_priority_def)
  then show ?thesis by (simp add: prioritised_def sorted_map)
qed

lemma prioritised_remove: "prioritised ss \<Longrightarrow> prioritised (snd (remove_strategy inst ss))"
proof -
  have sub: "set (snd (remove_strategy inst ss)) \<subseteq> set ss" for ss
    by (induction ss) (auto split: prod.splits)
  show "prioritised ss \<Longrightarrow> prioritised (snd (remove_strategy inst ss))"
  proof (induction ss)
    case (Cons s ss)
    then show ?case using sub[of ss] by (auto simp: prioritised_def split: prod.splits)
  qed simp
qed

lemma select_first:
  "select_strategy ss c = Inr s \<Longrightarrow> \<exists>xs ys. ss = xs @ s # ys \<and> can_handle s c = Inr True
     \<and> (\<forall>x \<in> set xs. can_handle x c \<noteq> Inr True)"
proof (induction ss)
  case (Cons t ss)
  show ?case
  proof (cases "can_handle t c = Inr True")
    case True
    then show ?thesis using Cons.prems by (intro exI[of _ "[]"] exI[of _ ss]) simp
  next
    case False
    then obtain xs ys where "ss = xs @ s # ys" "can_handle s c = Inr True" "\<forall>x \<in> set xs. can_handle x c \<noteq> Inr True"
      using Cons by auto
    then show ?thesis using False by (intro exI[of _ "t # xs"] exI[of _ ys]) simp
  qed
qed simp

section \<open>The best strategy\<close>

lemma score_all_get:
  assumes "score_all ss cs d = Inr d'" "distinct (map strategy_class ss)"
  shows "(\<forall>s \<in> set ss. \<exists>n. score s cs = Inr n \<and> dget d' (strategy_class s) = Some n)
    \<and> (\<forall>k. k \<notin> strategy_class ` set ss \<longrightarrow> dget d' k = dget d k)"
  using assms
proof (induction ss arbitrary: d)
  case (Cons s ss)
  obtain n where n: "score s cs = Inr n" using Cons.prems(1) by (cases "score s cs") simp_all
  have rest: "score_all ss cs (dset (strategy_class s) n d) = Inr d'" using Cons.prems(1) n by simp
  have "distinct (map strategy_class ss)" using Cons.prems(2) by simp
  note IH = Cons.IH[OF rest this]
  have "dget d' (strategy_class s) = Some n" using IH Cons.prems(2) by (auto simp: image_iff)
  then show ?case using IH n by auto
qed simp

lemma pick_best_spec:
  "snd b \<le> snd (pick_best d ss b)
   \<and> (\<forall>s \<in> set ss. dget_or d (strategy_class s) 0 \<le> snd (pick_best d ss b))
   \<and> (pick_best d ss b = b \<or> (\<exists>xs s ys. ss = xs @ s # ys \<and> pick_best d ss b = (Some s, dget_or d (strategy_class s) 0)
        \<and> snd b < dget_or d (strategy_class s) 0
        \<and> (\<forall>x \<in> set xs. dget_or d (strategy_class x) 0 < dget_or d (strategy_class s) 0)))"
proof (induction ss arbitrary: b)
  case (Cons s ss)
  let ?n = "dget_or d (strategy_class s) 0"
  let ?b = "if ?n > snd b then (Some s, ?n) else b"
  have step: "pick_best d (s # ss) b = pick_best d ss ?b" by (simp add: Let_def)
  have ge: "snd b \<le> snd ?b" "?n \<le> snd ?b" by auto
  note IH = Cons.IH[of ?b]
  have bound: "snd b \<le> snd (pick_best d (s # ss) b)"
    "\<forall>x \<in> set (s # ss). dget_or d (strategy_class x) 0 \<le> snd (pick_best d (s # ss) b)"
    using IH ge unfolding step by auto
  have "pick_best d (s # ss) b = b \<or> (\<exists>xs t ys. s # ss = xs @ t # ys
      \<and> pick_best d (s # ss) b = (Some t, dget_or d (strategy_class t) 0) \<and> snd b < dget_or d (strategy_class t) 0
      \<and> (\<forall>x \<in> set xs. dget_or d (strategy_class x) 0 < dget_or d (strategy_class t) 0))"
  proof (cases "pick_best d ss ?b = ?b")
    case True
    then show ?thesis unfolding step by (cases "?n > snd b") (auto intro: exI[of _ "[]"])
  next
    case False
    then obtain xs t ys where t: "ss = xs @ t # ys" "pick_best d ss ?b = (Some t, dget_or d (strategy_class t) 0)"
        "snd ?b < dget_or d (strategy_class t) 0" "\<forall>x \<in> set xs. dget_or d (strategy_class x) 0 < dget_or d (strategy_class t) 0"
      using IH by blast
    have "\<forall>x \<in> set (s # xs). dget_or d (strategy_class x) 0 < dget_or d (strategy_class t) 0" using t(3,4) ge(2) by auto
    moreover have "snd b < dget_or d (strategy_class t) 0" using t(3) ge(1) by linarith
    ultimately show ?thesis unfolding step t(2) using t(1) by (intro disjI2 exI[of _ "s # xs"] exI[of _ t] exI[of _ ys]) simp
  qed
  then show ?case using bound by blast
qed simp

lemma best_strategy_aux:
  assumes "distinct (map strategy_class ss)" "select_best_strategy ss cs = Inr s"
  obtains xs ys n where "ss = xs @ s # ys" "score s cs = Inr n" "0 < n"
    "\<forall>x \<in> set ss. \<exists>m. score x cs = Inr m \<and> m \<le> n" "\<forall>x \<in> set xs. \<exists>m. score x cs = Inr m \<and> m < n"
proof -
  obtain d where d: "score_all ss cs [] = Inr d"
    using assms(2) by (auto simp: select_best_strategy_def split: if_splits sum.splits)
  have get: "\<exists>n. score x cs = Inr n \<and> dget_or d (strategy_class x) 0 = n" if "x \<in> set ss" for x
    using score_all_get[OF d assms(1)] that by (fastforce simp: dget_or_def)
  obtain m where m: "pick_best d ss (None, 0) = (Some s, m)"
    using assms(2) d by (auto simp: select_best_strategy_def split: if_splits option.splits prod.splits)
  have spec: "\<forall>x \<in> set ss. dget_or d (strategy_class x) 0 \<le> m"
    "\<exists>xs s' ys. ss = xs @ s' # ys \<and> (Some s, m) = (Some s', dget_or d (strategy_class s') 0) \<and> 0 < dget_or d (strategy_class s') 0
        \<and> (\<forall>x \<in> set xs. dget_or d (strategy_class x) 0 < dget_or d (strategy_class s') 0)"
    using pick_best_spec[where b = "(None, 0)" and d = d and ss = ss] unfolding m by auto
  then obtain xs ys where s: "ss = xs @ s # ys" "m = dget_or d (strategy_class s) 0" "0 < m"
      "\<forall>x \<in> set xs. dget_or d (strategy_class x) 0 < m" by auto
  have "s \<in> set ss" "set xs \<subseteq> set ss" using s(1) by auto
  then show ?thesis
    using that[OF s(1), of m] get spec(1) s(2-4) by (metis subsetD)
qed

text \<open>
  The strategy chosen for a set of conflicts is, when the class names differ, one that can handle
  the largest number of them, at least one, and of those that handle as many the first in the list,
  which is kept by falling priority: so number beats priority.
\<close>

theorem best_strategy_handles_most:
  assumes "distinct (map strategy_class ss)" "select_best_strategy ss cs = Inr s"
  shows "\<exists>xs ys n. ss = xs @ s # ys \<and> score s cs = Inr n \<and> 0 < n
    \<and> (\<forall>x \<in> set ss. \<exists>m. score x cs = Inr m \<and> m \<le> n) \<and> (\<forall>x \<in> set xs. \<exists>m. score x cs = Inr m \<and> m < n)"
  using best_strategy_aux[OF assms] by metis

theorem best_strategy_handles_most_witness:
  "\<exists>n. score create_merged_patch [demo_conflict ''LVLI'' ''B'' [''A'']] = Inr n \<and> 0 < n"
proof -
  let ?cs = "[demo_conflict ''LVLI'' ''B'' [''A'']]"
  have "select_best_strategy default_strategies ?cs = Inr create_merged_patch"
    by (simp add: select_best_strategy_def default_strategies_def execute_xedit_script_def create_merged_patch_def
        critical_def leveled_def HANDLED_TYPES_def demo_conflict_def upper_def code_def dget_or_def)
  moreover have "distinct (map strategy_class default_strategies)"
    by (simp add: default_strategies_def execute_xedit_script_def create_merged_patch_def)
  ultimately show ?thesis using best_strategy_handles_most[of default_strategies ?cs create_merged_patch] by metis
qed

section \<open>What the default orchestrator reports\<close>

lemma score_count: "(\<And>c. can_handle s c = Inr (P c)) \<Longrightarrow> score s cs = Inr (length (filter P cs))"
  by (induction cs) simp_all

lemma default_order: "new_orchestrator None = default_strategies"
  by (simp add: new_orchestrator_def by_priority_def default_strategies_def execute_xedit_script_def create_merged_patch_def)

lemma default_choice:
  assumes "cs \<noteq> []"
  shows "select_best_strategy default_strategies cs =
    (if filter critical cs = [] \<and> filter leveled cs = []
       then Inl (Selection_Error (''No strategy can handle any of the '' @ nat_str (length cs) @ '' conflicts''))
     else if length (filter leveled cs) \<le> length (filter critical cs) then Inr (execute_xedit_script ''.'')
     else Inr create_merged_patch)"
proof -
  have sc: "score (execute_xedit_script ''.'') cs = Inr (length (filter critical cs))"
    "score create_merged_patch cs = Inr (length (filter leveled cs))"
    by (rule score_count, simp add: execute_xedit_script_def create_merged_patch_def)+
  have cls: "strategy_class (execute_xedit_script ''.'') = ''ExecuteXEditScript''"
    "strategy_class create_merged_patch = ''CreateMergedPatch''"
    by (simp_all add: execute_xedit_script_def create_merged_patch_def)
  show ?thesis using assms
    by (simp add: select_best_strategy_def default_strategies_def sc cls dget_or_def Let_def)
qed

lemma push_mset:
  "distinct (keys d) \<Longrightarrow> mset (concat (map snd (push k c d))) = mset (concat (map snd d)) + {#c#}"
proof -
  have upd: "distinct (keys d) \<Longrightarrow> dget d k = Some v \<Longrightarrow>
      mset (concat (map snd (dset k (v @ [c]) d))) = mset (concat (map snd d)) + {#c#}" for v
    by (induction d) (auto simp: split: if_splits)
  have new: "dget d k = None \<Longrightarrow> dset k [c] d = d @ [(k, [c])]"
    by (induction d) (auto split: if_splits)
  assume "distinct (keys d)"
  then show ?thesis using upd new by (cases "dget d k") (simp_all add: push_def dget_or_def)
qed

lemma pair_map_mset: "mset (concat (map snd (pair_map cs))) = mset (map snd (occurrences cs))"
proof -
  have "distinct (keys d) \<Longrightarrow> mset (concat (map snd (foldl (\<lambda>d (k, c). push k c d) d xs)))
      = mset (concat (map snd d)) + mset (map snd xs)" for d and xs :: "((string \<times> string) \<times> record_conflict) list"
  proof (induction xs arbitrary: d)
    case (Cons x xs)
    obtain k c where x: "x = (k, c)" by fastforce
    have "distinct (keys (push k c d))" using Cons.prems by (simp add: push_def)
    then show ?case using Cons.IH[of "push k c d"] push_mset[OF Cons.prems, of k c] by (simp add: x)
  qed simp
  from this[of "[]" "occurrences cs"] show ?thesis by (simp add: pair_map_fold)
qed

lemma flat_mset:
  "mset (flat_conflicts (build_report crit warn raw)) = mset (map snd (occurrences (classified crit warn raw)))"
proof -
  let ?cs = "classified crit warn raw" and ?f = "\<lambda>x. - int (length (snd x))"
  have "flat_conflicts (build_report crit warn raw) = concat (map pair_conflicts (group_by_pair ?cs))"
    by (simp add: flat_conflicts_def build_report_def classified_def Let_def)
  also have "mset \<dots> = sum_mset (mset (map (mset \<circ> snd) (sort_key ?f (pair_map ?cs))))"
    by (simp only: group_fields mset_concat map_map sum_mset_sum_list)
  also have "\<dots> = sum_mset (mset (map (mset \<circ> snd) (pair_map ?cs)))" by (simp only: mset_map mset_sort)
  also have "\<dots> = sum_list (map (mset \<circ> snd) (pair_map ?cs))" by (rule sum_mset_sum_list)
  also have "\<dots> = mset (concat (map snd (pair_map ?cs)))" by (simp add: mset_concat)
  finally show ?thesis by (simp add: pair_map_mset)
qed

text \<open>How often a conflict that passes a test is counted: once for each of its losers.\<close>

definition pairs_of :: "(record_conflict \<Rightarrow> bool) \<Rightarrow> record_conflict list \<Rightarrow> nat" where
  "pairs_of P cs = sum_list (map (length \<circ> losers) (filter P cs))"

lemma filter_occurrences: "length (filter P (map snd (occurrences cs))) = pairs_of P cs"
proof (induction cs)
  case (Cons c cs)
  have "map snd (map (\<lambda>l. (pair_key (winner c) l, c)) (losers c)) = replicate (length (losers c)) c"
    by (simp add: comp_def map_replicate_const)
  then have "map snd (occurrences (c # cs)) = replicate (length (losers c)) c @ map snd (occurrences cs)"
    by (simp add: occurrences_def del: map_map)
  then show ?case using Cons by (simp add: pairs_of_def)
qed (simp add: occurrences_def pairs_of_def)

lemma flat_count: "length (filter P (flat_conflicts (build_report crit warn raw))) = pairs_of P (classified crit warn raw)"
  by (metis mset_filter size_mset flat_mset filter_occurrences)

lemma flat_length: "length (flat_conflicts (build_report crit warn raw)) = pairs_of (\<lambda>c. True) (classified crit warn raw)"
  using flat_count[of "\<lambda>c. True" crit warn raw] by simp

lemma flat_set: "set (flat_conflicts (build_report crit warn raw)) = {c \<in> set (classified crit warn raw). losers c \<noteq> []}"
proof -
  have "set (flat_conflicts (build_report crit warn raw)) = set (map snd (occurrences (classified crit warn raw)))"
    by (metis flat_mset set_mset_mset)
  also have "\<dots> = (\<Union>c \<in> set (classified crit warn raw). if losers c = [] then {} else {c})"
    by (auto simp: occurrences_def image_UN image_image image_constant_conv)
  finally show ?thesis by auto
qed

definition contested_winners :: "record_conflict list \<Rightarrow> string set" where
  "contested_winners cs = winner ` {c \<in> set cs. leveled c \<and> losers c \<noteq> []}"

text \<open>
  What the default orchestrator reports on an analysed conflict list.  Conflicts count once per
  loser; the script strategy wins when it has at least as many of them as the leveled lists, and always
  asks for review; else the merged patch wins, asks for review only for more than three winners, and the
  result still counts the critical conflicts, which its plan leaves out, as resolved.
\<close>

theorem default_patch_summary:
  "(let cs = classified crit warn raw; n = pairs_of (\<lambda>c. True) cs; k = pairs_of critical cs; l = pairs_of leveled cs;
        done_result = (\<lambda>out m review. \<lparr>success = True, output_path = Some out, records_patched = m, conflicts_resolved = n,
          xedit_exit_code = 0, warnings = (if review then [''Requires Human-in-the-Loop review''] else []), patch_error = None\<rparr>)
    in resolve (new_orchestrator None) (build_report crit warn raw) = Inr
     (if raw = [] then \<lparr>success = True, output_path = None, records_patched = 0,
       conflicts_resolved = 0, xedit_exit_code = 0, warnings = [''No conflicts to resolve''], patch_error = None\<rparr>
      else if n = 0 then failed_result (Selection_Error ''No conflicts provided'')
      else if k = 0 \<and> l = 0 then failed_result (Selection_Error
        (''No strategy can handle any of the '' @ nat_str n @ '' conflicts''))
      else if l \<le> k then done_result ''SkyClaw_CriticalPatch.esp'' k True
      else done_result ''SkyClaw_MergedPatch.esp'' l (card (contested_winners cs) > 3)))"
proof -
  let ?r = "build_report crit warn raw" and ?cs = "classified crit warn raw"
  have total: "total_conflicts ?r = length raw" by (simp add: build_report_def Let_def)
  have zero: "flat_conflicts ?r = [] \<longleftrightarrow> pairs_of (\<lambda>c. True) ?cs = 0" by (simp flip: flat_length)
  have cnt: "filter P (flat_conflicts ?r) = [] \<longleftrightarrow> pairs_of P ?cs = 0" for P by (simp flip: flat_count)
  have "set (map winner (filter leveled (flat_conflicts ?r))) = contested_winners ?cs"
    by (auto simp: flat_set contested_winners_def)
  then have win: "length (remdups (map winner (filter leveled (flat_conflicts ?r)))) = card (contested_winners ?cs)"
    by (simp add: length_remdups_card_conv)
  show ?thesis
    unfolding Let_def default_order resolve_def total
    by (simp add: select_best_strategy_def[of _ "[]"] zero[symmetric] default_choice cnt flat_count flat_length win
        execute_xedit_script_def create_merged_patch_def script_plan_def merged_plan_def Let_def failed_result_def)
qed

end
