(* ===== verification/Xedit_Scripts.thy ===== *)
theory Xedit_Scripts
  imports Patch_Plans Json_Values
begin

text \<open>
  The \<open>ScriptGenerator\<close> of \<open>sky_claw/local/xedit/runner.py\<close>: the Pascal templates, the escaping, the four
  generators and the patterns they check names with.  A template is the list of its lines; a \<open>{name}\<close> in it is a
  slot of \<open>str.format\<close>.  The lexer at the end tells the code of a script from the contents of its string literals.
\<close>

section \<open>Errors and patterns\<close>

text \<open>
  \<open>Xedit_Foreign\<close> is any other exception.  All but the last two are the classes of the module.
\<close>

datatype xedit_error =
    Xedit_Not_Found string
  | Xedit_Validation string
  | Xedit_Script_Error string
  | Xedit_Write_Error string
  | Xedit_Timeout string
  | Xedit_Foreign string
  | Xedit_Cancelled

definition alnum :: "char \<Rightarrow> bool" where
  "alnum c \<longleftrightarrow> (48 \<le> code c \<and> code c \<le> 57) \<or> (65 \<le> code c \<and> code c \<le> 90) \<or> (97 \<le> code c \<and> code c \<le> 122)"

definition NEWLINE :: char where
  "NEWLINE = char_of (10::nat)"

text \<open>The \<open>$\<close> of a pattern also matches before a final newline.\<close>

definition upto_final_newline :: "string \<Rightarrow> string" where
  "upto_final_newline s = (if s \<noteq> [] \<and> last s = NEWLINE then butlast s else s)"

definition safe_script_name :: "string \<Rightarrow> bool" where
  "safe_script_name s =
    (let t = upto_final_newline s; stem = take (length t - 4) t
     in ends_with ''.pas'' t \<and> stem \<noteq> [] \<and> list_all (\<lambda>c. alnum c \<or> c \<in> set ''_-'') stem)"

definition safe_plugin_name :: "string \<Rightarrow> bool" where
  "safe_plugin_name s =
    (let t = upto_final_newline s; stem = take (length t - 4) t
     in list_ex (\<lambda>ext. ends_with ext t) [''.esp'', ''.esm'', ''.esl''] \<and> stem \<noteq> [] \<and> length stem \<le> 255
        \<and> list_all (\<lambda>c. alnum c \<or> c \<in> set ''_- .'') stem)"

definition safe_form_id :: "string \<Rightarrow> bool" where
  "safe_form_id s =
    (let t = upto_final_newline s; u = (if length t = 9 \<and> t ! 6 = CHR '':'' then take 6 t @ drop 7 t else t)
     in length u = 8 \<and> list_all hex_digit u)"

definition safe_record_type :: "string \<Rightarrow> bool" where
  "safe_record_type s =
    (let t = upto_final_newline s
     in length t = 4 \<and> list_all (\<lambda>c. (65 \<le> code c \<and> code c \<le> 90) \<or> c = CHR ''_'') t)"

section \<open>Templates\<close>

datatype piece = Lit char | Slot string

function template_pieces :: "string \<Rightarrow> piece list" where
  "template_pieces [] = []"
| "template_pieces (c # s) =
    (if c = CHR ''{'' then Slot (takeWhile (\<lambda>d. d \<noteq> CHR ''}'') s) # template_pieces (tl (dropWhile (\<lambda>d. d \<noteq> CHR ''}'') s))
     else Lit c # template_pieces s)"
  by pat_completeness auto
termination by (relation "measure length") (auto simp: le_imp_less_Suc[OF le_trans[OF diff_le_self length_dropWhile_le]])

text \<open>\<open>str.format\<close>; every call names all the slots of its template, so no \<open>KeyError\<close> arises.\<close>

definition fill :: "(string, string) dict \<Rightarrow> piece list \<Rightarrow> string" where
  "fill env ps = concat (map (\<lambda>p. case p of Lit c \<Rightarrow> [c] | Slot n \<Rightarrow> dget_or env n []) ps)"

definition template_text :: "string list \<Rightarrow> string" where
  "template_text ls = concat (map (\<lambda>l. l @ [NEWLINE]) ls)"

definition py_format :: "string list \<Rightarrow> (string, string) dict \<Rightarrow> string" where
  "py_format ls env = fill env (template_pieces (template_text ls))"

definition TEMPLATE_FORWARD_RECORD :: "string list" where
  "TEMPLATE_FORWARD_RECORD =
   [''unit ForwardRecord;'',
    ''uses mteFunctions, SysUtils;'',
    '''',
    ''var'',
    ''  sourcePlugin, targetPlugin: IInterface;'',
    ''  processedCount: Integer;'',
    '''',
    ''function Initialize: integer;'',
    ''begin'',
    ''  sourcePlugin := FileByName('{source_plugin}');'',
    ''  targetPlugin := FileByName('{target_plugin}');'',
    ''  processedCount := 0;'',
    '''',
    ''  if not Assigned(sourcePlugin) then'',
    ''  begin'',
    ''    AddMessage('ERROR: Source plugin not found: {source_plugin}');'',
    ''    Result := 1;'',
    ''    Exit;'',
    ''  end;'',
    '''',
    ''  if not Assigned(targetPlugin) then'',
    ''  begin'',
    ''    AddMessage('ERROR: Target plugin not found: {target_plugin}');'',
    ''    Result := 1;'',
    ''    Exit;'',
    ''  end;'',
    '''',
    ''  AddMessage(Format('Forwarding records from %s to %s', ['{source_plugin}', '{target_plugin}']));'',
    ''  Result := 0;'',
    ''end;'',
    '''',
    ''function Process(e: IInterface): integer;'',
    ''var'',
    ''  formId: string;'',
    ''  recordSig: string;'',
    ''begin'',
    ''  formId := FormID(e);'',
    ''  recordSig := Signature(e);'',
    '''',
    ''  // Check if this is one of the target FormIDs'',
    ''  if (formId = '{form_id}') or (Pos(formId, '{form_id}') > 0) then'',
    ''  begin'',
    ''    AddMessage(Format('Processing record %s (%s)', [formId, recordSig]));'',
    ''    // Forward the record to target plugin'',
    ''    // Implementation depends on specific requirements'',
    ''    Inc(processedCount);'',
    ''  end;'',
    '''',
    ''  Result := 0;'',
    ''end;'',
    '''',
    ''function Finalize: integer;'',
    ''begin'',
    ''  AddMessage(Format('ForwardRecord complete. Processed %d records.', [processedCount]));'',
    ''  Result := 0;'',
    ''end;'',
    '''',
    ''end.'']"

definition TEMPLATE_MERGE_LEVELED_LIST :: "string list" where
  "TEMPLATE_MERGE_LEVELED_LIST =
   [''unit MergeLeveledList;'',
    ''uses mteFunctions, SysUtils;'',
    '''',
    ''var'',
    ''  mergedPlugin: IInterface;'',
    ''  processedCount: Integer;'',
    ''  outputPluginName: string;'',
    '''',
    ''function Initialize: integer;'',
    ''begin'',
    ''  outputPluginName := '{output_plugin}';'',
    ''  processedCount := 0;'',
    '''',
    ''  AddMessage(Format('Creating merged leveled list plugin: %s', [outputPluginName]));'',
    '''',
    ''  // Try to load existing plugin or create new one'',
    ''  mergedPlugin := FileByName(outputPluginName);'',
    ''  if not Assigned(mergedPlugin) then'',
    ''  begin'',
    ''    mergedPlugin := AddNewFile(outputPluginName);'',
    ''    if not Assigned(mergedPlugin) then'',
    ''    begin'',
    ''      AddMessage('ERROR: Failed to create output plugin: ' + outputPluginName);'',
    ''      Result := 1;'',
    ''      Exit;'',
    ''    end;'',
    ''  end;'',
    '''',
    ''  AddMessage('Output plugin ready: ' + outputPluginName);'',
    ''  Result := 0;'',
    ''end;'',
    '''',
    ''function Process(e: IInterface): integer;'',
    ''var'',
    ''  recordType: string;'',
    ''  formId: string;'',
    ''  newRecord: IInterface;'',
    ''begin'',
    ''  recordType := Signature(e);'',
    ''  formId := FormID(e);'',
    '''',
    ''  // Process LVLI, LVLN, LVSP records'',
    ''  if (recordType = 'LVLI') or (recordType = 'LVLN') or (recordType = 'LVSP') then'',
    ''  begin'',
    ''    // Check if this record type is in our target list'',
    ''    if Pos(recordType, '{record_types}') > 0 then'',
    ''    begin'',
    ''      AddMessage(Format('Merging %s record: %s', [recordType, formId]));'',
    '''',
    ''      // Copy record to merged plugin'',
    ''      newRecord := wbCopyElementToRecord(e, mergedPlugin, False, True);'',
    ''      if Assigned(newRecord) then'',
    ''      begin'',
    ''        Inc(processedCount);'',
    ''      end'',
    ''      else'',
    ''      begin'',
    ''        AddMessage('WARNING: Failed to copy record: ' + formId);'',
    ''      end;'',
    ''    end;'',
    ''  end;'',
    '''',
    ''  Result := 0;'',
    ''end;'',
    '''',
    ''function Finalize: integer;'',
    ''begin'',
    ''  AddMessage(Format('MergeLeveledList complete. Merged %d records.', [processedCount]));'',
    '''',
    ''  // Clean up masters'',
    ''  CleanMasters(mergedPlugin);'',
    ''  AddMessage('Masters cleaned.');'',
    '''',
    ''  Result := 0;'',
    ''end;'',
    '''',
    ''end.'']"

definition TEMPLATE_APPLY_PATCH :: "string list" where
  "TEMPLATE_APPLY_PATCH =
   [''unit ApplyPatch;'',
    ''uses mteFunctions, SysUtils;'',
    '''',
    ''var'',
    ''  outputPlugin: IInterface;'',
    ''  processedCount: Integer;'',
    ''  errorCount: Integer;'',
    '''',
    ''function Initialize: integer;'',
    ''var'',
    ''  outputName: string;'',
    ''begin'',
    ''  outputName := '{output_plugin}';'',
    ''  processedCount := 0;'',
    ''  errorCount := 0;'',
    '''',
    ''  AddMessage('=== Sky-Claw Patch Application ===');'',
    ''  AddMessage('Output plugin: ' + outputName);'',
    '''',
    ''  // Load or create output plugin'',
    ''  outputPlugin := FileByName(outputName);'',
    ''  if not Assigned(outputPlugin) then'',
    ''  begin'',
    ''    outputPlugin := AddNewFile(outputName);'',
    ''    if not Assigned(outputPlugin) then'',
    ''    begin'',
    ''      AddMessage('ERROR: Failed to create output plugin');'',
    ''      Result := 1;'',
    ''      Exit;'',
    ''    end;'',
    ''    AddMessage('Created new output plugin');'',
    ''  end'',
    ''  else'',
    ''  begin'',
    ''    AddMessage('Using existing output plugin');'',
    ''  end;'',
    '''',
    ''  Result := 0;'',
    ''end;'',
    '''',
    ''function Process(e: IInterface): integer;'',
    ''var'',
    ''  recordSig: string;'',
    ''  formId: string;'',
    ''  shouldProcess: Boolean;'',
    ''begin'',
    ''  recordSig := Signature(e);'',
    ''  formId := FormID(e);'',
    ''  shouldProcess := False;'',
    '''',
    ''  // Check record signatures to process'',
    ''  {record_filter}'',
    '''',
    ''  if shouldProcess then'',
    ''  begin'',
    ''    try'',
    ''      // Apply patch logic here'',
    ''      // This is a placeholder for specific patch operations'',
    ''      Inc(processedCount);'',
    '''',
    ''      if (processedCount mod 100) = 0 then'',
    ''      begin'',
    ''        AddMessage(Format('Processed %d records...', [processedCount]));'',
    ''      end;'',
    ''    except'',
    ''      on E: Exception do'',
    ''      begin'',
    ''        AddMessage(Format('ERROR processing record %s: %s', [formId, E.Message]));'',
    ''        Inc(errorCount);'',
    ''      end;'',
    ''    end;'',
    ''  end;'',
    '''',
    ''  Result := 0;'',
    ''end;'',
    '''',
    ''function Finalize: integer;'',
    ''begin'',
    ''  AddMessage('=== Patch Application Summary ===');'',
    ''  AddMessage(Format('Records processed: %d', [processedCount]));'',
    ''  AddMessage(Format('Errors encountered: %d', [errorCount]));'',
    '''',
    ''  if errorCount > 0 then'',
    ''  begin'',
    ''    AddMessage('WARNING: Errors occurred during patching');'',
    ''    Result := 1;'',
    ''  end'',
    ''  else'',
    ''  begin'',
    ''    AddMessage('Patch applied successfully');'',
    ''    Result := 0;'',
    ''  end;'',
    ''end;'',
    '''',
    ''end.'']"

section \<open>The generators\<close>

definition escape_pascal_string :: "string \<Rightarrow> string" where
  "escape_pascal_string v =
    concat (map (\<lambda>c. if c = SINGLE_QUOTE then [SINGLE_QUOTE, SINGLE_QUOTE] else [c])
     (concat (map (\<lambda>c. if c = CHR 0x5C then [CHR 0x5C, CHR 0x5C] else [c]) v)))"

definition generate_forward_script :: "string \<Rightarrow> string \<Rightarrow> string \<Rightarrow> xedit_error + string" where
  "generate_forward_script fid source target =
    (if fid = [] then Inl (Xedit_Script_Error ''form_id is required'')
     else if source = [] then Inl (Xedit_Script_Error ''source plugin is required'')
     else if target = [] then Inl (Xedit_Script_Error ''target plugin is required'')
     else if \<not> list_all hex_digit (filter (\<lambda>c. c \<noteq> CHR '':'') fid) then Inl (Xedit_Script_Error (''Invalid FormID format: '' @ fid))
     else Inr (py_format TEMPLATE_FORWARD_RECORD [(''form_id'', escape_pascal_string fid), (''source_plugin'', escape_pascal_string source),
       (''target_plugin'', escape_pascal_string target)]))"

text \<open>The set of valid types in the message of the last error is printed in no fixed order; it is left out.\<close>

definition generate_merge_script :: "string \<Rightarrow> string list \<Rightarrow> xedit_error + string" where
  "generate_merge_script out types =
    (if out = [] then Inl (Xedit_Script_Error ''output_plugin is required'')
     else if types = [] then Inl (Xedit_Script_Error ''record_types is required'')
     else if \<not> safe_plugin_name out then Inl (Xedit_Script_Error (''Invalid output plugin name: '' @ out))
     else (case find (\<lambda>rt. rt \<notin> set HANDLED_TYPES) types of
        Some rt \<Rightarrow> Inl (Xedit_Script_Error (''Invalid record type: '' @ rt))
      | None \<Rightarrow> Inr (py_format TEMPLATE_MERGE_LEVELED_LIST [(''output_plugin'', escape_pascal_string out),
          (''record_types'', escape_pascal_string (join '','' types))])))"

definition filter_line :: "string \<Rightarrow> string \<Rightarrow> string" where
  "filter_line field v = ''  if '' @ field @ '' = '' @ [SINGLE_QUOTE] @ escape_pascal_string v @ [SINGLE_QUOTE] @ '' then shouldProcess := True;''"

definition FORM_ID_PATTERN :: string where
  "FORM_ID_PATTERN = ''^[0-9A-Fa-f]{6}:?[0-9A-Fa-f]{2}$''"

definition record_filter :: "string list option \<Rightarrow> string list option \<Rightarrow> xedit_error + string list" where
  "record_filter types fids =
    (let ts = (case types of None \<Rightarrow> [] | Some xs \<Rightarrow> xs); fs = (case fids of None \<Rightarrow> [] | Some xs \<Rightarrow> xs);
         ls = map (filter_line ''recordSig'') ts @ map (filter_line ''formId'') fs in
     case find (\<lambda>t. \<not> safe_record_type t) ts of
       Some t \<Rightarrow> Inl (Xedit_Script_Error (''Invalid record type: '' @ repr_str t @ ''. Must be 4 uppercase ASCII chars.''))
     | None \<Rightarrow> (case find (\<lambda>f. \<not> safe_form_id f) fs of
         Some f \<Rightarrow> Inl (Xedit_Script_Error (''Invalid FormID format: '' @ repr_str f @ ''. Must match '' @ FORM_ID_PATTERN))
       | None \<Rightarrow> Inr (if ls = [] then [''  shouldProcess := True; // Process all records''] else ls)))"

definition generate_patch_script :: "string \<Rightarrow> string list option \<Rightarrow> string list option \<Rightarrow> xedit_error + string" where
  "generate_patch_script out types fids =
    (if out = [] then Inl (Xedit_Script_Error ''output_plugin is required'')
     else (case record_filter types fids of
        Inl e \<Rightarrow> Inl e
      | Inr ls \<Rightarrow> Inr (py_format TEMPLATE_APPLY_PATCH [(''output_plugin'', escape_pascal_string out), (''record_filter'', join [NEWLINE] ls)])))"

text \<open>Every member of \<open>PatchStrategyType\<close> has a branch, so the unsupported one is not reached.\<close>

definition generate_script_from_plan :: "patch_plan \<Rightarrow> xedit_error + string" where
  "generate_script_from_plan p =
    (case plan_kind p of
       Forward_Declaration \<Rightarrow>
        (case plan_form_ids p of
           [] \<Rightarrow> Inl (Xedit_Script_Error ''Forward declaration requires form_ids'')
         | f # fs \<Rightarrow> generate_forward_script f (case target_plugins p of [] \<Rightarrow> [] | t # ts \<Rightarrow> t) (output_plugin p))
     | Merged_Patch \<Rightarrow> generate_merge_script (output_plugin p) [''LVLI'', ''LVLN'', ''LVSP'']
     | Xedit_Script \<Rightarrow> generate_patch_script (output_plugin p) None (if plan_form_ids p = [] then None else Some (plan_form_ids p)))"

section \<open>The code of a script\<close>

text \<open>
  The lexical rules of Pascal that matter here: a literal runs to the next quote that is not doubled and never past the
  end of its line, and comments are \<open>//\<close> to the end of the line, braces, and parentheses with stars.  \<open>code_of\<close>
  drops what literals hold; a line break that cuts a literal short is shown, and what follows it is code.
\<close>

definition line_break :: "char \<Rightarrow> bool" where
  "line_break c \<longleftrightarrow> c = NEWLINE \<or> c = CHR 0x0D"

definition single_line :: "string \<Rightarrow> bool" where
  "single_line v \<longleftrightarrow> list_all (\<lambda>c. \<not> line_break c) v"

datatype lex_state = In_Code | After_Slash | After_Paren | In_Literal | After_Quote | In_Line_Comment | In_Braces | In_Stars | After_Star

fun code_step :: "char \<Rightarrow> lex_state" where
  "code_step c =
    (if c = SINGLE_QUOTE then In_Literal else if c = CHR ''/'' then After_Slash else if c = CHR ''('' then After_Paren
     else if c = CHR ''{'' then In_Braces else In_Code)"

fun lex_step :: "lex_state \<Rightarrow> char \<Rightarrow> lex_state \<times> string" where
  "lex_step In_Code c = (code_step c, [c])"
| "lex_step After_Slash c = (if c = CHR ''/'' then In_Line_Comment else code_step c, [c])"
| "lex_step After_Paren c = (if c = CHR ''*'' then In_Stars else code_step c, [c])"
| "lex_step In_Literal c = (if c = SINGLE_QUOTE then (After_Quote, []) else if line_break c then (In_Code, [c]) else (In_Literal, []))"
| "lex_step After_Quote c = (if c = SINGLE_QUOTE then (In_Literal, []) else (code_step c, [SINGLE_QUOTE, c]))"
| "lex_step In_Line_Comment c = (if line_break c then In_Code else In_Line_Comment, [c])"
| "lex_step In_Braces c = (if c = CHR ''}'' then In_Code else In_Braces, [c])"
| "lex_step In_Stars c = (if c = CHR ''*'' then After_Star else In_Stars, [c])"
| "lex_step After_Star c = (if c = CHR '')'' then In_Code else if c = CHR ''*'' then After_Star else In_Stars, [c])"

fun lex :: "lex_state \<Rightarrow> string \<Rightarrow> lex_state \<times> string" where
  "lex s [] = (s, [])"
| "lex s (c # cs) = (case lex_step s c of (s1, a) \<Rightarrow> (case lex s1 cs of (s2, b) \<Rightarrow> (s2, a @ b)))"

definition code_of :: "string \<Rightarrow> string" where
  "code_of t = snd (lex In_Code t)"

lemma lex_append: "lex s (xs @ ys) = (case lex s xs of (s1, a) \<Rightarrow> (case lex s1 ys of (s2, b) \<Rightarrow> (s2, a @ b)))"
  by (induction xs arbitrary: s) (auto split: prod.splits)

lemma quote_no_backslash: "SINGLE_QUOTE \<noteq> CHR 0x5C"
  by code_simp

lemma escape_cons: "escape_pascal_string (c # v) =
   (if c = SINGLE_QUOTE then [c, c] else if c = CHR 0x5C then [c, c] else [c]) @ escape_pascal_string v"
  using quote_no_backslash by (auto simp: escape_pascal_string_def)

lemma escape_nil [simp]: "escape_pascal_string [] = []"
  by (simp add: escape_pascal_string_def)

text \<open>An escaped text of one line inside a literal leaves the lexer in the literal and shows no code.\<close>

lemma single_line_simps [simp]: "single_line []" "single_line (c # v) \<longleftrightarrow> \<not> line_break c \<and> single_line v"
  by (simp_all add: single_line_def)

lemma lex_escape [simp]: "single_line v \<Longrightarrow> lex In_Literal (escape_pascal_string v) = (In_Literal, [])"
  by (induction v) (auto simp: escape_cons)

text \<open>A line break is not escaped, and leaves the literal.\<close>

lemma line_break_leaves_literal:
  "single_line v \<Longrightarrow> lex In_Literal (escape_pascal_string (v @ [NEWLINE])) = (In_Code, [NEWLINE])"
proof -
  have n: "NEWLINE \<noteq> SINGLE_QUOTE" "NEWLINE \<noteq> CHR 0x5C" by code_simp+
  have "escape_pascal_string (v @ [NEWLINE]) = escape_pascal_string v @ [NEWLINE]"
    using n by (simp add: escape_pascal_string_def)
  then show "single_line v \<Longrightarrow> ?thesis" using n by (simp add: lex_append line_break_def)
qed

text \<open>
  The pieces of a line: the state after them, if all slots stand in literals but the filter of records, which stands
  in code and ends in the state \<open>r\<close>.
\<close>

fun pieces_state :: "lex_state \<Rightarrow> lex_state \<Rightarrow> piece list \<Rightarrow> lex_state option" where
  "pieces_state r s [] = Some s"
| "pieces_state r s (Lit c # ps) = pieces_state r (fst (lex_step s c)) ps"
| "pieces_state r s (Slot n # ps) = (if n = ''record_filter'' then (if s = In_Code then pieces_state r r ps else None)
     else if s = In_Literal then pieces_state r s ps else None)"

function closed_slots :: "string \<Rightarrow> bool" where
  "closed_slots [] = True"
| "closed_slots (c # s) =
    (if c = CHR ''{'' then CHR ''}'' \<in> set s \<and> closed_slots (tl (dropWhile (\<lambda>d. d \<noteq> CHR ''}'') s)) else closed_slots s)"
  by pat_completeness auto
termination by (relation "measure length") (auto simp: le_imp_less_Suc[OF le_trans[OF diff_le_self length_dropWhile_le]])

fun lines_state :: "lex_state \<Rightarrow> lex_state \<Rightarrow> string list \<Rightarrow> lex_state option" where
  "lines_state r s [] = Some s"
| "lines_state r s (l # ls) =
    (if closed_slots l then (case pieces_state r s (template_pieces l) of
        None \<Rightarrow> None | Some s1 \<Rightarrow> lines_state r (fst (lex_step s1 NEWLINE)) ls)
     else None)"

lemma pieces_state_append:
  "pieces_state r s (ps @ qs) = (case pieces_state r s ps of None \<Rightarrow> None | Some s1 \<Rightarrow> pieces_state r s1 qs)"
  by (induction r s ps rule: pieces_state.induct) auto

lemma template_pieces_append: "closed_slots l \<Longrightarrow> template_pieces (l @ r) = template_pieces l @ template_pieces r"
proof (induction l rule: closed_slots.induct)
  case (2 c s)
  show ?case
  proof (cases "c = CHR ''{''")
    case True
    then have m: "CHR ''}'' \<in> set s" and i: "closed_slots (tl (dropWhile (\<lambda>d. d \<noteq> CHR ''}'') s))" using "2.prems" by simp_all
    have ne: "dropWhile (\<lambda>d. d \<noteq> CHR ''}'') s \<noteq> []" using m by (auto simp: dropWhile_eq_Nil_conv)
    have d: "dropWhile (\<lambda>d. d \<noteq> CHR ''}'') (s @ r) = dropWhile (\<lambda>d. d \<noteq> CHR ''}'') s @ r"
      and t: "takeWhile (\<lambda>d. d \<noteq> CHR ''}'') (s @ r) = takeWhile (\<lambda>d. d \<noteq> CHR ''}'') s"
      using m by (auto intro: takeWhile_append1 dropWhile_append1)
    show ?thesis using "2.IH"(1)[OF True i] True ne by (simp add: d t tl_append2)
  qed (use 2 in auto)
qed simp

lemma template_text_cons: "template_text (l # ls) = l @ NEWLINE # template_text ls"
  by (simp add: template_text_def)

lemma lines_state_pieces: "lines_state r s ls = Some s' \<Longrightarrow> pieces_state r s (template_pieces (template_text ls)) = Some s'"
proof (induction ls arbitrary: s)
  case (Cons l ls)
  have "NEWLINE \<noteq> CHR ''{''" by code_simp
  then show ?case using Cons
    by (auto simp: template_text_cons template_pieces_append pieces_state_append split: if_splits option.splits)
qed (simp add: template_text_def)

definition harmless :: "lex_state \<Rightarrow> string \<Rightarrow> (string, string) dict \<Rightarrow> bool" where
  "harmless r shown env \<longleftrightarrow> (\<forall>n. n \<noteq> ''record_filter'' \<longrightarrow> lex In_Literal (dget_or env n []) = (In_Literal, []))
     \<and> lex In_Code (dget_or env ''record_filter'' []) = (r, shown)"

lemma fill_cons: "fill env (p # ps) = (case p of Lit c \<Rightarrow> [c] | Slot n \<Rightarrow> dget_or env n []) @ fill env ps"
  by (simp add: fill_def)

lemma fill_same_code:
  "pieces_state r s ps \<noteq> None \<Longrightarrow> harmless r shown env \<Longrightarrow> harmless r shown env' \<Longrightarrow> lex s (fill env ps) = lex s (fill env' ps)"
proof (induction r s ps rule: pieces_state.induct)
  case (3 r s n ps)
  then show ?case by (cases "n = ''record_filter''") (simp_all add: fill_cons lex_append harmless_def split: if_splits)
qed (auto simp: fill_cons fill_def split: prod.splits)

lemma same_code:
  assumes ok: "lines_state r In_Code ls \<noteq> None" and h: "harmless r shown env" "harmless r shown env'"
  shows "code_of (py_format ls env) = code_of (py_format ls env')"
proof -
  have "pieces_state r In_Code (template_pieces (template_text ls)) \<noteq> None" using ok lines_state_pieces by fastforce
  from fill_same_code[OF this h] show ?thesis by (simp add: code_of_def py_format_def)
qed

lemma quote_code [code]: "SINGLE_QUOTE = CHR 0x27"
  by code_simp

lemma newline_code [code]: "NEWLINE = CHR 0x0A"
  by code_simp

lemma forward_quotes_slots: "lines_state In_Code In_Code TEMPLATE_FORWARD_RECORD \<noteq> None"
  by code_simp

lemma merge_quotes_slots: "lines_state In_Code In_Code TEMPLATE_MERGE_LEVELED_LIST \<noteq> None"
  by code_simp

lemma apply_quotes_slots: "lines_state In_Code In_Code TEMPLATE_APPLY_PATCH \<noteq> None"
  by code_simp

lemma apply_quotes_slots_after_comment: "lines_state In_Line_Comment In_Code TEMPLATE_APPLY_PATCH \<noteq> None"
  by code_simp

lemmas templates_quote_slots = forward_quotes_slots merge_quotes_slots apply_quotes_slots apply_quotes_slots_after_comment

text \<open>The lines of a filter show the same code whatever they compare with.\<close>

definition line_code :: "string \<Rightarrow> string" where
  "line_code field = snd (lex In_Code (filter_line field []))"

lemma lex_filter_line:
  assumes "field \<in> {''recordSig'', ''formId''}" and v: "single_line v"
  shows "lex In_Code (filter_line field v) = (In_Code, line_code field)"
proof -
  have pre: "fst (lex In_Code (''  if '' @ field @ '' = '' @ [SINGLE_QUOTE])) = In_Literal"
    using assms(1) by (elim insertE emptyE; simp only:) code_simp+
  have post: "fst (lex In_Literal ([SINGLE_QUOTE] @ '' then shouldProcess := True;'')) = In_Code" by code_simp
  obtain a b where ab: "lex In_Code (''  if '' @ field @ '' = '' @ [SINGLE_QUOTE]) = (In_Literal, a)"
      "lex In_Literal ([SINGLE_QUOTE] @ '' then shouldProcess := True;'') = (In_Code, b)"
    using pre post by (metis prod.collapse)
  have split: "filter_line field u = (''  if '' @ field @ '' = '' @ [SINGLE_QUOTE]) @ escape_pascal_string u @ [SINGLE_QUOTE] @ '' then shouldProcess := True;''"
    for u unfolding filter_line_def by simp
  have "lex In_Code (filter_line field u) = (In_Code, a @ b)" if "single_line u" for u
    unfolding split lex_append[of In_Code "''  if '' @ field @ '' = '' @ [SINGLE_QUOTE]"] ab
      lex_append[of In_Literal "escape_pascal_string u"] lex_escape[OF that] prod.case by (simp only: append_Nil ab prod.case)
  then show ?thesis using v by (simp add: line_code_def)
qed

lemma lex_lines:
  "list_all (\<lambda>f. lex In_Code f = (In_Code, c)) ls \<Longrightarrow> ls \<noteq> [] \<Longrightarrow>
   lex In_Code (join [NEWLINE] ls) = (In_Code, join [NEWLINE] (replicate (length ls) c))"
proof (induction ls rule: induct_list012)
  case (3 x y zs)
  have "lex In_Code (NEWLINE # r) = (case lex In_Code r of (s, b) \<Rightarrow> (s, NEWLINE # b))" for r
    by (subst lex.simps(2)) (simp add: newline_code quote_code split: prod.splits)
  then show ?case using 3 by (simp add: lex_append)
qed simp_all


definition all_records_code :: string where
  "all_records_code = snd (lex In_Code ''  shouldProcess := True; // Process all records'')"

lemma lex_all_records: "lex In_Code ''  shouldProcess := True; // Process all records'' = (In_Line_Comment, all_records_code)"
proof -
  have "fst (lex In_Code ''  shouldProcess := True; // Process all records'') = In_Line_Comment" by code_simp
  then show ?thesis unfolding all_records_code_def by (metis prod.collapse)
qed

text \<open>The filter of form identifiers: where it ends and the code it shows depend on their number alone.\<close>

definition filter_end :: "nat \<Rightarrow> lex_state" where
  "filter_end n = (if n = 0 then In_Line_Comment else In_Code)"

definition filter_code :: "nat \<Rightarrow> string" where
  "filter_code n = (if n = 0 then all_records_code else join [NEWLINE] (replicate n (line_code ''formId'')))"

lemma record_filter_code:
  assumes "record_filter None (if fs = [] then None else Some fs) = Inr ls" and one: "list_all single_line fs"
  shows "lex In_Code (join [NEWLINE] ls) = (filter_end (length fs), filter_code (length fs))"
proof (cases "fs = []")
  case True
  then have "ls = [''  shouldProcess := True; // Process all records'']" using assms(1) by (simp add: record_filter_def Let_def)
  then show ?thesis by (simp only: join.simps lex_all_records filter_end_def filter_code_def True list.size simp_thms if_True)
next
  case False
  then have ls: "ls = map (filter_line ''formId'') fs" using assms(1) by (simp add: record_filter_def Let_def split: option.splits)
  have "list_all (\<lambda>f. lex In_Code f = (In_Code, line_code ''formId'')) ls"
    using one by (simp add: ls list_all_iff lex_filter_line)
  from lex_lines[OF this] False show ?thesis by (simp add: ls filter_end_def filter_code_def)
qed

lemma dget_or_cons: "dget_or ((k, v) # e) n d = (if n = k then v else dget_or e n d)"
  by (simp add: dget_or_def)

lemma dget_or_nil: "dget_or [] n d = d"
  by (simp add: dget_or_def)

section \<open>No plan writes code\<close>

lemma lex_record_types [simp]: "lex In_Literal (escape_pascal_string ''LVLI,LVLN,LVSP'') = (In_Literal, [])"
  by code_simp

text \<open>The names a plan brings into its script stand on one line each.\<close>

definition one_line_names :: "patch_plan \<Rightarrow> bool" where
  "one_line_names p \<longleftrightarrow>
     single_line (output_plugin p) \<and> list_all single_line (target_plugins p) \<and> list_all single_line (plan_form_ids p)"

text \<open>
  C6: two plans of the same kind with as many form identifiers, whose names have no line break, give scripts with the
  same code: what plugins and records are called, quotes and comment marks included, does not leave the string
  literals of the template.  A line break does, as \<open>line_break_leaves_literal\<close> shows.
\<close>

theorem names_stay_in_literals:
  assumes g: "generate_script_from_plan p = Inr s" "generate_script_from_plan q = Inr t"
    and one: "one_line_names p" "one_line_names q"
    and k: "plan_kind p = plan_kind q" "length (plan_form_ids p) = length (plan_form_ids q)"
  shows "code_of s = code_of t"
proof (cases "plan_kind q")
  case Merged_Patch
  with g k one show ?thesis
    by (auto simp: one_line_names_def generate_script_from_plan_def generate_merge_script_def harmless_def dget_or_cons dget_or_nil
        split: if_splits option.splits intro!: same_code[OF templates_quote_slots(2)])
next
  case Xedit_Script
  obtain ls where p: "record_filter None (if plan_form_ids p = [] then None else Some (plan_form_ids p)) = Inr ls"
      "s = py_format TEMPLATE_APPLY_PATCH [(''output_plugin'', escape_pascal_string (output_plugin p)), (''record_filter'', join [NEWLINE] ls)]"
    using g(1) k Xedit_Script by (auto simp: generate_script_from_plan_def generate_patch_script_def split: if_splits sum.splits)
  obtain ms where q: "record_filter None (if plan_form_ids q = [] then None else Some (plan_form_ids q)) = Inr ms"
      "t = py_format TEMPLATE_APPLY_PATCH [(''output_plugin'', escape_pascal_string (output_plugin q)), (''record_filter'', join [NEWLINE] ms)]"
    using g(2) Xedit_Script by (auto simp: generate_script_from_plan_def generate_patch_script_def split: if_splits sum.splits)
  have l: "lines_state (filter_end n) In_Code TEMPLATE_APPLY_PATCH \<noteq> None" for n
    using templates_quote_slots(3,4) by (simp add: filter_end_def)
  have f: "list_all single_line (plan_form_ids p)" "list_all single_line (plan_form_ids q)"
    using one by (simp_all add: one_line_names_def)
  show ?thesis unfolding p(2) q(2)
    by (rule same_code[OF l, where shown = "filter_code (length (plan_form_ids q))"])
      (simp_all add: harmless_def dget_or_cons dget_or_nil record_filter_code[OF p(1) f(1)] record_filter_code[OF q(1) f(2)] k(2)
        one[unfolded one_line_names_def])
next
  case Forward_Declaration
  with g k one show ?thesis
    by (auto simp: one_line_names_def generate_script_from_plan_def generate_forward_script_def harmless_def dget_or_cons dget_or_nil
        split: if_splits option.splits list.splits intro!: same_code[OF templates_quote_slots(1)])
qed

definition forward_plan :: "string \<Rightarrow> patch_plan" where
  "forward_plan source = \<lparr>plan_kind = Forward_Declaration, target_plugins = [source], output_plugin = ''Patch.esp'',
     plan_form_ids = [''0001:2345''], estimated_records = 1, requires_hitl = False, script_path = None\<rparr>"

definition hostile_name :: string where
  "hostile_name = SINGLE_QUOTE # ''); Remove(e); { //''"

theorem names_stay_in_literals_witness:
  "case (generate_script_from_plan (forward_plan ''Skyrim.esm''), generate_script_from_plan (forward_plan hostile_name)) of
     (Inr s, Inr t) \<Rightarrow> code_of s = code_of t | _ \<Rightarrow> False"
proof -
  have h: "list_all hex_digit (filter (\<lambda>c. c \<noteq> CHR '':'') ''0001:2345'')" by code_simp
  have ex: "\<exists>s. generate_script_from_plan (forward_plan n) = Inr s" if "n \<noteq> []" for n
    using h that by (simp add: forward_plan_def generate_script_from_plan_def generate_forward_script_def)
  obtain s where s: "generate_script_from_plan (forward_plan ''Skyrim.esm'') = Inr s" using ex by blast
  obtain t where t: "generate_script_from_plan (forward_plan hostile_name) = Inr t" using ex[of hostile_name] by (auto simp: hostile_name_def)
  have "one_line_names (forward_plan ''Skyrim.esm'')" "one_line_names (forward_plan hostile_name)" by code_simp+
  then have "code_of s = code_of t" by (rule names_stay_in_literals[OF s t]) (simp_all add: forward_plan_def)
  then show ?thesis by (simp only: s t prod.case sum.case)
qed

text \<open>What Pascal reads between the quotes: every doubled quote is one.\<close>

fun literal_value :: "string \<Rightarrow> string" where
  "literal_value (c # d # s) = (if c = SINGLE_QUOTE \<and> d = SINGLE_QUOTE then c # literal_value s else c # literal_value (d # s))"
| "literal_value s = s"

lemma literal_value_plain: "c \<noteq> SINGLE_QUOTE \<Longrightarrow> literal_value (c # s) = c # literal_value s"
  by (cases s) auto

lemma literal_value_escape: "literal_value (escape_pascal_string v) = concat (map (\<lambda>c. if c = CHR 0x5C then [c, c] else [c]) v)"
  using quote_no_backslash by (induction v) (auto simp: escape_cons literal_value_plain)

text \<open>
  Pascal has no escape character, so the doubled backslashes stay doubled: a text is read back exactly if it has
  none.
\<close>

lemma backslashes_are_doubled: "literal_value (escape_pascal_string v) = v \<longleftrightarrow> CHR 0x5C \<notin> set v"
proof -
  have le: "length v \<le> length (concat (map (\<lambda>c. if c = CHR 0x5C then [c, c] else [c]) v))" for v :: string
    by (induction v) auto
  have lt: "CHR 0x5C \<in> set v \<Longrightarrow> length v < length (concat (map (\<lambda>c. if c = CHR 0x5C then [c, c] else [c]) v))" for v :: string
  proof (induction v)
    case (Cons c v)
    show ?case using Cons le[of v] by (cases "c = CHR 0x5C") simp_all
  qed simp
  have same: "CHR 0x5C \<notin> set v \<Longrightarrow> concat (map (\<lambda>c. if c = CHR 0x5C then [c, c] else [c]) v) = v" for v :: string
    by (induction v) auto
  show ?thesis unfolding literal_value_escape
  proof
    assume e: "concat (map (\<lambda>c. if c = CHR 0x5C then [c, c] else [c]) v) = v"
    show "CHR 0x5C \<notin> set v" using lt[of v] unfolding e by blast
  qed (rule same)
qed

text \<open>The patterns let a final newline pass, and a plugin that looks like an option of the program.\<close>

lemma odd_names_pass: "safe_plugin_name (''Patch.esp'' @ [NEWLINE])" "safe_plugin_name ''-quickclean.esp''" "\<not> safe_plugin_name ''Patch.ESP''"
  by code_simp+

end
