(* ===== verification/Patcher_Pipeline.thy ===== *)
theory Patcher_Pipeline
  imports Json_Values Snapshots "HOL-Library.Sublist"
begin

text \<open>
  \<open>sky_claw/local/tools/patcher_pipeline.py\<close>: the patchers that Synthesis runs, a dict from identifiers to
  definitions, and its JSON file.  \<open>loads\<close> and \<open>indented\<close> are \<open>json.load\<close> and \<open>json.dump\<close> with \<open>indent=2\<close>.  The
  values of \<open>order\<close> are compared through a rank; the \<open>TypeError\<close> of unlike values, which the annotation \<open>int\<close>
  rules out, is not modelled.
\<close>

section \<open>Patchers\<close>

record patcher =
  patcher_id :: string
  patcher_enabled :: json
  patcher_order :: json
  patcher_config :: json

datatype pipeline_error =
    Config_Error string string
  | Pipeline_Error string
  | Path_Violation_Error
  | Value_Error
  | Type_Error
  | Attribute_Error

type_synonym patchers = "(string, patcher) dict"

definition new_patcher :: "json \<Rightarrow> json \<Rightarrow> json \<Rightarrow> json \<Rightarrow> pipeline_error + patcher" where
  "new_patcher i en od cf =
    (if \<not> truthy i then Inl (Config_Error [] ''patcher_id cannot be empty'')
     else case i of
       JStr s \<Rightarrow>
        if strip s = [] then Inl (Config_Error [] ''patcher_id cannot be empty'')
        else Inr \<lparr>patcher_id = s, patcher_enabled = en, patcher_order = od, patcher_config = cf\<rparr>
     | _ \<Rightarrow> Inl Attribute_Error)"

definition patcher_dict :: "patcher \<Rightarrow> json" where
  "patcher_dict p = JDict [(''patcher_id'', JStr (patcher_id p)), (''enabled'', patcher_enabled p),
     (''order'', patcher_order p), (''config'', patcher_config p)]"

definition patcher_from_dict :: "json \<Rightarrow> pipeline_error + patcher" where
  "patcher_from_dict v =
    (let missing = Inl (Config_Error [] ''missing required field: patcher_id'') in
     case v of
       JDict d \<Rightarrow>
        (case dget d ''patcher_id'' of
           None \<Rightarrow> missing
         | Some i \<Rightarrow> new_patcher i (dget_or d ''enabled'' (JBool True)) (dget_or d ''order'' (JInt 0)) (dget_or d ''config'' (JDict [])))
     | JList xs \<Rightarrow> if JStr ''patcher_id'' \<in> set xs then Inl Type_Error else missing
     | JStr s \<Rightarrow> if sublist ''patcher_id'' s then Inl Type_Error else missing
     | _ \<Rightarrow> Inl Type_Error)"

section \<open>The pipeline\<close>

definition add_patcher :: "patcher \<Rightarrow> patchers \<Rightarrow> patchers" where
  "add_patcher p ps = dset (patcher_id p) p ps"

definition remove_patcher :: "string \<Rightarrow> patchers \<Rightarrow> patchers \<times> bool" where
  "remove_patcher i ps = (if dhas ps i then (ddel i ps, True) else (ps, False))"

definition get_patcher :: "string \<Rightarrow> patchers \<Rightarrow> patcher option" where
  "get_patcher i ps = dget ps i"

definition get_all_patchers :: "(json \<Rightarrow> int) \<Rightarrow> patchers \<Rightarrow> patcher list" where
  "get_all_patchers rank ps = sort_key (rank \<circ> patcher_order) (map snd ps)"

definition get_enabled_patchers :: "(json \<Rightarrow> int) \<Rightarrow> patchers \<Rightarrow> patcher list" where
  "get_enabled_patchers rank ps = sort_key (rank \<circ> patcher_order) (filter (\<lambda>p. truthy (patcher_enabled p)) (map snd ps))"

definition enable_patcher :: "string \<Rightarrow> patchers \<Rightarrow> patchers \<times> bool" where
  "enable_patcher i ps =
    (case dget ps i of
       None \<Rightarrow> (ps, False)
     | Some p \<Rightarrow> (if truthy (patcher_enabled p) then ps else dset i (p\<lparr>patcher_enabled := JBool True\<rparr>) ps, True))"

definition disable_patcher :: "string \<Rightarrow> patchers \<Rightarrow> patchers \<times> bool" where
  "disable_patcher i ps =
    (case dget ps i of
       None \<Rightarrow> (ps, False)
     | Some p \<Rightarrow> (if truthy (patcher_enabled p) then dset i (p\<lparr>patcher_enabled := JBool False\<rparr>) ps else ps, True))"

definition set_patcher_order :: "string \<Rightarrow> int \<Rightarrow> patchers \<Rightarrow> patchers \<times> bool" where
  "set_patcher_order i n ps =
    (case dget ps i of
       None \<Rightarrow> (ps, False)
     | Some p \<Rightarrow> (dset i (p\<lparr>patcher_order := JInt n\<rparr>) ps, True))"

definition serialize_for_synthesis :: "(json \<Rightarrow> int) \<Rightarrow> patchers \<Rightarrow> json" where
  "serialize_for_synthesis rank ps =
    (let en = get_enabled_patchers rank ps in
     JDict [(''patchers'', JList (map (JStr \<circ> patcher_id) en)),
       (''patcher_configs'', JDict (foldl (\<lambda>d p. dset (patcher_id p) (patcher_config p) d) [] (filter (\<lambda>p. truthy (patcher_config p)) en))),
       (''total_enabled'', JInt (int (length en))),
       (''total_disabled'', JInt (int (length ps) - int (length en)))])"

definition pipeline_dict :: "(json \<Rightarrow> int) \<Rightarrow> patchers \<Rightarrow> json" where
  "pipeline_dict rank ps = JDict [(''version'', JInt 1), (''patchers'', JList (map patcher_dict (get_all_patchers rank ps)))]"

section \<open>The file\<close>

text \<open>Loading adds the patchers one by one to those there are; an error leaves the ones before it.\<close>

fun load_patchers :: "json list \<Rightarrow> patchers \<Rightarrow> patchers \<times> pipeline_error option" where
  "load_patchers [] ps = (ps, None)"
| "load_patchers (v # vs) ps =
    (case patcher_from_dict v of
       Inl e \<Rightarrow> (ps, Some e)
     | Inr p \<Rightarrow> load_patchers vs (dset (patcher_id p) p ps))"

definition load_from_path ::
  "(string \<Rightarrow> json option) \<Rightarrow> (path \<Rightarrow> bool) option \<Rightarrow> path \<Rightarrow> string \<Rightarrow> patchers \<Rightarrow> patchers \<times> pipeline_error option" where
  "load_from_path loads validator path content ps =
    (if (case validator of None \<Rightarrow> False | Some ok \<Rightarrow> \<not> ok path) then (ps, Some Path_Violation_Error)
     else case loads content of
       None \<Rightarrow> (ps, Some Value_Error)
     | Some (JDict d) \<Rightarrow>
        (case dget_or d ''patchers'' (JList []) of
           JList vs \<Rightarrow> load_patchers vs ps
         | _ \<Rightarrow> (ps, Some (Pipeline_Error ([SINGLE_QUOTE] @ ''patchers'' @ [SINGLE_QUOTE] @ '' must be a list''))))
     | Some _ \<Rightarrow> (ps, Some (Pipeline_Error ''Pipeline config must be a JSON object'')))"

text \<open>The constructor, which logs the error of a loading that fails; \<open>from_json\<close> needs the file.\<close>

definition new_pipeline ::
  "(string \<Rightarrow> json option) \<Rightarrow> (path \<Rightarrow> bool) option \<Rightarrow> path option \<Rightarrow> file_system \<Rightarrow> patchers" where
  "new_pipeline loads validator config fs =
    (case config of
       None \<Rightarrow> []
     | Some p \<Rightarrow> (case dget fs p of None \<Rightarrow> [] | Some content \<Rightarrow> fst (load_from_path loads validator p content [])))"

datatype file_not_found = File_Not_Found path

definition pipeline_from_json :: "(string \<Rightarrow> json option) \<Rightarrow> path \<Rightarrow> file_system \<Rightarrow> file_not_found + patchers" where
  "pipeline_from_json loads p fs = (if dget fs p = None then Inl (File_Not_Found p) else Inr (new_pipeline loads None (Some p) fs))"

definition pipeline_to_json ::
  "(json \<Rightarrow> string) \<Rightarrow> (json \<Rightarrow> int) \<Rightarrow> (path \<Rightarrow> bool) option \<Rightarrow> path \<Rightarrow> patchers \<Rightarrow> file_system \<Rightarrow> file_system \<times> pipeline_error option" where
  "pipeline_to_json indented rank validator p ps fs =
    (if (case validator of None \<Rightarrow> False | Some ok \<Rightarrow> \<not> ok p) then (fs, Some Path_Violation_Error)
     else (dset p (indented (pipeline_dict rank ps)) fs, None))"

section \<open>Well-formed pipelines\<close>

definition patcher_ok :: "patcher \<Rightarrow> bool" where
  "patcher_ok p \<longleftrightarrow> strip (patcher_id p) \<noteq> []"

definition pipeline_ok :: "patchers \<Rightarrow> bool" where
  "pipeline_ok ps \<longleftrightarrow> distinct (keys ps) \<and> (\<forall>(i, p) \<in> set ps. i = patcher_id p \<and> patcher_ok p)"

lemma strip_Nil [simp]: "strip [] = []"
  by (simp add: strip_def)

lemma new_patcher_ok: "new_patcher i en od cf = Inr p \<Longrightarrow> patcher_ok p"
  by (auto simp: new_patcher_def patcher_ok_def split: if_splits json.splits)

lemma patcher_from_dict_ok: "patcher_from_dict v = Inr p \<Longrightarrow> patcher_ok p"
  by (auto simp: patcher_from_dict_def Let_def split: json.splits option.splits if_splits dest: new_patcher_ok)

lemma set_dset: "x \<in> set (dset k v d) \<Longrightarrow> x = (k, v) \<or> x \<in> set d"
  by (induction d) (auto split: if_splits)

lemma pipeline_ok_dset: "pipeline_ok ps \<Longrightarrow> patcher_id p = i \<Longrightarrow> patcher_ok p \<Longrightarrow> pipeline_ok (dset i p ps)"
  unfolding pipeline_ok_def by (auto dest!: set_dset)

lemma pipeline_ok_get: "pipeline_ok ps \<Longrightarrow> dget ps i = Some p \<Longrightarrow> patcher_id p = i \<and> patcher_ok p"
  unfolding pipeline_ok_def by (auto dest!: dget_in_set)

lemma load_patchers_ok: "pipeline_ok ps \<Longrightarrow> pipeline_ok (fst (load_patchers vs ps))"
  by (induction vs arbitrary: ps) (auto split: sum.splits dest: patcher_from_dict_ok intro: pipeline_ok_dset)

lemma new_pipeline_ok: "pipeline_ok (new_pipeline loads validator config fs)"
proof -
  have e: "pipeline_ok []" by (simp add: pipeline_ok_def)
  have "pipeline_ok (fst (load_from_path loads validator p content []))" for p content
    using e load_patchers_ok[OF e] by (simp add: load_from_path_def split: option.split json.split)
  then show ?thesis using e by (simp add: new_pipeline_def split: option.split)
qed

text \<open>C15: every operation keeps the patchers under their own identifiers, none of them blank.\<close>

theorem pipeline_stays_well_formed:
  assumes "pipeline_ok ps" "patcher_ok p"
  shows "pipeline_ok (add_patcher p ps) \<and> pipeline_ok (fst (remove_patcher i ps)) \<and> pipeline_ok (fst (enable_patcher i ps))
    \<and> pipeline_ok (fst (disable_patcher i ps)) \<and> pipeline_ok (fst (set_patcher_order i n ps))
    \<and> pipeline_ok (fst (load_from_path loads validator path content ps))"
proof -
  have upd: "pipeline_ok (dset i (f q) ps)" if "dget ps i = Some q" "\<And>q. patcher_id (f q) = patcher_id q" for q f
    using pipeline_ok_get[OF assms(1) that(1)] that(2) by (intro pipeline_ok_dset[OF assms(1)]) (auto simp: patcher_ok_def)
  have "pipeline_ok (ddel i ps)" using assms(1) by (auto simp: pipeline_ok_def AList.delete_eq)
  moreover have "pipeline_ok (fst (load_from_path loads validator path content ps))"
    using assms(1) load_patchers_ok[OF assms(1)] by (simp add: load_from_path_def split: option.split json.split)
  ultimately show ?thesis using assms pipeline_ok_dset[OF assms(1) refl assms(2)] upd
    by (auto simp: add_patcher_def remove_patcher_def enable_patcher_def disable_patcher_def set_patcher_order_def split: option.splits)
qed

section \<open>Writing and reading\<close>

lemma patcher_round_trip: "patcher_ok p \<Longrightarrow> patcher_from_dict (patcher_dict p) = Inr p"
  by (cases "patcher_id p") (auto simp: patcher_from_dict_def patcher_dict_def new_patcher_def patcher_ok_def Let_def dget_or_def)

definition by_id :: "patcher list \<Rightarrow> patchers" where
  "by_id xs = map (\<lambda>x. (patcher_id x, x)) xs"

lemma load_written:
  "list_all patcher_ok xs \<Longrightarrow> distinct (map patcher_id (map snd ps @ xs)) \<Longrightarrow> pipeline_ok ps \<Longrightarrow>
   load_patchers (map patcher_dict xs @ vs) ps = load_patchers vs (ps @ by_id xs)"
proof (induction xs arbitrary: ps)
  case (Cons x xs)
  have "keys ps = map patcher_id (map snd ps)" using Cons.prems(3) by (auto simp: pipeline_ok_def)
  then have "dget ps (patcher_id x) = None" using Cons.prems(2) by (auto simp: map_of_eq_None_iff)
  then have new: "dset (patcher_id x) x ps = ps @ [(patcher_id x, x)]" by (rule dset_new)
  then have "pipeline_ok (ps @ [(patcher_id x, x)])" using pipeline_ok_dset[OF Cons.prems(3) refl, of x] Cons.prems(1) by simp
  then show ?case using Cons.IH[of "ps @ [(patcher_id x, x)]"] Cons.prems patcher_round_trip new by (simp add: by_id_def)
qed (simp add: by_id_def)

lemma load_written_new: "list_all patcher_ok xs \<Longrightarrow> distinct (map patcher_id xs) \<Longrightarrow> load_patchers (map patcher_dict xs @ vs) [] = load_patchers vs (by_id xs)"
  using load_written[of xs "[]" vs] by (simp add: pipeline_ok_def)

lemma pipeline_ok_values:
  assumes "pipeline_ok ps"
  shows "ps = by_id (map snd ps)" "list_all patcher_ok (map snd ps)" "distinct (map patcher_id (map snd ps))"
proof -
  have k: "keys ps = map patcher_id (map snd ps)" using assms by (auto simp: pipeline_ok_def)
  show "list_all patcher_ok (map snd ps)" using assms by (auto simp: pipeline_ok_def list_all_iff)
  show "distinct (map patcher_id (map snd ps))" unfolding k[symmetric] using assms by (simp add: pipeline_ok_def)
  show "ps = by_id (map snd ps)" using assms by (induction ps) (auto simp: pipeline_ok_def by_id_def)
qed

lemma by_id_dget: "distinct (map patcher_id xs) \<Longrightarrow> mset ys = mset xs \<Longrightarrow> dget (by_id ys) i = dget (by_id xs) i"
proof -
  assume d: "distinct (map patcher_id xs)" and m: "mset ys = mset xs"
  have "mset (map patcher_id ys) = mset (map patcher_id xs)" using m by simp
  then have "distinct (map patcher_id ys)" using d mset_eq_imp_distinct_iff by blast
  then have "distinct (keys (by_id ys))" "distinct (keys (by_id xs))" using d by (simp_all add: by_id_def comp_def)
  moreover have "set (by_id ys) = set (by_id xs)" using mset_eq_setD[OF m] by (simp add: by_id_def)
  ultimately show ?thesis by (metis map_of_eq_Some_iff option.exhaust)
qed

text \<open>
  A pipeline that is saved and loaded again, by a JSON reader that reads what the writer writes, has the same
  patchers under the same identifiers and the same orders of execution, whatever order they were added in.
\<close>

theorem saved_pipeline_is_read_back:
  assumes "pipeline_ok ps" "loads (indented (pipeline_dict rank ps)) = Some (pipeline_dict rank ps)"
  shows "\<exists>qs. pipeline_from_json loads p (fst (pipeline_to_json indented rank None p ps fs)) = Inr qs \<and> pipeline_ok qs
    \<and> (\<forall>i. get_patcher i qs = get_patcher i ps) \<and> get_all_patchers rank qs = get_all_patchers rank ps
    \<and> get_enabled_patchers rank qs = get_enabled_patchers rank ps"
proof -
  let ?xs = "get_all_patchers rank ps"
  note v = pipeline_ok_values[OF assms(1)]
  have m: "mset ?xs = mset (map snd ps)" by (simp add: get_all_patchers_def)
  have ok: "list_all patcher_ok ?xs" using v(2) mset_eq_setD[OF m] by (simp add: list_all_iff)
  have "mset (map patcher_id ?xs) = mset (map patcher_id (map snd ps))" using m by (metis mset_map)
  then have d: "distinct (map patcher_id ?xs)" using v(3) mset_eq_imp_distinct_iff by blast
  have "load_patchers (map patcher_dict ?xs) [] = (by_id ?xs, None)" using load_written_new[OF ok d, of "[]"] by simp
  then have l: "pipeline_from_json loads p (fst (pipeline_to_json indented rank None p ps fs)) = Inr (by_id ?xs)"
    using assms(2) by (simp add: pipeline_from_json_def pipeline_to_json_def new_pipeline_def load_from_path_def pipeline_dict_def dget_or_def)
  have g: "get_patcher i (by_id ?xs) = get_patcher i ps" for i
    unfolding get_patcher_def using by_id_dget[OF v(3) m] v(1) by metis
  have s: "map snd (by_id xs) = xs" for xs by (simp add: by_id_def comp_def)
  have all: "get_all_patchers rank (by_id ?xs) = ?xs" unfolding get_all_patchers_def s by (simp add: sort_key_id_if_sorted)
  have en: "get_enabled_patchers rank (by_id ?xs) = get_enabled_patchers rank ps"
    unfolding get_enabled_patchers_def s by (simp add: get_all_patchers_def filter_sort sort_key_id_if_sorted)
  have "pipeline_ok (by_id ?xs)" using ok d by (auto simp: pipeline_ok_def by_id_def list_all_iff comp_def)
  then show ?thesis using l g all en by blast
qed

text \<open>
  A malformed row of the file is no error of \<open>from_json\<close>, and the pipeline is not empty then, as the log
  says: it has the patchers of the rows before it and lacks those after it.
\<close>

theorem malformed_row_truncates:
  assumes "dget fs p = Some content" "loads content = Some (JDict [(''version'', JInt 1), (''patchers'', JList (map patcher_dict xs @ v # vs))])"
    and "list_all patcher_ok xs" "distinct (map patcher_id xs)" "patcher_from_dict v = Inl e"
  shows "pipeline_from_json loads p fs = Inr (by_id xs)"
  using assms load_written_new[OF assms(3,4), of "v # vs"]
  by (simp add: pipeline_from_json_def new_pipeline_def load_from_path_def dget_or_def)

definition demo_patcher :: "string \<Rightarrow> int \<Rightarrow> patcher" where
  "demo_patcher s n = \<lparr>patcher_id = s, patcher_enabled = JBool True, patcher_order = JInt n, patcher_config = JDict []\<rparr>"

definition int_rank :: "json \<Rightarrow> int" where
  "int_rank v = (case v of JInt n \<Rightarrow> n | _ \<Rightarrow> 0)"

definition demo_pipeline :: patchers where
  "demo_pipeline = [(''b'', demo_patcher ''b'' 2), (''a'', demo_patcher ''a'' 1)]"

lemma demo_pipeline_ok: "pipeline_ok demo_pipeline" "patcher_ok (demo_patcher ''c'' 3)"
  by code_simp+

lemma pipeline_stays_well_formed_witness: "pipeline_ok (add_patcher (demo_patcher ''c'' 3) demo_pipeline)"
  using pipeline_stays_well_formed[OF demo_pipeline_ok] by blast

lemma saved_pipeline_is_read_back_witness:
  "\<exists>qs. pipeline_from_json (\<lambda>_. Some (pipeline_dict int_rank demo_pipeline)) [''p.json''] [([''p.json''], [])] = Inr qs
    \<and> map patcher_id (get_all_patchers int_rank qs) = [''a'', ''b'']"
proof -
  have "map patcher_id (get_all_patchers int_rank demo_pipeline) = [''a'', ''b'']" by code_simp
  then show ?thesis
    using saved_pipeline_is_read_back[OF demo_pipeline_ok(1), of "\<lambda>_. Some (pipeline_dict int_rank demo_pipeline)" "\<lambda>_. []" int_rank "[''p.json'']" "[]"]
    by (auto simp: pipeline_to_json_def)
qed

lemma malformed_row_truncates_witness:
  "pipeline_from_json (\<lambda>_. Some (JDict [(''version'', JInt 1),
     (''patchers'', JList (map patcher_dict [demo_patcher ''b'' 2] @ JNull # [patcher_dict (demo_patcher ''a'' 1)]))])) [''p.json''] [([''p.json''], [])]
   = Inr (by_id [demo_patcher ''b'' 2])"
  by (rule malformed_row_truncates[where xs = "[demo_patcher ''b'' 2]" and v = JNull and e = Type_Error and content = "[]"])
    (simp, rule refl, code_simp+)

end
