(* ===== verification/Synthesis_Runner.thy ===== *)
theory Synthesis_Runner
  imports Patcher_Pipeline
begin

text \<open>
  \<open>sky_claw/local/tools/synthesis_runner.py\<close>: the command line of Synthesis, the three regular expressions over
  its output, the plugin it leaves and the check of that plugin.  The process is an argument: from the command
  line and the files it gives the files and how it ended.  \<open>show\<close> is \<open>str\<close> of a path.
\<close>

record synthesis_config =
  game_path :: path
  mo2_path :: path
  output_path :: path
  synthesis_exe :: path
  timeout_seconds :: nat

record synthesis_result =
  synth_success :: bool
  output_esp :: "path option"
  return_code :: int
  synth_stdout :: string
  synth_stderr :: string
  patchers_executed :: "string list"
  synth_errors :: "string list"

text \<open>
  The exceptions of a tool: one of the service's own kind, with the return code it carries, another
  \<open>Exception\<close>, or a \<open>CancelledError\<close>.
\<close>

datatype tool_exception = Domain string "int option" | Foreign string | Cancellation

section \<open>The output\<close>

text \<open>Case-insensitive literals and alternatives; each gives the rest of the text after the match.\<close>

definition ci_prefix :: "string \<Rightarrow> string \<Rightarrow> string option" where
  "ci_prefix p s = (if map lower_char (take (length p) s) = p then Some (drop (length p) s) else None)"

fun first_alternative :: "string list \<Rightarrow> string \<Rightarrow> string option" where
  "first_alternative [] s = None"
| "first_alternative (p # ps) s = (case ci_prefix p s of None \<Rightarrow> first_alternative ps s | Some r \<Rightarrow> Some r)"

definition skip_one :: "char list \<Rightarrow> string \<Rightarrow> string" where
  "skip_one cs s = (case s of [] \<Rightarrow> [] | c # r \<Rightarrow> if c \<in> set cs then r else s)"

definition name_char :: "char \<Rightarrow> bool" where
  "name_char c \<longleftrightarrow> (48 \<le> code c \<and> code c \<le> 57) \<or> (65 \<le> code c \<and> code c \<le> 90) \<or> (97 \<le> code c \<and> code c \<le> 122)
     \<or> c = CHR ''_'' \<or> c = CHR ''.''"

text \<open>The matches that begin here: the group and the rest.  The classes are disjoint, so nothing is gained by backtracking.\<close>

definition patcher_match :: "string \<Rightarrow> (string \<times> string) option" where
  "patcher_match s =
    (case first_alternative [''running'', ''executing'', ''patchers:'', ''patcher:''] s of
       None \<Rightarrow> None
     | Some r \<Rightarrow>
        (let t = skip_one [SINGLE_QUOTE, char_of (34::nat)] (dropWhile is_space (skip_one '':['' (dropWhile is_space r)));
             name = takeWhile name_char t
         in if name = [] then None else Some (name, drop (length name) t)))"

text \<open>The message is the first line that is not blank after the colon; none is left when only blanks follow.\<close>

definition message_match :: "string list \<Rightarrow> string \<Rightarrow> (string \<times> string) option" where
  "message_match heads s =
    (case first_alternative heads s of
       None \<Rightarrow> None
     | Some r \<Rightarrow>
        (let t = dropWhile is_space r; msg = takeWhile (\<lambda>c. code c \<noteq> 10) t
         in if msg = [] then None else Some (msg, drop (length msg + 1) t)))"

definition error_match :: "string \<Rightarrow> (string \<times> string) option" where
  "error_match = message_match [''error:'', ''fail:'', ''exception:'', ''critical:'']"

definition success_match :: "string \<Rightarrow> bool" where
  "success_match s =
    (case first_alternative [''successfully'', ''complete'', ''finished'', ''generated''] s of
       None \<Rightarrow> False
     | Some r \<Rightarrow> (case r of [] \<Rightarrow> False | c # r' \<Rightarrow>
         is_space c \<and> first_alternative [''patch'', ''output'', ''plugin''] (dropWhile is_space r') \<noteq> None))"

text \<open>\<open>finditer\<close>: the matches from left to right, each one after the end of the last.\<close>

function find_all :: "(string \<Rightarrow> (string \<times> string) option) \<Rightarrow> string \<Rightarrow> string list" where
  "find_all m [] = []"
| "find_all m (c # s) =
    (case m (c # s) of
       None \<Rightarrow> find_all m s
     | Some (g, r) \<Rightarrow> if length r \<le> length s then g # find_all m r else [g])"
  by pat_completeness auto
termination by (relation "measure (length \<circ> snd)") auto

definition unique_in_order :: "string list \<Rightarrow> string list" where
  "unique_in_order xs = foldl (\<lambda>acc x. if x \<in> set acc then acc else acc @ [x]) [] xs"

definition messages :: "(string \<Rightarrow> (string \<times> string) option) \<Rightarrow> string \<Rightarrow> string list" where
  "messages m text = unique_in_order (filter (\<lambda>e. e \<noteq> []) (map strip (find_all m text)))"

definition parse_output :: "string \<Rightarrow> string \<Rightarrow> bool \<times> string list \<times> string list" where
  "parse_output out err =
    (let text = out @ [char_of (10::nat)] @ err;
         executed = unique_in_order (find_all patcher_match text);
         errors = messages error_match text;
         ok = list_ex success_match (map (\<lambda>i. drop i text) [0..<length text])
     in (ok \<and> errors = [], executed, errors))"

section \<open>Running\<close>

definition build_cli_args :: "(path \<Rightarrow> string) \<Rightarrow> synthesis_config \<Rightarrow> string list \<Rightarrow> string list option \<Rightarrow> string list" where
  "build_cli_args show cfg ids extra =
    [show (synthesis_exe cfg), ''--game-path'', show (game_path cfg), ''--output-path'', show (output_path cfg),
     ''--no-prompt'', ''--profile'', ''Default'']
    @ concat (map (\<lambda>i. [''--patcher'', i]) ids) @ (case extra of None \<Rightarrow> [] | Some xs \<Rightarrow> xs)"

text \<open>\<open>Process_Error\<close> is an \<open>OSError\<close> or a \<open>RuntimeError\<close>, \<open>Process_Raised\<close> any other exception.\<close>

datatype process_end =
    Exited string string "int option"
  | Program_Missing
  | Timed_Out
  | Process_Error string
  | Process_Raised string
  | Process_Cancelled

type_synonym process = "string list \<Rightarrow> file_system \<Rightarrow> file_system \<times> process_end"

definition failed_synthesis :: "string \<Rightarrow> synthesis_result" where
  "failed_synthesis e = \<lparr>synth_success = False, output_esp = None, return_code = -1, synth_stdout = [], synth_stderr = e,
     patchers_executed = [], synth_errors = [e]\<rparr>"

text \<open>The files of a directory with a suffix, in the order the file system lists them.\<close>

definition glob_suffix :: "path \<Rightarrow> string \<Rightarrow> file_system \<Rightarrow> path list" where
  "glob_suffix d suf fs = filter (\<lambda>p. p \<noteq> [] \<and> butlast p = d \<and> ends_with suf (last p)) (keys fs)"

definition SYNTHESIS_ESP :: string where
  "SYNTHESIS_ESP = ''Synthesis.esp''"

definition find_output_esp :: "synthesis_config \<Rightarrow> file_system \<Rightarrow> path option" where
  "find_output_esp cfg fs =
    (let expected = output_path cfg @ [SYNTHESIS_ESP] in
     if dget fs expected \<noteq> None then Some expected
     else (case glob_suffix (output_path cfg) ''.esp'' fs of [] \<Rightarrow> None | p # ps \<Rightarrow> Some p))"

definition run_pipeline ::
  "(path \<Rightarrow> string) \<Rightarrow> synthesis_config \<Rightarrow> process \<Rightarrow> string list \<Rightarrow> string list option \<Rightarrow> file_system \<Rightarrow>
   file_system \<times> (tool_exception + synthesis_result)" where
  "run_pipeline show cfg proc ids extra fs =
    (case proc (build_cli_args show cfg ids extra) fs of
       (fs', Program_Missing) \<Rightarrow> (fs', Inl (Domain (''Synthesis executable not found at '' @ show (synthesis_exe cfg)) None))
     | (fs', Timed_Out) \<Rightarrow> (fs', Inl (Domain (''Synthesis timed out after '' @ nat_str (timeout_seconds cfg) @ ''s'') None))
     | (fs', Process_Error e) \<Rightarrow> (fs', Inr (failed_synthesis e))
     | (fs', Process_Raised e) \<Rightarrow> (fs', Inl (Foreign e))
     | (fs', Process_Cancelled) \<Rightarrow> (fs', Inl Cancellation)
     | (fs', Exited out err status) \<Rightarrow>
        (let rc = (case status of None \<Rightarrow> 0 | Some n \<Rightarrow> n) in
         case parse_output out err of (ok, executed, errors) \<Rightarrow>
           (fs', Inr \<lparr>synth_success = ok \<and> rc = 0, output_esp = (if ok then find_output_esp cfg fs' else None), return_code = rc,
              synth_stdout = out, synth_stderr = err, patchers_executed = executed, synth_errors = errors\<rparr>)))"

definition validate_synthesis_esp :: "bool \<Rightarrow> file_system \<Rightarrow> path \<Rightarrow> bool" where
  "validate_synthesis_esp io_error fs p =
    (\<not> io_error \<and> (case dget fs p of None \<Rightarrow> False | Some c \<Rightarrow> 100 \<le> length c \<and> take 4 c = ''TES4''))"

section \<open>What the output says\<close>

lemma unique_in_order_snoc: "unique_in_order (xs @ [x]) = (if x \<in> set (unique_in_order xs) then unique_in_order xs else unique_in_order xs @ [x])"
  by (simp add: unique_in_order_def Let_def)

lemma unique_in_order_set: "set (unique_in_order xs) = set xs \<and> distinct (unique_in_order xs)"
proof (induction xs rule: rev_induct)
  case (snoc x xs)
  then show ?case by (auto simp: unique_in_order_snoc)
qed (simp add: unique_in_order_def)

text \<open>A run is a success only without a word of error in either stream, with a word of success and the return code 0.\<close>

lemma run_pipeline_success:
  assumes "run_pipeline show cfg proc ids extra fs = (fs', Inr r)" "synth_success r"
  shows "synth_errors r = [] \<and> return_code r = 0 \<and> output_esp r = find_output_esp cfg fs'"
  using assms by (auto simp: run_pipeline_def failed_synthesis_def parse_output_def Let_def split: prod.splits process_end.splits)

lemma find_output_esp_exists: "find_output_esp cfg fs = Some p \<Longrightarrow> dget fs p \<noteq> None \<and> butlast p = output_path cfg"
proof -
  assume f: "find_output_esp cfg fs = Some p"
  show ?thesis
  proof (cases "dget fs (output_path cfg @ [SYNTHESIS_ESP]) = None")
    case True
    then have "p \<in> set (glob_suffix (output_path cfg) ''.esp'' fs)" using f by (auto simp: find_output_esp_def Let_def split: list.splits)
    then show ?thesis by (auto simp: glob_suffix_def map_of_eq_None_iff)
  qed (use f in \<open>auto simp: find_output_esp_def Let_def\<close>)
qed

end
