(* ===== verification/Xedit_Runner.thy ===== *)
theory Xedit_Runner
  imports Xedit_Scripts Synthesis_Runner
begin

text \<open>
  \<open>sky_claw/local/xedit/output_parser.py\<close> and the \<open>XEditRunner\<close> of \<open>sky_claw/local/xedit/runner.py\<close>: scripts
  of the program's own directory, generated scripts in a temporary file, and the execution of a plan.  The program is
  a function that changes the files and ends in one of the ways of \<open>process_end\<close>.
\<close>

section \<open>The output of a script that reads\<close>

record xedit_conflict =
  xc_plugin :: string
  xc_record :: string
  xc_detail :: string

record xedit_result =
  xr_code :: int
  processed_plugins :: "string list"
  xr_conflicts :: "xedit_conflict list"
  xr_errors :: "string list"
  raw_stdout :: string
  raw_stderr :: string

definition xr_success :: "xedit_result \<Rightarrow> bool" where
  "xr_success r \<longleftrightarrow> xr_code r = 0 \<and> xr_errors r = []"

definition digit_char_in :: "char \<Rightarrow> bool" where
  "digit_char_in c \<longleftrightarrow> 48 \<le> code c \<and> code c \<le> 57"

text \<open>\<open>[HH:MM]\<close> and the blanks after it: how many, and the rest.\<close>

definition time_stamp :: "string \<Rightarrow> (nat \<times> string) option" where
  "time_stamp s =
    (if 7 \<le> length s \<and> s ! 0 = CHR ''['' \<and> digit_char_in (s ! 1) \<and> digit_char_in (s ! 2) \<and> s ! 3 = CHR '':''
        \<and> digit_char_in (s ! 4) \<and> digit_char_in (s ! 5) \<and> s ! 6 = CHR '']''
     then (let n = length (takeWhile is_space (drop 7 s)) in if n = 0 then None else Some (n, drop (7 + n) s))
     else None)"

definition plugin_ext :: "string \<Rightarrow> bool" where
  "plugin_ext s \<longleftrightarrow> (case ci_prefix ''.es'' s of None \<Rightarrow> False | Some r \<Rightarrow> r \<noteq> [] \<and> lower_char (hd r) \<in> set ''pmlt'')"

text \<open>
  Where the extension of \<open>.+\.es[pmlt]\<close> can stand in \<open>r\<close>, as the backtracking tries it: from the right, and at
  the very start only if one of the \<open>n\<close> blanks before it is left for the \<open>.+\<close>.
\<close>

definition plugin_spots :: "nat \<Rightarrow> string \<Rightarrow> nat list" where
  "plugin_spots n r = rev [1..<length r] @ (if 2 \<le> n then [0] else [])"

definition processing_line :: "string \<Rightarrow> string option" where
  "processing_line s =
    (case time_stamp s of
       None \<Rightarrow> None
     | Some (_, t) \<Rightarrow>
        (case ci_prefix ''processing:'' t of
           None \<Rightarrow> None
         | Some u \<Rightarrow>
            (let n = length (takeWhile is_space u); r = drop n u in
             if n = 0 then None
             else map_option (\<lambda>i. strip (take (i + 4) r)) (find (\<lambda>i. plugin_ext (drop i r)) (plugin_spots n r)))))"

text \<open>What follows the plugin: the arrow, a record name that may be blank, a colon and the detail.\<close>

definition arrow_tail :: "string \<Rightarrow> (string \<times> string) option" where
  "arrow_tail s =
    (let a = dropWhile is_space s in
     if take 2 a \<noteq> ''->'' then None
     else (let name = takeWhile (\<lambda>c. c \<noteq> CHR '':'') (drop 2 a); rest = dropWhile (\<lambda>c. c \<noteq> CHR '':'') (drop 2 a) in
       if name = [] \<or> rest = [] then None else Some (strip name, strip (tl rest))))"

definition detailed_conflict :: "string \<Rightarrow> xedit_conflict option" where
  "detailed_conflict s =
    (case time_stamp s of
       None \<Rightarrow> None
     | Some (n, r) \<Rightarrow>
        (case find (\<lambda>i. plugin_ext (drop i r) \<and> arrow_tail (drop (i + 4) r) \<noteq> None) (plugin_spots n r) of
           None \<Rightarrow> None
         | Some i \<Rightarrow> map_option (\<lambda>(name, detail). \<lparr>xc_plugin = strip (take (i + 4) r), xc_record = name, xc_detail = detail\<rparr>)
             (arrow_tail (drop (i + 4) r))))"

text \<open>A stripped line ends in no blank, so what follows the blanks is the group.\<close>

definition conflict_line :: "string \<Rightarrow> string option" where
  "conflict_line s =
    (case ci_prefix ''conflict'' s of
       None \<Rightarrow> None
     | Some t \<Rightarrow>
        (if t = [] \<or> \<not> is_space (hd t) then None
         else (case ci_prefix ''found:'' (dropWhile is_space t) of
           None \<Rightarrow> None
         | Some u \<Rightarrow> if u = [] \<or> \<not> is_space (hd u) \<or> dropWhile is_space u = [] then None else Some (strip u))))"

definition error_line :: "string \<Rightarrow> string option" where
  "error_line s =
    (case first_alternative [''error'', ''fatal''] s of
       None \<Rightarrow> None
     | Some t \<Rightarrow> (case ci_prefix '':'' (dropWhile is_space t) of
         None \<Rightarrow> None
       | Some u \<Rightarrow> if dropWhile is_space u = [] then None else Some (strip u)))"

definition parse_line :: "string \<Rightarrow> xedit_result \<Rightarrow> xedit_result" where
  "parse_line raw acc =
    (let line = strip raw in
     case processing_line line of
       Some p \<Rightarrow> acc\<lparr>processed_plugins := processed_plugins acc @ [p]\<rparr>
     | None \<Rightarrow>
        (case detailed_conflict line of
           Some c \<Rightarrow> acc\<lparr>xr_conflicts := xr_conflicts acc @ [c]\<rparr>
         | None \<Rightarrow>
            (case conflict_line line of
               Some d \<Rightarrow> acc\<lparr>xr_conflicts := xr_conflicts acc @ [\<lparr>xc_plugin = [], xc_record = [], xc_detail = d\<rparr>]\<rparr>
             | None \<Rightarrow> (case error_line line of Some e \<Rightarrow> acc\<lparr>xr_errors := xr_errors acc @ [e]\<rparr> | None \<Rightarrow> acc))))"

definition parse_xedit :: "string \<Rightarrow> string \<Rightarrow> int \<Rightarrow> xedit_result" where
  "parse_xedit out err rc =
    (let r = fold parse_line (splitlines out) \<lparr>xr_code = rc, processed_plugins = [], xr_conflicts = [], xr_errors = [],
           raw_stdout = out, raw_stderr = err\<rparr>
     in r\<lparr>xr_errors := xr_errors r @ List.map_filter error_line (map strip (splitlines err))\<rparr>)"

definition parse_conflict_report :: "string \<Rightarrow> json list" where
  "parse_conflict_report out = map (\<lambda>c. JDict [(''form_id'', JStr (form_id c)), (''editor_id'', JStr (editor_id c)),
     (''record_type'', JStr (record_type c)), (''winner'', JStr (winner c)), (''losers'', JList (map JStr (losers c)))]) (parse_conflict_lines out)"

section \<open>The output of a script that writes\<close>

record script_result =
  script_ok :: bool
  script_code :: int
  script_stdout :: string
  script_stderr :: string
  records_processed :: nat
  script_errors :: "string list"
  script_warnings :: "string list"
  script_file :: path

text \<open>The two first patterns of \<open>error_patterns\<close> are one without regard to case.\<close>

definition error_patterns :: "(string \<Rightarrow> (string \<times> string) option) list" where
  "error_patterns = map (\<lambda>h. message_match [h]) [''error:'', ''error:'', ''exception:'', ''failed to'']"

definition warning_patterns :: "(string \<Rightarrow> (string \<times> string) option) list" where
  "warning_patterns = map (\<lambda>h. message_match [h]) [''warning:'', ''warning:'', ''advertencia:'']"

definition count_then :: "(string \<Rightarrow> string option) \<Rightarrow> string \<Rightarrow> (string \<times> string) option" where
  "count_then tail s = (let ds = takeWhile digit_char_in s in
     if ds = [] then None else map_option (\<lambda>r. (ds, r)) (tail (drop (length ds) s)))"

definition records_patterns :: "(string \<Rightarrow> (string \<times> string) option) list" where
  "records_patterns =
    [\<lambda>s. Option.bind (ci_prefix ''processed '' s) (count_then (\<lambda>r. map_option (skip_one ''sS'') (ci_prefix '' record'' r))),
     \<lambda>s. Option.bind (ci_prefix ''record'' s) (\<lambda>r. Option.bind (ci_prefix '' processed:'' (skip_one ''sS'' r)) (\<lambda>u. count_then Some (dropWhile is_space u))),
     \<lambda>s. Option.bind (ci_prefix ''merged '' s) (count_then (\<lambda>r. map_option (skip_one ''sS'') (ci_prefix '' record'' r))),
     \<lambda>s. Option.bind (ci_prefix ''complete.'' s) (\<lambda>r. Option.bind (first_alternative [''processed'', ''merged''] (dropWhile is_space r))
       (\<lambda>u. count_then Some (dropWhile is_space u)))]"

text \<open>\<open>int\<close> refuses more than 4300 digits; such a count is passed over.\<close>

definition parse_script_output :: "string \<Rightarrow> string \<Rightarrow> nat \<times> string list \<times> string list" where
  "parse_script_output out err =
    (let text = out @ [NEWLINE] @ err;
         found = (\<lambda>ps. unique_in_order (filter (\<lambda>e. e \<noteq> []) (map strip (concat (map (\<lambda>p. find_all p text) ps)))));
         counts = map str_nat (filter (\<lambda>ds. length ds \<le> 4300) (concat (map (\<lambda>p. find_all p text) records_patterns)))
     in (foldl max 0 counts, found error_patterns, found warning_patterns))"

section \<open>The runner\<close>

text \<open>
  \<open>xedit_vetoes\<close> is the optional path validator: the message of the error it raises for a path.  The output
  directory is made by the constructor.
\<close>

record xedit_runner =
  xedit_exe :: path
  xedit_game :: path
  xedit_output :: path
  xedit_timeout :: nat
  xedit_vetoes :: "path \<Rightarrow> string option"

definition new_xedit_runner :: "path \<Rightarrow> path \<Rightarrow> path option \<Rightarrow> nat \<Rightarrow> (path \<Rightarrow> string option) \<Rightarrow> xedit_runner" where
  "new_xedit_runner exe game out timeout vetoes = \<lparr>xedit_exe = exe, xedit_game = game,
     xedit_output = (case out of None \<Rightarrow> butlast exe @ [''output''] | Some d \<Rightarrow> d), xedit_timeout = timeout, xedit_vetoes = vetoes\<rparr>"

definition ALLOWED_XEDIT_FLAGS :: "string list" where
  "ALLOWED_XEDIT_FLAGS = [''-IKnowWhatImDoing'', ''-autoload'', ''-SSE'', ''-quickclean'', ''-noaliases'', ''-nocrc'']"

definition SCRIPT_NAME_PATTERN :: string where
  "SCRIPT_NAME_PATTERN = ''^[a-zA-Z0-9_'' @ [CHR 0x5C] @ ''-]+'' @ [CHR 0x5C] @ ''.pas$''"

definition PLUGIN_NAME_PATTERN :: string where
  "PLUGIN_NAME_PATTERN = ''^[a-zA-Z0-9_'' @ [CHR 0x5C] @ ''- .]{1,255}'' @ [CHR 0x5C] @ ''.(esp|esm|esl)$''"

definition validate_plugins :: "string list \<Rightarrow> xedit_error + unit" where
  "validate_plugins plugins =
    (case find (\<lambda>p. \<not> safe_plugin_name p) plugins of
       Some p \<Rightarrow> Inl (Xedit_Validation (''Invalid plugin name: '' @ repr_str p @ ''. Must match '' @ PLUGIN_NAME_PATTERN))
     | None \<Rightarrow> Inr ())"

definition validate_inputs :: "string \<Rightarrow> string list \<Rightarrow> xedit_error + unit" where
  "validate_inputs script plugins =
    (if \<not> safe_script_name script
     then Inl (Xedit_Validation (''Invalid script name: '' @ repr_str script @ ''. Must match '' @ SCRIPT_NAME_PATTERN))
     else validate_plugins plugins)"

definition no_program :: "(path \<Rightarrow> string) \<Rightarrow> xedit_runner \<Rightarrow> xedit_error" where
  "no_program show cfg = Xedit_Not_Found (''xEdit executable not found at '' @ show (xedit_exe cfg))"

text \<open>The check of the executable before a run.\<close>

definition validate_program :: "(path \<Rightarrow> string) \<Rightarrow> xedit_runner \<Rightarrow> file_system \<Rightarrow> xedit_error + unit" where
  "validate_program show cfg fs =
    (case xedit_vetoes cfg (xedit_exe cfg) of
       Some e \<Rightarrow> Inl (Xedit_Foreign e)
     | None \<Rightarrow> if dget fs (xedit_exe cfg) \<noteq> None \<or> is_directory fs (xedit_exe cfg) then Inr () else Inl (no_program show cfg))"

definition run_xedit ::
  "(path \<Rightarrow> string) \<Rightarrow> xedit_runner \<Rightarrow> process \<Rightarrow> string list \<Rightarrow> file_system \<Rightarrow> file_system \<times> (xedit_error + string \<times> string \<times> int)" where
  "run_xedit show cfg proc args fs =
    (case proc args fs of
       (fs', Program_Missing) \<Rightarrow> (fs', Inl (no_program show cfg))
     | (fs', Timed_Out) \<Rightarrow> (fs', Inl (Xedit_Timeout (''xEdit timed out after '' @ nat_str (xedit_timeout cfg) @ ''s'')))
     | (fs', Process_Error e) \<Rightarrow> (fs', Inl (Xedit_Foreign e))
     | (fs', Process_Raised e) \<Rightarrow> (fs', Inl (Xedit_Foreign e))
     | (fs', Process_Cancelled) \<Rightarrow> (fs', Inl Xedit_Cancelled)
     | (fs', Exited out err status) \<Rightarrow> (fs', Inr (out, err, case status of None \<Rightarrow> 0 | Some n \<Rightarrow> n)))"

definition run_script ::
  "(path \<Rightarrow> string) \<Rightarrow> xedit_runner \<Rightarrow> process \<Rightarrow> string \<Rightarrow> string list \<Rightarrow> file_system \<Rightarrow> file_system \<times> (xedit_error + xedit_result)" where
  "run_script show cfg proc script plugins fs =
    (case validate_inputs script plugins of
       Inl e \<Rightarrow> (fs, Inl e)
     | Inr _ \<Rightarrow>
        (case validate_program show cfg fs of
           Inl e \<Rightarrow> (fs, Inl e)
         | Inr _ \<Rightarrow>
            (case run_xedit show cfg proc ([show (xedit_exe cfg), ''-SSE'', ''-autoload'', ''-script:'' @ script, ''-D:'' @ show (xedit_game cfg)] @ plugins) fs of
               (fs', Inl e) \<Rightarrow> (fs', Inl e)
             | (fs', Inr (out, err, rc)) \<Rightarrow> (fs', Inr (parse_xedit out err rc)))))"

section \<open>Generated scripts\<close>

text \<open>Whether the flag is allowed is checked when it is reached; a flag that stands there already is not repeated.\<close>

fun add_flags :: "string list \<Rightarrow> string list \<Rightarrow> xedit_error + string list" where
  "add_flags [] cmd = Inr cmd"
| "add_flags (f # fs) cmd =
    (if f \<notin> set ALLOWED_XEDIT_FLAGS
     then Inl (Xedit_Validation (''Disallowed xEdit flag: '' @ repr_str f @ ''. Allowed: '' @ py_repr (JList (map JStr
       [''-IKnowWhatImDoing'', ''-SSE'', ''-autoload'', ''-noaliases'', ''-nocrc'', ''-quickclean'']))))
     else add_flags fs (if f \<in> set cmd then cmd else cmd @ [f]))"

definition build_write_command :: "(path \<Rightarrow> string) \<Rightarrow> xedit_runner \<Rightarrow> path \<Rightarrow> string list \<Rightarrow> string list option \<Rightarrow> xedit_error + string list" where
  "build_write_command show cfg script plugins flags =
    (case add_flags (case flags of None \<Rightarrow> [] | Some fs \<Rightarrow> fs)
        [show (xedit_exe cfg), ''-SSE'', ''-IKnowWhatImDoing'', ''-script:'' @ show script, ''-D:'' @ show (xedit_game cfg)] of
       Inl e \<Rightarrow> Inl e
     | Inr cmd \<Rightarrow> Inr (cmd @ plugins))"

text \<open>
  \<open>NamedTemporaryFile\<close>: the random part of its name, and how writing the text ends: with the bytes written, or
  with an exception and the bytes it leaves in a file it had created.
\<close>

datatype temp_end = Temp_Written string | Temp_Failed "string option" string

record temp_env =
  random_part :: string
  write_temp :: "string \<Rightarrow> temp_end"

fun replace_text :: "string \<Rightarrow> string \<Rightarrow> nat \<Rightarrow> string \<Rightarrow> string" where
  "replace_text old new skip [] = []"
| "replace_text old new skip (c # s) =
    (if 0 < skip then replace_text old new (skip - 1) s
     else if take (length old) (c # s) = old then new @ replace_text old new (length old - 1) s
     else c # replace_text old new 0 s)"

definition temp_path :: "xedit_runner \<Rightarrow> string \<Rightarrow> string \<Rightarrow> path" where
  "temp_path cfg script_name rand = xedit_output cfg @ [replace_text ''.pas'' ''_'' 0 script_name @ rand @ ''.pas'']"

definition xedit_error_text :: "xedit_error \<Rightarrow> string" where
  "xedit_error_text e = (case e of Xedit_Not_Found m \<Rightarrow> m | Xedit_Validation m \<Rightarrow> m | Xedit_Script_Error m \<Rightarrow> m | Xedit_Write_Error m \<Rightarrow> m
     | Xedit_Timeout m \<Rightarrow> m | Xedit_Foreign m \<Rightarrow> m | Xedit_Cancelled \<Rightarrow> [])"

text \<open>The handlers of \<open>run_dynamic_script\<close>: a timeout and a cancellation pass, anything else becomes a script error.\<close>

definition wrap_dynamic :: "xedit_error \<Rightarrow> xedit_error" where
  "wrap_dynamic e = (case e of Xedit_Timeout m \<Rightarrow> e | Xedit_Cancelled \<Rightarrow> e
     | _ \<Rightarrow> Xedit_Script_Error (''Failed to execute dynamic script: '' @ xedit_error_text e))"

definition run_dynamic_script ::
  "(path \<Rightarrow> string) \<Rightarrow> xedit_runner \<Rightarrow> process \<Rightarrow> temp_env \<Rightarrow> string \<Rightarrow> string list \<Rightarrow> string list option \<Rightarrow> string \<Rightarrow> file_system \<Rightarrow>
   file_system \<times> (xedit_error + script_result)" where
  "run_dynamic_script show cfg proc tmp script plugins flags name fs =
    (case validate_plugins plugins of
       Inl e \<Rightarrow> (fs, Inl e)
     | Inr _ \<Rightarrow>
        (case validate_program show cfg fs of
           Inl e \<Rightarrow> (fs, Inl e)
         | Inr _ \<Rightarrow>
            (let file = temp_path cfg name (random_part tmp) in
             case write_temp tmp script of
               Temp_Failed left e \<Rightarrow> (case left of None \<Rightarrow> fs | Some b \<Rightarrow> dset file b fs, Inl (wrap_dynamic (Xedit_Foreign e)))
             | Temp_Written b \<Rightarrow>
                (let fs1 = dset file b fs in
                 case build_write_command show cfg file plugins flags of
                   Inl e \<Rightarrow> (fs1, Inl (wrap_dynamic e))
                 | Inr cmd \<Rightarrow>
                    (case run_xedit show cfg proc cmd fs1 of
                       (fs2, Inl e) \<Rightarrow> (fs2, Inl (wrap_dynamic e))
                     | (fs2, Inr (out, err, rc)) \<Rightarrow>
                        (case parse_script_output out err of (n, errors, warns) \<Rightarrow>
                          (fs2, Inr \<lparr>script_ok = (rc = 0 \<and> errors = []), script_code = rc, script_stdout = out, script_stderr = err,
                             records_processed = n, script_errors = errors, script_warnings = warns, script_file = file\<rparr>)))))))"

definition kind_value :: "patch_kind \<Rightarrow> string" where
  "kind_value k = (case k of Merged_Patch \<Rightarrow> ''create_merged_patch'' | Xedit_Script \<Rightarrow> ''execute_xedit_script''
     | Forward_Declaration \<Rightarrow> ''forward_declaration'')"

definition patch_script_name :: "patch_plan \<Rightarrow> string" where
  "patch_script_name p = ''patch_'' @ kind_value (plan_kind p) @ ''.pas''"

text \<open>
  \<open>stored\<close> reads the script a plan names, relative to the working directory: none if it does not exist, the
  exception or the text.
\<close>

definition plan_script :: "(string \<times> string \<Rightarrow> (string + string) option) \<Rightarrow> patch_plan \<Rightarrow> xedit_error + string" where
  "plan_script stored p =
    (case Option.bind (script_path p) stored of
       Some (Inl e) \<Rightarrow> Inl (Xedit_Foreign e)
     | Some (Inr text) \<Rightarrow> Inr text
     | None \<Rightarrow> (case generate_script_from_plan p of
         Inl e \<Rightarrow> Inl (Xedit_Script_Error (''Script generation failed: '' @ xedit_error_text e))
       | Inr text \<Rightarrow> Inr text))"

definition execute_patch ::
  "(path \<Rightarrow> string) \<Rightarrow> xedit_runner \<Rightarrow> process \<Rightarrow> temp_env \<Rightarrow> (string \<times> string \<Rightarrow> (string + string) option) \<Rightarrow> patch_plan \<Rightarrow> file_system \<Rightarrow>
   file_system \<times> (xedit_error + script_result)" where
  "execute_patch show cfg proc tmp stored p fs =
    (case plan_script stored p of
       Inl e \<Rightarrow> (fs, Inl e)
     | Inr script \<Rightarrow>
        (case run_dynamic_script show cfg proc tmp script (target_plugins p) (Some [''-IKnowWhatImDoing'']) (patch_script_name p) fs of
           (fs', Inl e) \<Rightarrow> (fs', Inl e)
         | (fs', Inr r) \<Rightarrow> (fs', if script_ok r then Inr r
             else Inl (Xedit_Write_Error (''Patch execution failed: '' @ py_repr (JList (map JStr (script_errors r))))))))"

section \<open>What is started\<close>

definition vetted :: "(path \<Rightarrow> string) \<Rightarrow> xedit_runner \<Rightarrow> string list \<Rightarrow> bool" where
  "vetted show cfg cmd \<longleftrightarrow> (\<exists>script flags plugins.
     cmd = [show (xedit_exe cfg), ''-SSE'', ''-IKnowWhatImDoing'', ''-script:'' @ show script, ''-D:'' @ show (xedit_game cfg)] @ flags @ plugins
     \<and> butlast script = xedit_output cfg \<and> set flags \<subseteq> set ALLOWED_XEDIT_FLAGS \<and> list_all safe_plugin_name plugins)"

lemma add_flags_allowed: "add_flags fs cmd = Inr cmd' \<Longrightarrow> \<exists>flags. cmd' = cmd @ flags \<and> set flags \<subseteq> set ALLOWED_XEDIT_FLAGS"
proof (induction fs arbitrary: cmd)
  case (Cons f fs)
  then have f: "f \<in> set ALLOWED_XEDIT_FLAGS" by (auto split: if_splits)
  with Cons obtain flags where "cmd' = (if f \<in> set cmd then cmd else cmd @ [f]) @ flags" "set flags \<subseteq> set ALLOWED_XEDIT_FLAGS"
    by (fastforce split: if_splits)
  with f show ?case by (intro exI[of _ "(if f \<in> set cmd then [] else [f]) @ flags"]) auto
qed simp

lemma validate_plugins_safe: "validate_plugins ps = Inr u \<Longrightarrow> list_all safe_plugin_name ps"
  by (auto simp: validate_plugins_def find_None_iff list_all_iff split: option.splits)

lemma build_vetted:
  assumes "validate_plugins plugins = Inr u" "build_write_command show cfg (temp_path cfg name rand) plugins flags = Inr cmd"
  shows "vetted show cfg cmd"
proof -
  have b: "butlast (temp_path cfg name rand) = xedit_output cfg" by (simp add: temp_path_def)
  obtain fl where fl: "cmd = [show (xedit_exe cfg), ''-SSE'', ''-IKnowWhatImDoing'', ''-script:'' @ show (temp_path cfg name rand),
      ''-D:'' @ show (xedit_game cfg)] @ fl @ plugins" "set fl \<subseteq> set ALLOWED_XEDIT_FLAGS"
    using assms(2) by (auto simp: build_write_command_def split: sum.splits dest!: add_flags_allowed)
  show ?thesis unfolding vetted_def
    by (intro exI[of _ "temp_path cfg name rand"] exI[of _ fl] exI[of _ plugins] conjI) (use fl b validate_plugins_safe[OF assms(1)] in auto)
qed

text \<open>
  C9: a plan starts no program but with a vetted command: the options of the list, the script in the output
  directory, and plugins with safe names.  So two programs that behave alike on those give the same run.
\<close>

theorem only_vetted_commands_run:
  assumes "\<forall>cmd fs. vetted show cfg cmd \<longrightarrow> proc cmd fs = other cmd fs"
  shows "execute_patch show cfg proc tmp stored p fs = execute_patch show cfg other tmp stored p fs"
proof -
  have same: "run_dynamic_script show cfg proc tmp script (target_plugins p) flags name fs
      = run_dynamic_script show cfg other tmp script (target_plugins p) flags name fs" for script flags name
  proof (cases "validate_plugins (target_plugins p)")
    case (Inr u)
    have "proc cmd fs1 = other cmd fs1"
      if "build_write_command show cfg (temp_path cfg name (random_part tmp)) (target_plugins p) flags = Inr cmd" for cmd fs1
      using assms build_vetted[OF Inr that] by blast
    then show ?thesis using Inr
      by (auto simp: run_dynamic_script_def run_xedit_def Let_def split: sum.splits temp_end.splits)
  qed (simp add: run_dynamic_script_def)
  show ?thesis unfolding execute_patch_def by (simp only: same)
qed

text \<open>A shell given in place of the program is never started: what it would do does not show.\<close>

definition demo_xedit :: xedit_runner where
  "demo_xedit = new_xedit_runner [''tools'', ''SSEEdit.exe''] [''game''] None 120 (\<lambda>p. None)"

definition demo_temp :: temp_env where
  "demo_temp = \<lparr>random_part = ''k3'', write_temp = Temp_Written\<rparr>"

definition quiet_xedit :: process where
  "quiet_xedit cmd fs = (fs, Exited ''Records processed: 4'' [] (Some 0))"

definition shell_on_short :: process where
  "shell_on_short cmd fs = (if length cmd < 5 then ([], Exited [] [] (Some 0)) else quiet_xedit cmd fs)"

theorem only_vetted_commands_run_witness:
  "execute_patch last demo_xedit quiet_xedit demo_temp (\<lambda>q. None) (forward_plan ''Skyrim.esm'') [([''tools'', ''SSEEdit.exe''], ''MZ'')]
   = execute_patch last demo_xedit shell_on_short demo_temp (\<lambda>q. None) (forward_plan ''Skyrim.esm'') [([''tools'', ''SSEEdit.exe''], ''MZ'')]"
  by (rule only_vetted_commands_run) (auto simp: vetted_def shell_on_short_def)

section \<open>When a plan succeeds\<close>

definition patch_command :: "(path \<Rightarrow> string) \<Rightarrow> xedit_runner \<Rightarrow> path \<Rightarrow> string list \<Rightarrow> string list" where
  "patch_command show cfg file plugins =
    [show (xedit_exe cfg), ''-SSE'', ''-IKnowWhatImDoing'', ''-script:'' @ show file, ''-D:'' @ show (xedit_game cfg)] @ plugins"

lemma build_patch_command: "build_write_command show cfg file plugins (Some [''-IKnowWhatImDoing'']) = Inr (patch_command show cfg file plugins)"
  by (simp add: build_write_command_def patch_command_def ALLOWED_XEDIT_FLAGS_def)

text \<open>
  A plan succeeds exactly when the plugin names are safe, the program is there, the script was found or generated
  and written, and the program ends with code 0 (or none) and an output in which no error pattern matches.
\<close>

theorem patch_succeeds_iff:
  "execute_patch show cfg proc tmp stored p fs = (fs', Inr r) \<longleftrightarrow>
   (\<exists>script b out err st n ws. let place = temp_path cfg (patch_script_name p) (random_part tmp) in
      validate_plugins (target_plugins p) = Inr () \<and> validate_program show cfg fs = Inr () \<and> plan_script stored p = Inr script
      \<and> write_temp tmp script = Temp_Written b
      \<and> proc (patch_command show cfg place (target_plugins p)) (dset place b fs) = (fs', Exited out err st) \<and> st \<in> {None, Some 0}
      \<and> parse_script_output out err = (n, [], ws)
      \<and> r = \<lparr>script_ok = True, script_code = 0, script_stdout = out, script_stderr = err, records_processed = n, script_errors = [],
           script_warnings = ws, script_file = place\<rparr>)"
  (is "_ \<longleftrightarrow> ?rhs")
proof (cases "validate_plugins (target_plugins p) = Inr () \<and> validate_program show cfg fs = Inr ()")
  case False
  then show ?thesis
    by (auto simp: execute_patch_def run_dynamic_script_def Let_def split: sum.splits)
next
  case True
  show ?thesis
  proof (cases "plan_script stored p")
    case (Inl e)
    then show ?thesis by (auto simp: execute_patch_def Let_def)
  next
    case (Inr script)
    show ?thesis
    proof (cases "write_temp tmp script")
      case (Temp_Failed left e)
      then show ?thesis using True Inr by (auto simp: execute_patch_def run_dynamic_script_def Let_def split: sum.splits)
    next
      case (Temp_Written b)
      define place where "place = temp_path cfg (patch_script_name p) (random_part tmp)"
      obtain fs2 e where e: "proc (patch_command show cfg place (target_plugins p)) (dset place b fs) = (fs2, e)" by fastforce
      note known = True Inr Temp_Written e build_patch_command place_def[symmetric]
      show ?thesis
      proof (cases "\<exists>out err st. e = Exited out err st")
        case False
        then have "isl (snd (execute_patch show cfg proc tmp stored p fs))"
          by (cases e) (simp_all add: execute_patch_def run_dynamic_script_def run_xedit_def Let_def known)
        then show ?thesis using False known by (auto simp: Let_def)
      next
        case True
        then obtain out err st where x: "e = Exited out err st" by blast
        obtain n es ws where o: "parse_script_output out err = (n, es, ws)" by (metis surj_pair)
        have c: "(case st of None \<Rightarrow> 0 | Some k \<Rightarrow> k) = 0 \<longleftrightarrow> st \<in> {None, Some 0}" by (cases st) auto
        have "execute_patch show cfg proc tmp stored p fs = (fs2, if st \<in> {None, Some 0} \<and> es = []
            then Inr \<lparr>script_ok = True, script_code = 0, script_stdout = out, script_stderr = err, records_processed = n,
              script_errors = [], script_warnings = ws, script_file = place\<rparr>
            else Inl (Xedit_Write_Error (''Patch execution failed: '' @ py_repr (JList (map JStr es)))))"
          unfolding c[symmetric] by (simp add: execute_patch_def run_dynamic_script_def run_xedit_def Let_def known x o)
        then show ?thesis using known x o by (auto simp: Let_def)
      qed
    qed
  qed
qed

section \<open>What counts as an error\<close>

lemma find_all_Nil: "find_all m s = [] \<longleftrightarrow> (\<forall>i < length s. m (drop i s) = None)"
proof (induction m s rule: find_all.induct)
  case (2 m c s)
  have all: "(\<forall>i < Suc (length s). m (drop i (c # s)) = None) \<longleftrightarrow> m (c # s) = None \<and> (\<forall>i < length s. m (drop i s) = None)"
    by (auto simp: less_Suc_eq_0_disj)
  show ?case
  proof (cases "m (c # s)")
    case None
    then show ?thesis using "2.IH"(1)[OF None] all by simp
  next
    case (Some gr)
    then show ?thesis using all by (cases gr) auto
  qed
qed simp

lemma hd_takeWhile: "takeWhile P xs \<noteq> [] \<Longrightarrow> hd (takeWhile P xs) = hd xs"
  by (cases xs) auto

lemma message_found:
  assumes "message_match hs s = Some (g, r)"
  shows "g \<noteq> [] \<and> \<not> is_space (hd g)"
proof -
  obtain u where g: "g = takeWhile (\<lambda>c. code c \<noteq> 10) (dropWhile is_space u)" "g \<noteq> []"
    using assms by (auto simp: message_match_def Let_def split: option.splits if_splits)
  then have "dropWhile is_space u \<noteq> []" by (metis takeWhile.simps(1))
  with g show ?thesis using hd_takeWhile[of "\<lambda>c. code c \<noteq> 10" "dropWhile is_space u"] hd_dropWhile[of is_space u] by metis
qed

lemma strip_nonblank: "g \<noteq> [] \<Longrightarrow> \<not> is_space (hd g) \<Longrightarrow> strip g \<noteq> []"
  by (cases g) (auto simp: strip_def dropWhile_eq_Nil_conv)

lemma find_all_members: "g \<in> set (find_all m s) \<Longrightarrow> \<exists>t r. m t = Some (g, r)"
proof (induction m s rule: find_all.induct)
  case (2 m c s)
  then show ?case by (auto split: option.splits if_splits)
qed simp

lemma set_unique: "set (foldl (\<lambda>acc x. if x \<in> set acc then acc else acc @ [x]) a xs) = set a \<union> set xs"
  by (induction xs arbitrary: a) auto

lemma no_errors_iff:
  "fst (snd (parse_script_output out err)) = [] \<longleftrightarrow>
   (\<forall>h \<in> {''error:'', ''exception:'', ''failed to''}. \<forall>i < length (out @ [NEWLINE] @ err). message_match [h] (drop i (out @ [NEWLINE] @ err)) = None)"
proof -
  let ?t = "out @ [NEWLINE] @ err"
  let ?H = "[''error:'', ''error:'', ''exception:'', ''failed to'']"
  have nonblank: "strip g \<noteq> []" if "g \<in> set (find_all (message_match [h]) ?t)" for g h
    using find_all_members[OF that] message_found strip_nonblank by blast
  have "fst (snd (parse_script_output out err)) = [] \<longleftrightarrow>
      set (filter (\<lambda>e. e \<noteq> []) (map strip (concat (map (\<lambda>p. find_all p ?t) error_patterns)))) = {}"
    unfolding parse_script_output_def Let_def unique_in_order_def fst_conv snd_conv set_empty[symmetric] set_unique by simp
  also have "\<dots> \<longleftrightarrow> (\<forall>h \<in> set ?H. find_all (message_match [h]) ?t = [])"
  proof (rule iffI)
    assume e: "set (filter (\<lambda>e. e \<noteq> []) (map strip (concat (map (\<lambda>p. find_all p ?t) error_patterns)))) = {}"
    show "\<forall>h \<in> set ?H. find_all (message_match [h]) ?t = []"
    proof (rule ballI, rule ccontr)
      fix h assume h: "h \<in> set ?H" and ne: "find_all (message_match [h]) ?t \<noteq> []"
      from ne obtain g where g: "g \<in> set (find_all (message_match [h]) ?t)" by (cases "find_all (message_match [h]) ?t") auto
      then have "strip g \<in> set (filter (\<lambda>e. e \<noteq> []) (map strip (concat (map (\<lambda>p. find_all p ?t) error_patterns))))"
        using nonblank[OF g] h by (auto simp: error_patterns_def)
      from this[unfolded e] show False by (rule emptyE)
    qed
  qed (auto simp: error_patterns_def)
  also have "\<dots> \<longleftrightarrow> (\<forall>h \<in> {''error:'', ''exception:'', ''failed to''}. \<forall>i < length ?t. message_match [h] (drop i ?t) = None)"
    unfolding find_all_Nil by simp
  finally show ?thesis .
qed

text \<open>
  The generated merge script reports a record it cannot copy as a warning and goes on; the runner takes that line
  for an error, and the plan fails.
\<close>

lemma copy_warning_is_an_error:
  "fst (snd (parse_script_output (before @ ''WARNING: Failed to copy record: '' @ after) err)) \<noteq> []"
proof -
  let ?t = "(before @ ''WARNING: Failed to copy record: '' @ after) @ [NEWLINE] @ err"
  have d: "drop (length before + 9) ?t = ''Failed to copy record: '' @ after @ [NEWLINE] @ err" by simp
  have m: "message_match [''failed to''] (drop (length before + 9) ?t) \<noteq> None"
  proof -
    have low: "map lower_char ''Failed to'' = ''failed to''" "is_space (CHR '' '')" "\<not> is_space (CHR ''c'')" "code (CHR ''c'') \<noteq> 10" by code_simp+
    have "ci_prefix ''failed to'' (''Failed to'' @ u) = Some u" for u
      unfolding ci_prefix_def using low(1) by simp
    from this[of "'' copy record: '' @ after @ [NEWLINE] @ err"] show ?thesis
      unfolding d using low(2-) by (simp add: message_match_def Let_def)
  qed
  show ?thesis
  proof
    assume e: "fst (snd (parse_script_output (before @ ''WARNING: Failed to copy record: '' @ after) err)) = []"
    have "message_match [''failed to''] (drop (length before + 9) ?t) = None"
      by (rule e[unfolded no_errors_iff, rule_format]) simp_all
    with m show False by blast
  qed
qed

end
