(* ===== verification/Lock_Manager.thy ===== *)
theory Lock_Manager
  imports Prelude
begin

text \<open>
  \<open>sky_claw/antigravity/db/locks.py\<close>, \<open>DistributedLockManager\<close>: leases on resources in the SQLite
  table \<open>resource_locks\<close>, whose primary key is the resource.  The table is a dict from resources to
  leases and each SQL statement is the function it denotes on it.  Times are \<open>time.time()\<close>.
\<close>

record lease =
  lease_agent :: string
  acquired_at :: real
  expires_at :: real

type_synonym lock_table = "(string, lease) dict"

record lock_info =
  info_resource :: string
  info_agent :: string
  info_acquired :: real
  info_expires :: real

record lock_config =
  default_ttl :: real
  max_retries :: nat
  backoff_base :: real
  backoff_max :: real

definition default_lock_config :: lock_config where
  "default_lock_config = \<lparr>default_ttl = 600, max_retries = 5, backoff_base = 1/10, backoff_max = 5\<rparr>"

datatype lock_error = Lock_Acquisition_Error string string | Lock_Release_Error string

section \<open>Statements\<close>

text \<open>\<open>_ACQUIRE_SQL\<close>, with its row count.\<close>

definition acquire_sql :: "string \<Rightarrow> string \<Rightarrow> real \<Rightarrow> real \<Rightarrow> lock_table \<Rightarrow> lock_table \<times> nat" where
  "acquire_sql r a now expires t =
    (let new = \<lparr>lease_agent = a, acquired_at = now, expires_at = expires\<rparr> in
     case dget t r of
       None \<Rightarrow> (dset r new t, 1)
     | Some l \<Rightarrow> if expires_at l < now then (dset r new t, 1) else (t, 0))"

definition release_sql :: "string \<Rightarrow> string \<Rightarrow> lock_table \<Rightarrow> lock_table \<times> nat" where
  "release_sql r a t =
    (case dget t r of
       None \<Rightarrow> (t, 0)
     | Some l \<Rightarrow> if lease_agent l = a then (ddel r t, 1) else (t, 0))"

definition release_any_sql :: "string \<Rightarrow> lock_table \<Rightarrow> lock_table \<times> nat" where
  "release_any_sql r t = (if dhas t r then (ddel r t, 1) else (t, 0))"

section \<open>Acquiring, with retries\<close>

text \<open>
  What one attempt meets: the changes other connections made to the table since the last look, the
  clock, and whether the database raises.  What a failed commit leaves in the table is the
  database's business, so the fault carries the table found after it.
\<close>

datatype db_fault = No_Fault | Execute_Error | Commit_Error lock_table

record attempt_env =
  others :: "lock_table \<Rightarrow> lock_table"
  clock :: real
  fault :: db_fault

definition backoff_delay :: "lock_config \<Rightarrow> nat \<Rightarrow> real" where
  "backoff_delay c attempt = min (backoff_base c * 2 ^ attempt) (backoff_max c)"

definition attempt_once ::
  "string \<Rightarrow> string \<Rightarrow> real \<Rightarrow> attempt_env \<Rightarrow> lock_table \<Rightarrow> lock_table \<times> lock_info option" where
  "attempt_once r a ttl env t =
    (let t1 = others env t; now = clock env in
     case fault env of
       Execute_Error \<Rightarrow> (t1, None)
     | Commit_Error t2 \<Rightarrow> (t2, None)
     | No_Fault \<Rightarrow>
         (let (t2, rowcount) = acquire_sql r a now (now + ttl) t1 in
          (t2, if rowcount > 0 then Some \<lparr>info_resource = r, info_agent = a, info_acquired = now,
                 info_expires = now + ttl\<rparr> else None)))"

text \<open>
  The loop over \<open>range(max_retries)\<close> from attempt \<open>i\<close> with \<open>n\<close> attempts left; the last component is
  the delays slept.
\<close>

fun acquire_from ::
  "lock_config \<Rightarrow> string \<Rightarrow> string \<Rightarrow> real \<Rightarrow> (nat \<Rightarrow> attempt_env) \<Rightarrow> nat \<Rightarrow> nat \<Rightarrow> lock_table \<Rightarrow>
   lock_table \<times> (lock_error + lock_info) \<times> real list" where
  "acquire_from c r a ttl envs i 0 t = (t, Inl (Lock_Acquisition_Error r a), [])"
| "acquire_from c r a ttl envs i (Suc n) t =
    (case attempt_once r a ttl (envs i) t of
       (t1, Some info) \<Rightarrow> (t1, Inr info, [])
     | (t1, None) \<Rightarrow>
         (let (t2, res, sleeps) = acquire_from c r a ttl envs (Suc i) n t1
          in (t2, res, if i < max_retries c - 1 then backoff_delay c i # sleeps else sleeps)))"

definition acquire_lock ::
  "lock_config \<Rightarrow> string \<Rightarrow> string \<Rightarrow> real option \<Rightarrow> (nat \<Rightarrow> attempt_env) \<Rightarrow> lock_table \<Rightarrow>
   lock_table \<times> (lock_error + lock_info) \<times> real list" where
  "acquire_lock c r a ttl envs t =
    acquire_from c r a (case ttl of None \<Rightarrow> default_ttl c | Some x \<Rightarrow> x) envs 0 (max_retries c) t"

section \<open>The other operations\<close>

text \<open>\<open>db_error\<close>: the database raises and nothing is deleted.\<close>

definition release_lock :: "bool \<Rightarrow> string \<Rightarrow> string \<Rightarrow> lock_table \<Rightarrow> lock_table \<times> (lock_error + bool)" where
  "release_lock db_error r a t =
    (if db_error then (t, Inl (Lock_Release_Error r))
     else let (t', deleted) = release_sql r a t in (t', Inr (deleted > 0)))"

definition force_release :: "bool \<Rightarrow> string \<Rightarrow> lock_table \<Rightarrow> lock_table \<times> (lock_error + bool)" where
  "force_release db_error r t =
    (if db_error then (t, Inl (Lock_Release_Error r))
     else let (t', deleted) = release_any_sql r t in (t', Inr (deleted > 0)))"

definition get_lock_info :: "lock_table \<Rightarrow> string \<Rightarrow> lock_info option" where
  "get_lock_info t r = map_option (\<lambda>l. \<lparr>info_resource = r, info_agent = lease_agent l,
     info_acquired = acquired_at l, info_expires = expires_at l\<rparr>) (dget t r)"

definition cleanup_expired :: "real \<Rightarrow> lock_table \<Rightarrow> lock_table \<times> nat" where
  "cleanup_expired now t =
    (let t' = filter (\<lambda>(_, l). \<not> expires_at l < now) t in (t', length t - length t'))"

definition remaining_ttl :: "lock_info \<Rightarrow> real \<Rightarrow> real" where
  "remaining_ttl i now = max 0 (info_expires i - now)"

definition is_expired :: "lock_info \<Rightarrow> real \<Rightarrow> bool" where
  "is_expired i now \<longleftrightarrow> now \<ge> info_expires i"

section \<open>The table under many agents\<close>

text \<open>
  One committed operation of some agent on the shared table, with its clock (a \<open>Try_Acquire\<close> has the
  resource, the agent, the TTL and the clock).
\<close>

datatype lock_event =
    Try_Acquire string string real real
  | Do_Release string string
  | Do_Force string
  | Do_Cleanup real

fun lock_event_step :: "lock_table \<Rightarrow> lock_event \<Rightarrow> lock_table" where
  "lock_event_step t (Try_Acquire r a ttl now) = fst (acquire_sql r a now (now + ttl) t)"
| "lock_event_step t (Do_Release r a) = fst (release_sql r a t)"
| "lock_event_step t (Do_Force r) = fst (release_any_sql r t)"
| "lock_event_step t (Do_Cleanup now) = fst (cleanup_expired now t)"

text \<open>An event that leaves a lease of \<open>a\<close> on \<open>r\<close> until \<open>limit\<close> alone.\<close>

fun harmless :: "string \<Rightarrow> string \<Rightarrow> real \<Rightarrow> lock_event \<Rightarrow> bool" where
  "harmless r a limit (Try_Acquire r' a' ttl now) = (now \<le> limit)"
| "harmless r a limit (Do_Release r' a') = ((r', a') \<noteq> (r, a))"
| "harmless r a limit (Do_Force r') = (r' \<noteq> r)"
| "harmless r a limit (Do_Cleanup now) = (now \<le> limit)"

lemma distinct_step [simp]:
  "distinct (keys t) \<Longrightarrow> distinct (keys (lock_event_step t e))"
  by (cases e) (auto simp: acquire_sql_def release_sql_def release_any_sql_def cleanup_expired_def Let_def
      split: option.splits)

lemma distinct_steps: "distinct (keys t) \<Longrightarrow> distinct (keys (foldl lock_event_step t es))"
  by (induction es arbitrary: t) auto

lemma harmless_keeps:
  "distinct (keys t) \<Longrightarrow> dget t r = Some l \<Longrightarrow> harmless r (lease_agent l) (expires_at l) e \<Longrightarrow>
   dget (lock_event_step t e) r = Some l"
  by (cases e) (auto simp: acquire_sql_def release_sql_def release_any_sql_def cleanup_expired_def
      dget_filter Let_def split: option.splits)

lemma all_harmless_keep:
  "distinct (keys t) \<Longrightarrow> dget t r = Some l \<Longrightarrow> list_all (harmless r (lease_agent l) (expires_at l)) es \<Longrightarrow>
   dget (foldl lock_event_step t es) r = Some l"
  by (induction es arbitrary: t) (simp_all add: harmless_keeps)

lemma attempt_once_stored:
  "attempt_once r a ttl env t = (t', Some info) \<Longrightarrow> get_lock_info t' r = Some info \<and> info_agent info = a
     \<and> info_expires info = info_acquired info + ttl"
  by (auto simp: attempt_once_def acquire_sql_def get_lock_info_def Let_def
      split: db_fault.splits option.splits if_splits)

lemma acquire_from_stored:
  "acquire_from c r a ttl envs i n t = (t', Inr info, sleeps) \<Longrightarrow>
   get_lock_info t' r = Some info \<and> info_agent info = a \<and> info_expires info = info_acquired info + ttl"
proof (induction n arbitrary: i t sleeps)
  case (Suc n)
  obtain t1 res where o: "attempt_once r a ttl (envs i) t = (t1, res)" by fastforce
  then show ?case using Suc attempt_once_stored[of r a ttl "envs i" t t1]
    by (cases res) (auto simp: Let_def split: prod.splits)
qed simp

text \<open>The delays slept, in order, and how many there can be.\<close>

lemma acquire_from_sleeps:
  "i + n = max_retries c \<Longrightarrow> acquire_from c r a ttl envs i n t = (t', res, sleeps) \<Longrightarrow>
   \<exists>k. sleeps = map (backoff_delay c) [i..<i + k] \<and> k \<le> n - 1 \<and> (\<not> isl res \<or> k = n - 1)"
proof (induction n arbitrary: i t sleeps)
  case 0
  then show ?case by (intro exI[of _ 0]) simp
next
  case (Suc n)
  obtain t1 got where o: "attempt_once r a ttl (envs i) t = (t1, got)" by fastforce
  show ?case
  proof (cases got)
    case (Some info)
    then show ?thesis using Suc.prems o by (intro exI[of _ 0]) auto
  next
    case None
    obtain t2 res2 sl where rec: "acquire_from c r a ttl envs (Suc i) n t1 = (t2, res2, sl)"
      by (metis surj_pair)
    have eq: "t2 = t'" "res2 = res" "sleeps = (if i < max_retries c - 1 then backoff_delay c i # sl else sl)"
      using Suc.prems(2) o None rec by auto
    have "Suc i + n = max_retries c" using Suc.prems(1) by simp
    from Suc.IH[OF this rec[unfolded eq(1,2)]] obtain k where k: "sl = map (backoff_delay c) [Suc i..<Suc i + k]"
      "k \<le> n - 1" "\<not> isl res \<or> k = n - 1" by blast
    show ?thesis
    proof (cases "n = 0")
      case True
      then show ?thesis using eq k Suc.prems(1) by (intro exI[of _ 0]) auto
    next
      case False
      then have "i < max_retries c - 1" using Suc.prems(1) by linarith
      then have "sleeps = map (backoff_delay c) [i..<i + Suc k]"
        using eq k by (simp add: upt_rec)
      then show ?thesis using eq k False by (intro exI[of _ "Suc k"]) auto
    qed
  qed
qed

lemma get_lock_info_iff:
  "get_lock_info t r = Some i \<longleftrightarrow> (\<exists>l. dget t r = Some l \<and> i = \<lparr>info_resource = r,
     info_agent = lease_agent l, info_acquired = acquired_at l, info_expires = expires_at l\<rparr>)"
  by (cases "dget t r") (auto simp: get_lock_info_def)

section \<open>Properties\<close>

text \<open>
  C5: a lease excludes: whatever any agents and connections do to the table, as long as their clocks
  are not past its expiry and nobody releases the resource in its agent's name or forces it, the
  lease stays, and every attempt to acquire the resource, by its own agent too, gets nothing.  These
  two are what ends it early, and each of them does: a forced release by whomever it comes.
\<close>

theorem lease_excludes:
  assumes "acquire_lock c r a ttl envs t = (t', Inr info, sleeps)" and "distinct (keys t')"
    and "list_all (harmless r a (info_expires info)) es" and "now \<le> info_expires info"
  shows "get_lock_info (foldl lock_event_step t' es) r = Some info
    \<and> snd (acquire_sql r b now expires (foldl lock_event_step t' es)) = 0
    \<and> get_lock_info (lock_event_step (foldl lock_event_step t' es) (Do_Release r a)) r = None
    \<and> get_lock_info (lock_event_step (foldl lock_event_step t' es) (Do_Force r)) r = None"
proof -
  have stored: "get_lock_info t' r = Some info" "info_agent info = a"
    using acquire_from_stored assms(1) unfolding acquire_lock_def by blast+
  from stored(1) obtain l where "dget t' r = Some l" "info = \<lparr>info_resource = r, info_agent = lease_agent l,
      info_acquired = acquired_at l, info_expires = expires_at l\<rparr>"
    unfolding get_lock_info_iff by blast
  with stored(2) have l: "dget t' r = Some l" "lease_agent l = a" "expires_at l = info_expires info"
    by simp_all
  from all_harmless_keep[OF assms(2) l(1)] l assms(3)
  have "dget (foldl lock_event_step t' es) r = Some l" by simp
  with l stored assms(4) show ?thesis
    by (auto simp: get_lock_info_def acquire_sql_def release_sql_def release_any_sql_def dhas_def)
qed

definition calm :: "real \<Rightarrow> nat \<Rightarrow> attempt_env" where
  "calm now i = \<lparr>others = (\<lambda>t. t), clock = now, fault = No_Fault\<rparr>"

lemma calm_attempt:
  "attempt_once r a ttl (calm now i) t = (case acquire_sql r a now (now + ttl) t of (t', n) \<Rightarrow>
     (t', if n > 0 then Some \<lparr>info_resource = r, info_agent = a, info_acquired = now, info_expires = now + ttl\<rparr> else None))"
  by (simp add: attempt_once_def calm_def)

lemma acquire_from_first:
  "0 < n \<Longrightarrow> attempt_once r a ttl (envs i) t = (t1, Some info) \<Longrightarrow>
   acquire_from c r a ttl envs i n t = (t1, Inr info, [])"
  by (cases n) simp_all

lemma acquire_sql_new: "acquire_sql r a now expires [] = ([(r, \<lparr>lease_agent = a, acquired_at = now, expires_at = expires\<rparr>)], 1)"
  by (simp add: acquire_sql_def)

definition demo_table :: lock_table where
  "demo_table = [(''mods'', \<lparr>lease_agent = ''a'', acquired_at = 0, expires_at = 600\<rparr>)]"

lemma demo_table_eq:
  "acquire_lock default_lock_config ''mods'' ''a'' None (calm 0) [] = (demo_table,
     Inr \<lparr>info_resource = ''mods'', info_agent = ''a'', info_acquired = 0, info_expires = 600\<rparr>, [])"
proof -
  have "attempt_once ''mods'' ''a'' 600 (calm 0 0) [] = (demo_table,
      Some \<lparr>info_resource = ''mods'', info_agent = ''a'', info_acquired = 0, info_expires = 600\<rparr>)"
    by (simp add: calm_attempt acquire_sql_new demo_table_def)
  then show ?thesis
    by (simp add: acquire_lock_def default_lock_config_def acquire_from_first)
qed

theorem lease_excludes_witness:
  "get_lock_info (foldl lock_event_step demo_table [Try_Acquire ''mods'' ''b'' 600 100, Do_Cleanup 600]) ''mods''
     = Some \<lparr>info_resource = ''mods'', info_agent = ''a'', info_acquired = 0, info_expires = 600\<rparr>"
  using lease_excludes[OF demo_table_eq, of "[Try_Acquire ''mods'' ''b'' 600 100, Do_Cleanup 600]" 0]
  by (simp add: demo_table_def)

text \<open>
  The acquisition loop is bounded and honest: it sleeps the exponential, capped delays in order,
  fewer than \<open>max_retries\<close> of them; it fails only after all attempts, and when it succeeds the table
  holds exactly the lease it reports, for the TTL asked.
\<close>

theorem acquire_lock_bounded:
  assumes "acquire_lock c r a ttl envs t = (t', res, sleeps)"
  shows "(\<exists>k. sleeps = map (\<lambda>i. min (backoff_base c * 2 ^ i) (backoff_max c)) [0..<k] \<and> k \<le> max_retries c - 1
      \<and> (isl res \<longrightarrow> k = max_retries c - 1))
    \<and> (0 \<le> backoff_max c \<longrightarrow> sum_list sleeps \<le> real (max_retries c - 1) * backoff_max c)
    \<and> (\<forall>info. res = Inr info \<longrightarrow> get_lock_info t' r = Some info \<and> info_agent info = a
         \<and> info_expires info - info_acquired info = (case ttl of None \<Rightarrow> default_ttl c | Some x \<Rightarrow> x))
    \<and> (isl res \<longrightarrow> res = Inl (Lock_Acquisition_Error r a))"
proof -
  from acquire_from_sleeps[of 0 "max_retries c" c r a _ envs t t' res sleeps] assms
  obtain k where k: "sleeps = map (backoff_delay c) [0..<k]" "k \<le> max_retries c - 1"
      "\<not> isl res \<or> k = max_retries c - 1"
    unfolding acquire_lock_def by auto
  have "sum_list sleeps \<le> real (max_retries c - 1) * backoff_max c" if "0 \<le> backoff_max c"
  proof -
    have "sum_list sleeps \<le> sum_list (map (\<lambda>_. backoff_max c) [0..<k])"
      unfolding k(1) by (rule sum_list_mono) (simp add: backoff_delay_def)
    also have "\<dots> = real k * backoff_max c" by (simp add: sum_list_triv)
    also have "\<dots> \<le> real (max_retries c - 1) * backoff_max c"
      using k(2) that by (intro mult_right_mono) auto
    finally show ?thesis .
  qed
  moreover have "res = Inl (Lock_Acquisition_Error r a)" if "isl res"
  proof -
    have "\<And>i n t sl. acquire_from c r a x envs i n t = (t', res, sl) \<Longrightarrow> isl res \<Longrightarrow> res = Inl (Lock_Acquisition_Error r a)" for x
    proof -
      fix i n t sl
      assume "acquire_from c r a x envs i n t = (t', res, sl)" "isl res"
      then show "res = Inl (Lock_Acquisition_Error r a)"
        by (induction n arbitrary: i t sl) (auto simp: Let_def split: prod.splits option.splits)
    qed
    then show ?thesis using assms that unfolding acquire_lock_def by blast
  qed
  ultimately show ?thesis
    using k acquire_from_stored[of c r a _ envs 0 "max_retries c" t t' _ sleeps] assms
    unfolding acquire_lock_def backoff_delay_def by fastforce
qed

theorem acquire_lock_bounded_witness:
  "get_lock_info demo_table ''mods'' = Some \<lparr>info_resource = ''mods'', info_agent = ''a'', info_acquired = 0, info_expires = 600\<rparr>"
  using acquire_lock_bounded[OF demo_table_eq] by simp

text \<open>
  A release is matched by agent, not by lease: when a session's lease has expired and another
  session of the same agent has taken the resource, the late release of the first deletes the lease
  of the second, and any agent can acquire the resource while that lease should still run.
\<close>

theorem late_release_drops_newer_lease:
  assumes "get_lock_info t r = Some old" and "info_agent old = a" and "is_expired old now" and "now \<noteq> info_expires old"
    and "acquire_sql r a now (now + ttl) t = (t1, n)" and "release_lock False r a t1 = (t2, res)"
  shows "n = 1 \<and> res = Inr True \<and> get_lock_info t2 r = None
    \<and> (\<forall>b now'. snd (acquire_sql r b now' (now' + ttl) t2) = 1)"
proof -
  from assms(1) obtain l where l: "dget t r = Some l" "expires_at l = info_expires old"
    unfolding get_lock_info_iff by auto
  then have "expires_at l < now" using assms(3,4) by (simp add: is_expired_def)
  with l assms(5) have "n = 1" "dget t1 r = Some \<lparr>lease_agent = a, acquired_at = now, expires_at = now + ttl\<rparr>"
    by (auto simp: acquire_sql_def)
  with assms(6) show ?thesis
    by (auto simp: release_lock_def release_sql_def get_lock_info_def acquire_sql_def)
qed

theorem late_release_drops_newer_lease_witness:
  "(let t1 = fst (acquire_sql ''mods'' ''a'' 700 1300 demo_table); t2 = fst (release_lock False ''mods'' ''a'' t1)
    in snd (acquire_sql ''mods'' ''b'' 701 1301 t2) = 1)"
proof -
  have old: "get_lock_info demo_table ''mods'' = Some \<lparr>info_resource = ''mods'', info_agent = ''a'', info_acquired = 0, info_expires = 600\<rparr>"
    by (simp add: get_lock_info_def demo_table_def)
  obtain t1 n where 1: "acquire_sql ''mods'' ''a'' 700 (700 + 600) demo_table = (t1, n)" by fastforce
  obtain t2 res where 2: "release_lock False ''mods'' ''a'' t1 = (t2, res)" by fastforce
  from late_release_drops_newer_lease[OF old _ _ _ 1 2]
  have all: "\<forall>b now'. snd (acquire_sql ''mods'' b now' (now' + 600) t2) = 1" by (simp add: is_expired_def)
  then have "snd (acquire_sql ''mods'' ''b'' 701 (701 + 600) t2) = 1" by blast
  then show ?thesis using 1 2 by (simp add: Let_def)
qed

end
