(* ===== verification/Transaction_Lock.thy ===== *)
theory Transaction_Lock
  imports Lock_Manager Snapshots
begin

text \<open>
  \<open>sky_claw/antigravity/db/locks.py\<close>, \<open>SnapshotTransactionLock\<close>: acquire the lock of a resource,
  snapshot the target files, run the body, roll back when it raised, release the lock.  What it needs
  of the lock manager and of the snapshot manager is stated as two locales; both are interpreted on
  the models of \<open>Lock_Manager\<close> and \<open>Snapshots\<close>.
\<close>

section \<open>The interfaces\<close>

locale lease_provider =
  fixes acquire :: "'env \<Rightarrow> string \<Rightarrow> string \<Rightarrow> 'l \<Rightarrow> 'l \<times> ('err + 'info)"
    and release :: "bool \<Rightarrow> string \<Rightarrow> string \<Rightarrow> 'l \<Rightarrow> 'l"
    and holder :: "'l \<Rightarrow> string \<Rightarrow> string option"
  assumes acquire_holds: "acquire env r a l = (l', Inr i) \<Longrightarrow> holder l' r = Some a"
    and release_frees: "holder l r = Some a \<Longrightarrow> holder (release False r a l) r = None"
    and release_foreign: "holder l r \<noteq> Some a \<Longrightarrow> release err r a l = l"
    and release_error: "release True r a l = l"
begin

lemma release_cases: "release err r a l = l \<or> (\<not> err \<and> holder l r = Some a)"
  using release_foreign[of l r a err] release_error[of r a l] by (cases err) auto

lemma bracket_frees:
  "acquire env r a l = (l', Inr i) \<Longrightarrow> (\<And>x. holder x r = Some a \<Longrightarrow> holder (body x) r = Some a) \<Longrightarrow>
   holder (release False r a (body l')) r = None"
  by (simp add: acquire_holds release_frees)

end

locale snapshot_provider =
  fixes restore :: "'s \<Rightarrow> 'fs \<Rightarrow> 'fs"
    and content :: "'fs \<Rightarrow> path \<Rightarrow> string option"
    and target :: "'s \<Rightarrow> path"
    and scratch :: "path \<Rightarrow> path"
    and intact :: "'fs \<Rightarrow> 's \<Rightarrow> string \<Rightarrow> bool"
  assumes restore_gives: "intact fs s c \<Longrightarrow> content (restore s fs) (target s) = Some c"
    and restore_frame: "intact fs s c \<Longrightarrow> q \<noteq> target s \<Longrightarrow> q \<noteq> scratch (target s) \<Longrightarrow>
          content (restore s fs) q = content fs q"
    and restore_keeps: "intact fs s c \<Longrightarrow> intact fs s' c' \<Longrightarrow> intact (restore s fs) s' c'"
begin

text \<open>Restoring a list of snapshots gives every target what its snapshots agree it held.\<close>

lemma restore_all:
  assumes "\<forall>s \<in> set ss. intact fs s (want (target s))"
    and "\<forall>s \<in> set ss. \<forall>s' \<in> set ss. target s \<noteq> scratch (target s')"
  shows "(\<forall>s \<in> set ss. content (foldl (\<lambda>fs s. restore s fs) fs ss) (target s) = Some (want (target s)))
    \<and> (\<forall>q. (\<forall>s \<in> set ss. q \<noteq> target s \<and> q \<noteq> scratch (target s)) \<longrightarrow>
        content (foldl (\<lambda>fs s. restore s fs) fs ss) q = content fs q)"
  using assms
proof (induction ss arbitrary: fs rule: rev_induct)
  case (snoc s ss)
  let ?fs = "foldl (\<lambda>fs s. restore s fs) fs ss"
  have keep: "intact (foldl (\<lambda>fs s. restore s fs) fs xs) s' c'"
    if "\<forall>x \<in> set xs. \<exists>c. intact fs x c" "intact fs s' c'" for xs s' c' fs
    using that
  proof (induction xs arbitrary: fs)
    case (Cons a xs)
    from Cons.prems(1) obtain c where a: "intact fs a c" by auto
    have "\<forall>x \<in> set xs. \<exists>c. intact (restore a fs) x c"
      using Cons.prems(1) restore_keeps[OF a] by fastforce
    then show ?case using Cons.IH[of "restore a fs"] restore_keeps[OF a Cons.prems(2)] by simp
  qed simp
  have s: "intact ?fs s (want (target s))"
    using snoc.prems(1) by (intro keep) auto
  from snoc.IH[of fs] snoc.prems have IH:
    "\<forall>x \<in> set ss. content ?fs (target x) = Some (want (target x))"
    "\<forall>q. (\<forall>x \<in> set ss. q \<noteq> target x \<and> q \<noteq> scratch (target x)) \<longrightarrow> content ?fs q = content fs q"
    by auto
  have "content (restore s ?fs) (target x) = Some (want (target x))" if "x \<in> set (ss @ [s])" for x
  proof (cases "target x = target s")
    case True
    then show ?thesis using restore_gives[OF s] by simp
  next
    case False
    then have "x \<in> set ss" using that by auto
    moreover have "target x \<noteq> scratch (target s)" using snoc.prems(2) that by auto
    ultimately show ?thesis using restore_frame[OF s False] IH(1) by simp
  qed
  moreover have "content (restore s ?fs) q = content fs q"
    if "\<forall>x \<in> set (ss @ [s]). q \<noteq> target x \<and> q \<noteq> scratch (target x)" for q
    using that restore_frame[OF s, of q] IH(2) by simp
  ultimately show ?case by simp
qed simp

end

section \<open>The context manager\<close>

record transaction =
  txn_config :: lock_config
  txn_store :: snapshot_store
  resource_id :: string
  agent_id :: string
  target_files :: "path list"
  txn_ttl :: "real option"
  txn_metadata :: json

text \<open>
  How the snapshot of one file goes: \<open>Snap\<close> calls the snapshot manager, \<open>Cancel\<close> is a
  \<open>CancelledError\<close> delivered while it works, with the file system it leaves.
\<close>

datatype snap_event = Snap create_env | Cancel file_system
datatype enter_failure = Lock_Failed lock_error | Snapshot_Failed snapshot_error | Cancelled

fun take_snapshots ::
  "(string \<Rightarrow> string) \<Rightarrow> (string \<Rightarrow> int option) \<Rightarrow> transaction \<Rightarrow> (nat \<Rightarrow> snap_event) \<Rightarrow> nat \<Rightarrow> path list \<Rightarrow> file_system \<Rightarrow>
   file_system \<times> (enter_failure + snapshot_info list)" where
  "take_snapshots sha256 parse_date x ev i [] fs = (fs, Inr [])"
| "take_snapshots sha256 parse_date x ev i (p # ps) fs =
    (if dget fs p = None then take_snapshots sha256 parse_date x ev (Suc i) ps fs
     else case ev i of
       Cancel fs' \<Rightarrow> (fs', Inl Cancelled)
     | Snap env \<Rightarrow>
        (case create_snapshot sha256 parse_date (txn_store x) env p (txn_metadata x) fs of
           (fs', Inl e) \<Rightarrow> (fs', Inl (Snapshot_Failed e))
         | (fs', Inr snap) \<Rightarrow>
            (case take_snapshots sha256 parse_date x ev (Suc i) ps fs' of
               (fs'', Inl e) \<Rightarrow> (fs'', Inl e)
             | (fs'', Inr snaps) \<Rightarrow> (fs'', Inr (snap # snaps)))))"

text \<open>\<open>_safe_release\<close> swallows the errors of the release.\<close>

definition safe_release :: "bool \<Rightarrow> string \<Rightarrow> string \<Rightarrow> lock_table \<Rightarrow> lock_table" where
  "safe_release db_error r a t = fst (release_lock db_error r a t)"

definition enter_transaction ::
  "(string \<Rightarrow> string) \<Rightarrow> (string \<Rightarrow> int option) \<Rightarrow> transaction \<Rightarrow> (nat \<Rightarrow> attempt_env) \<Rightarrow> (nat \<Rightarrow> snap_event) \<Rightarrow> bool \<Rightarrow>
   lock_table \<Rightarrow> file_system \<Rightarrow> lock_table \<times> file_system \<times> (enter_failure + snapshot_info list)" where
  "enter_transaction sha256 parse_date x envs ev db_error t fs =
    (case acquire_lock (txn_config x) (resource_id x) (agent_id x) (txn_ttl x) envs t of
       (t1, Inl e, _) \<Rightarrow> (t1, fs, Inl (Lock_Failed e))
     | (t1, Inr info, _) \<Rightarrow>
        (case take_snapshots sha256 parse_date x ev 0 (target_files x) fs of
           (fs1, Inr snaps) \<Rightarrow> (t1, fs1, Inr snaps)
         | (fs1, Inl Cancelled) \<Rightarrow> (t1, fs1, Inl Cancelled)
         | (fs1, Inl e) \<Rightarrow> (safe_release db_error (resource_id x) (agent_id x) t1, fs1, Inl e)))"

fun roll_back ::
  "(string \<Rightarrow> string) \<Rightarrow> (string \<Rightarrow> json option) \<Rightarrow> (nat \<Rightarrow> restore_fault) \<Rightarrow> nat \<Rightarrow> snapshot_info list \<Rightarrow> file_system \<Rightarrow> file_system" where
  "roll_back sha256 loads io i [] fs = fs"
| "roll_back sha256 loads io i (s # ss) fs =
    roll_back sha256 loads io (Suc i) ss
      (fst (restore_snapshot sha256 loads (io i) (snapshot_path s) (original_path s) False fs))"

definition exit_transaction ::
  "(string \<Rightarrow> string) \<Rightarrow> (string \<Rightarrow> json option) \<Rightarrow> transaction \<Rightarrow> snapshot_info list \<Rightarrow> bool \<Rightarrow> (nat \<Rightarrow> restore_fault) \<Rightarrow> bool \<Rightarrow>
   lock_table \<Rightarrow> file_system \<Rightarrow> lock_table \<times> file_system" where
  "exit_transaction sha256 loads x snaps raised io db_error t fs =
    (safe_release db_error (resource_id x) (agent_id x) t,
     if raised then roll_back sha256 loads io 0 (rev snaps) fs else fs)"

section \<open>The interfaces on the models\<close>

definition lock_holder :: "lock_table \<Rightarrow> string \<Rightarrow> string option" where
  "lock_holder t r = map_option lease_agent (dget t r)"

definition acquire_with :: "lock_config \<times> real option \<times> (nat \<Rightarrow> attempt_env) \<Rightarrow> string \<Rightarrow> string \<Rightarrow> lock_table \<Rightarrow>
    lock_table \<times> (lock_error + lock_info)" where
  "acquire_with e r a t = (case e of (c, ttl, envs) \<Rightarrow>
     (case acquire_lock c r a ttl envs t of (t', res, sleeps) \<Rightarrow> (t', res)))"

lemma lock_holder_info: "get_lock_info t r = Some i \<Longrightarrow> lock_holder t r = Some (info_agent i)"
  by (auto simp: get_lock_info_iff lock_holder_def)

interpretation locks: lease_provider acquire_with safe_release lock_holder
proof
  fix env r a l l' and i :: lock_info
  assume "acquire_with env r a l = (l', Inr i)"
  then show "lock_holder l' r = Some a"
    using acquire_from_stored lock_holder_info
    by (fastforce simp: acquire_with_def acquire_lock_def split: prod.splits)
qed (auto simp: lock_holder_def safe_release_def release_lock_def release_sql_def split: option.splits)

text \<open>A snapshot of content \<open>c\<close> still in place, of a file outside the snapshot directory.\<close>

definition intact_in :: "snapshot_store \<Rightarrow> file_system \<Rightarrow> snapshot_info \<Rightarrow> string \<Rightarrow> bool" where
  "intact_in m fs s c \<longleftrightarrow> dget fs (snapshot_path s) = Some c \<and> inside (snapshot_dir m) (snapshot_path s)
     \<and> original_path s \<noteq> [] \<and> \<not> inside (snapshot_dir m) (original_path s)"

definition restore_with :: "(string \<Rightarrow> string) \<Rightarrow> (string \<Rightarrow> json option) \<Rightarrow> snapshot_info \<Rightarrow> file_system \<Rightarrow> file_system" where
  "restore_with sha256 loads s fs =
    fst (restore_snapshot sha256 loads No_Io_Fault (snapshot_path s) (original_path s) False fs)"

lemma restore_with_dget:
  assumes "dget fs (snapshot_path s) = Some c" and "original_path s \<noteq> []"
  shows "dget (restore_with sha256 loads s fs) q =
    (if q = original_path s then Some c
     else if q = backup_file (original_path s) \<and> dget fs (original_path s) \<noteq> None then None else dget fs q)"
proof -
  have "backup_file (original_path s) \<noteq> original_path s" using assms(2)
    by (cases "original_path s" rule: rev_cases) (auto simp: backup_file_def add_suffix_def)
  then show ?thesis using assms(1)
    by (auto simp: restore_with_def restore_snapshot_def Let_def split: option.splits)
qed

lemma outside_backup:
  "intact_in m fs s c \<Longrightarrow> intact_in m fs' s' c' \<Longrightarrow> snapshot_path s' \<noteq> original_path s \<and> snapshot_path s' \<noteq> backup_file (original_path s)"
  by (auto simp: intact_in_def backup_file_def)

interpretation snaps: snapshot_provider "restore_with sha256 loads" dget original_path backup_file "intact_in m"
  for sha256 loads m
proof
  fix fs s c s' c'
  assume i: "intact_in m fs s c" and i': "intact_in m fs s' c'"
  show "intact_in m (restore_with sha256 loads s fs) s' c'"
    using i i' outside_backup[OF i i'] by (auto simp: intact_in_def restore_with_dget)
qed (auto simp: intact_in_def restore_with_dget)

lemma roll_back_foldl:
  "roll_back sha256 loads (\<lambda>_. No_Io_Fault) i ss fs = foldl (\<lambda>fs s. restore_with sha256 loads s fs) fs ss"
  by (induction ss arbitrary: i fs) (simp_all add: restore_with_def)

lemma take_snapshots_originals:
  "take_snapshots sha256 parse_date x ev i ps fs = (fs1, Inr snaps) \<Longrightarrow>
   \<forall>p \<in> set ps. \<not> inside (snapshot_dir (txn_store x)) p \<Longrightarrow>
   map original_path snaps = filter (\<lambda>p. dget fs p \<noteq> None) ps
   \<and> (\<forall>s \<in> set snaps. inside (snapshot_dir (txn_store x)) (snapshot_path s))
   \<and> (\<forall>q. \<not> inside (snapshot_dir (txn_store x)) q \<longrightarrow> dget fs1 q = dget fs q)"
proof (induction ps arbitrary: i fs snaps)
  case (Cons p ps)
  show ?case
  proof (cases "dget fs p")
    case None
    then show ?thesis using Cons by simp
  next
    case (Some c)
    obtain env fs' snap where ev: "ev i = Snap env"
      and cr: "create_snapshot sha256 parse_date (txn_store x) env p (txn_metadata x) fs = (fs', Inr snap)"
      using Cons.prems(1) Some by (auto split: snap_event.splits prod.splits sum.splits)
    obtain rest where rest: "take_snapshots sha256 parse_date x ev (Suc i) ps fs' = (fs1, Inr rest)"
      and eq: "snaps = snap # rest"
      using Cons.prems(1) Some ev cr by (auto split: prod.splits sum.splits)
    have same: "dget fs' q = dget fs q" if "\<not> inside (snapshot_dir (txn_store x)) q" for q
      using create_snapshot_files[OF cr] that by metis
    then have "filter (\<lambda>p. dget fs' p \<noteq> None) ps = filter (\<lambda>p. dget fs p \<noteq> None) ps"
      using Cons.prems(2) by (intro filter_cong) auto
    moreover have "original_path snap = p" "inside (snapshot_dir (txn_store x)) (snapshot_path snap)"
      using create_snapshot_Inr[OF cr] snapshot_paths(1) by auto
    ultimately show ?thesis using Cons.IH[OF rest] Cons.prems(2) Some eq same by simp
  qed
qed simp

lemma enter_Inr:
  assumes "enter_transaction sha256 parse_date x envs ev db_error t fs = (t1, fs1, Inr snaps)"
  shows "take_snapshots sha256 parse_date x ev 0 (target_files x) fs = (fs1, Inr snaps)"
    and "\<exists>i. acquire_with (txn_config x, txn_ttl x, envs) (resource_id x) (agent_id x) t = (t1, Inr i)"
  using assms by (auto simp: enter_transaction_def acquire_with_def
      split: prod.splits sum.splits enter_failure.splits)

lemma failed_exit_restores:
  assumes "enter_transaction sha256 parse_date x envs ev db_error t0 fs0 = (t1, fs1, Inr snaps)"
    and "\<forall>p \<in> set (target_files x). p \<noteq> [] \<and> \<not> inside (snapshot_dir (txn_store x)) p
        \<and> (\<forall>q \<in> set (target_files x). p \<noteq> backup_file q)"
    and "\<forall>s \<in> set snaps. dget fs2 (snapshot_path s) = dget fs0 (original_path s)"
    and "lock_holder t2 (resource_id x) = Some (agent_id x)"
    and "exit_transaction sha256 loads x snaps True (\<lambda>_. No_Io_Fault) False t2 fs2 = (t3, fs3)"
  shows "(\<forall>p \<in> set (target_files x). dget fs0 p \<noteq> None \<longrightarrow> dget fs3 p = dget fs0 p)
    \<and> (\<forall>q. (\<forall>p \<in> set (target_files x). dget fs0 p \<noteq> None \<longrightarrow> q \<noteq> p \<and> q \<noteq> backup_file p) \<longrightarrow> dget fs3 q = dget fs2 q)
    \<and> lock_holder t1 (resource_id x) = Some (agent_id x) \<and> lock_holder t3 (resource_id x) = None"
proof -
  let ?m = "txn_store x" and ?T = "set (target_files x)"
  have "\<forall>p \<in> set (target_files x). \<not> inside (snapshot_dir ?m) p" using assms(2) by blast
  note orig = take_snapshots_originals[OF enter_Inr(1)[OF assms(1)] this]
  have paths: "original_path ` set snaps = {p \<in> ?T. dget fs0 p \<noteq> None}"
    using arg_cong[OF conjunct1[OF orig], of set] by (simp only: set_map set_filter)
  have inT: "\<forall>s \<in> set snaps. original_path s \<in> ?T \<and> dget fs0 (original_path s) \<noteq> None"
    using paths by blast
  have "intact_in ?m fs2 s (the (dget fs0 (original_path s)))" if "s \<in> set snaps" for s
  proof -
    have "original_path s \<in> ?T" "dget fs0 (original_path s) \<noteq> None" using that inT by blast+
    then show ?thesis using that assms(2,3) orig by (auto simp: intact_in_def)
  qed
  moreover have "\<forall>s \<in> set (rev snaps). \<forall>s' \<in> set (rev snaps). original_path s \<noteq> backup_file (original_path s')"
    using inT assms(2) unfolding set_rev by metis
  ultimately have r: "(\<forall>s \<in> set (rev snaps). dget fs3 (original_path s) = Some (the (dget fs0 (original_path s))))
    \<and> (\<forall>q. (\<forall>s \<in> set (rev snaps). q \<noteq> original_path s \<and> q \<noteq> backup_file (original_path s)) \<longrightarrow> dget fs3 q = dget fs2 q)"
    using snaps.restore_all[of "rev snaps" ?m fs2 "\<lambda>p. the (dget fs0 p)" sha256 loads] assms(5)
    by (simp add: exit_transaction_def roll_back_foldl)
  have "lock_holder t1 (resource_id x) = Some (agent_id x)"
    using enter_Inr(2)[OF assms(1)] locks.acquire_holds by blast
  moreover have "lock_holder t3 (resource_id x) = None"
    using locks.release_frees[OF assms(4)] assms(5) by (simp add: exit_transaction_def)
  moreover have "dget fs3 p = dget fs0 p" if "p \<in> ?T" "dget fs0 p \<noteq> None" for p
  proof -
    have "p \<in> original_path ` set snaps" using that paths by blast
    then show ?thesis using r that by auto
  qed
  moreover have "dget fs3 q = dget fs2 q"
    if q: "\<forall>p \<in> ?T. dget fs0 p \<noteq> None \<longrightarrow> q \<noteq> p \<and> q \<noteq> backup_file p" for q
  proof -
    have "\<forall>s \<in> set (rev snaps). q \<noteq> original_path s \<and> q \<noteq> backup_file (original_path s)"
      using q inT unfolding set_rev by blast
    with r show ?thesis by blast
  qed
  ultimately show ?thesis by blast
qed

section \<open>Snapshots that fit\<close>

text \<open>
  What the snapshots of a transaction take in the store; when there is room for it the limit removes
  nothing.  Their identifiers are 16 hex digits of a hash that contains the time in nanoseconds:
  \<open>fresh_ids\<close> says that they differ.
\<close>

definition snapshot_cost :: "(string \<Rightarrow> string) \<Rightarrow> file_system \<Rightarrow> path \<Rightarrow> nat" where
  "snapshot_cost sha256 fs p = (case dget fs p of None \<Rightarrow> 0 | Some c \<Rightarrow> length c + length (meta_text (sha256 c)))"

definition snapshots_fit :: "(string \<Rightarrow> string) \<Rightarrow> transaction \<Rightarrow> file_system \<Rightarrow> bool" where
  "snapshots_fit sha256 x fs \<longleftrightarrow>
    tree_size fs (snapshot_dir (txn_store x)) + sum_list (map (snapshot_cost sha256 fs) (target_files x)) \<le> max_size_bytes (txn_store x)"

definition fresh_ids :: "(nat \<Rightarrow> snap_event) \<Rightarrow> bool" where
  "fresh_ids ev \<longleftrightarrow> (\<forall>i j e e'. ev i = Snap e \<longrightarrow> ev j = Snap e' \<longrightarrow>
     length (new_id e) = length (new_id e') \<and> (new_id e = new_id e' \<longrightarrow> i = j))"

lemma tree_size_dset: "tree_size (dset k v fs) d \<le> tree_size fs d + length v"
  unfolding tree_size_def by (induction fs) auto

lemma tree_size_copied:
  "tree_size (copied sha256 m env p c fs) d \<le> tree_size fs d + (length c + length (meta_text (sha256 c)))"
  using tree_size_dset[of "meta_file (snapshot_file m env p)" "meta_text (sha256 c)" "dset (snapshot_file m env p) c fs" d]
    tree_size_dset[of "snapshot_file m env p" c fs d] by (simp add: copied_def)

lemma create_within_limit:
  assumes "create_snapshot sha256 parse_date m env p md fs = (fs1, Inr info)" "dget fs p = Some c"
    and "tree_size fs (snapshot_dir m) + (length c + length (meta_text (sha256 c))) \<le> max_size_bytes m"
  shows "fs1 = copied sha256 m env p c fs" "snapshot_path info = snapshot_file m env p" "original_path info = p"
  using create_snapshot_Inr[OF assms(1)] assms(2,3) tree_size_copied[of sha256 m env p c fs "snapshot_dir m"]
  by (auto simp: enforce_size_limit_def Let_def)

lemma other_snapshot_file:
  "length (new_id e) = length (new_id e') \<Longrightarrow> new_id e \<noteq> new_id e' \<Longrightarrow>
   snapshot_file m e p \<noteq> snapshot_file m e' q \<and> snapshot_file m e p \<noteq> meta_file (snapshot_file m e' q)"
  by (simp add: snapshot_paths(2)) (simp add: snapshot_file_def)

text \<open>Snapshots that fit are all there at the end, each with its file's content; later ones overwrite none.\<close>

lemma take_snapshots_kept:
  assumes "take_snapshots sha256 parse_date x ev i ps fs = (fs1, Inr snaps)" "fresh_ids ev"
    and "\<forall>p \<in> set ps. \<not> inside (snapshot_dir (txn_store x)) p"
    and "tree_size fs (snapshot_dir (txn_store x)) + sum_list (map (snapshot_cost sha256 fs) ps) \<le> max_size_bytes (txn_store x)"
  shows "(\<forall>s \<in> set snaps. dget fs1 (snapshot_path s) = dget fs (original_path s))
    \<and> (\<forall>e q j. j < i \<longrightarrow> ev j = Snap e \<longrightarrow> dget fs1 (snapshot_file (txn_store x) e q) = dget fs (snapshot_file (txn_store x) e q))"
  using assms(1,3,4)
proof (induction ps arbitrary: i fs snaps)
  case (Cons p ps)
  let ?m = "txn_store x" and ?d = "snapshot_dir (txn_store x)"
  show ?case
  proof (cases "dget fs p")
    case None
    have "tree_size fs ?d + sum_list (map (snapshot_cost sha256 fs) ps) \<le> max_size_bytes ?m"
      using Cons.prems(3) by simp
    moreover have "take_snapshots sha256 parse_date x ev (Suc i) ps fs = (fs1, Inr snaps)" "\<forall>q \<in> set ps. \<not> inside ?d q"
      using Cons.prems(1,2) None by simp_all
    ultimately show ?thesis using Cons.IH[of "Suc i" fs snaps] less_SucI by blast
  next
    case (Some c)
    obtain env fs' snap where ev: "ev i = Snap env"
      and cr: "create_snapshot sha256 parse_date ?m env p (txn_metadata x) fs = (fs', Inr snap)"
      using Cons.prems(1) Some by (auto split: snap_event.splits prod.splits sum.splits)
    obtain rest where rest: "take_snapshots sha256 parse_date x ev (Suc i) ps fs' = (fs1, Inr rest)" and eq: "snaps = snap # rest"
      using Cons.prems(1) Some ev cr by (auto split: prod.splits sum.splits)
    have cost: "tree_size fs ?d + (length c + length (meta_text (sha256 c))) + sum_list (map (snapshot_cost sha256 fs) ps) \<le> max_size_bytes ?m"
      using Cons.prems(3) Some unfolding list.map sum_list.Cons snapshot_cost_def[of sha256 fs p] by simp
    then have k: "fs' = copied sha256 ?m env p c fs" "snapshot_path snap = snapshot_file ?m env p" "original_path snap = p"
      using create_within_limit[OF cr Some] by simp_all
    have out: "\<forall>q \<in> set ps. \<not> inside ?d q" using Cons.prems(2) by simp
    have same: "dget fs' q = dget fs q" if "\<not> inside ?d q" for q
      using that snapshot_paths(1,3)[of ?m env p] by (auto simp: k(1) copied_def)
    have costs: "map (snapshot_cost sha256 fs') ps = map (snapshot_cost sha256 fs) ps"
      using same out by (intro map_cong) (simp_all add: snapshot_cost_def)
    have "tree_size fs' ?d \<le> tree_size fs ?d + (length c + length (meta_text (sha256 c)))"
      unfolding k(1) by (rule tree_size_copied)
    then have "tree_size fs' ?d + sum_list (map (snapshot_cost sha256 fs') ps) \<le> max_size_bytes ?m"
      using cost unfolding costs by linarith
    note IH = Cons.IH[OF rest out this]
    have mine: "dget fs1 (snapshot_file ?m env p) = Some c"
    proof -
      have "dget fs1 (snapshot_file ?m env p) = dget fs' (snapshot_file ?m env p)" using IH ev lessI by blast
      then show ?thesis using snapshot_paths(4)[of ?m env p] by (simp add: k(1) copied_def)
    qed
    have "dget fs1 (snapshot_path s) = dget fs (original_path s)" if "s \<in> set snaps" for s
    proof (cases "s = snap")
      case True
      then show ?thesis using mine k Some by simp
    next
      case False
      then have s: "s \<in> set rest" using that eq by simp
      have "original_path s \<in> set ps"
        using take_snapshots_originals[OF rest out] s
        by (metis (no_types, lifting) filter_is_subset image_eqI list.set_map subsetD)
      then have "dget fs' (original_path s) = dget fs (original_path s)" using same out by blast
      then show ?thesis using IH s by simp
    qed
    moreover have "dget fs1 (snapshot_file ?m e q) = dget fs (snapshot_file ?m e q)" if j: "j < i" "ev j = Snap e" for e q j
    proof -
      have "new_id e \<noteq> new_id env" "length (new_id e) = length (new_id env)"
        using assms(2) j ev unfolding fresh_ids_def by (metis less_irrefl)+
      then have "dget fs' (snapshot_file ?m e q) = dget fs (snapshot_file ?m e q)"
        using other_snapshot_file[of e env ?m q p] by (simp add: k(1) copied_def)
      moreover have "dget fs1 (snapshot_file ?m e q) = dget fs' (snapshot_file ?m e q)" using IH j less_SucI by blast
      ultimately show ?thesis by simp
    qed
    ultimately show ?thesis by blast
  qed
qed simp

section \<open>Properties\<close>

text \<open>
  C1: the body of a transaction raises, having left the snapshot directory alone; there was room for
  the snapshots, restoring them and releasing the lock meet no I/O error, and the lease is still held.
  Then every target file that existed at the entry is given back its content of that moment, whatever
  the body did to it; no file besides the targets and their backups changes (a target the body created
  stays), and the lock, held since the entry, is free.
\<close>

theorem failed_transaction_restores:
  assumes "enter_transaction sha256 parse_date x envs ev db_error t0 fs0 = (t1, fs1, Inr snaps)"
    and "\<forall>p \<in> set (target_files x). p \<noteq> [] \<and> \<not> inside (snapshot_dir (txn_store x)) p
        \<and> (\<forall>q \<in> set (target_files x). p \<noteq> backup_file q)"
    and "snapshots_fit sha256 x fs0" and "fresh_ids ev"
    and "\<forall>q. inside (snapshot_dir (txn_store x)) q \<longrightarrow> dget fs2 q = dget fs1 q"
    and "lock_holder t2 (resource_id x) = Some (agent_id x)"
    and "exit_transaction sha256 loads x snaps True (\<lambda>_. No_Io_Fault) False t2 fs2 = (t3, fs3)"
  shows "(\<forall>p \<in> set (target_files x). dget fs0 p \<noteq> None \<longrightarrow> dget fs3 p = dget fs0 p)
    \<and> (\<forall>q. (\<forall>p \<in> set (target_files x). dget fs0 p \<noteq> None \<longrightarrow> q \<noteq> p \<and> q \<noteq> backup_file p) \<longrightarrow> dget fs3 q = dget fs2 q)
    \<and> lock_holder t1 (resource_id x) = Some (agent_id x) \<and> lock_holder t3 (resource_id x) = None"
proof -
  have out: "\<forall>p \<in> set (target_files x). \<not> inside (snapshot_dir (txn_store x)) p" using assms(2) by blast
  note t = enter_Inr(1)[OF assms(1)]
  have "dget fs2 (snapshot_path s) = dget fs0 (original_path s)" if "s \<in> set snaps" for s
    using take_snapshots_kept[OF t assms(4) out] take_snapshots_originals[OF t out] assms(3,5) that
    by (simp add: snapshots_fit_def)
  then show ?thesis using failed_exit_restores[OF assms(1,2) _ assms(6,7)] by blast
qed

text \<open>
  A transaction cancelled while it takes its snapshots keeps the lock: its entry ends with the
  \<open>CancelledError\<close>, the lease is in the table and nothing releases it, so every other acquisition
  fails until it expires; an ordinary failure of a snapshot releases it.
\<close>

theorem cancelled_entry_keeps_lock:
  assumes "enter_transaction sha256 parse_date x envs ev False t0 fs0 = (t1, fs1, Inl f)"
    and "\<And>e. f \<noteq> Lock_Failed e"
  shows "(f = Cancelled \<longrightarrow> (\<exists>i. get_lock_info t1 (resource_id x) = Some i \<and> info_agent i = agent_id x
        \<and> (\<forall>b now expires. now \<le> info_expires i \<longrightarrow> snd (acquire_sql (resource_id x) b now expires t1) = 0)))
    \<and> (f \<noteq> Cancelled \<longrightarrow> lock_holder t1 (resource_id x) = None)"
proof -
  obtain t i sl where a: "acquire_lock (txn_config x) (resource_id x) (agent_id x) (txn_ttl x) envs t0 = (t, Inr i, sl)"
    using assms(1,2) by (auto simp: enter_transaction_def split: prod.splits sum.splits)
  then have info: "get_lock_info t (resource_id x) = Some i" "info_agent i = agent_id x"
    using acquire_from_stored unfolding acquire_lock_def by blast+
  then have held: "lock_holder t (resource_id x) = Some (agent_id x)" using lock_holder_info by fastforce
  have blocked: "snd (acquire_sql (resource_id x) b now expires t) = 0" if "now \<le> info_expires i" for b now expires
    using info(1) that by (auto simp: get_lock_info_iff acquire_sql_def)
  have "t1 = (if f = Cancelled then t else safe_release False (resource_id x) (agent_id x) t)"
    using assms(1) a by (auto simp: enter_transaction_def split: prod.splits sum.splits enter_failure.splits)
  then show ?thesis using info held blocked locks.release_frees[OF held] by auto
qed

text \<open>A transaction on one file, with a calm environment, for the witnesses.\<close>

definition demo_txn :: transaction where
  "demo_txn = \<lparr>txn_config = default_lock_config, txn_store = demo_store, resource_id = ''mods'', agent_id = ''a'',
     target_files = [[''mods'', ''a.esp''], [''mods'', ''new.esp'']], txn_ttl = None, txn_metadata = JNull\<rparr>"

definition demo_snapshot :: snapshot_info where
  "demo_snapshot = \<lparr>snapshot_id = ''id'', original_path = [''mods'', ''a.esp''],
     snapshot_path = [''snap'', ''2025-01-01'', ''id_a.esp''], checksum = ''old'', size_bytes = 3, snap_metadata = JNull\<rparr>"

definition demo_copied :: file_system where
  "demo_copied = copied id demo_store demo_env [''mods'', ''a.esp''] ''old'' demo_fs"

lemma demo_copied_dget:
  "dget demo_copied [''mods'', ''a.esp''] = Some ''old''"
  "dget demo_copied [''mods'', ''new.esp''] = None"
  "dget demo_copied [''snap'', ''2025-01-01'', ''id_a.esp''] = Some ''old''"
  by (simp_all add: demo_copied_def copied_def demo_store_def demo_env_def snapshot_file_def meta_file_def
      add_suffix_def demo_fs_def)

definition demo_snaps :: "nat \<Rightarrow> snap_event" where
  "demo_snaps i = (if i = 0 then Snap demo_env else Cancel [])"

lemma demo_enter:
  "enter_transaction id (\<lambda>_. Some 0) demo_txn (calm 0) demo_snaps False [] demo_fs = (demo_table, demo_copied, Inr [demo_snapshot])"
proof -
  have "take_snapshots id (\<lambda>_. Some 0) demo_txn demo_snaps 0 [[''mods'', ''a.esp''], [''mods'', ''new.esp'']] demo_fs
      = (demo_copied, Inr [demo_snapshot])"
    using demo_create demo_copied_dget
    by (simp add: demo_txn_def demo_copied_def demo_snapshot_def demo_fs_def demo_snaps_def)
  then show ?thesis using demo_table_eq by (simp add: enter_transaction_def demo_txn_def)
qed

theorem failed_transaction_restores_witness:
  "dget (snd (exit_transaction id (\<lambda>_. None) demo_txn [demo_snapshot] True (\<lambda>_. No_Io_Fault) False demo_table
     (dset [''mods'', ''new.esp''] ''half'' (dset [''mods'', ''a.esp''] ''broken'' demo_copied)))) [''mods'', ''a.esp''] = Some ''old''"
proof -
  let ?fs2 = "dset [''mods'', ''new.esp''] ''half'' (dset [''mods'', ''a.esp''] ''broken'' demo_copied)"
  obtain t3 fs3 where e: "exit_transaction id (\<lambda>_. None) demo_txn [demo_snapshot] True (\<lambda>_. No_Io_Fault) False demo_table ?fs2 = (t3, fs3)"
    by fastforce
  have t: "\<forall>p \<in> set (target_files demo_txn). p \<noteq> [] \<and> \<not> inside (snapshot_dir (txn_store demo_txn)) p
        \<and> (\<forall>q \<in> set (target_files demo_txn). p \<noteq> backup_file q)"
    by (simp add: demo_txn_def demo_store_def inside_def backup_file_def add_suffix_def)
  have fit: "snapshots_fit id demo_txn demo_fs"
    by (simp add: snapshots_fit_def demo_txn_def demo_store_def demo_fs_def tree_size_def inside_def snapshot_cost_def
        meta_text_def json_quote_def json_escape_def)
  have ids: "fresh_ids demo_snaps" by (auto simp: fresh_ids_def demo_snaps_def split: if_splits)
  have s: "\<forall>q. inside (snapshot_dir (txn_store demo_txn)) q \<longrightarrow> dget ?fs2 q = dget demo_copied q"
    by (auto simp: demo_txn_def demo_store_def inside_def)
  have h: "lock_holder demo_table (resource_id demo_txn) = Some (agent_id demo_txn)"
    by (simp add: lock_holder_def demo_table_def demo_txn_def)
  from failed_transaction_restores[OF demo_enter t fit ids s h e] e show ?thesis
    by (simp add: demo_txn_def demo_fs_def)
qed

theorem cancelled_entry_keeps_lock_witness:
  "\<exists>t1 fs1. enter_transaction id (\<lambda>_. Some 0) demo_txn (calm 0) (\<lambda>_. Cancel demo_fs) False [] demo_fs = (t1, fs1, Inl Cancelled)
    \<and> snd (acquire_sql ''mods'' ''b'' 600 1200 t1) = 0"
proof -
  have "take_snapshots id (\<lambda>_. Some 0) demo_txn (\<lambda>_. Cancel demo_fs) 0 [[''mods'', ''a.esp''], [''mods'', ''new.esp'']] demo_fs
      = (demo_fs, Inl Cancelled)" by (simp add: demo_fs_def)
  then have e: "enter_transaction id (\<lambda>_. Some 0) demo_txn (calm 0) (\<lambda>_. Cancel demo_fs) False [] demo_fs
      = (demo_table, demo_fs, Inl Cancelled)"
    using demo_table_eq by (simp add: enter_transaction_def demo_txn_def)
  from cancelled_entry_keeps_lock[OF e] have "\<exists>i. get_lock_info demo_table ''mods'' = Some i
      \<and> (\<forall>b now expires. now \<le> info_expires i \<longrightarrow> snd (acquire_sql ''mods'' b now expires demo_table) = 0)"
    by (auto simp: demo_txn_def)
  moreover have "get_lock_info demo_table ''mods'' = Some i \<Longrightarrow> info_expires i = 600" for i
    by (auto simp: get_lock_info_def demo_table_def)
  ultimately show ?thesis using e by fastforce
qed

end
