(* ===== verification/Journal.thy ===== *)
theory Journal
  imports Snapshots "HOL-Library.Product_Lexorder"
begin

text \<open>
  \<open>sky_claw/antigravity/db/journal.py\<close> (\<open>OperationJournal\<close>) and \<open>db/rollback_manager.py\<close>.  The two
  tables are lists of rows in insertion order, the identifiers those of \<open>AUTOINCREMENT\<close>.  A time is
  \<open>datetime('now')\<close>, in whole seconds.  SQLite leaves the order of rows with equal timestamps open:
  \<open>tie\<close>, a rank of the row ids, is the order it happens to use.  Errors of the database other than
  the foreign key check are not modelled.
\<close>

datatype operation_type = MOD_INSTALL | MOD_UNINSTALL | MOD_UPDATE | PLUGIN_CLEAN | FILE_CREATE
  | FILE_MODIFY | FILE_DELETE | FILE_RENAME
datatype operation_status = OP_STARTED | OP_COMPLETED | OP_FAILED | OP_ROLLED_BACK
datatype transaction_status = TX_PENDING | TX_COMMITTED | TX_ROLLED_BACK

definition operation_values :: "(string, operation_type) dict" where
  "operation_values = [(''mod_install'', MOD_INSTALL), (''mod_uninstall'', MOD_UNINSTALL), (''mod_update'', MOD_UPDATE),
     (''plugin_clean'', PLUGIN_CLEAN), (''file_create'', FILE_CREATE), (''file_modify'', FILE_MODIFY),
     (''file_delete'', FILE_DELETE), (''file_rename'', FILE_RENAME)]"

record journal_entry =
  entry_id :: nat
  entry_tx :: nat
  entry_time :: int
  entry_agent :: string
  entry_type :: operation_type
  entry_target :: string
  entry_status :: operation_status
  entry_snapshot :: "string option"
  entry_checksum :: "string option"
  entry_metadata :: "(string, json) dict option"
  entry_rolled_back :: bool

record tx_row =
  tx_id :: nat
  tx_mod :: "int option"
  tx_description :: string
  tx_status :: transaction_status
  tx_created :: int
  tx_committed_at :: "int option"
  tx_rolled_back_at :: "int option"

record journal =
  transactions :: "tx_row list"
  entries :: "journal_entry list"
  last_tx :: nat
  last_entry :: nat
  current_transaction :: "nat option"

definition new_journal :: journal where
  "new_journal = \<lparr>transactions = [], entries = [], last_tx = 0, last_entry = 0, current_transaction = None\<rparr>"

datatype journal_error = Journal_Transaction_Error string

section \<open>Transactions\<close>

definition begin_transaction :: "journal \<Rightarrow> string \<Rightarrow> int option \<Rightarrow> int \<Rightarrow> journal \<times> nat" where
  "begin_transaction j description mod_id now =
    (let n = Suc (last_tx j);
         row = \<lparr>tx_id = n, tx_mod = mod_id, tx_description = description, tx_status = TX_PENDING,
                tx_created = now, tx_committed_at = None, tx_rolled_back_at = None\<rparr>
     in (j\<lparr>transactions := transactions j @ [row], last_tx := n, current_transaction := Some n\<rparr>, n))"

definition update_tx :: "(tx_row \<Rightarrow> bool) \<Rightarrow> (tx_row \<Rightarrow> tx_row) \<Rightarrow> journal \<Rightarrow> journal" where
  "update_tx P f j = j\<lparr>transactions := map (\<lambda>r. if P r then f r else r) (transactions j)\<rparr>"

definition commit_transaction :: "journal \<Rightarrow> nat \<Rightarrow> int \<Rightarrow> journal \<times> (journal_error + unit)" where
  "commit_transaction j n now =
    (let hit = (\<lambda>r. tx_id r = n \<and> tx_status r = TX_PENDING) in
     if \<not> list_ex hit (transactions j)
     then (j, Inl (Journal_Transaction_Error (''Transaction '' @ nat_str n @ '' not found or not pending'')))
     else (let j' = update_tx hit (\<lambda>r. r\<lparr>tx_status := TX_COMMITTED, tx_committed_at := Some now\<rparr>) j
           in (if current_transaction j' = Some n then j'\<lparr>current_transaction := None\<rparr> else j', Inr ())))"

definition get_transaction :: "journal \<Rightarrow> nat \<Rightarrow> tx_row option" where
  "get_transaction j n = find (\<lambda>r. tx_id r = n) (transactions j)"

definition list_recent_transactions ::
  "(nat \<Rightarrow> int) \<Rightarrow> journal \<Rightarrow> nat \<Rightarrow> transaction_status option \<Rightarrow> int option \<Rightarrow> tx_row list" where
  "list_recent_transactions tie j limit st mod_id =
    take limit (sort_key (\<lambda>r. (- tx_created r, tie (tx_id r)))
      (filter (\<lambda>r. (case st of None \<Rightarrow> True | Some s \<Rightarrow> tx_status r = s)
        \<and> (case mod_id of None \<Rightarrow> True | Some m \<Rightarrow> tx_mod r = Some m)) (transactions j)))"

definition mark_transaction_rolled_back :: "journal \<Rightarrow> nat \<Rightarrow> int \<Rightarrow> journal" where
  "mark_transaction_rolled_back j n now =
    update_tx (\<lambda>r. tx_id r = n) (\<lambda>r. r\<lparr>tx_status := TX_ROLLED_BACK, tx_rolled_back_at := Some now\<rparr>) j"

section \<open>Operations\<close>

definition begin_operation ::
  "journal \<Rightarrow> string \<Rightarrow> operation_type \<Rightarrow> string \<Rightarrow> nat option \<Rightarrow> string option \<Rightarrow> string option \<Rightarrow>
   (string, json) dict option \<Rightarrow> int \<Rightarrow> journal \<times> (journal_error + nat)" where
  "begin_operation j agent ty path tx snapshot csum metadata now =
    (case (case tx of Some n \<Rightarrow> if n \<noteq> 0 then Some n else current_transaction j | None \<Rightarrow> current_transaction j) of
       None \<Rightarrow> (j, Inl (Journal_Transaction_Error ''No active transaction. Call begin_transaction first.''))
     | Some n \<Rightarrow>
         if get_transaction j n = None
         then (j, Inl (Journal_Transaction_Error ''Failed to log operation: FOREIGN KEY constraint failed''))
         else (let i = Suc (last_entry j);
                   row = \<lparr>entry_id = i, entry_tx = n, entry_time = now, entry_agent = agent, entry_type = ty,
                          entry_target = path, entry_status = OP_STARTED, entry_snapshot = snapshot,
                          entry_checksum = csum, entry_metadata = (if nonempty metadata then metadata else None),
                          entry_rolled_back = False\<rparr>
               in (j\<lparr>entries := entries j @ [row], last_entry := i\<rparr>, Inr i)))"

definition update_entry :: "nat \<Rightarrow> (journal_entry \<Rightarrow> journal_entry) \<Rightarrow> journal \<Rightarrow> journal" where
  "update_entry i f j = j\<lparr>entries := map (\<lambda>e. if entry_id e = i then f e else e) (entries j)\<rparr>"

definition update_status :: "journal \<Rightarrow> nat \<Rightarrow> operation_status \<Rightarrow> journal" where
  "update_status j i s = update_entry i (\<lambda>e. e\<lparr>entry_status := s\<rparr>) j"

text \<open>\<open>json_set(COALESCE(metadata, '{}'), '$.key', text)\<close>.\<close>

definition set_metadata :: "string \<Rightarrow> string \<Rightarrow> journal_entry \<Rightarrow> journal_entry" where
  "set_metadata key text e =
    e\<lparr>entry_metadata := Some (dset key (JStr text) (case entry_metadata e of None \<Rightarrow> [] | Some d \<Rightarrow> d))\<rparr>"

definition complete_operation :: "journal \<Rightarrow> nat \<Rightarrow> journal" where
  "complete_operation j i = update_status j i OP_COMPLETED"

definition fail_operation :: "journal \<Rightarrow> nat \<Rightarrow> string \<Rightarrow> (string, json) dict option \<Rightarrow> journal" where
  "fail_operation j i error metadata =
    (let j' = update_status j i OP_FAILED in
     if nonempty metadata then update_entry i (set_metadata ''error'' error) j' else j')"

definition mark_rolled_back :: "journal \<Rightarrow> nat \<Rightarrow> string option \<Rightarrow> journal" where
  "mark_rolled_back j i details =
    (let j' = update_entry i (\<lambda>e. e\<lparr>entry_status := OP_ROLLED_BACK, entry_rolled_back := True\<rparr>) j in
     if nonempty details then update_entry i (set_metadata ''rollback_details'' (the details)) j' else j')"

definition log_operation ::
  "journal \<Rightarrow> string \<Rightarrow> string \<Rightarrow> string \<Rightarrow> (string, json) dict option \<Rightarrow> int \<Rightarrow> journal \<times> (journal_error + nat)" where
  "log_operation j agent ty path details now =
    (let (j1, n) = begin_transaction j (''Legacy operation: '' @ ty) None now;
         op = dget_or operation_values ty FILE_MODIFY
     in case begin_operation j1 agent op path (Some n) None None details now of
          (j2, Inl e) \<Rightarrow> (mark_transaction_rolled_back j2 n now, Inl e)
        | (j2, Inr i) \<Rightarrow>
            (case commit_transaction (complete_operation j2 i) n now of
               (j3, Inl e) \<Rightarrow> (mark_transaction_rolled_back j3 n now, Inl e)
             | (j3, Inr _) \<Rightarrow> (j3, Inr i)))"

section \<open>Queries\<close>

definition newest_first :: "(nat \<Rightarrow> int) \<Rightarrow> (journal_entry \<Rightarrow> bool) \<Rightarrow> journal \<Rightarrow> journal_entry list" where
  "newest_first tie P j = sort_key (\<lambda>e. (- entry_time e, tie (entry_id e))) (filter P (entries j))"

definition get_operations_by_transaction :: "(nat \<Rightarrow> int) \<Rightarrow> journal \<Rightarrow> nat \<Rightarrow> journal_entry list" where
  "get_operations_by_transaction tie j n =
    sort_key (\<lambda>e. (entry_time e, tie (entry_id e))) (filter (\<lambda>e. entry_tx e = n) (entries j))"

definition get_last_operation ::
  "(nat \<Rightarrow> int) \<Rightarrow> journal \<Rightarrow> string \<Rightarrow> operation_status list option \<Rightarrow> journal_entry option" where
  "get_last_operation tie j agent statuses =
    (let ss = (case statuses of None \<Rightarrow> [OP_COMPLETED, OP_FAILED] | Some ss \<Rightarrow> ss) in
     case newest_first tie (\<lambda>e. entry_agent e = agent \<and> entry_status e \<in> set ss) j of
       [] \<Rightarrow> None | e # _ \<Rightarrow> Some e)"

definition get_operations_by_agent :: "(nat \<Rightarrow> int) \<Rightarrow> journal \<Rightarrow> string \<Rightarrow> nat \<Rightarrow> journal_entry list" where
  "get_operations_by_agent tie j agent limit = take limit (newest_first tie (\<lambda>e. entry_agent e = agent) j)"

definition get_operations_by_path :: "(nat \<Rightarrow> int) \<Rightarrow> journal \<Rightarrow> string \<Rightarrow> nat \<Rightarrow> journal_entry list" where
  "get_operations_by_path tie j path limit = take limit (newest_first tie (\<lambda>e. entry_target e = path) j)"

section \<open>Rollback\<close>

record rollback_result =
  rb_success :: bool
  rb_transaction_id :: "nat option"
  rb_entries_restored :: nat
  rb_files_deleted :: nat
  rb_errors :: "string list"

text \<open>
  \<open>undo_last_operation\<close>: the journal and the files after it, and its result; the snapshot is restored
  with its checksum verified, \<open>io\<close> is the I/O fault it meets.  A \<open>JournalSnapshotError\<close> of the restore
  is no \<open>OSError\<close>, so it is not turned into a \<open>RollbackError\<close> but leaves the call.  \<open>to_path\<close> reads a
  stored path.
\<close>

definition undo_last_operation ::
  "(nat \<Rightarrow> int) \<Rightarrow> (string \<Rightarrow> path) \<Rightarrow> (string \<Rightarrow> string) \<Rightarrow> (string \<Rightarrow> json option) \<Rightarrow> restore_fault \<Rightarrow>
   journal \<Rightarrow> file_system \<Rightarrow> string \<Rightarrow> journal \<times> file_system \<times> (snapshot_error + rollback_result)" where
  "undo_last_operation tie to_path sha256 loads io j fs agent =
    (case get_last_operation tie j agent (Some [OP_COMPLETED, OP_FAILED]) of
       None \<Rightarrow> (j, fs, Inr \<lparr>rb_success = False, rb_transaction_id = None, rb_entries_restored = 0,
                  rb_files_deleted = 0, rb_errors = [''No completed or failed operation found for agent'']\<rparr>)
     | Some e \<Rightarrow>
        (case (if nonempty (entry_snapshot e)
               then restore_snapshot sha256 loads io (to_path (the (entry_snapshot e))) (to_path (entry_target e)) True fs
               else (fs, Inr True)) of
           (fs', Inl err) \<Rightarrow> (j, fs', Inl err)
         | (fs', Inr _) \<Rightarrow>
             (mark_rolled_back j (entry_id e) None, fs',
              Inr \<lparr>rb_success = True, rb_transaction_id = Some (entry_id e),
                   rb_entries_restored = (if nonempty (entry_snapshot e) then 1 else 0),
                   rb_files_deleted = (if entry_type e \<in> {FILE_CREATE, MOD_INSTALL} then 1 else 0),
                   rb_errors = []\<rparr>)))"

section \<open>Steps and the invariant\<close>

text \<open>One call on the journal, with any arguments; \<open>log_operation\<close> is a sequence of them.\<close>

inductive journal_step :: "journal \<Rightarrow> journal \<Rightarrow> bool" where
  j_begin: "journal_step j (fst (begin_transaction j d m now))"
| j_commit: "journal_step j (fst (commit_transaction j n now))"
| j_roll_tx: "journal_step j (mark_transaction_rolled_back j n now)"
| j_op: "journal_step j (fst (begin_operation j a ty p tx sn cs md now))"
| j_complete: "journal_step j (complete_operation j i)"
| j_fail: "journal_step j (fail_operation j i err md)"
| j_roll: "journal_step j (mark_rolled_back j i details)"

definition tx_ok :: "tx_row \<Rightarrow> bool" where
  "tx_ok r \<longleftrightarrow> (tx_status r = TX_PENDING \<longrightarrow> tx_committed_at r = None \<and> tx_rolled_back_at r = None)
     \<and> (tx_status r = TX_COMMITTED \<longrightarrow> tx_committed_at r \<noteq> None)
     \<and> (tx_status r = TX_ROLLED_BACK \<longrightarrow> tx_rolled_back_at r \<noteq> None)"

definition journal_ok :: "journal \<Rightarrow> bool" where
  "journal_ok j \<longleftrightarrow> map tx_id (transactions j) = [1..<Suc (last_tx j)] \<and> map entry_id (entries j) = [1..<Suc (last_entry j)]
     \<and> list_all tx_ok (transactions j) \<and> list_all (\<lambda>e. 1 \<le> entry_tx e \<and> entry_tx e \<le> last_tx j) (entries j)
     \<and> (\<forall>n. current_transaction j = Some n \<longrightarrow> 1 \<le> n \<and> n \<le> last_tx j)"

lemma map_if_same: "(\<And>x. f (g x) = f x) \<Longrightarrow> map f (map (\<lambda>x. if P x then g x else x) xs) = map f xs"
  by (induction xs) auto

lemma list_all_map_if:
  "list_all Q xs \<Longrightarrow> (\<And>x. Q x \<Longrightarrow> P x \<Longrightarrow> Q (g x)) \<Longrightarrow> list_all Q (map (\<lambda>x. if P x then g x else x) xs)"
  by (induction xs) auto

lemma update_tx_ok:
  assumes "journal_ok j" and "\<And>r. tx_id (f r) = tx_id r" and "\<And>r. tx_ok r \<Longrightarrow> P r \<Longrightarrow> tx_ok (f r)"
  shows "journal_ok (update_tx P f j)"
  using assms map_if_same[of tx_id f] list_all_map_if[of tx_ok "transactions j" P f]
  by (simp add: journal_ok_def update_tx_def del: map_map upt_Suc)

lemma update_entry_ok:
  assumes "journal_ok j" and "\<And>e. entry_id (f e) = entry_id e" and "\<And>e. entry_tx (f e) = entry_tx e"
  shows "journal_ok (update_entry i f j)"
  using assms map_if_same[of entry_id f]
    list_all_map_if[of "\<lambda>e. 1 \<le> entry_tx e \<and> entry_tx e \<le> last_tx j" "entries j" _ f]
  by (simp add: journal_ok_def update_entry_def del: map_map upt_Suc)

lemma get_transaction_ok: "journal_ok j \<Longrightarrow> get_transaction j n \<noteq> None \<longleftrightarrow> 1 \<le> n \<and> n \<le> last_tx j"
proof -
  assume "journal_ok j"
  then have "set (map tx_id (transactions j)) = {1..<Suc (last_tx j)}"
    by (metis journal_ok_def set_upt)
  moreover have "get_transaction j n \<noteq> None \<longleftrightarrow> n \<in> set (map tx_id (transactions j))"
    by (auto simp: get_transaction_def find_None_iff image_iff)
  ultimately show ?thesis by auto
qed

lemma journal_step_ok: "journal_step j j' \<Longrightarrow> journal_ok j \<Longrightarrow> journal_ok j'"
proof (induction rule: journal_step.induct)
  case (j_begin j d m now)
  then show ?case by (auto simp: journal_ok_def begin_transaction_def tx_ok_def Let_def list_all_iff upt_Suc_append
      simp del: upt_Suc)
next
  case (j_commit j n now)
  let ?hit = "\<lambda>r. tx_id r = n \<and> tx_status r = TX_PENDING"
  have "journal_ok (update_tx ?hit (\<lambda>r. r\<lparr>tx_status := TX_COMMITTED, tx_committed_at := Some now\<rparr>) j)"
    using j_commit by (rule update_tx_ok) (auto simp: tx_ok_def)
  then show ?case using j_commit
    by (auto simp: commit_transaction_def Let_def journal_ok_def)
next
  case (j_roll_tx j n now)
  then show ?case unfolding mark_transaction_rolled_back_def by (rule update_tx_ok) (auto simp: tx_ok_def)
next
  case (j_op j a ty p tx sn cs md now)
  let ?tx = "case tx of Some n \<Rightarrow> if n \<noteq> 0 then Some n else current_transaction j | None \<Rightarrow> current_transaction j"
  show ?case
  proof (cases ?tx)
    case None
    then show ?thesis using j_op by (simp add: begin_operation_def)
  next
    case (Some n)
    show ?thesis
    proof (cases "get_transaction j n = None")
      case True
      then show ?thesis using j_op Some by (simp add: begin_operation_def)
    next
      case False
      then have "1 \<le> n" "n \<le> last_tx j" using get_transaction_ok[OF j_op, of n] by simp_all
      then show ?thesis using j_op Some False
        by (auto simp: begin_operation_def Let_def journal_ok_def upt_Suc_append simp del: upt_Suc)
    qed
  qed
qed (auto simp: complete_operation_def fail_operation_def mark_rolled_back_def update_status_def set_metadata_def
      Let_def intro!: update_entry_ok)

lemma journal_steps_ok: "journal_step\<^sup>*\<^sup>* j j' \<Longrightarrow> journal_ok j \<Longrightarrow> journal_ok j'"
  by (induction rule: rtranclp_induct) (auto intro: journal_step_ok)

lemma new_journal_ok: "journal_ok new_journal"
  by (simp add: journal_ok_def new_journal_def)

section \<open>Undoing\<close>

definition undoable :: "string \<Rightarrow> journal_entry \<Rightarrow> bool" where
  "undoable agent e \<longleftrightarrow> entry_agent e = agent \<and> entry_status e \<in> {OP_COMPLETED, OP_FAILED}"

text \<open>The operations of an agent that are left to undo, the next one first.\<close>

definition undo_list :: "(nat \<Rightarrow> int) \<Rightarrow> journal \<Rightarrow> string \<Rightarrow> journal_entry list" where
  "undo_list tie j agent = newest_first tie (undoable agent) j"

lemma get_last_undo:
  "get_last_operation tie j agent (Some [OP_COMPLETED, OP_FAILED])
   = (case undo_list tie j agent of [] \<Rightarrow> None | e # _ \<Rightarrow> Some e)"
proof -
  have "undoable agent = (\<lambda>e. entry_agent e = agent \<and> entry_status e \<in> set [OP_COMPLETED, OP_FAILED])"
    by (auto simp: fun_eq_iff undoable_def)
  then show ?thesis by (simp add: get_last_operation_def undo_list_def newest_first_def)
qed

lemma undo_list_marked:
  "undo_list tie (mark_rolled_back j i None) agent = filter (\<lambda>e. entry_id e \<noteq> i) (undo_list tie j agent)"
proof -
  let ?g = "\<lambda>e. e\<lparr>entry_status := OP_ROLLED_BACK, entry_rolled_back := True\<rparr>"
  have "filter (undoable agent) (map (\<lambda>e. if entry_id e = i then ?g e else e) es)
      = filter (\<lambda>e. entry_id e \<noteq> i) (filter (undoable agent) es)" for es
    by (induction es) (auto simp: undoable_def)
  then show ?thesis
    by (simp add: undo_list_def newest_first_def mark_rolled_back_def update_entry_def Let_def filter_sort)
qed

lemma undo_list_distinct: "journal_ok j \<Longrightarrow> distinct (map entry_id (undo_list tie j agent))"
proof -
  assume "journal_ok j"
  then have "distinct (map entry_id (entries j))" by (metis journal_ok_def distinct_upt)
  then have "distinct (map entry_id (filter (undoable agent) (entries j)))" by (rule distinct_map_filter)
  moreover have "mset (map entry_id (undo_list tie j agent)) = mset (map entry_id (filter (undoable agent) (entries j)))"
    by (simp add: undo_list_def newest_first_def)
  ultimately show ?thesis using mset_eq_imp_distinct_iff by blast
qed

lemma undo_list_tl:
  "journal_ok j \<Longrightarrow> undo_list tie j agent = e # es \<Longrightarrow> undo_list tie (mark_rolled_back j (entry_id e) None) agent = es"
proof -
  assume "journal_ok j" and l: "undo_list tie j agent = e # es"
  from undo_list_distinct[OF this(1), of tie agent] l have "\<forall>x \<in> set es. entry_id x \<noteq> entry_id e"
    by (metis distinct.simps(2) image_eqI list.set_map list.simps(9))
  then have "filter (\<lambda>x. entry_id x \<noteq> entry_id e) es = es" by (rule filter_True)
  then show ?thesis by (simp add: undo_list_marked l)
qed

lemma mark_rolled_back_ok: "journal_ok j \<Longrightarrow> journal_ok (mark_rolled_back j i details)"
  by (rule journal_step_ok[OF journal_step.j_roll])

text \<open>
  Undoing \<open>n\<close> times without I/O faults; the ids of the operations undone, until one undo does not succeed.
\<close>

fun undo_times ::
  "nat \<Rightarrow> (nat \<Rightarrow> int) \<Rightarrow> (string \<Rightarrow> path) \<Rightarrow> (string \<Rightarrow> string) \<Rightarrow> (string \<Rightarrow> json option) \<Rightarrow>
   journal \<Rightarrow> file_system \<Rightarrow> string \<Rightarrow> journal \<times> file_system \<times> nat list" where
  "undo_times 0 tie to_path sha256 loads j fs agent = (j, fs, [])"
| "undo_times (Suc n) tie to_path sha256 loads j fs agent =
    (case undo_last_operation tie to_path sha256 loads No_Io_Fault j fs agent of
       (j', fs', Inl e) \<Rightarrow> (j', fs', [])
     | (j', fs', Inr r) \<Rightarrow>
         if \<not> rb_success r then (j', fs', [])
         else (let (j'', fs'', is) = undo_times n tie to_path sha256 loads j' fs' agent
               in (j'', fs'', the (rb_transaction_id r) # is)))"

text \<open>
  The snapshots of some operations are in place: each has its file, with the checksum of its sidecar when that
  has one, and neither is a file the operations restore, or the backup of one.
\<close>

definition snapshot_at :: "(string \<Rightarrow> path) \<Rightarrow> journal_entry \<Rightarrow> path" where
  "snapshot_at to_path e = to_path (the (entry_snapshot e))"

definition target_at :: "(string \<Rightarrow> path) \<Rightarrow> journal_entry \<Rightarrow> path" where
  "target_at to_path e = to_path (entry_target e)"

definition restores :: "journal_entry \<Rightarrow> bool" where
  "restores e \<longleftrightarrow> nonempty (entry_snapshot e)"

definition snapshots_in_place ::
  "(string \<Rightarrow> path) \<Rightarrow> (string \<Rightarrow> string) \<Rightarrow> (string \<Rightarrow> json option) \<Rightarrow> journal_entry list \<Rightarrow> file_system \<Rightarrow> bool" where
  "snapshots_in_place to_path sha256 loads es fs \<longleftrightarrow>
    (\<forall>e \<in> set (filter restores es). target_at to_path e \<noteq> []
      \<and> (\<exists>c. dget fs (snapshot_at to_path e) = Some c
           \<and> extract_checksum_from_meta loads fs (snapshot_at to_path e) \<in> {Inr None, Inr (Some (sha256 c))})
      \<and> (\<forall>d \<in> set (filter restores es). snapshot_at to_path e \<noteq> target_at to_path d \<and> snapshot_at to_path e \<noteq> backup_file (target_at to_path d)
           \<and> meta_file (snapshot_at to_path e) \<noteq> target_at to_path d \<and> meta_file (snapshot_at to_path e) \<noteq> backup_file (target_at to_path d)))"

text \<open>The files after the undoing.\<close>

fun undone_files :: "(string \<Rightarrow> path) \<Rightarrow> (string \<Rightarrow> string) \<Rightarrow> (string \<Rightarrow> json option) \<Rightarrow> journal_entry list \<Rightarrow> file_system \<Rightarrow> file_system" where
  "undone_files to_path sha256 loads [] fs = fs"
| "undone_files to_path sha256 loads (e # es) fs = undone_files to_path sha256 loads es
    (if restores e then fst (restore_snapshot sha256 loads No_Io_Fault (snapshot_at to_path e) (target_at to_path e) True fs) else fs)"

lemma extract_same: "dget fs' (meta_file sp) = dget fs (meta_file sp) \<Longrightarrow> extract_checksum_from_meta loads fs' sp = extract_checksum_from_meta loads fs sp"
  by (simp add: extract_checksum_from_meta_def)

lemma restore_in_place:
  assumes "snapshots_in_place to_path sha256 loads (e # es) fs" "restores e"
  obtains fs' where "restore_snapshot sha256 loads No_Io_Fault (snapshot_at to_path e) (target_at to_path e) True fs = (fs', Inr True)"
    "dget fs' (target_at to_path e) = dget fs (snapshot_at to_path e)"
    "\<forall>q. q \<noteq> target_at to_path e \<longrightarrow> q \<noteq> backup_file (target_at to_path e) \<longrightarrow> dget fs' q = dget fs q"
proof -
  from assms obtain c where c: "dget fs (snapshot_at to_path e) = Some c"
    and x: "extract_checksum_from_meta loads fs (snapshot_at to_path e) \<in> {Inr None, Inr (Some (sha256 c))}"
    and p: "target_at to_path e \<noteq> []" "meta_file (snapshot_at to_path e) \<noteq> target_at to_path e"
      "meta_file (snapshot_at to_path e) \<noteq> backup_file (target_at to_path e)"
    unfolding snapshots_in_place_def by fastforce
  have "extract_checksum_from_meta loads fs' (snapshot_at to_path e) \<in> {Inr None, Inr (Some (sha256 c))}"
    if "dget fs' (meta_file (snapshot_at to_path e)) = dget fs (meta_file (snapshot_at to_path e))" for fs'
    using x extract_same[OF that] by simp
  then show ?thesis using restore_verified[OF c p, of loads sha256] that c by fastforce
qed

lemma stays_in_place:
  assumes "snapshots_in_place to_path sha256 loads (e # es) fs" "restores e"
    and "\<forall>q. q \<noteq> target_at to_path e \<longrightarrow> q \<noteq> backup_file (target_at to_path e) \<longrightarrow> dget fs' q = dget fs q"
  shows "snapshots_in_place to_path sha256 loads es fs'"
  unfolding snapshots_in_place_def
proof (intro ballI)
  fix d assume d: "d \<in> set (filter restores es)"
  then have "dget fs' (snapshot_at to_path d) = dget fs (snapshot_at to_path d)"
    "dget fs' (meta_file (snapshot_at to_path d)) = dget fs (meta_file (snapshot_at to_path d))"
    using assms unfolding snapshots_in_place_def by simp_all
  then show "target_at to_path d \<noteq> []
      \<and> (\<exists>c. dget fs' (snapshot_at to_path d) = Some c
           \<and> extract_checksum_from_meta loads fs' (snapshot_at to_path d) \<in> {Inr None, Inr (Some (sha256 c))})
      \<and> (\<forall>e \<in> set (filter restores es). snapshot_at to_path d \<noteq> target_at to_path e \<and> snapshot_at to_path d \<noteq> backup_file (target_at to_path e)
           \<and> meta_file (snapshot_at to_path d) \<noteq> target_at to_path e \<and> meta_file (snapshot_at to_path d) \<noteq> backup_file (target_at to_path e))"
    using assms(1) d extract_same[of fs' "snapshot_at to_path d" fs loads] unfolding snapshots_in_place_def by simp
qed

lemma in_place_tl: "snapshots_in_place to_path sha256 loads (e # es) fs \<Longrightarrow> snapshots_in_place to_path sha256 loads es fs"
  unfolding snapshots_in_place_def by auto

lemma undo_step:
  assumes "undo_list tie j agent = e # es" and "snapshots_in_place to_path sha256 loads (e # ds) fs"
  defines "fs' \<equiv> if restores e then fst (restore_snapshot sha256 loads No_Io_Fault (snapshot_at to_path e) (target_at to_path e) True fs) else fs"
  shows "\<exists>r. undo_last_operation tie to_path sha256 loads No_Io_Fault j fs agent = (mark_rolled_back j (entry_id e) None, fs', Inr r)
      \<and> rb_success r \<and> rb_transaction_id r = Some (entry_id e)"
    and "snapshots_in_place to_path sha256 loads ds fs'"
proof -
  show "\<exists>r. undo_last_operation tie to_path sha256 loads No_Io_Fault j fs agent = (mark_rolled_back j (entry_id e) None, fs', Inr r)
      \<and> rb_success r \<and> rb_transaction_id r = Some (entry_id e)"
  proof (cases "restores e")
    case True
    from restore_in_place[OF assms(2) True] obtain f where
      "restore_snapshot sha256 loads No_Io_Fault (snapshot_at to_path e) (target_at to_path e) True fs = (f, Inr True)" by blast
    then show ?thesis using assms(1) True
      by (simp add: undo_last_operation_def get_last_undo fs'_def restores_def snapshot_at_def target_at_def)
  next
    case False
    then show ?thesis using assms(1) by (simp add: undo_last_operation_def get_last_undo fs'_def restores_def)
  qed
  show "snapshots_in_place to_path sha256 loads ds fs'"
  proof (cases "restores e")
    case True
    from restore_in_place[OF assms(2) True] obtain f where
      "restore_snapshot sha256 loads No_Io_Fault (snapshot_at to_path e) (target_at to_path e) True fs = (f, Inr True)"
      "\<forall>q. q \<noteq> target_at to_path e \<longrightarrow> q \<noteq> backup_file (target_at to_path e) \<longrightarrow> dget f q = dget fs q" by metis
    then show ?thesis using stays_in_place[OF assms(2) True, of f] True by (simp add: fs'_def)
  qed (use in_place_tl[OF assms(2)] in \<open>simp add: fs'_def\<close>)
qed

lemma undo_times_run:
  "journal_ok j \<Longrightarrow> snapshots_in_place to_path sha256 loads (take n (undo_list tie j agent)) fs \<Longrightarrow>
   undo_times n tie to_path sha256 loads j fs agent = (j', fs', ids) \<Longrightarrow>
    ids = map entry_id (take n (undo_list tie j agent)) \<and> undo_list tie j' agent = drop n (undo_list tie j agent)
    \<and> fs' = undone_files to_path sha256 loads (take n (undo_list tie j agent)) fs"
proof (induction n arbitrary: j fs ids)
  case (Suc n)
  show ?case
  proof (cases "undo_list tie j agent")
    case Nil
    then have "ids = []" "j' = j" "fs' = fs" using Suc.prems(3) by (auto simp: undo_last_operation_def get_last_undo)
    then show ?thesis using Nil by simp
  next
    case (Cons e es)
    have place: "snapshots_in_place to_path sha256 loads (e # take n es) fs" using Suc.prems(2) Cons by simp
    define fs1 where "fs1 = (if restores e then fst (restore_snapshot sha256 loads No_Io_Fault (snapshot_at to_path e) (target_at to_path e) True fs) else fs)"
    note step = undo_step[OF Cons place, folded fs1_def]
    obtain r where u: "undo_last_operation tie to_path sha256 loads No_Io_Fault j fs agent
        = (mark_rolled_back j (entry_id e) None, fs1, Inr r)" "rb_success r" "rb_transaction_id r = Some (entry_id e)"
      using step(1) by blast
    obtain is2 where rec: "undo_times n tie to_path sha256 loads (mark_rolled_back j (entry_id e) None) fs1 agent = (j', fs', is2)"
      and eq: "ids = entry_id e # is2" using Suc.prems(3) u by (auto split: prod.splits)
    note tl = undo_list_tl[OF Suc.prems(1) Cons]
    from Suc.IH[OF mark_rolled_back_ok[OF Suc.prems(1)] _ rec] step(2)
    show ?thesis using eq tl Cons by (simp add: fs1_def)
  qed
qed simp

text \<open>What the files hold then: a file that several of the operations changed has its content before the oldest of them.\<close>

lemma undone_files_content:
  assumes "snapshots_in_place to_path sha256 loads (xs @ e # ys) fs" "restores e"
    and "\<forall>d \<in> set ys. restores d \<longrightarrow> target_at to_path d \<noteq> target_at to_path e \<and> backup_file (target_at to_path d) \<noteq> target_at to_path e"
  shows "dget (undone_files to_path sha256 loads (xs @ e # ys) fs) (target_at to_path e) = dget fs (snapshot_at to_path e)"
  using assms(1)
proof (induction xs arbitrary: fs)
  case Nil
  have later: "snapshots_in_place to_path sha256 loads ys g \<Longrightarrow>
      \<forall>d \<in> set ys. restores d \<longrightarrow> target_at to_path d \<noteq> p \<and> backup_file (target_at to_path d) \<noteq> p \<Longrightarrow>
      dget (undone_files to_path sha256 loads ys g) p = dget g p" for g p
  proof (induction ys arbitrary: g)
    case (Cons d ys)
    show ?case
    proof (cases "restores d")
      case True
      from restore_in_place[OF Cons.prems(1) True] obtain f where
        f: "restore_snapshot sha256 loads No_Io_Fault (snapshot_at to_path d) (target_at to_path d) True g = (f, Inr True)"
        "\<forall>q. q \<noteq> target_at to_path d \<longrightarrow> q \<noteq> backup_file (target_at to_path d) \<longrightarrow> dget f q = dget g q" by metis
      have "dget f p = dget g p" using f(2) Cons.prems(2) True by (metis list.set_intros(1))
      then show ?thesis using Cons.IH[OF stays_in_place[OF Cons.prems(1) True f(2)]] Cons.prems(2) True f(1) by simp
    qed (use Cons.IH[OF in_place_tl[OF Cons.prems(1)]] Cons.prems(2) in simp)
  qed simp
  from Nil have place: "snapshots_in_place to_path sha256 loads (e # ys) fs" by simp
  from restore_in_place[OF place assms(2)] obtain f where
    f: "restore_snapshot sha256 loads No_Io_Fault (snapshot_at to_path e) (target_at to_path e) True fs = (f, Inr True)"
    "dget f (target_at to_path e) = dget fs (snapshot_at to_path e)"
    "\<forall>q. q \<noteq> target_at to_path e \<longrightarrow> q \<noteq> backup_file (target_at to_path e) \<longrightarrow> dget f q = dget fs q" by metis
  show ?case using later[OF stays_in_place[OF place assms(2) f(3)] assms(3)] f(1,2) assms(2) by simp
next
  case (Cons d xs)
  then have place: "snapshots_in_place to_path sha256 loads (d # (xs @ e # ys)) fs" by simp
  show ?case
  proof (cases "restores d")
    case True
    from restore_in_place[OF place True] obtain f where
      f: "restore_snapshot sha256 loads No_Io_Fault (snapshot_at to_path d) (target_at to_path d) True fs = (f, Inr True)"
      "\<forall>q. q \<noteq> target_at to_path d \<longrightarrow> q \<noteq> backup_file (target_at to_path d) \<longrightarrow> dget f q = dget fs q" by metis
    have "dget f (snapshot_at to_path e) = dget fs (snapshot_at to_path e)"
      using place True assms(2) f(2) unfolding snapshots_in_place_def by simp
    then show ?thesis using Cons.IH[OF stays_in_place[OF place True f(2)]] f(1) True by simp
  qed (use Cons.IH[OF in_place_tl[OF place]] in simp)
qed

lemma undo_list_sorted: "sorted_wrt (\<lambda>a b. entry_time b \<le> entry_time a) (undo_list tie j agent)"
proof -
  have "sorted (map (\<lambda>e. (- entry_time e, tie (entry_id e))) (undo_list tie j agent))"
    by (simp add: undo_list_def newest_first_def)
  then have "sorted_wrt (\<lambda>a b. (- entry_time a, tie (entry_id a)) \<le> (- entry_time b, tie (entry_id b))) (undo_list tie j agent)"
    by (simp only: sorted_map)
  then show ?thesis
    by (rule sorted_wrt_mono_rel[rotated]) (simp add: less_eq_prod_def, linarith)
qed


lemmas reach_intros = journal_step.intros[THEN rtranclp.rtrancl_into_rtrancl[of journal_step, rotated]]

lemma find_snoc_new: "\<forall>x \<in> set xs. \<not> P x \<Longrightarrow> find P (xs @ [y]) = (if P y then Some y else None)"
  by (induction xs) auto

text \<open>Two operations of an agent on a file, in the seconds 10 and 20, both completed, the first with a snapshot.\<close>

definition demo_journal :: journal where
  "demo_journal =
    (let j1 = fst (begin_transaction new_journal ''tx'' None 10);
         j2 = complete_operation (fst (begin_operation j1 ''a'' FILE_MODIFY ''f'' None (Some ''s'') None None 10)) 1
     in complete_operation (fst (begin_operation j2 ''a'' FILE_CREATE ''g'' None None None None 20)) 2)"

lemma demo_journal_reached: "journal_step\<^sup>*\<^sup>* new_journal demo_journal"
  unfolding demo_journal_def Let_def by (intro reach_intros rtranclp.rtrancl_refl)

lemma demo_journal_entries:
  "\<exists>e1 e2. undo_list tie demo_journal ''a'' = [e2, e1] \<and> entry_id e1 = 1 \<and> entry_id e2 = 2
    \<and> entry_snapshot e1 = Some ''s'' \<and> entry_snapshot e2 = None \<and> entry_target e1 = ''f''"
proof -
  have "\<exists>e1 e2. entries demo_journal = [e1, e2] \<and> undoable ''a'' e1 \<and> undoable ''a'' e2 \<and> entry_id e1 = 1 \<and> entry_id e2 = 2
      \<and> entry_time e1 = 10 \<and> entry_time e2 = 20 \<and> entry_snapshot e1 = Some ''s'' \<and> entry_snapshot e2 = None \<and> entry_target e1 = ''f''"
    by (simp add: demo_journal_def begin_operation_def begin_transaction_def get_transaction_def complete_operation_def
        update_status_def update_entry_def new_journal_def undoable_def Let_def)
  then show ?thesis by (auto simp: undo_list_def newest_first_def less_eq_prod_def)
qed


text \<open>
  An operation whose snapshot file is gone blocks undo for its agent: the restore raises, nothing
  in the journal or the files changes, so every later undo meets the same operation and the older
  ones can never be undone.
\<close>

theorem missing_snapshot_blocks_undo:
  assumes "get_last_operation tie j agent (Some [OP_COMPLETED, OP_FAILED]) = Some e"
    and "entry_snapshot e = Some sp" and "sp \<noteq> []" and "dget fs (to_path sp) = None"
  shows "\<exists>msg. undo_last_operation tie to_path sha256 loads io j fs agent
      = (j, fs, Inl (Journal_Snapshot_Error msg))"
  using assms by (simp add: undo_last_operation_def restore_snapshot_def)

definition demo_snapshot_lost :: journal where
  "demo_snapshot_lost = complete_operation (fst (begin_operation
     (fst (begin_transaction new_journal ''tx'' None 10)) ''a'' FILE_MODIFY ''f'' None (Some ''snap'') None None 10)) 1"

theorem missing_snapshot_blocks_undo_witness:
  "\<exists>msg. undo_last_operation int (\<lambda>s. [s]) id (\<lambda>_. None) No_Io_Fault
      demo_snapshot_lost [] ''a'' = (demo_snapshot_lost, [], Inl (Journal_Snapshot_Error msg))"
proof -
  have "\<exists>e. get_last_operation int demo_snapshot_lost ''a'' (Some [OP_COMPLETED, OP_FAILED]) = Some e \<and> entry_snapshot e = Some ''snap''"
    by (simp add: demo_snapshot_lost_def begin_operation_def begin_transaction_def get_transaction_def complete_operation_def
        update_status_def update_entry_def new_journal_def get_last_operation_def newest_first_def Let_def)
  then obtain e where "get_last_operation int demo_snapshot_lost ''a'' (Some [OP_COMPLETED, OP_FAILED]) = Some e"
    "entry_snapshot e = Some ''snap''" by blast
  then show ?thesis by (rule missing_snapshot_blocks_undo) simp_all
qed

text \<open>Undoing a created file reports one deleted file and deletes nothing.\<close>

lemma undo_create_deletes_nothing:
  "get_last_operation tie j agent (Some [OP_COMPLETED, OP_FAILED]) = Some e \<Longrightarrow> entry_type e = FILE_CREATE \<Longrightarrow>
   entry_snapshot e = None \<Longrightarrow>
   \<exists>r. undo_last_operation tie to_path sha256 loads io j fs agent = (mark_rolled_back j (entry_id e) None, fs, Inr r)
     \<and> rb_success r \<and> rb_files_deleted r = 1"
  by (simp add: undo_last_operation_def)

text \<open>The error text of a failed operation is stored only when metadata comes with it.\<close>

lemma fail_operation_drops_error: "fail_operation j i error None = update_status j i OP_FAILED"
  by (simp add: fail_operation_def)

text \<open>
  Rolling a transaction back does not close it: its status is final for commit, but it stays the
  current transaction, and the next operation begun without a transaction is recorded in it.
\<close>

theorem rolled_back_transaction_takes_operations:
  assumes "journal_step\<^sup>*\<^sup>* new_journal j" and "begin_transaction j d m t0 = (j1, n)"
    and "mark_transaction_rolled_back j1 n t1 = j2" and "begin_operation j2 agent ty path None sn cs md t2 = (j3, r)"
  shows "(let e = last (entries j3) in r = Inr (entry_id e) \<and> entry_tx e = n \<and> entries j3 = entries j2 @ [e])
    \<and> (\<exists>row. get_transaction j3 n = Some row \<and> tx_status row = TX_ROLLED_BACK)
    \<and> isl (snd (commit_transaction j3 n t3))"
proof -
  have "journal_ok j" using assms(1) new_journal_ok by (rule journal_steps_ok)
  then have "set (map tx_id (transactions j)) = {1..<Suc (last_tx j)}" by (metis journal_ok_def set_upt)
  then have fresh: "\<forall>r \<in> set (transactions j). tx_id r \<noteq> Suc (last_tx j)" by force
  have n: "n = Suc (last_tx j)" using assms(2) by (simp add: begin_transaction_def Let_def)
  define row where "row = \<lparr>tx_id = n, tx_mod = m, tx_description = d, tx_status = TX_ROLLED_BACK,
    tx_created = t0, tx_committed_at = None, tx_rolled_back_at = Some t1\<rparr>"
  have same: "map (\<lambda>r. if tx_id r = n then f r else r) (transactions j) = transactions j" for f
    using fresh n by (auto intro!: map_idI)
  have j2: "transactions j2 = transactions j @ [row]" "current_transaction j2 = Some n"
    using assms(2,3) same n by (auto simp: begin_transaction_def mark_transaction_rolled_back_def update_tx_def Let_def row_def)
  have get: "get_transaction j' n = Some row" if "transactions j' = transactions j @ [row]" for j'
    using that fresh n by (simp add: get_transaction_def find_snoc_new row_def)
  have "n \<noteq> 0" using n by simp
  then have j3: "transactions j3 = transactions j @ [row]" "r = Inr (entry_id (last (entries j3)))"
    "entry_tx (last (entries j3)) = n" "entries j3 = entries j2 @ [last (entries j3)]"
    using assms(4) j2 get[OF j2(1)] by (auto simp: begin_operation_def Let_def)
  have "isl (snd (commit_transaction j3 n t3))"
    using j3(1) fresh n by (auto simp: commit_transaction_def Let_def list_ex_iff row_def)
  then show ?thesis using j3 get[OF j3(1)] by (simp add: row_def Let_def)
qed

theorem rolled_back_transaction_takes_operations_witness:
  "(let j2 = mark_transaction_rolled_back (fst (begin_transaction new_journal ''tx'' None 0)) 1 1 in
    \<exists>i. snd (begin_operation j2 ''a'' FILE_MODIFY ''f'' None None None None 2) = Inr i)"
proof -
  obtain j1 n where b: "begin_transaction new_journal ''tx'' None 0 = (j1, n)" by fastforce
  then have n: "n = 1" by (simp add: begin_transaction_def new_journal_def Let_def)
  obtain j3 r where o: "begin_operation (mark_transaction_rolled_back j1 n 1) ''a'' FILE_MODIFY ''f'' None None None None 2 = (j3, r)"
    by fastforce
  from rolled_back_transaction_takes_operations[OF rtranclp.rtrancl_refl b refl o] b o n
  show ?thesis by (auto simp: Let_def)
qed

end
