(* ===== verification/Dead_Letters.thy ===== *)
theory Dead_Letters
  imports Prelude
begin

text \<open>
  \<open>sky_claw/antigravity/core/dlq_manager.py\<close>: the queue of failed events and the workers that retry
  them.  The table \<open>dead_letter_events\<close> is the list of its rows with the counter behind
  \<open>AUTOINCREMENT\<close>; one SQL statement with its commit is one step.  \<open>loads\<close> is \<open>json.loads\<close>, \<open>tie\<close> the
  order SQLite gives rows with equal \<open>next_retry_at\<close>; times are milliseconds and every reading of
  the clock is an argument.  A handler is a function on the state of the world and the table, since
  what it publishes may be enqueued while it runs.
\<close>

record event =
  topic :: string
  event_payload :: json
  timestamp_ms :: int
  event_source :: string

datatype letter_status = Waiting | In_Progress | Dead

record letter =
  letter_id :: nat
  letter_topic :: string
  payload_json :: string
  letter_source :: string
  event_ts_ms :: int
  handler_name :: string
  error_type :: string
  error_text :: string
  attempts :: nat
  next_retry_at :: int
  letter_status :: letter_status
  enqueued_at :: int
  letter_updated :: int

record dead_letters =
  letters :: "letter list"
  last_id :: nat

record dlq_config =
  max_attempts :: int
  base_backoff_s :: int
  batch_size :: int

definition default_dlq :: dlq_config where
  "default_dlq = \<lparr>max_attempts = 5, base_backoff_s = 2, batch_size = 50\<rparr>"

definition empty_letters :: dead_letters where
  "empty_letters = \<lparr>letters = [], last_id = 0\<rparr>"

definition letter_ids :: "dead_letters \<Rightarrow> nat list" where
  "letter_ids d = map letter_id (letters d)"

definition letter :: "dead_letters \<Rightarrow> nat \<Rightarrow> letter option" where
  "letter d i = find (\<lambda>r. letter_id r = i) (letters d)"

definition update_letters :: "(letter \<Rightarrow> bool) \<Rightarrow> (letter \<Rightarrow> letter) \<Rightarrow> dead_letters \<Rightarrow> dead_letters" where
  "update_letters P f d = d\<lparr>letters := map (\<lambda>r. if P r then f r else r) (letters d)\<rparr>"

section \<open>Operations on the table\<close>

definition compute_next_retry_at :: "int \<Rightarrow> nat \<Rightarrow> int \<Rightarrow> int" where
  "compute_next_retry_at now_ms attempt base = now_ms + base ^ attempt * 1000"

text \<open>\<open>enqueue\<close>: \<open>name\<close> is the handler's name, \<open>etype\<close> and \<open>msg\<close> the exception's type and text.\<close>

definition enqueue :: "dlq_config \<Rightarrow> event \<Rightarrow> string \<Rightarrow> string \<Rightarrow> string \<Rightarrow> int \<Rightarrow> dead_letters \<Rightarrow> dead_letters" where
  "enqueue cfg ev name etype msg now d =
    (let i = last_id d + 1 in
     d\<lparr>letters := letters d @ [\<lparr>letter_id = i, letter_topic = topic ev, payload_json = dumps (event_payload ev),
         letter_source = event_source ev, event_ts_ms = timestamp_ms ev, handler_name = name,
         error_type = etype, error_text = msg, attempts = 0,
         next_retry_at = compute_next_retry_at now 1 (base_backoff_s cfg),
         letter_status = Waiting, enqueued_at = now, letter_updated = now\<rparr>],
       last_id := i\<rparr>)"

definition select_by_status :: "letter_status \<Rightarrow> dead_letters \<Rightarrow> letter list" where
  "select_by_status s d = sort_key letter_id (filter (\<lambda>r. letter_status r = s) (letters d))"

definition list_pending :: "dead_letters \<Rightarrow> letter list" where
  "list_pending d = select_by_status Waiting d"

definition list_dead :: "dead_letters \<Rightarrow> letter list" where
  "list_dead d = select_by_status Dead d"

definition recover_stale_rows :: "int \<Rightarrow> dead_letters \<Rightarrow> dead_letters" where
  "recover_stale_rows now =
    update_letters (\<lambda>r. letter_status r = In_Progress \<and> letter_updated r + 60000 < now)
      (\<lambda>r. r\<lparr>letter_status := Waiting, letter_updated := now\<rparr>)"

definition fetch_due_batch :: "(nat \<Rightarrow> int) \<Rightarrow> int \<Rightarrow> int \<Rightarrow> dead_letters \<Rightarrow> letter list" where
  "fetch_due_batch tie limit now d =
    (let due = sort_key next_retry_at (sort_key (\<lambda>r. tie (letter_id r))
       (filter (\<lambda>r. letter_status r = Waiting \<and> next_retry_at r \<le> now) (letters d)))
     in if limit < 0 then due else take (nat limit) due)"

section \<open>Processing a row\<close>

definition claim :: "nat \<Rightarrow> int \<Rightarrow> dead_letters \<Rightarrow> dead_letters \<times> nat" where
  "claim i now d =
    (let P = (\<lambda>r. letter_id r = i \<and> letter_status r = Waiting) in
     (update_letters P (\<lambda>r. r\<lparr>letter_status := In_Progress, letter_updated := now\<rparr>) d,
      length (filter P (letters d))))"

definition mark_dead :: "letter \<Rightarrow> string \<Rightarrow> nat option \<Rightarrow> int \<Rightarrow> dead_letters \<Rightarrow> dead_letters" where
  "mark_dead row reason n now =
    (let final_attempts = (case n of Some k \<Rightarrow> k | None \<Rightarrow> attempts row) in
     update_letters (\<lambda>r. letter_id r = letter_id row)
       (\<lambda>r. r\<lparr>letter_status := Dead, error_text := reason, letter_updated := now, attempts := final_attempts\<rparr>))"

definition reschedule :: "nat \<Rightarrow> int \<Rightarrow> int \<Rightarrow> dead_letters \<Rightarrow> dead_letters" where
  "reschedule i next now =
    update_letters (\<lambda>r. letter_id r = i)
      (\<lambda>r. r\<lparr>letter_status := Waiting, next_retry_at := next, letter_updated := now\<rparr>)"

definition delete_letter :: "nat \<Rightarrow> dead_letters \<Rightarrow> dead_letters" where
  "delete_letter i d = d\<lparr>letters := filter (\<lambda>r. letter_id r \<noteq> i) (letters d)\<rparr>"

text \<open>
  How a claimed row ends: no handler of that name, the handler returns, it raises an \<open>Exception\<close>, or
  the worker is cancelled in it, which no clause of \<open>_process_row\<close> catches.
\<close>

datatype ending = Not_Registered | Returned | Raised string string | Cancelled

definition finish_row :: "dlq_config \<Rightarrow> letter \<Rightarrow> ending \<Rightarrow> int \<Rightarrow> dead_letters \<Rightarrow> dead_letters" where
  "finish_row cfg row e now d =
    (case e of
       Not_Registered \<Rightarrow> reschedule (letter_id row) (now + 60000) now d
     | Returned \<Rightarrow> delete_letter (letter_id row) d
     | Raised etype msg \<Rightarrow>
         let new_attempts = attempts row + 1 in
         if int new_attempts \<ge> max_attempts cfg then mark_dead row msg (Some new_attempts) now d
         else update_letters (\<lambda>r. letter_id r = letter_id row)
           (\<lambda>r. r\<lparr>letter_status := Waiting, attempts := new_attempts,
              next_retry_at := compute_next_retry_at now new_attempts (base_backoff_s cfg),
              error_type := etype, error_text := msg, letter_updated := now\<rparr>) d
     | Cancelled \<Rightarrow> d)"

definition event_of :: "(string \<Rightarrow> json) \<Rightarrow> letter \<Rightarrow> event" where
  "event_of loads row = \<lparr>topic = letter_topic row, event_payload = loads (payload_json row),
     timestamp_ms = event_ts_ms row, event_source = letter_source row\<rparr>"

text \<open>A handler changes the world and the table and ends in one of these ways.\<close>

type_synonym 'w handler = "event \<Rightarrow> 'w \<times> dead_letters \<Rightarrow> ('w \<times> dead_letters) \<times> ending"

definition process_row ::
  "dlq_config \<Rightarrow> (string \<Rightarrow> json) \<Rightarrow> (string \<Rightarrow> 'w handler option) \<Rightarrow> letter \<Rightarrow> int \<Rightarrow> int \<Rightarrow>
   'w \<times> dead_letters \<Rightarrow> ('w \<times> dead_letters) \<times> ending option" where
  "process_row cfg loads resolver row now now2 s =
    (let (d, n) = claim (letter_id row) now (snd s) in
     if n = 0 then ((fst s, d), None)
     else case resolver (handler_name row) of
       None \<Rightarrow> ((fst s, finish_row cfg row Not_Registered now2 d), Some Not_Registered)
     | Some handler \<Rightarrow>
        (let ((w, d'), e) = handler (event_of loads row) (fst s, d)
         in ((w, finish_row cfg row e now2 d'), Some e)))"

text \<open>One batch of \<open>_retry_loop\<close>; a cancellation ends it.  Each row brings its two clock readings.\<close>

fun process_batch ::
  "dlq_config \<Rightarrow> (string \<Rightarrow> json) \<Rightarrow> (string \<Rightarrow> 'w handler option) \<Rightarrow> letter list \<Rightarrow> (int \<times> int) list \<Rightarrow>
   'w \<times> dead_letters \<Rightarrow> 'w \<times> dead_letters" where
  "process_batch cfg loads resolver (row # rows) ((t1, t2) # ts) s =
    (case process_row cfg loads resolver row t1 t2 s of
       (s', Some Cancelled) \<Rightarrow> s'
     | (s', _) \<Rightarrow> process_batch cfg loads resolver rows ts s')"
| "process_batch cfg loads resolver _ _ s = s"

section \<open>Several workers\<close>

text \<open>
  The statements of several workers (retry loops, of one process or of several) interleave.  A worker
  holds the rows of its batch as it read them, and the row it is processing.  \<open>Recover\<close> is the start
  of a worker; \<open>Stop\<close> is its cancellation or the death of its process, at any moment.
\<close>

record worker =
  batch :: "letter list"
  current :: "letter option"

record dlq_system =
  table :: dead_letters
  workers :: "(nat, worker) dict"

datatype dlq_action =
    Enqueue event string string string int
  | Recover int
  | Fetch nat int
  | Claim nat int
  | Finish nat ending int
  | Stop nat

definition the_worker :: "dlq_system \<Rightarrow> nat \<Rightarrow> worker" where
  "the_worker s w = dget_or (workers s) w \<lparr>batch = [], current = None\<rparr>"

definition dlq_step :: "dlq_config \<Rightarrow> (nat \<Rightarrow> int) \<Rightarrow> dlq_action \<Rightarrow> dlq_system \<Rightarrow> dlq_system" where
  "dlq_step cfg tie a s =
    (case a of
       Enqueue ev name etype msg now \<Rightarrow> s\<lparr>table := enqueue cfg ev name etype msg now (table s)\<rparr>
     | Recover now \<Rightarrow> s\<lparr>table := recover_stale_rows now (table s)\<rparr>
     | Fetch w now \<Rightarrow>
         (if batch (the_worker s w) = [] \<and> current (the_worker s w) = None
          then s\<lparr>workers := dset w \<lparr>batch = fetch_due_batch tie (batch_size cfg) now (table s), current = None\<rparr> (workers s)\<rparr>
          else s)
     | Claim w now \<Rightarrow>
         (case (current (the_worker s w), batch (the_worker s w)) of
            (None, row # rows) \<Rightarrow>
              (let (d, n) = claim (letter_id row) now (table s) in
               s\<lparr>table := d, workers := dset w \<lparr>batch = rows, current = (if n = 0 then None else Some row)\<rparr> (workers s)\<rparr>)
          | _ \<Rightarrow> s)
     | Finish w e now \<Rightarrow>
         (case current (the_worker s w) of
            None \<Rightarrow> s
          | Some row \<Rightarrow>
              s\<lparr>table := finish_row cfg row e now (table s),
                workers := (if e = Cancelled then ddel w (workers s)
                            else dset w \<lparr>batch = batch (the_worker s w), current = None\<rparr> (workers s))\<rparr>)
     | Stop w \<Rightarrow> s\<lparr>workers := ddel w (workers s)\<rparr>)"

fun dlq_run :: "dlq_config \<Rightarrow> (nat \<Rightarrow> int) \<Rightarrow> dlq_action list \<Rightarrow> dlq_system \<Rightarrow> dlq_system" where
  "dlq_run cfg tie [] s = s"
| "dlq_run cfg tie (a # as) s = dlq_run cfg tie as (dlq_step cfg tie a s)"

definition empty_system :: dlq_system where
  "empty_system = \<lparr>table = empty_letters, workers = []\<rparr>"

text \<open>No recovery comes more than a minute after the claim of a row that is still being processed.\<close>

definition timely :: "dlq_action \<Rightarrow> dlq_system \<Rightarrow> bool" where
  "timely a s = (case a of
     Recover now \<Rightarrow> list_all (\<lambda>(w, x). case current x of None \<Rightarrow> True | Some row \<Rightarrow>
       (case letter (table s) (letter_id row) of None \<Rightarrow> True | Some r \<Rightarrow> now \<le> letter_updated r + 60000)) (workers s)
   | _ \<Rightarrow> True)"

fun timely_run :: "dlq_config \<Rightarrow> (nat \<Rightarrow> int) \<Rightarrow> dlq_action list \<Rightarrow> dlq_system \<Rightarrow> bool" where
  "timely_run cfg tie [] s = True"
| "timely_run cfg tie (a # as) s = (timely a s \<and> timely_run cfg tie as (dlq_step cfg tie a s))"

section \<open>What each operation does to one row\<close>

named_theorems letter_simps "the row of an identifier after an operation"

lemma letter_update [letter_simps]:
  "(\<And>r. letter_id (f r) = letter_id r) \<Longrightarrow>
   letter (update_letters P f d) i = map_option (\<lambda>r. if P r then f r else r) (letter d i)"
proof -
  assume f: "\<And>r. letter_id (f r) = letter_id r"
  have "find (\<lambda>r. letter_id r = i) (map (\<lambda>r. if P r then f r else r) rs)
      = map_option (\<lambda>r. if P r then f r else r) (find (\<lambda>r. letter_id r = i) rs)" for rs
    by (induction rs) (auto simp: f)
  then show ?thesis by (simp add: letter_def update_letters_def)
qed

lemma letter_delete [letter_simps]: "letter (delete_letter i d) j = (if i = j then None else letter d j)"
proof -
  have "find (\<lambda>r. letter_id r = j) (filter (\<lambda>r. letter_id r \<noteq> i) rs)
      = (if i = j then None else find (\<lambda>r. letter_id r = j) rs)" for rs
    by (induction rs) auto
  from this[of "letters d"] show ?thesis by (simp add: letter_def delete_letter_def)
qed

lemma letter_enqueue [letter_simps]:
  "letter (enqueue cfg ev name etype msg now d) i =
    (case letter d i of Some r \<Rightarrow> Some r | None \<Rightarrow>
      if i = last_id d + 1 then Some (last (letters (enqueue cfg ev name etype msg now d))) else None)"
proof -
  have "find P (rs @ [x]) = (case find P rs of Some r \<Rightarrow> Some r | None \<Rightarrow> if P x then Some x else None)"
    for P and rs :: "letter list" and x
    by (induction rs) auto
  then show ?thesis by (auto simp: letter_def enqueue_def Let_def split: option.split)
qed

lemma letter_id_of: "letter d i = Some r \<Longrightarrow> letter_id r = i"
  unfolding letter_def by (auto simp: find_Some_iff)

lemma letter_in: "letter d i = Some r \<Longrightarrow> r \<in> set (letters d)"
  unfolding letter_def by (auto simp: find_Some_iff)

lemma letter_None: "letter d i = None \<longleftrightarrow> i \<notin> set (letter_ids d)"
  unfolding letter_def letter_ids_def by (auto simp: find_None_iff)

definition well_formed :: "dead_letters \<Rightarrow> bool" where
  "well_formed d \<longleftrightarrow> distinct (letter_ids d) \<and> (\<forall>i \<in> set (letter_ids d). i \<le> last_id d)"

lemma letter_unique: "well_formed d \<Longrightarrow> r \<in> set (letters d) \<Longrightarrow> letter d (letter_id r) = Some r"
proof -
  assume d: "well_formed d" and r: "r \<in> set (letters d)"
  have "distinct (map letter_id rs) \<Longrightarrow> r \<in> set rs \<Longrightarrow> find (\<lambda>x. letter_id x = letter_id r) rs = Some r" for rs
    by (induction rs) (auto simp: image_iff)
  then show ?thesis using d r by (simp add: well_formed_def letter_ids_def letter_def)
qed

lemma letter_ids_update: "(\<And>r. letter_id (f r) = letter_id r) \<Longrightarrow> letter_ids (update_letters P f d) = letter_ids d"
  by (simp add: letter_ids_def update_letters_def)

lemma last_id_update [simp]: "last_id (update_letters P f d) = last_id d"
  by (simp add: update_letters_def)

lemma well_formed_update [intro]: "(\<And>r. letter_id (f r) = letter_id r) \<Longrightarrow> well_formed d \<Longrightarrow> well_formed (update_letters P f d)"
  by (simp add: well_formed_def letter_ids_update)

lemma well_formed_delete [intro]: "well_formed d \<Longrightarrow> well_formed (delete_letter i d)"
  by (auto simp: well_formed_def letter_ids_def delete_letter_def distinct_map_filter)

lemma well_formed_enqueue [intro]: "well_formed d \<Longrightarrow> well_formed (enqueue cfg ev name etype msg now d)"
  by (fastforce simp: well_formed_def letter_ids_def enqueue_def Let_def)

lemma well_formed_finish [intro]: "well_formed d \<Longrightarrow> well_formed (finish_row cfg row e now d)"
  by (auto simp: finish_row_def reschedule_def mark_dead_def Let_def split: ending.split)

lemma well_formed_claim [intro]: "well_formed d \<Longrightarrow> well_formed (fst (claim i now d))"
  by (auto simp: claim_def Let_def)

lemma well_formed_recover [intro]: "well_formed d \<Longrightarrow> well_formed (recover_stale_rows now d)"
  by (auto simp: recover_stale_rows_def)

lemma letter_finish_other [letter_simps]:
  "letter_id row \<noteq> i \<Longrightarrow> letter (finish_row cfg row e now d) i = letter d i"
  by (auto simp: finish_row_def reschedule_def mark_dead_def Let_def letter_simps
      split: ending.split intro!: option.map_ident_strong dest: letter_id_of)

lemma letter_claim:
  "letter (fst (claim i now d)) j =
    map_option (\<lambda>r. if i = j \<and> letter_status r = Waiting then r\<lparr>letter_status := In_Progress, letter_updated := now\<rparr> else r)
      (letter d j)"
  by (cases "letter d j") (auto simp: claim_def Let_def letter_simps dest: letter_id_of)

lemma claim_count: "well_formed d \<Longrightarrow>
  snd (claim i now d) \<noteq> 0 \<longleftrightarrow> (\<exists>r. letter d i = Some r \<and> letter_status r = Waiting)"
  using letter_unique[of d] letter_in[of d i] letter_id_of[of d i]
  by (auto simp: claim_def Let_def filter_empty_conv)

lemma letter_recover: "letter (recover_stale_rows now d) i =
  map_option (\<lambda>r. if letter_status r = In_Progress \<and> letter_updated r + 60000 < now
    then r\<lparr>letter_status := Waiting, letter_updated := now\<rparr> else r) (letter d i)"
  by (simp add: recover_stale_rows_def letter_simps)

lemmas letter_rules = letter_claim letter_recover letter_enqueue letter_finish_other

section \<open>No row is processed twice at once\<close>

lemma the_worker_simps [simp]:
  "the_worker (s\<lparr>table := d\<rparr>) w = the_worker s w"
  "the_worker (s\<lparr>workers := dset v x ws\<rparr>) w = (if w = v then x else the_worker (s\<lparr>workers := ws\<rparr>) w)"
  "the_worker (s\<lparr>table := d, workers := ws\<rparr>) w = the_worker (s\<lparr>workers := ws\<rparr>) w"
  "the_worker (s\<lparr>workers := ddel v ws\<rparr>) w =
     (if w = v then \<lparr>batch = [], current = None\<rparr> else the_worker (s\<lparr>workers := ws\<rparr>) w)"
  "the_worker (s\<lparr>workers := workers s\<rparr>) w = the_worker s w"
  by (simp_all add: the_worker_def dget_or_def)

definition exclusive :: "dlq_system \<Rightarrow> bool" where
  "exclusive s \<longleftrightarrow> well_formed (table s)
    \<and> (\<forall>w row. current (the_worker s w) = Some row \<longrightarrow> letter_id row \<le> last_id (table s)
        \<and> (\<forall>r. letter (table s) (letter_id row) = Some r \<longrightarrow> letter_status r = In_Progress))
    \<and> (\<forall>w w' row row'. w \<noteq> w' \<longrightarrow> current (the_worker s w) = Some row \<longrightarrow> current (the_worker s w') = Some row'
        \<longrightarrow> letter_id row \<noteq> letter_id row')"

lemma exclusiveD:
  assumes "exclusive s"
  shows "well_formed (table s)"
    and "current (the_worker s w) = Some row \<Longrightarrow> letter_id row \<le> last_id (table s)"
    and "current (the_worker s w) = Some row \<Longrightarrow> letter (table s) (letter_id row) = Some r \<Longrightarrow> letter_status r = In_Progress"
    and "w \<noteq> w' \<Longrightarrow> current (the_worker s w) = Some row \<Longrightarrow> current (the_worker s w') = Some row'
        \<Longrightarrow> letter_id row \<noteq> letter_id row'"
  using assms unfolding exclusive_def by blast+

lemma exclusive_table:
  assumes "exclusive s" and "well_formed d" and "last_id (table s) \<le> last_id d"
    and "\<And>w row r. current (the_worker s w) = Some row \<Longrightarrow> letter d (letter_id row) = Some r \<Longrightarrow> letter_status r = In_Progress"
  shows "exclusive (s\<lparr>table := d\<rparr>)"
proof -
  have "letter_id row \<le> last_id d" if "current (the_worker s w) = Some row" for w row
    using exclusiveD(2)[OF assms(1) that] assms(3) by (rule order.trans)
  then show ?thesis unfolding exclusive_def using assms(2,4) exclusiveD(4)[OF assms(1)] by auto
qed

lemma exclusive_idle:
  assumes "exclusive s" and "current x = None"
  shows "exclusive (s\<lparr>workers := dset w x (workers s)\<rparr>)" "exclusive (s\<lparr>workers := ddel w (workers s)\<rparr>)"
  using assms unfolding exclusive_def by auto

lemma timely_current:
  assumes "timely (Recover now) s" and "current (the_worker s w) = Some row" and "letter (table s) (letter_id row) = Some r"
  shows "now \<le> letter_updated r + 60000"
proof -
  obtain x where "dget (workers s) w = Some x" "current x = Some row"
    using assms(2) by (auto simp: the_worker_def dget_or_def split: option.splits)
  then have "(w, x) \<in> set (workers s)" by (blast intro: dget_in_set)
  with assms(1) \<open>current x = Some row\<close> assms(3) show ?thesis
    by (auto simp: timely_def list_all_iff split: option.splits)
qed

lemma last_id_finish [simp]: "last_id (finish_row cfg row e now d) = last_id d"
  by (simp add: finish_row_def reschedule_def mark_dead_def delete_letter_def Let_def split: ending.split)

lemma last_id_claim [simp]: "last_id (fst (claim i now d)) = last_id d"
  by (simp add: claim_def Let_def)

lemma last_id_enqueue [simp]: "last_id (enqueue cfg ev name etype msg now d) = last_id d + 1"
  by (simp add: enqueue_def Let_def)

lemma last_id_recover [simp]: "last_id (recover_stale_rows now d) = last_id d"
  by (simp add: recover_stale_rows_def)

lemma exclusive_claim:
  assumes ex: "exclusive s" and cur: "current (the_worker s w) = None" and b: "batch (the_worker s w) = row # rows"
    and c: "claim (letter_id row) now (table s) = (d, n)"
  shows "exclusive (s\<lparr>table := d, workers := dset w \<lparr>batch = rows, current = (if n = 0 then None else Some row)\<rparr> (workers s)\<rparr>)"
proof -
  note D = exclusiveD[OF ex]
  have d: "d = fst (claim (letter_id row) now (table s))" and n: "n = snd (claim (letter_id row) now (table s))"
    using c by simp_all
  have wf: "well_formed d" unfolding d using D(1) by blast
  have prog: "letter_status r = In_Progress" if "current (the_worker s v) = Some row'" "letter d (letter_id row') = Some r" for v row' r
    using that(2) D(3)[OF that(1)] unfolding d letter_claim by (auto split: if_splits)
  have mine: "letter (table s) (letter_id row) = Some r \<Longrightarrow> letter_status r = Waiting"
    "letter_id row \<le> last_id (table s)" if "n \<noteq> 0" for r
    using that letter_None[of "table s" "letter_id row"] D(1) unfolding n claim_count[OF D(1)]
    by (auto simp: well_formed_def)
  have found: "\<exists>r. letter (table s) (letter_id row) = Some r" if "n \<noteq> 0"
    using that unfolding n claim_count[OF D(1)] by blast
  have other: "letter_id row' \<noteq> letter_id row" if "n \<noteq> 0" "current (the_worker s v) = Some row'" for v row'
    using found[OF that(1)] mine(1)[OF that(1)] D(3)[OF that(2)] by (metis letter_status.distinct(1))
  have prog': "letter_status r = In_Progress" if n0: "n \<noteq> 0" and r: "letter d (letter_id row) = Some r" for r
  proof -
    obtain r0 where "letter (table s) (letter_id row) = Some r0" using found[OF n0] by blast
    with r mine(1)[OF n0, of r0] show ?thesis unfolding d letter_claim by auto
  qed
  have l: "last_id d = last_id (table s)" unfolding d by simp
  show ?thesis
    unfolding exclusive_def
  proof (intro conjI allI impI)
    fix v v' row1 row2
    assume "v \<noteq> v'"
      "current (the_worker (s\<lparr>table := d, workers := dset w \<lparr>batch = rows, current = (if n = 0 then None else Some row)\<rparr> (workers s)\<rparr>) v) = Some row1"
      "current (the_worker (s\<lparr>table := d, workers := dset w \<lparr>batch = rows, current = (if n = 0 then None else Some row)\<rparr> (workers s)\<rparr>) v') = Some row2"
    then show "letter_id row1 \<noteq> letter_id row2"
      using other D(4)[of v v' row1 row2] by (auto split: if_splits dest: not_sym)
  qed (use wf prog mine(2) D(2) prog' l in \<open>auto split: if_splits\<close>)
qed

lemma table_workers: "s\<lparr>workers := ws, table := d\<rparr> = s\<lparr>table := d, workers := ws\<rparr>"
  by (cases s) simp

lemma exclusive_finish:
  assumes ex: "exclusive s" and cur: "current (the_worker s w) = Some row" and x: "current x = None"
  shows "exclusive (s\<lparr>table := finish_row cfg row e now (table s), workers := dset w x (workers s)\<rparr>)"
    and "exclusive (s\<lparr>table := finish_row cfg row e now (table s), workers := ddel w (workers s)\<rparr>)"
proof -
  note D = exclusiveD[OF ex]
  have other: "letter_id row \<noteq> letter_id row'" if "v \<noteq> w" "current (the_worker s v) = Some row'" for v row'
    using D(4)[OF that cur] by simp
  have prog: "letter_status r = In_Progress"
    if "v \<noteq> w" "current (the_worker s v) = Some row'" "letter (finish_row cfg row e now (table s)) (letter_id row') = Some r"
    for v row' r
    using that(3) D(3)[OF that(2)] unfolding letter_finish_other[OF other[OF that(1,2)]] by blast
  have wf: "well_formed (finish_row cfg row e now (table s))" using D(1) by blast
  have "exclusive ((s\<lparr>workers := dset w x (workers s)\<rparr>)\<lparr>table := finish_row cfg row e now (table s)\<rparr>)"
  proof (rule exclusive_table[OF exclusive_idle(1)[OF ex x] wf])
    fix v row' r
    assume v: "current (the_worker (s\<lparr>workers := dset w x (workers s)\<rparr>) v) = Some row'"
      and r: "letter (finish_row cfg row e now (table s)) (letter_id row') = Some r"
    have "v \<noteq> w" using v x by auto
    with v have "current (the_worker s v) = Some row'" by simp
    then show "letter_status r = In_Progress" using \<open>v \<noteq> w\<close> r by (blast intro: prog)
  qed simp
  then show "exclusive (s\<lparr>table := finish_row cfg row e now (table s), workers := dset w x (workers s)\<rparr>)"
    by (simp only: table_workers)
  have "exclusive ((s\<lparr>workers := ddel w (workers s)\<rparr>)\<lparr>table := finish_row cfg row e now (table s)\<rparr>)"
  proof (rule exclusive_table[OF exclusive_idle(2)[OF ex x] wf])
    fix v row' r
    assume v: "current (the_worker (s\<lparr>workers := ddel w (workers s)\<rparr>) v) = Some row'"
      and r: "letter (finish_row cfg row e now (table s)) (letter_id row') = Some r"
    have "v \<noteq> w" using v by auto
    with v have "current (the_worker s v) = Some row'" by simp
    then show "letter_status r = In_Progress" using \<open>v \<noteq> w\<close> r by (blast intro: prog)
  qed simp
  then show "exclusive (s\<lparr>table := finish_row cfg row e now (table s), workers := ddel w (workers s)\<rparr>)"
    by (simp only: table_workers)
qed

lemma exclusive_step:
  assumes ex: "exclusive s" and t: "timely a s"
  shows "exclusive (dlq_step cfg tie a s)"
proof (cases a)
  case (Enqueue ev name etype msg now)
  have "exclusive (s\<lparr>table := enqueue cfg ev name etype msg now (table s)\<rparr>)"
  proof (rule exclusive_table[OF ex])
    show "well_formed (enqueue cfg ev name etype msg now (table s))" using exclusiveD(1)[OF ex] by blast
    show "last_id (table s) \<le> last_id (enqueue cfg ev name etype msg now (table s))" by (simp add: enqueue_def Let_def)
    fix w row r
    assume c: "current (the_worker s w) = Some row" and "letter (enqueue cfg ev name etype msg now (table s)) (letter_id row) = Some r"
    then show "letter_status r = In_Progress"
      using exclusiveD(2)[OF ex c] exclusiveD(3)[OF ex c] by (auto simp: letter_enqueue split: option.splits if_splits)
  qed
  then show ?thesis using Enqueue by (simp add: dlq_step_def)
next
  case (Recover now)
  have "exclusive (s\<lparr>table := recover_stale_rows now (table s)\<rparr>)"
  proof (rule exclusive_table[OF ex])
    show "well_formed (recover_stale_rows now (table s))" using exclusiveD(1)[OF ex] by blast
    show "last_id (table s) \<le> last_id (recover_stale_rows now (table s))" by (simp add: recover_stale_rows_def)
    fix w row r
    assume c: "current (the_worker s w) = Some row" and "letter (recover_stale_rows now (table s)) (letter_id row) = Some r"
    then show "letter_status r = In_Progress"
      using timely_current[OF t[unfolded Recover] c] exclusiveD(3)[OF ex c] by (auto simp: letter_recover split: if_splits)
  qed
  then show ?thesis using Recover by (simp add: dlq_step_def)
next
  case (Fetch w now)
  then show ?thesis using ex by (simp add: dlq_step_def exclusive_idle)
next
  case (Claim w now)
  obtain d n where c: "claim (letter_id (hd (batch (the_worker s w)))) now (table s) = (d, n)" by fastforce
  then show ?thesis
    using exclusive_claim[OF ex, of w "hd (batch (the_worker s w))" "tl (batch (the_worker s w))" now d n] ex
    by (auto simp: Claim dlq_step_def split: option.splits list.splits)
next
  case (Finish w e now)
  then show ?thesis using ex exclusive_finish[OF ex, of w _ "\<lparr>batch = batch (the_worker s w), current = None\<rparr>" cfg e now]
    by (auto simp: dlq_step_def split: option.split)
next
  case (Stop w)
  then show ?thesis using ex exclusive_idle(2)[OF ex, of "\<lparr>batch = [], current = None\<rparr>"] by (simp add: dlq_step_def)
qed

lemma exclusive_run: "exclusive s \<Longrightarrow> timely_run cfg tie acts s \<Longrightarrow> exclusive (dlq_run cfg tie acts s)"
  by (induction acts arbitrary: s) (auto intro: exclusive_step)

lemma exclusive_empty [simp]: "exclusive empty_system"
  by (simp add: exclusive_def empty_system_def empty_letters_def well_formed_def letter_ids_def the_worker_def dget_or_def)

text \<open>
  C23: no row is processed by two workers at once: whatever the interleaving of enqueues, fetches,
  claims, endings, crashes and starts of workers, as long as no worker starts more than a minute after
  the claim of a row still in process, two workers never hold the same row.
\<close>

theorem row_processed_once:
  assumes "timely_run cfg tie acts empty_system" and "w \<noteq> w'"
    and "current (the_worker (dlq_run cfg tie acts empty_system) w) = Some row"
    and "current (the_worker (dlq_run cfg tie acts empty_system) w') = Some row'"
  shows "letter_id row \<noteq> letter_id row'"
  by (rule exclusiveD(4)[OF exclusive_run[OF exclusive_empty assms(1)] assms(2-4)])

definition demo_event :: event where
  "demo_event = \<lparr>topic = ''t'', event_payload = JDict [], timestamp_ms = 0, event_source = ''s''\<rparr>"

definition demo_actions :: "dlq_action list" where
  "demo_actions = [Enqueue demo_event ''h'' ''E'' ''e'' 0, Enqueue demo_event ''h'' ''E'' ''e'' 1,
     Fetch 1 5000, Fetch 2 5000, Claim 1 5000, Claim 2 5001, Recover 9000, Claim 2 9001]"

text \<open>Both workers read both rows; the second one loses the first row and gets the second.\<close>

lemma demo_run:
  "map (\<lambda>w. map_option letter_id (current (the_worker (dlq_run default_dlq int demo_actions empty_system) w))) [1, 2]
    = [Some 1, Some 2]"
  by code_simp

theorem row_processed_once_witness:
  "\<exists>row row'. current (the_worker (dlq_run default_dlq int demo_actions empty_system) 1) = Some row
    \<and> current (the_worker (dlq_run default_dlq int demo_actions empty_system) 2) = Some row' \<and> letter_id row \<noteq> letter_id row'"
proof -
  have "timely_run default_dlq int demo_actions empty_system" by code_simp
  from row_processed_once[OF this, of 1 2] show ?thesis using demo_run by auto
qed

section \<open>No row is lost\<close>

text \<open>A row can only leave the table when its handler has returned.\<close>

lemma claim_keeps: "letter (table (dlq_step cfg tie (Claim w now) s)) i = None \<longleftrightarrow> letter (table s) i = None"
proof -
  have "letter (fst (claim j now d)) i = None \<longleftrightarrow> letter d i = None" for j d
    by (simp add: letter_claim)
  then show ?thesis by (simp add: dlq_step_def Let_def case_prod_unfold split: option.split list.split)
qed

lemma letter_kept:
  assumes "letter (table s) i \<noteq> None" and "letter (table (dlq_step cfg tie a s)) i = None"
  shows "\<exists>w now row. a = Finish w Returned now \<and> current (the_worker s w) = Some row \<and> letter_id row = i"
proof -
  have fin: "e = Returned \<and> letter_id row = i" if "letter (finish_row cfg row e now (table s)) i = None" for row e now
    using that assms(1) by (cases "letter_id row = i")
      (auto simp: finish_row_def reschedule_def mark_dead_def Let_def letter_simps split: ending.splits if_splits)
  show ?thesis
  proof (cases a)
    case (Claim w now)
    then show ?thesis using assms claim_keeps by simp
  next
    case (Finish w e now)
    then show ?thesis using assms fin by (auto simp: dlq_step_def split: option.splits)
  qed (use assms in \<open>auto simp: dlq_step_def letter_enqueue letter_recover split: option.splits if_splits\<close>)
qed

text \<open>
  An enqueued event is never lost: whenever its row has left the table, some worker was processing
  that row and its handler returned; crashes, cancellations, failures and restarts never remove it.
\<close>

theorem letter_leaves_only_delivered:
  assumes "letter (table s) i \<noteq> None" and "letter (table (dlq_run cfg tie acts s)) i = None"
  shows "\<exists>before w now after row. acts = before @ Finish w Returned now # after
    \<and> current (the_worker (dlq_run cfg tie before s) w) = Some row \<and> letter_id row = i"
  using assms
proof (induction acts arbitrary: s)
  case (Cons a as)
  show ?case
  proof (cases "letter (table (dlq_step cfg tie a s)) i = None")
    case True
    from letter_kept[OF Cons.prems(1) True] show ?thesis by (metis append_Nil dlq_run.simps(1))
  next
    case False
    have "letter (table (dlq_run cfg tie as (dlq_step cfg tie a s))) i = None" using Cons.prems(2) by simp
    from Cons.IH[OF False this] obtain before w now after row where
      "as = before @ Finish w Returned now # after"
      "current (the_worker (dlq_run cfg tie before (dlq_step cfg tie a s)) w) = Some row" "letter_id row = i" by blast
    then have "a # as = (a # before) @ Finish w Returned now # after"
      "current (the_worker (dlq_run cfg tie (a # before) s) w) = Some row" "letter_id row = i" by simp_all
    then show ?thesis by blast
  qed
qed simp

theorem letter_leaves_only_delivered_witness:
  "letter (table (dlq_run default_dlq int (demo_actions @ [Finish 1 Returned 9002]) empty_system)) 1 = None
   \<and> (\<exists>before w now after row. drop 1 (demo_actions @ [Finish 1 Returned 9002]) = before @ Finish w Returned now # after
      \<and> current (the_worker (dlq_run default_dlq int before
            (dlq_step default_dlq int (demo_actions ! 0) empty_system)) w) = Some row \<and> letter_id row = 1)"
proof -
  let ?s = "dlq_step default_dlq int (demo_actions ! 0) empty_system"
  have "letter (table ?s) 1 \<noteq> None" by code_simp
  moreover have g: "letter (table (dlq_run default_dlq int (demo_actions @ [Finish 1 Returned 9002]) empty_system)) 1 = None"
    by code_simp
  then have "letter (table (dlq_run default_dlq int (drop 1 (demo_actions @ [Finish 1 Returned 9002])) ?s)) 1 = None"
    by (simp add: demo_actions_def)
  ultimately show ?thesis using letter_leaves_only_delivered g by blast
qed

section \<open>Rows whose worker died\<close>

definition early :: "letter \<Rightarrow> dlq_action \<Rightarrow> bool" where
  "early r a = (case a of Recover now \<Rightarrow> now \<le> letter_updated r + 60000 | _ \<Rightarrow> True)"

definition orphan :: "dlq_system \<Rightarrow> letter \<Rightarrow> bool" where
  "orphan s r \<longleftrightarrow> letter (table s) (letter_id r) = Some r \<and> letter_status r = In_Progress
    \<and> letter_id r \<le> last_id (table s)
    \<and> (\<forall>w row. current (the_worker s w) = Some row \<longrightarrow> letter_id row \<noteq> letter_id r) \<and> well_formed (table s)"

lemma orphan_step:
  assumes o: "orphan s r" and e: "early r a"
  shows "orphan (dlq_step cfg tie a s) r"
proof -
  have l: "letter (table s) (letter_id r) = Some r" and p: "letter_status r = In_Progress" and i: "letter_id r \<le> last_id (table s)"
    and c: "current (the_worker s w) = Some row \<Longrightarrow> letter_id row \<noteq> letter_id r" and wf: "well_formed (table s)" for w row
    using o by (auto simp: orphan_def)
  show ?thesis
  proof (cases a)
    case (Claim w now)
    show ?thesis
    proof (cases "current (the_worker s w) = None \<and> batch (the_worker s w) \<noteq> []")
      case True
      then obtain row rows where b: "batch (the_worker s w) = row # rows" by (cases "batch (the_worker s w)") auto
      obtain d n where cl: "claim (letter_id row) now (table s) = (d, n)" by fastforce
      then have d: "d = fst (claim (letter_id row) now (table s))" and n: "n = snd (claim (letter_id row) now (table s))" by simp_all
      have "n = 0" if "letter_id row = letter_id r" using claim_count[OF wf, of "letter_id row" now] l p that unfolding n by auto
      moreover have "letter d (letter_id r) = Some r" unfolding d letter_claim using l p by simp
      moreover have "well_formed d" "last_id d = last_id (table s)" using wf unfolding d by auto
      ultimately show ?thesis
        using p i c True b cl unfolding orphan_def by (auto simp: Claim dlq_step_def split: if_splits)
    next
      case False
      then have "dlq_step cfg tie a s = s" by (auto simp: Claim dlq_step_def split: option.split list.split)
      then show ?thesis using o by simp
    qed
  next
    case (Finish w x now)
    show ?thesis
    proof (cases "current (the_worker s w)")
      case None
      then show ?thesis using o by (simp add: Finish dlq_step_def)
    next
      case (Some row)
      have "letter (finish_row cfg row x now (table s)) (letter_id r) = Some r"
        using letter_finish_other[OF c[OF Some]] l by simp
      moreover have "well_formed (finish_row cfg row x now (table s))" using wf by blast
      ultimately show ?thesis using Some p i c unfolding orphan_def by (auto simp: Finish dlq_step_def)
    qed
  qed (use l p i c wf e in \<open>auto simp: orphan_def dlq_step_def letter_enqueue letter_recover early_def\<close>)
qed

text \<open>
  A row whose worker died while processing it is retried only after a worker starts more than a
  minute later: whatever the workers do, and if every restart comes within the minute, the row stays
  \<open>in_progress\<close> unchanged, because the recovery runs once per start and not in the polling loop.
\<close>

theorem quick_restart_strands_row:
  assumes "well_formed (table s)" and "letter (table s) (letter_id r) = Some r" and "letter_status r = In_Progress"
    and "\<And>w row. current (the_worker s w) = Some row \<Longrightarrow> letter_id row \<noteq> letter_id r"
    and "list_all (early r) acts"
  shows "letter (table (dlq_run cfg tie acts s)) (letter_id r) = Some r"
proof -
  have "letter_id r \<le> last_id (table s)"
    using assms(1,2) letter_None[of "table s" "letter_id r"] by (auto simp: well_formed_def)
  then have "orphan s r" using assms(1-4) by (simp add: orphan_def)
  then have "orphan (dlq_run cfg tie acts s) r" using assms(5)
    by (induction acts arbitrary: s) (auto intro: orphan_step)
  then show ?thesis by (simp add: orphan_def)
qed

definition crashed :: dlq_system where
  "crashed = dlq_run default_dlq int [Enqueue demo_event ''h'' ''E'' ''e'' 0, Fetch 1 5000, Claim 1 5000, Stop 1] empty_system"

lemma crashed_eq: "crashed = \<lparr>table = \<lparr>letters = [\<lparr>letter_id = 1, letter_topic = ''t'', payload_json = ''{}'',
    letter_source = ''s'', event_ts_ms = 0, handler_name = ''h'', error_type = ''E'', error_text = ''e'', attempts = 0,
    next_retry_at = 2000, letter_status = In_Progress, enqueued_at = 0, letter_updated = 5000\<rparr>], last_id = 1\<rparr>,
  workers = []\<rparr>"
  by code_simp

theorem quick_restart_strands_row_witness:
  "map_option letter_status (letter (table (dlq_run default_dlq int
      [Recover 20000, Fetch 2 20000, Claim 2 20000, Stop 2, Recover 65000, Fetch 3 9000000, Claim 3 9000000] crashed)) 1) = Some In_Progress"
proof -
  let ?r = "hd (letters (table crashed))"
  have i: "letter_id ?r = 1" "letter_status ?r = In_Progress" "letter_updated ?r = 5000" by (simp_all add: crashed_eq)
  have "letter (table (dlq_run default_dlq int [Recover 20000, Fetch 2 20000, Claim 2 20000, Stop 2, Recover 65000,
      Fetch 3 9000000, Claim 3 9000000] crashed)) (letter_id ?r) = Some ?r"
  proof (rule quick_restart_strands_row)
    show "well_formed (table crashed)" "letter (table crashed) (letter_id ?r) = Some ?r"
      by (simp_all add: crashed_eq well_formed_def letter_ids_def letter_def)
    show "current (the_worker crashed w) = Some row \<Longrightarrow> letter_id row \<noteq> letter_id ?r" for w row
      by (simp add: crashed_eq the_worker_def dget_or_def)
  qed (simp_all add: i early_def)
  then show ?thesis using i by simp
qed

section \<open>The retries of one row\<close>

text \<open>
  One row processed again and again, each time as the table has it; the result also counts the calls of
  its handler.
\<close>

fun retry_rounds ::
  "dlq_config \<Rightarrow> (string \<Rightarrow> json) \<Rightarrow> (string \<Rightarrow> 'w handler option) \<Rightarrow> nat \<Rightarrow> (int \<times> int) list \<Rightarrow>
   'w \<times> dead_letters \<Rightarrow> ('w \<times> dead_letters) \<times> nat" where
  "retry_rounds cfg loads resolver i [] s = (s, 0)"
| "retry_rounds cfg loads resolver i ((t1, t2) # ts) s =
    (case letter (snd s) i of
       None \<Rightarrow> (s, 0)
     | Some row \<Rightarrow>
        (let (s1, e) = process_row cfg loads resolver row t1 t2 s;
             (s2, n) = retry_rounds cfg loads resolver i ts s1
         in (s2, n + (case e of Some (Raised x m) \<Rightarrow> 1 | Some Returned \<Rightarrow> 1 | Some Cancelled \<Rightarrow> 1 | _ \<Rightarrow> 0))))"

definition always_fails :: "'w handler \<Rightarrow> nat \<Rightarrow> bool" where
  "always_fails h i \<longleftrightarrow> (\<forall>ev w d. (\<exists>x m. snd (h ev (w, d)) = Raised x m)
     \<and> letter (snd (fst (h ev (w, d)))) i = letter d i \<and> (well_formed d \<longrightarrow> well_formed (snd (fst (h ev (w, d))))))"

lemma failing_round:
  assumes wf: "well_formed d" and r: "letter d i = Some r" and wait: "letter_status r = Waiting"
    and h: "resolver (handler_name r) = Some h" "always_fails h i"
  obtains w' d' x m r' where "process_row cfg loads resolver r t1 t2 (w, d) = ((w', d'), Some (Raised x m))"
    and "well_formed d'" and "letter d' i = Some r'" and "handler_name r' = handler_name r" and "attempts r' = Suc (attempts r)"
    and "if int (Suc (attempts r)) \<ge> max_attempts cfg then letter_status r' = Dead
         else letter_status r' = Waiting \<and> next_retry_at r' = t2 + base_backoff_s cfg ^ Suc (attempts r) * 1000"
proof -
  have i: "letter_id r = i" using letter_id_of[OF r] .
  obtain d1 n where c: "claim i t1 d = (d1, n)" by fastforce
  then have d1: "d1 = fst (claim i t1 d)" and n: "n = snd (claim i t1 d)" by simp_all
  have n0: "n \<noteq> 0" unfolding n claim_count[OF wf] using r wait by blast
  have r1: "letter d1 i = Some (r\<lparr>letter_status := In_Progress, letter_updated := t1\<rparr>)" and wf1: "well_formed d1"
    unfolding d1 using letter_claim[of i t1 d i] r wait wf by auto
  obtain w' d2 e where he: "h (event_of loads r) (w, d1) = ((w', d2), e)" by (metis surj_pair)
  then obtain x m where e: "e = Raised x m" and r2: "letter d2 i = letter d1 i" and wf2: "well_formed d2"
    using h(2) wf1 unfolding always_fails_def by (metis fst_conv snd_conv)
  define d' where "d' = finish_row cfg r e t2 d2"
  have p: "process_row cfg loads resolver r t1 t2 (w, d) = ((w', d'), Some (Raised x m))"
    using c n0 he e by (simp add: process_row_def i h(1) d'_def)
  have "\<exists>r'. letter d' i = Some r' \<and> handler_name r' = handler_name r \<and> attempts r' = Suc (attempts r)
    \<and> (if int (Suc (attempts r)) \<ge> max_attempts cfg then letter_status r' = Dead
       else letter_status r' = Waiting \<and> next_retry_at r' = t2 + base_backoff_s cfg ^ Suc (attempts r) * 1000)"
    unfolding d'_def e using r1 r2
    by (auto simp: finish_row_def mark_dead_def Let_def letter_simps i compute_next_retry_at_def)
  moreover have "well_formed d'" unfolding d'_def using wf2 by blast
  ultimately show ?thesis using that[OF p] by blast
qed

text \<open>
  The polls of a worker as one row sees them: a poll fetches its batch, and processes the row when it is in it.
  The result gives also the clock readings of the calls of the row's handler, before and after each.
\<close>

fun retry_polls ::
  "dlq_config \<Rightarrow> (nat \<Rightarrow> int) \<Rightarrow> (string \<Rightarrow> json) \<Rightarrow> (string \<Rightarrow> 'w handler option) \<Rightarrow> nat \<Rightarrow> (int \<times> int) list \<Rightarrow>
   'w \<times> dead_letters \<Rightarrow> ('w \<times> dead_letters) \<times> (int \<times> int) list" where
  "retry_polls cfg tie loads resolver i [] s = (s, [])"
| "retry_polls cfg tie loads resolver i ((t1, t2) # ts) s =
    (case find (\<lambda>r. letter_id r = i) (fetch_due_batch tie (batch_size cfg) t1 (snd s)) of
       None \<Rightarrow> retry_polls cfg tie loads resolver i ts s
     | Some row \<Rightarrow>
        (let (s1, e) = process_row cfg loads resolver row t1 t2 s;
             (s2, cs) = retry_polls cfg tie loads resolver i ts s1
         in (s2, (case e of Some Not_Registered \<Rightarrow> cs | None \<Rightarrow> cs | Some _ \<Rightarrow> (t1, t2) # cs))))"

lemma fetch_due:
  assumes "r \<in> set (fetch_due_batch tie limit now d)"
  shows "r \<in> set (letters d)" "letter_status r = Waiting" "next_retry_at r \<le> now"
  using assms by (auto simp: fetch_due_batch_def Let_def split: if_splits dest: in_set_takeD)

lemma fetch_fits:
  assumes "r \<in> set (letters d)" "letter_status r = Waiting" "next_retry_at r \<le> now"
    and "int (length (filter (\<lambda>r. letter_status r = Waiting \<and> next_retry_at r \<le> now) (letters d))) \<le> limit"
  shows "r \<in> set (fetch_due_batch tie limit now d)"
proof -
  have "length (filter (\<lambda>r. letter_status r = Waiting \<and> next_retry_at r \<le> now) (letters d)) \<le> nat limit" using assms(4) by linarith
  then show ?thesis using assms(1-3) by (simp add: fetch_due_batch_def Let_def)
qed

lemma found_row:
  assumes "well_formed d" "find (\<lambda>r. letter_id r = i) (fetch_due_batch tie limit now d) = Some row"
  shows "letter d i = Some row \<and> letter_status row = Waiting \<and> next_retry_at row \<le> now"
proof -
  have "row \<in> set (fetch_due_batch tie limit now d)" "letter_id row = i"
    using assms(2) by (auto simp: find_Some_iff)
  then show ?thesis using fetch_due letter_unique[OF assms(1)] by metis
qed

lemma dead_stays:
  "well_formed d \<Longrightarrow> letter d i = Some r \<Longrightarrow> letter_status r = Dead \<Longrightarrow>
   retry_polls cfg tie loads resolver i ts (w, d) = ((w, d), [])"
proof (induction ts)
  case (Cons t ts)
  have "find (\<lambda>r. letter_id r = i) (fetch_due_batch tie (batch_size cfg) (fst t) d) = None"
    using found_row[OF Cons.prems(1), of i tie "batch_size cfg" "fst t"] Cons.prems(2,3)
    by (cases "find (\<lambda>r. letter_id r = i) (fetch_due_batch tie (batch_size cfg) (fst t) d)") auto
  then show ?case using Cons by (cases t) simp
qed simp

lemma power_at_least: "1 \<le> (b::int) \<Longrightarrow> b \<le> b ^ Suc k"
  by (simp add: self_le_power)


lemma always_fails_plain [intro]: "always_fails (\<lambda>ev s. (s, Raised x m)) i"
  by (simp add: always_fails_def)

definition one_letter :: dead_letters where
  "one_letter = enqueue default_dlq demo_event ''h'' ''E'' ''e'' 0 empty_letters"

lemma one_letter:
  "well_formed one_letter" "letter one_letter 1 = Some (hd (letters one_letter))"
  "letter_status (hd (letters one_letter)) = Waiting" "attempts (hd (letters one_letter)) = 0"
  "handler_name (hd (letters one_letter)) = ''h''" "next_retry_at (hd (letters one_letter)) = 2000"
  by (simp_all add: one_letter_def enqueue_def empty_letters_def well_formed_def letter_ids_def letter_def
      compute_next_retry_at_def default_dlq_def)

text \<open>With the defaults: polls every two seconds for a minute.\<close>

definition demo_polls :: "(int \<times> int) list" where
  "demo_polls = map (\<lambda>k. (2000 * int k, 2000 * int k)) [0..<40]"

definition demo_failing :: "string \<Rightarrow> unit handler option" where
  "demo_failing x = Some (\<lambda>ev s. (s, Raised ''E'' ''again''))"

lemma demo_polls_calls: "length (snd (retry_polls default_dlq int (\<lambda>_. JNull) demo_failing 1 demo_polls ((), one_letter))) = 5"
  by code_simp


text \<open>
  A row whose handler is not registered never dies: each round puts it off by a minute and counts
  nothing.
\<close>

lemma unregistered_row_never_dies:
  assumes "well_formed d" and "letter d i = Some r" and "letter_status r = Waiting" and "resolver (handler_name r) = None"
    and "retry_rounds cfg loads resolver i ts (w, d) = ((w', d'), calls)"
  shows "calls = 0 \<and> (\<exists>r'. letter d' i = Some r' \<and> letter_status r' = Waiting \<and> attempts r' = attempts r
    \<and> (ts \<noteq> [] \<longrightarrow> next_retry_at r' = snd (last ts) + 60000))"
  using assms
proof (induction ts arbitrary: w d r)
  case (Cons t ts)
  obtain t1 t2 where t: "t = (t1, t2)" by fastforce
  have i: "letter_id r = i" using letter_id_of[OF Cons.prems(2)] .
  let ?d1 = "fst (claim i t1 d)"
  let ?d2 = "finish_row cfg r Not_Registered t2 ?d1"
  let ?r2 = "r\<lparr>letter_status := Waiting, letter_updated := t2, next_retry_at := t2 + 60000\<rparr>"
  have "snd (claim i t1 d) \<noteq> 0" using claim_count[OF Cons.prems(1), of i t1] Cons.prems(2,3) by blast
  then have p: "process_row cfg loads resolver r t1 t2 (w, d) = ((w, ?d2), Some Not_Registered)"
    using Cons.prems(4) by (simp add: process_row_def i case_prod_unfold)
  have "letter ?d1 i = Some (r\<lparr>letter_status := In_Progress, letter_updated := t1\<rparr>)"
    using letter_claim[of i t1 d i] Cons.prems(2,3) by simp
  then have l2: "letter ?d2 i = Some ?r2" by (simp add: finish_row_def reschedule_def letter_simps i)
  have wf2: "well_formed ?d2" using Cons.prems(1) by blast
  have rest: "retry_rounds cfg loads resolver i ts (w, ?d2) = ((w', d'), calls)"
    using Cons.prems(2,5) p by (simp add: t split: prod.splits)
  have "calls = 0 \<and> (\<exists>r'. letter d' i = Some r' \<and> letter_status r' = Waiting \<and> attempts r' = attempts ?r2
    \<and> (ts \<noteq> [] \<longrightarrow> next_retry_at r' = snd (last ts) + 60000))"
    by (rule Cons.IH[OF wf2 l2 _ _ rest]) (use Cons.prems(4) in simp_all)
  then show ?case using l2 rest by (cases ts) (auto simp: t)
qed simp

section \<open>What a poll fetches\<close>

lemma fetch_bounded: "0 \<le> limit \<Longrightarrow> int (length (fetch_due_batch tie limit now d)) \<le> limit"
  by (simp add: fetch_due_batch_def Let_def)

text \<open>A due row the batch leaves out is due no earlier than any row of the batch.\<close>

lemma fetch_oldest_first:
  assumes "q \<in> set (letters d)" and "letter_status q = Waiting" and "next_retry_at q \<le> now"
    and "q \<notin> set (fetch_due_batch tie limit now d)" and "r \<in> set (fetch_due_batch tie limit now d)"
  shows "next_retry_at r \<le> next_retry_at q"
proof -
  define due where "due = sort_key next_retry_at (sort_key (\<lambda>r. tie (letter_id r))
       (filter (\<lambda>r. letter_status r = Waiting \<and> next_retry_at r \<le> now) (letters d)))"
  have q: "q \<in> set due" using assms(1-3) by (simp add: due_def)
  have lim: "\<not> limit < 0" and r: "r \<in> set (take (nat limit) due)" and q': "q \<notin> set (take (nat limit) due)"
    using assms(4,5) q by (auto simp: fetch_due_batch_def Let_def due_def[symmetric] split: if_splits)
  have "q \<in> set (drop (nat limit) due)" using q q' by (metis append_take_drop_id set_append UnE)
  moreover have "sorted (map next_retry_at (take (nat limit) due @ drop (nat limit) due))" by (simp add: due_def)
  ultimately show ?thesis using r by (fastforce simp del: append_take_drop_id simp: sorted_append)
qed

end
