(* ===== verification/Locked_Run.thy ===== *)
theory Locked_Run
  imports Synthesis_Runner Transaction_Lock Journal Dead_Letters
begin

text \<open>
  What the tool services (\<open>synthesis_service.py\<close>, \<open>dyndolod_service.py\<close>, \<open>xedit_service.py\<close> and \<open>vramr_service.py\<close>
  of \<open>sky_claw/local/tools\<close>) share: the world they change, the faults of the journal and of the bus, and the
  \<open>async with SnapshotTransactionLock\<close> around a body.  A journal fault is an exception of the database, or a
  \<open>CancelledError\<close> while it works; the statement may have taken effect when it strikes.
\<close>

record service_world =
  sw_locks :: lock_table
  sw_files :: file_system
  sw_journal :: journal
  sw_events :: "event list"

datatype journal_fault = Db_Raises string bool | Db_Cancelled bool

text \<open>
  \<open>meanwhile\<close> is what other agents do to the lock table while the body runs, \<open>clock_ms\<close> the milliseconds of the
  events, \<open>now_db\<close> the seconds of the database; \<open>bus_running\<close> tells it for each publication.
\<close>

record service_env =
  digest :: "string \<Rightarrow> string"
  date_of :: "string \<Rightarrow> int option"
  read_json :: "string \<Rightarrow> json option"
  show_path :: "path \<Rightarrow> string"
  lock_settings :: lock_config
  snapshots_in :: snapshot_store
  attempts :: "nat \<Rightarrow> attempt_env"
  snap_events :: "nat \<Rightarrow> snap_event"
  restore_faults :: "nat \<Rightarrow> restore_fault"
  release_fails :: bool
  meanwhile :: "lock_table \<Rightarrow> lock_table"
  begin_fault :: "journal_fault option"
  commit_fault :: "journal_fault option"
  mark_fault :: "journal_fault option"
  now_db :: "nat \<Rightarrow> int"
  clock_ms :: "nat \<Rightarrow> int"
  bus_running :: "nat \<Rightarrow> bool"

text \<open>How a call of a service ends.\<close>

datatype 'r service_end = Returned 'r | Raises string | Cancelled_Out

section \<open>The journal and the bus\<close>

text \<open>What a fault raises, and whether the statement had taken effect.\<close>

fun fault_exception :: "journal_fault \<Rightarrow> tool_exception" where
  "fault_exception (Db_Raises e landed) = Foreign e"
| "fault_exception (Db_Cancelled landed) = Cancellation"

fun fault_landed :: "journal_fault \<Rightarrow> bool" where
  "fault_landed (Db_Raises e landed) = landed"
| "fault_landed (Db_Cancelled landed) = landed"

text \<open>A statement on the journal \<open>j\<close> that would give \<open>j'\<close>.\<close>

definition journal_call :: "journal_fault option \<Rightarrow> journal \<Rightarrow> tool_exception + 'r \<Rightarrow> service_world \<Rightarrow> service_world \<times> (tool_exception + 'r)" where
  "journal_call hit j' r w =
    (case hit of
       None \<Rightarrow> (w\<lparr>sw_journal := j'\<rparr>, r)
     | Some f \<Rightarrow> (if fault_landed f then w\<lparr>sw_journal := j'\<rparr> else w, Inl (fault_exception f)))"

definition try_begin :: "service_env \<Rightarrow> string \<Rightarrow> service_world \<Rightarrow> service_world \<times> (tool_exception + nat)" where
  "try_begin env description w =
    (case begin_transaction (sw_journal w) description None (now_db env 0) of
       (j, n) \<Rightarrow> journal_call (begin_fault env) j (Inr n) w)"

definition try_commit :: "service_env \<Rightarrow> nat \<Rightarrow> service_world \<Rightarrow> service_world \<times> (tool_exception + unit)" where
  "try_commit env n w =
    (case commit_transaction (sw_journal w) n (now_db env 1) of
       (j, z) \<Rightarrow> journal_call (commit_fault env) j
         (case z of Inl (Journal_Transaction_Error e) \<Rightarrow> Inl (Foreign e) | Inr _ \<Rightarrow> Inr ()) w)"

definition try_mark :: "service_env \<Rightarrow> nat \<Rightarrow> service_world \<Rightarrow> service_world \<times> (tool_exception + unit)" where
  "try_mark env n w = journal_call (mark_fault env) (mark_transaction_rolled_back (sw_journal w) n (now_db env 2)) (Inr ()) w"

text \<open>\<open>CoreEventBus.publish\<close>; waiting for room in the queue is not modelled.\<close>

definition publish_to :: "service_env \<Rightarrow> nat \<Rightarrow> string \<Rightarrow> string \<Rightarrow> json \<Rightarrow> service_world \<Rightarrow> service_world \<times> (tool_exception + unit)" where
  "publish_to env k t source payload w =
    (if bus_running env k
     then (w\<lparr>sw_events := sw_events w @ [\<lparr>topic = t, event_payload = payload, timestamp_ms = clock_ms env k, event_source = source\<rparr>]\<rparr>, Inr ())
     else (w, Inl (Foreign ''bus is not running'')))"

section \<open>The body under the lock\<close>

definition quoted :: "string \<Rightarrow> string" where
  "quoted s = [SINGLE_QUOTE] @ s @ [SINGLE_QUOTE]"

text \<open>How the \<open>async with\<close> fails: with the lock refused, or with an exception of the body or of the snapshots.\<close>

datatype locked_failure = Lock_Refused string | Body_Raised tool_exception

definition lock_message :: "lock_error \<Rightarrow> string" where
  "lock_message e = (case e of
     Lock_Acquisition_Error r a \<Rightarrow> ''Failed to acquire lock on '' @ quoted r @ '' for agent '' @ quoted a
   | Lock_Release_Error r \<Rightarrow> r)"

definition snapshot_message :: "snapshot_error \<Rightarrow> string" where
  "snapshot_message e = (case e of Journal_Snapshot_Error m \<Rightarrow> m | Uncaught m \<Rightarrow> m)"

definition service_transaction :: "service_env \<Rightarrow> string \<Rightarrow> string \<Rightarrow> path list \<Rightarrow> json \<Rightarrow> transaction" where
  "service_transaction env r a files md =
    \<lparr>txn_config = lock_settings env, txn_store = snapshots_in env, resource_id = r, agent_id = a, target_files = files,
     txn_ttl = None, txn_metadata = md\<rparr>"

text \<open>
  The body gives the transaction of the journal it began, if it did; the \<open>bool\<close> tells whether the body was
  entered.
\<close>

definition run_locked ::
  "service_env \<Rightarrow> transaction \<Rightarrow> (service_world \<Rightarrow> service_world \<times> nat option \<times> (tool_exception + 'r)) \<Rightarrow> service_world \<Rightarrow>
   service_world \<times> nat option \<times> bool \<times> (locked_failure + 'r)" where
  "run_locked env x body w =
    (case enter_transaction (digest env) (date_of env) x (attempts env) (snap_events env) (release_fails env) (sw_locks w) (sw_files w) of
       (t1, fs1, Inl f) \<Rightarrow> (w\<lparr>sw_locks := t1, sw_files := fs1\<rparr>, None, False,
          Inl (case f of Lock_Failed e \<Rightarrow> Lock_Refused (lock_message e)
               | Snapshot_Failed e \<Rightarrow> Body_Raised (Foreign (snapshot_message e))
               | enter_failure.Cancelled \<Rightarrow> Body_Raised Cancellation))
     | (t1, fs1, Inr snaps) \<Rightarrow>
        (case body (w\<lparr>sw_locks := t1, sw_files := fs1\<rparr>) of
           (w2, tx, r) \<Rightarrow>
            (case exit_transaction (digest env) (read_json env) x snaps (case r of Inl _ \<Rightarrow> True | Inr _ \<Rightarrow> False)
                    (restore_faults env) (release_fails env) (meanwhile env (sw_locks w2)) (sw_files w2) of
               (t3, fs3) \<Rightarrow> (w2\<lparr>sw_locks := t3, sw_files := fs3\<rparr>, tx, True,
                  (case r of Inl e \<Rightarrow> Inl (Body_Raised e) | Inr y \<Rightarrow> Inr y)))))"

section \<open>What the bracket gives\<close>

lemma run_locked_cases:
  assumes "run_locked env x body w = (w', tx, entered, r)"
  obtains (refused) f t1 fs1 where
      "enter_transaction (digest env) (date_of env) x (attempts env) (snap_events env) (release_fails env) (sw_locks w) (sw_files w) = (t1, fs1, Inl f)"
      "w' = w\<lparr>sw_locks := t1, sw_files := fs1\<rparr>" "tx = None" "\<not> entered" "isl r"
  | (ran) t1 fs1 snaps w2 y t3 fs3 where
      "enter_transaction (digest env) (date_of env) x (attempts env) (snap_events env) (release_fails env) (sw_locks w) (sw_files w) = (t1, fs1, Inr snaps)"
      "body (w\<lparr>sw_locks := t1, sw_files := fs1\<rparr>) = (w2, tx, y)"
      "exit_transaction (digest env) (read_json env) x snaps (isl y) (restore_faults env) (release_fails env) (meanwhile env (sw_locks w2)) (sw_files w2) = (t3, fs3)"
      "w' = w2\<lparr>sw_locks := t3, sw_files := fs3\<rparr>" "entered" "isl r = isl y" "\<And>v. r = Inr v \<longleftrightarrow> y = Inr v" "\<And>e. y = Inl e \<Longrightarrow> r = Inl (Body_Raised e)"
proof -
  obtain t1 fs1 z where e: "enter_transaction (digest env) (date_of env) x (attempts env) (snap_events env) (release_fails env) (sw_locks w) (sw_files w) = (t1, fs1, z)"
    by (metis surj_pair)
  show ?thesis
  proof (cases z)
    case (Inl f)
    then show ?thesis using refused[of t1 fs1 f] e assms by (auto simp: run_locked_def)
  next
    case (Inr snaps)
    obtain w2 tx' y where b: "body (w\<lparr>sw_locks := t1, sw_files := fs1\<rparr>) = (w2, tx', y)" by (metis surj_pair)
    obtain t3 fs3 where x: "exit_transaction (digest env) (read_json env) x snaps (isl y) (restore_faults env) (release_fails env)
        (meanwhile env (sw_locks w2)) (sw_files w2) = (t3, fs3)" by fastforce
    have "(case y of Inl _ \<Rightarrow> True | Inr _ \<Rightarrow> False) = isl y" by (cases y) simp_all
    then have "w' = w2\<lparr>sw_locks := t3, sw_files := fs3\<rparr> \<and> tx = tx' \<and> entered \<and> r = (case y of Inl e \<Rightarrow> Inl (Body_Raised e) | Inr v \<Rightarrow> Inr v)"
      using assms e Inr b x by (simp add: run_locked_def)
    then show ?thesis using ran[of t1 fs1 snaps w2 y t3 fs3] e Inr b x by (cases y) simp_all
  qed
qed

section \<open>The rows of the journal\<close>

definition tx_status_of :: "service_world \<Rightarrow> nat \<Rightarrow> transaction_status option" where
  "tx_status_of w n = map_option tx_status (get_transaction (sw_journal w) n)"

lemma find_map_same: "(\<And>x. P (f x) = P x) \<Longrightarrow> find P (map f xs) = map_option f (find P xs)"
  by (induction xs) auto

lemma get_update_tx:
  "(\<And>r. tx_id (f r) = tx_id r) \<Longrightarrow> get_transaction (update_tx P f j) n = map_option (\<lambda>r. if P r then f r else r) (get_transaction j n)"
  unfolding get_transaction_def update_tx_def by (simp add: find_map_same)

lemma find_found: "find P xs = Some x \<Longrightarrow> P x \<and> x \<in> set xs"
  by (induction xs) (auto split: if_splits)

lemma get_transaction_id: "get_transaction j n = Some r \<Longrightarrow> tx_id r = n"
  unfolding get_transaction_def by (drule find_found) simp

lemma journal_call_frame [simp]:
  "sw_locks (fst (journal_call f j r w)) = sw_locks w" "sw_files (fst (journal_call f j r w)) = sw_files w"
  "sw_events (fst (journal_call f j r w)) = sw_events w"
  by (simp_all add: journal_call_def split: option.split)

lemma journal_call_journal:
  "journal_call f j r w = (w', x) \<Longrightarrow> (f = None \<and> w' = w\<lparr>sw_journal := j\<rparr> \<and> x = r)
     \<or> f \<noteq> None \<and> isl x \<and> (w' = w \<or> w' = w\<lparr>sw_journal := j\<rparr>)"
  by (auto simp: journal_call_def split: option.splits if_splits)

text \<open>The row a \<open>begin\<close> adds is pending, and it is there also when the fault strikes late.\<close>

lemma begun_row:
  assumes "journal_ok (sw_journal w)" "begin_transaction (sw_journal w) d None t = (j, n)"
  shows "n = Suc (last_tx (sw_journal w)) \<and> tx_status_of (w\<lparr>sw_journal := j\<rparr>) n = Some TX_PENDING \<and> journal_ok j"
proof -
  have "journal_step (sw_journal w) j" using journal_step.j_begin[of "sw_journal w" d None t] assms(2) by simp
  then have ok: "journal_ok j" using journal_step_ok assms(1) by blast
  have "get_transaction (sw_journal w) (Suc (last_tx (sw_journal w))) = None" using get_transaction_ok[OF assms(1)] by (metis not_less_eq_eq order_refl)
  then have "\<not> (\<exists>x \<in> set (transactions (sw_journal w)). tx_id x = Suc (last_tx (sw_journal w)))"
    by (auto simp: get_transaction_def find_None_iff)
  then have "tx_status_of (w\<lparr>sw_journal := j\<rparr>) n = Some TX_PENDING" using assms(2)
    by (auto simp: tx_status_of_def begin_transaction_def Let_def get_transaction_def find_snoc_new)
  then show ?thesis using assms(2) ok by (auto simp: begin_transaction_def Let_def)
qed

lemma try_begin_row:
  assumes "journal_ok (sw_journal w)" "try_begin env d w = (w', Inr n)"
  shows "n = Suc (last_tx (sw_journal w)) \<and> tx_status_of w' n = Some TX_PENDING \<and> journal_ok (sw_journal w')
    \<and> sw_locks w' = sw_locks w \<and> sw_files w' = sw_files w \<and> sw_events w' = sw_events w"
proof -
  obtain j m where b: "begin_transaction (sw_journal w) d None (now_db env 0) = (j, m)" by fastforce
  have "journal_call (begin_fault env) j (Inr m) w = (w', Inr n)" using assms(2) b by (simp add: try_begin_def)
  from journal_call_journal[OF this] show ?thesis using begun_row[OF assms(1) b] by auto
qed

lemma try_begin_calm: "begin_fault env = None \<Longrightarrow> \<exists>w' n. try_begin env d w = (w', Inr n)"
  by (cases "begin_transaction (sw_journal w) d None (now_db env 0)") (auto simp: try_begin_def journal_call_def)

lemma try_begin_frame: "try_begin env d w = (w', r) \<Longrightarrow> sw_locks w' = sw_locks w \<and> sw_files w' = sw_files w \<and> sw_events w' = sw_events w"
  unfolding try_begin_def by (metis (no_types, lifting) fst_conv journal_call_frame prod.case_eq_if)

lemma try_commit_frame: "try_commit env n w = (w', r) \<Longrightarrow> sw_locks w' = sw_locks w \<and> sw_files w' = sw_files w \<and> sw_events w' = sw_events w"
  unfolding try_commit_def by (metis (no_types, lifting) fst_conv journal_call_frame prod.case_eq_if)

lemma try_mark_frame: "try_mark env n w = (w', r) \<Longrightarrow> sw_locks w' = sw_locks w \<and> sw_files w' = sw_files w \<and> sw_events w' = sw_events w"
  unfolding try_mark_def by (metis fst_conv journal_call_frame)

lemma try_begin_failed:
  assumes "journal_ok (sw_journal w)" "try_begin env d w = (w', Inl e)"
  shows "begin_fault env \<noteq> None \<and> (sw_journal w' = sw_journal w \<or> tx_status_of w' (Suc (last_tx (sw_journal w))) = Some TX_PENDING)"
proof -
  obtain j m where b: "begin_transaction (sw_journal w) d None (now_db env 0) = (j, m)" by fastforce
  have "journal_call (begin_fault env) j (Inr m) w = (w', Inl e)" using assms(2) b by (simp add: try_begin_def)
  from journal_call_journal[OF this] show ?thesis using begun_row[OF assms(1) b] by auto
qed

lemma try_commit_row:
  assumes "tx_status_of w n = Some TX_PENDING" "try_commit env n w = (w', r)"
  shows "(r = Inr () \<longrightarrow> tx_status_of w' n = Some TX_COMMITTED)
    \<and> (r \<noteq> Inr () \<longrightarrow> tx_status_of w' n \<in> {Some TX_PENDING, Some TX_COMMITTED} \<and> commit_fault env \<noteq> None)
    \<and> sw_locks w' = sw_locks w \<and> sw_files w' = sw_files w \<and> sw_events w' = sw_events w"
proof -
  obtain row where row: "get_transaction (sw_journal w) n = Some row" "tx_status row = TX_PENDING"
    using assms(1) by (auto simp: tx_status_of_def)
  then have "row \<in> set (transactions (sw_journal w))" "tx_id row = n"
    unfolding get_transaction_def using find_found by fastforce+
  then have hit: "list_ex (\<lambda>r. tx_id r = n \<and> tx_status r = TX_PENDING) (transactions (sw_journal w))" using row(2) by (auto simp: list_ex_iff)
  obtain j z where c: "commit_transaction (sw_journal w) n (now_db env 1) = (j, z)" by fastforce
  have "get_transaction (update_tx (\<lambda>r. tx_id r = n \<and> tx_status r = TX_PENDING) (\<lambda>r. r\<lparr>tx_status := TX_COMMITTED, tx_committed_at := Some t\<rparr>) (sw_journal w)) n
      = Some (row\<lparr>tx_status := TX_COMMITTED, tx_committed_at := Some t\<rparr>)" for t
    by (subst get_update_tx) (simp_all add: row get_transaction_id[OF row(1)])
  then have ok: "z = Inr ()" "tx_status_of (w\<lparr>sw_journal := j\<rparr>) n = Some TX_COMMITTED" using c hit
    by (auto simp: commit_transaction_def Let_def tx_status_of_def get_transaction_def split: if_splits)
  have "journal_call (commit_fault env) j (Inr ()) w = (w', r)" using assms(2) c ok(1) by (simp add: try_commit_def)
  from journal_call_journal[OF this] show ?thesis using ok(2) assms(1) try_commit_frame[OF assms(2)] by auto
qed

lemma try_mark_row:
  assumes "tx_status_of w n = Some st" "try_mark env n w = (w', r)"
  shows "(r = Inr () \<longrightarrow> tx_status_of w' n = Some TX_ROLLED_BACK)
    \<and> (r \<noteq> Inr () \<longrightarrow> tx_status_of w' n \<in> {Some st, Some TX_ROLLED_BACK} \<and> mark_fault env \<noteq> None)
    \<and> sw_locks w' = sw_locks w \<and> sw_files w' = sw_files w \<and> sw_events w' = sw_events w"
proof -
  obtain row where row: "get_transaction (sw_journal w) n = Some row" using assms(1) by (auto simp: tx_status_of_def)
  have "get_transaction (mark_transaction_rolled_back (sw_journal w) n t) n = Some (row\<lparr>tx_status := TX_ROLLED_BACK, tx_rolled_back_at := Some t\<rparr>)" for t
    unfolding mark_transaction_rolled_back_def by (subst get_update_tx) (simp_all add: row get_transaction_id[OF row])
  then have "tx_status_of (w\<lparr>sw_journal := mark_transaction_rolled_back (sw_journal w) n t\<rparr>) n = Some TX_ROLLED_BACK" for t
    by (simp add: tx_status_of_def)
  with journal_call_journal[OF assms(2)[unfolded try_mark_def]] show ?thesis
    using assms(1) try_mark_frame[OF assms(2)] by auto
qed

lemma publish_rest: "publish_to env k t s p w = (w', r) \<Longrightarrow> sw_locks w' = sw_locks w \<and> sw_files w' = sw_files w \<and> sw_journal w' = sw_journal w"
  by (auto simp: publish_to_def split: if_splits)

lemma tx_status_same: "sw_journal w' = sw_journal w \<Longrightarrow> tx_status_of w' n = tx_status_of w n"
  by (simp add: tx_status_of_def)

section \<open>The files and the lock\<close>

text \<open>The snapshot of a single target is kept when the store has room for it.\<close>

definition room_for :: "service_env \<Rightarrow> path \<Rightarrow> file_system \<Rightarrow> bool" where
  "room_for env p fs \<longleftrightarrow> (\<forall>c e. dget fs p = Some c \<longrightarrow>
     tree_size (copied (digest env) (snapshots_in env) e p c fs) (snapshot_dir (snapshots_in env)) \<le> max_size_bytes (snapshots_in env))"

lemma enter_snapshot_kept:
  assumes "enter_transaction (digest env) (date_of env) x (attempts env) ev db_error t0 fs0 = (t1, fs1, Inr snaps)"
    and "txn_store x = snapshots_in env" "target_files x = [p]" "room_for env p fs0"
  shows "\<forall>s \<in> set snaps. dget fs1 (snapshot_path s) = dget fs0 (original_path s)"
proof -
  have t: "take_snapshots (digest env) (date_of env) x ev 0 [p] fs0 = (fs1, Inr snaps)" using enter_Inr(1)[OF assms(1)] assms(3) by simp
  show ?thesis
  proof (cases "dget fs0 p")
    case (Some c)
    then obtain e s where s: "ev 0 = Snap e" "create_snapshot (digest env) (date_of env) (snapshots_in env) e p (txn_metadata x) fs0 = (fs1, Inr s)" "snaps = [s]"
      using t assms(2) by (auto split: snap_event.splits prod.splits sum.splits)
    have "fs1 = copied (digest env) (snapshots_in env) e p c fs0" "snapshot_path s = snapshot_file (snapshots_in env) e p" "original_path s = p"
      using create_snapshot_Inr[OF s(2)] Some assms(4) by (auto simp: room_for_def enforce_size_limit_def Let_def)
    then show ?thesis using s(3) Some snapshot_paths(4)[of "snapshots_in env" e p] by (simp add: copied_def)
  qed (use t in simp)
qed

text \<open>A body that leaves the snapshots alone.\<close>

definition spares :: "path \<Rightarrow> file_system \<Rightarrow> file_system \<Rightarrow> bool" where
  "spares d fs fs' \<longleftrightarrow> (\<forall>q. inside d q \<longrightarrow> dget fs' q = dget fs q)"

lemma roll_back_original:
  assumes "enter_transaction (digest env) (date_of env) x (attempts env) ev db_error t0 fs0 = (t1, fs1, Inr snaps)"
    and "txn_store x = snapshots_in env" "target_files x = [p]" "room_for env p fs0" "p \<noteq> []" "\<not> inside (snapshot_dir (snapshots_in env)) p"
    and "spares (snapshot_dir (snapshots_in env)) fs1 fs2" "dget fs0 p = Some c"
    and "exit_transaction (digest env) loads x snaps True (\<lambda>_. No_Io_Fault) db_error' t2 fs2 = (t3, fs3)"
  shows "dget fs3 p = Some c" and "q \<noteq> p \<Longrightarrow> q \<noteq> backup_file p \<Longrightarrow> dget fs3 q = dget fs2 q"
proof -
  have out: "\<forall>q \<in> set [p]. \<not> inside (snapshot_dir (txn_store x)) q" using assms(2,6) by simp
  note o = take_snapshots_originals[OF enter_Inr(1)[OF assms(1), unfolded assms(3)] out]
  have one: "map original_path snaps = [p]" using o assms(8) by simp
  then obtain s where s: "snaps = [s]" "original_path s = p" by (cases snaps) auto
  have sp: "inside (snapshot_dir (snapshots_in env)) (snapshot_path s)" using o s assms(2) by simp
  have "dget fs1 (snapshot_path s) = Some c" using enter_snapshot_kept[OF assms(1-4)] s assms(8) by simp
  then have "dget fs2 (snapshot_path s) = Some c" using sp assms(7) by (simp add: spares_def)
  then have "dget (restore_with (digest env) loads s fs2) r = (if r = p then Some c
      else if r = backup_file p \<and> dget fs2 p \<noteq> None then None else dget fs2 r)" for r
    using restore_with_dget[of fs2 s c] s(2) assms(5) by simp
  moreover have "fs3 = restore_with (digest env) loads s fs2" using assms(9) s(1) by (simp add: exit_transaction_def roll_back_foldl)
  ultimately show "dget fs3 p = Some c" and "q \<noteq> p \<Longrightarrow> q \<noteq> backup_file p \<Longrightarrow> dget fs3 q = dget fs2 q" by simp_all
qed

text \<open>\<open>keeps_lease\<close>: the others leave a lease that is held in the table, as they do until it expires.\<close>

definition keeps_lease :: "service_env \<Rightarrow> string \<Rightarrow> string \<Rightarrow> bool" where
  "keeps_lease env r a \<longleftrightarrow> (\<forall>t. lock_holder t r = Some a \<longrightarrow> lock_holder (meanwhile env t) r = Some a)"

lemma run_locked_frees:
  assumes "run_locked env x body w = (w', tx, True, r)" "\<not> release_fails env" "keeps_lease env (resource_id x) (agent_id x)"
    and "\<And>v v' tx y. body v = (v', tx, y) \<Longrightarrow> sw_locks v' = sw_locks v"
  shows "lock_holder (sw_locks w') (resource_id x) = None"
  using assms(1)
proof (cases rule: run_locked_cases)
  case (ran t1 fs1 snaps w2 y t3 fs3)
  have "sw_locks w2 = t1" using assms(4)[OF ran(2)] by simp
  moreover have "lock_holder t1 (resource_id x) = Some (agent_id x)" using enter_Inr(2)[OF ran(1)] locks.acquire_holds by blast
  ultimately have "lock_holder (meanwhile env (sw_locks w2)) (resource_id x) = Some (agent_id x)" using assms(3) by (simp add: keeps_lease_def)
  then have "lock_holder t3 (resource_id x) = None" using ran(3) locks.release_frees assms(2) by (auto simp: exit_transaction_def)
  then show ?thesis using ran(4) by simp
qed simp

text \<open>A body that fails: its target is given back, and nothing else it did.\<close>

lemma run_locked_failed:
  assumes "run_locked env x body w = (w', tx, True, Inl f)" "txn_store x = snapshots_in env" "target_files x = [p]" "p \<noteq> []"
    and "\<not> inside (snapshot_dir (snapshots_in env)) p" "room_for env p (sw_files w)" "dget (sw_files w) p = Some c" "restore_faults env = (\<lambda>_. No_Io_Fault)"
    and "\<And>v v' tx y. body v = (v', tx, y) \<Longrightarrow> spares (snapshot_dir (snapshots_in env)) (sw_files v) (sw_files v')"
  obtains t1 fs1 w2 e where "body (w\<lparr>sw_locks := t1, sw_files := fs1\<rparr>) = (w2, tx, Inl e)"
    "\<forall>q. \<not> inside (snapshot_dir (snapshots_in env)) q \<longrightarrow> dget fs1 q = dget (sw_files w) q"
    "dget (sw_files w') p = Some c" "\<forall>q. q \<noteq> p \<longrightarrow> q \<noteq> backup_file p \<longrightarrow> dget (sw_files w') q = dget (sw_files w2) q"
    "sw_journal w' = sw_journal w2"
  using assms(1)
proof (cases rule: run_locked_cases)
  case (ran t1 fs1 snaps w2 y t3 fs3)
  have sp: "spares (snapshot_dir (snapshots_in env)) fs1 (sw_files w2)" using assms(9)[OF ran(2)] by simp
  obtain e where y: "y = Inl e" using ran(6) by (cases y) auto
  have ex: "exit_transaction (digest env) (read_json env) x snaps True (\<lambda>_. No_Io_Fault) (release_fails env) (meanwhile env (sw_locks w2)) (sw_files w2) = (t3, fs3)"
    using ran(3) assms(8) y by simp
  have out: "\<forall>r \<in> set [p]. \<not> inside (snapshot_dir (txn_store x)) r" using assms(2,5) by simp
  note frame = take_snapshots_originals[OF enter_Inr(1)[OF ran(1), unfolded assms(3)] out]
  note orig = roll_back_original[OF ran(1) assms(2,3,6,4,5) sp assms(7) ex]
  show ?thesis by (rule that[OF ran(2)[unfolded y]]) (use frame orig assms(2) ran(4) in simp_all)
qed simp

lemma run_locked_restores:
  assumes "run_locked env x body w = (w', tx, True, Inl f)" "txn_store x = snapshots_in env" "target_files x = [p]" "p \<noteq> []"
    and "\<not> inside (snapshot_dir (snapshots_in env)) p" "room_for env p (sw_files w)" "dget (sw_files w) p = Some c" "restore_faults env = (\<lambda>_. No_Io_Fault)"
    and "\<And>v v' tx y. body v = (v', tx, y) \<Longrightarrow> spares (snapshot_dir (snapshots_in env)) (sw_files v) (sw_files v')"
  shows "dget (sw_files w') p = Some c"
  by (rule run_locked_failed[OF assms]) assumption+

section \<open>A service whose runs are all or nothing\<close>

definition calm_journal :: "service_env \<Rightarrow> bool" where
  "calm_journal env \<longleftrightarrow> begin_fault env = None \<and> commit_fault env = None \<and> mark_fault env = None"

text \<open>How the row of a run stands at its end, by what leaves the handlers.\<close>

definition row_of :: "('a \<Rightarrow> bool) \<Rightarrow> tool_exception + 'a \<Rightarrow> transaction_status" where
  "row_of won z = (case z of Inr a \<Rightarrow> if won a then TX_COMMITTED else TX_ROLLED_BACK | Inl _ \<Rightarrow> TX_PENDING)"

text \<open>
  The contract of the services that commit after the lock: the body opens one row and leaves locks and snapshots
  alone; the handlers close the row by the verdict and touch neither files nor locks.  \<open>c\<close> is what a request
  asks for, \<open>gentle\<close> says that its program leaves the snapshots alone, \<open>answers\<close> relates the body's result with
  the answer.  Only a cancellation leaves the handlers as an exception, and then the row stays as it was.
\<close>

locale locked_service =
  fixes body :: "service_env \<Rightarrow> 'c \<Rightarrow> service_world \<Rightarrow> service_world \<times> nat option \<times> (tool_exception + 'r)"
    and settle :: "service_env \<Rightarrow> 'c \<Rightarrow> service_world \<times> nat option \<times> bool \<times> (locked_failure + 'r) \<Rightarrow> service_world \<times> (tool_exception + 'a)"
    and gentle :: "'c \<Rightarrow> path \<Rightarrow> bool" and won :: "'a \<Rightarrow> bool" and answers :: "'r \<Rightarrow> 'a \<Rightarrow> bool"
  assumes body_opens: "body env c v = (v', tx, y) \<Longrightarrow> journal_ok (sw_journal v) \<Longrightarrow> begin_fault env = None \<Longrightarrow>
      tx = Some (Suc (last_tx (sw_journal v))) \<and> tx_status_of v' (Suc (last_tx (sw_journal v))) = Some TX_PENDING"
    and body_locks: "body env c v = (v', tx, y) \<Longrightarrow> sw_locks v' = sw_locks v"
    and body_spares: "body env c v = (v', tx, y) \<Longrightarrow> gentle c d \<Longrightarrow> spares d (sw_files v) (sw_files v')"
    and settle_keeps: "settle env c (v, tx, entered, r) = (v', z) \<Longrightarrow> sw_files v' = sw_files v \<and> sw_locks v' = sw_locks v \<and> sw_events v' = sw_events v"
    and settle_nothing: "settle env c (v, None, False, Inl f) = (v', z) \<Longrightarrow> sw_journal v' = sw_journal v"
    and settle_row: "settle env c (v, Some n, True, r) = (v', Inr a) \<Longrightarrow> tx_status_of v n = Some TX_PENDING \<Longrightarrow> calm_journal env \<Longrightarrow>
      (\<forall>m. r \<noteq> Inl (Lock_Refused m)) \<Longrightarrow> (\<forall>x. r = Inr x \<longrightarrow> (\<exists>u w m. body env c u = (w, Some m, Inr x))) \<Longrightarrow>
      tx_status_of v' n = Some (if won a then TX_COMMITTED else TX_ROLLED_BACK) \<and> (won a \<longrightarrow> (\<exists>x. r = Inr x \<and> answers x a)) \<and> (\<not> won a \<longrightarrow> isl r)"
    and settle_leaves: "settle env c (v, Some n, True, r) = (v', Inl e) \<Longrightarrow> tx_status_of v n = Some TX_PENDING \<Longrightarrow> calm_journal env \<Longrightarrow>
      (\<forall>m. r \<noteq> Inl (Lock_Refused m)) \<Longrightarrow> e = Cancellation \<and> isl r \<and> tx_status_of v' n = Some TX_PENDING"
begin

lemma run_is_atomic:
  assumes run: "settle env c (run_locked env x (body env c) w) = (w', z)" and j: "journal_ok (sw_journal w)" and calm: "calm_journal env"
    and rel: "\<not> release_fails env" "keeps_lease env (resource_id x) (agent_id x)" and io: "restore_faults env = (\<lambda>_. No_Io_Fault)"
    and g: "gentle c (snapshot_dir (snapshots_in env))" and st: "txn_store x = snapshots_in env" and new: "sw_journal w' \<noteq> sw_journal w"
  shows "tx_status_of w' (Suc (last_tx (sw_journal w))) = Some (row_of won z)"
    and "\<And>e. z = Inl e \<Longrightarrow> e = Cancellation"
    and "lock_holder (sw_locks w') (resource_id x) = None"
    and "target_files x = [p] \<Longrightarrow> p \<noteq> [] \<Longrightarrow> \<not> inside (snapshot_dir (snapshots_in env)) p \<Longrightarrow> room_for env p (sw_files w) \<Longrightarrow>
      dget (sw_files w) p = Some b \<Longrightarrow> row_of won z \<noteq> TX_COMMITTED \<Longrightarrow> dget (sw_files w') p = Some b"
    and "\<And>a. z = Inr a \<Longrightarrow> won a \<Longrightarrow> \<exists>u v n y. body env c u = (v, Some n, Inr y) \<and> sw_files w' = sw_files v \<and> answers y a"
proof -
  let ?n = "Suc (last_tx (sw_journal w))"
  obtain w2 tx entered r where l: "run_locked env x (body env c) w = (w2, tx, entered, r)" by (metis surj_pair)
  note k = settle_keeps[OF run[unfolded l]]
  from l have "entered"
  proof (cases rule: run_locked_cases)
    case (refused f t1 fs1)
    then obtain e where "r = Inl e" by (cases r) auto
    with refused run l settle_nothing[of env c w2 e w'] have "sw_journal w' = sw_journal w" by auto
    with new show ?thesis by simp
  qed
  from l have all: "tx_status_of w' ?n = Some (row_of won z) \<and> (row_of won z \<noteq> TX_COMMITTED \<longrightarrow> isl r) \<and> (\<forall>e. z = Inl e \<longrightarrow> e = Cancellation)
      \<and> (\<forall>a. z = Inr a \<and> won a \<longrightarrow> (\<exists>u v n y. body env c u = (v, Some n, Inr y) \<and> sw_files w' = sw_files v \<and> answers y a))"
  proof (cases rule: run_locked_cases)
    case (ran t1 fs1 snaps v2 q t3 fs3)
    have b: "tx = Some ?n" "tx_status_of v2 ?n = Some TX_PENDING"
      using body_opens[OF ran(2)] j calm by (simp_all add: calm_journal_def)
    have pend: "tx_status_of w2 ?n = Some TX_PENDING" using b(2) ran(4) by (simp add: tx_status_of_def)
    have nr: "\<forall>m. r \<noteq> Inl (Lock_Refused m)" using ran(6,7,8) by (cases q) auto
    have from_body: "\<forall>v. r = Inr v \<longrightarrow> (\<exists>u w m. body env c u = (w, Some m, Inr v))" using ran(2) ran(7) b(1) by (cases q) auto
    have run': "settle env c (w2, Some ?n, True, r) = (w', z)" using run l b(1) ran(5) by simp
    show ?thesis
    proof (cases z)
      case (Inl e)
      then show ?thesis using settle_leaves[OF run'[unfolded Inl] pend calm nr] by (auto simp: row_of_def)
    next
      case (Inr a)
      note s = settle_row[OF run'[unfolded Inr] pend calm nr from_body]
      have "\<exists>u v n y. body env c u = (v, Some n, Inr y) \<and> sw_files w' = sw_files v \<and> answers y a" if won: "won a"
      proof -
        obtain y where y: "r = Inr y" "answers y a" using s won by blast
        then have q: "q = Inr y" using ran(7) by simp
        then have "sw_files w2 = sw_files v2" using ran(3,4) by (auto simp: exit_transaction_def)
        then show ?thesis using ran(2) q y b(1) k by auto
      qed
      with s Inr show ?thesis by (auto simp: row_of_def)
    qed
  qed (use \<open>entered\<close> in simp)
  then show "tx_status_of w' ?n = Some (row_of won z)" and "\<And>e. z = Inl e \<Longrightarrow> e = Cancellation"
    and "\<And>a. z = Inr a \<Longrightarrow> won a \<Longrightarrow> \<exists>u v n y. body env c u = (v, Some n, Inr y) \<and> sw_files w' = sw_files v \<and> answers y a" by blast+
  show "lock_holder (sw_locks w') (resource_id x) = None"
    using run_locked_frees[OF _ rel body_locks] l \<open>entered\<close> k by simp
  show "dget (sw_files w') p = Some b" if p: "target_files x = [p]" "p \<noteq> []" "\<not> inside (snapshot_dir (snapshots_in env)) p"
    "room_for env p (sw_files w)" "dget (sw_files w) p = Some b" "row_of won z \<noteq> TX_COMMITTED"
  proof -
    obtain f where "r = Inl f" using all p(6) by (cases r) auto
    then show ?thesis
      using run_locked_restores[OF _ st p(1-5) io body_spares[OF _ g]] l \<open>entered\<close> k by simp
  qed
qed

end

end
