(* ===== verification/Synthesis_Service.thy ===== *)
theory Synthesis_Service
  imports Locked_Run
begin

text \<open>
  \<open>sky_claw/local/tools/synthesis_service.py\<close>: a run of Synthesis under the lock of its plugin, with the plugin
  snapshotted, validated and given back when the run fails, a row of the journal and two events.  The paths of
  the environment are arguments; \<open>stamp\<close> is the text of a clock reading or a duration.
\<close>

record tool_paths =
  skyrim_path :: "path option"
  mo2_root :: "path option"
  mo2_mods :: "path option"
  synthesis_program :: "path option"
  dyndolod_program :: "path option"
  texgen_program :: "path option"
  xedit_program :: "path option"
  path_there :: "path \<Rightarrow> bool"

record synthesis_service =
  cached_runner :: "synthesis_config option"
  cached_pipeline :: "patchers option"
  pipeline_file :: path

section \<open>Lazy initialisation\<close>

definition ensure_synthesis_runner :: "(path \<Rightarrow> string) \<Rightarrow> tool_paths \<Rightarrow> synthesis_service \<Rightarrow> synthesis_service \<times> (string + synthesis_config)" where
  "ensure_synthesis_runner show ps svc =
    (case cached_runner svc of
       Some cfg \<Rightarrow> (svc, Inr cfg)
     | None \<Rightarrow>
        (case (skyrim_path ps, mo2_root ps, synthesis_program ps) of
           (Some game, Some mo2, Some exe) \<Rightarrow>
            if \<not> path_there ps exe then (svc, Inl (''Synthesis executable not found: '' @ show exe))
            else (let out = (if path_there ps (mo2 @ [''overwrite'']) then mo2 @ [''overwrite''] else mo2 @ [''mods'', ''Synthesis Output'']);
                      cfg = \<lparr>game_path = game, mo2_path = mo2, output_path = out, synthesis_exe = exe, timeout_seconds = 300\<rparr>
                  in (svc\<lparr>cached_runner := Some cfg\<rparr>, Inr cfg))
         | _ \<Rightarrow> (svc, Inl (''Cannot initialize SynthesisRunner: SKYRIM_PATH, MO2_PATH, and SYNTHESIS_EXE environment variables ''
                 @ ''must be valid paths''))))"

definition ensure_patcher_pipeline :: "(string \<Rightarrow> json option) \<Rightarrow> file_system \<Rightarrow> synthesis_service \<Rightarrow> synthesis_service \<times> patchers" where
  "ensure_patcher_pipeline loads fs svc =
    (case cached_pipeline svc of
       Some ps \<Rightarrow> (svc, ps)
     | None \<Rightarrow> (let ps = new_pipeline loads None (Some (pipeline_file svc)) fs in (svc\<lparr>cached_pipeline := Some ps\<rparr>, ps)))"

section \<open>The run\<close>

definition SYNTHESIS_AGENT :: string where
  "SYNTHESIS_AGENT = ''synthesis-service''"

text \<open>What runs under the lock; its exceptions make the lock restore the snapshots.\<close>

definition synthesis_body ::
  "service_env \<Rightarrow> synthesis_config \<Rightarrow> process \<Rightarrow> bool \<Rightarrow> string list \<Rightarrow> service_world \<Rightarrow>
   service_world \<times> nat option \<times> (tool_exception + synthesis_result)" where
  "synthesis_body env cfg proc io ids w =
    (case try_begin env ''synthesis_pipeline'' w of
       (w1, Inl e) \<Rightarrow> (w1, None, Inl e)
     | (w1, Inr n) \<Rightarrow>
        (case run_pipeline (show_path env) cfg proc ids None (sw_files w1) of
           (fs, r) \<Rightarrow> (w1\<lparr>sw_files := fs\<rparr>, Some n,
             (case r of
                Inl e \<Rightarrow> Inl e
              | Inr res \<Rightarrow>
                 if synth_success res \<and> (case output_esp res of None \<Rightarrow> False | Some p \<Rightarrow> \<not> validate_synthesis_esp io fs p)
                 then Inl (Domain ''ESP validation failed: corrupted or invalid'' None)
                 else if \<not> synth_success res
                 then Inl (Domain (if synth_errors res = [] then ''Pipeline failed'' else join ''; '' (synth_errors res)) (Some (return_code res)))
                 else Inr res))))"

definition synthesis_failure :: "path option \<Rightarrow> int \<Rightarrow> string \<Rightarrow> string \<Rightarrow> synthesis_result" where
  "synthesis_failure esp rc e shown = \<lparr>synth_success = False, output_esp = esp, return_code = rc, synth_stdout = [], synth_stderr = e,
     patchers_executed = [], synth_errors = [shown]\<rparr>"

text \<open>
  The handlers after the lock: the result with \<open>rolled_back\<close>, or the exception that leaves.  Only the
  handler of unexpected exceptions protects itself from a journal that fails again.
\<close>

definition unexpected_in_synthesis ::
  "service_env \<Rightarrow> bool \<Rightarrow> nat option \<Rightarrow> tool_exception \<Rightarrow> service_world \<Rightarrow> service_world \<times> (tool_exception + synthesis_result \<times> bool)" where
  "unexpected_in_synthesis env rolled tx e w =
    (case e of
       Cancellation \<Rightarrow> (w, Inl Cancellation)
     | Domain m _ \<Rightarrow> (w, Inl e)
     | Foreign m \<Rightarrow>
        (let done = Inr (synthesis_failure None (-1) m (''Unexpected error: '' @ m), rolled) in
         case tx of
           None \<Rightarrow> (w, done)
         | Some n \<Rightarrow> (case try_mark env n w of (w', Inl Cancellation) \<Rightarrow> (w', Inl Cancellation) | (w', _) \<Rightarrow> (w', done))))"

definition settle_synthesis ::
  "service_env \<Rightarrow> path \<Rightarrow> path list \<Rightarrow> service_world \<times> nat option \<times> bool \<times> (locked_failure + synthesis_result) \<Rightarrow>
   service_world \<times> (tool_exception + synthesis_result \<times> bool)" where
  "settle_synthesis env target files out =
    (case out of (w, tx, entered, r) \<Rightarrow>
      (case r of
         Inr res \<Rightarrow>
          (case tx of
             None \<Rightarrow> (w, Inr (res, False))
           | Some n \<Rightarrow> (case try_commit env n w of
                (w', Inr _) \<Rightarrow> (w', Inr (res, False))
              | (w', Inl e) \<Rightarrow> unexpected_in_synthesis env False tx e w'))
       | Inl (Lock_Refused m) \<Rightarrow> (w, Inr (synthesis_failure None (-1) m (''Lock contention: '' @ m), False))
       | Inl (Body_Raised (Domain m rc)) \<Rightarrow>
          (let done = (\<lambda>w. (w, Inr (synthesis_failure (if dget (sw_files w) target = None then None else Some target)
                 (case rc of None \<Rightarrow> -1 | Some c \<Rightarrow> c) m m, files \<noteq> []))) in
           case tx of
             None \<Rightarrow> done w
           | Some n \<Rightarrow> (case try_mark env n w of (w', Inl e) \<Rightarrow> (w', Inl e) | (w', Inr _) \<Rightarrow> done w'))
       | Inl (Body_Raised e) \<Rightarrow> unexpected_in_synthesis env (entered \<and> files \<noteq> []) tx e w))"

definition synthesis_started :: "service_env \<Rightarrow> (nat \<Rightarrow> string) \<Rightarrow> string list \<Rightarrow> path \<Rightarrow> bool \<Rightarrow> json" where
  "synthesis_started env stamp ids target snapshot =
    JDict [(''patcher_ids'', JList (map JStr ids)), (''target_esp'', JStr (show_path env target)), (''snapshot_enabled'', JBool snapshot),
      (''started_at'', JFloat (stamp 0))]"

definition synthesis_completed :: "service_env \<Rightarrow> (nat \<Rightarrow> string) \<Rightarrow> string list \<Rightarrow> path \<Rightarrow> synthesis_result \<Rightarrow> bool \<Rightarrow> json" where
  "synthesis_completed env stamp ids target res rolled =
    JDict [(''patcher_ids'', JList (map JStr ids)), (''target_esp'', JStr (show_path env target)), (''success'', JBool (synth_success res)),
      (''patchers_executed'', JList (map JStr (patchers_executed res))), (''errors'', JList (map JStr (synth_errors res))),
      (''duration_seconds'', JFloat (stamp 1)), (''rolled_back'', JBool rolled), (''completed_at'', JFloat (stamp 2))]"

definition leaves :: "tool_exception \<Rightarrow> 'r service_end" where
  "leaves e = (case e of Domain m _ \<Rightarrow> Raises m | Foreign m \<Rightarrow> Raises m | Cancellation \<Rightarrow> Cancelled_Out)"

text \<open>What is chosen and locked: the patchers, the plugin and whether it is snapshotted.\<close>

definition execute_synthesis ::
  "service_env \<Rightarrow> (nat \<Rightarrow> string) \<Rightarrow> synthesis_config \<Rightarrow> process \<Rightarrow> bool \<Rightarrow> string list \<Rightarrow> bool \<Rightarrow> service_world \<Rightarrow>
   service_world \<times> synthesis_result service_end" where
  "execute_synthesis env stamp cfg proc io ids snapshot w =
    (let target = output_path cfg @ [SYNTHESIS_ESP] in
     case publish_to env 0 ''synthesis.pipeline.started'' SYNTHESIS_AGENT (synthesis_started env stamp ids target snapshot) w of
       (w1, Inl e) \<Rightarrow> (w1, leaves e)
     | (w1, Inr _) \<Rightarrow>
        (let files = (if snapshot \<and> dget (sw_files w1) target \<noteq> None then [target] else []);
             md = JDict [(''source'', JStr ''synthesis_pipeline''), (''patchers'', JList (map JStr ids))] in
         case settle_synthesis env target files
             (run_locked env (service_transaction env SYNTHESIS_ESP SYNTHESIS_AGENT files md) (synthesis_body env cfg proc io ids) w1) of
           (w2, Inl e) \<Rightarrow> (w2, leaves e)
         | (w2, Inr (res, rolled)) \<Rightarrow>
            (case publish_to env 1 ''synthesis.pipeline.completed'' SYNTHESIS_AGENT (synthesis_completed env stamp ids target res rolled) w2 of
               (w3, Inl e) \<Rightarrow> (w3, leaves e)
             | (w3, Inr _) \<Rightarrow> (w3, Returned res))))"

definition execute_synthesis_pipeline ::
  "service_env \<Rightarrow> (nat \<Rightarrow> string) \<Rightarrow> (json \<Rightarrow> int) \<Rightarrow> tool_paths \<Rightarrow> process \<Rightarrow> bool \<Rightarrow> string list option \<Rightarrow> bool \<Rightarrow>
   synthesis_service \<Rightarrow> service_world \<Rightarrow> synthesis_service \<times> service_world \<times> synthesis_result service_end" where
  "execute_synthesis_pipeline env stamp rank ps proc io patcher_ids snapshot svc w =
    (case ensure_synthesis_runner (show_path env) ps svc of
       (svc1, Inl e) \<Rightarrow> (svc1, w, Returned (failed_synthesis e))
     | (svc1, Inr cfg) \<Rightarrow>
        (case ensure_patcher_pipeline (read_json env) (sw_files w) svc1 of
           (svc2, pipeline) \<Rightarrow>
            (let ids = (case patcher_ids of None \<Rightarrow> map patcher_id (get_enabled_patchers rank pipeline) | Some xs \<Rightarrow> xs) in
             if ids = [] then (svc2, w, Returned (failed_synthesis ''No patchers configured or enabled''))
             else (svc2, execute_synthesis env stamp cfg proc io ids snapshot w))))"

definition synthesis_dict :: "(path \<Rightarrow> string) \<Rightarrow> synthesis_result \<Rightarrow> json" where
  "synthesis_dict show r =
    JDict [(''success'', JBool (synth_success r)), (''output_esp'', (case output_esp r of None \<Rightarrow> JNull | Some p \<Rightarrow> JStr (show p))),
      (''return_code'', JInt (return_code r)), (''stdout'', JStr (synth_stdout r)), (''stderr'', JStr (synth_stderr r)),
      (''patchers_executed'', JList (map JStr (patchers_executed r))), (''errors'', JList (map JStr (synth_errors r)))]"

section \<open>What a run leaves\<close>

text \<open>\<open>calm_journal\<close>: the journal does not fail.  The process does not touch the snapshots.\<close>

definition process_spares :: "path \<Rightarrow> process \<Rightarrow> bool" where
  "process_spares d proc \<longleftrightarrow> (\<forall>args fs. spares d fs (fst (proc args fs)))"

definition good_plugin :: "file_system \<Rightarrow> path \<Rightarrow> bool" where
  "good_plugin fs p \<longleftrightarrow> (\<exists>c. dget fs p = Some c \<and> 100 \<le> length c \<and> take 4 c = ''TES4'')"

lemma run_pipeline_files: "run_pipeline show cfg proc ids extra fs = (fs', r) \<Longrightarrow> fs' = fst (proc (build_cli_args show cfg ids extra) fs)"
  by (auto simp: run_pipeline_def Let_def split: prod.splits process_end.splits)

lemma synthesis_body_gives:
  assumes "synthesis_body env cfg proc io ids v = (v', tx, Inr res)"
  shows "synth_success res \<and> (case output_esp res of None \<Rightarrow> True | Some p \<Rightarrow> good_plugin (sw_files v') p)"
  using assms by (auto simp: synthesis_body_def good_plugin_def validate_synthesis_esp_def split: prod.splits sum.splits if_splits option.splits)

lemma synthesis_body_opens:
  assumes "synthesis_body env cfg proc io ids v = (v', tx, y)" "journal_ok (sw_journal v)" "begin_fault env = None"
  shows "tx = Some (Suc (last_tx (sw_journal v))) \<and> tx_status_of v' (Suc (last_tx (sw_journal v))) = Some TX_PENDING"
proof -
  obtain v1 n where b: "try_begin env ''synthesis_pipeline'' v = (v1, Inr n)" using try_begin_calm[OF assms(3)] by blast
  note row = try_begin_row[OF assms(2) b]
  obtain fs r where r: "run_pipeline (show_path env) cfg proc ids None (sw_files v1) = (fs, r)" by fastforce
  have v': "v' = v1\<lparr>sw_files := fs\<rparr>" "tx = Some n" using assms(1) b r by (auto simp: synthesis_body_def)
  have "tx_status_of v' n = tx_status_of v1 n" by (rule tx_status_same) (simp add: v'(1))
  then show ?thesis using row v' by auto
qed

lemma synthesis_body_frame:
  assumes "synthesis_body env cfg proc io ids v = (v', tx, y)"
  shows "sw_locks v' = sw_locks v" "process_spares d proc \<Longrightarrow> spares d (sw_files v) (sw_files v')"
proof -
  have "sw_locks v' = sw_locks v \<and> (sw_files v' = sw_files v \<or> (\<exists>args. sw_files v' = fst (proc args (sw_files v))))"
  proof (cases "try_begin env ''synthesis_pipeline'' v")
    case (Pair v1 x)
    note same = try_begin_frame[OF Pair]
    obtain fs r where r: "run_pipeline (show_path env) cfg proc ids None (sw_files v1) = (fs, r)" by fastforce
    have "v' = v1 \<or> v' = v1\<lparr>sw_files := fs\<rparr>" using assms Pair r by (cases x) (auto simp: synthesis_body_def)
    then show ?thesis using same run_pipeline_files[OF r] by auto
  qed
  then show "sw_locks v' = sw_locks v" "process_spares d proc \<Longrightarrow> spares d (sw_files v) (sw_files v')"
    by (auto simp: process_spares_def spares_def)
qed

text \<open>The handlers close the transaction and change neither files nor locks.\<close>

lemma unexpected_frame:
  assumes "unexpected_in_synthesis env rolled tx e w = (w', z)"
  shows "sw_files w' = sw_files w \<and> sw_locks w' = sw_locks w \<and> sw_events w' = sw_events w" "tx = None \<Longrightarrow> w' = w"
  using assms try_mark_frame
  by (auto simp: unexpected_in_synthesis_def Let_def split: tool_exception.splits option.splits prod.splits sum.splits)

lemma settle_frame:
  assumes "settle_synthesis env target files (w, tx, entered, r) = (w', z)"
  shows "sw_files w' = sw_files w \<and> sw_locks w' = sw_locks w \<and> sw_events w' = sw_events w"
proof (cases tx)
  case None
  then show ?thesis using assms unexpected_frame
    by (auto simp: settle_synthesis_def Let_def split: sum.splits locked_failure.splits tool_exception.splits)
next
  case (Some n)
  obtain w1 c where c: "try_commit env n w = (w1, c)" by fastforce
  obtain w2 d where d: "try_mark env n w = (w2, d)" by fastforce
  have "sw_files w' = sw_files w1 \<and> sw_locks w' = sw_locks w1 \<and> sw_events w' = sw_events w1
      \<or> sw_files w' = sw_files w2 \<and> sw_locks w' = sw_locks w2 \<and> sw_events w' = sw_events w2
      \<or> sw_files w' = sw_files w \<and> sw_locks w' = sw_locks w \<and> sw_events w' = sw_events w"
    using assms Some c d unexpected_frame(1)
    by (cases r) (auto simp: settle_synthesis_def Let_def split: sum.splits locked_failure.splits tool_exception.splits)
  then show ?thesis using try_commit_frame[OF c] try_mark_frame[OF d] by auto
qed

lemma settle_closes:
  assumes "settle_synthesis env target files (w, Some n, True, r) = (w', Inr (res, rolled))" "tx_status_of w n = Some TX_PENDING" "calm_journal env"
    and "\<forall>x. r = Inr x \<longrightarrow> synth_success x" "\<forall>m. r \<noteq> Inl (Lock_Refused m)"
  shows "tx_status_of w' n = Some (if synth_success res then TX_COMMITTED else TX_ROLLED_BACK)
    \<and> (synth_success res \<longrightarrow> r = Inr res) \<and> (\<not> synth_success res \<longrightarrow> isl r)"
proof (cases r)
  case (Inr x)
  obtain w1 c where c: "try_commit env n w = (w1, c)" by fastforce
  note row = try_commit_row[OF assms(2) c]
  have "c = Inr ()" using row assms(3) by (auto simp: calm_journal_def)
  then show ?thesis using assms(1,4) Inr c row by (auto simp: settle_synthesis_def)
next
  case (Inl f)
  obtain e where f: "f = Body_Raised e" using Inl assms(5) by (cases f) auto
  obtain w1 c where c: "try_mark env n w = (w1, c)" by fastforce
  note row = try_mark_row[OF assms(2) c]
  have "c = Inr ()" using row assms(3) by (auto simp: calm_journal_def)
  then show ?thesis using assms(1) Inl f c row
    by (cases e) (auto simp: settle_synthesis_def unexpected_in_synthesis_def synthesis_failure_def Let_def)
qed

text \<open>Nothing but a cancellation of the body gets past the handlers, and they do not touch its row.\<close>

lemma settle_escapes:
  assumes "settle_synthesis env target files (w, Some n, True, r) = (w', Inl x)" "tx_status_of w n = Some TX_PENDING" "calm_journal env"
    and "\<forall>m. r \<noteq> Inl (Lock_Refused m)"
  shows "x = Cancellation \<and> isl r \<and> tx_status_of w' n = Some TX_PENDING"
proof (cases r)
  case (Inr y)
  obtain w1 c where c: "try_commit env n w = (w1, c)" by fastforce
  have "c = Inr ()" using try_commit_row[OF assms(2) c] assms(3) by (auto simp: calm_journal_def)
  then show ?thesis using assms(1) Inr c by (auto simp: settle_synthesis_def)
next
  case (Inl f)
  obtain e where f: "f = Body_Raised e" using Inl assms(4) by (cases f) auto
  obtain w1 c where c: "try_mark env n w = (w1, c)" by fastforce
  have "c = Inr ()" using try_mark_row[OF assms(2) c] assms(3) by (auto simp: calm_journal_def)
  then show ?thesis using assms(1,2) Inl f c
    by (cases e) (auto simp: settle_synthesis_def unexpected_in_synthesis_def Let_def)
qed

type_synonym synthesis_call = "synthesis_config \<times> process \<times> bool \<times> string list \<times> path \<times> path list"

definition called_body :: "service_env \<Rightarrow> synthesis_call \<Rightarrow> service_world \<Rightarrow> service_world \<times> nat option \<times> (tool_exception + synthesis_result)" where
  "called_body env c = (case c of (cfg, proc, io, ids, target, files) \<Rightarrow> synthesis_body env cfg proc io ids)"

definition called_settle :: "service_env \<Rightarrow> synthesis_call \<Rightarrow> service_world \<times> nat option \<times> bool \<times> (locked_failure + synthesis_result) \<Rightarrow>
    service_world \<times> (tool_exception + synthesis_result \<times> bool)" where
  "called_settle env c = (case c of (cfg, proc, io, ids, target, files) \<Rightarrow> settle_synthesis env target files)"

definition call_spares :: "synthesis_call \<Rightarrow> path \<Rightarrow> bool" where
  "call_spares c d = (case c of (cfg, proc, io, ids, target, files) \<Rightarrow> process_spares d proc)"

interpretation synthesis: locked_service called_body called_settle call_spares "\<lambda>(res, rolled). synth_success res" "\<lambda>y (res, rolled). res = y"
proof (unfold_locales, goal_cases)
  case (1 env c v v' tx y)
  then show ?case using synthesis_body_opens by (cases c) (simp add: called_body_def)
next
  case (2 env c v v' tx y)
  then show ?case using synthesis_body_frame(1) by (cases c) (simp add: called_body_def)
next
  case (3 env c v v' tx y d)
  then show ?case using synthesis_body_frame(2) by (cases c) (simp add: called_body_def call_spares_def)
next
  case (4 env c v tx entered r v' z)
  then show ?case using settle_frame by (cases c) (simp add: called_settle_def)
next
  case (5 env c v f v' z)
  then show ?case
    by (cases c) (auto simp: called_settle_def settle_synthesis_def Let_def split: locked_failure.splits tool_exception.splits
        dest!: unexpected_frame(2)[OF _ refl])
next
  case (6 env c v n r v' a)
  have ok: "\<forall>x. r = Inr x \<longrightarrow> synth_success x" using 6(5) synthesis_body_gives by (cases c) (fastforce simp: called_body_def)
  obtain res rolled where a: "a = (res, rolled)" by fastforce
  from 6(1) show ?case unfolding a using settle_closes[OF _ 6(2,3) ok 6(4)] by (cases c) (auto simp: called_settle_def)
next
  case (7 env c v n r v' e)
  then show ?case using settle_escapes[of env _ _ v n r v' e] by (cases c) (simp add: called_settle_def)
qed


text \<open>A run that times out after it has spoilt the plugin.\<close>

definition demo_service :: service_env where
  "demo_service = \<lparr>digest = id, date_of = (\<lambda>_. Some 0), read_json = (\<lambda>_. None), show_path = join ''/'', lock_settings = default_lock_config,
     snapshots_in = demo_store, attempts = calm 0, snap_events = (\<lambda>_. Snap demo_env), restore_faults = (\<lambda>_. No_Io_Fault),
     release_fails = False, meanwhile = id, begin_fault = None, commit_fault = None, mark_fault = None, now_db = int, clock_ms = int,
     bus_running = (\<lambda>_. True)\<rparr>"

definition demo_synthesis :: synthesis_config where
  "demo_synthesis = \<lparr>game_path = [''game''], mo2_path = [''mo2''], output_path = [''mods''], synthesis_exe = [''exe''], timeout_seconds = 3\<rparr>"

definition demo_world :: service_world where
  "demo_world = \<lparr>sw_locks = [], sw_files = [([''mods'', ''Synthesis.esp''], ''old'')], sw_journal = new_journal, sw_events = []\<rparr>"

definition spoiling :: process where
  "spoiling args fs = (dset [''mods'', ''Synthesis.esp''] ''half'' fs, Timed_Out)"

lemma demo_synthesis_run:
  "case execute_synthesis demo_service (\<lambda>_. []) demo_synthesis spoiling False [''a''] True demo_world of
     (w', Returned res) \<Rightarrow> \<not> synth_success res \<and> last_tx (sw_journal w') = 1 | _ \<Rightarrow> False"
  by code_simp

lemma demo_service_ok:
  "calm_journal demo_service" "keeps_lease demo_service r a" "\<not> release_fails demo_service" "restore_faults demo_service = (\<lambda>_. No_Io_Fault)"
  "snapshots_in demo_service = demo_store"
  by (simp_all add: demo_service_def calm_journal_def keeps_lease_def)

lemma demo_room: "room_for demo_service [''mods'', s] [([''mods'', s], ''old'')]"
  by (auto simp: room_for_def demo_service_def demo_store_def copied_def snapshot_file_def meta_file_def add_suffix_def tree_size_def inside_def
    meta_text_def json_quote_def json_escape_def)


end
