(* ===== verification/Xedit_Service.thy ===== *)
theory Xedit_Service
  imports Xedit_Runner Synthesis_Service
begin

text \<open>
  \<open>sky_claw/local/tools/xedit_service.py\<close>: a patch under the lock of its plugin.  The body asks the orchestrator
  for a result, and when that names an output makes a plan of its own and has it executed; an exception, or a result
  that failed, restores the plugin.  The program is an argument, as in the runner.
\<close>

record xedit_outcome =
  xo_success :: bool
  xo_output :: "string option"
  xo_records :: nat
  xo_resolved :: nat
  xo_code :: int
  xo_warnings :: "string list"
  xo_error :: "string option"

record xedit_service =
  cached_xedit :: "xedit_runner option"
  cached_orchestrator :: "strategy list option"

section \<open>Lazy initialisation\<close>

definition ensure_patch_orchestrator :: "(path \<Rightarrow> string) \<Rightarrow> tool_paths \<Rightarrow> xedit_service \<Rightarrow> xedit_service \<times> (string + strategy list)" where
  "ensure_patch_orchestrator show ps svc =
    (case cached_orchestrator svc of
       Some ss \<Rightarrow> (svc, Inr ss)
     | None \<Rightarrow>
        (case (xedit_program ps, skyrim_path ps) of
           (Some exe, Some game) \<Rightarrow>
            if \<not> path_there ps exe then (svc, Inl (''xEdit executable not found: '' @ show exe))
            else (\<lparr>cached_xedit = Some (new_xedit_runner exe game (Some [''.skyclaw_backups'', ''patches'']) 120 (\<lambda>p. None)),
                   cached_orchestrator = Some (new_orchestrator None)\<rparr>, Inr (new_orchestrator None))
         | _ \<Rightarrow> (svc, Inl (''Cannot initialize PatchOrchestrator: XEDIT_PATH and SKYRIM_PATH environment variables must be valid paths''))))"

section \<open>The body\<close>

definition XEDIT_AGENT :: string where
  "XEDIT_AGENT = ''xedit-service''"

definition patch_error_text :: "patch_error \<Rightarrow> string" where
  "patch_error_text e = (case e of Selection_Error m \<Rightarrow> ''Strategy selection error: '' @ m | Generation_Error m \<Rightarrow> ''Script generation error: '' @ m
     | Patching_Error m \<Rightarrow> ''Patching error: '' @ m | Other_Error m \<Rightarrow> m)"

definition resolved_outcome :: "patch_result \<Rightarrow> xedit_outcome" where
  "resolved_outcome r = \<lparr>xo_success = success r, xo_output = patch_result.output_path r, xo_records = records_patched r, xo_resolved = conflicts_resolved r,
     xo_code = xedit_exit_code r, xo_warnings = warnings r, xo_error = map_option patch_error_text (patch_error r)\<rparr>"

text \<open>The plan the service makes: its kind is that of the first strategy registered, its form identifiers are none.\<close>

definition service_kind :: "strategy list \<Rightarrow> patch_kind" where
  "service_kind ss = (case ss of [] \<Rightarrow> Merged_Patch | s # _ \<Rightarrow>
     if strategy_class s = ''ExecuteXEditScript'' then Xedit_Script
     else if strategy_class s = ''ForwardDeclaration'' then Forward_Declaration else Merged_Patch)"

definition service_plan :: "strategy list \<Rightarrow> conflict_report \<Rightarrow> string \<Rightarrow> nat \<Rightarrow> patch_plan" where
  "service_plan ss report out n = \<lparr>plan_kind = service_kind ss, target_plugins = map plugin_a (take 1 (plugin_pairs report)), output_plugin = out,
     plan_form_ids = [], estimated_records = n, requires_hitl = False, script_path = None\<rparr>"

definition executed_outcome :: "conflict_report \<Rightarrow> string \<Rightarrow> script_result \<Rightarrow> xedit_outcome" where
  "executed_outcome report out r = \<lparr>xo_success = (script_code r = 0), xo_output = Some out, xo_records = records_processed r,
     xo_resolved = length (plugin_pairs report), xo_code = script_code r, xo_warnings = script_warnings r,
     xo_error = (if script_code r = 0 then None else Some (script_stderr r))\<rparr>"

definition of_xedit :: "xedit_error \<Rightarrow> tool_exception" where
  "of_xedit e = (if e = Xedit_Cancelled then Cancellation else Foreign (xedit_error_text e))"

text \<open>A result that failed is raised inside the lock; the accent is the letter of the message.\<close>

definition xedit_verdict :: "xedit_outcome \<Rightarrow> tool_exception + xedit_outcome" where
  "xedit_verdict r = (if xo_success r then Inr r
     else Inl (Domain (''xEdit fall'' @ [char_of (243::nat)] @ '' con c'' @ [char_of (243::nat)] @ ''digo '' @ int_str (xo_code r) @ '': ''
       @ (case xo_error r of None \<Rightarrow> ''None'' | Some e \<Rightarrow> e)) None))"

record xedit_job =
  job_runner :: "xedit_runner option"
  job_strategies :: "strategy list"
  job_program :: process
  job_temp :: temp_env
  job_report :: conflict_report

definition xedit_body :: "service_env \<Rightarrow> xedit_job \<Rightarrow> service_world \<Rightarrow> service_world \<times> nat option \<times> (tool_exception + xedit_outcome)" where
  "xedit_body env job w =
    (case try_begin env ''xedit_patch'' w of
       (w1, Inl e) \<Rightarrow> (w1, None, Inl e)
     | (w1, Inr n) \<Rightarrow>
        (case resolve (job_strategies job) (job_report job) of
           Inl e \<Rightarrow> (w1, Some n, Inl (Foreign e))
         | Inr res \<Rightarrow>
            (case (success res, patch_result.output_path res, job_runner job) of
               (True, Some out, Some cfg) \<Rightarrow>
                (case execute_patch (show_path env) cfg (job_program job) (job_temp job) (\<lambda>q. None)
                     (service_plan (job_strategies job) (job_report job) out (records_patched res)) (sw_files w1) of
                   (fs, Inl e) \<Rightarrow> (w1\<lparr>sw_files := fs\<rparr>, Some n, Inl (of_xedit e))
                 | (fs, Inr r) \<Rightarrow> (w1\<lparr>sw_files := fs\<rparr>, Some n, xedit_verdict (executed_outcome (job_report job) out r)))
             | _ \<Rightarrow> (w1, Some n, xedit_verdict (resolved_outcome res)))))"

section \<open>The handlers and the call\<close>

definition failed_patch :: "string \<Rightarrow> xedit_outcome" where
  "failed_patch e = \<lparr>xo_success = False, xo_output = None, xo_records = 0, xo_resolved = 0, xo_code = -1, xo_warnings = [], xo_error = Some e\<rparr>"

text \<open>Each handler gives the result and whether it reports a rollback; only the last one survives a journal that fails.\<close>

definition unexpected_in_xedit ::
  "service_env \<Rightarrow> bool \<Rightarrow> nat option \<Rightarrow> tool_exception \<Rightarrow> service_world \<Rightarrow> service_world \<times> (tool_exception + xedit_outcome \<times> bool)" where
  "unexpected_in_xedit env rolled tx e w =
    (case e of
       Foreign m \<Rightarrow>
        (let done = Inr (failed_patch (''Unexpected error: '' @ m), rolled) in
         case tx of
           None \<Rightarrow> (w, done)
         | Some n \<Rightarrow> (case try_mark env n w of (w', Inl Cancellation) \<Rightarrow> (w', Inl Cancellation) | (w', _) \<Rightarrow> (w', done)))
     | _ \<Rightarrow> (w, Inl e))"

definition settle_xedit ::
  "service_env \<Rightarrow> xedit_job \<Rightarrow> service_world \<times> nat option \<times> bool \<times> (locked_failure + xedit_outcome) \<Rightarrow> service_world \<times> (tool_exception + xedit_outcome \<times> bool)" where
  "settle_xedit env job out =
    (case out of (w, tx, entered, r) \<Rightarrow>
      (case r of
         Inr res \<Rightarrow>
          (case tx of
             None \<Rightarrow> (w, Inr (res, False))
           | Some n \<Rightarrow> (case try_commit env n w of
                (w', Inr _) \<Rightarrow> (w', Inr (res, False))
              | (w', Inl e) \<Rightarrow> unexpected_in_xedit env False tx e w'))
       | Inl (Lock_Refused m) \<Rightarrow> (w, Inr (failed_patch (''Lock contention: '' @ m), False))
       | Inl (Body_Raised (Domain m _)) \<Rightarrow>
          (case tx of
             None \<Rightarrow> (w, Inr (failed_patch m, True))
           | Some n \<Rightarrow> (case try_mark env n w of (w', Inl e) \<Rightarrow> (w', Inl e) | (w', Inr _) \<Rightarrow> (w', Inr (failed_patch m, True))))
       | Inl (Body_Raised e) \<Rightarrow> unexpected_in_xedit env entered tx e w))"

definition xedit_started :: "service_env \<Rightarrow> (nat \<Rightarrow> string) \<Rightarrow> path \<Rightarrow> conflict_report \<Rightarrow> json" where
  "xedit_started env stamp plugin report = JDict [(''target_plugin'', JStr (show_path env plugin)), (''total_conflicts'', JInt (int (total_conflicts report))),
     (''started_at'', JFloat (stamp 0))]"

definition xedit_completed :: "service_env \<Rightarrow> (nat \<Rightarrow> string) \<Rightarrow> path \<Rightarrow> conflict_report \<Rightarrow> xedit_outcome \<Rightarrow> bool \<Rightarrow> json" where
  "xedit_completed env stamp plugin report res rolled =
    JDict [(''target_plugin'', JStr (show_path env plugin)), (''total_conflicts'', JInt (int (total_conflicts report))), (''success'', JBool (xo_success res)),
      (''records_patched'', JInt (int (xo_records res))), (''conflicts_resolved'', JInt (int (xo_resolved res))),
      (''duration_seconds'', JFloat (stamp 1)), (''rolled_back'', JBool rolled), (''completed_at'', JFloat (stamp 2))]"

definition xedit_transaction :: "service_env \<Rightarrow> path \<Rightarrow> conflict_report \<Rightarrow> transaction" where
  "xedit_transaction env plugin report = service_transaction env (last plugin) XEDIT_AGENT [plugin]
     (JDict [(''source'', JStr ''xedit_patch''), (''plugin'', JStr (show_path env plugin)), (''total_conflicts'', JInt (int (total_conflicts report)))])"

definition run_patch_job :: "service_env \<Rightarrow> (nat \<Rightarrow> string) \<Rightarrow> xedit_job \<Rightarrow> path \<Rightarrow> service_world \<Rightarrow> service_world \<times> xedit_outcome service_end" where
  "run_patch_job env stamp job plugin w =
    (case publish_to env 0 ''xedit.patch.started'' XEDIT_AGENT (xedit_started env stamp plugin (job_report job)) w of
       (w1, Inl e) \<Rightarrow> (w1, leaves e)
     | (w1, Inr _) \<Rightarrow>
        (case settle_xedit env job (run_locked env (xedit_transaction env plugin (job_report job)) (xedit_body env job) w1) of
           (w2, Inl e) \<Rightarrow> (w2, leaves e)
         | (w2, Inr (res, rolled)) \<Rightarrow>
            (case publish_to env 1 ''xedit.patch.completed'' XEDIT_AGENT (xedit_completed env stamp plugin (job_report job) res rolled) w2 of
               (w3, Inl e) \<Rightarrow> (w3, leaves e)
             | (w3, Inr _) \<Rightarrow> (w3, Returned res))))"

definition execute_xedit_patch ::
  "service_env \<Rightarrow> (nat \<Rightarrow> string) \<Rightarrow> tool_paths \<Rightarrow> process \<Rightarrow> temp_env \<Rightarrow> conflict_report \<Rightarrow> path \<Rightarrow> xedit_service \<Rightarrow> service_world \<Rightarrow>
   xedit_service \<times> service_world \<times> xedit_outcome service_end" where
  "execute_xedit_patch env stamp ps proc tmp report plugin svc w =
    (case ensure_patch_orchestrator (show_path env) ps svc of
       (svc1, Inl e) \<Rightarrow> (svc1, w, Returned (failed_patch e))
     | (svc1, Inr ss) \<Rightarrow> (svc1, run_patch_job env stamp \<lparr>job_runner = cached_xedit svc1, job_strategies = ss, job_program = proc, job_temp = tmp,
         job_report = report\<rparr> plugin w))"

definition xedit_dict :: "xedit_outcome \<Rightarrow> json" where
  "xedit_dict r = JDict [(''success'', JBool (xo_success r)), (''output_path'', (case xo_output r of None \<Rightarrow> JNull | Some p \<Rightarrow> JStr p)),
     (''records_patched'', JInt (int (xo_records r))), (''conflicts_resolved'', JInt (int (xo_resolved r))), (''xedit_exit_code'', JInt (xo_code r)),
     (''warnings'', JList (map JStr (xo_warnings r))), (''error'', (case xo_error r of None \<Rightarrow> JNull | Some e \<Rightarrow> JStr e))]"

section \<open>What a patch leaves\<close>

definition job_spares :: "xedit_job \<Rightarrow> path \<Rightarrow> bool" where
  "job_spares job d \<longleftrightarrow> process_spares d (job_program job) \<and> (\<forall>cfg n. job_runner job = Some cfg \<longrightarrow> \<not> inside d (xedit_output cfg @ [n]))"

lemma run_xedit_files: "run_xedit show cfg proc args fs = (fs', r) \<Longrightarrow> fs' = fst (proc args fs)"
  by (auto simp: run_xedit_def split: prod.splits process_end.splits)

lemma execute_patch_files:
  assumes "execute_patch show cfg proc tmp stored p fs = (fs', r)"
  shows "fs' = fs \<or> (\<exists>f b. butlast f = xedit_output cfg \<and> f \<noteq> [] \<and> (fs' = dset f b fs \<or> (\<exists>args. fs' = fst (proc args (dset f b fs)))))"
proof (cases "plan_script stored p")
  case (Inl e)
  then show ?thesis using assms by (simp add: execute_patch_def)
next
  case (Inr script)
  obtain z where z: "run_dynamic_script show cfg proc tmp script (target_plugins p) (Some [''-IKnowWhatImDoing'']) (patch_script_name p) fs = (fs', z)"
    using assms Inr by (auto simp: execute_patch_def split: prod.splits sum.splits)
  define f where "f = temp_path cfg (patch_script_name p) (random_part tmp)"
  have f: "butlast f = xedit_output cfg" "f \<noteq> []" by (simp_all add: f_def temp_path_def)
  obtain fs2 q where q: "run_xedit show cfg proc (patch_command show cfg f (target_plugins p)) (dset f (case write_temp tmp script of Temp_Written b \<Rightarrow> b) fs) = (fs2, q)"
    by fastforce
  have "fs' = fs \<or> (\<exists>b. fs' = dset f b fs \<or> fs' = fs2)"
    using z q unfolding run_dynamic_script_def Let_def f_def[symmetric] build_patch_command
    by (auto split: sum.splits temp_end.splits option.splits prod.splits)
  then show ?thesis using f run_xedit_files[OF q] by blast
qed

lemma execute_patch_spares:
  assumes "execute_patch show cfg proc tmp stored p fs = (fs', r)" "process_spares d proc" "\<forall>n. \<not> inside d (xedit_output cfg @ [n])"
  shows "spares d fs fs'"
proof -
  have out: "\<not> inside d f" if "butlast f = xedit_output cfg" "f \<noteq> []" for f
    using assms(3) that by (metis append_butlast_last_id)
  show ?thesis using execute_patch_files[OF assms(1)] assms(2) out by (fastforce simp: spares_def process_spares_def)
qed

lemma xedit_body_opens:
  assumes "xedit_body env job v = (v', tx, y)" "journal_ok (sw_journal v)" "begin_fault env = None"
  shows "tx = Some (Suc (last_tx (sw_journal v))) \<and> tx_status_of v' (Suc (last_tx (sw_journal v))) = Some TX_PENDING"
proof -
  obtain v1 n where b: "try_begin env ''xedit_patch'' v = (v1, Inr n)" using try_begin_calm[OF assms(3)] by blast
  have "\<exists>fs. v' = v1\<lparr>sw_files := fs\<rparr> \<and> tx = Some n"
    using assms(1) b by (auto simp: xedit_body_def split: sum.splits bool.splits option.splits prod.splits)
      (metis service_world.surjective service_world.update_convs(2))+
  then show ?thesis using try_begin_row[OF assms(2) b] tx_status_same[of v' v1 n] by auto
qed

lemma xedit_body_frame:
  assumes "xedit_body env job v = (v', tx, y)"
  shows "sw_locks v' = sw_locks v" "job_spares job d \<Longrightarrow> spares d (sw_files v) (sw_files v')"
proof -
  obtain v1 z where b: "try_begin env ''xedit_patch'' v = (v1, z)" by fastforce
  have "sw_locks v' = sw_locks v1 \<and> (sw_files v' = sw_files v1 \<or> (\<exists>cfg p r. job_runner job = Some cfg \<and>
      execute_patch (show_path env) cfg (job_program job) (job_temp job) (\<lambda>q. None) p (sw_files v1) = (sw_files v', r)))"
    using assms b by (auto simp: xedit_body_def split: sum.splits bool.splits option.splits prod.splits)
  then show "sw_locks v' = sw_locks v" "job_spares job d \<Longrightarrow> spares d (sw_files v) (sw_files v')"
    using try_begin_frame[OF b] execute_patch_spares by (auto simp: job_spares_def) (auto simp: spares_def)
qed

lemma resolve_success_code: "resolve ss r = Inr res \<Longrightarrow> success res \<Longrightarrow> xedit_exit_code res = 0"
  by (auto simp: resolve_def Let_def failed_result_def split: if_splits sum.splits patch_error.splits)

lemma xedit_body_gives:
  assumes "xedit_body env job v = (v', tx, Inr res)"
  shows "xo_success res \<and> xo_code res = 0"
proof -
  have verdict: "xedit_verdict r = Inr res \<Longrightarrow> xo_success res \<and> r = res" for r by (auto simp: xedit_verdict_def split: if_splits)
  show ?thesis using assms resolve_success_code
    by (auto simp: xedit_body_def executed_outcome_def resolved_outcome_def dest!: verdict
        split: sum.splits bool.splits option.splits prod.splits)
qed

lemma unexpected_xedit_frame:
  assumes "unexpected_in_xedit env rolled tx e w = (w', z)"
  shows "sw_files w' = sw_files w \<and> sw_locks w' = sw_locks w \<and> sw_events w' = sw_events w" "tx = None \<Longrightarrow> w' = w"
  using assms try_mark_frame
  by (auto simp: unexpected_in_xedit_def Let_def split: tool_exception.splits option.splits prod.splits sum.splits)

lemma settle_xedit_frame:
  assumes "settle_xedit env job (w, tx, entered, r) = (w', z)"
  shows "sw_files w' = sw_files w \<and> sw_locks w' = sw_locks w \<and> sw_events w' = sw_events w"
proof (cases tx)
  case None
  then show ?thesis using assms unexpected_xedit_frame
    by (auto simp: settle_xedit_def split: sum.splits locked_failure.splits tool_exception.splits)
next
  case (Some n)
  obtain w1 c where c: "try_commit env n w = (w1, c)" by fastforce
  obtain w2 d where d: "try_mark env n w = (w2, d)" by fastforce
  have "sw_files w' = sw_files w1 \<and> sw_locks w' = sw_locks w1 \<and> sw_events w' = sw_events w1
      \<or> sw_files w' = sw_files w2 \<and> sw_locks w' = sw_locks w2 \<and> sw_events w' = sw_events w2
      \<or> sw_files w' = sw_files w \<and> sw_locks w' = sw_locks w \<and> sw_events w' = sw_events w"
    using assms Some c d unexpected_xedit_frame(1)
    by (cases r) (auto simp: settle_xedit_def split: sum.splits locked_failure.splits tool_exception.splits)
  then show ?thesis using try_commit_frame[OF c] try_mark_frame[OF d] by auto
qed

lemma settle_xedit_closes:
  assumes "settle_xedit env job (w, Some n, True, r) = (w', Inr (res, rolled))" "tx_status_of w n = Some TX_PENDING" "calm_journal env"
    and "\<forall>x. r = Inr x \<longrightarrow> xo_success x" "\<forall>m. r \<noteq> Inl (Lock_Refused m)"
  shows "tx_status_of w' n = Some (if xo_success res then TX_COMMITTED else TX_ROLLED_BACK)
    \<and> (xo_success res \<longrightarrow> r = Inr res) \<and> (\<not> xo_success res \<longrightarrow> isl r)"
proof (cases r)
  case (Inr x)
  obtain w1 c where c: "try_commit env n w = (w1, c)" by fastforce
  note row = try_commit_row[OF assms(2) c]
  have "c = Inr ()" using row assms(3) by (auto simp: calm_journal_def)
  then show ?thesis using assms(1,4) Inr c row by (auto simp: settle_xedit_def)
next
  case (Inl f)
  obtain e where f: "f = Body_Raised e" using Inl assms(5) by (cases f) auto
  obtain w1 c where c: "try_mark env n w = (w1, c)" by fastforce
  note row = try_mark_row[OF assms(2) c]
  have "c = Inr ()" using row assms(3) by (auto simp: calm_journal_def)
  then show ?thesis using assms(1) Inl f c row
    by (cases e) (auto simp: settle_xedit_def unexpected_in_xedit_def failed_patch_def Let_def)
qed

lemma settle_xedit_escapes:
  assumes "settle_xedit env job (w, Some n, True, r) = (w', Inl x)" "tx_status_of w n = Some TX_PENDING" "calm_journal env"
    and "\<forall>m. r \<noteq> Inl (Lock_Refused m)"
  shows "x = Cancellation \<and> isl r \<and> tx_status_of w' n = Some TX_PENDING"
proof (cases r)
  case (Inr y)
  obtain w1 c where c: "try_commit env n w = (w1, c)" by fastforce
  have "c = Inr ()" using try_commit_row[OF assms(2) c] assms(3) by (auto simp: calm_journal_def)
  then show ?thesis using assms(1) Inr c by (auto simp: settle_xedit_def)
next
  case (Inl f)
  obtain e where f: "f = Body_Raised e" using Inl assms(4) by (cases f) auto
  obtain w1 c where c: "try_mark env n w = (w1, c)" by fastforce
  have "c = Inr ()" using try_mark_row[OF assms(2) c] assms(3) by (auto simp: calm_journal_def)
  then show ?thesis using assms(1,2) Inl f c
    by (cases e) (auto simp: settle_xedit_def unexpected_in_xedit_def Let_def)
qed

interpretation xedit: locked_service xedit_body settle_xedit job_spares "\<lambda>(res, rolled). xo_success res" "\<lambda>y (res, rolled). res = y"
proof (unfold_locales, goal_cases)
  case (1 env c v v' tx y)
  then show ?case by (rule xedit_body_opens)
next
  case (2 env c v v' tx y)
  then show ?case by (rule xedit_body_frame(1))
next
  case (3 env c v v' tx y d)
  then show ?case by (rule xedit_body_frame(2))
next
  case (4 env c v tx entered r v' z)
  then show ?case by (rule settle_xedit_frame)
next
  case (5 env c v f v' z)
  then show ?case
    by (auto simp: settle_xedit_def split: locked_failure.splits tool_exception.splits dest!: unexpected_xedit_frame(2)[OF _ refl])
next
  case (6 env c v n r v' a)
  have ok: "\<forall>x. r = Inr x \<longrightarrow> xo_success x" using 6(5) xedit_body_gives by blast
  obtain res rolled where a: "a = (res, rolled)" by fastforce
  from 6(1) show ?case unfolding a using settle_xedit_closes[OF _ 6(2,3) ok 6(4)] by auto
next
  case (7 env c v n r v' e)
  then show ?case by (rule settle_xedit_escapes)
qed



text \<open>
  With the strategies the service starts with, its plan is always that of the generic script, which marks every
  record and changes none: which strategy \<open>resolve\<close> chose, and for which records, does not reach the program.
\<close>

lemma default_strategies_first: "\<exists>s ss. new_orchestrator None = s # ss \<and> strategy_class s = ''ExecuteXEditScript''"
  by (simp add: new_orchestrator_def by_priority_def default_strategies_def execute_xedit_script_def create_merged_patch_def)

theorem default_patch_is_generic:
  "plan_script (\<lambda>q. None) (service_plan (new_orchestrator None) report out n) =
   (if out = [] then Inl (Xedit_Script_Error ''Script generation failed: output_plugin is required'')
    else Inr (py_format TEMPLATE_APPLY_PATCH [(''output_plugin'', escape_pascal_string out),
      (''record_filter'', ''  shouldProcess := True; // Process all records'')]))"
proof -
  obtain s ss where s: "new_orchestrator None = s # ss" "strategy_class s = ''ExecuteXEditScript''" using default_strategies_first by blast
  have "service_kind (new_orchestrator None) = Xedit_Script" by (simp add: s service_kind_def)
  then show ?thesis
    by (simp add: plan_script_def service_plan_def generate_script_from_plan_def generate_patch_script_def record_filter_def xedit_error_text_def Let_def)
qed

text \<open>A strategy for which the service's plan has no form identifier: no script is generated, and the patch fails.\<close>

definition demo_job :: xedit_job where
  "demo_job = \<lparr>job_runner = Some (new_xedit_runner [''exe''] [''game''] (Some [''out'']) 120 (\<lambda>p. None)),
     job_strategies = [create_merged_patch\<lparr>strategy_class := ''ForwardDeclaration''\<rparr>],
     job_program = spoiling, job_temp = \<lparr>random_part = ''k3'', write_temp = Temp_Written\<rparr>,
     job_report = build_report [] [] [demo_conflict ''LVLI'' ''B.esp'' [''A.esp'']]\<rparr>"

lemma demo_patch_run:
  "case run_patch_job demo_service (\<lambda>_. []) demo_job [''mods'', ''Synthesis.esp''] demo_world of
     (w', Returned res) \<Rightarrow> \<not> xo_success res \<and> last_tx (sw_journal w') = 1 | _ \<Rightarrow> False"
  by code_simp


end
