(* ===== verification/Dyndolod_Runner.thy ===== *)
theory Dyndolod_Runner
  imports Synthesis_Runner
begin

text \<open>
  \<open>sky_claw/local/tools/dyndolod_runner.py\<close>: TexGen and DynDOLOD, the directories they leave and their packaging
  as mods of Mod Organizer.  A process is an argument, as in \<open>Synthesis_Runner\<close>; durations are left out.  A
  directory exists while a file lies under it, so the branch of an empty one never arises.
\<close>

record dyndolod_config =
  dyn_game :: path
  dyn_mo2 :: path
  dyn_mods :: path
  dyn_exe :: path
  texgen_exe :: "path option"
  dyn_timeout :: nat
  dyn_cwd :: path

record tool_result =
  tool_ok :: bool
  tool_title :: string
  tool_code :: int
  tool_stdout :: string
  tool_stderr :: string
  tool_output :: "path option"
  tool_errors :: "string list"
  tool_warnings :: "string list"

record lod_result =
  lod_success :: bool
  texgen_result :: "tool_result option"
  dyndolod_result :: "tool_result option"
  texgen_mod :: "path option"
  dyndolod_mod :: "path option"
  lod_errors :: "string list"

text \<open>
  The \<open>DynDOLODExecutionError\<close> with its return code and stderr, another exception, a cancellation.
\<close>

datatype dyn_exception = Dyn_Error string "int option" "string option" | Dyn_Foreign string | Dyn_Cancellation

text \<open>How a process ends: the start can fail, and so can the wait, the process killed then.\<close>

datatype dyn_end =
    Dyn_Exited string string "int option"
  | Dyn_Missing
  | Start_Os_Error string
  | Start_Runtime_Error string
  | Wait_Error string "int option"
  | Dyn_Timeout
  | Dyn_Cancelled

type_synonym dyn_process = "path \<Rightarrow> string list \<Rightarrow> file_system \<Rightarrow> file_system \<times> dyn_end"

section \<open>One tool\<close>

definition game_flag :: "(path \<Rightarrow> string) \<Rightarrow> dyndolod_config \<Rightarrow> string" where
  "game_flag show cfg = (if sublist ''VR'' (show (dyn_game cfg)) then ''TES5VR'' else ''SSE'')"

definition extra_args :: "string list option \<Rightarrow> string list" where
  "extra_args extra = (case extra of None \<Rightarrow> [] | Some xs \<Rightarrow> xs)"

definition build_texgen_args :: "(path \<Rightarrow> string) \<Rightarrow> dyndolod_config \<Rightarrow> string list option \<Rightarrow> string list" where
  "build_texgen_args show cfg extra = [''-game'', game_flag show cfg, ''-t''] @ extra_args extra"

definition build_dyndolod_args :: "(path \<Rightarrow> string) \<Rightarrow> dyndolod_config \<Rightarrow> string \<Rightarrow> string list option \<Rightarrow> string list" where
  "build_dyndolod_args show cfg preset extra =
    [''-game'', game_flag show cfg, ''-p'', preset, ''-t'', ''--expert''] @ extra_args extra"

definition dyn_error_match :: "string \<Rightarrow> (string \<times> string) option" where
  "dyn_error_match = message_match [''error:'', ''fail:'', ''exception:'', ''critical:'', ''fatal:'']"

definition dyn_warning_match :: "string \<Rightarrow> (string \<times> string) option" where
  "dyn_warning_match = message_match [''warning:'', ''warn:'']"

definition parse_lod_output :: "string \<Rightarrow> string \<Rightarrow> string list \<times> string list" where
  "parse_lod_output out err =
    (let text = out @ [char_of (10::nat)] @ err in (messages dyn_error_match text, messages dyn_warning_match text))"

text \<open>\<open>_execute_process\<close>; a \<open>RuntimeError\<close> of the start passes through it.\<close>

definition execute_process ::
  "(path \<Rightarrow> string) \<Rightarrow> dyndolod_config \<Rightarrow> dyn_process \<Rightarrow> string \<Rightarrow> path \<Rightarrow> string list \<Rightarrow> file_system \<Rightarrow>
   file_system \<times> (dyn_exception + (string + string \<times> string \<times> int))" where
  "execute_process show cfg proc name exe args fs =
    (case proc exe args fs of
       (fs', Dyn_Missing) \<Rightarrow> (fs', Inl (Dyn_Error (''Executable not found: '' @ show exe) None None))
     | (fs', Start_Os_Error e) \<Rightarrow> (fs', Inl (Dyn_Error (''Failed to start '' @ name @ '': '' @ e) None (Some e)))
     | (fs', Start_Runtime_Error e) \<Rightarrow> (fs', Inr (Inl e))
     | (fs', Wait_Error e rc) \<Rightarrow> (fs', Inl (Dyn_Error (''Unexpected error during '' @ name @ '' execution: '' @ e) rc (Some e)))
     | (fs', Dyn_Timeout) \<Rightarrow>
        (fs', Inl (Dyn_Error (name @ '' execution timed out after '' @ nat_str (dyn_timeout cfg) @ '' seconds'') None None))
     | (fs', Dyn_Cancelled) \<Rightarrow> (fs', Inl Dyn_Cancellation)
     | (fs', Dyn_Exited out err rc) \<Rightarrow> (fs', Inr (Inr (out, err, case rc of None \<Rightarrow> -1 | Some n \<Rightarrow> n))))"

text \<open>The first of the places that is a directory; \<open>iterdir\<close> of a file raises.\<close>

fun first_directory :: "path list \<Rightarrow> file_system \<Rightarrow> dyn_exception + path option" where
  "first_directory [] fs = Inr None"
| "first_directory (p # ps) fs =
    (if is_directory fs p then Inr (Some p)
     else if dget fs p \<noteq> None then Inl (Dyn_Foreign ''NotADirectoryError'')
     else first_directory ps fs)"

definition find_output :: "dyndolod_config \<Rightarrow> string \<Rightarrow> file_system \<Rightarrow> dyn_exception + path option" where
  "find_output cfg name fs = first_directory [dyn_mo2 cfg @ [name], butlast (dyn_exe cfg) @ [name], dyn_cwd cfg @ [name]] fs"

definition no_result :: "string \<Rightarrow> int \<Rightarrow> string \<Rightarrow> string list \<Rightarrow> tool_result" where
  "no_result name rc err es = \<lparr>tool_ok = False, tool_title = name, tool_code = rc, tool_stdout = [], tool_stderr = err, tool_output = None,
     tool_errors = es, tool_warnings = []\<rparr>"

definition run_tool ::
  "(path \<Rightarrow> string) \<Rightarrow> dyndolod_config \<Rightarrow> dyn_process \<Rightarrow> string \<Rightarrow> path \<Rightarrow> string list \<Rightarrow> string \<Rightarrow> file_system \<Rightarrow>
   file_system \<times> (dyn_exception + tool_result)" where
  "run_tool show cfg proc name exe args out_name fs =
    (case execute_process show cfg proc name exe args fs of
       (fs', Inl e) \<Rightarrow> (fs', Inl e)
     | (fs', Inr (Inl e)) \<Rightarrow> (fs', Inr (no_result name (-1) e [e]))
     | (fs', Inr (Inr (out, err, rc))) \<Rightarrow>
        (case parse_lod_output out err of (errors, warnings) \<Rightarrow>
          (case find_output cfg out_name fs' of
             Inl e \<Rightarrow> (fs', Inl e)
           | Inr place \<Rightarrow> (fs', Inr \<lparr>tool_ok = (rc = 0 \<and> errors = []), tool_title = name, tool_code = rc, tool_stdout = out,
               tool_stderr = err, tool_output = place, tool_errors = errors, tool_warnings = warnings\<rparr>))))"

definition run_texgen ::
  "(path \<Rightarrow> string) \<Rightarrow> dyndolod_config \<Rightarrow> dyn_process \<Rightarrow> string list option \<Rightarrow> file_system \<Rightarrow> file_system \<times> (dyn_exception + tool_result)" where
  "run_texgen show cfg proc extra fs =
    (case texgen_exe cfg of
       None \<Rightarrow> (fs, Inr (no_result ''TexGen'' (-1) ''TexGen executable not configured'' [''TexGen executable path not provided in configuration'']))
     | Some exe \<Rightarrow> run_tool show cfg proc ''TexGen'' exe (build_texgen_args show cfg extra) ''TexGen_Output'' fs)"

definition run_dyndolod ::
  "(path \<Rightarrow> string) \<Rightarrow> dyndolod_config \<Rightarrow> dyn_process \<Rightarrow> string \<Rightarrow> string list option \<Rightarrow> file_system \<Rightarrow>
   file_system \<times> (dyn_exception + tool_result)" where
  "run_dyndolod show cfg proc preset extra fs =
    run_tool show cfg proc ''DynDOLOD'' (dyn_exe cfg) (build_dyndolod_args show cfg preset extra) ''DynDOLOD_Output'' fs"

section \<open>Packaging\<close>

text \<open>
  An \<open>OSError\<close> in the middle of the packaging leaves some file system; \<open>allowed\<close> is the path validator's
  word on the meta file, whose refusal is no \<open>OSError\<close>.
\<close>

datatype pack_fault = Pack_Fine | Pack_Permission file_system string | Pack_Os_Error file_system string

definition meta_ini :: "string \<Rightarrow> string" where
  "meta_ini name =
    (let nl = [char_of (10::nat)] in
     ''[General]'' @ nl @ ''modid = 0'' @ nl @ ''version = 1.0.0'' @ nl @ ''name = '' @ name @ nl
       @ ''comments = Generated by Sky Claw'' @ nl @ nl)"

definition copy_under :: "path \<Rightarrow> path \<Rightarrow> file_system \<Rightarrow> file_system" where
  "copy_under src dst fs = foldl (\<lambda>h (p, c). dset (dst @ drop (length src) p) c h) fs (filter (\<lambda>(p, c). inside src p) fs)"

definition package_output_as_mod ::
  "(path \<Rightarrow> string) \<Rightarrow> dyndolod_config \<Rightarrow> pack_fault \<Rightarrow> bool \<Rightarrow> path \<Rightarrow> string \<Rightarrow> file_system \<Rightarrow> file_system \<times> (dyn_exception + path)" where
  "package_output_as_mod show cfg fault allowed out name fs =
    (let target = dyn_mods cfg @ [name] in
     if \<not> is_directory fs out
     then (fs, Inl (Dyn_Error (if dget fs out = None then ''Output directory does not exist: '' @ show out
                               else ''Failed to package mod: NotADirectoryError'') None None))
     else (case fault of
        Pack_Permission fs' e \<Rightarrow> (fs', Inl (Dyn_Error (''Permission denied creating mod: '' @ e) None None))
      | Pack_Os_Error fs' e \<Rightarrow> (fs', Inl (Dyn_Error (''Failed to package mod: '' @ e) None None))
      | Pack_Fine \<Rightarrow>
         if dget fs target \<noteq> None then (fs, Inl (Dyn_Error ''Failed to package mod: NotADirectoryError'' None None))
         else (let fs1 = copy_under out target (rmtree target fs) in
           if \<not> allowed then (fs1, Inl (Dyn_Foreign ''PathViolationError''))
           else (dset (target @ [''meta.ini'']) (meta_ini name) fs1, Inr target))))"

section \<open>The pipeline\<close>

text \<open>
  A tool and its packaging: the result of the tool, the mod and the errors, or an exception that is no
  \<open>DynDOLODExecutionError\<close>.  The message of a failed execution names the tool.
\<close>

definition pack_result ::
  "(path \<Rightarrow> string) \<Rightarrow> dyndolod_config \<Rightarrow> pack_fault \<Rightarrow> bool \<Rightarrow> string \<Rightarrow> string \<Rightarrow> file_system \<times> (dyn_exception + tool_result) \<Rightarrow>
   file_system \<times> (dyn_exception + tool_result \<times> path option \<times> string list)" where
  "pack_result show cfg fault allowed name mod_title run =
    (case run of
       (fs, Inl (Dyn_Error m rc err)) \<Rightarrow>
        (fs, Inr (no_result name (case rc of None \<Rightarrow> -1 | Some n \<Rightarrow> if n = 0 then -1 else n) (case err of None \<Rightarrow> [] | Some e \<Rightarrow> e) [m],
           None, [name @ '' execution failed: '' @ m]))
     | (fs, Inl e) \<Rightarrow> (fs, Inl e)
     | (fs, Inr res) \<Rightarrow>
        if \<not> tool_ok res then (fs, Inr (res, None, tool_errors res))
        else (case tool_output res of
           None \<Rightarrow> (fs, Inr (res, None, []))
         | Some out \<Rightarrow>
            (case package_output_as_mod show cfg fault allowed out mod_title fs of
               (fs', Inr p) \<Rightarrow> (fs', Inr (res, Some p, []))
             | (fs', Inl (Dyn_Error m _ _)) \<Rightarrow> (fs', Inr (res, None, [''Failed to package '' @ name @ '' output: '' @ m]))
             | (fs', Inl e) \<Rightarrow> (fs', Inl e))))"

definition run_full_pipeline ::
  "(path \<Rightarrow> string) \<Rightarrow> dyndolod_config \<Rightarrow> dyn_process \<Rightarrow> (nat \<Rightarrow> pack_fault) \<Rightarrow> (nat \<Rightarrow> bool) \<Rightarrow> bool \<Rightarrow> string \<Rightarrow>
   string list option \<Rightarrow> string list option \<Rightarrow> file_system \<Rightarrow> file_system \<times> (dyn_exception + lod_result)" where
  "run_full_pipeline show cfg proc faults allowed texgen preset texgen_args dyndolod_args fs =
    (case (if texgen then
             (case pack_result show cfg (faults 0) (allowed 0) ''TexGen'' ''TexGen Output'' (run_texgen show cfg proc texgen_args fs) of
                (fs1, Inl e) \<Rightarrow> (fs1, Inl e)
              | (fs1, Inr (res, p, es)) \<Rightarrow> (fs1, Inr (Some res, p, es)))
           else (fs, Inr (None, None, []))) of
       (fs1, Inl e) \<Rightarrow> (fs1, Inl e)
     | (fs1, Inr (tex, tex_mod, es)) \<Rightarrow>
        (case pack_result show cfg (faults 1) (allowed 1) ''DynDOLOD'' ''DynDOLOD Output'' (run_dyndolod show cfg proc preset dyndolod_args fs1) of
           (fs2, Inl e) \<Rightarrow> (fs2, Inl e)
         | (fs2, Inr (dyn, dyn_mod, es')) \<Rightarrow>
            (fs2, Inr \<lparr>lod_success = (tool_ok dyn \<and> dyn_mod \<noteq> None
                \<and> (\<not> texgen \<or> (case tex of None \<Rightarrow> False | Some t \<Rightarrow> tool_ok t))),
              texgen_result = tex, dyndolod_result = Some dyn, texgen_mod = tex_mod, dyndolod_mod = dyn_mod, lod_errors = es @ es'\<rparr>)))"

text \<open>\<open>validate_dyndolod_output\<close>: the directory holds some plugin.\<close>

definition validate_dyndolod_output :: "bool \<Rightarrow> file_system \<Rightarrow> path \<Rightarrow> bool" where
  "validate_dyndolod_output io_error fs out \<longleftrightarrow> \<not> io_error \<and> is_directory fs out \<and> glob_suffix out ''.esp'' fs \<noteq> []"

section \<open>What is packaged\<close>

lemma foldl_dset_dget:
  "dget (foldl (\<lambda>h (p, c). dset (f p) c h) fs xs) q = (case map_of (rev (map (\<lambda>(p, c). (f p, c)) xs)) q of None \<Rightarrow> dget fs q | Some c \<Rightarrow> Some c)"
  by (induction xs rule: rev_induct) (auto split: option.splits)

lemma copy_under_dget:
  assumes "distinct (keys fs)"
  shows "dget (copy_under src dst fs) (dst @ q) = (if q \<noteq> [] \<and> dget fs (src @ q) \<noteq> None then dget fs (src @ q) else dget fs (dst @ q))"
proof -
  let ?xs = "map (\<lambda>(p, c). (dst @ drop (length src) p, c)) (filter (\<lambda>(p, c). inside src p) fs)"
  have f: "dget (copy_under src dst fs) q = (case map_of (rev ?xs) q of None \<Rightarrow> dget fs q | Some c \<Rightarrow> Some c)" for q
    unfolding copy_under_def by (rule foldl_dset_dget)
  have mem: "(dst @ q, c) \<in> set ?xs \<longleftrightarrow> q \<noteq> [] \<and> dget fs (src @ q) = Some c" for q c
  proof
    assume "(dst @ q, c) \<in> set ?xs"
    then obtain p where p: "(p, c) \<in> set fs" "inside src p" "q = drop (length src) p" by auto
    then have "p = src @ q" "q \<noteq> []" by (auto simp: inside_iff)
    then show "q \<noteq> [] \<and> dget fs (src @ q) = Some c" using p(1) in_set_dget[OF assms] by blast
  next
    assume r: "q \<noteq> [] \<and> dget fs (src @ q) = Some c"
    then have "(src @ q, c) \<in> set (filter (\<lambda>(p, c). inside src p) fs)" using dget_in_set by (fastforce simp: inside_iff)
    then show "(dst @ q, c) \<in> set ?xs" by force
  qed
  show "dget (copy_under src dst fs) (dst @ q) = (if q \<noteq> [] \<and> dget fs (src @ q) \<noteq> None then dget fs (src @ q) else dget fs (dst @ q))"
  proof (cases "map_of (rev ?xs) (dst @ q)")
    case None
    then have "(dst @ q, c) \<notin> set ?xs" for c by (metis map_of_eq_None_iff set_rev image_eqI fst_conv)
    then show ?thesis using None f[of "dst @ q"] mem by auto
  next
    case (Some c)
    then have "(dst @ q, c) \<in> set ?xs" using map_of_SomeD by fastforce
    then show ?thesis using Some f[of "dst @ q"] mem by auto
  qed
qed

lemma copy_under_outside: "\<not> inside dst p \<Longrightarrow> dget (copy_under src dst fs) p = dget fs p"
proof -
  assume p: "\<not> inside dst p"
  have f: "foldl (\<lambda>h (p, c). dset (dst @ drop (length src) p) c h) fs xs = h \<Longrightarrow> \<forall>x \<in> set xs. inside src (fst x) \<Longrightarrow> dget h p = dget fs p" for xs h fs
  proof (induction xs arbitrary: fs)
    case (Cons x xs)
    obtain q where "q \<noteq> []" "fst x = src @ q" using Cons.prems(2) by (auto simp: inside_iff)
    then have "dst @ drop (length src) (fst x) \<noteq> p" using p by (auto simp: inside_iff)
    then show ?case using Cons by (cases x) auto
  qed simp
  show ?thesis unfolding copy_under_def by (rule f[OF refl]) auto
qed

text \<open>
  A packaged mod holds what the tool wrote and the meta file, and nothing that was in the mod before; no file
  outside the mod changes.
\<close>

theorem packaged_mod_is_the_output:
  assumes "package_output_as_mod show cfg fault allowed out name fs = (fs', Inr target)" "distinct (keys fs)"
    and "\<not> inside target out" "\<not> inside out target" "out \<noteq> target"
  shows "target = dyn_mods cfg @ [name]
    \<and> (\<forall>q. q \<noteq> [] \<longrightarrow> dget fs' (target @ q) = (if q = [''meta.ini''] then Some (meta_ini name) else dget fs (out @ q)))
    \<and> (\<forall>p. \<not> inside target p \<longrightarrow> dget fs' p = dget fs p)"
proof -
  have t: "target = dyn_mods cfg @ [name]" and fs': "fs' = dset (target @ [''meta.ini'']) (meta_ini name) (copy_under out target (rmtree target fs))"
    using assms(1) by (auto simp: package_output_as_mod_def Let_def split: if_splits pack_fault.splits)
  have d: "distinct (keys (rmtree target fs))" using assms(2) unfolding rmtree_def by (rule distinct_filter_keys)
  have apart: "\<not> inside target (out @ q)" for q
  proof
    assume "inside target (out @ q)"
    then have a: "take (length target) (out @ q) = target" "length target < length out + length q" by (simp_all add: inside_def)
    show False
    proof (cases "length target < length out")
      case True
      then show False using a(1) assms(3) by (simp add: inside_def)
    next
      case False
      then have "take (length out) target = out" using a(1) by (metis append_eq_conv_conj take_append nat_le_linear take_all_iff not_less)
      then show False using False assms(4,5) by (metis inside_def le_neq_implies_less not_less take_all_iff)
    qed
  qed
  have c: "dget (copy_under out target (rmtree target fs)) (target @ q) = dget fs (out @ q)" if q: "q \<noteq> []" for q
  proof -
    have "inside target (target @ q)" using q by (simp add: inside_def)
    then have "dget (rmtree target fs) (target @ q) = None" "dget (rmtree target fs) (out @ q) = dget fs (out @ q)" using apart[of q] by auto
    then show ?thesis using copy_under_dget[OF d, of out target q] q by (metis)
  qed
  have o: "\<not> inside target p \<Longrightarrow> dget (copy_under out target (rmtree target fs)) p = dget fs p" for p
    using copy_under_outside[of target p out] by simp
  have "inside target (target @ [''meta.ini''])" by (simp add: inside_def)
  then show ?thesis using t c o unfolding fs' by auto
qed

text \<open>An output with one mesh replaces a mod that held an old texture.\<close>

definition small_lods :: dyndolod_config where
  "small_lods = \<lparr>dyn_game = [''game''], dyn_mo2 = [''mo2''], dyn_mods = [''mods''], dyn_exe = [''dyn'', ''exe''], texgen_exe = None,
     dyn_timeout = 3, dyn_cwd = [''cwd'']\<rparr>"

definition lod_files :: file_system where
  "lod_files = [([''out'', ''a.nif''], ''new''), ([''mods'', ''T'', ''b.dds''], ''old'')]"

theorem packaged_mod_is_the_output_witness:
  "case package_output_as_mod last small_lods Pack_Fine True [''out''] ''T'' lod_files of
     (fs', _) \<Rightarrow> dget fs' [''mods'', ''T'', ''a.nif''] = Some ''new'' \<and> dget fs' [''mods'', ''T'', ''b.dds''] = None"
proof -
  obtain fs' where p: "package_output_as_mod last small_lods Pack_Fine True [''out''] ''T'' lod_files = (fs', Inr [''mods'', ''T''])"
    by (simp add: package_output_as_mod_def small_lods_def lod_files_def is_directory_def inside_def Let_def)
  have "distinct (keys lod_files)" "\<not> inside [''mods'', ''T''] [''out'']" "\<not> inside [''out''] [''mods'', ''T'']" "[''out''] \<noteq> [''mods'', ''T'']"
    by (simp_all add: lod_files_def inside_def)
  note m = packaged_mod_is_the_output[OF p this]
  have "dget fs' ([''mods'', ''T''] @ q) = (if q = [''meta.ini''] then Some (meta_ini ''T'') else dget lod_files ([''out''] @ q))" if "q \<noteq> []" for q
    using m that by blast
  from this[of "[''a.nif'']"] this[of "[''b.dds'']"] p show ?thesis by (simp add: lod_files_def)
qed

section \<open>What a run leaves alone\<close>

definition dyn_spares :: "path \<Rightarrow> dyn_process \<Rightarrow> bool" where
  "dyn_spares d proc \<longleftrightarrow> (\<forall>exe args fs q. inside d q \<longrightarrow> dget (fst (proc exe args fs)) q = dget fs q)"

lemma execute_process_files: "execute_process show cfg proc name exe args fs = (fs', r) \<Longrightarrow> fs' = fst (proc exe args fs)"
  by (auto simp: execute_process_def split: prod.splits dyn_end.splits)

lemma run_tool_spares: "dyn_spares d proc \<Longrightarrow> inside d q \<Longrightarrow> run_tool show cfg proc name exe args out fs = (fs', r) \<Longrightarrow> dget fs' q = dget fs q"
  by (auto simp: run_tool_def dyn_spares_def split: prod.splits sum.splits dest!: execute_process_files)

lemma package_spares:
  "package_output_as_mod show cfg Pack_Fine allowed out name fs = (fs', r) \<Longrightarrow> \<not> inside (dyn_mods cfg) q \<Longrightarrow> dget fs' q = dget fs q"
proof -
  assume p: "package_output_as_mod show cfg Pack_Fine allowed out name fs = (fs', r)" and q: "\<not> inside (dyn_mods cfg) q"
  have o: "\<not> inside (dyn_mods cfg @ [name]) q" using q inside_snoc by blast
  moreover have "q \<noteq> dyn_mods cfg @ [name, ''meta.ini'']" using q by (auto simp: inside_iff)
  ultimately show ?thesis using p copy_under_outside[OF o] by (auto simp: package_output_as_mod_def Let_def split: if_splits)
qed

lemma pack_result_spares:
  assumes "pack_result show cfg Pack_Fine allowed name title (fs1, r1) = (fs', r)" "dget fs1 q = dget fs q" "\<not> inside (dyn_mods cfg) q"
  shows "dget fs' q = dget fs q"
  using assms package_spares[of "show" cfg allowed _ title fs1 fs' _ q]
  by (auto simp: pack_result_def split: sum.splits dyn_exception.splits if_splits option.splits prod.splits)

lemma run_full_pipeline_spares:
  assumes "run_full_pipeline show cfg proc (\<lambda>_. Pack_Fine) allowed texgen preset ta da fs = (fs', r)" "dyn_spares d proc"
    and "inside d q" "\<not> inside (dyn_mods cfg) q"
  shows "dget fs' q = dget fs q"
proof -
  have tex: "dget fs1 q = dget fs q" if "pack_result show cfg Pack_Fine a n t (run_texgen show cfg proc ta fs) = (fs1, x)" for fs1 x a n t
  proof -
    obtain g y where g: "run_texgen show cfg proc ta fs = (g, y)" by fastforce
    then have "dget g q = dget fs q" using run_tool_spares[OF assms(2,3)] by (auto simp: run_texgen_def split: option.splits)
    then show ?thesis using pack_result_spares that g assms(4) by metis
  qed
  have dyn: "dget fs2 q = dget fs1 q" if "pack_result show cfg Pack_Fine a n t (run_dyndolod show cfg proc preset da fs1) = (fs2, x)" for fs1 fs2 x a n t
  proof -
    obtain g y where g: "run_dyndolod show cfg proc preset da fs1 = (g, y)" by fastforce
    then have "dget g q = dget fs1 q" using run_tool_spares[OF assms(2,3)] by (auto simp: run_dyndolod_def)
    then show ?thesis using pack_result_spares that g assms(4) by metis
  qed
  show ?thesis using assms(1) tex dyn
    by (auto simp: run_full_pipeline_def split: prod.splits sum.splits if_splits; metis)
qed

end
