(* ===== verification/Dyndolod_Service.thy ===== *)
theory Dyndolod_Service
  imports Dyndolod_Runner Synthesis_Service
begin

text \<open>
  \<open>sky_claw/local/tools/dyndolod_service.py\<close>: the generation of the LODs under one lock, with the plugin
  \<open>DynDOLOD.esp\<close> snapshotted, a row of the journal committed inside the lock and two events.
\<close>

record lod_request =
  lod_preset :: string
  lod_texgen :: bool
  lod_snapshot :: bool
  lod_texgen_args :: "string list option"
  lod_dyndolod_args :: "string list option"

datatype lod_answer = Lods lod_result | Lods_Failed "string list" bool

definition DYNDOLOD_AGENT :: string where
  "DYNDOLOD_AGENT = ''dyndolod-pipeline-service''"

definition DYNDOLOD_RESOURCE :: string where
  "DYNDOLOD_RESOURCE = ''dyndolod-pipeline''"

text \<open>The configuration itself refuses a game path that does not exist, with a \<open>ValueError\<close>.\<close>

definition ensure_dyndolod_runner ::
  "(path \<Rightarrow> string) \<Rightarrow> tool_paths \<Rightarrow> path \<Rightarrow> dyndolod_config option \<Rightarrow> dyndolod_config option \<times> (tool_exception + dyndolod_config)" where
  "ensure_dyndolod_runner show ps cwd cached =
    (case cached of
       Some cfg \<Rightarrow> (cached, Inr cfg)
     | None \<Rightarrow>
        (case (skyrim_path ps, mo2_root ps, mo2_mods ps, dyndolod_program ps) of
           (Some game, Some mo2, Some mods, Some exe) \<Rightarrow>
            if \<not> path_there ps exe then (None, Inl (Domain (''DynDOLOD executable not found: '' @ show exe) None))
            else if \<not> path_there ps game then (None, Inl (Foreign (''Game path does not exist: '' @ show game)))
            else (let cfg = \<lparr>dyn_game = game, dyn_mo2 = mo2, dyn_mods = mods, dyn_exe = exe, texgen_exe = texgen_program ps,
                        dyn_timeout = 14400, dyn_cwd = cwd\<rparr>
                  in (Some cfg, Inr cfg))
         | _ \<Rightarrow> (None, Inl (Domain (''Cannot initialize DynDOLODRunner: SKYRIM_PATH, MO2_PATH, MO2_MODS_PATH, and DYNDLOD_EXE ''
                 @ ''environment variables must be valid paths'') None))))"

section \<open>Events\<close>

definition publish_lod_started :: "service_env \<Rightarrow> (nat \<Rightarrow> string) \<Rightarrow> lod_request \<Rightarrow> service_world \<Rightarrow> service_world \<times> (tool_exception + unit)" where
  "publish_lod_started env stamp req =
    publish_to env 0 ''pipeline.dyndolod.started'' DYNDOLOD_AGENT
      (JDict [(''preset'', JStr (lod_preset req)), (''run_texgen'', JBool (lod_texgen req)), (''started_at'', JFloat (stamp 0))])"

definition publish_lod_completed ::
  "service_env \<Rightarrow> (nat \<Rightarrow> string) \<Rightarrow> nat \<Rightarrow> lod_request \<Rightarrow> bool \<Rightarrow> bool \<Rightarrow> bool \<Rightarrow> string list \<Rightarrow> bool \<Rightarrow> service_world \<Rightarrow>
   service_world \<times> (tool_exception + unit)" where
  "publish_lod_completed env stamp k req ok tex dyn errors rolled =
    publish_to env k ''pipeline.dyndolod.completed'' DYNDOLOD_AGENT
      (JDict [(''preset'', JStr (lod_preset req)), (''run_texgen'', JBool (lod_texgen req)), (''success'', JBool ok),
         (''texgen_success'', JBool tex), (''dyndolod_success'', JBool dyn), (''errors'', JList (map JStr errors)),
         (''duration_seconds'', JFloat (stamp 1)), (''rolled_back'', JBool rolled), (''completed_at'', JFloat (stamp 2))])"

section \<open>The run\<close>

definition tool_exception_of :: "dyn_exception \<Rightarrow> tool_exception" where
  "tool_exception_of e = (case e of Dyn_Error m rc _ \<Rightarrow> Domain m rc | Dyn_Foreign m \<Rightarrow> Foreign m | Dyn_Cancellation \<Rightarrow> Cancellation)"

definition result_ok :: "tool_result option \<Rightarrow> bool" where
  "result_ok r = (case r of None \<Rightarrow> False | Some t \<Rightarrow> tool_ok t)"

definition lod_description :: "lod_request \<Rightarrow> string" where
  "lod_description req = ''DynDOLOD pipeline (preset='' @ lod_preset req @ '', texgen='' @ py_str (JBool (lod_texgen req)) @ '')''"

definition lod_verdict :: "bool \<Rightarrow> file_system \<Rightarrow> lod_result \<Rightarrow> tool_exception option" where
  "lod_verdict io fs res =
    (if lod_success res \<and> (case dyndolod_result res of None \<Rightarrow> False
         | Some d \<Rightarrow> (case tool_output d of None \<Rightarrow> False | Some out \<Rightarrow> \<not> validate_dyndolod_output io fs out))
     then Some (Domain ''DynDOLOD output validation failed'' None)
     else if \<not> lod_success res
     then Some (Domain (''DynDOLOD pipeline failed: '' @ (if lod_errors res = [] then ''Unknown error'' else join ''; '' (lod_errors res))) None)
     else None)"

text \<open>The body commits and publishes before the lock is left.\<close>

definition lod_body ::
  "service_env \<Rightarrow> (nat \<Rightarrow> string) \<Rightarrow> dyndolod_config \<Rightarrow> dyn_process \<Rightarrow> (nat \<Rightarrow> pack_fault) \<Rightarrow> (nat \<Rightarrow> bool) \<Rightarrow> bool \<Rightarrow> lod_request \<Rightarrow>
   service_world \<Rightarrow> service_world \<times> nat option \<times> (tool_exception + lod_result)" where
  "lod_body env stamp cfg proc faults allowed io req w =
    (case try_begin env (lod_description req) w of
       (w1, Inl e) \<Rightarrow> (w1, None, Inl e)
     | (w1, Inr n) \<Rightarrow>
        (case run_full_pipeline (show_path env) cfg proc faults allowed (lod_texgen req) (lod_preset req) (lod_texgen_args req)
                (lod_dyndolod_args req) (sw_files w1) of
           (fs, Inl e) \<Rightarrow> (w1\<lparr>sw_files := fs\<rparr>, Some n, Inl (tool_exception_of e))
         | (fs, Inr res) \<Rightarrow>
            (case lod_verdict io fs res of
               Some e \<Rightarrow> (w1\<lparr>sw_files := fs\<rparr>, Some n, Inl e)
             | None \<Rightarrow>
                (case try_commit env n (w1\<lparr>sw_files := fs\<rparr>) of
                   (w2, Inl e) \<Rightarrow> (w2, Some n, Inl e)
                 | (w2, Inr _) \<Rightarrow>
                    (case publish_lod_completed env stamp 1 req True (result_ok (texgen_result res)) (result_ok (dyndolod_result res)) [] False w2 of
                       (w3, Inl e) \<Rightarrow> (w3, Some n, Inl e)
                     | (w3, Inr _) \<Rightarrow> (w3, Some n, Inr res))))))"

text \<open>Marking the transaction; only a cancellation gets through.\<close>

definition mark_quietly :: "service_env \<Rightarrow> nat option \<Rightarrow> service_world \<Rightarrow> service_world \<times> bool" where
  "mark_quietly env tx w =
    (case tx of
       None \<Rightarrow> (w, False)
     | Some n \<Rightarrow> (case try_mark env n w of (w', r) \<Rightarrow> (w', r = Inl Cancellation)))"

definition lod_failure ::
  "service_env \<Rightarrow> (nat \<Rightarrow> string) \<Rightarrow> lod_request \<Rightarrow> string \<Rightarrow> bool \<Rightarrow> service_world \<Rightarrow> service_world \<times> lod_answer service_end" where
  "lod_failure env stamp req m rolled w =
    (case publish_lod_completed env stamp 2 req False False False [m] rolled w of
       (w', Inl e) \<Rightarrow> (w', leaves e)
     | (w', Inr _) \<Rightarrow> (w', Returned (Lods_Failed [m] rolled)))"

definition settle_lods ::
  "service_env \<Rightarrow> (nat \<Rightarrow> string) \<Rightarrow> lod_request \<Rightarrow> service_world \<times> nat option \<times> bool \<times> (locked_failure + lod_result) \<Rightarrow>
   service_world \<times> lod_answer service_end" where
  "settle_lods env stamp req out =
    (case out of (w, tx, entered, r) \<Rightarrow>
      (case r of
         Inr res \<Rightarrow> (w, Returned (Lods res))
       | Inl (Lock_Refused m) \<Rightarrow> lod_failure env stamp req (''Lock acquisition failed: '' @ m) False w
       | Inl (Body_Raised Cancellation) \<Rightarrow> (fst (mark_quietly env tx w), Cancelled_Out)
       | Inl (Body_Raised (Domain m _)) \<Rightarrow> (case mark_quietly env tx w of (w', c) \<Rightarrow> if c then (w', Cancelled_Out) else lod_failure env stamp req m True w')
       | Inl (Body_Raised (Foreign m)) \<Rightarrow> (case mark_quietly env tx w of (w', c) \<Rightarrow> if c then (w', Cancelled_Out) else lod_failure env stamp req m True w')))"

definition lod_plugin :: "dyndolod_config \<Rightarrow> path" where
  "lod_plugin cfg = dyn_mods cfg @ [''DynDOLOD Output'', ''DynDOLOD.esp'']"

definition lod_transaction :: "service_env \<Rightarrow> dyndolod_config \<Rightarrow> lod_request \<Rightarrow> file_system \<Rightarrow> transaction" where
  "lod_transaction env cfg req fs =
    service_transaction env DYNDOLOD_RESOURCE DYNDOLOD_AGENT (if lod_snapshot req \<and> dget fs (lod_plugin cfg) \<noteq> None then [lod_plugin cfg] else [])
      (JDict [(''preset'', JStr (lod_preset req)), (''run_texgen'', JBool (lod_texgen req))])"

definition execute_lods ::
  "service_env \<Rightarrow> (nat \<Rightarrow> string) \<Rightarrow> tool_paths \<Rightarrow> path \<Rightarrow> dyn_process \<Rightarrow> (nat \<Rightarrow> pack_fault) \<Rightarrow> (nat \<Rightarrow> bool) \<Rightarrow> bool \<Rightarrow> lod_request \<Rightarrow>
   dyndolod_config option \<Rightarrow> service_world \<Rightarrow> dyndolod_config option \<times> service_world \<times> lod_answer service_end" where
  "execute_lods env stamp ps cwd proc faults allowed io req cached w =
    (case publish_lod_started env stamp req w of
       (w1, Inl e) \<Rightarrow> (cached, w1, leaves e)
     | (w1, Inr _) \<Rightarrow>
        (case ensure_dyndolod_runner (show_path env) ps cwd cached of
           (cached', Inl (Domain m _)) \<Rightarrow> (cached', lod_failure env stamp req m False w1)
         | (cached', Inl e) \<Rightarrow> (cached', w1, leaves e)
         | (cached', Inr cfg) \<Rightarrow>
            (cached', settle_lods env stamp req
               (run_locked env (lod_transaction env cfg req (sw_files w1)) (lod_body env stamp cfg proc faults allowed io req) w1))))"

section \<open>The transaction\<close>

lemma lod_body_row:
  assumes "lod_body env stamp cfg proc faults allowed io req v = (v', tx, y)" "journal_ok (sw_journal v)"
  shows "sw_locks v' = sw_locks v \<and> (case tx of
      None \<Rightarrow> isl y \<and> begin_fault env \<noteq> None
        \<and> (sw_journal v' = sw_journal v \<or> tx_status_of v' (Suc (last_tx (sw_journal v))) = Some TX_PENDING)
    | Some n \<Rightarrow> n = Suc (last_tx (sw_journal v)) \<and> tx_status_of v' n \<in> {Some TX_PENDING, Some TX_COMMITTED}
        \<and> (\<forall>res. y = Inr res \<longrightarrow> tx_status_of v' n = Some TX_COMMITTED))"
proof (cases "try_begin env (lod_description req) v")
  case (Pair v1 b)
  show ?thesis
  proof (cases b)
    case (Inl e)
    then show ?thesis using assms(1) Pair try_begin_failed[OF assms(2) Pair[unfolded Inl]] try_begin_frame[OF Pair] by (auto simp: lod_body_def)
  next
    case (Inr n)
    note row = try_begin_row[OF assms(2) Pair[unfolded Inr]]
    obtain fs r where r: "run_full_pipeline (show_path env) cfg proc faults allowed (lod_texgen req) (lod_preset req) (lod_texgen_args req)
        (lod_dyndolod_args req) (sw_files v1) = (fs, r)" by fastforce
    let ?w = "v1\<lparr>sw_files := fs\<rparr>"
    have pend: "tx_status_of ?w n = Some TX_PENDING" using conjunct1[OF conjunct2[OF row]] tx_status_same[of ?w v1 n] by simp
    obtain w2 c where c: "try_commit env n ?w = (w2, c)" by fastforce
    note crow = try_commit_row[OF pend c]
    show ?thesis
    proof (cases "\<exists>res. r = Inr res \<and> lod_verdict io fs res = None \<and> c = Inr ()")
      case True
      then obtain res where res: "r = Inr res" "lod_verdict io fs res = None" "c = Inr ()" by blast
      obtain w3 p where p: "publish_lod_completed env stamp 1 req True (result_ok (texgen_result res)) (result_ok (dyndolod_result res)) [] False w2 = (w3, p)"
        by fastforce
      have s: "sw_locks w3 = sw_locks w2" "tx_status_of w3 n = tx_status_of w2 n"
        using publish_rest[OF p[unfolded publish_lod_completed_def]] by (simp_all add: tx_status_of_def)
      have "v' = w3 \<and> tx = Some n" using assms(1) Pair Inr r res c p by (cases p) (auto simp: lod_body_def)
      then show ?thesis using row crow s res(3) by simp
    next
      case False
      then have "(v' = ?w \<or> v' = w2) \<and> tx = Some n \<and> isl y"
        using assms(1) Pair Inr r c by (auto simp: lod_body_def split: sum.splits option.splits)
      then show ?thesis using row crow pend by (cases c; cases y) auto
    qed
  qed
qed

lemma lod_failure_journal:
  "lod_failure env stamp req m rolled w = (w', e) \<Longrightarrow> sw_journal w' = sw_journal w \<and> (\<forall>res. e \<noteq> Returned (Lods res))"
  by (auto simp: lod_failure_def publish_lod_completed_def publish_to_def leaves_def split: if_splits)

lemma settle_without_row:
  assumes "settle_lods env stamp req (w, None, entered, Inl f) = (w', e)"
  shows "sw_journal w' = sw_journal w \<and> (\<forall>res. e \<noteq> Returned (Lods res))"
proof (cases f)
  case (Lock_Refused m)
  then have "lod_failure env stamp req (''Lock acquisition failed: '' @ m) False w = (w', e)" using assms by (simp add: settle_lods_def)
  then show ?thesis using lod_failure_journal by blast
next
  case (Body_Raised x)
  show ?thesis
  proof (cases "x = Cancellation")
    case False
    then obtain m where "lod_failure env stamp req m True w = (w', e)" using assms Body_Raised by (cases x) (auto simp: settle_lods_def mark_quietly_def)
    then show ?thesis using lod_failure_journal by blast
  qed (use assms Body_Raised in \<open>simp add: settle_lods_def mark_quietly_def\<close>)
qed

lemma settle_with_row:
  assumes "settle_lods env stamp req (w, Some n, entered, Inl (Body_Raised x)) = (w', e)" "tx_status_of w n = Some st"
  shows "(tx_status_of w' n = Some TX_ROLLED_BACK \<or> mark_fault env \<noteq> None \<and> tx_status_of w' n = Some st) \<and> (\<forall>res. e \<noteq> Returned (Lods res))"
proof -
  obtain v c where c: "try_mark env n w = (v, c)" by fastforce
  have v: "tx_status_of v n = Some TX_ROLLED_BACK \<or> mark_fault env \<noteq> None \<and> tx_status_of v n = Some st"
    using try_mark_row[OF assms(2) c] by (cases "c = Inr ()") auto
  have "w' = v \<and> e = Cancelled_Out \<or> (\<exists>m. lod_failure env stamp req m True v = (w', e))"
    using assms(1) c by (cases x) (auto simp: settle_lods_def mark_quietly_def split: if_splits)
  then show ?thesis using lod_failure_journal v by (fastforce simp: tx_status_of_def)
qed

text \<open>
  C16: whatever happens to a generation of LODs, an exception of the tools, of the snapshots, of the journal's commit
  or of the bus, or a cancellation, the row it added to the journal is committed when the call returns the LODs and
  rolled back in every other case, unless the journal fails or is cancelled while it begins the row or marks it: then
  it may stay pending, or committed when the commit had been reached.
\<close>

theorem lod_transaction_closes:
  assumes "execute_lods env stamp ps cwd proc faults allowed io req cached w = (cached', w', e)" "journal_ok (sw_journal w)"
    and "sw_journal w' \<noteq> sw_journal w"
  shows "if \<exists>res. e = Returned (Lods res) then tx_status_of w' (Suc (last_tx (sw_journal w))) = Some TX_COMMITTED
    else tx_status_of w' (Suc (last_tx (sw_journal w))) = Some TX_ROLLED_BACK
      \<or> (begin_fault env \<noteq> None \<or> mark_fault env \<noteq> None)
         \<and> tx_status_of w' (Suc (last_tx (sw_journal w))) \<in> {Some TX_PENDING, Some TX_COMMITTED}"
proof -
  let ?n = "Suc (last_tx (sw_journal w))"
  obtain w1 where p1: "publish_lod_started env stamp req w = (w1, Inr ())"
    using assms(1,3) by (cases "bus_running env 0") (auto simp: execute_lods_def publish_lod_started_def publish_to_def)
  have s1: "sw_journal w1 = sw_journal w" using publish_rest[OF p1[unfolded publish_lod_started_def]] by simp
  obtain c0 z where z: "ensure_dyndolod_runner (show_path env) ps cwd cached = (c0, z)" by fastforce
  have "\<not> isl z"
  proof
    assume "isl z"
    then obtain x where x: "z = Inl x" by (cases z) auto
    have "sw_journal w' = sw_journal w1"
    proof (cases x)
      case (Domain m rc)
      then have "lod_failure env stamp req m False w1 = (w', e)" using assms(1) p1 z x by (simp add: execute_lods_def)
      then show ?thesis using lod_failure_journal by blast
    qed (use assms(1) p1 z x in \<open>simp_all add: execute_lods_def\<close>)
    then show False using assms(3) s1 by simp
  qed
  then obtain cfg where cfg: "ensure_dyndolod_runner (show_path env) ps cwd cached = (cached', Inr cfg)"
    using assms(1) p1 z by (cases z) (simp_all add: execute_lods_def)
  obtain w2 tx entered r where l: "run_locked env (lod_transaction env cfg req (sw_files w1)) (lod_body env stamp cfg proc faults allowed io req) w1 = (w2, tx, entered, r)"
    by (metis surj_pair)
  have st: "settle_lods env stamp req (w2, tx, entered, r) = (w', e)" using assms(1) p1 cfg l by (simp add: execute_lods_def)
  from l show ?thesis
  proof (cases rule: run_locked_cases)
    case (refused f t1 fs1)
    then obtain f where "r = Inl f" by (cases r) auto
    then have "sw_journal w' = sw_journal w" using settle_without_row[of env stamp req w2 entered f w' e] st refused s1 by simp
    then show ?thesis using assms(3) by simp
  next
    case (ran t1 fs1 snaps v2 y t3 fs3)
    have j: "journal_ok (sw_journal (w1\<lparr>sw_locks := t1, sw_files := fs1\<rparr>))" using assms(2) s1 by simp
    note b = lod_body_row[OF ran(2) j]
    have r: "\<And>m. r \<noteq> Inl (Lock_Refused m)" using ran(6,7,8) by (cases y) auto
    show ?thesis
    proof (cases tx)
      case None
      obtain f where f: "r = Inl f" using b ran(6) None by (cases r) auto
      have "sw_journal w' = sw_journal v2 \<and> (\<forall>res. e \<noteq> Returned (Lods res))"
        using settle_without_row[of env stamp req w2 entered f w' e] st None f ran(4) by simp
      moreover from this have "sw_journal v2 \<noteq> sw_journal w" using assms(3) by simp
      ultimately show ?thesis using b s1 None tx_status_same[of w' v2 ?n] by auto
    next
      case (Some n)
      then have n: "n = ?n" "tx_status_of w2 n \<in> {Some TX_PENDING, Some TX_COMMITTED}" "\<forall>res. y = Inr res \<longrightarrow> tx_status_of w2 n = Some TX_COMMITTED"
        using b s1 ran(4) tx_status_same[of w2 v2 n] by auto
      show ?thesis
      proof (cases y)
        case (Inr res)
        then show ?thesis using st ran(7)[of res] n by (auto simp: settle_lods_def)
      next
        case (Inl e')
        then have "settle_lods env stamp req (w2, Some n, entered, Inl (Body_Raised e')) = (w', e)" using st Some ran(8) by simp
        moreover obtain st0 where st0: "tx_status_of w2 n = Some st0" "st0 \<in> {TX_PENDING, TX_COMMITTED}" using n(2) by auto
        ultimately show ?thesis using settle_with_row[OF _ st0(1)] st0(2) n(1) by fastforce
      qed
    qed
  qed
qed

section \<open>The files\<close>

lemma lod_body_files:
  assumes "lod_body env stamp cfg proc faults allowed io req v = (v', tx, y)"
  shows "(tx = None \<longrightarrow> sw_files v' = sw_files v) \<and> (tx \<noteq> None \<longrightarrow> sw_files v' = fst (run_full_pipeline (show_path env) cfg proc faults allowed (lod_texgen req)
    (lod_preset req) (lod_texgen_args req) (lod_dyndolod_args req) (sw_files v)))"
proof (cases "try_begin env (lod_description req) v")
  case (Pair v1 b)
  show ?thesis
  proof (cases b)
    case (Inl e)
    then show ?thesis using assms Pair try_begin_frame[OF Pair] by (auto simp: lod_body_def)
  next
    case (Inr n)
    have f1: "sw_files v1 = sw_files v" using try_begin_frame[OF Pair] by simp
    obtain fs r where r: "run_full_pipeline (show_path env) cfg proc faults allowed (lod_texgen req) (lod_preset req) (lod_texgen_args req)
        (lod_dyndolod_args req) (sw_files v1) = (fs, r)" by fastforce
    have commit: "try_commit env n u = (u', c) \<Longrightarrow> sw_files u' = sw_files u" for u u' c
      using try_commit_frame by blast
    have publ: "publish_lod_completed env stamp k req a b' c' d e u = (u', x) \<Longrightarrow> sw_files u' = sw_files u" for k a b' c' d e u u' x
      using publish_rest unfolding publish_lod_completed_def by blast
    have "sw_files v' = fs \<and> tx \<noteq> None" using assms Pair Inr r commit publ
      by (auto simp: lod_body_def split: sum.splits option.splits prod.splits)
    then show ?thesis using r f1 by auto
  qed
qed

lemma settle_lods_files: "settle_lods env stamp req (w, tx, entered, r) = (w', e) \<Longrightarrow> sw_files w' = sw_files w"
proof -
  have mark: "mark_quietly env t u = (u', c) \<Longrightarrow> sw_files u' = sw_files u" for t u u' c
    using try_mark_frame by (auto simp: mark_quietly_def split: option.splits prod.splits)
  have fail: "lod_failure env stamp req m b u = (u', x) \<Longrightarrow> sw_files u' = sw_files u" for m b u u' x
    by (auto simp: lod_failure_def publish_lod_completed_def publish_to_def split: if_splits)
  assume "settle_lods env stamp req (w, tx, entered, r) = (w', e)"
  then show ?thesis using mark[of tx w] fail
    by (cases "mark_quietly env tx w") (auto simp: settle_lods_def split: sum.splits locked_failure.splits tool_exception.splits if_splits)
qed

lemma run_locked_journal_entered:
  assumes "run_locked env x body w = (w', tx, entered, r)" "sw_journal w' \<noteq> sw_journal w \<or> tx \<noteq> None"
  shows entered
  using assms(1) by (cases rule: run_locked_cases) (use assms(2) in auto)

text \<open>
  A generation that fails after it began its transaction gives the plugin its old content back and nothing
  else: the rest of the mod stays what the tools and the packaging made of it.
\<close>

theorem failed_lods_keep_new_assets:
  assumes "execute_lods env stamp ps cwd proc (\<lambda>_. Pack_Fine) allowed io req (Some cfg) w = (cached', w', Returned (Lods_Failed es rolled))"
    and "journal_ok (sw_journal w)" "begin_fault env = None" "sw_journal w' \<noteq> sw_journal w" "lod_snapshot req" "restore_faults env = (\<lambda>_. No_Io_Fault)"
    and "dget (sw_files w) (lod_plugin cfg) = Some c" "room_for env (lod_plugin cfg) (sw_files w)" "dyn_spares (snapshot_dir (snapshots_in env)) proc"
    and "\<not> inside (snapshot_dir (snapshots_in env)) (lod_plugin cfg)" "\<forall>q. inside (snapshot_dir (snapshots_in env)) q \<longrightarrow> \<not> inside (dyn_mods cfg) q"
  shows "\<exists>fs1 fs2 r. (\<forall>q. \<not> inside (snapshot_dir (snapshots_in env)) q \<longrightarrow> dget fs1 q = dget (sw_files w) q)
    \<and> run_full_pipeline (show_path env) cfg proc (\<lambda>_. Pack_Fine) allowed (lod_texgen req) (lod_preset req) (lod_texgen_args req) (lod_dyndolod_args req) fs1 = (fs2, r)
    \<and> dget (sw_files w') (lod_plugin cfg) = Some c
    \<and> (\<forall>q. q \<noteq> lod_plugin cfg \<longrightarrow> q \<noteq> backup_file (lod_plugin cfg) \<longrightarrow> dget (sw_files w') q = dget fs2 q)"
proof -
  let ?body = "lod_body env stamp cfg proc (\<lambda>_. Pack_Fine) allowed io req" and ?p = "lod_plugin cfg" and ?d = "snapshot_dir (snapshots_in env)"
  obtain w1 where p1: "publish_lod_started env stamp req w = (w1, Inr ())"
    using assms(1) by (cases "bus_running env 0") (auto simp: execute_lods_def publish_lod_started_def publish_to_def leaves_def)
  note s1 = publish_rest[OF p1[unfolded publish_lod_started_def]]
  let ?x = "lod_transaction env cfg req (sw_files w1)"
  have x: "txn_store ?x = snapshots_in env" "target_files ?x = [?p]" using assms(5,7) s1 by (simp_all add: lod_transaction_def service_transaction_def)
  obtain w2 tx entered r where l: "run_locked env ?x ?body w1 = (w2, tx, entered, r)" by (metis surj_pair)
  have st: "settle_lods env stamp req (w2, tx, entered, r) = (w', Returned (Lods_Failed es rolled))"
    using assms(1) p1 l by (simp add: execute_lods_def ensure_dyndolod_runner_def)
  obtain f where f: "r = Inl f" using st by (cases r) (auto simp: settle_lods_def)
  have "tx \<noteq> None \<or> sw_journal w2 \<noteq> sw_journal w1" using settle_without_row[of env stamp req w2 entered f w'] st f s1 assms(4) by auto
  then have en: entered using run_locked_journal_entered[OF l] by blast
  have sp: "spares ?d (sw_files v) (sw_files v')" if b: "?body v = (v', t, y)" for v v' t y
    unfolding spares_def
  proof (intro allI impI)
    fix q assume q: "inside ?d q"
    then have m: "\<not> inside (dyn_mods cfg) q" using assms(11) by blast
    show "dget (sw_files v') q = dget (sw_files v) q"
      using lod_body_files[OF b] run_full_pipeline_spares[OF prod.collapse[symmetric] assms(9) q m] by (cases t) auto
  qed
  have room: "room_for env ?p (sw_files w1)" "dget (sw_files w1) ?p = Some c" using assms(7,8) s1 by simp_all
  have ne: "?p \<noteq> []" by (simp add: lod_plugin_def)
  have l': "run_locked env ?x ?body w1 = (w2, tx, True, Inl f)" using l f en by simp
  obtain t1 fs1 v2 e where fl: "?body (w1\<lparr>sw_locks := t1, sw_files := fs1\<rparr>) = (v2, tx, Inl e)"
    "\<forall>q. \<not> inside ?d q \<longrightarrow> dget fs1 q = dget (sw_files w1) q" "dget (sw_files w2) ?p = Some c"
    "\<forall>q. q \<noteq> ?p \<longrightarrow> q \<noteq> backup_file ?p \<longrightarrow> dget (sw_files w2) q = dget (sw_files v2) q" "sw_journal w2 = sw_journal v2"
    by (rule run_locked_failed[OF l' x ne assms(10) room assms(6) sp])
  have "journal_ok (sw_journal (w1\<lparr>sw_locks := t1, sw_files := fs1\<rparr>))" using assms(2) s1 by simp
  note row = lod_body_row[OF fl(1) this]
  have tx: "tx \<noteq> None"
    using row assms(3) by (cases tx) simp_all
  obtain fs2 z where run: "run_full_pipeline (show_path env) cfg proc (\<lambda>_. Pack_Fine) allowed (lod_texgen req) (lod_preset req) (lod_texgen_args req)
      (lod_dyndolod_args req) fs1 = (fs2, z)" by fastforce
  have v2: "sw_files v2 = fs2" using lod_body_files[OF fl(1)] tx run by simp
  have w': "sw_files w' = sw_files w2" using settle_lods_files[OF st] .
  have fs1: "\<forall>q. \<not> inside ?d q \<longrightarrow> dget fs1 q = dget (sw_files w) q" using fl(2) s1 by simp
  show ?thesis
    by (rule exI[of _ fs1], rule exI[of _ fs2], rule exI[of _ z]) (intro conjI fs1 run, simp_all only: w' fl(3), use fl(4) v2 in blast)
qed

text \<open>TexGen fails, DynDOLOD succeeds and is packaged: the old plugin ends up with the new assets.\<close>

definition demo_lods :: dyndolod_config where
  "demo_lods = \<lparr>dyn_game = [''game''], dyn_mo2 = [''mo2''], dyn_mods = [''mods''], dyn_exe = [''dyn'', ''exe''], texgen_exe = Some [''tex''],
     dyn_timeout = 3, dyn_cwd = [''cwd'']\<rparr>"

definition half_done :: dyn_process where
  "half_done exe args fs =
    (if exe = [''tex''] then (fs, Dyn_Exited [] [] (Some 1))
     else (dset [''mo2'', ''DynDOLOD_Output'', ''DynDOLOD.esp''] ''new'' (dset [''mo2'', ''DynDOLOD_Output'', ''lod.nif''] ''new'' fs), Dyn_Exited [] [] (Some 0)))"

definition lod_world :: service_world where
  "lod_world = demo_world\<lparr>sw_files := [([''mods'', ''DynDOLOD Output'', ''DynDOLOD.esp''], ''old''), ([''mods'', ''DynDOLOD Output'', ''lod.nif''], ''old'')]\<rparr>"

definition lod_demand :: lod_request where
  "lod_demand = \<lparr>lod_preset = ''High'', lod_texgen = True, lod_snapshot = True, lod_texgen_args = None, lod_dyndolod_args = None\<rparr>"

definition demo_paths :: tool_paths where
  "demo_paths = \<lparr>skyrim_path = None, mo2_root = None, mo2_mods = None, synthesis_program = None, dyndolod_program = None,
     texgen_program = None, xedit_program = None, path_there = (\<lambda>_. True)\<rparr>"

lemma demo_lod_run:
  "case execute_lods demo_service (\<lambda>_. []) demo_paths [] half_done (\<lambda>_. Pack_Fine) (\<lambda>_. True) False lod_demand (Some demo_lods) lod_world of
     (c, w', Returned (Lods_Failed es rolled)) \<Rightarrow> last_tx (sw_journal w') = 1 \<and> dget (sw_files w') [''mods'', ''DynDOLOD Output'', ''lod.nif''] = Some ''new''
   | _ \<Rightarrow> False"
  by code_simp

lemma failed_lods_keep_new_assets_witness:
  "case execute_lods demo_service (\<lambda>_. []) demo_paths [] half_done (\<lambda>_. Pack_Fine) (\<lambda>_. True) False lod_demand (Some demo_lods) lod_world of
     (c, w', _) \<Rightarrow> dget (sw_files w') [''mods'', ''DynDOLOD Output'', ''DynDOLOD.esp''] = Some ''old''
       \<and> dget (sw_files w') [''mods'', ''DynDOLOD Output'', ''lod.nif''] = Some ''new''"
proof -
  obtain c w' es rolled where e: "execute_lods demo_service (\<lambda>_. []) demo_paths [] half_done (\<lambda>_. Pack_Fine) (\<lambda>_. True) False lod_demand (Some demo_lods) lod_world
      = (c, w', Returned (Lods_Failed es rolled))"
    and r: "last_tx (sw_journal w') = 1" "dget (sw_files w') [''mods'', ''DynDOLOD Output'', ''lod.nif''] = Some ''new''"
    using demo_lod_run by (auto split: prod.splits service_end.splits lod_answer.splits)
  have p: "lod_plugin demo_lods = [''mods'', ''DynDOLOD Output'', ''DynDOLOD.esp'']" by (simp add: demo_lods_def lod_plugin_def)
  have j: "journal_ok (sw_journal lod_world)" "sw_journal w' \<noteq> sw_journal lod_world"
    using r(1) new_journal_ok by (auto simp: lod_world_def demo_world_def new_journal_def)
  have room: "room_for demo_service (lod_plugin demo_lods) (sw_files lod_world)"
    by (auto simp: p room_for_def lod_world_def demo_service_def demo_store_def copied_def snapshot_file_def meta_file_def add_suffix_def tree_size_def
      inside_def meta_text_def json_quote_def json_escape_def)
  have sp: "dyn_spares (snapshot_dir (snapshots_in demo_service)) half_done"
    by (auto simp: dyn_spares_def half_done_def demo_service_ok demo_store_def inside_def)
  have out: "\<not> inside (snapshot_dir (snapshots_in demo_service)) (lod_plugin demo_lods)"
    "\<forall>q. inside (snapshot_dir (snapshots_in demo_service)) q \<longrightarrow> \<not> inside (dyn_mods demo_lods) q"
    unfolding p by (auto simp: demo_service_ok demo_store_def inside_iff demo_lods_def)
  have old: "dget (sw_files lod_world) (lod_plugin demo_lods) = Some ''old''" by (simp add: p lod_world_def)
  have calm: "begin_fault demo_service = None" by (simp add: demo_service_def)
  have "dget (sw_files w') (lod_plugin demo_lods) = Some ''old''"
    using failed_lods_keep_new_assets[OF e j(1) calm j(2) _ demo_service_ok(4) old room sp out] by (auto simp: lod_demand_def)
  then show ?thesis using e r(2) p by simp
qed

lemma lod_transaction_closes_witness:
  "case execute_lods demo_service (\<lambda>_. []) demo_paths [] half_done (\<lambda>_. Pack_Fine) (\<lambda>_. True) False lod_demand (Some demo_lods) lod_world of
     (c, w', _) \<Rightarrow> tx_status_of w' 1 = Some TX_ROLLED_BACK"
proof -
  obtain c w' es rolled where e: "execute_lods demo_service (\<lambda>_. []) demo_paths [] half_done (\<lambda>_. Pack_Fine) (\<lambda>_. True) False lod_demand (Some demo_lods) lod_world
      = (c, w', Returned (Lods_Failed es rolled))" and r: "last_tx (sw_journal w') = 1"
    using demo_lod_run by (auto split: prod.splits service_end.splits lod_answer.splits)
  have j: "journal_ok (sw_journal lod_world)" "sw_journal w' \<noteq> sw_journal lod_world"
    using r new_journal_ok by (auto simp: lod_world_def demo_world_def new_journal_def)
  have "begin_fault demo_service = None" "mark_fault demo_service = None" by (simp_all add: demo_service_def)
  with lod_transaction_closes[OF e j] show ?thesis using e by (simp add: lod_world_def demo_world_def new_journal_def)
qed

end
