(* ===== verification/Vramr_Service.thy ===== *)
theory Vramr_Service
  imports Synthesis_Service
begin

text \<open>
  \<open>sky_claw/local/tools/vramr_service.py\<close>: VRAMr run under the lock of its output directory.  Nothing is
  snapshotted: a failed run deletes the entries of the directory that were not there before.  The validator of
  paths is an argument, and so are the process and what happens to the files while the run waits for the lock;
  the process gives the lines the two readers collected.
\<close>

datatype vramr_stop = Stop_Timeout | Stop_Raised string | Stop_Cancelled
datatype vramr_end = Vramr_Exited "int option" "string list" "string list" | Vramr_Stopped vramr_stop

type_synonym vramr_process = "path \<Rightarrow> string list \<Rightarrow> file_system \<Rightarrow> file_system \<times> vramr_end"

record vramr_result =
  vr_exit_code :: int
  vr_stdout :: "string list"
  vr_stderr :: "string list"
  vr_error :: "string option"
  vr_rolled_back :: bool

definition VRAMR_AGENT :: string where
  "VRAMR_AGENT = ''vramr-service''"

definition rstrip :: "string \<Rightarrow> string" where
  "rstrip s = rev (dropWhile is_space (rev s))"

definition last_lines :: "string list \<Rightarrow> string list" where
  "last_lines xs = drop (length xs - 20) xs"

section \<open>The output directory\<close>

text \<open>The names directly under a directory; a file or nothing has none.\<close>

definition snapshot_existing :: "file_system \<Rightarrow> path \<Rightarrow> string list" where
  "snapshot_existing fs d = remdups (map (\<lambda>p. p ! length d) (filter (inside d) (keys fs)))"

text \<open>\<open>stuck\<close> are the files that cannot be deleted.\<close>

definition cleanup_output_dir :: "(path \<Rightarrow> bool) \<Rightarrow> path \<Rightarrow> string list \<Rightarrow> file_system \<Rightarrow> file_system" where
  "cleanup_output_dir stuck d existed fs =
    foldl (\<lambda>h n. if n \<in> set existed then h
      else filter (\<lambda>(p, c). \<not> (p = d @ [n] \<or> inside (d @ [n]) p) \<or> stuck p) h) fs (snapshot_existing fs d)"

section \<open>The run\<close>

definition run_vramr :: "vramr_process \<Rightarrow> path \<Rightarrow> string list \<Rightarrow> file_system \<Rightarrow> file_system \<times> (vramr_stop + int \<times> string list \<times> string list)" where
  "run_vramr proc exe args fs =
    (case proc exe args fs of
       (fs', Vramr_Exited rc out err) \<Rightarrow> (fs', Inr (case rc of None \<Rightarrow> -1 | Some n \<Rightarrow> n, map rstrip out, map rstrip err))
     | (fs', Vramr_Stopped e) \<Rightarrow> (fs', Inl e))"

text \<open>\<open>_safe_mark_rolled_back\<close>: \<open>True\<close> when a cancellation gets through.\<close>

definition safe_mark_rolled_back :: "service_env \<Rightarrow> nat option \<Rightarrow> service_world \<Rightarrow> service_world \<times> bool" where
  "safe_mark_rolled_back env tx w =
    (case tx of
       None \<Rightarrow> (w, False)
     | Some n \<Rightarrow> (case try_mark env n w of (w', r) \<Rightarrow> (w', r = Inl Cancellation)))"

text \<open>
  The block inside the lock: the exit code, the lines and the transaction, and how it ended: without an error,
  with one, or cancelled.
\<close>

datatype vramr_outcome = Fine | Failed string bool | Was_Cancelled

definition vramr_failure ::
  "service_env \<Rightarrow> (path \<Rightarrow> bool) \<Rightarrow> path \<Rightarrow> string list \<Rightarrow> nat option \<Rightarrow> string \<Rightarrow> bool \<Rightarrow> service_world \<Rightarrow> service_world \<times> vramr_outcome" where
  "vramr_failure env stuck out existed tx m rolled w =
    (case safe_mark_rolled_back env tx (w\<lparr>sw_files := cleanup_output_dir stuck out existed (sw_files w)\<rparr>) of
       (w', c) \<Rightarrow> (w', if c then Was_Cancelled else Failed m rolled))"

definition tool_message :: "tool_exception \<Rightarrow> string" where
  "tool_message e = (case e of Domain m _ \<Rightarrow> m | Foreign m \<Rightarrow> m | Cancellation \<Rightarrow> [])"

definition vramr_block ::
  "service_env \<Rightarrow> (path \<Rightarrow> bool) \<Rightarrow> string \<Rightarrow> vramr_process \<Rightarrow> path \<Rightarrow> string list \<Rightarrow> path \<Rightarrow> string list \<Rightarrow> service_world \<Rightarrow>
   service_world \<times> int \<times> string list \<times> string list \<times> vramr_outcome" where
  "vramr_block env stuck limit proc exe args out existed w =
    (let unexpected = (\<lambda>tx rolled e v. if e = Cancellation then (v, Was_Cancelled)
           else vramr_failure env stuck out existed tx (''Unexpected error: '' @ tool_message e) rolled v) in
     case try_begin env ''vramr_pipeline'' w of
       (w1, Inl e) \<Rightarrow> (case unexpected None False e w1 of (v, o') \<Rightarrow> (v, -1, [], [], o'))
     | (w1, Inr n) \<Rightarrow>
        (case run_vramr proc exe args (sw_files w1) of
           (fs, Inl stop) \<Rightarrow>
            (case (case stop of
                     Stop_Cancelled \<Rightarrow> unexpected (Some n) True Cancellation (w1\<lparr>sw_files := fs\<rparr>)
                   | Stop_Raised m \<Rightarrow> unexpected (Some n) True (Foreign m) (w1\<lparr>sw_files := fs\<rparr>)
                   | Stop_Timeout \<Rightarrow> vramr_failure env stuck out existed (Some n) (''VRAMr timed out after '' @ limit @ ''s'') True (w1\<lparr>sw_files := fs\<rparr>)) of
               (v, o') \<Rightarrow> (v, -1, [], [], o'))
         | (fs, Inr (rc, outs, errs)) \<Rightarrow>
            (case (if rc \<noteq> 0
                   then vramr_failure env stuck out existed (Some n)
                     (''VRAMr exit '' @ int_str rc @ '': '' @ join [char_of (10::nat)] (last_lines errs)) True (w1\<lparr>sw_files := fs\<rparr>)
                   else case try_commit env n (w1\<lparr>sw_files := fs\<rparr>) of
                     (w2, Inr _) \<Rightarrow> (w2, Fine)
                   | (w2, Inl e) \<Rightarrow> unexpected (Some n) True e w2) of
               (v, o') \<Rightarrow> (v, rc, outs, errs, o'))))"

text \<open>\<open>_lock_scope\<close>: the lock released, quietly, however the block ends.\<close>

definition vramr_locked ::
  "service_env \<Rightarrow> string \<Rightarrow> (file_system \<Rightarrow> file_system) \<Rightarrow> (service_world \<Rightarrow> service_world \<times> 'r) \<Rightarrow> service_world \<Rightarrow> service_world \<times> (string + 'r)" where
  "vramr_locked env r waiting block w =
    (case acquire_lock (lock_settings env) r VRAMR_AGENT None (attempts env) (sw_locks w) of
       (t1, Inl e, _) \<Rightarrow> (w\<lparr>sw_locks := t1, sw_files := waiting (sw_files w)\<rparr>, Inl (lock_message e))
     | (t1, Inr _, _) \<Rightarrow>
        (case block (w\<lparr>sw_locks := t1, sw_files := waiting (sw_files w)\<rparr>) of
           (w2, y) \<Rightarrow> (w2\<lparr>sw_locks := safe_release (release_fails env) r VRAMR_AGENT (meanwhile env (sw_locks w2))\<rparr>, Inr y)))"

definition vramr_early :: "string \<Rightarrow> vramr_result" where
  "vramr_early m = \<lparr>vr_exit_code = -1, vr_stdout = [], vr_stderr = [], vr_error = Some m, vr_rolled_back = False\<rparr>"

definition vramr_completed :: "service_env \<Rightarrow> (nat \<Rightarrow> string) \<Rightarrow> path \<Rightarrow> path \<Rightarrow> vramr_result \<Rightarrow> json" where
  "vramr_completed env stamp exe out res =
    JDict [(''vramr_exe'', JStr (show_path env exe)), (''output_dir'', JStr (show_path env out)), (''success'', JBool (vr_error res = None)),
      (''exit_code'', JInt (vr_exit_code res)), (''stdout_line_count'', JInt (int (length (vr_stdout res)))),
      (''stderr_line_count'', JInt (int (length (vr_stderr res)))), (''duration_seconds'', JFloat (stamp 1)),
      (''rolled_back'', JBool (vr_rolled_back res)), (''completed_at'', JFloat (stamp 2))]"

definition execute_vramr ::
  "service_env \<Rightarrow> (nat \<Rightarrow> string) \<Rightarrow> (path \<Rightarrow> string + path) \<Rightarrow> (path \<Rightarrow> bool) \<Rightarrow> (file_system \<Rightarrow> file_system) \<Rightarrow> vramr_process \<Rightarrow>
   path \<Rightarrow> string list \<Rightarrow> path \<Rightarrow> service_world \<Rightarrow> service_world \<times> vramr_result service_end" where
  "execute_vramr env stamp validate stuck waiting proc exe args out w =
    (case validate exe of
       Inl m \<Rightarrow> (w, Returned (vramr_early (''Path violation: '' @ m)))
     | Inr exe' \<Rightarrow>
        (case validate out of
           Inl m \<Rightarrow> (w, Returned (vramr_early (''Path violation: '' @ m)))
         | Inr out' \<Rightarrow>
            (let existed = snapshot_existing (sw_files w) out';
                 started = JDict [(''vramr_exe'', JStr (show_path env exe')), (''output_dir'', JStr (show_path env out')),
                   (''args'', JList (map JStr args)), (''started_at'', JFloat (stamp 0))] in
             case publish_to env 0 ''vramr.pipeline.started'' VRAMR_AGENT started w of
               (w1, Inl e) \<Rightarrow> (w1, leaves e)
             | (w1, Inr _) \<Rightarrow>
                (case vramr_locked env (show_path env out') waiting (vramr_block env stuck (stamp 3) proc exe' args out' existed) w1 of
                   (w2, Inr (rc, outs, errs, Was_Cancelled)) \<Rightarrow> (w2, Cancelled_Out)
                 | (w2, r) \<Rightarrow>
                    (let res = (case r of
                        Inl m \<Rightarrow> vramr_early (''Lock contention: '' @ m)
                      | Inr (rc, outs, errs, o') \<Rightarrow> \<lparr>vr_exit_code = rc, vr_stdout = outs, vr_stderr = errs,
                          vr_error = (case o' of Failed m _ \<Rightarrow> Some m | _ \<Rightarrow> None),
                          vr_rolled_back = (case o' of Failed _ b \<Rightarrow> b | _ \<Rightarrow> False)\<rparr>) in
                     case publish_to env 1 ''vramr.pipeline.completed'' VRAMR_AGENT (vramr_completed env stamp exe' out' res) w2 of
                       (w3, Inl e) \<Rightarrow> (w3, leaves e)
                     | (w3, Inr _) \<Rightarrow> (w3, Returned res))))))"

definition vramr_dict :: "string \<Rightarrow> vramr_result \<Rightarrow> json" where
  "vramr_dict duration r =
    JDict [(''success'', JBool (vr_error r = None)), (''exit_code'', JInt (vr_exit_code r)),
      (''stdout_line_count'', JInt (int (length (vr_stdout r)))), (''stderr_line_count'', JInt (int (length (vr_stderr r)))),
      (''stdout_tail'', JList (map JStr (last_lines (vr_stdout r)))), (''stderr_tail'', JList (map JStr (last_lines (vr_stderr r)))),
      (''error'', (case vr_error r of None \<Rightarrow> JNull | Some e \<Rightarrow> JStr e)), (''rolled_back'', JBool (vr_rolled_back r)),
      (''duration_seconds'', JFloat duration)]"

section \<open>What a failed run leaves\<close>

lemma dget_filter_all: "dget (filter (\<lambda>(p, c). P p) fs) q = (if P q then dget fs q else None)"
  using dget_filter_key[of P fs q] by (simp add: case_prod_unfold)

definition under :: "path \<Rightarrow> string \<Rightarrow> path \<Rightarrow> bool" where
  "under d n p \<longleftrightarrow> p = d @ [n] \<or> inside (d @ [n]) p"

lemma under_iff: "under d n p \<longleftrightarrow> inside d p \<and> p ! length d = n"
proof
  assume "under d n p"
  then show "inside d p \<and> p ! length d = n" by (auto simp: under_def inside_iff nth_append)
next
  assume a: "inside d p \<and> p ! length d = n"
  then obtain q where q: "q \<noteq> []" "p = d @ q" by (auto simp: inside_iff)
  then obtain m r where "q = m # r" by (cases q) auto
  then show "under d n p" using q a by (cases r) (auto simp: under_def inside_iff nth_append)
qed

lemma new_entries_cleaned:
  "dget (cleanup_output_dir stuck d existed fs) p = (if inside d p \<and> p ! length d \<notin> set existed \<and> \<not> stuck p then None else dget fs p)"
proof -
  have f: "dget (foldl (\<lambda>h n. if n \<in> set existed then h else filter (\<lambda>(p, c). \<not> (p = d @ [n] \<or> inside (d @ [n]) p) \<or> stuck p) h) h ns) p
      = (if (\<exists>n \<in> set ns. n \<notin> set existed \<and> under d n p) \<and> \<not> stuck p then None else dget h p)" for h ns
    by (induction ns arbitrary: h) (auto simp: dget_filter_all under_def)
  have "dget fs p = None" if "inside d p" "p ! length d \<notin> set (snapshot_existing fs d)"
    using that by (force simp: snapshot_existing_def map_of_eq_None_iff)
  then show ?thesis unfolding cleanup_output_dir_def f by (auto simp: under_iff)
qed

lemma vramr_failure_leaves:
  assumes "vramr_failure env stuck out existed tx m rolled w = (w', x)"
  shows "sw_locks w' = sw_locks w \<and> sw_files w' = cleanup_output_dir stuck out existed (sw_files w) \<and> x \<noteq> Fine
    \<and> (\<forall>m' b. x = Failed m' b \<longrightarrow> b = rolled)
    \<and> (\<forall>n st. tx = Some n \<and> tx_status_of w n = Some st \<longrightarrow>
         tx_status_of w' n = Some TX_ROLLED_BACK \<or> mark_fault env \<noteq> None \<and> tx_status_of w' n = Some st)"
proof (cases tx)
  case None
  then show ?thesis using assms by (auto simp: vramr_failure_def safe_mark_rolled_back_def)
next
  case (Some n)
  let ?v = "w\<lparr>sw_files := cleanup_output_dir stuck out existed (sw_files w)\<rparr>"
  obtain u r where m: "try_mark env n ?v = (u, r)" by fastforce
  have st: "tx_status_of ?v n = tx_status_of w n" by (simp add: tx_status_of_def)
  have "w' = u \<and> x = (if r = Inl Cancellation then Was_Cancelled else Failed m rolled)"
    using assms Some m by (auto simp: vramr_failure_def safe_mark_rolled_back_def split: if_splits)
  then show ?thesis using Some try_mark_frame[OF m] try_mark_row[OF _ m] st by (cases "r = Inr ()") auto
qed

text \<open>How the block ends when it reports a success or a rollback: the row, and the files the program left, cleaned or not.\<close>

lemma vramr_block_leaves:
  assumes "vramr_block env stuck limit proc exe args out existed w = (w', rc, outs, errs, x)" "journal_ok (sw_journal w)"
  shows "sw_locks w' = sw_locks w
    \<and> (x = Fine \<longrightarrow> tx_status_of w' (Suc (last_tx (sw_journal w))) = Some TX_COMMITTED \<and> sw_files w' = fst (proc exe args (sw_files w)))
    \<and> (\<forall>m. x = Failed m True \<longrightarrow> sw_files w' = cleanup_output_dir stuck out existed (fst (proc exe args (sw_files w)))
         \<and> (tx_status_of w' (Suc (last_tx (sw_journal w))) = Some TX_ROLLED_BACK \<or> mark_fault env \<noteq> None))"
proof (cases "try_begin env ''vramr_pipeline'' w")
  case (Pair w1 b)
  note frame = try_begin_frame[OF Pair]
  show ?thesis
  proof (cases b)
    case (Inl e)
    then have "w' = w1 \<and> x = Was_Cancelled \<or> (\<exists>m. vramr_failure env stuck out existed None m False w1 = (w', x))"
      using assms(1) Pair by (auto simp: vramr_block_def split: prod.splits if_splits)
    then show ?thesis using vramr_failure_leaves frame by fastforce
  next
    case (Inr n)
    note row = try_begin_row[OF assms(2) Pair[unfolded Inr]]
    obtain fs r where r: "run_vramr proc exe args (sw_files w1) = (fs, r)" by fastforce
    have fs: "fs = fst (proc exe args (sw_files w))" using r frame by (auto simp: run_vramr_def split: prod.splits vramr_end.splits)
    let ?w = "w1\<lparr>sw_files := fs\<rparr>"
    have pend: "tx_status_of ?w n = Some TX_PENDING" using row tx_status_same[of ?w w1 n] by auto
    obtain w2 c where c: "try_commit env n ?w = (w2, c)" by fastforce
    note crow = try_commit_row[OF pend c]
    have fail: ?thesis if f: "vramr_failure env stuck out existed (Some n) m True v = (w', x)" and v: "v = ?w \<or> v = w2" for m v
    proof -
      have "(\<exists>st. tx_status_of v n = Some st) \<and> sw_locks v = sw_locks w \<and> sw_files v = fs" using v pend crow row by (cases c) auto
      then show ?thesis using vramr_failure_leaves[OF f] row fs by auto
    qed
    consider "x = Was_Cancelled" "w' = ?w \<or> w' = w2" | "x = Fine" "w' = w2" "c = Inr ()"
      | m v where "vramr_failure env stuck out existed (Some n) m True v = (w', x)" "v = ?w \<or> v = w2"
      using assms(1) Pair Inr r c
      by (auto simp: vramr_block_def Let_def split: sum.splits vramr_stop.splits prod.splits if_splits)
    then show ?thesis
    proof cases
      case 1
      then show ?thesis using row crow by auto
    next
      case 2
      then show ?thesis using row crow fs by auto
    qed (rule fail)
  qed
qed

text \<open>
  C29: a call of VRAMr deletes only what its own run made.  When nobody added or removed entries of the output
  directory while the call waited for the lock, a call that returns and reports a rollback leaves every file as the
  program left it, but for those under entries of the output directory that the program made, which are gone if they
  can be deleted; its row is rolled back unless the journal fails while it marks it.  A call that returns without an
  error leaves everything as the program left it and its row committed.  After both the lock is free, if the others
  keep its lease and the release works.
\<close>

theorem vramr_deletes_only_its_own:
  assumes "execute_vramr env stamp validate stuck waiting proc exe args out w = (w', Returned res)"
    and "journal_ok (sw_journal w)" "validate exe = Inr exe'" "validate out = Inr out'"
    and "set (snapshot_existing (waiting (sw_files w)) out') = set (snapshot_existing (sw_files w) out')"
    and "fs0 = waiting (sw_files w)" "fs = fst (proc exe' args fs0)"
  shows "(vr_error res = None \<longrightarrow> tx_status_of w' (Suc (last_tx (sw_journal w))) = Some TX_COMMITTED \<and> sw_files w' = fs)
    \<and> (vr_rolled_back res \<longrightarrow> vr_error res \<noteq> None
         \<and> (tx_status_of w' (Suc (last_tx (sw_journal w))) = Some TX_ROLLED_BACK \<or> mark_fault env \<noteq> None)
         \<and> (\<forall>p. dget (sw_files w') p =
               (if inside out' p \<and> p ! length out' \<notin> set (snapshot_existing fs0 out') \<and> \<not> stuck p then None else dget fs p)))
    \<and> ((vr_error res = None \<or> vr_rolled_back res) \<and> \<not> release_fails env \<and> keeps_lease env (show_path env out') VRAMR_AGENT \<longrightarrow>
         lock_holder (sw_locks w') (show_path env out') = None)"
proof (cases "vr_error res = None \<or> vr_rolled_back res")
  case True
  let ?ex = "snapshot_existing (sw_files w) out'" and ?r = "show_path env out'" and ?n = "Suc (last_tx (sw_journal w))"
  let ?started = "JDict [(''vramr_exe'', JStr (show_path env exe')), (''output_dir'', JStr (show_path env out')), (''args'', JList (map JStr args)), (''started_at'', JFloat (stamp 0))]"
  obtain w1 where p1: "publish_to env 0 ''vramr.pipeline.started'' VRAMR_AGENT ?started w = (w1, Inr ())"
    using assms(1,3,4) by (cases "bus_running env 0") (auto simp: execute_vramr_def publish_to_def leaves_def)
  note s1 = publish_rest[OF p1]
  let ?block = "vramr_block env stuck (stamp 3) proc exe' args out' ?ex"
  obtain w2 r where l: "vramr_locked env ?r waiting ?block w1 = (w2, r)" by fastforce
  obtain t1 z sl where a: "acquire_lock (lock_settings env) ?r VRAMR_AGENT None (attempts env) (sw_locks w1) = (t1, z, sl)" by (metis surj_pair)
  let ?w = "w1\<lparr>sw_locks := t1, sw_files := waiting (sw_files w1)\<rparr>"
  obtain v rc outs errs x where b: "?block ?w = (v, rc, outs, errs, x)" by (metis surj_pair)
  have run: "(x = Fine \<and> vr_error res = None \<and> \<not> vr_rolled_back res \<or> (\<exists>m. x = Failed m True \<and> vr_error res = Some m)) \<and> sw_files w' = sw_files w2
      \<and> sw_locks w' = sw_locks w2 \<and> sw_journal w' = sw_journal w2 \<and> (\<exists>i. z = Inr i)
      \<and> w2 = v\<lparr>sw_locks := safe_release (release_fails env) ?r VRAMR_AGENT (meanwhile env (sw_locks v))\<rparr>"
    using assms(1,3,4) True p1 l a b
    by (cases z; cases x) (auto simp: execute_vramr_def vramr_locked_def vramr_early_def Let_def leaves_def dest!: publish_rest split: prod.splits sum.splits tool_exception.splits)
  then have x: "x = Fine \<and> vr_error res = None \<and> \<not> vr_rolled_back res \<or> (\<exists>m. x = Failed m True \<and> vr_error res = Some m)"
    and z: "\<exists>i. z = Inr i" and w2: "w2 = v\<lparr>sw_locks := safe_release (release_fails env) ?r VRAMR_AGENT (meanwhile env (sw_locks v))\<rparr>"
    and s: "sw_files w' = sw_files w2" "sw_locks w' = sw_locks w2" "sw_journal w' = sw_journal w2" by blast+
  have j: "journal_ok (sw_journal ?w)" using assms(2) s1 by simp
  note bl = vramr_block_leaves[OF b j]
  have fs: "fst (proc exe' args (sw_files ?w)) = fs" using assms(6,7) s1 by simp
  have "lock_holder t1 ?r = Some VRAMR_AGENT" using a z locks.acquire_holds[of "(lock_settings env, None, attempts env)" ?r VRAMR_AGENT "sw_locks w1" t1]
    by (auto simp: acquire_with_def)
  then have free: "\<not> release_fails env \<and> keeps_lease env ?r VRAMR_AGENT \<longrightarrow> lock_holder (sw_locks w') ?r = None"
    using bl s(2) w2 locks.release_frees by (simp add: keeps_lease_def)
  have st: "tx_status_of w' ?n = tx_status_of v ?n" "Suc (last_tx (sw_journal ?w)) = ?n" "sw_files w' = sw_files v"
    using s w2 s1 by (simp_all add: tx_status_of_def)
  from x show ?thesis
  proof (elim disjE exE)
    assume "x = Fine \<and> vr_error res = None \<and> \<not> vr_rolled_back res"
    then show ?thesis using bl fs st free by simp
  next
    fix m assume f: "x = Failed m True \<and> vr_error res = Some m"
    have "sw_files v = cleanup_output_dir stuck out' ?ex fs \<and> (tx_status_of v ?n = Some TX_ROLLED_BACK \<or> mark_fault env \<noteq> None)"
      using bl f fs st(2) by simp
    then show ?thesis using f st(1,3) free assms(5,6) by (simp add: new_entries_cleaned)
  qed
qed auto

text \<open>
  What is there is read before the lock is taken: what another run, which held the lock while this one waited, had
  written is deleted too.
\<close>

lemma failed_vramr_deletes_others:
  "case execute_vramr demo_service (\<lambda>_. []) Inr (\<lambda>_. False) (dset [''out'', ''theirs''] ''done'')
     (\<lambda>exe args fs. (dset [''out'', ''ours''] ''half'' fs, Vramr_Exited (Some 1) [] [''bad''])) [''exe''] [] [''out''] demo_world of
     (w', _) \<Rightarrow> dget (sw_files w') [''out'', ''ours''] = None \<and> dget (sw_files w') [''out'', ''theirs''] = None"
  by code_simp

text \<open>The service does raise, whatever its rule says: when the bus does not run.\<close>

lemma stopped_bus_raises:
  "validate exe = Inr exe' \<Longrightarrow> validate out = Inr out' \<Longrightarrow> \<not> bus_running env 0 \<Longrightarrow>
   execute_vramr env stamp validate stuck waiting proc exe args out w = (w, Raises ''bus is not running'')"
  by (simp add: execute_vramr_def publish_to_def leaves_def Let_def)

definition demo_vramr_world :: service_world where
  "demo_vramr_world = demo_world\<lparr>sw_files := [([''out'', ''old'', ''a''], ''1'')]\<rparr>"

definition failing_vramr :: vramr_process where
  "failing_vramr exe args fs = (dset [''out'', ''old'', ''b''] ''2'' (dset [''out'', ''ours''] ''half'' fs), Vramr_Exited (Some 1) [] [''bad''])"

definition demo_vramr_run :: "service_world \<times> vramr_result service_end" where
  "demo_vramr_run = execute_vramr demo_service (\<lambda>_. []) Inr (\<lambda>_. False) id failing_vramr [''exe''] [] [''out''] demo_vramr_world"

lemma demo_vramr: "case demo_vramr_run of (w', Returned res) \<Rightarrow> vr_rolled_back res | _ \<Rightarrow> False"
  by code_simp

theorem vramr_deletes_only_its_own_witness:
  "case demo_vramr_run of (w', _) \<Rightarrow> dget (sw_files w') [''out'', ''ours''] = None \<and> dget (sw_files w') [''out'', ''old'', ''a''] = Some ''1''
     \<and> dget (sw_files w') [''out'', ''old'', ''b''] = Some ''2'' \<and> tx_status_of w' 1 = Some TX_ROLLED_BACK
     \<and> lock_holder (sw_locks w') ''out'' = None"
proof -
  obtain w' res where e: "demo_vramr_run = (w', Returned res)" and r: "vr_rolled_back res"
    using demo_vramr by (auto split: prod.splits service_end.splits)
  have j: "journal_ok (sw_journal demo_vramr_world)" using new_journal_ok by (simp add: demo_vramr_world_def demo_world_def)
  have n: "set (snapshot_existing (sw_files demo_vramr_world) [''out'']) = {''old''}"
    by (simp add: snapshot_existing_def demo_vramr_world_def inside_def)
  note t = vramr_deletes_only_its_own[OF e[unfolded demo_vramr_run_def] j refl refl _ refl refl]
  have m: "mark_fault demo_service = None" "show_path demo_service [''out''] = ''out''" by (simp_all add: demo_service_def)
  have i: "inside [''out''] [''out'', x]" "inside [''out''] [''out'', y, z]" for x y z by (simp_all add: inside_def)
  show ?thesis unfolding e prod.case using t r n i m demo_service_ok(2)[of "''out''" VRAMR_AGENT] demo_service_ok(3)
    by (simp add: failing_vramr_def demo_vramr_world_def demo_world_def new_journal_def)
qed

end
