(* ===== verification/Loop_Guardrail.thy ===== *)
theory Loop_Guardrail
  imports Prelude
begin

text \<open>
  \<open>sky_claw/antigravity/security/loop_guardrail.py\<close>: the sliding window over the digests of the
  actions an agent takes, which trips when the same action comes \<open>max_repeats\<close> times in a row.
\<close>

record loop_guardrail =
  max_repeats :: nat
  window_size :: nat
  history :: "string list"

datatype guardrail_error = GuardrailValueError string

record tripped =
  trip_message :: string
  trip_tool :: string
  trip_occurrences :: nat

definition new_guardrail :: "int \<Rightarrow> int \<Rightarrow> guardrail_error + loop_guardrail" where
  "new_guardrail repeats window =
    (if repeats < 2 then Inl (GuardrailValueError ''max_repeats must be >= 2'')
     else if window < repeats then Inl (GuardrailValueError ''window_size must be >= max_repeats'')
     else Inr \<lparr>max_repeats = nat repeats, window_size = nat window, history = []\<rparr>)"

text \<open>\<open>deque(maxlen=n).append\<close>.\<close>

definition append_bounded :: "nat \<Rightarrow> 'a list \<Rightarrow> 'a \<Rightarrow> 'a list" where
  "append_bounded n xs x = (let ys = xs @ [x] in drop (length ys - n) ys)"

definition action_hash :: "(string \<Rightarrow> string) \<Rightarrow> string \<Rightarrow> (string, json) dict \<Rightarrow> string" where
  "action_hash sha256 tool args = sha256 (tool @ ''|'' @ dumps (JDict args))"

definition loop_message :: "string \<Rightarrow> string" where
  "loop_message tool = ''Has entrado en un bucle intentando usar '' @ [CHR 0x27] @ tool @ [CHR 0x27]
     @ ''. DETENTE. Solicita asistencia humana (HITL) inmediatamente.''"

definition register_and_check ::
  "(string \<Rightarrow> string) \<Rightarrow> loop_guardrail \<Rightarrow> string \<Rightarrow> (string, json) dict \<Rightarrow>
   loop_guardrail \<times> (tripped + unit)" where
  "register_and_check sha256 g tool args =
    (let hs = append_bounded (window_size g) (history g) (action_hash sha256 tool args) in
     if length hs \<ge> max_repeats g then
       (let last_n = drop (length hs - max_repeats g) hs in
        if list_all (\<lambda>h. h = last_n ! 0) last_n
        then (g\<lparr>history := []\<rparr>, Inl \<lparr>trip_message = loop_message tool, trip_tool = tool, trip_occurrences = max_repeats g\<rparr>)
        else (g\<lparr>history := hs\<rparr>, Inr ()))
     else (g\<lparr>history := hs\<rparr>, Inr ()))"

definition reset_guardrail :: "loop_guardrail \<Rightarrow> loop_guardrail" where
  "reset_guardrail g = g\<lparr>history := []\<rparr>"

definition snapshot_guardrail :: "loop_guardrail \<Rightarrow> string list" where
  "snapshot_guardrail g = history g"

section \<open>The specification: a streak counter\<close>

text \<open>
  What the window must compute: the last action and how many times in a row it came since the
  last trip.
\<close>

type_synonym streak = "(string \<times> nat) option"

definition streak_step :: "nat \<Rightarrow> streak \<Rightarrow> string \<Rightarrow> streak \<times> bool" where
  "streak_step limit st h =
    (let n = (case st of None \<Rightarrow> 1 | Some (h', k) \<Rightarrow> if h' = h then Suc k else 1)
     in if n \<ge> limit then (None, True) else (Some (h, n), False))"

definition run_length :: "string list \<Rightarrow> nat" where
  "run_length hs = length (takeWhile (\<lambda>h. h = last hs) (rev hs))"

definition streak_of :: "string list \<Rightarrow> streak" where
  "streak_of hs = (if hs = [] then None else Some (last hs, run_length hs))"

definition guardrail_ok :: "loop_guardrail \<Rightarrow> bool" where
  "guardrail_ok g \<longleftrightarrow> 2 \<le> max_repeats g \<and> max_repeats g \<le> window_size g
     \<and> length (history g) \<le> window_size g \<and> run_length (history g) < max_repeats g"

lemma rev_append_bounded: "rev (append_bounded n xs x) = take n (x # rev xs)"
  by (cases "n \<le> Suc (length xs)") (simp_all add: append_bounded_def Let_def rev_drop take_Cons')

lemma length_append_bounded: "length (append_bounded n xs x) = min n (Suc (length xs))"
  by (simp add: append_bounded_def Let_def)

lemma last_append_bounded: "0 < n \<Longrightarrow> last (append_bounded n xs x) = x"
  by (cases n) (simp_all flip: hd_rev add: rev_append_bounded)

lemma length_takeWhile_take:
  "length (takeWhile P (take n xs)) = min n (length (takeWhile P xs))"
  by (induction xs arbitrary: n) (auto simp: take_Cons' min_def)

lemma all_take_iff:
  "n \<le> length xs \<Longrightarrow> list_all P (take n xs) \<longleftrightarrow> n \<le> length (takeWhile P xs)"
  by (induction xs arbitrary: n) (auto simp: take_Cons' Suc_le_eq split: if_splits)

lemma list_all_last_n:
  assumes "0 < n" and "n \<le> length xs"
  shows "list_all (\<lambda>h. h = drop (length xs - n) xs ! 0) (drop (length xs - n) xs)
     \<longleftrightarrow> list_all (\<lambda>h. h = last xs) (take n (rev xs))"
proof -
  let ?l = "drop (length xs - n) xs"
  have ne: "?l \<noteq> []" using assms by simp
  have l0: "?l ! 0 \<in> set ?l" using ne by (intro nth_mem) simp
  have l1: "last xs \<in> set ?l" using last_in_set[OF ne] assms by (simp add: last_drop)
  have eq: "?l ! 0 = last xs" if "list_all (\<lambda>h. h = a) ?l" for a
    using that l0 l1 unfolding list.pred_set by metis
  have "rev ?l = take n (rev xs)" using assms by (simp add: rev_drop)
  then have "set (take n (rev xs)) = set ?l" using set_rev[of ?l] by (simp only:)
  then have sets: "list_all P (take n (rev xs)) \<longleftrightarrow> list_all P ?l" for P
    by (simp only: list.pred_set)
  show ?thesis
  proof
    assume a: "list_all (\<lambda>h. h = ?l ! 0) ?l"
    with eq[OF a] show "list_all (\<lambda>h. h = last xs) (take n (rev xs))" by (simp only: sets)
  next
    assume "list_all (\<lambda>h. h = last xs) (take n (rev xs))"
    then have a: "list_all (\<lambda>h. h = last xs) ?l" by (simp only: sets)
    with eq[OF a] show "list_all (\<lambda>h. h = ?l ! 0) ?l" by (simp only:)
  qed
qed

lemma run_length_step:
  "length (takeWhile (\<lambda>x. x = h) (h # rev hs)) =
   (case streak_of hs of None \<Rightarrow> 1 | Some (h', k) \<Rightarrow> if h' = h then Suc k else 1)"
  by (cases hs rule: rev_cases) (auto simp: streak_of_def run_length_def)

lemma register_simulates:
  assumes ok: "guardrail_ok g" and reg: "register_and_check sha256 g tool args = (g', r)"
  shows "streak_step (max_repeats g) (streak_of (history g)) (action_hash sha256 tool args)
           = (streak_of (history g'), isl r)"
    and "guardrail_ok g'" and "max_repeats g' = max_repeats g"
proof -
  let ?h = "action_hash sha256 tool args" and ?rs = "rev (history g)"
  let ?w = "window_size g" and ?k = "max_repeats g"
  let ?hs = "append_bounded ?w (history g) ?h"
  define n where "n = length (takeWhile (\<lambda>x. x = ?h) (?h # ?rs))"
  have k: "2 \<le> ?k" "?k \<le> ?w" using ok by (auto simp: guardrail_ok_def)
  have rl: "run_length ?hs = min ?w n"
    using k by (simp add: run_length_def n_def rev_append_bounded last_append_bounded length_takeWhile_take)
  have le: "n \<le> Suc (length ?rs)"
    unfolding n_def by (metis length_Cons length_takeWhile_le)
  have trip: "length ?hs \<ge> ?k \<and> list_all (\<lambda>h. h = drop (length ?hs - ?k) ?hs ! 0) (drop (length ?hs - ?k) ?hs)
       \<longleftrightarrow> ?k \<le> n" (is "?L \<and> ?A \<longleftrightarrow> _")
  proof (cases ?L)
    case True
    then have "?k \<le> Suc (length ?rs)" by (simp add: length_append_bounded)
    moreover have "?A \<longleftrightarrow> list_all (\<lambda>h. h = ?h) (take ?k (?h # ?rs))"
      using list_all_last_n[of ?k ?hs] True k
      by (simp add: rev_append_bounded last_append_bounded min_def)
    ultimately show ?thesis using True all_take_iff[of ?k "?h # ?rs" "\<lambda>h. h = ?h"]
      by (simp add: n_def)
  next
    case False
    then have "Suc (length ?rs) < ?k" using k by (auto simp: length_append_bounded)
    then show ?thesis using False le by simp
  qed
  have st: "streak_step ?k (streak_of (history g)) ?h = (if n \<ge> ?k then (None, True) else (Some (?h, n), False))"
    using run_length_step[of ?h "history g"] by (simp add: streak_step_def n_def)
  have "streak_step ?k (streak_of (history g)) ?h = (streak_of (history g'), isl r)
      \<and> guardrail_ok g' \<and> max_repeats g' = ?k"
  proof (cases "?k \<le> n")
    case True
    then have "g' = g\<lparr>history := []\<rparr>" and "isl r"
      using reg trip by (auto simp: register_and_check_def Let_def)
    then show ?thesis using st True k by (simp add: streak_of_def guardrail_ok_def run_length_def)
  next
    case False
    then have g': "g' = g\<lparr>history := ?hs\<rparr>" and "r = Inr ()"
      using reg trip by (auto simp: register_and_check_def Let_def split: if_splits)
    moreover have "?hs \<noteq> []" using k by (auto simp flip: length_0_conv simp: length_append_bounded)
    ultimately show ?thesis using st False k rl
      by (simp add: streak_of_def guardrail_ok_def last_append_bounded length_append_bounded)
  qed
  then show "streak_step ?k (streak_of (history g)) ?h = (streak_of (history g'), isl r)"
    and "guardrail_ok g'" and "max_repeats g' = ?k" by simp_all
qed

section \<open>Whole runs\<close>

fun guardrail_run ::
  "(string \<Rightarrow> string) \<Rightarrow> loop_guardrail \<Rightarrow> (string \<times> (string, json) dict) list \<Rightarrow> bool list" where
  "guardrail_run sha256 g [] = []"
| "guardrail_run sha256 g ((tool, args) # acts) =
    (let (g', r) = register_and_check sha256 g tool args in isl r # guardrail_run sha256 g' acts)"

fun streak_run :: "nat \<Rightarrow> streak \<Rightarrow> string list \<Rightarrow> bool list" where
  "streak_run limit st [] = []"
| "streak_run limit st (h # hs) = (let (st', t) = streak_step limit st h in t # streak_run limit st' hs)"

lemma guardrail_run_refines:
  "guardrail_ok g \<Longrightarrow> guardrail_run sha256 g acts =
     streak_run (max_repeats g) (streak_of (history g)) (map (\<lambda>(t, a). action_hash sha256 t a) acts)"
proof (induction acts arbitrary: g)
  case (Cons a acts)
  obtain tool args where a: "a = (tool, args)" by fastforce
  obtain g' r where r: "register_and_check sha256 g tool args = (g', r)" by fastforce
  from register_simulates[OF Cons.prems r] Cons.IH[of g'] a r show ?case by simp
qed simp

lemma new_guardrail_ok: "new_guardrail repeats window = Inr g \<Longrightarrow> guardrail_ok g \<and> history g = []"
  by (auto simp: new_guardrail_def guardrail_ok_def run_length_def nat_le_iff split: if_splits)

text \<open>
  C18: however the window evicts, over any sequence of actions the guardrail trips at exactly the
  calls where a counter of consecutive identical actions, restarted at each trip, reaches
  \<open>max_repeats\<close>.
\<close>

theorem guardrail_equals_streak_counter:
  assumes "new_guardrail repeats window = Inr g"
  shows "guardrail_run sha256 g acts =
    streak_run (nat repeats) None (map (\<lambda>(tool, args). action_hash sha256 tool args) acts)"
  using guardrail_run_refines[of g sha256 acts] new_guardrail_ok[OF assms] assms
  by (auto simp: new_guardrail_def streak_of_def split: if_splits)

theorem guardrail_equals_streak_counter_witness:
  "\<exists>g. new_guardrail 3 5 = Inr g \<and>
    guardrail_run id g [(''a'', []), (''b'', []), (''b'', []), (''b'', []), (''b'', [])]
      = [False, False, False, True, False]"
proof -
  obtain g where g: "new_guardrail 3 5 = Inr g" by (simp add: new_guardrail_def)
  from guardrail_equals_streak_counter[OF g, of id "[(''a'', []), (''b'', []), (''b'', []), (''b'', []), (''b'', [])]"] g
  show ?thesis by (simp add: streak_step_def action_hash_def)
qed

end
