(* ===== verification/Table_Machine.thy ===== *)
theory Table_Machine
  imports Prelude
begin

text \<open>
  The interface of a table-driven state machine: a table of the allowed successors and an
  operation that is asked for a new state and refuses every one the table does not list.  Both
  \<open>ToolStateMachine.transition\<close> and \<open>StateGraphValidator.validate_transition\<close> are of this kind and
  interpret the locale in their own theories.
\<close>

locale table_machine =
  fixes successors :: "'s \<Rightarrow> 's list"
    and request :: "'s \<Rightarrow> 's \<Rightarrow> 'e + 's"
  assumes request_ok: "t \<in> set (successors s) \<Longrightarrow> request s t = Inr t"
    and request_refused: "t \<notin> set (successors s) \<Longrightarrow> \<exists>e. request s t = Inl e"
begin

text \<open>A list of requests; a refused one raises and leaves the state as it was.\<close>

fun served :: "'s \<Rightarrow> 's list \<Rightarrow> 's" where
  "served s [] = s"
| "served s (t # ts) = (case request s t of Inl _ \<Rightarrow> served s ts | Inr s' \<Rightarrow> served s' ts)"

definition allowed :: "'s \<Rightarrow> 's \<Rightarrow> bool" where
  "allowed s t \<longleftrightarrow> t \<in> set (successors s)"

lemma request_Inr_iff: "request s t = Inr u \<longleftrightarrow> u = t \<and> allowed s t"
  using request_ok[of t s] request_refused[of t s]
  by (cases "t \<in> set (successors s)") (auto simp: allowed_def)

lemma request_Inl_iff: "(\<exists>e. request s t = Inl e) \<longleftrightarrow> \<not> allowed s t"
  using request_ok[of t s] request_refused[of t s]
  by (cases "t \<in> set (successors s)") (auto simp: allowed_def)

lemma served_reachable: "allowed\<^sup>*\<^sup>* s (served s ts)"
proof (induction ts arbitrary: s)
  case (Cons t ts)
  show ?case
  proof (cases "request s t")
    case (Inr u)
    then have "allowed s u" by (simp add: request_Inr_iff)
    then show ?thesis using Cons.IH[of u] Inr by (simp add: converse_rtranclp_into_rtranclp)
  qed (use Cons.IH in simp)
qed simp

lemma served_terminal: "successors s = [] \<Longrightarrow> served s ts = s"
proof (induction ts)
  case (Cons t ts)
  then show ?case using request_refused[of t s] by auto
qed simp

lemma served_append: "served s (ts @ us) = served (served s ts) us"
  by (induction ts arbitrary: s) (auto split: sum.splits)

lemma allowed_preserves:
  assumes "allowed\<^sup>*\<^sup>* s t" and "P s" and "\<And>a b. P a \<Longrightarrow> allowed a b \<Longrightarrow> P b"
  shows "P t"
  using assms(1,2) by induction (auto intro: assms(3))

end

end
