(* ===== verification/Tool_State_Machine.thy ===== *)
theory Tool_State_Machine
  imports Table_Machine
begin

text \<open>
  \<open>sky_claw/antigravity/orchestrator/tool_state_machine.py\<close>: the \<open>IdempotencyGuard\<close>, the
  \<open>TaskRecord\<close>s and the \<open>ToolStateMachine\<close>.  Every clock reading (\<open>time.monotonic()\<close>) is an
  argument of the operation that makes it; \<open>sha256\<close> stands for
  \<open>hashlib.sha256(raw.encode()).hexdigest()\<close>, a function of the text.
\<close>

section \<open>The idempotency guard\<close>

text \<open>\<open>_active\<close>: idempotency key to task id.\<close>

type_synonym guard = "(string, string) dict"

definition make_key :: "(string \<Rightarrow> string) \<Rightarrow> string \<Rightarrow> (string, json) dict \<Rightarrow> string" where
  "make_key sha256 tool_name payload =
    (let canonical = dumps (JDict payload); raw = tool_name @ '':'' @ canonical in sha256 raw)"

definition acquire :: "guard \<Rightarrow> string \<Rightarrow> string \<Rightarrow> guard \<times> bool" where
  "acquire active key tid = (if dhas active key then (active, False) else (dset key tid active, True))"

definition release :: "guard \<Rightarrow> string \<Rightarrow> guard" where
  "release active key = ddel key active"

definition active_count :: "guard \<Rightarrow> nat" where
  "active_count active = length active"

definition is_active :: "guard \<Rightarrow> string \<Rightarrow> bool" where
  "is_active active key = dhas active key"

section \<open>Tasks\<close>

record task_record =
  task_id :: string
  tool_name :: string
  task_state :: string
  idempotency_key :: string
  created_at :: real
  updated_at :: real
  error_message :: "string option"
  task_result :: "json option"

datatype task_error = TaskKeyError string | InvalidTransition string string | ResultValidation

text \<open>\<open>result: dict[str, Any] | None\<close> of the strict pydantic model: anything else is refused.\<close>

fun valid_result :: "json option \<Rightarrow> bool" where
  "valid_result None = True"
| "valid_result (Some (JDict _)) = True"
| "valid_result (Some _) = False"

text \<open>\<open>_VALID_TRANSITIONS.get(s, set())\<close>.\<close>

definition valid_transitions :: "(string, string list) dict" where
  "valid_transitions =
    [(''PENDING'', [''RUNNING'', ''AWAITING_APPROVAL'']),
     (''AWAITING_APPROVAL'', [''RUNNING'', ''FAILED'']),
     (''RUNNING'', [''COMPLETED'', ''FAILED'']),
     (''COMPLETED'', []),
     (''FAILED'', [])]"

definition task_successors :: "string \<Rightarrow> string list" where
  "task_successors s = dget_or valid_transitions s []"

definition check_transition :: "string \<Rightarrow> string \<Rightarrow> task_error + string" where
  "check_transition current new_state =
    (if new_state \<notin> set (task_successors current) then Inl (InvalidTransition current new_state)
     else Inr new_state)"

definition is_terminal :: "string \<Rightarrow> bool" where
  "is_terminal s \<longleftrightarrow> s = ''COMPLETED'' \<or> s = ''FAILED''"

record machine =
  tasks :: "(string, task_record) dict"
  guard :: guard
  task_counter :: nat

definition new_machine :: machine where
  "new_machine = \<lparr>tasks = [], guard = [], task_counter = 0\<rparr>"

definition task_name :: "nat \<Rightarrow> string" where
  "task_name n = ''task_'' @ nat_str n"

definition create_task ::
  "(string \<Rightarrow> string) \<Rightarrow> machine \<Rightarrow> string \<Rightarrow> (string, json) dict \<Rightarrow> string \<Rightarrow> real \<Rightarrow>
   machine \<times> (task_error + task_record)" where
  "create_task sha256 m tool payload initial_state now =
    (if initial_state \<notin> {''PENDING'', ''AWAITING_APPROVAL''}
     then (m, Inl (InvalidTransition [] initial_state))
     else
       let n = Suc (task_counter m);
           tid = task_name n;
           rec = \<lparr>task_id = tid, tool_name = tool, task_state = initial_state,
                  idempotency_key = make_key sha256 tool payload,
                  created_at = now, updated_at = now, error_message = None, task_result = None\<rparr>
       in (m\<lparr>task_counter := n, tasks := dset tid rec (tasks m)\<rparr>, Inr rec))"

definition transition ::
  "machine \<Rightarrow> string \<Rightarrow> string \<Rightarrow> json option \<Rightarrow> string option \<Rightarrow> real \<Rightarrow>
   machine \<times> (task_error + task_record)" where
  "transition m tid new_state result error now =
    (case dget (tasks m) tid of
       None \<Rightarrow> (m, Inl (TaskKeyError tid))
     | Some current \<Rightarrow>
         (case check_transition (task_state current) new_state of
           Inl e \<Rightarrow> (m, Inl e)
         | Inr _ \<Rightarrow>
           let g = (if is_terminal new_state then release (guard m) (idempotency_key current) else guard m);
               updated = \<lparr>task_id = tid, tool_name = tool_name current, task_state = new_state,
                          idempotency_key = idempotency_key current,
                          created_at = created_at current, updated_at = now,
                          error_message = error, task_result = result\<rparr>
           in if \<not> valid_result result then (m\<lparr>guard := g\<rparr>, Inl ResultValidation)
              else (m\<lparr>guard := g, tasks := dset tid updated (tasks m)\<rparr>, Inr updated)))"

definition get_task :: "machine \<Rightarrow> string \<Rightarrow> task_record option" where
  "get_task m tid = dget (tasks m) tid"

definition active_task_count :: "machine \<Rightarrow> nat" where
  "active_task_count m = length (filter (\<lambda>(_, t). \<not> is_terminal (task_state t)) (tasks m))"

definition acquire_idempotency :: "machine \<Rightarrow> string \<Rightarrow> machine \<times> (task_error + bool)" where
  "acquire_idempotency m tid =
    (case dget (tasks m) tid of
       None \<Rightarrow> (m, Inl (TaskKeyError tid))
     | Some t \<Rightarrow> (let (g, ok) = acquire (guard m) (idempotency_key t) tid in (m\<lparr>guard := g\<rparr>, Inr ok)))"

definition stale_tasks :: "machine \<Rightarrow> real \<Rightarrow> real \<Rightarrow> string list" where
  "stale_tasks m max_age now =
    map fst (filter (\<lambda>(_, t). is_terminal (task_state t) \<and> now - updated_at t \<ge> max_age) (tasks m))"

definition cleanup_terminal :: "machine \<Rightarrow> real \<Rightarrow> real \<Rightarrow> machine \<times> nat" where
  "cleanup_terminal m max_age now =
    (let to_remove = stale_tasks m max_age now
     in (m\<lparr>tasks := foldl (\<lambda>d tid. ddel tid d) (tasks m) to_remove\<rparr>, length to_remove))"

section \<open>Steps and the invariant\<close>

text \<open>One call of a state-changing method, with any arguments and clock.\<close>

inductive machine_step :: "(string \<Rightarrow> string) \<Rightarrow> machine \<Rightarrow> machine \<Rightarrow> bool" for sha256 where
  step_create: "machine_step sha256 m (fst (create_task sha256 m tool payload s now))"
| step_transition: "machine_step sha256 m (fst (transition m tid s result error now))"
| step_acquire: "machine_step sha256 m (fst (acquire_idempotency m tid))"
| step_cleanup: "machine_step sha256 m (fst (cleanup_terminal m max_age now))"

abbreviation machine_steps :: "(string \<Rightarrow> string) \<Rightarrow> machine \<Rightarrow> machine \<Rightarrow> bool" where
  "machine_steps sha256 \<equiv> (machine_step sha256)\<^sup>*\<^sup>*"

definition known_state :: "string \<Rightarrow> bool" where
  "known_state s \<longleftrightarrow> dhas valid_transitions s"

definition task_ok :: "nat \<Rightarrow> string \<Rightarrow> task_record \<Rightarrow> bool" where
  "task_ok n tid t \<longleftrightarrow> task_id t = tid \<and> known_state (task_state t) \<and>
     (\<exists>i. 1 \<le> i \<and> i \<le> n \<and> tid = task_name i)"

definition machine_ok :: "machine \<Rightarrow> bool" where
  "machine_ok m \<longleftrightarrow> distinct (keys (tasks m)) \<and> distinct (keys (guard m)) \<and>
     (\<forall>tid t. dget (tasks m) tid = Some t \<longrightarrow> task_ok (task_counter m) tid t)"

lemmas machine_defs = create_task_def transition_def acquire_idempotency_def cleanup_terminal_def
  acquire_def release_def check_transition_def Let_def

interpretation tool: table_machine task_successors check_transition
  by unfold_locales (auto simp: check_transition_def)

lemma machine_okD:
  assumes "machine_ok m"
  shows "distinct (keys (tasks m))" and "distinct (keys (guard m))"
    and "dget (tasks m) tid = Some t \<Longrightarrow> task_ok (task_counter m) tid t"
  using assms by (auto simp: machine_ok_def)

lemma task_ok_mono: "task_ok n tid t \<Longrightarrow> n \<le> k \<Longrightarrow> task_ok k tid t"
  unfolding task_ok_def by (meson le_trans)

lemma task_ok_Suc [intro]: "task_ok n tid t \<Longrightarrow> task_ok (Suc n) tid t"
  by (rule task_ok_mono) auto

lemma known_successor: "s' \<in> set (task_successors s) \<Longrightarrow> known_state s'"
  by (auto simp: task_successors_def valid_transitions_def dget_or_def known_state_def dhas_def
      split: option.splits if_splits)

lemma task_name_inject [simp]: "task_name i = task_name j \<longleftrightarrow> i = j"
  by (simp add: task_name_def)

lemma foldl_ddel_dget: "dget (foldl (\<lambda>d k. ddel k d) d ks) k = (if k \<in> set ks then None else dget d k)"
proof (induction ks arbitrary: d)
  case (Cons a ks)
  then show ?case by (cases "k = a") simp_all
qed simp

lemma foldl_ddel_distinct: "distinct (keys d) \<Longrightarrow> distinct (keys (foldl (\<lambda>d k. ddel k d) d ks))"
  by (induction ks arbitrary: d) auto

lemma cleanup_dget:
  "dget (tasks (fst (cleanup_terminal m a now))) tid
   = (if tid \<in> set (stale_tasks m a now) then None else dget (tasks m) tid)"
  by (simp add: cleanup_terminal_def Let_def foldl_ddel_dget)

lemma machine_step_ok: "machine_step sha256 m m' \<Longrightarrow> machine_ok m \<Longrightarrow> machine_ok m'"
proof (induction rule: machine_step.induct)
  case (step_create m tool payload s now)
  have new: "task_ok (Suc (task_counter m)) (task_name (Suc (task_counter m))) t"
    if "task_id t = task_name (Suc (task_counter m))" "known_state (task_state t)" for t
    using that unfolding task_ok_def by (metis le_add1 le_refl plus_1_eq_Suc)
  have "known_state ''PENDING''" "known_state ''AWAITING_APPROVAL''"
    by (auto simp: known_state_def dhas_def valid_transitions_def)
  with step_create new show ?case
    by (auto simp: machine_ok_def create_task_def Let_def)
next
  case (step_transition m tid s result error now)
  show ?case
  proof (cases "dget (tasks m) tid")
    case None
    with step_transition show ?thesis by (simp add: transition_def)
  next
    case (Some t)
    with step_transition have "task_ok (task_counter m) tid t" by (simp add: machine_okD)
    with Some step_transition show ?thesis
      by (auto simp: machine_ok_def machine_defs task_ok_def known_successor split: sum.splits)
  qed
next
  case (step_acquire m tid)
  then show ?case by (auto simp: machine_ok_def machine_defs split: option.splits)
next
  case (step_cleanup m a now)
  then show ?case
    by (auto simp: machine_ok_def cleanup_dget foldl_ddel_distinct split: if_splits)
      (simp_all add: cleanup_terminal_def Let_def foldl_ddel_distinct)
qed

lemma new_machine_ok: "machine_ok new_machine"
  by (simp add: machine_ok_def new_machine_def)

lemma machine_steps_ok: "machine_steps sha256 m m' \<Longrightarrow> machine_ok m \<Longrightarrow> machine_ok m'"
  by (induction rule: rtranclp_induct) (auto intro: machine_step_ok)

section \<open>The life of a task\<close>

definition evolves :: "task_record \<Rightarrow> task_record \<Rightarrow> bool" where
  "evolves t t' \<longleftrightarrow> (\<lambda>a b. b \<in> set (task_successors a))\<^sup>*\<^sup>* (task_state t) (task_state t')
     \<and> tool_name t' = tool_name t \<and> idempotency_key t' = idempotency_key t
     \<and> created_at t' = created_at t \<and> (is_terminal (task_state t) \<longrightarrow> t' = t)"

lemma terminal_successors: "is_terminal s \<longleftrightarrow> known_state s \<and> task_successors s = []"
  by (auto simp: is_terminal_def task_successors_def known_state_def dhas_def dget_or_def
      valid_transitions_def split: if_splits)

lemma evolves_refl [simp]: "evolves t t"
  by (simp add: evolves_def)

lemma evolves_trans: "evolves t u \<Longrightarrow> evolves u v \<Longrightarrow> evolves t v"
  unfolding evolves_def by (auto intro: rtranclp_trans)

lemma create_task_dget:
  "tid = task_name i \<Longrightarrow> i \<le> task_counter m \<Longrightarrow>
   dget (tasks (fst (create_task sha256 m tool payload s now))) tid = dget (tasks m) tid"
  by (simp add: create_task_def Let_def)

lemma transition_dget:
  "dget (tasks m) tid' = Some t \<Longrightarrow>
   \<exists>t'. dget (tasks (fst (transition m tid s result error now))) tid' = Some t' \<and> evolves t t'"
  by (auto simp: transition_def check_transition_def Let_def evolves_def terminal_successors
      split: option.splits if_splits)

lemma transition_dget_None:
  "dget (tasks m) tid' = None \<Longrightarrow> dget (tasks (fst (transition m tid s result error now))) tid' = None"
  by (auto simp: transition_def check_transition_def Let_def split: option.splits)

lemma acquire_tasks [simp]: "tasks (fst (acquire_idempotency m tid)) = tasks m"
  by (simp add: acquire_idempotency_def acquire_def split: option.splits)

lemma acquire_counter [simp]: "task_counter (fst (acquire_idempotency m tid)) = task_counter m"
  by (simp add: acquire_idempotency_def acquire_def split: option.splits)

lemma step_counter: "machine_step sha256 m m' \<Longrightarrow> task_counter m \<le> task_counter m'"
  by (induction rule: machine_step.induct)
    (simp_all add: create_task_def transition_def cleanup_terminal_def Let_def
      split: option.splits sum.splits)

text \<open>What one step can do to an identifier that has been handed out.\<close>

definition follows :: "task_record option \<Rightarrow> task_record option \<Rightarrow> bool" where
  "follows before after \<longleftrightarrow>
    (case after of None \<Rightarrow> True | Some t' \<Rightarrow> (case before of None \<Rightarrow> False | Some t \<Rightarrow> evolves t t'))"

lemma follows_trans: "follows a b \<Longrightarrow> follows b c \<Longrightarrow> follows a c"
  by (auto simp: follows_def split: option.splits intro: evolves_trans)

lemma step_follows:
  "machine_step sha256 m m' \<Longrightarrow> i \<le> task_counter m \<Longrightarrow>
   follows (dget (tasks m) (task_name i)) (dget (tasks m') (task_name i))"
proof (induction rule: machine_step.induct)
  case (step_create m tool payload s now)
  then show ?case by (simp add: create_task_dget follows_def split: option.splits)
next
  case (step_transition m tid s result error now)
  show ?case
  proof (cases "dget (tasks m) (task_name i)")
    case None
    then show ?thesis by (simp add: transition_dget_None follows_def)
  next
    case (Some t)
    from transition_dget[OF this, of tid s result error now] Some
    show ?thesis by (auto simp: follows_def)
  qed
next
  case (step_cleanup m a now)
  then show ?case by (simp add: cleanup_dget follows_def split: option.splits)
qed (simp add: follows_def split: option.splits)

lemma steps_counter: "machine_steps sha256 m m' \<Longrightarrow> task_counter m \<le> task_counter m'"
  by (induction rule: rtranclp_induct) (auto dest: step_counter)

lemma steps_follow:
  assumes "machine_steps sha256 m m'" and "i \<le> task_counter m"
  shows "follows (dget (tasks m) (task_name i)) (dget (tasks m') (task_name i))"
  using assms(1)
proof (induction rule: rtranclp_induct)
  case base
  then show ?case by (simp add: follows_def split: option.splits)
next
  case (step y z)
  from steps_counter[OF step(1)] assms(2) have "i \<le> task_counter y" by simp
  from step_follows[OF step(2) this] step(3) show ?case by (blast intro: follows_trans)
qed

lemma task_ok_name:
  assumes "machine_ok m" and "dget (tasks m) tid = Some t"
  obtains i where "i \<le> task_counter m" and "tid = task_name i"
  using machine_okD(3)[OF assms] by (auto simp: task_ok_def)

lemma stale_tasks_set:
  assumes "machine_ok m"
  shows "tid \<in> set (stale_tasks m a now) \<longleftrightarrow>
    (\<exists>t. dget (tasks m) tid = Some t \<and> is_terminal (task_state t) \<and> a \<le> now - updated_at t)"
  using dict_mem_iff[OF machine_okD(1)[OF assms]] by (auto simp: stale_tasks_def image_iff)

lemma foldl_ddel_filter: "foldl (\<lambda>d k. ddel k d) d ks = filter (\<lambda>x. fst x \<notin> set ks) d"
  by (induction ks arbitrary: d) (auto simp: AList.delete_eq intro!: filter_cong)

section \<open>Properties\<close>

text \<open>
  C11: a task moves only along the table of allowed transitions, keeps its tool, key and creation
  time, and once COMPLETED or FAILED its record never changes again, whatever calls follow.
\<close>

theorem task_lifecycle:
  assumes "machine_steps sha256 new_machine m" and "machine_steps sha256 m m'"
    and "get_task m tid = Some t" and "get_task m' tid = Some t'"
  shows "evolves t t'"
proof -
  have "machine_ok m" using assms(1) new_machine_ok by (rule machine_steps_ok)
  then obtain i where "i \<le> task_counter m" "tid = task_name i"
    using assms(3) unfolding get_task_def by (rule task_ok_name)
  with steps_follow[OF assms(2), of i] assms(3,4) show ?thesis
    by (simp add: follows_def get_task_def)
qed

text \<open>
  \<open>create_task\<close> hands out an identifier that no earlier state of the machine ever used, not
  even for a task cleaned up since, and touches no other task.
\<close>

theorem create_task_fresh:
  assumes "machine_steps sha256 new_machine m0" and "machine_steps sha256 m0 m"
    and "create_task sha256 m tool payload s now = (m', Inr r)"
  shows "get_task m0 (task_id r) = None \<and> get_task m' (task_id r) = Some r
    \<and> (\<forall>tid. tid \<noteq> task_id r \<longrightarrow> get_task m' tid = get_task m tid)
    \<and> active_task_count m' = Suc (active_task_count m)"
proof -
  have ok0: "machine_ok m0" and ok: "machine_ok m"
    using assms(1,2) new_machine_ok by (auto intro: machine_steps_ok)
  let ?n = "Suc (task_counter m)"
  have r: "r = \<lparr>task_id = task_name ?n, tool_name = tool, task_state = s,
      idempotency_key = make_key sha256 tool payload, created_at = now, updated_at = now,
      error_message = None, task_result = None\<rparr>"
    and m': "m' = m\<lparr>task_counter := ?n, tasks := dset (task_name ?n) r (tasks m)\<rparr>"
    and s: "s = ''PENDING'' \<or> s = ''AWAITING_APPROVAL''"
    using assms(3) by (auto simp: create_task_def Let_def split: if_splits)
  have fresh: "dget (tasks x) (task_name ?n) = None" if "machine_ok x" "task_counter x < ?n" for x
  proof (cases "dget (tasks x) (task_name ?n)")
    case (Some t)
    then show ?thesis using task_ok_name[OF that(1) Some] that(2) by auto
  qed
  have none: "dget (tasks m0) (task_name ?n) = None" "dget (tasks m) (task_name ?n) = None"
    using fresh ok0 ok steps_counter[OF assms(2)] by auto
  have id: "task_id r = task_name ?n" and active: "\<not> is_terminal (task_state r)"
    using r s by (auto simp: is_terminal_def)
  have "tasks m' = tasks m @ [(task_name ?n, r)]"
    using m' dset_new[OF none(2)] by simp
  then have "active_task_count m' = Suc (active_task_count m)"
    using active by (simp add: active_task_count_def)
  with none id m' show ?thesis by (simp add: get_task_def)
qed

text \<open>A first task, created at time 0 and started at time 1, for the witnesses.\<close>

definition demo_created :: machine where
  "demo_created = fst (create_task id new_machine ''sort'' [] ''PENDING'' 0)"

definition demo_running :: machine where
  "demo_running = fst (transition (fst (acquire_idempotency demo_created (task_name 1)))
     (task_name 1) ''RUNNING'' None None 1)"

lemmas demo_defs = demo_created_def demo_running_def machine_defs new_machine_def
  task_successors_def valid_transitions_def dget_or_def is_terminal_def get_task_def

lemma demo_created_reached: "machine_steps sha new_machine new_machine"
    "machine_steps id new_machine demo_created"
  by (auto simp: demo_created_def intro: machine_step.step_create)

lemma demo_running_reached: "machine_steps id demo_created demo_running"
  unfolding demo_running_def
  by (rule rtranclp.rtrancl_into_rtrancl[OF r_into_rtranclp])
    (rule machine_step.step_acquire, rule machine_step.step_transition)

theorem task_lifecycle_witness:
  "\<exists>t t'. get_task demo_created (task_name 1) = Some t \<and> get_task demo_running (task_name 1) = Some t'
     \<and> task_state t = ''PENDING'' \<and> task_state t' = ''RUNNING'' \<and> evolves t t'"
proof -
  obtain t t' where t: "get_task demo_created (task_name 1) = Some t" "task_state t = ''PENDING''"
    and t': "get_task demo_running (task_name 1) = Some t'" "task_state t' = ''RUNNING''"
    by (auto simp: demo_defs dhas_def)
  from task_lifecycle[OF demo_created_reached(2) demo_running_reached t(1) t'(1)] t t'
  show ?thesis by blast
qed

theorem create_task_fresh_witness:
  "\<exists>m' r. create_task id demo_running ''sort'' [] ''PENDING'' 2 = (m', Inr r) \<and>
     get_task demo_created (task_id r) = None \<and> get_task m' (task_id r) = Some r"
proof -
  obtain m' r where c: "create_task id demo_running ''sort'' [] ''PENDING'' 2 = (m', Inr r)"
    by (simp add: create_task_def Let_def)
  from create_task_fresh[OF demo_created_reached(2) demo_running_reached c] c show ?thesis by blast
qed

text \<open>
  \<open>cleanup_terminal\<close> removes exactly the terminal tasks last updated \<open>max_age\<close> seconds ago or
  more, returns their number, and leaves every other task and the count of active tasks alone.
\<close>

theorem cleanup_removes_exactly:
  assumes "machine_steps sha256 new_machine m" and "cleanup_terminal m max_age now = (m', n)"
  shows "n = length (tasks m) - length (tasks m') \<and> active_task_count m' = active_task_count m
    \<and> guard m' = guard m
    \<and> (\<forall>tid. get_task m' tid = (case get_task m tid of None \<Rightarrow> None
          | Some t \<Rightarrow> if is_terminal (task_state t) \<and> now - updated_at t \<ge> max_age then None else Some t))"
proof -
  have ok: "machine_ok m" using assms(1) new_machine_ok by (rule machine_steps_ok)
  let ?ks = "stale_tasks m max_age now"
  have m': "m' = fst (cleanup_terminal m max_age now)" "n = length ?ks"
    using assms(2) by (auto simp: cleanup_terminal_def Let_def)
  let ?stale = "\<lambda>x. is_terminal (task_state (snd x)) \<and> now - updated_at (snd x) \<ge> max_age"
  have t': "tasks m' = foldl (\<lambda>d tid. ddel tid d) (tasks m) ?ks"
    using m' by (simp add: cleanup_terminal_def Let_def)
  have stale: "tid \<in> set ?ks \<longleftrightarrow> ?stale (tid, t)" if "(tid, t) \<in> set (tasks m)" for tid t
    using that stale_tasks_set[OF ok, of tid] dict_mem_iff[OF machine_okD(1)[OF ok], of tid t] by auto
  have left: "tasks m' = filter (\<lambda>x. fst x \<notin> set ?ks) (tasks m)"
    unfolding t' by (rule foldl_ddel_filter)
  also have "\<dots> = filter (Not \<circ> ?stale) (tasks m)"
    using stale by (auto intro!: filter_cong)
  finally have left': "tasks m' = filter (Not \<circ> ?stale) (tasks m)" .
  have "length ?ks = length (filter ?stale (tasks m))"
    by (simp add: stale_tasks_def case_prod_unfold)
  then have count: "n = length (tasks m) - length (tasks m')"
    using sum_length_filter_compl[of ?stale "tasks m"] m' left' by (simp add: comp_def)
  have active: "active_task_count m' = active_task_count m"
    unfolding active_task_count_def left' filter_filter
    by (rule arg_cong[where f = length], rule filter_cong) auto
  have "guard m' = guard m" using m' by (simp add: cleanup_terminal_def Let_def)
  moreover have "get_task m' tid = (case get_task m tid of None \<Rightarrow> None
          | Some t \<Rightarrow> if ?stale (tid, t) then None else Some t)" for tid
    using stale_tasks_set[OF ok, of tid] cleanup_dget[of m max_age now tid] m'
    by (auto simp: get_task_def split: option.splits)
  ultimately show ?thesis using count active by (simp split: option.split)
qed

definition demo_done :: machine where
  "demo_done = fst (transition demo_running (task_name 1) ''COMPLETED'' None None 2)"

theorem cleanup_removes_exactly_witness:
  "\<exists>m'. cleanup_terminal demo_done 10 20 = (m', 1) \<and> get_task m' (task_name 1) = None"
proof -
  have run: "machine_steps id new_machine demo_done"
    unfolding demo_done_def
    by (rule rtranclp_trans[OF demo_created_reached(2) rtranclp_trans[OF demo_running_reached]])
      (auto intro: machine_step.step_transition)
  obtain m' n where c: "cleanup_terminal demo_done 10 20 = (m', n)" by fastforce
  from cleanup_removes_exactly[OF run c] c show ?thesis
    by (simp add: demo_done_def demo_defs stale_tasks_def dhas_def)
qed

text \<open>
  The guard is keyed by tool and payload, not by task: when a task that never held the lock
  is denied (AWAITING_APPROVAL to FAILED), it releases the lock of the running task with the same
  key, and the next task with that key acquires it while the first is still RUNNING.
\<close>

theorem foreign_failure_releases_guard:
  assumes "get_task m a = Some ta" and "task_state ta = ''RUNNING''" and "is_active (guard m) k"
    and "get_task m b = Some tb" and "task_state tb = ''AWAITING_APPROVAL''"
    and "idempotency_key ta = k" and "idempotency_key tb = k"
    and "transition m b ''FAILED'' None error now = (m', r)"
  shows "(\<exists>t. r = Inr t) \<and> get_task m' a = Some ta \<and> \<not> is_active (guard m') k
    \<and> snd (acquire (guard m') k c) = True"
proof -
  have "b \<noteq> a" using assms(1,2,4,5) by auto
  with assms show ?thesis
    by (auto simp: transition_def check_transition_def task_successors_def valid_transitions_def
        dget_or_def is_terminal_def release_def is_active_def get_task_def acquire_def Let_def
        split: if_splits)
qed

definition demo_waiting :: machine where
  "demo_waiting = fst (create_task id demo_running ''sort'' [] ''AWAITING_APPROVAL'' 2)"

theorem foreign_failure_releases_guard_witness:
  "\<exists>m' r ta. transition demo_waiting (task_name 2) ''FAILED'' None None 3 = (m', r)
     \<and> get_task m' (task_name 1) = Some ta \<and> task_state ta = ''RUNNING''
     \<and> is_active (guard demo_waiting) (idempotency_key ta) \<and> \<not> is_active (guard m') (idempotency_key ta)"
proof -
  let ?k = "make_key id ''sort'' []"
  obtain ta tb where a: "get_task demo_waiting (task_name 1) = Some ta" "task_state ta = ''RUNNING''"
      "idempotency_key ta = ?k"
    and b: "get_task demo_waiting (task_name 2) = Some tb" "task_state tb = ''AWAITING_APPROVAL''"
      "idempotency_key tb = ?k"
    by (simp add: demo_waiting_def demo_defs dhas_def)
  have g: "is_active (guard demo_waiting) ?k"
    by (simp add: demo_waiting_def demo_defs is_active_def dhas_def)
  obtain m' r where t: "transition demo_waiting (task_name 2) ''FAILED'' None None 3 = (m', r)"
    by fastforce
  from foreign_failure_releases_guard[OF a(1,2) g b(1,2) a(3) b(3) t] a b g t show ?thesis by auto
qed

text \<open>
  Two payloads that differ only in the insertion order of their keys, at any depth, give the
  same idempotency key.
\<close>

theorem make_key_order_independent:
  assumes "same_json (JDict p) (JDict q)"
  shows "make_key sha256 tool p = make_key sha256 tool q"
  using dumps_same_json[OF assms] by (simp add: make_key_def)

theorem make_key_order_independent_witness:
  "make_key id ''t'' [(''b'', JInt 1), (''a'', JDict [(''y'', JNull), (''x'', JBool True)])]
   = make_key id ''t'' [(''a'', JDict [(''x'', JBool True), (''y'', JNull)]), (''b'', JInt 1)]"
proof (rule make_key_order_independent)
  have inner: "same_json (JDict [(''y'', JNull), (''x'', JBool True)]) (JDict [(''x'', JBool True), (''y'', JNull)])"
    by (rule same_dict[of "[(''y'', JNull), (''x'', JBool True)]"]) (auto intro: same_refl)
  show "same_json (JDict [(''b'', JInt 1), (''a'', JDict [(''y'', JNull), (''x'', JBool True)])])
     (JDict [(''a'', JDict [(''x'', JBool True), (''y'', JNull)]), (''b'', JInt 1)])"
    by (rule same_dict[of "[(''b'', JInt 1), (''a'', JDict [(''x'', JBool True), (''y'', JNull)])]"])
      (auto intro: same_refl inner)
qed

end
