(* ===== verification/Tool_Middleware.thy ===== *)
theory Tool_Middleware
  imports Tool_State_Machine
begin

text \<open>
  \<open>sky_claw/antigravity/orchestrator/tool_strategies/middleware.py\<close> and
  \<open>orchestrator/tool_dispatcher.py\<close>.  An async call is a state transformer on the world
  (\<open>'x call\<close>): it returns a value or raises.  The world holds the shared objects the middlewares
  use (the HITL gate's pending requests and decisions, the \<open>ToolStateMachine\<close>) and, in \<open>outer\<close>,
  everything the strategies themselves touch.  A strategy's \<open>execute\<close>, the operator's notification
  and the event bus are arguments.
\<close>

section \<open>Calls, exceptions and the world\<close>

text \<open>
  \<open>Exc\<close> is an \<open>Exception\<close> with its type name and \<open>str(exc)\<close>; \<open>BaseExc\<close> is what
  \<open>except Exception\<close> lets through (\<open>CancelledError\<close>, \<open>KeyboardInterrupt\<close>, \<open>SystemExit\<close>).
\<close>

datatype exn = Exc string string | BaseExc string

record 'x world =
  pending :: "string list"
  decisions :: "(string, bool) dict"
  sm :: machine
  outer :: 'x

type_synonym 'x call = "'x world \<Rightarrow> 'x world \<times> (exn + json)"
type_synonym payload = "(string, json) dict"
type_synonym 'x middleware = "string \<Rightarrow> payload \<Rightarrow> 'x call \<Rightarrow> 'x call"

definition is_dict :: "json \<Rightarrow> bool" where
  "is_dict v \<longleftrightarrow> (case v of JDict _ \<Rightarrow> True | _ \<Rightarrow> False)"

definition error_dict :: "string \<Rightarrow> string option \<Rightarrow> json" where
  "error_dict reason details = JDict ([(''status'', JStr ''error''), (''reason'', JStr reason)]
     @ (case details of None \<Rightarrow> [] | Some d \<Rightarrow> [(''details'', JStr d)]))"

section \<open>ErrorWrappingMiddleware and DictResultGuardMiddleware\<close>

definition error_wrapping :: "string \<Rightarrow> 'x middleware" where
  "error_wrapping reason_code name payload next_call w =
    (case next_call w of
       (w', Inl (Exc _ msg)) \<Rightarrow> (w', Inr (error_dict reason_code (Some msg)))
     | (w', r) \<Rightarrow> (w', r))"

definition dict_result_guard :: "string \<Rightarrow> 'x middleware" where
  "dict_result_guard reason_code name payload next_call w =
    (case next_call w of
       (w', Inl e) \<Rightarrow> (w', Inl e)
     | (w', Inr v) \<Rightarrow> if \<not> is_dict v then (w', Inr (error_dict reason_code None)) else (w', Inr v))"

section \<open>HitlGateMiddleware\<close>

definition DESTRUCTIVE_TOOL_PATTERNS :: "string list" where
  "DESTRUCTIVE_TOOL_PATTERNS =
    [''execute_loot_sorting'', ''generate_bashed_patch'', ''generate_lods'', ''resolve_conflict_patch'']"

text \<open>
  What the gate is given for one call: a fresh request id (\<open>uuid4().hex\<close>), the notification (an
  effect on the outer world that may raise; \<open>None\<close> when no \<open>notify_fn\<close> is configured), and the
  \<open>resolve\<close> calls, for this or other requests, that run between the notification and the moment
  the waiting coroutine resumes.  \<open>timeout_text\<close> is how Python prints the timeout.
\<close>

record 'x hitl_gate =
  notify_fn :: "(json \<Rightarrow> 'x \<Rightarrow> 'x \<times> exn option) option"
  timeout_text :: string
  destructive_tools :: "string list"

record hitl_episode =
  request_id :: string
  replies :: "(string \<times> bool) list"

definition new_hitl_gate ::
  "(json \<Rightarrow> 'x \<Rightarrow> 'x \<times> exn option) option \<Rightarrow> string \<Rightarrow> string list option \<Rightarrow> 'x hitl_gate" where
  "new_hitl_gate notify timeout tools =
    \<lparr>notify_fn = notify, timeout_text = timeout,
     destructive_tools = (case tools of None \<Rightarrow> DESTRUCTIVE_TOOL_PATTERNS
       | Some [] \<Rightarrow> DESTRUCTIVE_TOOL_PATTERNS | Some ts \<Rightarrow> ts)\<rparr>"

text \<open>
  \<open>resolve\<close> stores the decision and sets the event of a pending request; the wait of a request
  ends by its event exactly when some reply names it.
\<close>

definition resolve :: "'x world \<Rightarrow> string \<Rightarrow> bool \<Rightarrow> 'x world" where
  "resolve w rid approved = w\<lparr>decisions := dset rid approved (decisions w)\<rparr>"

definition event_set :: "'x world \<Rightarrow> string \<Rightarrow> (string \<times> bool) list \<Rightarrow> bool" where
  "event_set w rid rs \<longleftrightarrow> rid \<in> set (pending w) \<and> rid \<in> fst ` set rs"

definition approval_request :: "string \<Rightarrow> string \<Rightarrow> string \<Rightarrow> json" where
  "approval_request rid tool timeout = JDict
    [(''request_id'', JStr rid), (''tool_name'', JStr tool),
     (''reason'', JStr (''Tool '' @ [CHR 0x27] @ tool @ [CHR 0x27] @ '' requires human approval before execution.'')),
     (''timeout'', JFloat timeout)]"

definition hitl_gate_call :: "'x hitl_gate \<Rightarrow> hitl_episode \<Rightarrow> 'x middleware" where
  "hitl_gate_call gate ep name payload next_call w =
    (if name \<notin> set (destructive_tools gate) then next_call w
     else case notify_fn gate of
       None \<Rightarrow> next_call w
     | Some notify \<Rightarrow>
        let rid = request_id ep;
            w1 = w\<lparr>pending := pending w @ [rid]\<rparr>;
            (x, failure) = notify (approval_request rid name (timeout_text gate)) (outer w1);
            w2 = w1\<lparr>outer := x\<rparr>
        in case failure of
             Some e \<Rightarrow> (w2, Inl e)
           | None \<Rightarrow>
              let w3 = foldl (\<lambda>w (r, a). resolve w r a) w2 (replies ep);
                  w4 = w3\<lparr>pending := filter (\<lambda>r. r \<noteq> rid) (pending w3)\<rparr>
              in if \<not> event_set w2 rid (replies ep)
                 then (w4, Inr (error_dict ''HITLApprovalTimeout''
                   (Some (''Human approval timed out for '' @ [CHR 0x27] @ name @ [CHR 0x27] @ '' after '' @ timeout_text gate @ ''s.''))))
                 else
                   let approved = dget_or (decisions w4) rid False;
                       w5 = w4\<lparr>decisions := ddel rid (decisions w4)\<rparr>
                   in if \<not> approved
                      then (w5, Inr (error_dict ''HITLApprovalDenied''
                        (Some (''Human operator denied execution of '' @ [CHR 0x27] @ name @ [CHR 0x27] @ ''.''))))
                      else next_call w5)"

section \<open>IdempotencyMiddleware\<close>

text \<open>
  The middleware in two halves, before and after it awaits the inner chain: \<open>idem_begin\<close> runs
  without a suspension point, \<open>idem_finish\<close> sees how the inner call ended.  The clock readings of
  \<open>create_task\<close> and of the transitions are arguments.
\<close>

fun task_exn :: "task_error \<Rightarrow> exn" where
  "task_exn (TaskKeyError tid) = Exc ''KeyError'' (''Task not found: '' @ tid)"
| "task_exn (InvalidTransition a b) = Exc ''InvalidTransitionError'' (''Invalid transition: '' @ a @ '' -> '' @ b)"
| "task_exn ResultValidation = Exc ''ValidationError'' ''result''"

datatype begun = Duplicate | Begun string | BeginRaised exn

definition idem_begin ::
  "(string \<Rightarrow> string) \<Rightarrow> machine \<Rightarrow> string \<Rightarrow> payload \<Rightarrow> real \<Rightarrow> real \<Rightarrow> machine \<times> begun" where
  "idem_begin sha256 m name payload t_create t_run =
    (if is_active (guard m) (make_key sha256 name payload) then (m, Duplicate)
     else case create_task sha256 m name payload ''PENDING'' t_create of
       (m1, Inl e) \<Rightarrow> (m1, BeginRaised (task_exn e))
     | (m1, Inr task) \<Rightarrow>
         (case acquire_idempotency m1 (task_id task) of
            (m2, Inl e) \<Rightarrow> (m2, BeginRaised (task_exn e))
          | (m2, Inr _) \<Rightarrow>
              (case transition m2 (task_id task) ''RUNNING'' None None t_run of
                 (m3, Inl e) \<Rightarrow> (m3, BeginRaised (task_exn e))
               | (m3, Inr _) \<Rightarrow> (m3, Begun (task_id task)))))"

definition idem_finish :: "machine \<Rightarrow> string \<Rightarrow> exn + json \<Rightarrow> real \<Rightarrow> machine \<times> (exn + json)" where
  "idem_finish m tid outcome now =
    (case outcome of
       Inl (BaseExc b) \<Rightarrow> (m, Inl (BaseExc b))
     | Inl (Exc ty msg) \<Rightarrow>
         (case transition m tid ''FAILED'' None (Some msg) now of
            (m', Inl e) \<Rightarrow> (m', Inl (task_exn e))
          | (m', Inr _) \<Rightarrow> (m', Inl (Exc ty msg)))
     | Inr result \<Rightarrow>
         (case transition m tid ''COMPLETED'' (Some result) None now of
            (m', Inl e) \<Rightarrow> (m', Inl (task_exn e))
          | (m', Inr _) \<Rightarrow> (m', Inr result)))"

definition duplicate_details :: "string \<Rightarrow> string" where
  "duplicate_details name = ''Tool '' @ [CHR 0x27] @ name @ [CHR 0x27]
     @ '' is already executing with the same arguments. Wait for the current execution to finish.''"

definition idempotency :: "(string \<Rightarrow> string) \<Rightarrow> real \<Rightarrow> real \<Rightarrow> real \<Rightarrow> 'x middleware" where
  "idempotency sha256 t_create t_run t_end name payload next_call w =
    (case idem_begin sha256 (sm w) name payload t_create t_run of
       (m, Duplicate) \<Rightarrow> (w\<lparr>sm := m\<rparr>, Inr (error_dict ''DuplicateExecution'' (Some (duplicate_details name))))
     | (m, BeginRaised e) \<Rightarrow> (w\<lparr>sm := m\<rparr>, Inl e)
     | (m, Begun tid) \<Rightarrow>
         (let (w', outcome) = next_call (w\<lparr>sm := m\<rparr>);
              (m', r) = idem_finish (sm w') tid outcome t_end
          in (w'\<lparr>sm := m'\<rparr>, r)))"

section \<open>ProgressMiddleware\<close>

text \<open>\<open>_publish\<close>: an \<open>Exception\<close> of the bus is swallowed, anything else propagates.\<close>

type_synonym 'x bus = "string \<Rightarrow> json \<Rightarrow> 'x \<Rightarrow> 'x \<times> exn option"

definition publish :: "'x bus \<Rightarrow> string \<Rightarrow> json \<Rightarrow> 'x world \<Rightarrow> 'x world \<times> exn option" where
  "publish bus topic body w =
    (case bus topic body (outer w) of
       (x, Some (BaseExc b)) \<Rightarrow> (w\<lparr>outer := x\<rparr>, Some (BaseExc b))
     | (x, _) \<Rightarrow> (w\<lparr>outer := x\<rparr>, None))"

definition result_status :: "json \<Rightarrow> json" where
  "result_status v = (case v of JDict d \<Rightarrow> dget_or d ''status'' (JStr ''unknown'') | _ \<Rightarrow> JStr ''unknown'')"

definition progress :: "'x bus option \<Rightarrow> 'x middleware" where
  "progress bus_opt name payload next_call w =
    (case bus_opt of
       None \<Rightarrow> next_call w
     | Some bus \<Rightarrow>
        (case publish bus ''ops.tool.started''
                (JDict [(''tool'', JStr name), (''payload_keys'', JList (map JStr (keys payload)))]) w of
           (w1, Some e) \<Rightarrow> (w1, Inl e)
         | (w1, None) \<Rightarrow>
            (case next_call w1 of
               (w2, Inl (BaseExc b)) \<Rightarrow> (w2, Inl (BaseExc b))
             | (w2, Inl (Exc ty msg)) \<Rightarrow>
                 (case publish bus ''ops.tool.failed''
                         (JDict [(''tool'', JStr name), (''error'', JStr msg), (''error_type'', JStr ty)]) w2 of
                    (w3, Some e) \<Rightarrow> (w3, Inl e)
                  | (w3, None) \<Rightarrow> (w3, Inl (Exc ty msg)))
             | (w2, Inr result) \<Rightarrow>
                 (case publish bus ''ops.tool.completed''
                         (JDict [(''tool'', JStr name), (''status'', result_status result)]) w2 of
                    (w3, Some e) \<Rightarrow> (w3, Inl e)
                  | (w3, None) \<Rightarrow> (w3, Inr result)))))"

section \<open>OrchestrationToolDispatcher\<close>

record 'x dispatcher =
  strategies :: "(string, payload \<Rightarrow> 'x call) dict"
  chains :: "(string, 'x middleware list) dict"

definition new_dispatcher :: "'x dispatcher" where
  "new_dispatcher = \<lparr>strategies = [], chains = []\<rparr>"

definition register ::
  "'x dispatcher \<Rightarrow> string \<Rightarrow> (payload \<Rightarrow> 'x call) \<Rightarrow> 'x middleware list \<Rightarrow> exn + 'x dispatcher" where
  "register d name execute mws =
    (if dhas (strategies d) name
     then Inl (Exc ''DuplicateToolError'' (''Tool '' @ [CHR 0x27] @ name @ [CHR 0x27] @ '' already registered.''))
     else Inr (d\<lparr>strategies := dset name execute (strategies d), chains := dset name mws (chains d)\<rparr>))"

text \<open>The thunks are built from the innermost outwards (\<open>for mw in reversed(middlewares)\<close>).\<close>

fun build_chain :: "string \<Rightarrow> payload \<Rightarrow> 'x middleware list \<Rightarrow> 'x call \<Rightarrow> 'x call" where
  "build_chain name payload [] innermost = innermost"
| "build_chain name payload (mw # mws) innermost = mw name payload (build_chain name payload mws innermost)"

definition dispatch :: "'x dispatcher \<Rightarrow> string \<Rightarrow> payload \<Rightarrow> 'x call" where
  "dispatch d name payload w =
    (case dget (strategies d) name of
       None \<Rightarrow> (w, Inr (error_dict ''ToolNotFound'' None))
     | Some execute \<Rightarrow> build_chain name payload (dget_or (chains d) name []) (execute payload) w)"

definition registered_tools :: "'x dispatcher \<Rightarrow> string list" where
  "registered_tools d = keys (strategies d)"

fun register_all ::
  "'x dispatcher \<Rightarrow> (string \<times> (payload \<Rightarrow> 'x call) \<times> 'x middleware list) list \<Rightarrow> exn + 'x dispatcher" where
  "register_all d [] = Inr d"
| "register_all d ((name, execute, mws) # rest) =
    (case register d name execute mws of Inl e \<Rightarrow> Inl e | Inr d' \<Rightarrow> register_all d' rest)"

text \<open>
  \<open>build_orchestration_dispatcher\<close>: \<open>execute name\<close> is the strategy of that name, \<open>gate\<close> the one
  gate all guarded tools share, applied in the episode \<open>ep\<close>.
\<close>

definition orchestration_tools ::
  "'x hitl_gate \<Rightarrow> hitl_episode \<Rightarrow> (string \<Rightarrow> payload \<Rightarrow> 'x call) \<Rightarrow>
   (string \<times> (payload \<Rightarrow> 'x call) \<times> 'x middleware list) list" where
  "orchestration_tools gate ep execute =
    [(''query_mod_metadata'', execute ''query_mod_metadata'', []),
     (''execute_loot_sorting'', execute ''execute_loot_sorting'', [hitl_gate_call gate ep]),
     (''execute_synthesis_pipeline'', execute ''execute_synthesis_pipeline'',
        [error_wrapping ''SynthesisPipelineExecutionFailed'', dict_result_guard ''InvalidSynthesisPipelineResult'']),
     (''resolve_conflict_with_patch'', execute ''resolve_conflict_with_patch'',
        [hitl_gate_call gate ep, error_wrapping ''XEditPatchExecutionFailed'',
         dict_result_guard ''InvalidXEditPatchResult'']),
     (''generate_lods'', execute ''generate_lods'', [hitl_gate_call gate ep]),
     (''scan_asset_conflicts'', execute ''scan_asset_conflicts'', []),
     (''scan_asset_conflicts_json'', execute ''scan_asset_conflicts_json'', []),
     (''generate_bashed_patch'', execute ''generate_bashed_patch'', [hitl_gate_call gate ep]),
     (''validate_plugin_limit'', execute ''validate_plugin_limit'', [])]"

definition build_orchestration_dispatcher ::
  "'x hitl_gate option \<Rightarrow> hitl_episode \<Rightarrow> (string \<Rightarrow> payload \<Rightarrow> 'x call) \<Rightarrow> exn + 'x dispatcher" where
  "build_orchestration_dispatcher gate ep execute =
    register_all new_dispatcher
      (orchestration_tools (case gate of None \<Rightarrow> new_hitl_gate None ''120.0'' None | Some g \<Rightarrow> g) ep execute)"

section \<open>The idempotency middleware as interleaved calls\<close>

text \<open>
  The machine and the calls suspended in \<open>await next_call()\<close>, by task id.  Between two of these
  steps any other call may run: each half of the middleware is free of suspension points.
\<close>

type_synonym idem_state = "machine \<times> string list"

inductive idem_step :: "(string \<Rightarrow> string) \<Rightarrow> idem_state \<Rightarrow> idem_state \<Rightarrow> bool" for sha256 where
  idem_start: "idem_begin sha256 m name payload t1 t2 = (m', Begun tid) \<Longrightarrow>
     idem_step sha256 (m, live) (m', tid # live)"
| idem_end: "tid \<in> set live \<Longrightarrow>
     idem_step sha256 (m, live) (fst (idem_finish m tid outcome now), removeAll tid live)"
| idem_clean: "idem_step sha256 (m, live) (fst (cleanup_terminal m max_age now), live)"

inductive_cases idem_stepE: "idem_step sha256 (m, live) (m', live')"

abbreviation idem_steps :: "(string \<Rightarrow> string) \<Rightarrow> idem_state \<Rightarrow> idem_state \<Rightarrow> bool" where
  "idem_steps sha256 \<equiv> (idem_step sha256)\<^sup>*\<^sup>*"

text \<open>A call holds its key: its task runs and the guard's entry for its key is that task.\<close>

definition holds :: "machine \<Rightarrow> string \<Rightarrow> task_record \<Rightarrow> bool" where
  "holds m tid t \<longleftrightarrow> get_task m tid = Some t \<and> task_state t = ''RUNNING''
     \<and> dget (guard m) (idempotency_key t) = Some tid"

definition idem_inv :: "idem_state \<Rightarrow> bool" where
  "idem_inv s \<longleftrightarrow> machine_ok (fst s) \<and> list_all (\<lambda>tid. \<exists>t. holds (fst s) tid t) (snd s)"

lemmas begin_defs = idem_begin_def create_task_def acquire_idempotency_def acquire_def
  transition_def check_transition_def task_successors_def valid_transitions_def is_terminal_def
  is_active_def Let_def

lemma idem_begin_eq:
  fixes m sha256 name payload
  defines "k \<equiv> make_key sha256 name payload" and "tid \<equiv> task_name (Suc (task_counter m))"
  shows "idem_begin sha256 m name payload t1 t2 =
    (if is_active (guard m) k then (m, Duplicate)
     else (m\<lparr>task_counter := Suc (task_counter m), guard := dset k tid (guard m),
            tasks := dset tid \<lparr>task_id = tid, tool_name = name, task_state = ''RUNNING'',
              idempotency_key = k, created_at = t1, updated_at = t2,
              error_message = None, task_result = None\<rparr> (tasks m)\<rparr>, Begun tid))"
proof -
  have twice: "dset a y (dset a x d) = dset a y d" for a x y and d :: "(string, task_record) dict"
    by (induction d) auto
  show ?thesis by (simp add: k_def tid_def begin_defs dget_or_def twice)
qed

lemma idem_begin_steps:
  "idem_begin sha256 m name payload t1 t2 = (m', Begun tid) \<Longrightarrow> machine_steps sha256 m m'"
proof -
  assume b: "idem_begin sha256 m name payload t1 t2 = (m', Begun tid)"
  let ?m1 = "fst (create_task sha256 m name payload ''PENDING'' t1)"
  obtain m1 task where c: "create_task sha256 m name payload ''PENDING'' t1 = (m1, Inr task)"
    by (simp add: create_task_def Let_def)
  obtain m2 r2 where a: "acquire_idempotency m1 (task_id task) = (m2, r2)" by fastforce
  obtain m3 r3 where r: "transition m2 (task_id task) ''RUNNING'' None None t2 = (m3, r3)" by fastforce
  have "m' = m3" using b c a r by (auto simp: idem_begin_def split: if_splits sum.splits)
  moreover have "machine_step sha256 m m1" "machine_step sha256 m1 m2" "machine_step sha256 m2 m3"
    using machine_step.step_create[of sha256 m name payload "''PENDING''" t1]
      machine_step.step_acquire[of sha256 m1 "task_id task"]
      machine_step.step_transition[of sha256 m2 "task_id task" "''RUNNING''" None None t2] c a r
    by simp_all
  ultimately show ?thesis by (blast intro: converse_rtranclp_into_rtranclp)
qed

lemma transition_steps: "machine_steps sha256 m (fst (transition m tid s result error now))"
  by (rule r_into_rtranclp) (rule machine_step.step_transition)

lemma idem_finish_cases:
  obtains "fst (idem_finish m tid outcome now) = m"
  | s result error where "fst (idem_finish m tid outcome now) = fst (transition m tid s result error now)"
proof (cases outcome)
  case (Inl e)
  then show thesis
    using that(1) that(2)[of "''FAILED''" None "Some (case e of Exc _ msg \<Rightarrow> msg | BaseExc _ \<Rightarrow> [])"]
    by (cases e) (auto simp: idem_finish_def split: prod.splits sum.splits)
next
  case (Inr v)
  then show thesis
    using that(2)[of "''COMPLETED''" "Some v" None]
    by (auto simp: idem_finish_def split: prod.splits sum.splits)
qed

lemma idem_finish_steps: "machine_steps sha256 m (fst (idem_finish m tid outcome now))"
  by (rule idem_finish_cases[of m tid outcome now]) (simp_all add: transition_steps)

lemma idem_step_ok:
  "idem_step sha256 s s' \<Longrightarrow> machine_ok (fst s) \<Longrightarrow> machine_ok (fst s')"
proof (induction rule: idem_step.induct)
  case (idem_start m name payload t1 t2 m' tid live)
  then show ?case using machine_steps_ok[OF idem_begin_steps[OF idem_start(1)]] by simp
next
  case (idem_end tid live m outcome now)
  then show ?case using machine_steps_ok[OF idem_finish_steps] by simp
next
  case (idem_clean m live a now)
  then show ?case using machine_step_ok[OF machine_step.step_cleanup[of sha256 m a now]] by simp
qed

text \<open>A step by another call leaves a held key held.\<close>

lemma transition_holds:
  "holds m tid t \<Longrightarrow> holds m tid' t' \<Longrightarrow> tid' \<noteq> tid \<Longrightarrow>
   holds (fst (transition m tid' s result error now)) tid t"
  by (auto simp: holds_def transition_def check_transition_def release_def get_task_def Let_def
      split: if_splits sum.splits)

lemma finish_holds:
  "holds m tid t \<Longrightarrow> holds m tid' t' \<Longrightarrow> tid' \<noteq> tid \<Longrightarrow> holds (fst (idem_finish m tid' outcome now)) tid t"
  by (rule idem_finish_cases[of m tid' outcome now]) (simp_all add: transition_holds)

lemma begin_holds:
  assumes "idem_begin sha256 m name payload t1 t2 = (m', Begun tid')" and "machine_ok m" and "holds m tid t"
  shows "holds m' tid t \<and> tid' \<noteq> tid"
proof -
  let ?k = "make_key sha256 name payload"
  have "dget (guard m) ?k = None" and tid': "tid' = task_name (Suc (task_counter m))"
    using assms(1) by (auto simp: idem_begin_eq is_active_def dhas_def split: if_splits)
  moreover have "tid' \<noteq> tid"
  proof -
    have "dget (tasks m) tid = Some t" using assms(3) by (simp add: holds_def get_task_def)
    with assms(2) obtain i where "i \<le> task_counter m" "tid = task_name i" by (rule task_ok_name)
    then show ?thesis using tid' by simp
  qed
  ultimately show ?thesis using assms(1,3)
    by (auto simp: idem_begin_eq holds_def get_task_def split: if_splits)
qed

lemma begin_new_holds:
  "idem_begin sha256 m name payload t1 t2 = (m', Begun tid) \<Longrightarrow>
   \<exists>t. holds m' tid t \<and> idempotency_key t = make_key sha256 name payload"
  by (auto simp: idem_begin_eq holds_def get_task_def split: if_splits)

lemma cleanup_holds: "machine_ok m \<Longrightarrow> holds m tid t \<Longrightarrow> holds (fst (cleanup_terminal m a now)) tid t"
  by (auto simp: holds_def get_task_def cleanup_dget stale_tasks_set is_terminal_def)
    (simp add: cleanup_terminal_def Let_def)

lemma idem_step_holds:
  "idem_step sha256 s s' \<Longrightarrow> idem_inv s \<Longrightarrow> holds (fst s) tid t \<Longrightarrow> tid \<notin> set (snd s) \<Longrightarrow>
   holds (fst s') tid t \<and> tid \<notin> set (snd s')"
proof (induction rule: idem_step.induct)
  case (idem_start m name payload t1 t2 m' tid' live)
  then show ?case using begin_holds[OF idem_start(1), of tid t] by (auto simp: idem_inv_def)
next
  case (idem_end tid' live m outcome now)
  then obtain t' where "holds m tid' t'" by (auto simp: idem_inv_def list_all_iff)
  then show ?case using idem_end finish_holds[of m tid t tid' t'] by auto
next
  case (idem_clean m live a now)
  then show ?case by (auto simp: idem_inv_def cleanup_holds)
qed

lemma idem_step_inv: "idem_step sha256 s s' \<Longrightarrow> idem_inv s \<Longrightarrow> idem_inv s'"
proof -
  assume st: "idem_step sha256 s s'" and inv: "idem_inv s"
  have ok: "machine_ok (fst s')" using idem_step_ok[OF st] inv by (simp add: idem_inv_def)
  from st inv have "list_all (\<lambda>tid. \<exists>t. holds (fst s') tid t) (snd s')"
  proof (induction rule: idem_step.induct)
    case (idem_start m name payload t1 t2 m' tid' live)
    then show ?case using begin_holds[OF idem_start(1)] begin_new_holds[OF idem_start(1)]
      by (fastforce simp: idem_inv_def list_all_iff)
  next
    case (idem_end tid' live m outcome now)
    then obtain t' where "holds m tid' t'" by (auto simp: idem_inv_def list_all_iff)
    then show ?case using idem_end finish_holds[of m _ _ tid' t']
      by (fastforce simp: idem_inv_def list_all_iff)
  next
    case (idem_clean m live a now)
    then show ?case by (fastforce simp: idem_inv_def list_all_iff intro: cleanup_holds)
  qed
  with ok show ?thesis by (simp add: idem_inv_def)
qed

lemma idem_steps_inv: "idem_steps sha256 s s' \<Longrightarrow> idem_inv s \<Longrightarrow> idem_inv s'"
  by (induction rule: rtranclp_induct) (auto intro: idem_step_inv)

lemma idem_steps_holds:
  "idem_steps sha256 s s' \<Longrightarrow> idem_inv s \<Longrightarrow> holds (fst s) tid t \<Longrightarrow> tid \<notin> set (snd s) \<Longrightarrow>
   holds (fst s') tid t \<and> tid \<notin> set (snd s')"
proof (induction rule: rtranclp_induct)
  case (step y z)
  from idem_steps_inv[OF step(1) step(4)] idem_step_holds[OF step(2)] step show ?case by blast
qed simp

lemma idem_inv_new: "idem_inv (new_machine, [])"
  by (simp add: idem_inv_def new_machine_ok)

section \<open>Properties of the idempotency middleware\<close>

text \<open>
  C3: two different tool calls are never executing at once with the same tool and payload: in
  every state the interleaved calls can reach, two calls inside \<open>await next_call()\<close> whose tasks
  have the same idempotency key are the same call.
\<close>

theorem idempotent_calls_exclusive:
  assumes "idem_steps sha256 (new_machine, []) (m, live)" and "a \<in> set live" and "b \<in> set live"
    and "get_task m a = Some ta" and "get_task m b = Some tb" and "idempotency_key ta = idempotency_key tb"
  shows "a = b"
proof -
  have "idem_inv (m, live)" using assms(1) idem_inv_new by (rule idem_steps_inv)
  then have "\<forall>tid \<in> set live. \<exists>t. holds m tid t" by (simp add: idem_inv_def list_all_iff)
  with assms(2,3) obtain ta' tb' where "holds m a ta'" "holds m b tb'" by blast
  then show ?thesis using assms(4-6) by (auto simp: holds_def)
qed

definition demo_begun :: machine where
  "demo_begun = fst (idem_begin id new_machine ''sort'' [] 0 1)"

lemma demo_begun_eq: "idem_begin id new_machine ''sort'' [] 0 1 = (demo_begun, Begun (task_name 1))"
  by (simp add: demo_begun_def idem_begin_eq is_active_def new_machine_def dhas_def)

lemma demo_begun_task:
  obtains t where "get_task demo_begun (task_name 1) = Some t" and "holds demo_begun (task_name 1) t"
    and "idempotency_key t = make_key id ''sort'' []"
  using begin_new_holds[OF demo_begun_eq] by (auto simp: holds_def)

theorem idempotent_calls_exclusive_witness:
  "idem_steps id (new_machine, []) (demo_begun, [task_name 1])
   \<and> (\<exists>t. get_task demo_begun (task_name 1) = Some t \<and> (\<forall>a \<in> set [task_name 1]. a = task_name 1))"
proof -
  have s: "idem_steps id (new_machine, []) (demo_begun, [task_name 1])"
    by (rule r_into_rtranclp) (rule idem_start, rule demo_begun_eq)
  obtain t where t: "get_task demo_begun (task_name 1) = Some t" by (rule demo_begun_task)
  from idempotent_calls_exclusive[OF s _ _ t t refl] t s show ?thesis by simp
qed

text \<open>
  A tool call that ends by a \<open>CancelledError\<close> (or any exception outside \<open>Exception\<close>) leaves
  its task RUNNING and its key taken for good: whatever calls follow, every later call with the
  same tool and payload is answered DuplicateExecution.
\<close>

theorem cancelled_call_blocks_forever:
  assumes "idem_steps sha256 (new_machine, []) (m, live)"
    and "idem_begin sha256 m name payload t1 t2 = (m1, Begun tid)"
    and "idem_steps sha256 (fst (idem_finish m1 tid (Inl (BaseExc b)) t3), live) (m', live')"
  shows "idem_begin sha256 m' name payload t4 t5 = (m', Duplicate)
    \<and> (\<exists>t. get_task m' tid = Some t \<and> task_state t = ''RUNNING'')"
proof -
  have inv: "idem_inv (m, live)" using assms(1) idem_inv_new by (rule idem_steps_inv)
  have inv1: "idem_inv (m1, tid # live)"
    by (rule idem_step_inv[OF idem_start[OF assms(2)] inv])
  obtain t where t: "holds m1 tid t" "idempotency_key t = make_key sha256 name payload"
    using begin_new_holds[OF assms(2)] by blast
  have "tid \<notin> set live"
    using begin_holds[OF assms(2)] inv by (fastforce simp: idem_inv_def list_all_iff)
  moreover have "idem_inv (m1, live)" using inv1 by (simp add: idem_inv_def)
  moreover have "fst (idem_finish m1 tid (Inl (BaseExc b)) t3) = m1" by (simp add: idem_finish_def)
  ultimately have "holds m' tid t"
    using idem_steps_holds[OF assms(3), of tid t] t by simp
  then show ?thesis using t(2)
    by (auto simp: holds_def idem_begin_eq is_active_def dhas_def)
qed

theorem cancelled_call_blocks_forever_witness:
  "idem_begin id demo_begun ''sort'' [] 7 8 = (demo_begun, Duplicate)"
proof -
  have "fst (idem_finish demo_begun (task_name 1) (Inl (BaseExc ''CancelledError'')) 3) = demo_begun"
    by (simp add: idem_finish_def)
  then have "idem_steps id (fst (idem_finish demo_begun (task_name 1) (Inl (BaseExc ''CancelledError'')) 3), []) (demo_begun, [])"
    by simp
  from cancelled_call_blocks_forever[OF rtranclp.rtrancl_refl demo_begun_eq this] show ?thesis by blast
qed

section \<open>Properties of the gate and of the dispatcher\<close>

lemma decisions_after_replies:
  "decisions (foldl (\<lambda>w (r, a). resolve w r a) w rs) = foldl (\<lambda>d (r, a). dset r a d) (decisions w) rs"
  "pending (foldl (\<lambda>w (r, a). resolve w r a) w rs) = pending w"
  by (induction rs arbitrary: w) (auto simp: resolve_def)

lemma dget_foldl_dset:
  "dget (foldl (\<lambda>d (r, a). dset r a d) d rs) k
   = (case dget (rev rs) k of None \<Rightarrow> dget d k | Some a \<Rightarrow> Some a)"
  by (induction rs arbitrary: d) (auto simp: map_add_def split: option.splits)

lemma reply_seen: "k \<in> fst ` set rs \<longleftrightarrow> dget (rev rs) k \<noteq> None"
  by (auto simp: map_of_eq_None_iff)

text \<open>The answer of the gate when it does not let the call through.\<close>

definition gate_refusal :: "exn + json \<Rightarrow> bool" where
  "gate_refusal r \<longleftrightarrow> (case r of Inl _ \<Rightarrow> True
     | Inr v \<Rightarrow> \<exists>reason d. v = error_dict reason (Some d)
         \<and> (reason = ''HITLApprovalTimeout'' \<or> reason = ''HITLApprovalDenied''))"

text \<open>
  C4: with a notification configured, a destructive tool runs only if the last reply to this very
  request approves it: without one the gate's answer is a refusal that does not depend on the
  tool; with one (and a notification that does not raise) the gate calls the tool.
\<close>

theorem destructive_tool_needs_approval:
  assumes "name \<in> set (destructive_tools gate)" and "notify_fn gate = Some notify"
  shows "if dget (rev (replies ep)) (request_id ep) = Some True
             \<and> snd (notify (approval_request (request_id ep) name (timeout_text gate)) (outer w)) = None
         then \<exists>w'. \<forall>next_call. hitl_gate_call gate ep name payload next_call w = next_call w'
         else \<exists>w' r. gate_refusal r \<and> (\<forall>next_call. hitl_gate_call gate ep name payload next_call w = (w', r))"
proof -
  obtain x failure where n: "notify (approval_request (request_id ep) name (timeout_text gate)) (outer w) = (x, failure)"
    by fastforce
  show ?thesis
  proof (cases failure)
    case (Some e)
    then show ?thesis using assms n by (simp add: hitl_gate_call_def Let_def gate_refusal_def)
  next
    case None
    let ?last = "dget (rev (replies ep)) (request_id ep)"
    show ?thesis
    proof (cases ?last)
      case no: None
      then show ?thesis using assms n None
        by (auto simp: hitl_gate_call_def Let_def gate_refusal_def event_set_def reply_seen)
    next
      case (Some a)
      then show ?thesis using assms n None
        by (cases a) (auto simp: hitl_gate_call_def Let_def gate_refusal_def event_set_def reply_seen
            decisions_after_replies dget_foldl_dset dget_or_def)
    qed
  qed
qed

definition demo_gate :: "nat hitl_gate" where
  "demo_gate = new_hitl_gate (Some (\<lambda>_ n. (Suc n, None))) ''120.0'' None"

definition demo_world :: "nat world" where
  "demo_world = \<lparr>pending = [], decisions = [], sm = new_machine, outer = 0\<rparr>"

lemmas demo_gate_defs = demo_gate_def demo_world_def new_hitl_gate_def DESTRUCTIVE_TOOL_PATTERNS_def

theorem destructive_tool_needs_approval_witness:
  "(\<exists>w' r. gate_refusal r \<and> (\<forall>next_call.
      hitl_gate_call demo_gate \<lparr>request_id = ''r1'', replies = [(''r2'', True)]\<rparr> ''generate_lods'' [] next_call demo_world = (w', r)))
   \<and> (\<exists>w'. \<forall>next_call.
      hitl_gate_call demo_gate \<lparr>request_id = ''r1'', replies = [(''r1'', True)]\<rparr> ''generate_lods'' [] next_call demo_world = next_call w')"
proof -
  have d: "''generate_lods'' \<in> set (destructive_tools demo_gate)"
    and n: "notify_fn demo_gate = Some (\<lambda>_ n. (Suc n, None))" by (simp_all add: demo_gate_defs)
  from destructive_tool_needs_approval[OF d n, of "\<lparr>request_id = ''r1'', replies = [(''r2'', True)]\<rparr>" demo_world "[]"]
    destructive_tool_needs_approval[OF d n, of "\<lparr>request_id = ''r1'', replies = [(''r1'', True)]\<rparr>" demo_world "[]"]
  show ?thesis by simp
qed

text \<open>Registering tools of different names gives the table of those tools.\<close>

lemma register_all_table:
  "distinct (keys ts) \<Longrightarrow> (\<And>n. n \<in> set (keys ts) \<Longrightarrow> dget (strategies d) n = None \<and> dget (chains d) n = None) \<Longrightarrow>
   register_all d ts = Inr \<lparr>strategies = strategies d @ map (\<lambda>(n, e, ms). (n, e)) ts,
     chains = chains d @ map (\<lambda>(n, e, ms). (n, ms)) ts\<rparr>"
proof (induction ts arbitrary: d)
  case (Cons t ts)
  obtain n e ms where t: "t = (n, e, ms)" by (cases t)
  have none: "dget (strategies d) n = None" "dget (chains d) n = None" using Cons.prems(2)[of n] t by simp_all
  have "register d n e ms = Inr \<lparr>strategies = strategies d @ [(n, e)], chains = chains d @ [(n, ms)]\<rparr>"
    using none by (simp add: register_def dhas_def dset_new)
  moreover have "register_all \<lparr>strategies = strategies d @ [(n, e)], chains = chains d @ [(n, ms)]\<rparr> ts
    = Inr \<lparr>strategies = (strategies d @ [(n, e)]) @ map (\<lambda>(n, e, ms). (n, e)) ts,
     chains = (chains d @ [(n, ms)]) @ map (\<lambda>(n, e, ms). (n, ms)) ts\<rparr>"
  proof (subst Cons.IH)
    show "distinct (keys ts)" using Cons.prems(1) by simp
    fix k assume k: "k \<in> set (keys ts)"
    then have "k \<noteq> n" using Cons.prems(1) t by auto
    moreover have "dget (strategies d) k = None \<and> dget (chains d) k = None"
      using Cons.prems(2)[of k] k by simp
    ultimately show "dget (strategies \<lparr>strategies = strategies d @ [(n, e)], chains = chains d @ [(n, ms)]\<rparr>) k = None
      \<and> dget (chains \<lparr>strategies = strategies d @ [(n, e)], chains = chains d @ [(n, ms)]\<rparr>) k = None"
      by (simp add: map_add_def)
  qed simp
  ultimately show ?case using t by simp
qed simp

lemma dget_tables:
  "dget (map (\<lambda>(n, e, ms). (n, e)) ts) k = map_option fst (dget ts k)"
  "dget (map (\<lambda>(n, e, ms). (n, ms)) ts) k = map_option snd (dget ts k)"
  "keys (map (\<lambda>(n, e, ms). (n, e)) ts) = keys ts"
  by (induction ts) auto

lemma orchestration_names:
  "keys (orchestration_tools gate ep execute) = [''query_mod_metadata'', ''execute_loot_sorting'',
      ''execute_synthesis_pipeline'', ''resolve_conflict_with_patch'', ''generate_lods'',
      ''scan_asset_conflicts'', ''scan_asset_conflicts_json'', ''generate_bashed_patch'',
      ''validate_plugin_limit'']"
  by (simp add: orchestration_tools_def)

lemma built_dispatcher:
  fixes gate ep execute
  defines "ts \<equiv> orchestration_tools (case gate of None \<Rightarrow> new_hitl_gate None ''120.0'' None | Some g \<Rightarrow> g) ep execute"
  shows "build_orchestration_dispatcher gate ep execute = Inr \<lparr>strategies = map (\<lambda>(n, e, ms). (n, e)) ts,
     chains = map (\<lambda>(n, e, ms). (n, ms)) ts\<rparr>"
proof -
  have "distinct (keys ts)" unfolding ts_def orchestration_names by simp
  from register_all_table[OF this, of new_dispatcher] show ?thesis
    unfolding ts_def build_orchestration_dispatcher_def
    by (simp only: new_dispatcher_def dispatcher.simps map_of.simps append_Nil simp_thms)
qed

lemma build_ok:
  obtains d where "build_orchestration_dispatcher gate ep execute = Inr d"
  using built_dispatcher by blast

lemma built_dispatch:
  assumes "build_orchestration_dispatcher gate ep execute = Inr d"
  shows "registered_tools d = keys (orchestration_tools (case gate of None \<Rightarrow> new_hitl_gate None ''120.0'' None | Some g \<Rightarrow> g) ep execute)"
    and "dispatch d name payload w =
      (case dget (orchestration_tools (case gate of None \<Rightarrow> new_hitl_gate None ''120.0'' None | Some g \<Rightarrow> g) ep execute) name of
        None \<Rightarrow> (w, Inr (error_dict ''ToolNotFound'' None))
      | Some (e, ms) \<Rightarrow> build_chain name payload ms (e payload) w)"
  using assms unfolding built_dispatcher
  by (auto simp: registered_tools_def dispatch_def dget_or_def dget_tables split: option.splits)

text \<open>
  The dispatcher the supervisor builds registers its nine tools in order, puts the gate it is
  given in front of LOOT sorting, LOD generation and the bashed patch, and answers any name it
  does not know with ToolNotFound, without touching the world.
\<close>

theorem orchestration_dispatch:
  assumes "build_orchestration_dispatcher (Some gate) ep execute = Inr d"
  shows "registered_tools d = [''query_mod_metadata'', ''execute_loot_sorting'',
      ''execute_synthesis_pipeline'', ''resolve_conflict_with_patch'', ''generate_lods'',
      ''scan_asset_conflicts'', ''scan_asset_conflicts_json'', ''generate_bashed_patch'',
      ''validate_plugin_limit'']
    \<and> list_all (\<lambda>name. \<forall>payload w. dispatch d name payload w
        = hitl_gate_call gate ep name payload (execute name payload) w)
      [''execute_loot_sorting'', ''generate_lods'', ''generate_bashed_patch'']
    \<and> (\<forall>name payload w. name \<notin> set (registered_tools d) \<longrightarrow>
        dispatch d name payload w = (w, Inr (error_dict ''ToolNotFound'' None)))"
proof (intro conjI allI impI)
  show "registered_tools d = [''query_mod_metadata'', ''execute_loot_sorting'',
      ''execute_synthesis_pipeline'', ''resolve_conflict_with_patch'', ''generate_lods'',
      ''scan_asset_conflicts'', ''scan_asset_conflicts_json'', ''generate_bashed_patch'',
      ''validate_plugin_limit'']"
    using built_dispatch(1)[OF assms] by (simp only: orchestration_names)
next
  show "list_all (\<lambda>name. \<forall>payload w. dispatch d name payload w
        = hitl_gate_call gate ep name payload (execute name payload) w)
      [''execute_loot_sorting'', ''generate_lods'', ''generate_bashed_patch'']"
    by (simp add: built_dispatch(2)[OF assms] orchestration_tools_def)
next
  fix name payload w assume "name \<notin> set (registered_tools d)"
  then have "dget (orchestration_tools gate ep execute) name = None"
    by (simp add: built_dispatch(1)[OF assms] map_of_eq_None_iff)
  then show "dispatch d name payload w = (w, Inr (error_dict ''ToolNotFound'' None))"
    by (simp add: built_dispatch(2)[OF assms])
qed

theorem orchestration_dispatch_witness:
  "\<exists>d. build_orchestration_dispatcher (Some demo_gate) \<lparr>request_id = ''r'', replies = []\<rparr>
      (\<lambda>_ _ w. (w, Inr (JDict []))) = Inr d
    \<and> length (registered_tools d) = 9
    \<and> dispatch d ''resolve_conflict_patch'' [] demo_world = (demo_world, Inr (error_dict ''ToolNotFound'' None))"
proof -
  obtain d where d: "build_orchestration_dispatcher (Some demo_gate) \<lparr>request_id = ''r'', replies = []\<rparr>
      (\<lambda>_ _ w. (w, Inr (JDict []))) = Inr d" by (rule build_ok)
  from orchestration_dispatch[OF d] have "length (registered_tools d) = 9"
    and "dispatch d ''resolve_conflict_patch'' [] demo_world = (demo_world, Inr (error_dict ''ToolNotFound'' None))"
    by simp_all
  with d show ?thesis by blast
qed

text \<open>
  \<open>resolve_conflict_with_patch\<close> is registered behind the gate but never waits for it: the gate's
  default list names \<open>resolve_conflict_patch\<close>, which is no registered tool, so a gate with a
  notification and the default list lets the call straight through, whatever the operator replies.
\<close>

theorem conflict_patch_never_gated:
  assumes "build_orchestration_dispatcher (Some (new_hitl_gate notify timeout None)) ep execute = Inr d"
  shows "dispatch d ''resolve_conflict_with_patch'' payload w
    = error_wrapping ''XEditPatchExecutionFailed'' ''resolve_conflict_with_patch'' payload
        (dict_result_guard ''InvalidXEditPatchResult'' ''resolve_conflict_with_patch'' payload
          (execute ''resolve_conflict_with_patch'' payload)) w
    \<and> set DESTRUCTIVE_TOOL_PATTERNS - set (registered_tools d) = {''resolve_conflict_patch''}"
proof
  show "dispatch d ''resolve_conflict_with_patch'' payload w
    = error_wrapping ''XEditPatchExecutionFailed'' ''resolve_conflict_with_patch'' payload
        (dict_result_guard ''InvalidXEditPatchResult'' ''resolve_conflict_with_patch'' payload
          (execute ''resolve_conflict_with_patch'' payload)) w"
    by (simp add: built_dispatch(2)[OF assms] orchestration_tools_def hitl_gate_call_def
        new_hitl_gate_def DESTRUCTIVE_TOOL_PATTERNS_def)
  show "set DESTRUCTIVE_TOOL_PATTERNS - set (registered_tools d) = {''resolve_conflict_patch''}"
    by (simp add: built_dispatch(1)[OF assms, unfolded orchestration_names] DESTRUCTIVE_TOOL_PATTERNS_def
        insert_Diff_if)
qed

theorem conflict_patch_never_gated_witness:
  "\<exists>d. build_orchestration_dispatcher (Some demo_gate) \<lparr>request_id = ''r'', replies = [(''r'', False)]\<rparr>
      (\<lambda>_ _ w. (w\<lparr>outer := 99\<rparr>, Inr (JDict []))) = Inr d
    \<and> outer (fst (dispatch d ''resolve_conflict_with_patch'' [] demo_world)) = 99"
proof -
  obtain d where d: "build_orchestration_dispatcher
      (Some (new_hitl_gate (Some (\<lambda>_ n. (Suc n, None))) ''120.0'' None)) \<lparr>request_id = ''r'', replies = [(''r'', False)]\<rparr>
      (\<lambda>_ _ w. (w\<lparr>outer := 99\<rparr>, Inr (JDict []))) = Inr d" by (rule build_ok)
  have "outer (fst (dispatch d ''resolve_conflict_with_patch'' [] demo_world)) = 99"
    by (subst conflict_patch_never_gated[OF d, THEN conjunct1]) (simp add: error_wrapping_def dict_result_guard_def is_dict_def)
  with d show ?thesis unfolding demo_gate_def by blast
qed

text \<open>
  The wrapped tools never let an \<open>Exception\<close> or a value that is no dict reach the caller: the
  synthesis pipeline answers with its own dict, or with an error dict carrying its reason code, and
  only what is outside \<open>Exception\<close> propagates.
\<close>

theorem synthesis_always_answers_dict:
  assumes "build_orchestration_dispatcher gate ep execute = Inr d"
    and "execute ''execute_synthesis_pipeline'' payload w = (w', r)"
  shows "dispatch d ''execute_synthesis_pipeline'' payload w = (w',
     case r of Inl (BaseExc b) \<Rightarrow> Inl (BaseExc b)
       | Inl (Exc ty msg) \<Rightarrow> Inr (error_dict ''SynthesisPipelineExecutionFailed'' (Some msg))
       | Inr v \<Rightarrow> if is_dict v then Inr v else Inr (error_dict ''InvalidSynthesisPipelineResult'' None))"
  using assms(2)
  by (simp add: built_dispatch(2)[OF assms(1)] orchestration_tools_def error_wrapping_def
      dict_result_guard_def split: sum.split exn.split)

theorem synthesis_always_answers_dict_witness:
  "\<exists>d. build_orchestration_dispatcher None \<lparr>request_id = ''r'', replies = []\<rparr>
      (\<lambda>_ _ w. (w, Inl (Exc ''OSError'' ''disk full''))) = Inr d
    \<and> dispatch d ''execute_synthesis_pipeline'' [] demo_world
      = (demo_world, Inr (error_dict ''SynthesisPipelineExecutionFailed'' (Some ''disk full'')))"
proof -
  let ?ex = "\<lambda>(_ :: string) (_ :: payload) (w :: nat world). (w, Inl (Exc ''OSError'' ''disk full''))"
  obtain d where d: "build_orchestration_dispatcher None \<lparr>request_id = ''r'', replies = []\<rparr> ?ex = Inr d"
    by (rule build_ok)
  have "dispatch d ''execute_synthesis_pipeline'' [] demo_world
      = (demo_world, Inr (error_dict ''SynthesisPipelineExecutionFailed'' (Some ''disk full'')))"
    by (simp add: synthesis_always_answers_dict[OF d refl])
  with d show ?thesis by blast
qed

text \<open>
  The progress events never change a call: with an event bus that raises nothing outside
  \<open>Exception\<close>, the call returns or raises exactly what the inner call does, started in a world that
  differs only by the bus's own effect, and the gate's and the state machine's data after it are
  those the inner call left.
\<close>

theorem progress_transparent:
  assumes "\<And>topic body x b. snd (bus topic body x) \<noteq> Some (BaseExc b)"
  shows "\<exists>x. (let (w', r) = next_call (w\<lparr>outer := x\<rparr>); (w'', r') = progress (Some bus) name payload next_call w
     in r' = r \<and> pending w'' = pending w' \<and> decisions w'' = decisions w' \<and> sm w'' = sm w')"
proof -
  have pub: "\<exists>x. publish bus topic body v = (v\<lparr>outer := x\<rparr>, None)" for topic body v
  proof -
    obtain x e where "bus topic body (outer v) = (x, e)" by fastforce
    with assms[of topic body "outer v"] show ?thesis
      by (auto simp: publish_def split: option.split exn.split)
  qed
  obtain x where x: "publish bus ''ops.tool.started''
      (JDict [(''tool'', JStr name), (''payload_keys'', JList (map JStr (keys payload)))]) w = (w\<lparr>outer := x\<rparr>, None)"
    using pub by blast
  obtain w' r where c: "next_call (w\<lparr>outer := x\<rparr>) = (w', r)" by fastforce
  show ?thesis
  proof (cases r)
    case (Inl e)
    then show ?thesis
    proof (cases e)
      case (Exc ty msg)
      obtain y where "publish bus ''ops.tool.failed''
          (JDict [(''tool'', JStr name), (''error'', JStr msg), (''error_type'', JStr ty)]) w' = (w'\<lparr>outer := y\<rparr>, None)"
        using pub by blast
      with x c Inl Exc show ?thesis by (intro exI[of _ x]) (simp add: progress_def)
    qed (use x c in \<open>simp add: progress_def exI[of _ x]\<close>)
  next
    case (Inr v)
    obtain y where "publish bus ''ops.tool.completed''
        (JDict [(''tool'', JStr name), (''status'', result_status v)]) w' = (w'\<lparr>outer := y\<rparr>, None)"
      using pub by blast
    with x c Inr show ?thesis by (intro exI[of _ x]) (simp add: progress_def)
  qed
qed

theorem progress_transparent_witness:
  "\<exists>x. (let (w', r) = (\<lambda>w. (w, Inr JNull)) (demo_world\<lparr>outer := x\<rparr>);
      (w'', r') = progress (Some (\<lambda>_ _ n. (Suc n, Some (Exc ''RuntimeError'' ''bus down'')))) ''t'' [] (\<lambda>w. (w, Inr JNull)) demo_world
     in r' = r \<and> pending w'' = pending w' \<and> decisions w'' = decisions w' \<and> sm w'' = sm w')"
  by (rule progress_transparent) simp

end
