(* ===== verification/Supervisor_Graph.thy ===== *)
theory Supervisor_Graph
  imports Loop_Guardrail Table_Machine
begin

text \<open>
  \<open>sky_claw/antigravity/orchestrator/state_graph.py\<close>: the states and the transition table, the
  node functions, the conditional edges, the graph they are built into, the fallback executor and
  the callbacks that connect the supervisor.  LangGraph itself is not in the repository; what the
  graph relies on is its documented contract: the dict a node returns overwrites the named
  channels, then the node's edge is asked for the next node.  A node is therefore a function on
  the state that changes exactly the fields of the dict it returns.
\<close>

section \<open>States, events and the transition table\<close>

datatype supervisor_state = INIT | IDLE | WATCHING | ANALYZING | DISPATCHING | HITL_WAIT | COMPLETED
  | ERROR | ROLLING_BACK | ERROR_FATAL | PATCHING | GENERATING_LODS

fun state_value :: "supervisor_state \<Rightarrow> string" where
  "state_value INIT = ''init''"
| "state_value IDLE = ''idle''"
| "state_value WATCHING = ''watching''"
| "state_value ANALYZING = ''analyzing''"
| "state_value DISPATCHING = ''dispatching''"
| "state_value HITL_WAIT = ''hitl_wait''"
| "state_value COMPLETED = ''completed''"
| "state_value ERROR = ''error''"
| "state_value ROLLING_BACK = ''rolling_back''"
| "state_value ERROR_FATAL = ''error_fatal''"
| "state_value PATCHING = ''patching''"
| "state_value GENERATING_LODS = ''generating_lods''"

datatype workflow_event_type = MODLIST_CHANGED | USER_COMMAND | TOOL_REQUEST | HITL_RESPONSE
  | ERROR_OCCURRED | TIMEOUT | SHUTDOWN

fun event_value :: "workflow_event_type \<Rightarrow> string" where
  "event_value MODLIST_CHANGED = ''modlist_changed''"
| "event_value USER_COMMAND = ''user_command''"
| "event_value TOOL_REQUEST = ''tool_request''"
| "event_value HITL_RESPONSE = ''hitl_response''"
| "event_value ERROR_OCCURRED = ''error_occurred''"
| "event_value TIMEOUT = ''timeout''"
| "event_value SHUTDOWN = ''shutdown''"

fun graph_transitions :: "supervisor_state \<Rightarrow> supervisor_state list" where
  "graph_transitions INIT = [IDLE, ERROR]"
| "graph_transitions IDLE = [WATCHING, ANALYZING, DISPATCHING, ERROR]"
| "graph_transitions WATCHING = [ANALYZING, IDLE, ERROR]"
| "graph_transitions ANALYZING = [DISPATCHING, HITL_WAIT, COMPLETED, IDLE, ERROR, PATCHING]"
| "graph_transitions DISPATCHING = [COMPLETED, IDLE, ERROR, GENERATING_LODS, HITL_WAIT]"
| "graph_transitions HITL_WAIT = [DISPATCHING, COMPLETED, ERROR]"
| "graph_transitions COMPLETED = [IDLE]"
| "graph_transitions ERROR = [IDLE, INIT, ROLLING_BACK]"
| "graph_transitions ROLLING_BACK = [IDLE, ERROR_FATAL]"
| "graph_transitions ERROR_FATAL = []"
| "graph_transitions PATCHING = [COMPLETED, ERROR, ROLLING_BACK]"
| "graph_transitions GENERATING_LODS = [COMPLETED, ERROR, ROLLING_BACK]"

definition is_valid_transition :: "supervisor_state \<Rightarrow> supervisor_state \<Rightarrow> bool" where
  "is_valid_transition from_state to_state \<longleftrightarrow> to_state \<in> set (graph_transitions from_state)"

text \<open>\<open>Inl\<close> is the text of the \<open>ValueError\<close>.\<close>

definition validate_transition :: "supervisor_state \<Rightarrow> supervisor_state \<Rightarrow> string + unit" where
  "validate_transition from_state to_state =
    (if \<not> is_valid_transition from_state to_state
     then Inl (''Transici'' @ [CHR 0xF3] @ ''n de estado inv'' @ [CHR 0xE1] @ ''lida: ''
            @ state_value from_state @ '' -> '' @ state_value to_state)
     else Inr ())"

section \<open>The workflow state\<close>

record graph_state =
  workflow_id :: string
  current_state :: string
  previous_state :: "string option"
  profile_name :: string
  modlist_path :: "string option"
  last_mtime :: real
  pending_event :: "string option"
  event_data :: "(string, json) dict"
  tool_name :: "string option"
  tool_payload :: "(string, json) dict"
  tool_result :: "(string, json) dict option"
  hitl_request :: "(string, json) dict option"
  hitl_response :: "string option"
  transition_history :: "(string, json) dict list"
  last_error :: "string option"
  error_count :: nat
  rollback_triggered :: bool
  rollback_result :: "(string, json) dict option"
  rollback_transaction_id :: "int option"
  hitl_started_at :: "real option"
  loop_detected :: bool
  loop_context :: "(string, json) dict option"

definition MAX_TRANSITION_HISTORY :: nat where
  "MAX_TRANSITION_HISTORY = 50"

definition HITL_TIMEOUT_SECONDS :: real where
  "HITL_TIMEOUT_SECONDS = 300"

definition capped_transition_history :: "'a list \<Rightarrow> 'a list \<Rightarrow> 'a list" where
  "capped_transition_history old new =
    (let merged = old @ new in
     if length merged \<le> MAX_TRANSITION_HISTORY then merged
     else drop (length merged - MAX_TRANSITION_HISTORY) merged)"

definition add_transition ::
  "graph_state \<Rightarrow> supervisor_state \<Rightarrow> supervisor_state \<Rightarrow> string \<Rightarrow> string \<Rightarrow> graph_state" where
  "add_transition st from_state to_state reason timestamp =
    (let h = transition_history st @ [[(''from'', JStr (state_value from_state)), (''to'', JStr (state_value to_state)),
        (''reason'', JStr reason), (''timestamp'', JStr timestamp)]]
     in st\<lparr>transition_history := (if length h > MAX_TRANSITION_HISTORY
          then drop (length h - MAX_TRANSITION_HISTORY) h else h)\<rparr>)"

definition get_initial_state :: "string \<Rightarrow> string \<Rightarrow> graph_state" where
  "get_initial_state wid profile =
    \<lparr>workflow_id = wid, current_state = state_value INIT, previous_state = None,
     profile_name = profile, modlist_path = None, last_mtime = 0, pending_event = None,
     event_data = [], tool_name = None, tool_payload = [], tool_result = None,
     hitl_request = None, hitl_response = None, transition_history = [], last_error = None,
     error_count = 0, rollback_triggered = False, rollback_result = None,
     rollback_transaction_id = None, hitl_started_at = None, loop_detected = False, loop_context = None\<rparr>"

text \<open>The state \<open>submit_event\<close> hands to \<open>execute\<close>.\<close>

definition submit_event ::
  "string \<Rightarrow> string \<Rightarrow> workflow_event_type \<Rightarrow> (string, json) dict option \<Rightarrow> string option \<Rightarrow> graph_state" where
  "submit_event wid profile event data thread =
    (let st = (get_initial_state wid profile)\<lparr>pending_event := Some (event_value event),
        event_data := (case data of None \<Rightarrow> [] | Some d \<Rightarrow> d)\<rparr>
     in case thread of None \<Rightarrow> st | Some t \<Rightarrow> if t \<noteq> [] then st\<lparr>workflow_id := t\<rparr> else st)"

definition get_state_summary :: "graph_state \<Rightarrow> (string, json) dict" where
  "get_state_summary st =
    (let opt = (\<lambda>v. case v of None \<Rightarrow> JNull | Some s \<Rightarrow> JStr s) in
     [(''workflow_id'', JStr (workflow_id st)), (''current_state'', JStr (current_state st)),
      (''previous_state'', opt (previous_state st)), (''pending_event'', opt (pending_event st)),
      (''tool_name'', opt (tool_name st)), (''error_count'', JInt (int (error_count st))),
      (''last_error'', opt (last_error st)), (''transitions'', JInt (int (length (transition_history st)))),
      (''rollback_triggered'', JBool (rollback_triggered st)),
      (''rollback_transaction_id'', case rollback_transaction_id st of None \<Rightarrow> JNull | Some i \<Rightarrow> JInt i)])"

section \<open>Nodes\<close>

definition init_node :: "graph_state \<Rightarrow> graph_state" where
  "init_node st = st\<lparr>current_state := state_value IDLE, previous_state := Some (state_value INIT)\<rparr>"

definition idle_node :: "graph_state \<Rightarrow> graph_state" where
  "idle_node st = st\<lparr>current_state := state_value IDLE\<rparr>"

definition watching_node :: "graph_state \<Rightarrow> graph_state" where
  "watching_node st = st\<lparr>current_state := state_value WATCHING\<rparr>"

definition analyzing_node :: "graph_state \<Rightarrow> graph_state" where
  "analyzing_node st = st\<lparr>current_state := state_value ANALYZING, previous_state := Some (state_value WATCHING)\<rparr>"

definition dispatching_node :: "graph_state \<Rightarrow> graph_state" where
  "dispatching_node st =
    st\<lparr>current_state := state_value DISPATCHING, previous_state := Some (state_value ANALYZING)\<rparr>"

definition hitl_wait_node :: "real \<Rightarrow> graph_state \<Rightarrow> graph_state" where
  "hitl_wait_node now st =
    (let st' = st\<lparr>current_state := state_value HITL_WAIT, previous_state := Some (state_value DISPATCHING)\<rparr>
     in if hitl_started_at st = None then st'\<lparr>hitl_started_at := Some now\<rparr> else st')"

definition completed_node :: "graph_state \<Rightarrow> graph_state" where
  "completed_node st = st\<lparr>current_state := state_value COMPLETED,
     previous_state := Some (state_value DISPATCHING), pending_event := None\<rparr>"

definition error_node :: "graph_state \<Rightarrow> graph_state" where
  "error_node st = st\<lparr>current_state := state_value ERROR, error_count := error_count st + 1\<rparr>"

definition rolling_back_node :: "graph_state \<Rightarrow> graph_state" where
  "rolling_back_node st = st\<lparr>current_state := state_value ROLLING_BACK,
     previous_state := Some (state_value ERROR), rollback_triggered := True\<rparr>"

definition error_fatal_node :: "graph_state \<Rightarrow> graph_state" where
  "error_fatal_node st = st\<lparr>current_state := state_value ERROR_FATAL,
     previous_state := Some (state_value ROLLING_BACK), rollback_triggered := False,
     rollback_result := Some [(''success'', JBool False), (''reason'', JStr ''Rollback failed, fatal error'')]\<rparr>"

definition patching_node :: "graph_state \<Rightarrow> graph_state" where
  "patching_node st =
    (if \<not> truthy (dget_or (event_data st) ''conflict_report'' JNull)
     then st\<lparr>current_state := state_value IDLE, previous_state := Some (state_value PATCHING)\<rparr>
     else st\<lparr>current_state := state_value PATCHING, previous_state := Some (state_value ANALYZING),
             event_data := event_data st\<rparr>)"

definition generating_lods_node :: "graph_state \<Rightarrow> graph_state" where
  "generating_lods_node st =
    st\<lparr>current_state := state_value GENERATING_LODS, previous_state := Some (state_value DISPATCHING)\<rparr>"

section \<open>Edges\<close>

datatype target = To supervisor_state | END

definition validate_and_route :: "supervisor_state \<Rightarrow> supervisor_state \<Rightarrow> string + target" where
  "validate_and_route from_state to_state =
    (if is_valid_transition from_state to_state then Inr (To to_state)
     else Inl (''BUG-003: Invalid state transition blocked: '' @ state_value from_state @ '' -> ''
       @ state_value to_state))"

definition event_is :: "graph_state \<Rightarrow> workflow_event_type \<Rightarrow> bool" where
  "event_is st e \<longleftrightarrow> pending_event st = Some (event_value e)"

definition status_is :: "graph_state \<Rightarrow> string \<Rightarrow> bool" where
  "status_is st s \<longleftrightarrow> nonempty (tool_result st) \<and>
     (case tool_result st of None \<Rightarrow> False | Some d \<Rightarrow> dget d ''status'' = Some (JStr s))"

definition route_from_idle :: "graph_state \<Rightarrow> string + target" where
  "route_from_idle st =
    (if event_is st MODLIST_CHANGED then validate_and_route IDLE WATCHING
     else if event_is st USER_COMMAND then validate_and_route IDLE ANALYZING
     else if event_is st TOOL_REQUEST then validate_and_route IDLE DISPATCHING
     else if event_is st SHUTDOWN then Inr END
     else if event_is st ERROR_OCCURRED then validate_and_route IDLE ERROR
     else Inr (To IDLE))"

definition route_from_watching :: "graph_state \<Rightarrow> string + target" where
  "route_from_watching st =
    (if event_is st MODLIST_CHANGED then validate_and_route WATCHING ANALYZING
     else if event_is st ERROR_OCCURRED then validate_and_route WATCHING ERROR
     else validate_and_route WATCHING IDLE)"

definition route_from_analyzing :: "graph_state \<Rightarrow> string + target" where
  "route_from_analyzing st =
    (let requires_hitl = dget_or (event_data st) ''requires_hitl'' (JBool False);
         requires_patch = dget_or (event_data st) ''requires_patch'' (JBool False)
     in if nonempty (last_error st) then validate_and_route ANALYZING ERROR
        else if nonempty (tool_name st) then
          (if truthy requires_patch then validate_and_route ANALYZING PATCHING
           else if truthy requires_hitl then validate_and_route ANALYZING HITL_WAIT
           else validate_and_route ANALYZING DISPATCHING)
        else validate_and_route ANALYZING COMPLETED)"

definition route_from_patching :: "graph_state \<Rightarrow> string + target" where
  "route_from_patching st =
    (if nonempty (last_error st) then
       (if \<not> rollback_triggered st then validate_and_route PATCHING ROLLING_BACK
        else validate_and_route PATCHING ERROR)
     else if status_is st ''success'' \<or> status_is st ''aborted'' then validate_and_route PATCHING COMPLETED
     else validate_and_route PATCHING COMPLETED)"

definition route_from_generating_lods :: "graph_state \<Rightarrow> string + target" where
  "route_from_generating_lods st =
    (if nonempty (last_error st) then
       (if \<not> rollback_triggered st then validate_and_route GENERATING_LODS ROLLING_BACK
        else validate_and_route GENERATING_LODS ERROR)
     else if status_is st ''success'' then validate_and_route GENERATING_LODS COMPLETED
     else validate_and_route GENERATING_LODS COMPLETED)"

text \<open>This edge also writes \<open>last_error\<close> into the state it is given.\<close>

definition route_from_hitl_wait :: "real \<Rightarrow> graph_state \<Rightarrow> graph_state \<times> (string + target)" where
  "route_from_hitl_wait now st =
    (case hitl_response st of
       Some r \<Rightarrow>
         (st, if r = ''approved'' then validate_and_route HITL_WAIT DISPATCHING
              else if r = ''denied'' then validate_and_route HITL_WAIT COMPLETED
              else if r = ''timeout'' then validate_and_route HITL_WAIT ERROR
              else validate_and_route HITL_WAIT COMPLETED)
     | None \<Rightarrow>
         (case hitl_started_at st of
            None \<Rightarrow> (st\<lparr>last_error := Some ''Estado HITL inconsistente: hitl_started_at ausente''\<rparr>,
                     validate_and_route HITL_WAIT ERROR)
          | Some started \<Rightarrow>
              if now - started \<ge> HITL_TIMEOUT_SECONDS
              then (st\<lparr>last_error := Some (''Timeout esperando aprobaci'' @ [CHR 0xF3]
                       @ ''n humana despu'' @ [CHR 0xE9] @ ''s de 300s'')\<rparr>,
                    validate_and_route HITL_WAIT ERROR)
              else (st, Inr (To HITL_WAIT))))"

definition route_from_dispatching :: "graph_state \<Rightarrow> string + target" where
  "route_from_dispatching st =
    (if loop_detected st then validate_and_route DISPATCHING HITL_WAIT
     else if nonempty (last_error st) then validate_and_route DISPATCHING ERROR
     else if status_is st ''success'' \<or> status_is st ''aborted'' then
       (if tool_name st = Some ''generate_lods'' then validate_and_route DISPATCHING GENERATING_LODS
        else validate_and_route DISPATCHING COMPLETED)
     else validate_and_route DISPATCHING COMPLETED)"

definition route_from_error :: "graph_state \<Rightarrow> string + target" where
  "route_from_error st =
    (if (case rollback_transaction_id st of None \<Rightarrow> False | Some i \<Rightarrow> i \<noteq> 0) \<and> \<not> rollback_triggered st
     then validate_and_route ERROR ROLLING_BACK
     else if error_count st \<ge> 3 then Inr END
     else validate_and_route ERROR IDLE)"

definition route_from_rolling_back :: "graph_state \<Rightarrow> string + target" where
  "route_from_rolling_back st =
    (let result = (case rollback_result st of None \<Rightarrow> [] | Some d \<Rightarrow> d) in
     if truthy (dget_or result ''success'' (JBool False)) then validate_and_route ROLLING_BACK IDLE
     else validate_and_route ROLLING_BACK ERROR_FATAL)"

section \<open>The graph\<close>

text \<open>The nodes and edges \<open>_build_graph\<close> adds, by state; both clocks are arguments.\<close>

fun graph_node :: "supervisor_state \<Rightarrow> real \<Rightarrow> graph_state \<Rightarrow> graph_state" where
  "graph_node INIT now = init_node"
| "graph_node IDLE now = idle_node"
| "graph_node WATCHING now = watching_node"
| "graph_node ANALYZING now = analyzing_node"
| "graph_node DISPATCHING now = dispatching_node"
| "graph_node HITL_WAIT now = hitl_wait_node now"
| "graph_node COMPLETED now = completed_node"
| "graph_node ERROR now = error_node"
| "graph_node ROLLING_BACK now = rolling_back_node"
| "graph_node ERROR_FATAL now = error_fatal_node"
| "graph_node PATCHING now = patching_node"
| "graph_node GENERATING_LODS now = generating_lods_node"

fun graph_edge :: "supervisor_state \<Rightarrow> real \<Rightarrow> graph_state \<Rightarrow> graph_state \<times> (string + target)" where
  "graph_edge INIT now st = (st, Inr (To IDLE))"
| "graph_edge IDLE now st = (st, route_from_idle st)"
| "graph_edge WATCHING now st = (st, route_from_watching st)"
| "graph_edge ANALYZING now st = (st, route_from_analyzing st)"
| "graph_edge DISPATCHING now st = (st, route_from_dispatching st)"
| "graph_edge HITL_WAIT now st = route_from_hitl_wait now st"
| "graph_edge COMPLETED now st = (st, Inr (To IDLE))"
| "graph_edge ERROR now st = (st, route_from_error st)"
| "graph_edge ROLLING_BACK now st = (st, route_from_rolling_back st)"
| "graph_edge ERROR_FATAL now st = (st, Inr END)"
| "graph_edge PATCHING now st = (st, route_from_patching st)"
| "graph_edge GENERATING_LODS now st = (st, route_from_generating_lods st)"

section \<open>The fallback executor\<close>

definition execute_fallback :: "graph_state \<Rightarrow> graph_state" where
  "execute_fallback st0 =
    (let move = (\<lambda>st (from_state, to_state).
           st\<lparr>current_state := state_value to_state, previous_state := Some (state_value from_state)\<rparr>);
         st = move st0 (INIT, IDLE)
     in if \<not> nonempty (pending_event st) then st
        else if event_is st MODLIST_CHANGED \<or> event_is st USER_COMMAND then
          (let st1 = move st (IDLE, ANALYZING) in
           if nonempty (tool_name st1) then
             (let st2 = move st1 (ANALYZING, DISPATCHING) in
              if nonempty (last_error st2) then move st2 (DISPATCHING, ERROR)
              else move st2 (DISPATCHING, COMPLETED))
           else move st1 (ANALYZING, COMPLETED))
        else st)"

section \<open>The callbacks of the connected supervisor\<close>

text \<open>
  \<open>dispatch\<close> and \<open>ask\<close> are the supervisor's \<open>dispatch_tool\<close> and \<open>request_hitl\<close> (\<open>None\<close>: no
  supervisor is connected) on the outer world; what they raise leaves the callback.
\<close>

type_synonym ('w, 'e) dispatch_fn =
  "string \<Rightarrow> (string, json) dict \<Rightarrow> 'w \<Rightarrow> 'w \<times> ('e + (string, json) dict)"

definition on_dispatching ::
  "(string \<Rightarrow> string) \<Rightarrow> ('w, 'e) dispatch_fn option \<Rightarrow> loop_guardrail \<Rightarrow> graph_state \<Rightarrow> 'w \<Rightarrow>
   loop_guardrail \<times> 'w \<times> ('e + graph_state)" where
  "on_dispatching sha256 supervisor g st w =
    (case supervisor of
       None \<Rightarrow> (g, w, Inr st)
     | Some dispatch \<Rightarrow>
        if \<not> nonempty (tool_name st) then
          (g, w, Inr (st\<lparr>last_error := Some ''tool_name is None or invalid'',
             tool_result := Some [(''status'', JStr ''error''),
               (''error'', JStr ''Tool dispatch aborted: tool_name is missing or invalid'')]\<rparr>))
        else
          (let tool = the (tool_name st) in
           case register_and_check sha256 g tool (tool_payload st) of
             (g', Inl trip) \<Rightarrow>
               (g', w, Inr (st\<lparr>loop_detected := True,
                  loop_context := Some [(''tool_name'', JStr (trip_tool trip)),
                    (''occurrences'', JInt (int (trip_occurrences trip)))],
                  hitl_request := Some [(''action_type'', JStr ''circuit_breaker_halt''),
                    (''reason'', JStr (trip_message trip)),
                    (''context_data'', JDict [(''trip_reason'', JStr ''Loop detected''),
                      (''tool_name'', JStr (trip_tool trip)),
                      (''occurrences'', JInt (int (trip_occurrences trip)))])]\<rparr>))
           | (g', Inr _) \<Rightarrow>
               (case dispatch tool (tool_payload st) w of
                  (w', Inl e) \<Rightarrow> (g', w', Inl e)
                | (w', Inr result) \<Rightarrow> (g', w', Inr (st\<lparr>tool_result := Some result\<rparr>)))))"

definition on_hitl_wait ::
  "((string, json) dict \<Rightarrow> 'w \<Rightarrow> 'w \<times> ('e + string)) option \<Rightarrow> loop_guardrail \<Rightarrow> graph_state \<Rightarrow> 'w \<Rightarrow>
   loop_guardrail \<times> 'w \<times> ('e + graph_state)" where
  "on_hitl_wait supervisor g st w =
    (case supervisor of
       None \<Rightarrow> (g, w, Inr st)
     | Some ask \<Rightarrow>
        (case ask (case hitl_request st of None \<Rightarrow> [] | Some d \<Rightarrow> d) w of
           (w', Inl e) \<Rightarrow> (g, w', Inl e)
         | (w', Inr response) \<Rightarrow>
             (let st' = st\<lparr>hitl_response := Some response\<rparr> in
              if response = ''approved'' \<and> loop_detected st'
              then (reset_guardrail g, w', Inr (st'\<lparr>loop_detected := False, loop_context := None\<rparr>))
              else (g, w', Inr st'))))"

text \<open>
  \<open>_make_callback_aware_node\<close>: the wrapper awaits the callback on the dict it is handed and
  returns what the plain node returns.  The plain node names the fields it updates and reads
  none, and LangGraph merges only the returned update into the graph's state, so what the
  callback wrote into the dict is not part of the state the edge sees.
\<close>

definition wrapped_dispatching ::
  "(string \<Rightarrow> string) \<Rightarrow> ('w, 'e) dispatch_fn option \<Rightarrow> loop_guardrail \<Rightarrow> graph_state \<Rightarrow> 'w \<Rightarrow>
   loop_guardrail \<times> 'w \<times> ('e + graph_state)" where
  "wrapped_dispatching sha256 supervisor g st w =
    (case on_dispatching sha256 supervisor g st w of
       (g', w', Inl e) \<Rightarrow> (g', w', Inl e)
     | (g', w', Inr handed) \<Rightarrow> (g', w', Inr (dispatching_node st)))"

definition translate_modlist_event :: "string \<Rightarrow> string \<Rightarrow> workflow_event_type \<times> (string, json) dict" where
  "translate_modlist_event mtime path =
    (MODLIST_CHANGED, [(''mtime'', JFloat mtime), (''path'', JStr path), (''requires_hitl'', JBool False)])"

definition translate_user_command ::
  "string \<Rightarrow> (string, json) dict \<Rightarrow> workflow_event_type \<times> (string, json) dict" where
  "translate_user_command command params =
    (USER_COMMAND, [(''command'', JStr command), (''params'', JDict params)])"

section \<open>Purging old threads\<close>

text \<open>
  \<open>thread_timestamps\<close> and the checkpointer's storage by thread id; \<open>None\<close> when there is no
  checkpointer or it exposes no dict.  An empty storage is falsy and counts as none.
\<close>

record thread_store =
  thread_timestamps :: "(string, real) dict"
  checkpoints :: "(string, json) dict option"

fun purge_threads :: "thread_store \<Rightarrow> string list \<Rightarrow> nat \<Rightarrow> thread_store \<times> nat" where
  "purge_threads s [] removed = (s, removed)"
| "purge_threads s (tid # tids) removed =
    (let found = (case checkpoints s of None \<Rightarrow> False | Some d \<Rightarrow> dhas d tid);
         s' = s\<lparr>thread_timestamps := ddel tid (thread_timestamps s),
                checkpoints := map_option (ddel tid) (checkpoints s)\<rparr>
     in purge_threads s' tids (if found then removed + 1 else removed))"

definition cleanup_old_threads :: "bool \<Rightarrow> thread_store \<Rightarrow> int \<Rightarrow> real \<Rightarrow> thread_store \<times> nat" where
  "cleanup_old_threads has_checkpointer s max_age now =
    (if \<not> has_checkpointer \<or> max_age \<le> 0 then (s, 0)
     else purge_threads s (map fst (filter (\<lambda>(_, ts). now - ts > real_of_int max_age) (thread_timestamps s))) 0)"

section \<open>Runs of the graph\<close>

text \<open>
  A run is a sequence of nodes.  Whether LangGraph keeps what a callback or an edge writes into
  the state it is handed is its own business: before and after a node, the fields the callbacks
  and edges write may take any value.  All other fields are changed by node functions only.
\<close>

definition callbacks_touch :: "graph_state \<Rightarrow> graph_state \<Rightarrow> bool" where
  "callbacks_touch st st' \<longleftrightarrow> (\<exists>tr le hq hr ld lc. st' = st\<lparr>tool_result := tr, last_error := le,
     hitl_request := hq, hitl_response := hr, loop_detected := ld, loop_context := lc\<rparr>)"

inductive graph_trace ::
  "target \<times> graph_state \<Rightarrow> supervisor_state list \<Rightarrow> target \<times> graph_state \<Rightarrow> bool" where
  trace_start: "graph_trace c [] c"
| trace_node: "graph_trace c ns (To n, st) \<Longrightarrow> callbacks_touch st st1 \<Longrightarrow>
     graph_edge n t2 (graph_node n t1 st1) = (edged, Inr t) \<Longrightarrow>
     callbacks_touch (graph_node n t1 st1) st' \<Longrightarrow> graph_trace c (ns @ [n]) (t, st')"

inductive_cases trace_snocE: "graph_trace c (ns @ [n]) c'"

section \<open>Lemmas on edges and runs\<close>

declare graph_node.simps [simp del]

text \<open>The validator as a state machine that refuses what its table does not list.\<close>

definition validated :: "supervisor_state \<Rightarrow> supervisor_state \<Rightarrow> string + supervisor_state" where
  "validated from_state to_state =
    (case validate_transition from_state to_state of Inl e \<Rightarrow> Inl e | Inr _ \<Rightarrow> Inr to_state)"

interpretation workflow: table_machine graph_transitions validated
  by unfold_locales (auto simp: validated_def validate_transition_def is_valid_transition_def)

lemma validate_and_route_eq:
  "validate_and_route a b = (if workflow.allowed a b then Inr (To b)
     else Inl (''BUG-003: Invalid state transition blocked: '' @ state_value a @ '' -> '' @ state_value b))"
  by (simp add: validate_and_route_def is_valid_transition_def workflow.allowed_def)

lemmas route_defs = route_from_idle_def route_from_watching_def route_from_analyzing_def
  route_from_patching_def route_from_generating_lods_def route_from_hitl_wait_def
  route_from_dispatching_def route_from_error_def route_from_rolling_back_def
  validate_and_route_eq workflow.allowed_def Let_def

lemmas node_defs = graph_node.simps init_node_def idle_node_def watching_node_def analyzing_node_def
  dispatching_node_def hitl_wait_node_def completed_node_def error_node_def rolling_back_node_def
  error_fatal_node_def patching_node_def generating_lods_node_def Let_def

lemma callbacks_touchD:
  assumes "callbacks_touch st st'"
  shows "error_count st' = error_count st" and "rollback_triggered st' = rollback_triggered st"
    and "pending_event st' = pending_event st" and "hitl_started_at st' = hitl_started_at st"
    and "rollback_result st' = rollback_result st"
    and "rollback_transaction_id st' = rollback_transaction_id st"
    and "event_data st' = event_data st" and "tool_name st' = tool_name st"
  using assms by (auto simp: callbacks_touch_def)

lemma callbacks_touch_refl [simp]: "callbacks_touch st st"
  unfolding callbacks_touch_def
  by (intro exI[of _ "tool_result st"] exI[of _ "last_error st"] exI[of _ "hitl_request st"]
      exI[of _ "hitl_response st"] exI[of _ "loop_detected st"] exI[of _ "loop_context st"]) simp

text \<open>What the nodes do to the fields no callback touches.\<close>

lemma node_error_count: "error_count (graph_node n now st) = error_count st + (if n = ERROR then 1 else 0)"
  by (cases n) (simp_all add: node_defs)

lemma node_triggered: "rollback_triggered (graph_node n now st) =
    (if n = ROLLING_BACK then True else if n = ERROR_FATAL then False else rollback_triggered st)"
  by (cases n) (simp_all add: node_defs)

lemma node_pending: "pending_event (graph_node n now st) = (if n = COMPLETED then None else pending_event st)"
  by (cases n) (simp_all add: node_defs)

lemma node_started: "hitl_started_at (graph_node n now st) =
    (if n = HITL_WAIT \<and> hitl_started_at st = None then Some now else hitl_started_at st)"
  by (cases n) (simp_all add: node_defs)

lemma node_rollback_result: "n \<noteq> ERROR_FATAL \<Longrightarrow> rollback_result (graph_node n now st) = rollback_result st"
  by (cases n) (simp_all add: node_defs)

lemma node_rollback_id: "rollback_transaction_id (graph_node n now st) = rollback_transaction_id st"
  by (cases n) (simp_all add: node_defs)

lemmas node_fields = node_error_count node_triggered node_pending node_started node_rollback_id

text \<open>Where the edges can lead, and under what conditions on those fields.\<close>

lemma edge_to_rolling_back:
  "graph_edge n now st = (st', Inr (To ROLLING_BACK)) \<Longrightarrow>
   n \<in> {ERROR, PATCHING, GENERATING_LODS} \<and> \<not> rollback_triggered st"
  by (cases n) (auto simp: route_defs split: if_splits option.splits)

lemma edge_to_error_fatal:
  "graph_edge n now st = (st', Inr (To ERROR_FATAL)) \<Longrightarrow> n = ROLLING_BACK"
  by (cases n) (auto simp: route_defs split: if_splits option.splits)

lemma edge_from_error:
  "graph_edge ERROR now st = (st', Inr t) \<Longrightarrow> t = To ROLLING_BACK \<or> t = END
    \<or> (t = To IDLE \<and> error_count st < 3)"
  by (auto simp: route_defs split: if_splits option.splits)

lemma edge_from_rolling_back:
  "graph_edge ROLLING_BACK now st = (st', Inr t) \<Longrightarrow> t = To ERROR_FATAL
    \<or> (t = To IDLE \<and> rollback_result st \<noteq> None)"
  by (auto simp: route_defs dget_or_def split: if_splits option.splits)

text \<open>The shape of the run: how often errors and rollbacks have happened, by the next node.\<close>

definition retries_ok :: "supervisor_state list \<Rightarrow> target \<times> graph_state \<Rightarrow> bool" where
  "retries_ok ns c \<longleftrightarrow> (let st = snd c; e = count_list ns ERROR; r = count_list ns ROLLING_BACK in
     error_count st = e \<and>
     (case fst c of
        END \<Rightarrow> e \<le> 3 + r \<and> r \<le> 1
      | To n \<Rightarrow> if n = ROLLING_BACK then \<not> rollback_triggered st \<and> e \<le> 3 \<and> r = 0
               else if n = ERROR_FATAL then e \<le> 3 \<and> r = 1
               else if rollback_triggered st then e \<le> 3 \<and> r = 1
               else e \<le> 2 \<and> r = 0))"

lemma count_list_snoc: "count_list (xs @ [y]) x = count_list xs x + (if y = x then 1 else 0)"
  by simp

lemma retries_step:
  assumes ok: "retries_ok ns (To n, st)" and "callbacks_touch st st1"
    and edge: "graph_edge n t2 (graph_node n t1 st1) = (edged, Inr t)"
    and "callbacks_touch (graph_node n t1 st1) st'"
  shows "retries_ok (ns @ [n]) (t, st')"
proof -
  let ?st2 = "graph_node n t1 st1"
  note keep = callbacks_touchD[OF assms(2)] callbacks_touchD[OF assms(4)] node_fields
  have rb: "\<not> rollback_triggered ?st2 \<and> n \<in> {ERROR, PATCHING, GENERATING_LODS}" if "t = To ROLLING_BACK"
    using edge_to_rolling_back edge that by blast
  have ef: "n = ROLLING_BACK" if "t = To ERROR_FATAL" using edge_to_error_fatal edge that by blast
  show ?thesis
  proof (cases "n = ERROR")
    case True
    then show ?thesis using edge_from_error[of t2 ?st2 edged t] edge rb ok
      by (auto simp: retries_ok_def keep Let_def split: if_splits)
  next
    case False
    consider "n = ROLLING_BACK" | "n = ERROR_FATAL" | "n \<noteq> ROLLING_BACK" "n \<noteq> ERROR_FATAL" by blast
    then show ?thesis
    proof cases
      case 1
      then show ?thesis using edge_from_rolling_back[of t2 ?st2 edged t] edge ok
        by (auto simp: retries_ok_def keep Let_def split: if_splits)
    next
      case 2
      then show ?thesis using edge ok by (auto simp: retries_ok_def keep Let_def)
    next
      case 3
      then show ?thesis using rb ef ok False
        by (cases t) (auto simp: retries_ok_def keep Let_def split: if_splits)
    qed
  qed
qed

lemma retries_trace:
  "graph_trace c ns c' \<Longrightarrow> retries_ok [] c \<Longrightarrow> retries_ok ns c'"
proof (induction rule: graph_trace.induct)
  case (trace_node c ns n st st1 t2 t1 edged t st')
  show ?case by (rule retries_step[OF trace_node.IH[OF trace_node.prems] trace_node.hyps(2-4)])
qed

lemma completed_trace:
  "graph_trace c ns c' \<Longrightarrow> COMPLETED \<in> set ns \<Longrightarrow> fst c' = To IDLE \<and> pending_event (snd c') = None"
proof (induction rule: graph_trace.induct)
  case (trace_node c ns n st st1 t2 t1 edged t st')
  note keep = callbacks_touchD[OF trace_node.hyps(2)] callbacks_touchD[OF trace_node.hyps(4)] node_fields
  show ?case
  proof (cases "n = COMPLETED")
    case True
    then show ?thesis using trace_node.hyps(3) by (auto simp: keep)
  next
    case False
    then have "n = IDLE" "pending_event st = None" using trace_node.IH trace_node.prems by auto
    then show ?thesis using trace_node.hyps(3)
      by (auto simp: keep route_from_idle_def event_is_def split: if_splits)
  qed
qed simp

lemma clock_trace:
  "graph_trace c ns c' \<Longrightarrow> hitl_started_at (snd c) = Some t0 \<Longrightarrow> hitl_started_at (snd c') = Some t0"
proof (induction rule: graph_trace.induct)
  case (trace_node c ns n st st1 t2 t1 edged t st')
  then show ?case
    using callbacks_touchD(4)[OF trace_node.hyps(2)] callbacks_touchD(4)[OF trace_node.hyps(4)]
    by (simp add: node_started)
qed

lemma rollback_trace:
  "graph_trace c ns c' \<Longrightarrow> rollback_result (snd c) = None \<Longrightarrow> fst c \<noteq> To ERROR_FATAL \<Longrightarrow>
   (rollback_result (snd c') = None \<or> ns \<noteq> [] \<and> last ns = ERROR_FATAL \<and> fst c' = END)
   \<and> (ns \<noteq> [] \<longrightarrow> last ns = ROLLING_BACK \<longrightarrow> fst c' = To ERROR_FATAL)"
proof (induction rule: graph_trace.induct)
  case (trace_node c ns n st st1 t2 t1 edged t st')
  then have none: "rollback_result st = None" by auto
  show ?case
  proof (cases "n = ERROR_FATAL")
    case True
    then show ?thesis using trace_node.hyps(3) by simp
  next
    case False
    then have "rollback_result (graph_node n t1 st1) = None"
      using none callbacks_touchD(5)[OF trace_node.hyps(2)] by (simp add: node_rollback_result)
    then show ?thesis
      using edge_from_rolling_back[of t2 "graph_node n t1 st1" edged t] trace_node.hyps(3)
        callbacks_touchD(5)[OF trace_node.hyps(4)] by auto
  qed
qed simp

section \<open>Properties\<close>

text \<open>
  C21: no edge of the graph ever raises: from every node and every state the edge names END (only
  after IDLE, ERROR and ERROR_FATAL), the node itself (only IDLE and HITL_WAIT), or a state the
  validator's table allows.
\<close>

theorem edges_never_raise:
  "\<exists>t. snd (graph_edge n now st) = Inr t \<and>
     (case t of END \<Rightarrow> n \<in> {IDLE, ERROR, ERROR_FATAL}
      | To m \<Rightarrow> validate_transition n m = Inr () \<or> (m = n \<and> n \<in> {IDLE, HITL_WAIT}))"
  by (cases n) (auto simp: route_defs validate_transition_def is_valid_transition_def
      split: option.split)

text \<open>
  C2: whatever tools, operators and callbacks answer, a run that starts without errors visits
  ROLLING_BACK at most once and ERROR at most three times, four after a rollback, and
  \<open>error_count\<close> is the number of those visits: the retry loop of the graph is bounded.
\<close>

theorem error_retries_bounded:
  assumes "graph_trace (To INIT, st0) ns (t, st)" and "error_count st0 = 0" and "\<not> rollback_triggered st0"
  shows "error_count st = count_list ns ERROR \<and> count_list ns ROLLING_BACK \<le> 1
    \<and> count_list ns ERROR \<le> 3 + count_list ns ROLLING_BACK"
proof -
  have "retries_ok [] (To INIT, st0)" using assms(2,3) by (simp add: retries_ok_def)
  from retries_trace[OF assms(1) this] show ?thesis
    by (cases t) (auto simp: retries_ok_def Let_def split: if_splits)
qed

text \<open>
  Runs for the witnesses: with no callback effects the graph is a function of the state (here with
  the clock at 0), \<open>graph_run k\<close> its first \<open>k\<close> nodes.
\<close>

fun graph_run :: "nat \<Rightarrow> target \<times> graph_state \<Rightarrow> supervisor_state list \<times> (target \<times> graph_state)" where
  "graph_run 0 c = ([], c)"
| "graph_run (Suc k) (END, st) = ([], (END, st))"
| "graph_run (Suc k) (To n, st) =
    (case graph_edge n 0 (graph_node n 0 st) of
       (st', Inl e) \<Rightarrow> ([], (To n, st))
     | (st', Inr t) \<Rightarrow> (let (ns, c) = graph_run k (t, graph_node n 0 st) in (n # ns, c)))"

lemma graph_trace_trans:
  "graph_trace c' ms c'' \<Longrightarrow> graph_trace c ns c' \<Longrightarrow> graph_trace c (ns @ ms) c''"
proof (induction rule: graph_trace.induct)
  case (trace_node c' ms n st st1 t2 t1 edged t st')
  then show ?case using graph_trace.trace_node[of c "ns @ ms" n st st1] by simp
qed simp

lemma graph_run_trace: "graph_run k c = (ns, c') \<Longrightarrow> graph_trace c ns c'"
proof (induction k c arbitrary: ns c' rule: graph_run.induct)
  case (3 k n st)
  let ?st = "graph_node n 0 st"
  obtain st' r where e: "graph_edge n 0 ?st = (st', r)" by fastforce
  show ?case
  proof (cases r)
    case (Inl x)
    then show ?thesis using "3.prems" e by (auto intro: trace_start)
  next
    case (Inr t)
    obtain ms c'' where run: "graph_run k (t, ?st) = (ms, c'')"
      by (cases "graph_run k (t, ?st)") blast
    have "graph_trace (To n, st) ([] @ [n]) (t, ?st)"
      using e Inr by (intro trace_node[OF trace_start]) auto
    with "3.IH"[OF e[symmetric] Inr run] "3.prems" e Inr run show ?thesis
      using graph_trace_trans[of "(t, ?st)" ms c'' "(To n, st)" "[n]"] by simp
  qed
qed (auto intro: trace_start)

lemmas run_defs = node_defs route_defs event_is_def status_is_def submit_event_def get_initial_state_def
  dget_or_def numeral_eq_Suc

theorem error_retries_bounded_witness:
  "\<exists>ns st. graph_run 10 (To INIT, submit_event ''wf'' ''Default'' ERROR_OCCURRED None None) = (ns, (END, st))
     \<and> ns = [INIT, IDLE, ERROR, IDLE, ERROR, IDLE, ERROR] \<and> error_count st = 3"
proof -
  let ?st0 = "submit_event ''wf'' ''Default'' ERROR_OCCURRED None None"
  obtain ns t st where r: "graph_run 10 (To INIT, ?st0) = (ns, (t, st))"
    by (metis surj_pair)
  have v: "ns = [INIT, IDLE, ERROR, IDLE, ERROR, IDLE, ERROR]" "t = END"
    using r by (simp_all add: run_defs)
  have "error_count ?st0 = 0" "\<not> rollback_triggered ?st0" by (simp_all add: run_defs)
  from error_retries_bounded[OF graph_run_trace[OF r] this] v r show ?thesis by simp
qed

text \<open>
  A workflow that completes never reaches END: once COMPLETED has been visited the graph idles,
  with no pending event and whatever the callbacks do, and no number of further steps ends the run
  (the executor of the graph must cut it off).
\<close>

theorem completed_run_never_ends:
  assumes "graph_trace c ns (t, st)" and "COMPLETED \<in> set ns"
  shows "t = To IDLE \<and> pending_event st = None
    \<and> graph_edge IDLE now (graph_node IDLE now' st) = (graph_node IDLE now' st, Inr (To IDLE))"
  using completed_trace[OF assms]
  by (simp add: route_from_idle_def event_is_def node_pending)

definition demo_command :: graph_state where
  "demo_command = submit_event ''wf'' ''Default'' USER_COMMAND None None"

theorem completed_run_never_ends_witness:
  "\<exists>ns st. graph_run 6 (To INIT, demo_command) = (ns, (To IDLE, st))
     \<and> ns = [INIT, IDLE, ANALYZING, COMPLETED, IDLE, IDLE] \<and> pending_event st = None"
proof -
  obtain ns t st where r: "graph_run 6 (To INIT, demo_command) = (ns, (t, st))"
    by (metis surj_pair)
  have ns: "ns = [INIT, IDLE, ANALYZING, COMPLETED, IDLE, IDLE]"
    using r by (simp add: run_defs demo_command_def)
  from completed_run_never_ends[OF graph_run_trace[OF r], of 0 0] r ns show ?thesis by simp
qed

text \<open>
  The approval wait dispatches exactly on the answer \<open>approved\<close>; any other answer completes
  without dispatching, except \<open>timeout\<close>, which is an error; with no answer it waits until 300
  seconds after its start and is then an error, with \<open>last_error\<close> set.
\<close>

theorem hitl_wait_outcomes:
  "(snd (route_from_hitl_wait now st) = Inr (To DISPATCHING) \<longleftrightarrow> hitl_response st = Some ''approved'')
   \<and> (snd (route_from_hitl_wait now st) = Inr (To COMPLETED) \<longleftrightarrow>
        (\<exists>r. hitl_response st = Some r \<and> r \<noteq> ''approved'' \<and> r \<noteq> ''timeout''))
   \<and> (snd (route_from_hitl_wait now st) = Inr (To HITL_WAIT) \<longleftrightarrow>
        hitl_response st = None \<and> (\<exists>s. hitl_started_at st = Some s \<and> now - s < 300))
   \<and> (snd (route_from_hitl_wait now st) = Inr (To ERROR) \<longleftrightarrow> hitl_response st = Some ''timeout'' \<or>
        (hitl_response st = None \<and> (case hitl_started_at st of None \<Rightarrow> True | Some s \<Rightarrow> now - s \<ge> 300)))
   \<and> (hitl_response st = None \<longrightarrow> snd (route_from_hitl_wait now st) = Inr (To ERROR) \<longrightarrow>
        nonempty (last_error (fst (route_from_hitl_wait now st))))"
  by (cases "hitl_response st"; cases "hitl_started_at st")
    (auto simp: route_from_hitl_wait_def validate_and_route_eq workflow.allowed_def HITL_TIMEOUT_SECONDS_def)

theorem hitl_wait_outcomes_witness:
  "snd (route_from_hitl_wait 400 ((get_initial_state ''wf'' ''p'')\<lparr>hitl_started_at := Some 200\<rparr>)) = Inr (To HITL_WAIT)
   \<and> snd (route_from_hitl_wait 500 ((get_initial_state ''wf'' ''p'')\<lparr>hitl_started_at := Some 200\<rparr>)) = Inr (To ERROR)"
  using hitl_wait_outcomes[of 400 "(get_initial_state ''wf'' ''p'')\<lparr>hitl_started_at := Some 200\<rparr>"]
    hitl_wait_outcomes[of 500 "(get_initial_state ''wf'' ''p'')\<lparr>hitl_started_at := Some 200\<rparr>"]
  by (simp add: get_initial_state_def)

text \<open>
  The start of the approval wait is never reset: once a run has waited for an approval, every
  later wait, for another request too, is timed from the first, so from 300 seconds after it on an
  unanswered request goes to ERROR at once.
\<close>

theorem hitl_clock_never_restarts:
  assumes "hitl_started_at st0 = Some t0" and "graph_trace (t, st0) ns (To HITL_WAIT, st)"
    and "callbacks_touch st st1" and "hitl_response st1 = None" and "t0 + 300 \<le> now2"
  shows "snd (graph_edge HITL_WAIT now2 (graph_node HITL_WAIT now1 st1)) = Inr (To ERROR)"
proof -
  have "hitl_started_at st1 = Some t0"
    using clock_trace[OF assms(2)] assms(1) callbacks_touchD(4)[OF assms(3)] by simp
  moreover have "hitl_response (graph_node HITL_WAIT now1 st1) = hitl_response st1"
    by (simp add: node_defs)
  ultimately show ?thesis using assms(4,5)
    by (simp add: node_started route_from_hitl_wait_def validate_and_route_eq workflow.allowed_def
        HITL_TIMEOUT_SECONDS_def)
qed

text \<open>An approved wait whose dispatch trips the loop guardrail and comes back.\<close>

definition demo_waited :: graph_state where
  "demo_waited = (get_initial_state ''wf'' ''p'')\<lparr>hitl_started_at := Some 0,
     hitl_response := Some ''approved'', loop_detected := True\<rparr>"

theorem hitl_clock_never_restarts_witness:
  "\<exists>st. graph_trace (To HITL_WAIT, demo_waited) [HITL_WAIT, DISPATCHING] (To HITL_WAIT, st)
    \<and> snd (graph_edge HITL_WAIT 300 (graph_node HITL_WAIT 300 (st\<lparr>hitl_response := None\<rparr>))) = Inr (To ERROR)"
proof -
  obtain ns t st where r: "graph_run 2 (To HITL_WAIT, demo_waited) = (ns, (t, st))"
    by (metis surj_pair)
  have v: "ns = [HITL_WAIT, DISPATCHING]" "t = To HITL_WAIT"
    using r by (simp_all add: run_defs demo_waited_def)
  have tr: "graph_trace (To HITL_WAIT, demo_waited) ns (To HITL_WAIT, st)"
    using graph_run_trace[OF r] v by simp
  have s: "hitl_started_at demo_waited = Some 0" by (simp add: demo_waited_def)
  have c: "callbacks_touch st (st\<lparr>hitl_response := None\<rparr>)"
    unfolding callbacks_touch_def
    by (intro exI[of _ "tool_result st"] exI[of _ "last_error st"] exI[of _ "hitl_request st"]
      exI[of _ "None"] exI[of _ "loop_detected st"] exI[of _ "loop_context st"]) simp
  from hitl_clock_never_restarts[OF s tr c, of 300 300] tr v show ?thesis by auto
qed

text \<open>
  Nothing in the graph performs a rollback: no node, edge or callback ever sets
  \<open>rollback_result\<close>, so in every run that starts without one (the initial state has none)
  ROLLING_BACK leads to ERROR_FATAL.
\<close>

theorem rollback_never_succeeds:
  assumes "rollback_result st0 = None" and "graph_trace (To INIT, st0) (ns @ [ROLLING_BACK]) (t, st)"
  shows "t = To ERROR_FATAL"
  using rollback_trace[OF assms(2)] assms(1) by simp

definition demo_patch_failed :: graph_state where
  "demo_patch_failed = (submit_event ''wf'' ''p'' USER_COMMAND (Some [(''requires_patch'', JBool True)]) None)
     \<lparr>tool_name := Some ''resolve_conflict_with_patch''\<rparr>"

lemma touch_last_error: "callbacks_touch st (st\<lparr>last_error := e\<rparr>)"
  unfolding callbacks_touch_def
  by (intro exI[of _ "tool_result st"] exI[of _ e] exI[of _ "hitl_request st"]
      exI[of _ "hitl_response st"] exI[of _ "loop_detected st"] exI[of _ "loop_context st"]) simp

theorem rollback_never_succeeds_witness:
  "\<exists>st t st'. graph_run 3 (To INIT, demo_patch_failed) = ([INIT, IDLE, ANALYZING], (To PATCHING, st))
     \<and> graph_trace (To INIT, demo_patch_failed) [INIT, IDLE, ANALYZING, PATCHING, ROLLING_BACK] (t, st')
     \<and> t = To ERROR_FATAL"
proof -
  obtain ns t st where r: "graph_run 3 (To INIT, demo_patch_failed) = (ns, (t, st))"
    by (metis surj_pair)
  have v: "ns = [INIT, IDLE, ANALYZING]" "t = To PATCHING" "rollback_triggered st = False" "rollback_result st = None"
    using r by (auto simp: run_defs demo_patch_failed_def)
  let ?e = "st\<lparr>last_error := Some ''xEdit failed''\<rparr>"
  have "graph_edge PATCHING 0 (graph_node PATCHING 0 ?e) = (graph_node PATCHING 0 ?e, Inr (To ROLLING_BACK))"
    using v by (simp add: route_defs node_defs)
  with graph_run_trace[OF r] v touch_last_error[of st]
  have 1: "graph_trace (To INIT, demo_patch_failed) ([INIT, IDLE, ANALYZING] @ [PATCHING]) (To ROLLING_BACK, graph_node PATCHING 0 ?e)"
    by (intro trace_node[of _ _ _ st ?e]) auto
  have "rollback_result (graph_node ROLLING_BACK 0 (graph_node PATCHING 0 ?e)) = None"
    using v by (simp add: node_rollback_result)
  then have "\<exists>t x. graph_edge ROLLING_BACK 0 (graph_node ROLLING_BACK 0 (graph_node PATCHING 0 ?e)) = (x, Inr t)"
    by (simp add: route_defs dget_or_def)
  then obtain t x where "graph_edge ROLLING_BACK 0 (graph_node ROLLING_BACK 0 (graph_node PATCHING 0 ?e)) = (x, Inr t)"
    by blast
  from trace_node[OF 1 callbacks_touch_refl this callbacks_touch_refl]
  have 2: "graph_trace (To INIT, demo_patch_failed) (([INIT, IDLE, ANALYZING] @ [PATCHING]) @ [ROLLING_BACK])
    (t, graph_node ROLLING_BACK 0 (graph_node PATCHING 0 ?e))" .
  have "rollback_result demo_patch_failed = None" by (simp add: demo_patch_failed_def run_defs)
  from rollback_never_succeeds[OF this 2] 2 r v show ?thesis by simp blast
qed

text \<open>
  An event submitted through \<open>submit_event\<close> carries no tool and nothing in the graph sets one:
  in every run of it PATCHING, GENERATING_LODS and ROLLING_BACK are never visited, and a dispatch
  with the supervisor connected only records the missing tool as the error.
\<close>

definition no_tool :: "supervisor_state list \<Rightarrow> target \<times> graph_state \<Rightarrow> bool" where
  "no_tool ns c \<longleftrightarrow> tool_name (snd c) = None \<and> rollback_transaction_id (snd c) = None
     \<and> set ns \<inter> {PATCHING, GENERATING_LODS, ROLLING_BACK} = {}
     \<and> fst c \<notin> {To PATCHING, To GENERATING_LODS, To ROLLING_BACK}"

lemma node_tool: "tool_name (graph_node n now st) = tool_name st"
  by (cases n) (simp_all add: node_defs)

lemma edge_no_tool:
  "graph_edge n now st = (st', Inr t) \<Longrightarrow> tool_name st = None \<Longrightarrow> rollback_transaction_id st = None \<Longrightarrow>
   n \<notin> {PATCHING, GENERATING_LODS, ROLLING_BACK} \<Longrightarrow> t \<notin> {To PATCHING, To GENERATING_LODS, To ROLLING_BACK}"
  by (cases n) (auto simp: route_defs split: if_splits option.splits)

lemma no_tool_trace: "graph_trace c ns c' \<Longrightarrow> no_tool [] c \<Longrightarrow> no_tool ns c'"
proof (induction rule: graph_trace.induct)
  case (trace_node c ns n st st1 t2 t1 edged t st')
  note keep = callbacks_touchD[OF trace_node.hyps(2)] callbacks_touchD[OF trace_node.hyps(4)]
  have ok: "no_tool ns (To n, st)" by (rule trace_node.IH[OF trace_node.prems])
  then have "t \<notin> {To PATCHING, To GENERATING_LODS, To ROLLING_BACK}"
    using edge_no_tool[OF trace_node.hyps(3)]
    by (auto simp: no_tool_def keep node_tool node_rollback_id)
  then show ?case using ok by (auto simp: no_tool_def keep node_tool node_rollback_id)
qed

theorem submitted_event_has_no_tool:
  assumes "graph_trace (To INIT, submit_event wid profile event data thread) ns (t, st)"
  shows "set ns \<inter> {PATCHING, GENERATING_LODS, ROLLING_BACK} = {}
    \<and> (\<exists>st'. on_dispatching sha256 (Some dispatch) g st w = (g, w, Inr st') \<and> nonempty (last_error st'))"
proof -
  have "no_tool [] (To INIT, submit_event wid profile event data thread)"
    by (simp add: no_tool_def submit_event_def get_initial_state_def Let_def split: option.splits)
  from no_tool_trace[OF assms this] show ?thesis
    by (simp add: no_tool_def on_dispatching_def)
qed

theorem submitted_event_has_no_tool_witness:
  "\<exists>ns st st'. graph_run 3 (To INIT, submit_event ''wf'' ''p'' TOOL_REQUEST (Some [(''tool_name'', JStr ''generate_lods'')]) None)
      = (ns, (To COMPLETED, st)) \<and> ns = [INIT, IDLE, DISPATCHING]
    \<and> on_dispatching id (Some (\<lambda>_ _ n. (Suc n, Inr []))) \<lparr>max_repeats = 3, window_size = 5, history = []\<rparr> st (0 :: nat)
      = (\<lparr>max_repeats = 3, window_size = 5, history = []\<rparr>, 0, (Inr st' :: unit + graph_state))"
proof -
  let ?st0 = "submit_event ''wf'' ''p'' TOOL_REQUEST (Some [(''tool_name'', JStr ''generate_lods'')]) None"
  obtain ns t st where r: "graph_run 3 (To INIT, ?st0) = (ns, (t, st))"
    by (metis surj_pair)
  have v: "ns = [INIT, IDLE, DISPATCHING]" "t = To COMPLETED" using r by (simp_all add: run_defs)
  from submitted_event_has_no_tool[OF graph_run_trace[OF r], of id "\<lambda>_ _ n. (Suc n, Inr [])"
      "\<lparr>max_repeats = 3, window_size = 5, history = []\<rparr>" "0 :: nat"] r v
  show ?thesis by blast
qed

text \<open>
  A dispatched tool whose result says it failed still completes the workflow: only
  \<open>last_error\<close> or a detected loop leaves DISPATCHING for ERROR or HITL_WAIT.
\<close>

theorem failed_tool_completes:
  assumes "\<not> loop_detected st" and "\<not> nonempty (last_error st)" and "tool_result st = Some d"
    and "dget d ''status'' \<noteq> Some (JStr ''success'')" and "dget d ''status'' \<noteq> Some (JStr ''aborted'')"
  shows "route_from_dispatching st = Inr (To COMPLETED)"
  using assms by (simp add: route_from_dispatching_def status_is_def validate_and_route_eq workflow.allowed_def)

theorem failed_tool_completes_witness:
  "route_from_dispatching ((get_initial_state ''wf'' ''p'')\<lparr>tool_name := Some ''generate_lods'',
     tool_result := Some [(''status'', JStr ''error''), (''reason'', JStr ''HITLApprovalDenied'')]\<rparr>) = Inr (To COMPLETED)"
  by (rule failed_tool_completes[where d = "[(''status'', JStr ''error''), (''reason'', JStr ''HITLApprovalDenied'')]"])
    (simp_all add: get_initial_state_def)

text \<open>
  The history reducer keeps the last 50 entries of everything ever appended: applying it node
  by node is the same as cutting the whole history once.
\<close>

theorem history_keeps_last_entries:
  "foldl capped_transition_history [] updates = (let all = concat updates in drop (length all - 50) all)
   \<and> length (foldl capped_transition_history [] updates) \<le> 50"
proof -
  have cap: "capped_transition_history a b = drop (length (a @ b) - 50) (a @ b)" for a b :: "'a list"
    by (simp add: capped_transition_history_def MAX_TRANSITION_HISTORY_def Let_def)
  have "foldl capped_transition_history [] updates = drop (length (concat updates) - 50) (concat updates)"
  proof (induction updates rule: rev_induct)
    case (snoc u updates)
    let ?c = "concat updates"
    have "drop (length (drop (length ?c - 50) ?c @ u) - 50) (drop (length ?c - 50) ?c @ u)
        = drop (length (?c @ u) - 50) (?c @ u)"
    proof (cases "length ?c \<le> 50")
      case False
      then have "length (drop (length ?c - 50) ?c @ u) - 50 = length u" by simp
      then show ?thesis using False by (cases "length u \<le> 50") (simp_all add: drop_append add.commute)
    qed simp
    then show ?case using snoc by (simp only: foldl_append foldl.simps cap concat_append concat.simps append_Nil2)
  qed simp
  then show ?thesis by (simp add: Let_def)
qed



end
