(* ===== verification/Glob.thy ===== *)
theory Glob
  imports Prelude
begin

text \<open>
  What the sources use of \<open>fnmatch.fnmatch\<close> (\<open>core/event_bus.py\<close>, \<open>security/hitl.py\<close>): patterns of
  literal characters, \<open>*\<close> and \<open>?\<close>; no pattern of the program has a bracket.  \<open>normcase\<close> is
  \<open>os.path.normcase\<close>: the identity on POSIX, lower case with \<open>/\<close> turned into a backslash on Windows.
\<close>

fun wildcard :: "string \<Rightarrow> string \<Rightarrow> bool" where
  "wildcard [] s = (s = [])"
| "wildcard (p # ps) [] = (p = CHR ''*'' \<and> wildcard ps [])"
| "wildcard (p # ps) (c # cs) =
    (if p = CHR ''*'' then wildcard ps (c # cs) \<or> wildcard (p # ps) cs
     else (p = CHR ''?'' \<or> p = c) \<and> wildcard ps cs)"

definition fnmatch :: "(string \<Rightarrow> string) \<Rightarrow> string \<Rightarrow> string \<Rightarrow> bool" where
  "fnmatch normcase name pat = wildcard (normcase pat) (normcase name)"

definition literal :: "string \<Rightarrow> bool" where
  "literal p \<longleftrightarrow> CHR ''*'' \<notin> set p \<and> CHR ''?'' \<notin> set p"

lemma wildcard_star: "wildcard (CHR ''*'' # ps) s \<longleftrightarrow> (\<exists>a b. s = a @ b \<and> wildcard ps b)"
proof (induction s)
  case (Cons c cs)
  have "wildcard (CHR ''*'' # ps) (c # cs) \<longleftrightarrow> wildcard ps (c # cs) \<or> (\<exists>a b. cs = a @ b \<and> wildcard ps b)"
    using Cons by simp
  also have "\<dots> \<longleftrightarrow> (\<exists>a b. c # cs = a @ b \<and> wildcard ps b)"
    by (metis append_Cons append_Nil list.sel(3) neq_Nil_conv)
  finally show ?case .
qed simp

lemma wildcard_literal_append: "literal p \<Longrightarrow> wildcard (p @ q) s \<longleftrightarrow> (\<exists>t. s = p @ t \<and> wildcard q t)"
proof (induction p arbitrary: s)
  case (Cons a p)
  then show ?case by (cases s) (auto simp: literal_def)
qed simp

text \<open>A literal pattern matches itself only, and \<open>p*\<close> matches what begins with \<open>p\<close>.\<close>

lemma wildcard_literal: "literal p \<Longrightarrow> wildcard p s \<longleftrightarrow> s = p"
  using wildcard_literal_append[of p "[]" s] by simp

lemma wildcard_all [simp]: "wildcard ''*'' s"
  unfolding wildcard_star by (rule exI[of _ s]) simp

lemma wildcard_prefix: "literal p \<Longrightarrow> wildcard (p @ ''*'') s \<longleftrightarrow> (\<exists>t. s = p @ t)"
  using wildcard_literal_append[of p "''*''" s] by simp

lemma wildcard_suffix: "literal p \<Longrightarrow> wildcard (CHR ''*'' # p) s \<longleftrightarrow> (\<exists>t. s = t @ p)"
  by (auto simp: wildcard_star wildcard_literal)

end
