(* ===== verification/Event_Bus.thy ===== *)
theory Event_Bus
  imports Dead_Letters Glob
begin

text \<open>
  \<open>sky_claw/antigravity/core/event_bus.py\<close>: subscriptions, the bounded queue, the dispatch loop with
  its limits, and how failed or dropped deliveries reach the dead letter queue.  A callback is a value
  of any type with the name \<open>_handler_name\<close> gives it; a handler task is the callback with its event.
  Dispatching an event has no await, so it is one step; the loop is suspended only in \<open>queue.get\<close>.
\<close>

section \<open>State\<close>

datatype loop_phase = Fresh | At_Get | Ended

record 'c bus =
  subscriptions :: "(string \<times> 'c) list"
  bus_queue :: "event option list"
  max_queue_size :: nat
  dispatch_task :: "loop_phase option"
  pending_tasks :: "('c \<times> event) list"
  dlq_tasks :: "('c \<times> event) list"
  bus_running :: bool
  has_dlq :: bool
  handler_index :: "(string, 'c) dict"

definition MAX_PENDING_TASKS :: nat where
  "MAX_PENDING_TASKS = 50"

definition MAX_DLQ_TASKS :: nat where
  "MAX_DLQ_TASKS = 50"

definition new_bus :: "nat \<Rightarrow> bool \<Rightarrow> 'c bus" where
  "new_bus n dlq = \<lparr>subscriptions = [], bus_queue = [], max_queue_size = n, dispatch_task = None,
     pending_tasks = [], dlq_tasks = [], bus_running = False, has_dlq = dlq, handler_index = []\<rparr>"

section \<open>Operations\<close>

definition subscribe :: "('c \<Rightarrow> string) \<Rightarrow> string \<Rightarrow> 'c \<Rightarrow> 'c bus \<Rightarrow> 'c bus" where
  "subscribe nm pat cb b = b\<lparr>subscriptions := subscriptions b @ [(pat, cb)],
     handler_index := dset (nm cb) cb (handler_index b)\<rparr>"

definition unsubscribe :: "('c \<Rightarrow> string) \<Rightarrow> string \<Rightarrow> 'c \<Rightarrow> 'c bus \<Rightarrow> 'c bus" where
  "unsubscribe nm pat cb b = b\<lparr>subscriptions := remove1 (pat, cb) (subscriptions b),
     handler_index := ddel (nm cb) (handler_index b)\<rparr>"

text \<open>\<open>asyncio.Queue\<close>: a \<open>maxsize\<close> of zero means no bound.\<close>

definition queue_full :: "'c bus \<Rightarrow> bool" where
  "queue_full b \<longleftrightarrow> 0 < max_queue_size b \<and> max_queue_size b \<le> length (bus_queue b)"

datatype published = Published | Blocked | Not_Running

definition publish_event :: "event \<Rightarrow> 'c bus \<Rightarrow> 'c bus \<times> published" where
  "publish_event ev b =
    (if \<not> bus_running b then (b, Not_Running)
     else if queue_full b then (b, Blocked)
     else (b\<lparr>bus_queue := bus_queue b @ [Some ev]\<rparr>, Published))"

definition schedule_backpressure_drop :: "event \<Rightarrow> 'c \<Rightarrow> 'c bus \<Rightarrow> 'c bus" where
  "schedule_backpressure_drop ev cb b =
    (if length (dlq_tasks b) \<ge> MAX_DLQ_TASKS then b
     else b\<lparr>dlq_tasks := dlq_tasks b @ [(cb, ev)]\<rparr>)"

definition deliver :: "(string \<Rightarrow> string) \<Rightarrow> event \<Rightarrow> 'c bus \<Rightarrow> string \<times> 'c \<Rightarrow> 'c bus" where
  "deliver normcase ev b sub =
    (case sub of (pat, cb) \<Rightarrow>
      if \<not> fnmatch normcase (topic ev) pat then b
      else if length (pending_tasks b) \<ge> MAX_PENDING_TASKS
        then (if has_dlq b then schedule_backpressure_drop ev cb b else b)
      else b\<lparr>pending_tasks := pending_tasks b @ [(cb, ev)]\<rparr>)"

definition dispatch_event :: "(string \<Rightarrow> string) \<Rightarrow> event \<Rightarrow> 'c bus \<Rightarrow> 'c bus" where
  "dispatch_event normcase ev b = foldl (deliver normcase ev) b (subscriptions b)"

text \<open>The loop from \<open>queue.get\<close> on, over the items of the queue.\<close>

fun loop_get :: "(string \<Rightarrow> string) \<Rightarrow> event option list \<Rightarrow> 'c bus \<Rightarrow> 'c bus" where
  "loop_get normcase [] b = b\<lparr>bus_queue := [], dispatch_task := Some At_Get\<rparr>"
| "loop_get normcase (None # q) b = b\<lparr>bus_queue := q, dispatch_task := Some Ended\<rparr>"
| "loop_get normcase (Some ev # q) b =
    (let b' = dispatch_event normcase ev (b\<lparr>bus_queue := q\<rparr>) in
     if bus_running b' then loop_get normcase q b' else b'\<lparr>dispatch_task := Some Ended\<rparr>)"

definition resume_loop :: "(string \<Rightarrow> string) \<Rightarrow> 'c bus \<Rightarrow> 'c bus" where
  "resume_loop normcase b =
    (case dispatch_task b of
       Some Fresh \<Rightarrow> if bus_running b then loop_get normcase (bus_queue b) b else b\<lparr>dispatch_task := Some Ended\<rparr>
     | Some At_Get \<Rightarrow> loop_get normcase (bus_queue b) b
     | _ \<Rightarrow> b)"

definition start_bus :: "'c bus \<Rightarrow> 'c bus" where
  "start_bus b = (if dispatch_task b \<noteq> None then b else b\<lparr>bus_running := True, dispatch_task := Some Fresh\<rparr>)"

section \<open>Failures and the dead letter queue\<close>

text \<open>\<open>say\<close> builds the message of a \<open>BackpressureDroppedError\<close> from the handler's name and the topic.\<close>

definition enqueue_backpressure_drop ::
  "dlq_config \<Rightarrow> ('c \<Rightarrow> string) \<Rightarrow> (string \<Rightarrow> string \<Rightarrow> string) \<Rightarrow> int \<Rightarrow> 'c \<times> event \<Rightarrow> dead_letters \<Rightarrow> dead_letters" where
  "enqueue_backpressure_drop cfg nm say now x d = (case x of (cb, ev) \<Rightarrow>
     enqueue cfg ev (nm cb) ''BackpressureDroppedError'' (say (nm cb) (topic ev)) now d)"

definition safe_execute ::
  "dlq_config \<Rightarrow> ('c \<Rightarrow> string) \<Rightarrow> bool \<Rightarrow> int \<Rightarrow> 'c \<times> event \<Rightarrow> ending \<Rightarrow> dead_letters \<Rightarrow> dead_letters" where
  "safe_execute cfg nm dlq now x e d =
    (case (x, e) of
       ((cb, ev), Raised etype msg) \<Rightarrow> if dlq then enqueue cfg ev (nm cb) etype msg now d else d
     | _ \<Rightarrow> d)"

text \<open>
  \<open>stop\<close>: the sentinel (or a cancellation when the queue is full), the end of the loop, the handler
  tasks cancelled, the dead letter tasks awaited.
\<close>

definition stop_bus ::
  "dlq_config \<Rightarrow> (string \<Rightarrow> string) \<Rightarrow> ('c \<Rightarrow> string) \<Rightarrow> (string \<Rightarrow> string \<Rightarrow> string) \<Rightarrow> int \<Rightarrow>
   'c bus \<Rightarrow> dead_letters \<Rightarrow> 'c bus \<times> dead_letters" where
  "stop_bus cfg normcase nm say now b d =
    (if dispatch_task b = None then (b, d)
     else
       let b1 = b\<lparr>bus_running := False\<rparr>;
           b2 = (if queue_full b1 then b1 else resume_loop normcase (b1\<lparr>bus_queue := bus_queue b1 @ [None]\<rparr>))
       in (b2\<lparr>dispatch_task := None, pending_tasks := [], dlq_tasks := []\<rparr>,
           fold (enqueue_backpressure_drop cfg nm say now) (dlq_tasks b2) d))"

section \<open>What one dispatch does\<close>

definition matching :: "(string \<Rightarrow> string) \<Rightarrow> event \<Rightarrow> (string \<times> 'c) list \<Rightarrow> 'c list" where
  "matching normcase ev subs = map snd (filter (\<lambda>s. fnmatch normcase (topic ev) (fst s)) subs)"

lemma dispatch_fields [simp]:
  "subscriptions (foldl (deliver normcase ev) b subs) = subscriptions b"
  "has_dlq (foldl (deliver normcase ev) b subs) = has_dlq b"
  "bus_running (foldl (deliver normcase ev) b subs) = bus_running b"
  "bus_queue (foldl (deliver normcase ev) b subs) = bus_queue b"
  "dispatch_task (foldl (deliver normcase ev) b subs) = dispatch_task b"
  "handler_index (foldl (deliver normcase ev) b subs) = handler_index b"
  "max_queue_size (foldl (deliver normcase ev) b subs) = max_queue_size b"
  by (induction subs arbitrary: b; simp add: deliver_def schedule_backpressure_drop_def split: prod.split)+

lemma deliver_all:
  "pending_tasks (foldl (deliver normcase ev) b subs)
     = pending_tasks b @ take (MAX_PENDING_TASKS - length (pending_tasks b)) (map (\<lambda>c. (c, ev)) (matching normcase ev subs))
   \<and> dlq_tasks (foldl (deliver normcase ev) b subs)
     = dlq_tasks b @ (if has_dlq b then take (MAX_DLQ_TASKS - length (dlq_tasks b))
         (drop (MAX_PENDING_TASKS - length (pending_tasks b)) (map (\<lambda>c. (c, ev)) (matching normcase ev subs))) else [])"
proof (induction subs arbitrary: b)
  case (Cons sub subs)
  obtain pat cb where sub: "sub = (pat, cb)" by fastforce
  consider "\<not> fnmatch normcase (topic ev) pat" | "fnmatch normcase (topic ev) pat" "length (pending_tasks b) < MAX_PENDING_TASKS"
    | "fnmatch normcase (topic ev) pat" "MAX_PENDING_TASKS \<le> length (pending_tasks b)" by linarith
  then show ?case
  proof cases
    case 1
    then show ?thesis using Cons[of b] by (simp add: sub deliver_def matching_def)
  next
    case 2
    then obtain n where n: "MAX_PENDING_TASKS - length (pending_tasks b) = Suc n" by (metis Suc_diff_Suc)
    then have "MAX_PENDING_TASKS - Suc (length (pending_tasks b)) = n" by simp
    with 2 n show ?thesis using Cons[of "b\<lparr>pending_tasks := pending_tasks b @ [(cb, ev)]\<rparr>"]
      by (simp add: sub deliver_def matching_def)
  next
    case 3
    then have z: "MAX_PENDING_TASKS - length (pending_tasks b) = 0" by simp
    show ?thesis
    proof (cases "has_dlq b \<and> length (dlq_tasks b) < MAX_DLQ_TASKS")
      case True
      then obtain n where n: "MAX_DLQ_TASKS - length (dlq_tasks b) = Suc n" by (metis Suc_diff_Suc)
      then have "MAX_DLQ_TASKS - Suc (length (dlq_tasks b)) = n" by simp
      with True 3 z n show ?thesis using Cons[of "b\<lparr>dlq_tasks := dlq_tasks b @ [(cb, ev)]\<rparr>"]
        by (simp add: sub deliver_def matching_def schedule_backpressure_drop_def)
    next
      case False
      with 3 z show ?thesis using Cons[of b]
        by (auto simp: sub deliver_def matching_def schedule_backpressure_drop_def)
    qed
  qed
qed (simp add: matching_def)

text \<open>
  Dispatching an event starts a task for the matching subscriptions in order of subscription, as
  many as fit under the limit of 50 running tasks; of the others, with a dead letter queue, as many as
  fit under its limit of 50 are set aside for it, and the rest are dropped.  Neither limit is ever
  exceeded and nothing else of the bus changes.
\<close>

theorem dispatch_accounts_for_matches:
  "let b' = dispatch_event normcase ev b;
       jobs = map (\<lambda>c. (c, ev)) (matching normcase ev (subscriptions b));
       room = MAX_PENDING_TASKS - length (pending_tasks b); dlq_room = MAX_DLQ_TASKS - length (dlq_tasks b)
   in pending_tasks b' = pending_tasks b @ take room jobs
    \<and> dlq_tasks b' = dlq_tasks b @ (if has_dlq b then take dlq_room (drop room jobs) else [])
    \<and> length (pending_tasks b') \<le> max (length (pending_tasks b)) MAX_PENDING_TASKS
    \<and> length (dlq_tasks b') \<le> max (length (dlq_tasks b)) MAX_DLQ_TASKS
    \<and> b' = b\<lparr>pending_tasks := pending_tasks b', dlq_tasks := dlq_tasks b'\<rparr>"
proof -
  have "dispatch_event normcase ev b
    = b\<lparr>pending_tasks := pending_tasks (dispatch_event normcase ev b), dlq_tasks := dlq_tasks (dispatch_event normcase ev b)\<rparr>"
    unfolding dispatch_event_def by (rule bus.equality) simp_all
  moreover note deliver_all[of normcase ev b "subscriptions b", folded dispatch_event_def]
  ultimately show ?thesis by (auto simp: Let_def)
qed

section \<open>Where failures go\<close>

text \<open>
  What the bus relies on in a dead letter queue: what is put in can be found again under its
  identifier, with the name of its handler, and putting in one event disturbs no other.
\<close>

locale letter_box =
  fixes put :: "event \<Rightarrow> string \<Rightarrow> string \<Rightarrow> string \<Rightarrow> int \<Rightarrow> 'd \<Rightarrow> 'd"
    and holds :: "'d \<Rightarrow> event \<Rightarrow> string \<Rightarrow> bool"
    and sound :: "'d \<Rightarrow> bool"
  assumes put_holds: "sound d \<Longrightarrow> holds (put ev name x m now d) ev name"
    and put_keeps: "sound d \<Longrightarrow> holds d ev' name' \<Longrightarrow> holds (put ev name x m now d) ev' name'"
    and put_sound: "sound d \<Longrightarrow> sound (put ev name x m now d)"
begin

lemma fold_keeps:
  "sound d \<Longrightarrow> holds d ev name \<Longrightarrow> holds (fold (\<lambda>x. put (snd x) (f x) (g x) (h x) now) xs d) ev name"
  by (induction xs arbitrary: d) (auto intro: put_keeps put_sound)

lemma fold_holds:
  "sound d \<Longrightarrow> x \<in> set xs \<Longrightarrow> holds (fold (\<lambda>x. put (snd x) (f x) (g x) (h x) now) xs d) (snd x) (f x)"
  by (induction xs arbitrary: d) (auto intro: put_holds put_sound fold_keeps)

end

definition holds_letter :: "dead_letters \<Rightarrow> event \<Rightarrow> string \<Rightarrow> bool" where
  "holds_letter d ev name \<longleftrightarrow> list_ex (\<lambda>r. letter_topic r = topic ev \<and> payload_json r = dumps (event_payload ev)
     \<and> letter_source r = event_source ev \<and> event_ts_ms r = timestamp_ms ev \<and> handler_name r = name) (letters d)"

interpretation dlq: letter_box "enqueue cfg" holds_letter well_formed for cfg
proof unfold_locales
  fix d ev name x m now ev' name'
  assume wf: "well_formed d"
  show "holds_letter (enqueue cfg ev name x m now d) ev name" by (simp add: holds_letter_def enqueue_def Let_def)
  show "holds_letter (enqueue cfg ev name x m now d) ev' name'" if "holds_letter d ev' name'"
    using that by (auto simp: holds_letter_def enqueue_def Let_def)
  show "well_formed (enqueue cfg ev name x m now d)" using wf by blast
qed

lemma enqueue_drop_eq:
  "enqueue_backpressure_drop cfg nm say now =
    (\<lambda>x. enqueue cfg (snd x) (nm (fst x)) ''BackpressureDroppedError'' (say (nm (fst x)) (topic (snd x))) now)"
  by (auto simp: enqueue_backpressure_drop_def fun_eq_iff split: prod.split)

text \<open>
  A graceful stop loses none of the deliveries set aside under backpressure: every one waiting in
  the bus is in the dead letter table afterwards, and so is everything the table held before.
\<close>

theorem stop_keeps_dropped_deliveries:
  assumes "well_formed d" and "dispatch_task b \<noteq> None" and "(cb, ev) \<in> set (dlq_tasks b)"
    and "stop_bus cfg normcase nm say now b d = (b', d')"
  shows "holds_letter d' ev (nm cb) \<and> (\<forall>ev' name. holds_letter d ev' name \<longrightarrow> holds_letter d' ev' name)"
proof -
  have grow: "set (dlq_tasks c) \<subseteq> set (dlq_tasks (dispatch_event normcase e c))" for e and c :: "'a bus"
    using deliver_all[of normcase e c "subscriptions c", folded dispatch_event_def] by simp
  have "set (dlq_tasks c) \<subseteq> set (dlq_tasks (loop_get normcase q c))" for q and c :: "'a bus"
  proof (induction normcase q c rule: loop_get.induct)
    case (3 normcase e q c)
    then show ?case
      using deliver_all[of normcase e "c\<lparr>bus_queue := q\<rparr>" "subscriptions c", folded dispatch_event_def]
      by (auto simp: Let_def dispatch_event_def)
  qed simp_all
  then have "(cb, ev) \<in> set (dlq_tasks (resume_loop normcase c))" if "(cb, ev) \<in> set (dlq_tasks c)" for c :: "'a bus"
    using that by (auto simp: resume_loop_def split: option.split loop_phase.split)
  then have kept: "(cb, ev) \<in> set (dlq_tasks (resume_loop normcase c))" if "dlq_tasks c = dlq_tasks b" for c
    using that assms(3) by simp
  define b1 where "b1 = b\<lparr>bus_running := False\<rparr>"
  define b2 where "b2 = (if queue_full b1 then b1 else resume_loop normcase (b1\<lparr>bus_queue := bus_queue b1 @ [None]\<rparr>))"
  have b2: "(cb, ev) \<in> set (dlq_tasks b2)"
    unfolding b2_def using assms(3) kept[of "b1\<lparr>bus_queue := bus_queue b1 @ [None]\<rparr>"] by (simp add: b1_def)
  have d': "d' = fold (enqueue_backpressure_drop cfg nm say now) (dlq_tasks b2) d"
    using assms(2,4) unfolding stop_bus_def b1_def[symmetric] Let_def b2_def[symmetric] by auto
  have "holds_letter d' (snd (cb, ev)) (nm (fst (cb, ev)))"
    unfolding d' enqueue_drop_eq by (rule dlq.fold_holds[OF assms(1) b2])
  moreover have "holds_letter d ev' name \<Longrightarrow> holds_letter d' ev' name" for ev' name
    unfolding d' enqueue_drop_eq by (rule dlq.fold_keeps[OF assms(1)])
  ultimately show ?thesis by simp
qed

definition the_handler :: "('c \<Rightarrow> 'w handler) \<Rightarrow> 'c bus \<Rightarrow> string \<Rightarrow> 'w handler option" where
  "the_handler run b name = map_option run (dget (handler_index b) name)"

text \<open>
  What a failing handler could not process is retried as it was: the delivery leaves a row, and
  processing that row calls the same callback with the same event.
\<close>

theorem failed_delivery_is_retried:
  assumes "well_formed d" and "dget (handler_index b) (nm cb) = Some cb" and "has_dlq b"
    and "loads (dumps (event_payload ev)) = event_payload ev"
    and "safe_execute cfg nm (has_dlq b) now (cb, ev) (Raised x m) d = d'"
  shows "\<exists>row. letter d' (last_id d + 1) = Some row \<and> letter_status row = Waiting \<and> attempts row = 0
    \<and> (\<forall>t1 t2 w. process_row cfg loads (the_handler run b) row t1 t2 (w, d') =
        (let ((w', d''), e) = run cb ev (w, fst (claim (last_id d + 1) t1 d'))
         in ((w', finish_row cfg row e t2 d''), Some e)))"
proof -
  have d': "d' = enqueue cfg ev (nm cb) x m now d" using assms(3,5) by (simp add: safe_execute_def)
  have wf: "well_formed d'" unfolding d' using assms(1) by blast
  have "last_id d + 1 \<notin> set (letter_ids d)" using assms(1) by (auto simp: well_formed_def)
  then have l: "letter d' (last_id d + 1) = Some (last (letters d'))"
    unfolding d' by (simp add: letter_enqueue letter_None[symmetric])
  have row: "letter_status (last (letters d')) = Waiting" "attempts (last (letters d')) = 0"
    "letter_id (last (letters d')) = last_id d + 1" "handler_name (last (letters d')) = nm cb"
    "event_of loads (last (letters d')) = ev"
    using assms(4) by (simp_all add: d' enqueue_def Let_def event_of_def)
  have "snd (claim (last_id d + 1) t d') \<noteq> 0" for t using claim_count[OF wf] l row(1) by blast
  then have "process_row cfg loads (the_handler run b) (last (letters d')) t1 t2 (w, d') =
      (let ((w', d''), e) = run cb ev (w, fst (claim (last_id d + 1) t1 d'))
       in ((w', finish_row cfg (last (letters d')) e t2 d''), Some e))" for t1 t2 w
    using assms(2) by (simp add: process_row_def row(3,4,5) the_handler_def case_prod_unfold Let_def)
  with l row(1,2) show ?thesis by blast
qed

text \<open>
  The index keeps one callback per name.  After \<open>unsubscribe\<close> of one of two patterns of a callback its
  failures on the other pattern find no handler, and by \<open>unregistered_row_never_dies\<close> their rows are
  put off for ever; of two callbacks with the same name the later one gets the retries of both.
\<close>

lemma unsubscribe_unregisters:
  assumes "p \<noteq> q"
  shows "(q, cb) \<in> set (subscriptions (unsubscribe nm p cb (subscribe nm q cb (subscribe nm p cb b))))
    \<and> the_handler run (unsubscribe nm p cb (subscribe nm q cb (subscribe nm p cb b))) (nm cb) = None"
  using assms by (simp add: unsubscribe_def subscribe_def the_handler_def remove1_append)

lemma same_name_takes_over:
  "nm cb' = nm cb \<Longrightarrow> the_handler run (subscribe nm q cb' (subscribe nm p cb b)) (nm cb) = Some (run cb')"
  by (simp add: subscribe_def the_handler_def)

section \<open>Restarting\<close>

datatype bus_action = Publish event | Resume

fun bus_step :: "(string \<Rightarrow> string) \<Rightarrow> 'c bus \<Rightarrow> bus_action \<Rightarrow> 'c bus" where
  "bus_step normcase b (Publish ev) = fst (publish_event ev b)"
| "bus_step normcase b Resume = resume_loop normcase b"

text \<open>
  The loop stops after the event it is handling once \<open>stop\<close> was called, and what was queued behind it
  stays in the queue with the sentinel.
\<close>

lemma stop_leaves_queue:
  assumes "dispatch_task b = Some At_Get" and "bus_queue b = Some ev # q"
    and "max_queue_size b = 0 \<or> length (bus_queue b) < max_queue_size b"
    and "stop_bus cfg normcase nm say now b d = (b', d')"
  shows "bus_queue b' = q @ [None]" and "dispatch_task b' = None" and "\<not> bus_running b'" and "pending_tasks b' = []"
proof -
  have "b' = (resume_loop normcase (b\<lparr>bus_running := False, bus_queue := bus_queue b @ [None]\<rparr>))
      \<lparr>dispatch_task := None, pending_tasks := [], dlq_tasks := []\<rparr>"
    using assms(1,3,4) by (auto simp: stop_bus_def Let_def queue_full_def)
  then show "bus_queue b' = q @ [None]" "dispatch_task b' = None" "\<not> bus_running b'" "pending_tasks b' = []"
    using assms(1,2) by (simp_all add: resume_loop_def dispatch_event_def Let_def)
qed

lemma loop_meets_sentinel:
  "bus_running b \<Longrightarrow> None \<in> set q \<Longrightarrow>
   dispatch_task (loop_get normcase q b) = Some Ended \<and> bus_running (loop_get normcase q b)"
  by (induction normcase q b rule: loop_get.induct) (auto simp: Let_def dispatch_event_def)

lemma ended_stays:
  "dispatch_task b = Some Ended \<Longrightarrow> dispatch_task (foldl (bus_step normcase) b acts) = Some Ended
    \<and> pending_tasks (foldl (bus_step normcase) b acts) = pending_tasks b"
proof (induction acts arbitrary: b)
  case (Cons a acts)
  have "dispatch_task (bus_step normcase b a) = Some Ended \<and> pending_tasks (bus_step normcase b a) = pending_tasks b"
    using Cons.prems by (cases a) (simp_all add: publish_event_def resume_loop_def)
  with Cons.IH[of "bus_step normcase b a"] show ?case by simp
qed simp

text \<open>
  A bus stopped with events in its queue is deaf after the next start: the old sentinel ends the
  new loop, the bus still says it runs and takes events, but whatever is published from then on starts
  no handler.
\<close>

theorem restarted_bus_is_deaf:
  assumes "dispatch_task b = Some At_Get" and "bus_queue b = Some ev # q"
    and "max_queue_size b = 0 \<or> length (bus_queue b) < max_queue_size b"
    and "stop_bus cfg normcase nm say now b d = (b', d')"
  shows "let b1 = resume_loop normcase (start_bus b') in
    bus_running b1 \<and> dispatch_task b1 = Some Ended
    \<and> pending_tasks (foldl (bus_step normcase) b1 acts) = pending_tasks b1
    \<and> dispatch_task (foldl (bus_step normcase) b1 acts) = Some Ended"
proof -
  note st = stop_leaves_queue[OF assms]
  let ?b = "b'\<lparr>bus_running := True, dispatch_task := Some Fresh\<rparr>"
  have r: "resume_loop normcase (start_bus b') = loop_get normcase (q @ [None]) ?b"
    using st by (simp add: start_bus_def resume_loop_def)
  have "dispatch_task (loop_get normcase (q @ [None]) ?b) = Some Ended \<and> bus_running (loop_get normcase (q @ [None]) ?b)"
    by (rule loop_meets_sentinel) simp_all
  then show ?thesis unfolding r Let_def using ended_stays by blast
qed

section \<open>Witnesses\<close>

definition demo_bus :: "nat bus" where
  "demo_bus = resume_loop id (start_bus (subscribe (\<lambda>_. ''h'') ''*'' 0 (new_bus 1024 True)))"

definition demo_pair :: "nat bus" where
  "demo_pair = fst (publish_event demo_event (fst (publish_event demo_event demo_bus)))"

lemma demo_pair:
  "dispatch_task demo_pair = Some At_Get" "bus_queue demo_pair = [Some demo_event, Some demo_event]"
  "max_queue_size demo_pair = 1024" "has_dlq demo_pair" "dget (handler_index demo_pair) ''h'' = Some 0" "bus_running demo_pair"
  by (simp_all add: demo_pair_def demo_bus_def subscribe_def new_bus_def start_bus_def resume_loop_def publish_event_def
      queue_full_def)

theorem restarted_bus_is_deaf_witness:
  "let b1 = resume_loop id (start_bus (fst (stop_bus default_dlq id (\<lambda>_. ''h'') (\<lambda>_ _. []) 0 demo_pair empty_letters)))
   in bus_running b1 \<and> pending_tasks (foldl (bus_step id) b1 [Publish demo_event, Resume, Publish demo_event]) = pending_tasks b1"
proof -
  obtain b' d' where s: "stop_bus default_dlq id (\<lambda>_. ''h'') (\<lambda>_ _. []) 0 demo_pair empty_letters = (b', d')" by fastforce
  have "max_queue_size demo_pair = 0 \<or> length (bus_queue demo_pair) < max_queue_size demo_pair" by (simp add: demo_pair)
  note restarted_bus_is_deaf[OF demo_pair(1,2) this s, of "[Publish demo_event, Resume, Publish demo_event]"]
  then show ?thesis unfolding s fst_conv Let_def by blast
qed

theorem failed_delivery_is_retried_witness:
  "\<exists>row. letter (safe_execute default_dlq (\<lambda>_. ''h'') True 7 (0::nat, demo_event) (Raised ''E'' ''m'') empty_letters) 1 = Some row
    \<and> attempts row = 0 \<and> (\<forall>t1 t2 w. snd (process_row default_dlq (\<lambda>_. JDict []) (the_handler (\<lambda>_ ev s. (s, Returned)) demo_pair) row t1 t2
          (w :: unit, safe_execute default_dlq (\<lambda>_. ''h'') True 7 (0::nat, demo_event) (Raised ''E'' ''m'') empty_letters)) = Some Returned)"
proof -
  let ?d = "safe_execute default_dlq (\<lambda>_. ''h'') True 7 (0::nat, demo_event) (Raised ''E'' ''m'') empty_letters"
  have wf: "well_formed empty_letters" by (simp add: well_formed_def empty_letters_def letter_ids_def)
  have idx: "dget (handler_index demo_pair) ((\<lambda>_. ''h'') (0::nat)) = Some 0" by (simp add: demo_pair)
  have ld: "(\<lambda>_::string. JDict []) (dumps (event_payload demo_event)) = event_payload demo_event"
    by (simp add: demo_event_def)
  have "safe_execute default_dlq (\<lambda>_. ''h'') (has_dlq demo_pair) 7 (0::nat, demo_event) (Raised ''E'' ''m'') empty_letters = ?d"
    by (simp add: demo_pair)
  from failed_delivery_is_retried[where run = "\<lambda>_ ev s. (s, Returned)" and nm = "\<lambda>_. ''h''", OF wf idx demo_pair(4) ld this]
  obtain row where "letter ?d (last_id empty_letters + 1) = Some row" "attempts row = 0"
    and p: "\<forall>t1 t2 w. process_row default_dlq (\<lambda>_. JDict []) (the_handler (\<lambda>_ ev s. (s, Returned)) demo_pair) row t1 t2 (w::unit, ?d) =
        (let ((w', d''), e) = ((w, fst (claim (last_id empty_letters + 1) t1 ?d)), Returned)
         in ((w', finish_row default_dlq row e t2 d''), Some e))" by blast
  moreover have "snd (process_row default_dlq (\<lambda>_. JDict []) (the_handler (\<lambda>_ ev s. (s, Returned)) demo_pair) row t1 t2 (w::unit, ?d))
      = Some Returned" for t1 t2 w
    using p[rule_format, of t1 t2 w] by simp
  moreover have "last_id empty_letters + 1 = 1" by (simp add: empty_letters_def)
  ultimately show ?thesis by (auto simp: empty_letters_def)
qed

definition busy_bus :: "nat bus" where
  "busy_bus = demo_pair\<lparr>dlq_tasks := [(0, demo_event)]\<rparr>"

theorem stop_keeps_dropped_deliveries_witness:
  "holds_letter (snd (stop_bus default_dlq id (\<lambda>_. ''h'') (\<lambda>_ _. []) 0 busy_bus empty_letters)) demo_event ''h''"
proof -
  obtain b' d' where s: "stop_bus default_dlq id (\<lambda>_. ''h'') (\<lambda>_ _. []) 0 busy_bus empty_letters = (b', d')" by fastforce
  have wf: "well_formed empty_letters" by (simp add: well_formed_def empty_letters_def letter_ids_def)
  have t: "dispatch_task busy_bus \<noteq> None" "(0, demo_event) \<in> set (dlq_tasks busy_bus)" by (simp_all add: busy_bus_def demo_pair)
  from stop_keeps_dropped_deliveries[OF wf t s] show ?thesis by (simp add: s)
qed

end
