(* ===== verification/Ssrf_Validator.thy ===== *)
theory Ssrf_Validator
  imports Urls
begin

text \<open>
  \<open>sky_claw/antigravity/core/validators/ssrf.py\<close>: the validation of a URL against server-side request
  forgery.  The DNS resolver is a parameter: it raises (\<open>Inl\<close>) or answers texts of addresses.  The
  reason of a refusal is a value with the text's variable part.
\<close>

definition BLOCKED_NETWORKS :: "network list" where
  "BLOCKED_NETWORKS = [(v4 10 0 0 0, 8), (v4 172 16 0 0, 12), (v4 192 168 0 0, 16), (v4 127 0 0 0, 8),
     (v4 0 0 0 0, 8), (v4 169 254 0 0, 16), (v6 0 0 0 1, 128), (v6 0xFE80 0 0 0, 10)]"

definition BLOCKED_HOSTNAMES :: "string list" where
  "BLOCKED_HOSTNAMES = [''localhost'', ''localhost.localdomain'', ''ip6-localhost'', ''ip6-loopback'',
     ''metadata.google.internal'', ''metadata'', ''kubernetes.default'', ''kubernetes.default.svc'']"

text \<open>The regular expressions are plain suffixes; a host name never holds a line break.\<close>

definition BLOCKED_SUFFIXES :: "string list" where
  "BLOCKED_SUFFIXES = [''.local'', ''.internal'', ''.localhost'']"

datatype ssrf_reason =
    Malformed_Url | Scheme_Not_Allowed string | Without_Hostname | Hostname_Blocked string | Pattern_Blocked string
  | Dns_Raised string | Dns_Empty string | Address_Blocked string

record ssrf_result =
  ssrf_valid :: bool
  normalized_url :: "string option"
  blocked_reason :: "ssrf_reason option"
  resolved_ip :: "string option"

definition ssrf_refused :: "ssrf_reason \<Rightarrow> string option \<Rightarrow> ssrf_result" where
  "ssrf_refused r a = \<lparr>ssrf_valid = False, normalized_url = None, blocked_reason = Some r, resolved_ip = a\<rparr>"

definition strip_dots :: "string \<Rightarrow> string" where
  "strip_dots s = rev (dropWhile (\<lambda>c. c = CHR ''.'') (rev s))"

text \<open>The first answer in a blocked network; answers that are no address are skipped.\<close>

definition blocked_answer :: "string \<Rightarrow> bool" where
  "blocked_answer a = (case ip_address a of None \<Rightarrow> False | Some i \<Rightarrow> listed BLOCKED_NETWORKS i)"

text \<open>\<open>None\<close>: reading the port raises a \<open>ValueError\<close>.\<close>

definition normalize_url :: "url \<Rightarrow> string option" where
  "normalize_url p =
    (case url_port p of
       None \<Rightarrow> None
     | Some port \<Rightarrow>
        (let sch = lower (scheme p);
             h = lower (case url_hostname p of None \<Rightarrow> [] | Some x \<Rightarrow> x);
             path = (if url_path p = [] then ''/'' else url_path p);
             q = (if query p = [] then [] else ''?'' @ query p);
             shown = (case port of None \<Rightarrow> None
               | Some n \<Rightarrow> if n = 0 \<or> (sch = ''http'' \<and> n = 80) \<or> (sch = ''https'' \<and> n = 443) then None else Some n);
             nl = (case shown of None \<Rightarrow> h | Some n \<Rightarrow> h @ '':'' @ nat_str n)
         in Some (sch @ ''://'' @ nl @ path @ q)))"

text \<open>\<open>Inl\<close>: the \<open>ValueError\<close> of the port escapes.\<close>

definition ssrf_validate :: "(string \<Rightarrow> string + string list) \<Rightarrow> string \<Rightarrow> unit + ssrf_result" where
  "ssrf_validate resolver u =
    (case urlparse (strip u) of
       None \<Rightarrow> Inr (ssrf_refused Malformed_Url None)
     | Some p \<Rightarrow>
        if lower (scheme p) \<notin> {''http'', ''https''} then Inr (ssrf_refused (Scheme_Not_Allowed (scheme p)) None)
        else (case url_hostname p of
          None \<Rightarrow> Inr (ssrf_refused Without_Hostname None)
        | Some hostname \<Rightarrow>
           let h = strip_dots (lower hostname) in
           if h \<in> set BLOCKED_HOSTNAMES then Inr (ssrf_refused (Hostname_Blocked h) None)
           else if list_ex (\<lambda>x. ends_with x h) BLOCKED_SUFFIXES then Inr (ssrf_refused (Pattern_Blocked h) None)
           else (case resolver h of
             Inl e \<Rightarrow> Inr (ssrf_refused (Dns_Raised e) None)
           | Inr ips \<Rightarrow>
              if ips = [] then Inr (ssrf_refused (Dns_Empty h) None)
              else (case find blocked_answer ips of
                Some a \<Rightarrow> Inr (ssrf_refused (Address_Blocked a) (Some a))
              | None \<Rightarrow>
                 (case normalize_url p of
                    None \<Rightarrow> Inl ()
                  | Some n \<Rightarrow> Inr \<lparr>ssrf_valid = True, normalized_url = Some n, blocked_reason = None,
                      resolved_ip = Some (hd ips)\<rparr>)))))"

definition validate_url_ssrf :: "(string \<Rightarrow> string + string list) \<Rightarrow> string \<Rightarrow> (ssrf_reason option) + string" where
  "validate_url_ssrf resolver u =
    (case ssrf_validate resolver u of
       Inl _ \<Rightarrow> Inl None
     | Inr r \<Rightarrow> if ssrf_valid r then Inr (the (normalized_url r)) else Inl (blocked_reason r))"

section \<open>What a valid URL is\<close>

lemma ssrf_validD:
  assumes "ssrf_validate resolver u = Inr r" and "ssrf_valid r"
  obtains p hostname ips n where "urlparse (strip u) = Some p" and "lower (scheme p) \<in> {''http'', ''https''}"
    and "url_hostname p = Some hostname" and "strip_dots (lower hostname) \<notin> set BLOCKED_HOSTNAMES"
    and "\<not> list_ex (\<lambda>x. ends_with x (strip_dots (lower hostname))) BLOCKED_SUFFIXES"
    and "resolver (strip_dots (lower hostname)) = Inr ips" and "ips \<noteq> []" and "find blocked_answer ips = None"
    and "normalize_url p = Some n" and "normalized_url r = Some n"
proof -
  obtain p where p: "urlparse (strip u) = Some p" using assms
    by (auto simp: ssrf_validate_def ssrf_refused_def split: option.splits)
  have s: "lower (scheme p) \<in> {''http'', ''https''}"
    using assms p by (auto simp: ssrf_validate_def ssrf_refused_def split: if_splits)
  obtain hostname where h: "url_hostname p = Some hostname"
    using assms p s by (auto simp: ssrf_validate_def ssrf_refused_def split: option.splits if_splits)
  have hb: "strip_dots (lower hostname) \<notin> set BLOCKED_HOSTNAMES"
    using assms p s h by (auto simp: ssrf_validate_def ssrf_refused_def Let_def split: if_splits)
  have sb: "\<not> list_ex (\<lambda>x. ends_with x (strip_dots (lower hostname))) BLOCKED_SUFFIXES"
    using assms p s h hb by (auto simp: ssrf_validate_def ssrf_refused_def Let_def split: if_splits)
  obtain ips where i: "resolver (strip_dots (lower hostname)) = Inr ips" "ips \<noteq> []"
    using assms p s h hb sb
    by (cases "resolver (strip_dots (lower hostname))") (auto simp: ssrf_validate_def ssrf_refused_def Let_def split: if_splits)
  have f: "find blocked_answer ips = None"
    using assms p s h hb sb i by (auto simp: ssrf_validate_def ssrf_refused_def Let_def split: option.splits)
  obtain n where n: "normalize_url p = Some n"
    using assms p s h hb sb i f by (auto simp: ssrf_validate_def Let_def split: option.splits)
  have "normalized_url r = Some n" using assms p s h hb sb i f n by (auto simp: ssrf_validate_def Let_def)
  with p s h hb sb i f n show thesis by (rule that)
qed

text \<open>
  A URL is valid only when it is http or https, its host without trailing dots is neither a
  blocked name nor below a blocked domain, the resolver answers at least one address for it, and no
  answer lies in one of the eight blocked networks.
\<close>

theorem valid_url_resolves_outside:
  assumes "ssrf_validate resolver u = Inr r" and "ssrf_valid r"
  shows "\<exists>p hostname ips. urlparse (strip u) = Some p \<and> lower (scheme p) \<in> {''http'', ''https''}
    \<and> url_hostname p = Some hostname \<and> strip_dots (lower hostname) \<notin> set BLOCKED_HOSTNAMES
    \<and> (\<forall>x \<in> set BLOCKED_SUFFIXES. \<not> ends_with x (strip_dots (lower hostname)))
    \<and> resolver (strip_dots (lower hostname)) = Inr ips \<and> ips \<noteq> []
    \<and> (\<forall>a \<in> set ips. \<forall>i. ip_address a = Some i \<longrightarrow> (\<forall>n \<in> set BLOCKED_NETWORKS. \<not> in_network i n))"
proof -
  obtain p hostname ips n where *: "urlparse (strip u) = Some p" "lower (scheme p) \<in> {''http'', ''https''}"
    "url_hostname p = Some hostname" "strip_dots (lower hostname) \<notin> set BLOCKED_HOSTNAMES"
    "\<not> list_ex (\<lambda>x. ends_with x (strip_dots (lower hostname))) BLOCKED_SUFFIXES"
    "resolver (strip_dots (lower hostname)) = Inr ips" "ips \<noteq> []" "find blocked_answer ips = None"
    "normalize_url p = Some n" "normalized_url r = Some n"
    by (rule ssrf_validD[OF assms])
  have "\<not> in_network i k" if "a \<in> set ips" "ip_address a = Some i" "k \<in> set BLOCKED_NETWORKS" for a i k
    using *(8) that by (auto simp: find_None_iff blocked_answer_def listed_def list_ex_iff split: option.splits)
  with * show ?thesis by (auto simp: list_ex_iff)
qed

section \<open>What the networks leave out\<close>

lemma mapped_not_blocked:
  assumes "drop_bit 32 (w :: 128 word) = 0xFFFF"
  shows "\<not> listed BLOCKED_NETWORKS (V6 w)"
proof -
  have "drop_bit 118 w = drop_bit 86 (drop_bit 32 w)" by simp
  also have "\<dots> = 0" unfolding assms by simp
  finally have "drop_bit 118 w = 0" .
  moreover have "w \<noteq> 1" using assms by auto
  ultimately show ?thesis
    by (auto simp: listed_def BLOCKED_NETWORKS_def in_network_def v4_def v6_def in_net_def)
qed

text \<open>
  An IPv4-mapped IPv6 address is in no blocked network, whatever IPv4 address it stands for: a host
  that resolves to \<open>::ffff:10.0.0.1\<close> or \<open>::ffff:169.254.169.254\<close> passes the validation.
\<close>

theorem mapped_address_passes:
  assumes "urlparse (strip u) = Some p" and "lower (scheme p) \<in> {''http'', ''https''}" and "url_hostname p = Some hostname"
    and "strip_dots (lower hostname) \<notin> set BLOCKED_HOSTNAMES"
    and "\<not> list_ex (\<lambda>x. ends_with x (strip_dots (lower hostname))) BLOCKED_SUFFIXES" and "url_port p \<noteq> None"
    and "resolver (strip_dots (lower hostname)) = Inr [a]" and "ip_address a = Some (V6 w)"
    and "drop_bit 32 (w :: 128 word) = 0xFFFF"
  shows "\<exists>r. ssrf_validate resolver u = Inr r \<and> ssrf_valid r \<and> resolved_ip r = Some a"
proof -
  have "\<not> blocked_answer a" using mapped_not_blocked[OF assms(9)] assms(8) by (simp add: blocked_answer_def)
  moreover obtain n where "normalize_url p = Some n" using assms(6) by (auto simp: normalize_url_def Let_def)
  ultimately show ?thesis using assms by (auto simp: ssrf_validate_def Let_def)
qed

lemma mapped_text: "ip_address ''::ffff:10.0.0.1'' = Some (V6 0xFFFF0A000001)"
proof -
  have inner: "filter (\<lambda>i. [[], [], ''ffff'', ''0a00'', ''0001''] ! i = []) [1..<4] = [1]"
    by (simp add: upt_rec)
  have "parse_v6_parts [[], [], ''ffff'', ''0a00'', ''0001''] = Some 0xFFFF0A000001"
    unfolding parse_v6_parts_def
    by (simp add: inner Let_def hextets_def parse_hextet_def hex_digit_def digit_def less_eq_char_def hex_value_def join_hextets_def)
  moreover have "hex_str 2560 = ''0a00''" "hex_str (Suc 0) = ''0001''"
    by (simp_all add: hex_str_def hex_char_def char_of_def bit_0)
  ultimately show ?thesis
    by (simp add: ip_address_def parse_v4_def parse_octet_def digit_def less_eq_char_def parse_v6_def partition_at_def
        expand_v4_tail_def str_nat_def)
qed

definition demo_url :: url where
  "demo_url = \<lparr>scheme = ''http'', netloc = ''a.bc'', url_path = ''/x'', query = []\<rparr>"

lemma demo_url: "urlparse (strip ''http://a.bc/x'') = Some demo_url" "url_hostname demo_url = Some ''a.bc''"
  "url_port demo_url = Some None"
  by code_simp+

theorem mapped_address_passes_witness:
  "\<exists>r. ssrf_validate (\<lambda>_. Inr [''::ffff:10.0.0.1'']) ''http://a.bc/x'' = Inr r \<and> ssrf_valid r"
proof -
  have low: "lower (scheme demo_url) = ''http''" "strip_dots (lower ''a.bc'') = ''a.bc''"
    by (simp_all add: demo_url_def lower_def lower_char_def code_def Let_def strip_dots_def)
  have "strip_dots (lower ''a.bc'') \<notin> set BLOCKED_HOSTNAMES"
    "\<not> list_ex (\<lambda>x. ends_with x (strip_dots (lower ''a.bc''))) BLOCKED_SUFFIXES"
    unfolding low by (simp_all add: BLOCKED_HOSTNAMES_def BLOCKED_SUFFIXES_def ends_with_def)
  moreover have "drop_bit 32 (0xFFFF0A000001 :: 128 word) = 0xFFFF" by simp
  ultimately show ?thesis
    using mapped_address_passes[OF demo_url(1) _ demo_url(2), of "\<lambda>_. Inr [''::ffff:10.0.0.1'']" "''::ffff:10.0.0.1''" "0xFFFF0A000001"]
      low(1) demo_url(3) mapped_text by auto
qed

theorem valid_url_resolves_outside_witness:
  "\<exists>r. ssrf_validate (\<lambda>_. Inr [dotted 8 8 8 8]) ''http://a.bc/x'' = Inr r
    \<and> (\<forall>n \<in> set BLOCKED_NETWORKS. \<not> in_network (v4 8 8 8 8) n)"
proof -
  have low: "lower (scheme demo_url) = ''http''" "strip_dots (lower ''a.bc'') = ''a.bc''"
    by (simp_all add: demo_url_def lower_def lower_char_def code_def Let_def strip_dots_def)
  have "\<not> listed BLOCKED_NETWORKS (v4 8 8 8 8)"
    by (simp add: listed_def BLOCKED_NETWORKS_def in_network_def v4_def v6_def in_net_def)
  then have nb: "\<not> blocked_answer (dotted 8 8 8 8)" by (simp add: blocked_answer_def parse_dotted)
  obtain n where "normalize_url demo_url = Some n" using demo_url(3) by (auto simp: normalize_url_def Let_def)
  then obtain r where r: "ssrf_validate (\<lambda>_. Inr [dotted 8 8 8 8]) ''http://a.bc/x'' = Inr r" "ssrf_valid r"
    using demo_url low nb
    by (auto simp: ssrf_validate_def Let_def BLOCKED_HOSTNAMES_def BLOCKED_SUFFIXES_def ends_with_def)
  from valid_url_resolves_outside[OF r] parse_dotted[of 8 8 8 8] r(1) show ?thesis by auto
qed

section \<open>IPv6 literals\<close>

definition v6_char :: "char \<Rightarrow> bool" where
  "v6_char c \<longleftrightarrow> hex_digit c \<or> c = CHR '':'' \<or> c = CHR ''.''"

lemma v6_charD:
  assumes "v6_char c"
  shows "32 < code c" "c \<notin> {CHR ''/'', CHR ''?'', CHR ''#'', CHR ''['', CHR '']'', CHR ''@'', CHR ''%''}"
  using assms by (auto simp: v6_char_def hex_digit_def digit_def code_def less_eq_char_def)

text \<open>Parsing \<open>http(s)://h/...\<close> with such a host gives the host as authority.\<close>

lemma urlparse_v6:
  assumes "list_all v6_char h" and "sch \<in> {''http'', ''https''}"
  shows "\<exists>p'. urlparse (sch @ ''://'' @ h @ CHR ''/'' # rest) = Some p' \<and> netloc p' = h"
proof -
  define f where "f = filter (\<lambda>c. code c \<notin> {9, 10, 13})"
  have h: "f h = h" using v6_charD(1) assms(1) unfolding f_def by (force simp: filter_id_conv list_all_iff)
  have nd: "\<not> delimiter c" if "c \<in> set h" for c
    using v6_charD(2) assms(1) that by (auto simp: list_all_iff delimiter_def)
  have tw: "takeWhile (Not \<circ> delimiter) (h @ CHR ''/'' # t) = h" for t
    using nd by (simp add: takeWhile_append delimiter_def)
  have "CHR ''['' \<notin> set h" "CHR '']'' \<notin> set h" using v6_charD(2) assms(1) by (auto simp: list_all_iff)
  then have v: "valid_netloc h" by (simp add: valid_netloc_def)
  have "clean (sch @ ''://'' @ h @ CHR ''/'' # rest) = sch @ ''://'' @ h @ CHR ''/'' # f rest"
    using assms(2) h by (auto simp: clean_def f_def code_def)
  moreover have "split_scheme (sch @ ''://'' @ h @ CHR ''/'' # f rest) = (sch, ''//'' @ h @ CHR ''/'' # f rest)"
    using assms(2) by (auto simp: split_scheme_def partition_at_def ascii_letter_def scheme_char_def code_def
        lower_def lower_char_def Let_def)
  ultimately show ?thesis using v by (simp add: urlparse_def Let_def starts_with_def tw case_prod_unfold)
qed

text \<open>
  The normalised form of a URL with an IPv6 literal names another host: the brackets are lost, so
  reading the result again takes the text up to the first colon for the host.
\<close>

theorem ipv6_literal_is_lost:
  assumes "url_hostname p = Some h" and "list_all v6_char h" and "CHR '':'' \<in> set h" and "lower h = h"
    and "lower (scheme p) \<in> {''http'', ''https''}" and "url_port p = Some None"
    and "url_path p = [] \<or> hd (url_path p) = CHR ''/''" and "normalize_url p = Some n"
  shows "\<exists>p'. urlparse n = Some p' \<and> url_hostname p' \<noteq> Some h"
proof -
  obtain rest where n: "n = lower (scheme p) @ ''://'' @ h @ CHR ''/'' # rest"
    using assms(1,4,6-8) by (cases "url_path p") (auto simp: normalize_url_def Let_def split: if_splits)
  obtain p' where p': "urlparse n = Some p'" "netloc p' = h"
    using urlparse_v6[OF assms(2,5)] unfolding n by blast
  have tw: "takeWhile (\<lambda>x. x \<noteq> CHR ''@'') (rev h) = rev h"
    using v6_charD(2) assms(2) by (auto simp: takeWhile_eq_all_conv list_all_iff)
  have "after_last (CHR ''@'') h = h" by (simp add: after_last_def tw)
  moreover have "CHR ''['' \<notin> set h" using v6_charD(2) assms(2) by (auto simp: list_all_iff)
  ultimately have hi: "fst (hostinfo p') = takeWhile (\<lambda>x. x \<noteq> CHR '':'') h"
    using assms(3) p'(2) by (simp add: hostinfo_def partition_at_def)
  have "CHR ''%'' \<notin> set (takeWhile (\<lambda>x. x \<noteq> CHR '':'') h)"
    using v6_charD(2) assms(2) by (auto simp: list_all_iff dest: set_takeWhileD)
  then have "url_hostname p' = None \<or> url_hostname p' = Some (lower (takeWhile (\<lambda>x. x \<noteq> CHR '':'') h))"
    by (simp add: url_hostname_def hi partition_at_def Let_def)
  moreover have "length (takeWhile (\<lambda>x. x \<noteq> CHR '':'') h) < length h"
  proof -
    have "dropWhile (\<lambda>x. x \<noteq> CHR '':'') h \<noteq> []" using assms(3) by (auto simp: dropWhile_eq_Nil_conv)
    moreover have "length h = length (takeWhile (\<lambda>x. x \<noteq> CHR '':'') h) + length (dropWhile (\<lambda>x. x \<noteq> CHR '':'') h)"
      by (metis length_append takeWhile_dropWhile_id)
    ultimately show ?thesis by simp
  qed
  ultimately show ?thesis using p'(1) by (metis length_map less_irrefl lower_def option.inject option.distinct(1))
qed

theorem ipv6_literal_is_lost_witness:
  "\<exists>p'. urlparse ''http://fd::1/x'' = Some p' \<and> url_hostname p' \<noteq> Some ''fd::1''"
proof -
  let ?p = "\<lparr>scheme = ''http'', netloc = ''[fd::1]'', url_path = ''/x'', query = []\<rparr>"
  have h: "url_hostname ?p = Some ''fd::1''" "url_port ?p = Some None" by code_simp+
  have c: "list_all v6_char ''fd::1''" "lower ''fd::1'' = ''fd::1''" "lower (scheme ?p) = ''http''"
    by (simp_all add: v6_char_def hex_digit_def digit_def less_eq_char_def lower_def lower_char_def code_def Let_def)
  have "normalize_url ?p = Some ''http://fd::1/x''" using h c by (simp add: normalize_url_def Let_def)
  from ipv6_literal_is_lost[OF h(1) c(1) _ c(2) _ h(2) _ this] show ?thesis using c(3) by simp
qed

end
