(* ===== verification/Hitl_Guard.thy ===== *)
theory Hitl_Guard
  imports Urls Glob
begin

text \<open>
  \<open>sky_claw/antigravity/security/hitl.py\<close>: requests for the operator's approval.  A call of
  \<open>request_approval\<close> is three steps between which other calls run: registering the request, the end of
  the notification, and the end of the wait; \<open>respond\<close> is a step of its own.  The lock is never held
  across an await.  A request object is reached through the table under its identifier: duplicates are
  refused, so the caller's object is the one in the table.
\<close>

datatype decision = Approved | Denied | Timeout

record hitl_request =
  reason :: string
  request_url :: "string option"
  detail :: string
  answered :: bool
  decision :: decision

type_synonym pending_requests = "(string, hitl_request) dict"

definition OUT_OF_SCOPE_HOSTS :: "string list" where
  "OUT_OF_SCOPE_HOSTS = [''github.com'', ''discord.com'', ''dropbox.com'', ''mega.nz'', ''patreon.com'']"

text \<open>\<open>None\<close>: \<open>urlparse\<close> raises.\<close>

definition requires_approval :: "(string \<Rightarrow> string) \<Rightarrow> string list \<Rightarrow> string \<Rightarrow> bool option" where
  "requires_approval normcase hosts u =
    map_option (\<lambda>p. let h = lower (case url_hostname p of None \<Rightarrow> [] | Some x \<Rightarrow> x) in
      list_ex (\<lambda>pat. fnmatch normcase h pat) hosts) (urlparse u)"

section \<open>The steps of a request\<close>

text \<open>\<open>Some d\<close>: the call returns \<open>d\<close> at once.\<close>

definition register_request :: "string \<Rightarrow> string \<Rightarrow> string option \<Rightarrow> string \<Rightarrow> pending_requests \<Rightarrow> pending_requests \<times> decision option" where
  "register_request i why u det ps =
    (if dhas ps i then (ps, Some Denied)
     else (dset i \<lparr>reason = why, request_url = u, detail = det, answered = False, decision = Timeout\<rparr> ps, None))"

datatype notified = Sent | Notify_Raised | Notify_Cancelled

definition notify_done :: "string \<Rightarrow> notified \<Rightarrow> pending_requests \<Rightarrow> pending_requests \<times> decision option" where
  "notify_done i n ps =
    (case n of
       Sent \<Rightarrow> (ps, None)
     | Notify_Raised \<Rightarrow> (ddel i ps, Some Timeout)
     | Notify_Cancelled \<Rightarrow> (ps, None))"

definition respond :: "string \<Rightarrow> bool \<Rightarrow> pending_requests \<Rightarrow> pending_requests \<times> bool" where
  "respond i approved ps =
    (case dget ps i of
       None \<Rightarrow> (ps, False)
     | Some r \<Rightarrow> (dset i (r\<lparr>decision := (if approved then Approved else Denied), answered := True\<rparr>) ps, True))"

datatype waited = Woken | Timed_Out_Wait | Wait_Cancelled

text \<open>The wait can only be woken by an answer; \<open>None\<close>: the cancellation goes on, or the wait is not over.\<close>

definition finish_wait :: "string \<Rightarrow> waited \<Rightarrow> pending_requests \<Rightarrow> pending_requests \<times> decision option" where
  "finish_wait i h ps =
    (case dget ps i of
       None \<Rightarrow> (ps, None)
     | Some r \<Rightarrow>
        (case h of
           Woken \<Rightarrow> if answered r then (ddel i ps, Some (decision r)) else (ps, None)
         | Timed_Out_Wait \<Rightarrow> (ddel i ps, Some Denied)
         | Wait_Cancelled \<Rightarrow> (ddel i ps, None)))"

section \<open>Interleavings\<close>

datatype hitl_action =
    Register string string "string option" string
  | Notified string notified
  | Respond string bool
  | Finish_Wait string waited

definition hitl_step :: "pending_requests \<Rightarrow> hitl_action \<Rightarrow> pending_requests" where
  "hitl_step ps a =
    (case a of
       Register i why u det \<Rightarrow> fst (register_request i why u det ps)
     | Notified i n \<Rightarrow> fst (notify_done i n ps)
     | Respond i b \<Rightarrow> fst (respond i b ps)
     | Finish_Wait i h \<Rightarrow> fst (finish_wait i h ps))"

text \<open>The answers to the request \<open>i\<close> among some steps, and the steps that are not its own end.\<close>

definition answers :: "string \<Rightarrow> hitl_action list \<Rightarrow> bool list" where
  "answers i acts = concat (map (\<lambda>a. case a of Respond j b \<Rightarrow> if j = i then [b] else [] | _ \<Rightarrow> []) acts)"

definition foreign :: "string \<Rightarrow> hitl_action \<Rightarrow> bool" where
  "foreign i a = (case a of
     Notified j n \<Rightarrow> j \<noteq> i \<or> n \<noteq> Notify_Raised
   | Finish_Wait j h \<Rightarrow> j \<noteq> i
   | _ \<Rightarrow> True)"

definition answer_of :: "bool list \<Rightarrow> hitl_request \<Rightarrow> hitl_request" where
  "answer_of bs r = (if bs = [] then r else r\<lparr>decision := (if last bs then Approved else Denied), answered := True\<rparr>)"

lemma foreign_step:
  assumes "foreign i a" and "dget ps i = Some r"
  shows "dget (hitl_step ps a) i = Some (answer_of (answers i [a]) r)"
  using assms
  by (auto simp: hitl_step_def foreign_def register_request_def notify_done_def respond_def finish_wait_def answers_def
      answer_of_def dhas_def split: hitl_action.splits notified.splits waited.splits option.splits)

lemma answers_Cons: "answers i (a # acts) = answers i [a] @ answers i acts"
  by (simp add: answers_def)

lemma answer_of_append: "answer_of bs (answer_of as r) = answer_of (as @ bs) r"
  by (simp add: answer_of_def)

lemma foreign_run:
  "list_all (foreign i) acts \<Longrightarrow> dget ps i = Some r \<Longrightarrow>
   dget (foldl hitl_step ps acts) i = Some (answer_of (answers i acts) r)"
proof (induction acts arbitrary: ps r)
  case Nil
  then show ?case by (simp add: answers_def answer_of_def)
next
  case (Cons a acts)
  have "dget (hitl_step ps a) i = Some (answer_of (answers i [a]) r)"
    using Cons.prems by (intro foreign_step) simp_all
  with Cons.IH[OF _ this] Cons.prems show ?case by (simp only: answers_Cons[of i a acts] answer_of_append foldl_Cons) simp
qed

text \<open>
  An action goes ahead only on the operator's word: however other requests interleave, a request
  that was registered ends with \<open>APPROVED\<close> exactly when its wait was woken by an answer and the last
  answer to its identifier since then approves; running out of time, it ends with \<open>DENIED\<close>.
\<close>

theorem approval_needs_answer:
  assumes "register_request i why u det ps = (ps1, None)" and "list_all (foreign i) acts"
    and "finish_wait i h (foldl hitl_step ps1 acts) = (ps2, d)"
  shows "(d = Some Approved \<longleftrightarrow> h = Woken \<and> answers i acts \<noteq> [] \<and> last (answers i acts))
    \<and> (h = Timed_Out_Wait \<longrightarrow> d = Some Denied) \<and> d \<noteq> Some Timeout \<and> (d \<noteq> None \<longrightarrow> \<not> dhas ps2 i)"
proof -
  let ?r = "\<lparr>reason = why, request_url = u, detail = det, answered = False, decision = Timeout\<rparr>"
  have "dget ps1 i = Some ?r" using assms(1) by (auto simp: register_request_def split: if_splits)
  from foreign_run[OF assms(2) this]
  have g: "dget (foldl hitl_step ps1 acts) i = Some (answer_of (answers i acts) ?r)" .
  show ?thesis using assms(3) unfolding finish_wait_def g
    by (cases h) (auto simp: answer_of_def split: if_splits)
qed

theorem approval_needs_answer_witness:
  "snd (finish_wait ''a'' Woken (foldl hitl_step (fst (register_request ''a'' [] None [] []))
      [Notified ''a'' Sent, Respond ''a'' False, Register ''b'' [] None [], Respond ''a'' True])) = Some Approved"
proof -
  let ?acts = "[Notified ''a'' Sent, Respond ''a'' False, Register ''b'' [] None [], Respond ''a'' True]"
  have r: "register_request ''a'' [] None [] [] = (fst (register_request ''a'' [] None [] []), None)"
    by (simp add: register_request_def dhas_def)
  have "list_all (foreign ''a'') ?acts" by (simp add: foreign_def)
  moreover obtain ps2 d where f: "finish_wait ''a'' Woken (foldl hitl_step (fst (register_request ''a'' [] None [] [])) ?acts) = (ps2, d)"
    by fastforce
  ultimately show ?thesis using approval_needs_answer[OF r _ f] by (simp add: answers_def)
qed

text \<open>
  A request cancelled while its notification is being sent stays in the table, and every later
  request with its identifier is denied at once without the operator being asked, for as long as no
  caller waits on that identifier.
\<close>

theorem cancelled_notification_blocks_identifier:
  assumes "register_request i why u det ps = (ps1, None)" and "notify_done i Notify_Cancelled ps1 = (ps2, d)"
    and "list_all (foreign i) acts"
  shows "register_request i why' u' det' (foldl hitl_step ps2 acts) = (foldl hitl_step ps2 acts, Some Denied)"
proof -
  have "dget ps2 i = Some \<lparr>reason = why, request_url = u, detail = det, answered = False, decision = Timeout\<rparr>"
    using assms(1,2) by (auto simp: register_request_def notify_done_def split: if_splits)
  from foreign_run[OF assms(3) this] show ?thesis by (simp add: register_request_def dhas_def)
qed

theorem cancelled_notification_blocks_identifier_witness:
  "snd (register_request ''a'' [] None [] (foldl hitl_step
      (fst (notify_done ''a'' Notify_Cancelled (fst (register_request ''a'' [] None [] [])))) [Respond ''a'' True])) = Some Denied"
proof -
  have r: "register_request ''a'' [] None [] [] = (fst (register_request ''a'' [] None [] []), None)"
    by (simp add: register_request_def dhas_def)
  obtain ps2 d where n: "notify_done ''a'' Notify_Cancelled (fst (register_request ''a'' [] None [] [])) = (ps2, d)" by fastforce
  have "list_all (foreign ''a'') [Respond ''a'' True]" by (simp add: foreign_def)
  from cancelled_notification_blocks_identifier[OF r n this, of "[]" None "[]"] n show ?thesis by simp
qed

text \<open>The hosts out of scope are exact names: a host below one of them needs no approval.\<close>

lemma subdomain_needs_no_approval:
  "requires_approval id OUT_OF_SCOPE_HOSTS ''https://dropbox.com/f'' = Some True"
  "requires_approval id OUT_OF_SCOPE_HOSTS ''https://www.dropbox.com/f'' = Some False"
  by code_simp+

end
