(* ===== verification/File_Operation.thy ===== *)
theory File_Operation
  imports Journal
begin

text \<open>
  \<open>SyncEngine.execute_file_operation\<close> and \<open>_passive_pruning\<close> of
  \<open>sky_claw/antigravity/orchestrator/sync_engine.py\<close>: a file operation under the journal and the snapshots, as
  the rollback manager passes the calls on.  The operation is a function on the files that returns or
  raises; \<open>of_path\<close> and \<open>to_path\<close> turn paths into text and back.
\<close>

record op_env =
  t_begin :: int
  t_operation :: int
  t_commit :: int
  snap_env :: create_env
  undo_fault :: restore_fault
  prune_now :: real

datatype op_error = From_Snapshot snapshot_error | From_Journal journal_error | From_Operation string

record rollback_setup =
  hash :: "string \<Rightarrow> string"
  json_loads :: "string \<Rightarrow> json option"
  parse_day :: "string \<Rightarrow> int option"
  day_time :: "string \<Rightarrow> real option"
  row_tie :: "nat \<Rightarrow> int"
  of_path :: "path \<Rightarrow> string"
  to_path :: "string \<Rightarrow> path"
  store :: snapshot_store

definition AGENT_ID :: string where
  "AGENT_ID = ''sync_engine''"

definition undo_now :: "rollback_setup \<Rightarrow> restore_fault \<Rightarrow> journal \<Rightarrow> file_system \<Rightarrow> journal \<times> file_system \<times> (snapshot_error + rollback_result)" where
  "undo_now rs io j fs = undo_last_operation (row_tie rs) (to_path rs) (hash rs) (json_loads rs) io j fs AGENT_ID"

text \<open>\<open>_passive_pruning\<close>, with the limits of the configuration.\<close>

definition passive_pruning :: "rollback_setup \<Rightarrow> nat \<Rightarrow> nat \<Rightarrow> real \<Rightarrow> file_system \<Rightarrow> file_system" where
  "passive_pruning rs max_size_mb max_age_days now fs =
    (if tree_size fs (snapshot_dir (store rs)) > max_size_mb * 1024 * 1024
     then fst (cleanup_old_snapshots (day_time rs) (store rs) max_age_days False now fs) else fs)"

text \<open>The end of a failed operation: it is marked, the last operation is undone, the error goes on.\<close>

definition abort_operation ::
  "rollback_setup \<Rightarrow> restore_fault \<Rightarrow> nat \<Rightarrow> op_error \<Rightarrow> string \<Rightarrow> journal \<Rightarrow> file_system \<Rightarrow> journal \<times> file_system \<times> (op_error + 'r)" where
  "abort_operation rs io entry e text j fs =
    (case undo_now rs io (fail_operation j entry text None) fs of
       (j', fs', Inl se) \<Rightarrow> (j', fs', Inl (From_Snapshot se))
     | (j', fs', Inr _) \<Rightarrow> (j', fs', Inl e))"

definition run_operation ::
  "rollback_setup \<Rightarrow> op_env \<Rightarrow> operation_type \<Rightarrow> path \<Rightarrow> (file_system \<Rightarrow> file_system \<times> (string + 'r)) \<Rightarrow> string \<Rightarrow>
   journal \<Rightarrow> file_system \<Rightarrow> journal \<times> file_system \<times> (op_error + 'r)" where
  "run_operation rs env ty p operation description j fs =
    (let (j1, tx) = begin_transaction j description None (t_begin env) in
     case (if dget fs p \<noteq> None
           then (case create_snapshot (hash rs) (parse_day rs) (store rs) (snap_env env) p JNull fs of
                   (fs', Inl e) \<Rightarrow> (fs', Inl e) | (fs', Inr info) \<Rightarrow> (fs', Inr (Some (of_path rs (snapshot_path info)))))
           else (fs, Inr None)) of
       (fs1, Inl e) \<Rightarrow> (j1, fs1, Inl (From_Snapshot e))
     | (fs1, Inr snapshot) \<Rightarrow>
        (case begin_operation j1 AGENT_ID ty (of_path rs p) (Some tx) snapshot None None (t_operation env) of
           (j2, Inl e) \<Rightarrow> (j2, fs1, Inl (From_Journal e))
         | (j2, Inr entry) \<Rightarrow>
            (case operation fs1 of
               (fs2, Inl e) \<Rightarrow> abort_operation rs (undo_fault env) entry (From_Operation e) e j2 fs2
             | (fs2, Inr r) \<Rightarrow>
                (case commit_transaction (complete_operation j2 entry) tx (t_commit env) of
                   (j3, Inl (Journal_Transaction_Error m)) \<Rightarrow>
                     abort_operation rs (undo_fault env) entry (From_Journal (Journal_Transaction_Error m)) m j3 fs2
                 | (j3, Inr _) \<Rightarrow> (j3, fs2, Inr r)))))"

definition execute_file_operation ::
  "rollback_setup option \<Rightarrow> nat \<Rightarrow> nat \<Rightarrow> op_env \<Rightarrow> operation_type \<Rightarrow> path \<Rightarrow> (file_system \<Rightarrow> file_system \<times> (string + 'r)) \<Rightarrow> string \<Rightarrow>
   journal \<Rightarrow> file_system \<Rightarrow> journal \<times> file_system \<times> (op_error + 'r)" where
  "execute_file_operation setup max_size_mb max_age_days env ty p operation description j fs =
    (case setup of
       None \<Rightarrow> (case operation fs of (fs', Inl e) \<Rightarrow> (j, fs', Inl (From_Operation e)) | (fs', Inr r) \<Rightarrow> (j, fs', Inr r))
     | Some rs \<Rightarrow>
        (let (j', fs', res) = run_operation rs env ty p operation description j fs
         in (j', passive_pruning rs max_size_mb max_age_days (prune_now env) fs', res)))"

section \<open>Lemmas\<close>

lemma dget_foldl_rmtree:
  "\<not> inside d q \<Longrightarrow> dget (foldl (\<lambda>fs d. rmtree d fs) fs (map (\<lambda>n. d @ [n]) ns)) q = dget fs q"
  by (induction ns arbitrary: fs) (auto dest: inside_snoc)

lemma pruning_outside: "\<not> inside (snapshot_dir (store rs)) q \<Longrightarrow> dget (passive_pruning rs a b now fs) q = dget fs q"
  by (simp add: passive_pruning_def cleanup_old_snapshots_def Let_def dget_foldl_rmtree)

text \<open>A snapshot just taken restores the file whatever was written elsewhere since.\<close>

lemma new_snapshot_restores:
  assumes "p \<noteq> []" "\<not> inside (snapshot_dir m) p"
    and "\<And>fs1 q. inside (snapshot_dir m) q \<Longrightarrow> dget (damage fs1) q = dget fs1 q"
    and "loads (meta_text (sha c)) = Some (JDict [(''checksum'', JStr (sha c))])"
  shows "\<exists>fs3. restore_snapshot sha loads No_Io_Fault (snapshot_file m env p) p True (damage (copied sha m env p c fs)) = (fs3, Inr True)
    \<and> dget fs3 p = Some c \<and> (\<forall>q. q \<noteq> p \<longrightarrow> q \<noteq> backup_file p \<longrightarrow> dget fs3 q = dget (damage (copied sha m env p c fs)) q)"
proof -
  let ?fs = "damage (copied sha m env p c fs)" and ?sp = "snapshot_file m env p"
  have sp: "inside (snapshot_dir m) ?sp" "inside (snapshot_dir m) (meta_file ?sp)" "meta_file ?sp \<noteq> ?sp"
    using snapshot_paths[of m env p] by simp_all
  have c: "dget ?fs ?sp = Some c" using sp by (simp add: assms(3) copied_def)
  have meta: "dget ?fs (meta_file ?sp) = Some (meta_text (sha c))" using sp by (simp add: assms(3) copied_def)
  have "\<not> inside (snapshot_dir m) (backup_file p)" using assms(1,2) by (simp add: backup_file_def)
  then have ne: "meta_file ?sp \<noteq> p" "meta_file ?sp \<noteq> backup_file p" using sp(2) assms(2) by metis+
  have ex: "extract_checksum_from_meta loads fs' ?sp \<in> {Inr None, Inr (Some (sha c))}"
    if "dget fs' (meta_file ?sp) = dget ?fs (meta_file ?sp)" for fs'
    by (rule extract_meta[where loads = loads and h = "sha c", OF assms(4)]) (simp add: that meta)
  show ?thesis by (rule restore_verified[of ?fs ?sp c p loads sha, OF c assms(1) ne ex])
qed

text \<open>The operation that has just failed is the next one to undo when it is the agent's newest.\<close>

lemma newest_undone:
  assumes "e \<in> set (entries j)" "undoable agent e"
    and "\<forall>x \<in> set (entries j). undoable agent x \<longrightarrow> x = e \<or> entry_time x < entry_time e"
  shows "get_last_operation tie j agent (Some [OP_COMPLETED, OP_FAILED]) = Some e"
proof -
  have m: "set (undo_list tie j agent) = {x \<in> set (entries j). undoable agent x}"
    by (simp add: undo_list_def newest_first_def)
  then obtain h t where l: "undo_list tie j agent = h # t" using assms(1,2)
    by (cases "undo_list tie j agent") auto
  have "e \<in> set (h # t)" using m assms(1,2) unfolding l by simp
  then have "entry_time e \<le> entry_time h" using undo_list_sorted[of tie j agent] unfolding l by auto
  moreover have "h = e \<or> entry_time h < entry_time e" using m assms(3) unfolding l by auto
  ultimately show ?thesis unfolding get_last_undo l by auto
qed

text \<open>What a new operation adds to the journal.\<close>

definition new_entry :: "rollback_setup \<Rightarrow> journal \<Rightarrow> operation_type \<Rightarrow> path \<Rightarrow> string option \<Rightarrow> int \<Rightarrow> journal_entry" where
  "new_entry rs j ty p sn now = \<lparr>entry_id = Suc (last_entry j), entry_tx = Suc (last_tx j), entry_time = now,
     entry_agent = AGENT_ID, entry_type = ty, entry_target = of_path rs p, entry_status = OP_STARTED,
     entry_snapshot = sn, entry_checksum = None, entry_metadata = None, entry_rolled_back = False\<rparr>"

definition new_tx :: "journal \<Rightarrow> string \<Rightarrow> int \<Rightarrow> tx_row" where
  "new_tx j d now = \<lparr>tx_id = Suc (last_tx j), tx_mod = None, tx_description = d, tx_status = TX_PENDING,
     tx_created = now, tx_committed_at = None, tx_rolled_back_at = None\<rparr>"

definition begun :: "rollback_setup \<Rightarrow> journal \<Rightarrow> string \<Rightarrow> operation_type \<Rightarrow> path \<Rightarrow> string option \<Rightarrow> int \<Rightarrow> int \<Rightarrow> journal" where
  "begun rs j d ty p sn t0 t1 = j\<lparr>transactions := transactions j @ [new_tx j d t0], last_tx := Suc (last_tx j),
     current_transaction := Some (Suc (last_tx j)), entries := entries j @ [new_entry rs j ty p sn t1], last_entry := Suc (last_entry j)\<rparr>"

lemma find_tx_new: "journal_ok j \<Longrightarrow> find (\<lambda>r. tx_id r = Suc (last_tx j)) (transactions j @ [x]) = (if tx_id x = Suc (last_tx j) then Some x else None)"
proof -
  assume "journal_ok j"
  then have "set (map tx_id (transactions j)) = {1..<Suc (last_tx j)}" by (metis journal_ok_def set_upt)
  then have "\<forall>r \<in> set (transactions j). tx_id r \<noteq> Suc (last_tx j)" by force
  then show ?thesis by (rule find_snoc_new)
qed

lemma begin_both:
  assumes "journal_ok j"
  shows "begin_operation (fst (begin_transaction j d None t0)) AGENT_ID ty (of_path rs p) (Some (Suc (last_tx j))) sn None None t1
    = (begun rs j d ty p sn t0 t1, Inr (Suc (last_entry j)))"
proof -
  have "get_transaction (fst (begin_transaction j d None t0)) (Suc (last_tx j)) = Some (new_tx j d t0)"
    using find_tx_new[OF assms, of "new_tx j d t0"] by (simp add: get_transaction_def begin_transaction_def Let_def new_tx_def)
  then show ?thesis
    by (simp add: begin_operation_def begin_transaction_def Let_def begun_def new_entry_def new_tx_def nonempty_simps)
qed

lemma update_new_entry:
  assumes "journal_ok j" "entries j2 = entries j @ [x]" "entry_id x = Suc (last_entry j)"
  shows "entries (update_entry (Suc (last_entry j)) f j2) = entries j @ [f x]"
proof -
  have "set (map entry_id (entries j)) = {1..<Suc (last_entry j)}" using assms(1) by (metis journal_ok_def set_upt)
  then have "\<forall>e \<in> set (entries j). entry_id e \<noteq> Suc (last_entry j)" by force
  then have "map (\<lambda>e. if entry_id e = Suc (last_entry j) then f e else e) (entries j) = entries j" by (intro map_idI) auto
  then show ?thesis using assms(2,3) by (simp add: update_entry_def)
qed

lemma update_entry_rest [simp]:
  "transactions (update_entry i f j) = transactions j" "current_transaction (update_entry i f j) = current_transaction j"
  by (simp_all add: update_entry_def)

text \<open>
  When a file operation raises, its error reaches the caller, the target has its content from before
  the operation again (the operation may have written anything outside the snapshot directory), no other
  file but the restore's backup is touched by the rollback, and the operation is marked rolled back; its
  transaction, however, stays pending, and stays the journal's current transaction.
\<close>

theorem failed_operation_is_undone:
  assumes j: "journal_step\<^sup>*\<^sup>* new_journal j" and p: "dget fs p = Some c" "p \<noteq> []" "\<not> inside (snapshot_dir (store rs)) p"
    and io: "os_error (snap_env env) = None" "undo_fault env = No_Io_Fault"
    and fits: "tree_size (copied (hash rs) (store rs) (snap_env env) p c fs) (snapshot_dir (store rs)) \<le> max_size_bytes (store rs)"
    and keeps: "\<And>fs1 q. inside (snapshot_dir (store rs)) q \<Longrightarrow> dget (damage fs1) q = dget fs1 q"
    and loads: "json_loads rs (meta_text (hash rs c)) = Some (JDict [(''checksum'', JStr (hash rs c))])"
    and paths: "to_path rs (of_path rs p) = p" "of_path rs (snapshot_file (store rs) (snap_env env) p) \<noteq> []"
      "to_path rs (of_path rs (snapshot_file (store rs) (snap_env env) p)) = snapshot_file (store rs) (snap_env env) p"
    and newest: "\<And>e. e \<in> set (entries j) \<Longrightarrow> undoable AGENT_ID e \<Longrightarrow> entry_time e < t_operation env"
    and run: "execute_file_operation (Some rs) max_mb max_age env ty p (\<lambda>fs1. (damage fs1, Inl err)) d j fs = (j', fs', res)"
  shows "res = Inl (From_Operation err) \<and> dget fs' p = Some c
    \<and> (\<forall>q. q \<noteq> p \<longrightarrow> q \<noteq> backup_file p \<longrightarrow> \<not> inside (snapshot_dir (store rs)) q \<longrightarrow>
        dget fs' q = dget (damage (copied (hash rs) (store rs) (snap_env env) p c fs)) q)
    \<and> (\<exists>e t. entries j' = entries j @ [e] \<and> entry_status e = OP_ROLLED_BACK
        \<and> get_transaction j' (entry_tx e) = Some t \<and> tx_status t = TX_PENDING \<and> current_transaction j' = Some (entry_tx e))"
proof -
  let ?D = "snapshot_dir (store rs)" and ?fs1 = "copied (hash rs) (store rs) (snap_env env) p c fs"
  let ?sp = "snapshot_file (store rs) (snap_env env) p" and ?i = "Suc (last_entry j)"
  have ok: "journal_ok j" using j new_journal_ok by (rule journal_steps_ok)
  have cr: "create_snapshot (hash rs) (parse_day rs) (store rs) (snap_env env) p JNull fs
      = (?fs1, Inr \<lparr>snapshot_id = new_id (snap_env env), original_path = p, snapshot_path = ?sp,
           checksum = hash rs c, size_bytes = length c, snap_metadata = JNull\<rparr>)"
    using p(1) io(1) fits by (simp add: create_snapshot_def enforce_size_limit_def Let_def)
  let ?j2 = "begun rs j d ty p (Some (of_path rs ?sp)) (t_begin env) (t_operation env)"
  let ?e = "(new_entry rs j ty p (Some (of_path rs ?sp)) (t_operation env))\<lparr>entry_status := OP_FAILED\<rparr>"
  let ?j3 = "fail_operation ?j2 ?i err None"
  have j3: "entries ?j3 = entries j @ [?e]" "transactions ?j3 = transactions j @ [new_tx j d (t_begin env)]"
    "current_transaction ?j3 = Some (Suc (last_tx j))"
    using update_new_entry[OF ok, of ?j2 "new_entry rs j ty p (Some (of_path rs ?sp)) (t_operation env)" "\<lambda>e. e\<lparr>entry_status := OP_FAILED\<rparr>"]
    by (simp_all add: fail_operation_def update_status_def nonempty_simps begun_def new_entry_def Let_def)
  have last: "get_last_operation (row_tie rs) ?j3 AGENT_ID (Some [OP_COMPLETED, OP_FAILED]) = Some ?e"
    by (rule newest_undone) (use newest in \<open>auto simp: j3 undoable_def new_entry_def\<close>)
  obtain fs3 where r: "restore_snapshot (hash rs) (json_loads rs) No_Io_Fault ?sp p True (damage ?fs1) = (fs3, Inr True)"
    "dget fs3 p = Some c" "\<forall>q. q \<noteq> p \<longrightarrow> q \<noteq> backup_file p \<longrightarrow> dget fs3 q = dget (damage ?fs1) q"
    using new_snapshot_restores[where damage = damage and loads = "json_loads rs" and sha = "hash rs", OF p(2,3) keeps loads] by blast
  have u: "\<exists>res. undo_now rs No_Io_Fault ?j3 (damage ?fs1) = (mark_rolled_back ?j3 ?i None, fs3, Inr res)"
    unfolding undo_now_def undo_last_operation_def last using r(1)
    by (simp add: new_entry_def paths nonempty_simps)
  have op: "run_operation rs env ty p (\<lambda>fs1. (damage fs1, Inl err)) d j fs
      = (mark_rolled_back ?j3 ?i None, fs3, Inl (From_Operation err))"
    using begin_both[OF ok, of d "t_begin env" ty rs p "Some (of_path rs ?sp)" "t_operation env"] u cr p(1) io(2)
    by (auto simp: run_operation_def abort_operation_def begin_transaction_def Let_def)
  then have res: "j' = mark_rolled_back ?j3 ?i None" "fs' = passive_pruning rs max_mb max_age (prune_now env) fs3" "res = Inl (From_Operation err)"
    using run unfolding execute_file_operation_def option.case op by simp_all
  have "entries j' = entries j @ [?e\<lparr>entry_status := OP_ROLLED_BACK, entry_rolled_back := True\<rparr>]"
    unfolding res(1) mark_rolled_back_def Let_def using update_new_entry[OF ok j3(1)] by (simp add: new_entry_def nonempty_simps)
  moreover have "transactions j' = transactions j @ [new_tx j d (t_begin env)]" "current_transaction j' = Some (Suc (last_tx j))"
    unfolding res(1) mark_rolled_back_def Let_def by (simp_all add: j3 nonempty_simps)
  ultimately show ?thesis using r p(3) find_tx_new[OF ok, of "new_tx j d (t_begin env)"]
    by (auto simp: res(2,3) pruning_outside get_transaction_def new_entry_def new_tx_def)
qed

definition demo_setup :: rollback_setup where
  "demo_setup = \<lparr>hash = id, json_loads = (\<lambda>_. Some (JDict [(''checksum'', JStr ''old'')])), parse_day = (\<lambda>_. Some 0),
     day_time = (\<lambda>_. None), row_tie = int, of_path = last,
     to_path = (\<lambda>s. if s = ''a.esp'' then [''mods'', ''a.esp''] else [''snap'', ''2025-01-01'', ''id_a.esp'']), store = demo_store\<rparr>"

definition demo_op_env :: op_env where
  "demo_op_env = \<lparr>t_begin = 1, t_operation = 2, t_commit = 3, snap_env = demo_env, undo_fault = No_Io_Fault, prune_now = 0\<rparr>"

theorem failed_operation_is_undone_witness:
  "\<exists>j' fs' res. execute_file_operation (Some demo_setup) 1 30 demo_op_env FILE_MODIFY [''mods'', ''a.esp'']
      (\<lambda>fs. (dset [''mods'', ''a.esp''] ''broken'' fs, (Inl ''no'' :: string + unit))) ''d'' new_journal demo_fs = (j', fs', res)
    \<and> dget fs' [''mods'', ''a.esp''] = Some ''old''"
proof -
  let ?p = "[''mods'', ''a.esp'']" and ?op = "\<lambda>fs. (dset [''mods'', ''a.esp''] ''broken'' fs, (Inl ''no'' :: string + unit))"
  obtain j' fs' res where run: "execute_file_operation (Some demo_setup) 1 30 demo_op_env FILE_MODIFY ?p ?op ''d'' new_journal demo_fs = (j', fs', res)"
    by (metis surj_pair)
  have "tree_size (copied id demo_store demo_env ?p ''old'' demo_fs) [''snap''] \<le> 1000"
    by (simp add: copied_def snapshot_file_def meta_file_def add_suffix_def demo_store_def demo_env_def demo_fs_def
        tree_size_def inside_def meta_text_def json_quote_def json_escape_def)
  moreover have keeps: "dget (dset ?p ''broken'' fs1) q = dget fs1 q" if "inside (snapshot_dir (store demo_setup)) q" for fs1 q
    using that by (auto simp: inside_def demo_setup_def demo_store_def)
  ultimately have "dget fs' ?p = Some ''old''"
    using failed_operation_is_undone[OF rtranclp.rtrancl_refl _ _ _ _ _ _ keeps _ _ _ _ _ run, of "''old''"]
    by (simp add: demo_setup_def demo_op_env_def demo_fs_def demo_store_def demo_env_def inside_def new_journal_def snapshot_file_def)
  then show ?thesis using run by blast
qed

end
