(* ===== verification/Mod_Registry.thy ===== *)
theory Mod_Registry
  imports Urls "HOL-Library.Sublist"
begin

text \<open>
  \<open>sky_claw/antigravity/db/async_registry.py\<close>: the tables of mods, dependencies and task logs, their
  statements and the batched writes.  The connection is shared by all coroutines: \<open>committed\<close> is what the
  file holds, \<open>working\<close> what the open transaction sees.  \<open>now\<close> is \<open>datetime('now')\<close>; \<open>burn\<close> says whether an
  insert that turns into an update uses up an identifier of the \<open>AUTOINCREMENT\<close> counter, which the program
  does not rely on.  The columns \<open>install_path\<close> and \<open>resolved\<close> are never written and are left out, as are
  opening and repairing the database file.
\<close>

section \<open>Tables\<close>

record mod_row =
  mod_id :: nat
  nexus_id :: int
  mod_name :: string
  mod_version :: string
  author :: string
  category :: string
  download_url :: string
  installed :: bool
  enabled_in_vfs :: bool
  created_at :: string
  updated_at :: string

record dep_row =
  dep_mod_id :: nat
  depends_on :: int
  dep_name :: string

record task_row =
  task_mod_id :: "nat option"
  action :: string
  task_status :: string
  detail :: string
  logged_at :: string

record registry =
  mods :: "mod_row list"
  mod_seq :: nat
  dependencies :: "dep_row list"
  task_log :: "task_row list"

record mod_values =
  v_nexus :: int
  v_name :: string
  v_version :: string
  v_author :: string
  v_category :: string
  v_url :: string
  v_installed :: bool
  v_enabled :: bool

definition empty_registry :: registry where
  "empty_registry = \<lparr>mods = [], mod_seq = 0, dependencies = [], task_log = []\<rparr>"

section \<open>Statements\<close>

definition get_mod :: "int \<Rightarrow> registry \<Rightarrow> mod_row option" where
  "get_mod n r = find (\<lambda>m. nexus_id m = n) (mods r)"

definition new_row :: "string \<Rightarrow> nat \<Rightarrow> mod_values \<Rightarrow> mod_row" where
  "new_row now i v = \<lparr>mod_id = i, nexus_id = v_nexus v, mod_name = v_name v, mod_version = v_version v,
     author = v_author v, category = v_category v, download_url = v_url v, installed = v_installed v,
     enabled_in_vfs = v_enabled v, created_at = now, updated_at = now\<rparr>"

definition with_values :: "string \<Rightarrow> mod_values \<Rightarrow> mod_row \<Rightarrow> mod_row" where
  "with_values now v m = m\<lparr>mod_name := v_name v, mod_version := v_version v, author := v_author v,
     category := v_category v, download_url := v_url v, updated_at := now\<rparr>"

definition update_mods :: "int \<Rightarrow> (mod_row \<Rightarrow> mod_row) \<Rightarrow> registry \<Rightarrow> registry" where
  "update_mods n f r = r\<lparr>mods := map (\<lambda>m. if nexus_id m = n then f m else m) (mods r)\<rparr>"

text \<open>\<open>INSERT ... ON CONFLICT(nexus_id) DO UPDATE\<close>, with the update of the conflicting row as argument.\<close>

definition upsert_sql :: "bool \<Rightarrow> string \<Rightarrow> (mod_row \<Rightarrow> mod_row) \<Rightarrow> mod_values \<Rightarrow> registry \<Rightarrow> registry" where
  "upsert_sql burn now f v r =
    (case get_mod (v_nexus v) r of
       None \<Rightarrow> r\<lparr>mods := mods r @ [new_row now (Suc (mod_seq r)) v], mod_seq := Suc (mod_seq r)\<rparr>
     | Some m \<Rightarrow> (update_mods (v_nexus v) f r)\<lparr>mod_seq := (if burn then Suc (mod_seq r) else mod_seq r)\<rparr>)"

definition upsert_mod_sql :: "bool \<Rightarrow> string \<Rightarrow> mod_values \<Rightarrow> registry \<Rightarrow> registry" where
  "upsert_mod_sql burn now v =
    (let w = v\<lparr>v_installed := False, v_enabled := False\<rparr> in upsert_sql burn now (with_values now w) w)"

definition upsert_batch_sql :: "bool \<Rightarrow> string \<Rightarrow> mod_values \<Rightarrow> registry \<Rightarrow> registry option" where
  "upsert_batch_sql burn now v r =
     Some (upsert_sql burn now (\<lambda>m. (with_values now v m)\<lparr>installed := v_installed v, enabled_in_vfs := v_enabled v\<rparr>) v r)"

text \<open>\<open>INSERT OR IGNORE\<close>: a duplicate is ignored, a missing mod breaks the foreign key.\<close>

definition insert_dep_sql :: "dep_row \<Rightarrow> registry \<Rightarrow> registry option" where
  "insert_dep_sql d r =
    (if list_ex (\<lambda>e. dep_mod_id e = dep_mod_id d \<and> depends_on e = depends_on d) (dependencies r) then Some r
     else if \<not> list_ex (\<lambda>m. mod_id m = dep_mod_id d) (mods r) then None
     else Some (r\<lparr>dependencies := dependencies r @ [d]\<rparr>))"

definition log_task_sql :: "task_row \<Rightarrow> registry \<Rightarrow> registry option" where
  "log_task_sql t r =
    (if case task_mod_id t of None \<Rightarrow> True | Some i \<Rightarrow> list_ex (\<lambda>m. mod_id m = i) (mods r)
     then Some (r\<lparr>task_log := task_log r @ [t]\<rparr>) else None)"

section \<open>Queries\<close>

definition is_empty :: "registry \<Rightarrow> bool" where
  "is_empty r \<longleftrightarrow> length (mods r) = 0"

definition get_all_nexus_ids :: "registry \<Rightarrow> int list" where
  "get_all_nexus_ids r = remdups (map nexus_id (mods r))"

definition get_dependencies :: "nat \<Rightarrow> registry \<Rightarrow> (int \<times> string) list" where
  "get_dependencies i r = map (\<lambda>d. (depends_on d, dep_name d)) (filter (\<lambda>d. dep_mod_id d = i) (dependencies r))"

text \<open>The join of dependencies and mods; SQLite leaves the order open, so only the set counts.\<close>

definition find_missing_masters_for_mods :: "string list \<Rightarrow> registry \<Rightarrow> (string \<times> int \<times> string) list" where
  "find_missing_masters_for_mods names r =
    (if names = [] then []
     else concat (map (\<lambda>d. map (\<lambda>m. (mod_name m, depends_on d, dep_name d))
       (filter (\<lambda>m. mod_id m = dep_mod_id d \<and> mod_name m \<in> set names) (mods r)))
         (filter (\<lambda>d. get_mod (depends_on d) r = None) (dependencies r))))"

text \<open>\<open>LIKE ... ESCAPE '\'\<close> of SQLite: letters of ASCII compare without case.\<close>

definition ascii_lower :: "char \<Rightarrow> char" where
  "ascii_lower c = (if 65 \<le> code c \<and> code c \<le> 90 then char_of (code c + 32) else c)"

definition ESCAPE :: char where
  "ESCAPE = CHR 0x5C"

fun like :: "string \<Rightarrow> string \<Rightarrow> bool" where
  "like [] s = (s = [])"
| "like (p # ps) s =
    (if p = CHR ''%'' then like ps s \<or> (case s of [] \<Rightarrow> False | c # cs \<Rightarrow> like (p # ps) cs)
     else if p = CHR ''_'' then (case s of [] \<Rightarrow> False | c # cs \<Rightarrow> like ps cs)
     else if p = ESCAPE then (case (ps, s) of (q # qs, c # cs) \<Rightarrow> ascii_lower c = ascii_lower q \<and> like qs cs | _ \<Rightarrow> False)
     else (case s of [] \<Rightarrow> False | c # cs \<Rightarrow> ascii_lower c = ascii_lower p \<and> like ps cs))"

definition replace_char :: "char \<Rightarrow> string \<Rightarrow> string \<Rightarrow> string" where
  "replace_char c t s = concat (map (\<lambda>x. if x = c then t else [x]) s)"

definition escaped :: "string \<Rightarrow> string" where
  "escaped s = replace_char (CHR ''_'') [ESCAPE, CHR ''_''] (replace_char (CHR ''%'') [ESCAPE, CHR ''%'']
     (replace_char ESCAPE [ESCAPE, ESCAPE] s))"

definition search_mods :: "string \<Rightarrow> registry \<Rightarrow> mod_row list" where
  "search_mods pattern r = filter (\<lambda>m. like (''%'' @ escaped pattern @ ''%'') (mod_name m)) (mods r)"

section \<open>The connection\<close>

record database =
  committed :: registry
  working :: registry

definition autocommitted :: "registry \<Rightarrow> database" where
  "autocommitted r = \<lparr>committed = r, working = r\<rparr>"

definition commit :: "database \<Rightarrow> database" where
  "commit db = db\<lparr>committed := working db\<rparr>"

definition rollback :: "database \<Rightarrow> database" where
  "rollback db = db\<lparr>working := committed db\<rparr>"

text \<open>\<open>executemany\<close>: the rows before a failing one stay in the open transaction.\<close>

fun run_rows :: "('a \<Rightarrow> registry \<Rightarrow> registry option) \<Rightarrow> 'a list \<Rightarrow> registry \<Rightarrow> registry \<times> bool" where
  "run_rows f [] r = (r, True)"
| "run_rows f (x # xs) r = (case f x r of None \<Rightarrow> (r, False) | Some r' \<Rightarrow> run_rows f xs r')"

definition execute_many :: "('a \<Rightarrow> registry \<Rightarrow> registry option) \<Rightarrow> 'a list \<Rightarrow> database \<Rightarrow> database \<times> bool" where
  "execute_many f xs db = (let (r, ok) = run_rows f xs (working db) in (db\<lparr>working := r\<rparr>, ok))"

datatype registry_error = Not_Open | Database_Error

definition batch_write :: "('a \<Rightarrow> registry \<Rightarrow> registry option) \<Rightarrow> 'a list \<Rightarrow> database option \<Rightarrow> database option \<times> (registry_error + unit)" where
  "batch_write f xs conn =
    (if xs = [] then (conn, Inr ())
     else case conn of
       None \<Rightarrow> (None, Inl Not_Open)
     | Some db \<Rightarrow>
        (case execute_many f xs db of
           (db', True) \<Rightarrow> (Some (commit db'), Inr ())
         | (db', False) \<Rightarrow> (Some (rollback db'), Inl Database_Error)))"

definition upsert_mods_batch :: "bool \<Rightarrow> string \<Rightarrow> mod_values list \<Rightarrow> database option \<Rightarrow> database option \<times> (registry_error + unit)" where
  "upsert_mods_batch burn now vs = batch_write (upsert_batch_sql burn now) vs"

definition insert_deps_batch :: "dep_row list \<Rightarrow> database option \<Rightarrow> database option \<times> (registry_error + unit)" where
  "insert_deps_batch ds = batch_write insert_dep_sql ds"

definition log_tasks_batch :: "task_row list \<Rightarrow> database option \<Rightarrow> database option \<times> (registry_error + unit)" where
  "log_tasks_batch ts = batch_write log_task_sql ts"

definition upsert_mod :: "bool \<Rightarrow> string \<Rightarrow> mod_values \<Rightarrow> database option \<Rightarrow> database option \<times> (registry_error + nat)" where
  "upsert_mod burn now v conn =
    (case conn of
       None \<Rightarrow> (None, Inl Not_Open)
     | Some db \<Rightarrow>
        (let r = upsert_mod_sql burn now v (working db) in
         (Some (commit (db\<lparr>working := r\<rparr>)), (case get_mod (v_nexus v) r of Some m \<Rightarrow> Inr (mod_id m) | None \<Rightarrow> Inl Database_Error))))"

definition set_vfs_status :: "string \<Rightarrow> int \<Rightarrow> bool \<Rightarrow> bool \<Rightarrow> database option \<Rightarrow> database option \<times> (registry_error + unit)" where
  "set_vfs_status now n inst en conn =
    (case conn of
       None \<Rightarrow> (None, Inl Not_Open)
     | Some db \<Rightarrow> (Some (commit (db\<lparr>working := update_mods n
         (\<lambda>m. m\<lparr>installed := inst, enabled_in_vfs := en, updated_at := now\<rparr>) (working db)\<rparr>)), Inr ()))"

section \<open>The invariant\<close>

definition has_mod :: "registry \<Rightarrow> nat \<Rightarrow> bool" where
  "has_mod r i \<longleftrightarrow> i \<in> mod_id ` set (mods r)"

definition registry_ok :: "registry \<Rightarrow> bool" where
  "registry_ok r \<longleftrightarrow> distinct (map mod_id (mods r)) \<and> distinct (map nexus_id (mods r))
    \<and> (\<forall>m \<in> set (mods r). mod_id m \<le> mod_seq r)
    \<and> distinct (map (\<lambda>d. (dep_mod_id d, depends_on d)) (dependencies r))
    \<and> (\<forall>d \<in> set (dependencies r). has_mod r (dep_mod_id d))
    \<and> (\<forall>t \<in> set (task_log r). \<forall>i. task_mod_id t = Some i \<longrightarrow> has_mod r i)"

lemma get_mod_Some: "get_mod n r = Some m \<Longrightarrow> m \<in> set (mods r) \<and> nexus_id m = n"
  by (auto simp: get_mod_def find_Some_iff)

lemma get_mod_None: "get_mod n r = None \<longleftrightarrow> n \<notin> nexus_id ` set (mods r)"
  by (auto simp: get_mod_def find_None_iff)

text \<open>An update keeps what identifies a row.\<close>

definition keeps_row :: "(mod_row \<Rightarrow> mod_row) \<Rightarrow> bool" where
  "keeps_row f \<longleftrightarrow> (\<forall>m. mod_id (f m) = mod_id m \<and> nexus_id (f m) = nexus_id m \<and> created_at (f m) = created_at m)"

lemma update_mods_ids:
  assumes "keeps_row f"
  shows "map mod_id (mods (update_mods n f r)) = map mod_id (mods r)"
    and "map nexus_id (mods (update_mods n f r)) = map nexus_id (mods r)"
  using assms by (auto simp: update_mods_def keeps_row_def)

lemma update_mods_has: "keeps_row f \<Longrightarrow> has_mod (update_mods n f r) i \<longleftrightarrow> has_mod r i"
  using arg_cong[OF update_mods_ids(1)[of f n r], of set] by (simp add: has_mod_def)

lemma update_mods_rest [simp]:
  "dependencies (update_mods n f r) = dependencies r" "task_log (update_mods n f r) = task_log r" "mod_seq (update_mods n f r) = mod_seq r"
  by (simp_all add: update_mods_def)

lemma update_mods_ok:
  assumes "registry_ok r" "keeps_row f"
  shows "registry_ok (update_mods n f r)"
proof -
  have "\<forall>m \<in> set (mods (update_mods n f r)). mod_id m \<le> mod_seq r"
    using assms by (auto simp: update_mods_def registry_ok_def keeps_row_def)
  then show ?thesis
    using assms unfolding registry_ok_def update_mods_ids[OF assms(2)] update_mods_rest update_mods_has[OF assms(2)] by blast
qed

lemma registry_ok_seq: "registry_ok r \<Longrightarrow> registry_ok (r\<lparr>mod_seq := Suc (mod_seq r)\<rparr>)"
  unfolding registry_ok_def has_mod_def by (auto intro: le_SucI)

lemma registry_ok_insert:
  assumes "registry_ok r" "get_mod (v_nexus v) r = None"
  shows "registry_ok (r\<lparr>mods := mods r @ [new_row now (Suc (mod_seq r)) v], mod_seq := Suc (mod_seq r)\<rparr>)"
proof -
  have "Suc (mod_seq r) \<notin> mod_id ` set (mods r)" using assms(1) by (fastforce simp: registry_ok_def)
  moreover have "v_nexus v \<notin> nexus_id ` set (mods r)" using assms(2) get_mod_None by blast
  ultimately show ?thesis using assms(1)
    unfolding registry_ok_def has_mod_def by (auto simp: new_row_def intro: le_SucI)
qed

lemma upsert_sql_ok:
  assumes "registry_ok r" "keeps_row f"
  shows "registry_ok (upsert_sql burn now f v r)"
proof (cases "get_mod (v_nexus v) r")
  case None
  then show ?thesis using registry_ok_insert[OF assms(1)] by (simp add: upsert_sql_def)
next
  case (Some m)
  have seq: "(update_mods n f r)\<lparr>mod_seq := mod_seq r\<rparr> = update_mods n f r" for n by (simp add: update_mods_def)
  show ?thesis using Some registry_ok_seq[OF update_mods_ok[OF assms]] update_mods_ok[OF assms]
    by (cases burn) (simp_all add: upsert_sql_def seq)
qed

lemma keeps_values [simp]:
  "keeps_row (with_values now v)"
  "keeps_row (\<lambda>m. (with_values now v m)\<lparr>installed := a, enabled_in_vfs := b\<rparr>)"
  "keeps_row (\<lambda>m. m\<lparr>installed := a, enabled_in_vfs := b, updated_at := now\<rparr>)"
  by (simp_all add: keeps_row_def with_values_def)

lemma upsert_mod_sql_ok: "registry_ok r \<Longrightarrow> registry_ok (upsert_mod_sql burn now v r)"
  by (simp add: upsert_mod_sql_def Let_def upsert_sql_ok)

lemma upsert_batch_sql_ok: "registry_ok r \<Longrightarrow> upsert_batch_sql burn now v r = Some r' \<Longrightarrow> registry_ok r'"
  by (auto simp: upsert_batch_sql_def upsert_sql_ok)

lemma insert_dep_sql_ok:
  assumes ok: "registry_ok r" and i: "insert_dep_sql d r = Some r'"
  shows "registry_ok r'"
proof (cases "list_ex (\<lambda>e. dep_mod_id e = dep_mod_id d \<and> depends_on e = depends_on d) (dependencies r)")
  case True
  then show ?thesis using assms by (simp add: insert_dep_sql_def)
next
  case False
  then have new: "(dep_mod_id d, depends_on d) \<notin> (\<lambda>d. (dep_mod_id d, depends_on d)) ` set (dependencies r)"
    by (auto simp: list_ex_iff)
  have ex: "list_ex (\<lambda>m. mod_id m = dep_mod_id d) (mods r)" and r': "r' = r\<lparr>dependencies := dependencies r @ [d]\<rparr>"
    using i False by (auto simp: insert_dep_sql_def split: if_splits)
  from ex obtain m where "m \<in> set (mods r)" "mod_id m = dep_mod_id d" by (auto simp: list_ex_iff)
  then have h: "has_mod r (dep_mod_id d)" unfolding has_mod_def by (metis imageI)
  have same: "has_mod r' i = has_mod r i" for i by (simp add: r' has_mod_def)
  have "distinct (map (\<lambda>d. (dep_mod_id d, depends_on d)) (dependencies r'))"
    using ok new by (simp add: r' registry_ok_def)
  moreover have "\<forall>e \<in> set (dependencies r'). has_mod r' (dep_mod_id e)"
    using ok h unfolding same by (auto simp: r' registry_ok_def)
  moreover have "mods r' = mods r" "mod_seq r' = mod_seq r" "task_log r' = task_log r" by (simp_all add: r')
  ultimately show ?thesis using ok unfolding registry_ok_def same by simp
qed

lemma log_task_sql_ok: "registry_ok r \<Longrightarrow> log_task_sql t r = Some r' \<Longrightarrow> registry_ok r'"
  by (fastforce simp: log_task_sql_def registry_ok_def has_mod_def list_ex_iff split: if_splits option.splits)

lemma run_rows_ok:
  assumes "\<And>x r r'. registry_ok r \<Longrightarrow> f x r = Some r' \<Longrightarrow> registry_ok r'"
  shows "registry_ok r \<Longrightarrow> registry_ok (fst (run_rows f xs r))"
  using assms by (induction xs arbitrary: r) (auto split: option.splits)

section \<open>Interleaved use of the connection\<close>

text \<open>
  Every await of a coroutine is a point where another one may run a statement, commit or roll back on the
  same connection; an upsert and \<open>set_vfs_status\<close> are statements too.
\<close>

datatype db_action =
    Run_Upserts bool string "mod_values list"
  | Run_Deps "dep_row list"
  | Run_Logs "task_row list"
  | Run_Upsert bool string mod_values
  | Run_Status string int bool bool
  | Run_Commit
  | Run_Rollback

definition db_effect :: "db_action \<Rightarrow> database \<Rightarrow> database" where
  "db_effect a db =
    (case a of
       Run_Upserts burn now vs \<Rightarrow> fst (execute_many (upsert_batch_sql burn now) vs db)
     | Run_Deps ds \<Rightarrow> fst (execute_many insert_dep_sql ds db)
     | Run_Logs ts \<Rightarrow> fst (execute_many log_task_sql ts db)
     | Run_Upsert burn now v \<Rightarrow> db\<lparr>working := upsert_mod_sql burn now v (working db)\<rparr>
     | Run_Status now n i e \<Rightarrow> db\<lparr>working := update_mods n (\<lambda>m. m\<lparr>installed := i, enabled_in_vfs := e, updated_at := now\<rparr>) (working db)\<rparr>
     | Run_Commit \<Rightarrow> commit db
     | Run_Rollback \<Rightarrow> rollback db)"

inductive db_reached :: "database \<Rightarrow> bool" where
  start: "db_reached (autocommitted empty_registry)"
| act: "db_reached db \<Longrightarrow> db_reached (db_effect a db)"

lemma working_execute: "working (fst (execute_many f xs db)) = fst (run_rows f xs (working db))"
  "committed (fst (execute_many f xs db)) = committed db"
  by (simp_all add: execute_many_def split: prod.splits)

lemma execute_many_ok:
  assumes "\<And>x r r'. registry_ok r \<Longrightarrow> f x r = Some r' \<Longrightarrow> registry_ok r'"
    and "registry_ok (committed db)" "registry_ok (working db)"
  shows "registry_ok (committed (fst (execute_many f xs db))) \<and> registry_ok (working (fst (execute_many f xs db)))"
  unfolding working_execute using assms(2) run_rows_ok[of f "working db" xs] assms(1,3) by blast

lemma db_effect_ok:
  assumes "registry_ok (committed db)" "registry_ok (working db)"
  shows "registry_ok (committed (db_effect a db)) \<and> registry_ok (working (db_effect a db))"
proof (cases a)
  case (Run_Upserts burn now vs)
  show ?thesis unfolding Run_Upserts db_effect_def
    using execute_many_ok[of "upsert_batch_sql burn now", OF upsert_batch_sql_ok assms] by simp
next
  case (Run_Deps ds)
  show ?thesis unfolding Run_Deps db_effect_def using execute_many_ok[of insert_dep_sql, OF insert_dep_sql_ok assms] by simp
next
  case (Run_Logs ts)
  show ?thesis unfolding Run_Logs db_effect_def using execute_many_ok[of log_task_sql, OF log_task_sql_ok assms] by simp
qed (use assms in \<open>simp_all add: db_effect_def upsert_mod_sql_ok update_mods_ok commit_def rollback_def\<close>)

lemma reached_ok: "db_reached db \<Longrightarrow> registry_ok (committed db) \<and> registry_ok (working db)"
proof (induction rule: db_reached.induct)
  case start
  then show ?case by (simp add: autocommitted_def empty_registry_def registry_ok_def)
next
  case (act db a)
  then show ?case using db_effect_ok by blast
qed

text \<open>
  C40: however coroutines interleave on the connection, the tables stay consistent: mods have distinct
  identifiers below the counter and distinct Nexus identifiers, no dependency is listed twice for a mod, and
  dependencies and log entries refer to mods that exist; so every upsert finds at most one row.
\<close>

theorem registry_stays_consistent:
  assumes "db_reached db"
  shows "registry_ok (committed db) \<and> registry_ok (working db)
    \<and> (\<forall>n. length (filter (\<lambda>m. nexus_id m = n) (mods (committed db))) \<le> 1)"
proof -
  have "distinct (map nexus_id xs) \<Longrightarrow> length (filter (\<lambda>m. nexus_id m = n) xs) \<le> 1" for n xs
    by (induction xs) (auto simp: filter_empty_conv image_iff Suc_le_eq)
  then show ?thesis using reached_ok[OF assms] by (auto simp: registry_ok_def)
qed

theorem registry_stays_consistent_witness:
  "registry_ok (committed (db_effect Run_Commit (db_effect (Run_Upserts False ''t''
     [\<lparr>v_nexus = 7, v_name = ''A'', v_version = [], v_author = [], v_category = [], v_url = [], v_installed = True, v_enabled = True\<rparr>])
       (autocommitted empty_registry))))"
  using registry_stays_consistent[OF db_reached.act[OF db_reached.act[OF db_reached.start]]] by blast

section \<open>Batches\<close>

text \<open>All rows in order, or nothing.\<close>

fun all_rows :: "('a \<Rightarrow> registry \<Rightarrow> registry option) \<Rightarrow> 'a list \<Rightarrow> registry \<Rightarrow> registry option" where
  "all_rows f [] r = Some r"
| "all_rows f (x # xs) r = (case f x r of None \<Rightarrow> None | Some r' \<Rightarrow> all_rows f xs r')"

lemma run_rows_all: "run_rows f xs r = (r', ok) \<Longrightarrow> all_rows f xs r = (if ok then Some r' else None)"
  by (induction xs arbitrary: r) (auto split: option.splits)

text \<open>
  A batch written while no other coroutine uses the connection is atomic: it succeeds exactly when every
  row can be written, the file then holds all of them in order, and otherwise the caller gets an error and
  the file is as before.
\<close>

theorem batches_are_atomic:
  assumes "batch_write f xs (Some (autocommitted r)) = (conn, res)"
  shows "(case all_rows f xs r of
       Some r' \<Rightarrow> conn = Some (autocommitted r') \<and> res = Inr ()
     | None \<Rightarrow> conn = Some (autocommitted r) \<and> res = Inl Database_Error)"
proof (cases "xs = []")
  case True
  then show ?thesis using assms by (simp add: batch_write_def)
next
  case False
  obtain r' ok where run: "run_rows f xs r = (r', ok)" by fastforce
  show ?thesis using assms False run_rows_all[OF run] run
    by (cases ok) (auto simp: batch_write_def execute_many_def autocommitted_def commit_def rollback_def)
qed

theorem batches_are_atomic_witness:
  "insert_deps_batch [\<lparr>dep_mod_id = 1, depends_on = 7, dep_name = ''X''\<rparr>] (Some (autocommitted empty_registry))
    = (Some (autocommitted empty_registry), Inl Database_Error)"
proof -
  let ?d = "\<lparr>dep_mod_id = 1, depends_on = 7, dep_name = ''X''\<rparr> :: dep_row"
  obtain conn res where b: "batch_write insert_dep_sql [?d] (Some (autocommitted empty_registry)) = (conn, res)" by fastforce
  have "all_rows insert_dep_sql [?d] empty_registry = None" by (simp add: insert_dep_sql_def empty_registry_def)
  then show ?thesis using batches_are_atomic[OF b] b by (simp add: insert_deps_batch_def)
qed

text \<open>
  Two coroutines that write at the same time share one transaction: when the second one's rows fail
  after the first has executed its own and before it has committed, the rollback takes the first one's rows
  along; its commit and its call then succeed, and none of its rows is in the file.
\<close>

theorem rollback_takes_other_batch:
  assumes "db = autocommitted r" and "snd (execute_many f xs db)"
    and "\<not> snd (execute_many g ys (fst (execute_many f xs db)))"
  shows "let db1 = fst (execute_many f xs db); db2 = fst (execute_many g ys db1); db3 = rollback db2
    in committed (commit db3) = r"
  by (simp add: Let_def commit_def rollback_def working_execute assms(1) autocommitted_def)

definition demo_values :: mod_values where
  "demo_values = \<lparr>v_nexus = 7, v_name = ''A'', v_version = [], v_author = [], v_category = [], v_url = [],
     v_installed = True, v_enabled = True\<rparr>"

theorem rollback_takes_other_batch_witness:
  "mods (committed (commit (rollback (fst (execute_many insert_dep_sql [\<lparr>dep_mod_id = 9, depends_on = 7, dep_name = ''X''\<rparr>]
     (fst (execute_many (upsert_batch_sql False ''t'') [demo_values] (autocommitted empty_registry)))))))) = []"
proof -
  have "snd (execute_many (upsert_batch_sql False ''t'') [demo_values] (autocommitted empty_registry))"
    and "\<not> snd (execute_many insert_dep_sql [\<lparr>dep_mod_id = 9, depends_on = 7, dep_name = ''X''\<rparr>]
     (fst (execute_many (upsert_batch_sql False ''t'') [demo_values] (autocommitted empty_registry))))"
    by code_simp+
  from rollback_takes_other_batch[OF refl this] show ?thesis by (simp add: Let_def empty_registry_def)
qed

section \<open>Upserts\<close>

lemma find_map_if:
  assumes "\<And>m. nexus_id (f m) = nexus_id m"
  shows "find (\<lambda>m. nexus_id m = n) (map (\<lambda>m. if nexus_id m = k then f m else m) ms)
    = (if n = k then map_option f (find (\<lambda>m. nexus_id m = n) ms) else find (\<lambda>m. nexus_id m = n) ms)"
  by (induction ms) (auto simp: assms)

lemma get_update:
  "keeps_row f \<Longrightarrow> get_mod n (update_mods k f r) = (if n = k then map_option f (get_mod n r) else get_mod n r)"
  unfolding get_mod_def update_mods_def using find_map_if[of f n k "mods r"] by (simp add: keeps_row_def)

lemma find_snoc: "find P (xs @ [x]) = (case find P xs of Some y \<Rightarrow> Some y | None \<Rightarrow> if P x then Some x else None)"
  by (induction xs) auto

lemma upsert_sql_known:
  assumes "get_mod (v_nexus v) r = Some m" "keeps_row f"
  shows "get_mod n (upsert_sql burn now f v r) = (if n = v_nexus v then Some (f m) else get_mod n r)"
    and "map mod_id (mods (upsert_sql burn now f v r)) = map mod_id (mods r)"
proof -
  have seq: "get_mod n (x\<lparr>mod_seq := k\<rparr>) = get_mod n x" "mods (x\<lparr>mod_seq := k\<rparr>) = mods x" for x k
    by (simp_all add: get_mod_def)
  show "get_mod n (upsert_sql burn now f v r) = (if n = v_nexus v then Some (f m) else get_mod n r)"
    using assms(1) by (simp add: upsert_sql_def seq get_update[OF assms(2)])
  show "map mod_id (mods (upsert_sql burn now f v r)) = map mod_id (mods r)"
    using assms(1) by (simp add: upsert_sql_def seq update_mods_ids(1)[OF assms(2)])
qed

lemma upsert_sql_new:
  assumes "get_mod (v_nexus v) r = None"
  shows "mods (upsert_sql burn now f v r) = mods r @ [new_row now (Suc (mod_seq r)) v]"
    and "n \<noteq> v_nexus v \<Longrightarrow> get_mod n (upsert_sql burn now f v r) = get_mod n r"
  using assms by (simp_all add: upsert_sql_def get_mod_def find_snoc new_row_def split: option.split)

lemma upsert_sql_rest:
  "dependencies (upsert_sql burn now f v r) = dependencies r" "task_log (upsert_sql burn now f v r) = task_log r"
  by (simp_all add: upsert_sql_def split: option.split)

text \<open>
  An upsert of a registered mod keeps its row: identifier, time of creation, dependencies and log stay,
  no row appears or goes, and the other mods are unchanged; the single upsert keeps its state in the virtual
  file system too, a batch sets it.  A new mod gets an identifier never used, and the single upsert leaves it
  uninstalled.
\<close>

theorem upsert_keeps_identity:
  assumes "registry_ok r" and "r' = upsert_mod_sql burn now v r" and "upsert_batch_sql burn now v r = Some r''"
  shows "(case get_mod (v_nexus v) r of
       Some m \<Rightarrow> get_mod (v_nexus v) r' = Some (with_values now v m)
         \<and> get_mod (v_nexus v) r'' = Some ((with_values now v m)\<lparr>installed := v_installed v, enabled_in_vfs := v_enabled v\<rparr>)
         \<and> map mod_id (mods r') = map mod_id (mods r) \<and> map mod_id (mods r'') = map mod_id (mods r)
     | None \<Rightarrow> (\<exists>m. mods r' = mods r @ [m] \<and> mod_id m \<notin> mod_id ` set (mods r) \<and> \<not> installed m \<and> \<not> enabled_in_vfs m)
         \<and> (\<exists>m. mods r'' = mods r @ [m] \<and> installed m = v_installed v \<and> enabled_in_vfs m = v_enabled v))
    \<and> (\<forall>n. n \<noteq> v_nexus v \<longrightarrow> get_mod n r' = get_mod n r \<and> get_mod n r'' = get_mod n r)
    \<and> dependencies r' = dependencies r \<and> dependencies r'' = dependencies r \<and> task_log r' = task_log r \<and> task_log r'' = task_log r"
proof -
  let ?w = "v\<lparr>v_installed := False, v_enabled := False\<rparr>"
  let ?f = "\<lambda>m. (with_values now v m)\<lparr>installed := v_installed v, enabled_in_vfs := v_enabled v\<rparr>"
  have w: "v_nexus ?w = v_nexus v" "with_values now ?w = with_values now v" by (simp_all add: with_values_def fun_eq_iff)
  have r': "r' = upsert_sql burn now (with_values now v) ?w r" using assms(2) by (simp add: upsert_mod_sql_def Let_def w)
  have r'': "r'' = upsert_sql burn now ?f v r" using assms(3) by (simp add: upsert_batch_sql_def)
  show ?thesis
  proof (cases "get_mod (v_nexus v) r")
    case None
    have "Suc (mod_seq r) \<notin> mod_id ` set (mods r)" using assms(1) by (fastforce simp: registry_ok_def)
    then show ?thesis
      using None upsert_sql_new[where v = ?w and r = r and burn = burn and now = now]
        upsert_sql_new[where v = v and r = r and burn = burn and now = now] unfolding r' r''
      by (simp add: w upsert_sql_rest new_row_def)
  next
    case (Some m)
    then show ?thesis
      using upsert_sql_known[where v = ?w and r = r and m = m and f = "with_values now v" and burn = burn and now = now]
        upsert_sql_known[where v = v and r = r and m = m and f = ?f and burn = burn and now = now]
      unfolding r' r'' by (simp add: w upsert_sql_rest)
  qed
qed

theorem upsert_keeps_identity_witness:
  "get_mod 7 (upsert_mod_sql False ''u'' (demo_values\<lparr>v_version := ''2''\<rparr>) (upsert_sql False ''t'' id demo_values empty_registry))
    = Some (with_values ''u'' (demo_values\<lparr>v_version := ''2''\<rparr>) (new_row ''t'' 1 demo_values))"
proof -
  let ?r = "upsert_sql False ''t'' id demo_values empty_registry"
  have "registry_ok ?r"
    by (rule upsert_sql_ok) (simp_all add: registry_ok_def empty_registry_def keeps_row_def)
  moreover have "get_mod 7 ?r = Some (new_row ''t'' 1 demo_values)" by code_simp
  ultimately show ?thesis
    using upsert_keeps_identity[of ?r _ False "''u''" "demo_values\<lparr>v_version := ''2''\<rparr>", OF _ refl upsert_batch_sql_def]
    by (simp add: demo_values_def)
qed

section \<open>Searching\<close>

lemma escaped_map:
  "escaped s = concat (map (\<lambda>x. if x \<in> {CHR ''%'', CHR ''_'', ESCAPE} then [ESCAPE, x] else [x]) s)"
  by (induction s) (auto simp: escaped_def replace_char_def ESCAPE_def)

text \<open>A pattern of escaped text followed by a percent sign is a prefix test.\<close>

lemma like_percent: "like [CHR ''%''] s"
  by (induction s) auto

lemma like_escaped: "like (escaped p @ ''%'') s \<longleftrightarrow> prefix (map ascii_lower p) (map ascii_lower s)"
proof (induction p arbitrary: s)
  case Nil
  then show ?case by (simp add: escaped_map like_percent del: like.simps)
next
  case (Cons c p)
  have e: "escaped (c # p) = (if c \<in> {CHR ''%'', CHR ''_'', ESCAPE} then [ESCAPE, c] else [c]) @ escaped p"
    by (simp add: escaped_map)
  show ?case
    unfolding e using Cons.IH by (cases s) (auto simp: ESCAPE_def)
qed

text \<open>
  A search finds exactly the mods whose name contains the search term, letters of ASCII compared
  without case, whatever wildcards or escape characters the term contains.
\<close>

theorem search_is_substring_test:
  "search_mods pat r = filter (\<lambda>m. sublist (map ascii_lower pat) (map ascii_lower (mod_name m))) (mods r)"
proof -
  have "like (''%'' @ escaped pat @ ''%'') s \<longleftrightarrow> sublist (map ascii_lower pat) (map ascii_lower s)" for s
  proof (induction s)
    case Nil
    then show ?case using like_escaped[of pat "[]"] by simp
  next
    case (Cons c s)
    then show ?case using like_escaped[of pat "c # s"] by (simp add: sublist_Cons_right)
  qed
  then show ?thesis by (simp add: search_mods_def)
qed

end
