(* ===== verification/Modlist.thy ===== *)
theory Modlist
  imports Path_Guard
begin

text \<open>
  \<open>sky_claw/local/mo2/vfs.py\<close>: reading and editing a profile's \<open>modlist.txt\<close> and deleting the files of
  a mod.  The file system is a map from paths to files; a file is the text Python's text mode gives for
  it (newlines already translated) and whether a byte order mark stands before it.  \<open>check\<close> is
  \<open>PathValidator.validate\<close>, \<open>has_dir\<close> whether a directory exists.  Starting and killing the game are
  left out.
\<close>

section \<open>Lines\<close>

record mod_file =
  bom :: bool
  file_text :: string

definition NEWLINE :: char where
  "NEWLINE = char_of (10::nat)"

definition CARRIAGE :: char where
  "CARRIAGE = char_of (13::nat)"

fun lines_from :: "string \<Rightarrow> string \<Rightarrow> string list" where
  "lines_from acc [] = (if acc = [] then [] else [rev acc])"
| "lines_from acc (c # cs) = (if c = NEWLINE then rev (c # acc) # lines_from [] cs else lines_from (c # acc) cs)"

definition file_lines :: "string \<Rightarrow> string list" where
  "file_lines t = lines_from [] t"

definition rstrip_eol :: "string \<Rightarrow> string" where
  "rstrip_eol s = rev (dropWhile (\<lambda>c. c = CARRIAGE \<or> c = NEWLINE) (rev s))"

definition normalised_line :: "string \<Rightarrow> string" where
  "normalised_line l = (if l \<noteq> [] \<and> last l = NEWLINE then l else rstrip_eol l @ [NEWLINE])"

definition write_modlist_atomic :: "string list \<Rightarrow> mod_file" where
  "write_modlist_atomic ls = \<lparr>bom = True, file_text = concat (map normalised_line ls)\<rparr>"

lemma newline_neq [simp]: "NEWLINE \<noteq> CHR ''+''" "NEWLINE \<noteq> CHR ''-''" "CHR ''+'' \<noteq> NEWLINE" "CHR ''-'' \<noteq> NEWLINE"
proof -
  have "code NEWLINE = 10" by (simp add: code_def NEWLINE_def)
  moreover have "code (CHR ''+'') = 43" "code (CHR ''-'') = 45" by (simp_all add: code_def)
  ultimately show "NEWLINE \<noteq> CHR ''+''" "NEWLINE \<noteq> CHR ''-''" "CHR ''+'' \<noteq> NEWLINE" "CHR ''-'' \<noteq> NEWLINE" by auto
qed

section \<open>Operations\<close>

datatype modlist_error = Unsafe path_violation | File_Not_Found

type_synonym files = "(parts, mod_file) dict"

definition modlist_path :: "(parts \<Rightarrow> path_violation + parts) \<Rightarrow> parts \<Rightarrow> string \<Rightarrow> path_violation + parts" where
  "modlist_path check base profile =
    (case assert_safe_component (Some profile) of
       Inl e \<Rightarrow> Inl e
     | Inr p \<Rightarrow> check (base @ [''profiles'', p, ''modlist.txt'']))"

definition mod_entry :: "string \<Rightarrow> (string \<times> bool) option" where
  "mod_entry raw =
    (let line = strip raw in
     if line = [] \<or> hd line = CHR ''#'' then None
     else if hd line = CHR ''*'' then None
     else if hd line \<noteq> CHR ''+'' \<and> hd line \<noteq> CHR ''-'' then None
     else let name = strip (tl line) in
     if name = [] then None else Some (name, hd line = CHR ''+''))"

definition mods_of :: "string \<Rightarrow> (string \<times> bool) list" where
  "mods_of t = List.map_filter mod_entry (file_lines t)"

definition read_modlist ::
  "(parts \<Rightarrow> path_violation + parts) \<Rightarrow> parts \<Rightarrow> string \<Rightarrow> files \<Rightarrow> modlist_error + (string \<times> bool) list" where
  "read_modlist check base profile fs =
    (case modlist_path check base profile of
       Inl e \<Rightarrow> Inl (Unsafe e)
     | Inr p \<Rightarrow> (case dget fs p of None \<Rightarrow> Inl File_Not_Found | Some f \<Rightarrow> Inr (mods_of (file_text f))))"

text \<open>The line names \<open>m\<close>, enabled or disabled.\<close>

definition names_mod :: "string \<Rightarrow> string \<Rightarrow> bool" where
  "names_mod m raw \<longleftrightarrow> (let line = strip raw in line \<noteq> [] \<and> strip (tl line) = m \<and> hd line \<in> {CHR ''+'', CHR ''-''})"

text \<open>Both arguments are checked first, then the path.\<close>

definition modlist_target ::
  "(parts \<Rightarrow> path_violation + parts) \<Rightarrow> parts \<Rightarrow> string \<Rightarrow> string \<Rightarrow> modlist_error + parts" where
  "modlist_target check base m profile =
    (case assert_safe_component (Some m) of
       Inl e \<Rightarrow> Inl (Unsafe e)
     | Inr _ \<Rightarrow> (case modlist_path check base profile of Inl e \<Rightarrow> Inl (Unsafe e) | Inr p \<Rightarrow> Inr p))"

definition add_mod_to_modlist ::
  "(parts \<Rightarrow> path_violation + parts) \<Rightarrow> (parts \<Rightarrow> bool) \<Rightarrow> parts \<Rightarrow> string \<Rightarrow> string \<Rightarrow> files \<Rightarrow> modlist_error + files" where
  "add_mod_to_modlist check has_dir base m profile fs =
    (case modlist_target check base m profile of
       Inl e \<Rightarrow> Inl e
     | Inr p \<Rightarrow>
        let new_line = CHR ''+'' # m @ [NEWLINE] in
        (case dget fs p of
           Some f \<Rightarrow>
             if list_ex (names_mod m) (file_lines (file_text f)) then Inr fs
             else Inr (dset p (f\<lparr>file_text := file_text f @ new_line\<rparr>) fs)
         | None \<Rightarrow>
             if has_dir (butlast p) then Inr (dset p \<lparr>bom = False, file_text = new_line\<rparr> fs)
             else Inl File_Not_Found))"

definition remove_mod_from_modlist ::
  "(parts \<Rightarrow> path_violation + parts) \<Rightarrow> parts \<Rightarrow> string \<Rightarrow> string \<Rightarrow> files \<Rightarrow> modlist_error + files" where
  "remove_mod_from_modlist check base m profile fs =
    (case modlist_target check base m profile of
       Inl e \<Rightarrow> Inl e
     | Inr p \<Rightarrow>
        (case dget fs p of
           None \<Rightarrow> Inr fs
         | Some f \<Rightarrow>
            let ls = file_lines (file_text f) in
            if \<not> list_ex (names_mod m) ls then Inr fs
            else Inr (dset p (write_modlist_atomic (filter (\<lambda>l. \<not> names_mod m l) ls)) fs)))"

definition toggled_line :: "string \<Rightarrow> char \<Rightarrow> string \<Rightarrow> string" where
  "toggled_line m target_prefix raw =
    (if names_mod m raw \<and> hd (strip raw) \<noteq> target_prefix then target_prefix # m @ [NEWLINE] else raw)"

definition toggle_mod_in_modlist ::
  "(parts \<Rightarrow> path_violation + parts) \<Rightarrow> parts \<Rightarrow> string \<Rightarrow> string \<Rightarrow> bool \<Rightarrow> files \<Rightarrow> modlist_error + files" where
  "toggle_mod_in_modlist check base m profile enable fs =
    (case modlist_target check base m profile of
       Inl e \<Rightarrow> Inl e
     | Inr p \<Rightarrow>
        (case dget fs p of
           None \<Rightarrow> Inr fs
         | Some f \<Rightarrow>
            let ls = file_lines (file_text f); target_prefix = (if enable then CHR ''+'' else CHR ''-'');
                changed = list_ex (\<lambda>l. names_mod m l \<and> hd (strip l) \<noteq> target_prefix) ls in
            if changed then Inr (dset p (write_modlist_atomic (map (toggled_line m target_prefix) ls)) fs)
            else Inr fs))"

definition delete_mod_files ::
  "(parts \<Rightarrow> path_violation + parts) \<Rightarrow> parts \<Rightarrow> string \<Rightarrow> files \<Rightarrow> modlist_error + files" where
  "delete_mod_files check base m fs =
    (case assert_safe_component (Some m) of
       Inl e \<Rightarrow> Inl (Unsafe e)
     | Inr _ \<Rightarrow> (case check (base @ [''mods'', m]) of
          Inl e \<Rightarrow> Inl (Unsafe e)
        | Inr d \<Rightarrow> Inr (filter (\<lambda>x. \<not> strict_prefix d (fst x)) fs)))"

section \<open>Lines read back\<close>

lemma lines_from_app:
  "NEWLINE \<notin> set w \<Longrightarrow> lines_from acc (w @ NEWLINE # t) = (rev acc @ w @ [NEWLINE]) # file_lines t"
  by (induction w arbitrary: acc) (auto simp: file_lines_def)

lemma lines_from_rest: "NEWLINE \<notin> set w \<Longrightarrow> lines_from acc w = (if acc = [] \<and> w = [] then [] else [rev acc @ w])"
  by (induction w arbitrary: acc) auto

lemma file_lines_line: "NEWLINE \<notin> set w \<Longrightarrow> file_lines (w @ NEWLINE # t) = (w @ [NEWLINE]) # file_lines t"
  using lines_from_app[of w "[]" t] by (simp add: file_lines_def)

lemma file_lines_last: "NEWLINE \<notin> set w \<Longrightarrow> w \<noteq> [] \<Longrightarrow> file_lines w = [w]"
  using lines_from_rest[of w "[]"] by (simp add: file_lines_def)

lemma file_lines_Nil [simp]: "file_lines [] = []"
  by (simp add: file_lines_def)

text \<open>A text is empty, one unfinished line, or a line and another text.\<close>

lemma text_cases:
  obtains "t = []" | "t \<noteq> []" "NEWLINE \<notin> set t" | w r where "t = w @ NEWLINE # r" "NEWLINE \<notin> set w"
  by (metis split_list_first)

lemma text_induct [case_names Nil Rest Line]:
  assumes "P []" and "\<And>w. w \<noteq> [] \<Longrightarrow> NEWLINE \<notin> set w \<Longrightarrow> P w"
    and "\<And>w r. NEWLINE \<notin> set w \<Longrightarrow> P r \<Longrightarrow> P (w @ NEWLINE # r)"
  shows "P t"
proof (induction "length t" arbitrary: t rule: less_induct)
  case less
  show ?case
  proof (cases t rule: text_cases)
    case (3 w r)
    then show ?thesis using less[of r] assms(3)[of w r] by simp
  qed (use assms in auto)
qed

definition finished :: "string \<Rightarrow> bool" where
  "finished t \<longleftrightarrow> t = [] \<or> last t = NEWLINE"

lemma file_lines_append: "finished t \<Longrightarrow> file_lines (t @ u) = file_lines t @ file_lines u"
proof (induction t rule: text_induct)
  case (Rest w)
  then show ?case by (metis finished_def last_in_set)
next
  case (Line w r)
  then have "finished r" by (auto simp: finished_def split: if_splits)
  then show ?case using Line by (simp add: file_lines_line)
qed simp

lemma mods_of_append: "finished t \<Longrightarrow> mods_of (t @ u) = mods_of t @ mods_of u"
  by (simp add: mods_of_def file_lines_append List.map_filter_def)

section \<open>What the operations do to the list\<close>

lemma space_newline: "is_space NEWLINE" "is_space CARRIAGE"
  by (simp_all add: is_space_def NEWLINE_def CARRIAGE_def code_def)

lemma strip_normalised: "strip (normalised_line l) = strip l"
proof -
  have nl: "list_all is_space [NEWLINE]" by (simp add: space_newline)
  let ?P = "\<lambda>c. c = CARRIAGE \<or> c = NEWLINE"
  have "l = rstrip_eol l @ rev (takeWhile ?P (rev l))"
    unfolding rstrip_eol_def by (metis rev_append rev_rev_ident takeWhile_dropWhile_id)
  moreover have "list_all is_space (rev (takeWhile ?P (rev l)))"
    using space_newline by (auto simp: list_all_iff dest: set_takeWhileD)
  ultimately have "strip l = strip (rstrip_eol l)" by (metis strip_append_space)
  then show ?thesis by (simp add: normalised_line_def strip_append_space[OF nl])
qed

lemma mod_entry_normalised: "mod_entry (normalised_line l) = mod_entry l"
  unfolding mod_entry_def strip_normalised ..

lemma names_mod_iff: "m \<noteq> [] \<Longrightarrow> names_mod m l \<longleftrightarrow> (\<exists>b. mod_entry l = Some (m, b))"
  by (auto simp: names_mod_def mod_entry_def Let_def)

definition good_line :: "string \<Rightarrow> bool" where
  "good_line l \<longleftrightarrow> l \<noteq> [] \<and> NEWLINE \<notin> set (butlast l)"

lemma good_file_lines: "list_all good_line (file_lines t)"
proof (induction t rule: text_induct)
  case (Rest w)
  then show ?case by (auto simp: file_lines_last good_line_def dest: in_set_butlastD)
qed (simp_all add: file_lines_line good_line_def)

lemma good_normalised: "good_line l \<Longrightarrow> \<exists>w. normalised_line l = w @ [NEWLINE] \<and> NEWLINE \<notin> set w"
proof (cases "last l = NEWLINE")
  case True
  moreover assume "good_line l"
  ultimately show ?thesis
    by (intro exI[of _ "butlast l"]) (metis append_butlast_last_id good_line_def normalised_line_def)
next
  case False
  moreover assume g: "good_line l"
  ultimately have "NEWLINE \<notin> set l"
    unfolding good_line_def by (metis append_butlast_last_id in_set_conv_decomp last_in_set rotate1.simps(2) set_ConsD set_rotate1)
  then have "NEWLINE \<notin> set (rstrip_eol l)" by (auto simp: rstrip_eol_def dest: set_dropWhileD)
  then show ?thesis using False by (simp add: normalised_line_def)
qed

lemma written_lines: "list_all good_line ls \<Longrightarrow> file_lines (concat (map normalised_line ls)) = map normalised_line ls"
proof (induction ls)
  case (Cons l ls)
  then obtain w where w: "normalised_line l = w @ [NEWLINE]" "NEWLINE \<notin> set w" using good_normalised[of l] by auto
  then show ?case using Cons by (simp add: file_lines_line)
qed simp

lemma map_filter_cong_map: "(\<And>l. f (g l) = f l) \<Longrightarrow> List.map_filter f (map g ls) = List.map_filter f ls"
  by (induction ls) (simp_all add: List.map_filter_simps split: option.splits)

lemma mods_of_written: "list_all good_line ls \<Longrightarrow> mods_of (file_text (write_modlist_atomic ls)) = List.map_filter mod_entry ls"
  by (simp add: mods_of_def write_modlist_atomic_def written_lines map_filter_cong_map[of mod_entry normalised_line] mod_entry_normalised)

lemma remove_lines:
  "m \<noteq> [] \<Longrightarrow> List.map_filter mod_entry (filter (\<lambda>l. \<not> names_mod m l) ls) = filter (\<lambda>x. fst x \<noteq> m) (List.map_filter mod_entry ls)"
  by (induction ls) (auto simp: List.map_filter_simps names_mod_iff split: option.splits)

definition set_state :: "string \<Rightarrow> bool \<Rightarrow> string \<times> bool \<Rightarrow> string \<times> bool" where
  "set_state m enable x = (fst x, if fst x = m then enable else snd x)"

text \<open>A line written for a mod reads as that mod.\<close>

lemma mod_entry_new:
  assumes "strip m = m" "m \<noteq> []" "p = CHR ''+'' \<or> p = CHR ''-''"
  shows "mod_entry (p # m @ [NEWLINE]) = Some (m, p = CHR ''+'')"
proof -
  have "strip ((p # m) @ [NEWLINE]) = strip (p # m)" by (rule strip_append_space) (simp add: space_newline)
  also have "\<dots> = p # m"
    using assms strip_last[OF assms(1,2)] by (intro strip_id) (auto simp: is_space_def code_def)
  finally show ?thesis using assms by (auto simp: mod_entry_def Let_def)
qed

lemma mod_entry_toggled:
  assumes "m \<noteq> []"
  shows "mod_entry (toggled_line m (if enable then CHR ''+'' else CHR ''-'') l) = map_option (set_state m enable) (mod_entry l)"
proof (cases "names_mod m l")
  case True
  then obtain b where b: "mod_entry l = Some (m, b)" using assms names_mod_iff by blast
  have m: "strip m = m" using True by (auto simp: names_mod_def Let_def)
  have hd: "hd (strip l) = (if b then CHR ''+'' else CHR ''-'')"
    using b by (auto simp: mod_entry_def Let_def split: if_splits)
  show ?thesis using True b assms mod_entry_new[OF m assms]
    by (auto simp: toggled_line_def hd set_state_def)
next
  case False
  then have "mod_entry l = Some x \<Longrightarrow> fst x \<noteq> m" for x using assms names_mod_iff by (metis prod.collapse)
  then show ?thesis using False by (cases "mod_entry l") (auto simp: toggled_line_def set_state_def)
qed

lemma toggle_lines:
  "m \<noteq> [] \<Longrightarrow> List.map_filter mod_entry (map (toggled_line m (if enable then CHR ''+'' else CHR ''-'')) ls)
    = map (set_state m enable) (List.map_filter mod_entry ls)"
  by (induction ls) (auto simp: List.map_filter_simps mod_entry_toggled split: option.splits)

section \<open>Properties\<close>

lemma safe_component: "assert_safe_component (Some m) = Inr x \<Longrightarrow> x = m \<and> m \<noteq> [] \<and> NEWLINE \<notin> set m"
  by (auto simp: assert_safe_component_def list_ex_iff NEWLINE_def code_def split: if_splits)

lemma targetD:
  assumes "modlist_target check base m profile = Inr p"
  shows "m \<noteq> []" and "NEWLINE \<notin> set m" and "modlist_path check base profile = Inr p"
  using assms safe_component by (auto simp: modlist_target_def split: sum.splits)

lemma target_path: "modlist_path check base profile = Inr p \<Longrightarrow> dget fs p = Some f
    \<Longrightarrow> read_modlist check base profile fs = Inr (mods_of (file_text f))"
  by (simp add: read_modlist_def)

lemma unchanged: "map (set_state m e) xs = xs" if "\<forall>x \<in> set xs. fst x = m \<longrightarrow> snd x = e"
  using that by (induction xs) (auto simp: set_state_def)

lemma map_filter_names: "m \<noteq> [] \<Longrightarrow> list_ex (names_mod m) ls \<longleftrightarrow> m \<in> fst ` set (List.map_filter mod_entry ls)"
  by (induction ls) (auto simp: List.map_filter_simps names_mod_iff image_iff split: option.splits)

text \<open>
  A mod added to a list whose last line is finished is read back enabled at its end, the other mods
  unchanged; a mod that is in the list already changes nothing, and no other file is touched.
\<close>

theorem added_mod_is_read_back:
  assumes "add_mod_to_modlist check has_dir base m profile fs = Inr fs'" and "strip m = m"
    and "read_modlist check base profile fs = Inr xs" and "modlist_path check base profile = Inr p"
    and "\<And>f. dget fs p = Some f \<Longrightarrow> finished (file_text f)"
  shows "read_modlist check base profile fs' = Inr (if m \<in> fst ` set xs then xs else xs @ [(m, True)])
    \<and> (\<forall>q. q \<noteq> p \<longrightarrow> dget fs' q = dget fs q)"
proof -
  have t: "modlist_target check base m profile = Inr p"
    using assms(1,4) by (auto simp: add_mod_to_modlist_def modlist_target_def split: sum.splits)
  obtain f where f: "dget fs p = Some f" and xs: "xs = mods_of (file_text f)"
    using assms(3,4) by (auto simp: read_modlist_def split: option.splits)
  note m = targetD[OF t]
  have "mods_of (CHR ''+'' # m @ [NEWLINE]) = [(m, True)]"
    using file_lines_line[of "CHR ''+'' # m" "[]"] m(2) mod_entry_new[OF assms(2) m(1), of "CHR ''+''"]
    by (simp add: mods_of_def List.map_filter_simps)
  then have new: "mods_of (file_text f @ CHR ''+'' # m @ [NEWLINE]) = xs @ [(m, True)]"
    using mods_of_append[OF assms(5)[OF f]] xs by simp
  have known: "list_ex (names_mod m) (file_lines (file_text f)) \<longleftrightarrow> m \<in> fst ` set xs"
    unfolding xs mods_of_def by (rule map_filter_names[OF m(1)])
  show ?thesis
  proof (cases "m \<in> fst ` set xs")
    case True
    then show ?thesis using assms(1,3) t f known by (simp add: add_mod_to_modlist_def)
  next
    case False
    then have "fs' = dset p (f\<lparr>file_text := file_text f @ CHR ''+'' # m @ [NEWLINE]\<rparr>) fs"
      using assms(1) t f known by (simp add: add_mod_to_modlist_def)
    then show ?thesis using False new m(3) by (simp add: read_modlist_def)
  qed
qed

text \<open>
  C39: toggling sets the state of every entry of the mod and removing drops all its entries, whatever
  else the file holds; order and state of the other mods stay, and no other file is touched.
\<close>

theorem edited_modlist_is_read_back:
  assumes "read_modlist check base profile fs = Inr xs" and "modlist_path check base profile = Inr p"
    and "assert_safe_component (Some m) = Inr m"
  shows "\<exists>fs1 fs2. toggle_mod_in_modlist check base m profile enable fs = Inr fs1
    \<and> read_modlist check base profile fs1 = Inr (map (set_state m enable) xs)
    \<and> remove_mod_from_modlist check base m profile fs = Inr fs2
    \<and> read_modlist check base profile fs2 = Inr (filter (\<lambda>x. fst x \<noteq> m) xs)
    \<and> (\<forall>q. q \<noteq> p \<longrightarrow> dget fs1 q = dget fs q \<and> dget fs2 q = dget fs q)"
proof -
  have t: "modlist_target check base m profile = Inr p" using assms(2,3) by (simp add: modlist_target_def)
  note m = targetD[OF t]
  obtain f where f: "dget fs p = Some f" and xs: "xs = List.map_filter mod_entry (file_lines (file_text f))"
    using assms(1,2) by (auto simp: read_modlist_def mods_of_def split: option.splits)
  let ?ls = "file_lines (file_text f)" and ?c = "if enable then CHR ''+'' else CHR ''-''"
  have good: "list_all good_line ?ls" by (rule good_file_lines)
  have hd: "mod_entry l = Some x \<Longrightarrow> snd x \<noteq> enable \<longleftrightarrow> hd (strip l) \<noteq> ?c" for l x
    by (auto simp: mod_entry_def Let_def split: if_splits)
  have toggle: "\<exists>fs1. toggle_mod_in_modlist check base m profile enable fs = Inr fs1
    \<and> read_modlist check base profile fs1 = Inr (map (set_state m enable) xs) \<and> (\<forall>q. q \<noteq> p \<longrightarrow> dget fs1 q = dget fs q)"
  proof (cases "list_ex (\<lambda>l. names_mod m l \<and> hd (strip l) \<noteq> ?c) ?ls")
    case True
    have g: "list_all good_line (map (toggled_line m ?c) ?ls)"
      using good m(2) by (auto simp: list_all_iff toggled_line_def good_line_def butlast_append)
    have "toggle_mod_in_modlist check base m profile enable fs
        = Inr (dset p (write_modlist_atomic (map (toggled_line m ?c) ?ls)) fs)"
      unfolding toggle_mod_in_modlist_def t using f True by (simp only: sum.case option.case Let_def if_True)
    then show ?thesis using m(3) mods_of_written[OF g] toggle_lines[OF m(1), of enable ?ls]
      by (simp add: read_modlist_def xs)
  next
    case False
    have "\<forall>x \<in> set xs. fst x = m \<longrightarrow> snd x = enable"
      using False hd names_mod_iff[OF m(1)] unfolding xs List.map_filter_def list_ex_iff by fastforce
    then show ?thesis using False t f assms(1)
      by (simp add: toggle_mod_in_modlist_def Let_def unchanged)
  qed
  have remove: "\<exists>fs2. remove_mod_from_modlist check base m profile fs = Inr fs2
    \<and> read_modlist check base profile fs2 = Inr (filter (\<lambda>x. fst x \<noteq> m) xs) \<and> (\<forall>q. q \<noteq> p \<longrightarrow> dget fs2 q = dget fs q)"
  proof (cases "list_ex (names_mod m) ?ls")
    case True
    have g: "list_all good_line (filter (\<lambda>l. \<not> names_mod m l) ?ls)" using good by (auto simp: list_all_iff)
    show ?thesis using True t f m(3)
      by (simp add: remove_mod_from_modlist_def Let_def read_modlist_def mods_of_written[OF g] remove_lines[OF m(1)] xs)
  next
    case False
    then have "filter (\<lambda>x. fst x \<noteq> m) xs = xs"
      unfolding map_filter_names[OF m(1)] xs by (auto simp: filter_id_conv)
    then show ?thesis using False t f assms(1) by (simp add: remove_mod_from_modlist_def Let_def)
  qed
  show ?thesis using toggle remove by blast
qed

text \<open>
  Adding to a list whose last line is not finished loses a mod: the new line is glued to the last
  entry, which then names another mod, and the mod added is not in the list.
\<close>

theorem unfinished_line_swallows_mod:
  assumes "modlist_target check base m profile = Inr p" and "dget fs p = Some f"
    and "file_text f = t @ c # a" and "finished t" and "c = CHR ''+'' \<or> c = CHR ''-''"
    and "NEWLINE \<notin> set a" and "a \<noteq> []" and "strip a = a" and "strip m = m" and "m \<notin> fst ` set (mods_of (file_text f))"
  shows "\<exists>fs'. add_mod_to_modlist check has_dir base m profile fs = Inr fs'
    \<and> read_modlist check base profile fs = Inr (mods_of t @ [(a, c = CHR ''+'')])
    \<and> read_modlist check base profile fs' = Inr (mods_of t @ [(a @ CHR ''+'' # m, c = CHR ''+'')])"
proof -
  note m = targetD[OF assms(1)]
  have c: "c \<noteq> NEWLINE" "\<not> is_space c" using assms(5) by (auto simp: is_space_def code_def)
  have la: "file_lines (c # a) = [c # a]" by (rule file_lines_last) (use c assms(6) in auto)
  have ends: "\<not> is_space (last a)" "\<not> is_space (last m)" using assms(7-9) m(1) strip_last by auto
  have "strip (c # a) = c # a" using c ends assms(7) by (intro strip_id) auto
  then have ea: "mod_entry (c # a) = Some (a, c = CHR ''+'')" using assms(5,7,8) by (auto simp: mod_entry_def Let_def)
  let ?b = "a @ CHR ''+'' # m"
  have "\<not> is_space (hd a)" using assms(7,8) strip_ends by metis
  then have sb: "strip ?b = ?b" using assms(7) ends m(1) by (intro strip_id) auto
  have "file_lines ((c # ?b) @ NEWLINE # []) = [(c # ?b) @ [NEWLINE]]"
    using file_lines_line[of "c # ?b" "[]"] c assms(6) m(2) by auto
  then have "mods_of ((c # a) @ CHR ''+'' # m @ [NEWLINE]) = [(?b, c = CHR ''+'')]"
    using mod_entry_new[OF sb _ assms(5)] by (simp add: mods_of_def List.map_filter_simps)
  moreover have "mods_of (c # a) = [(a, c = CHR ''+'')]" using la ea by (simp add: mods_of_def List.map_filter_simps)
  moreover have "\<not> list_ex (names_mod m) (file_lines (file_text f))"
    using assms(10) map_filter_names[OF m(1)] by (simp add: mods_of_def)
  ultimately show ?thesis using assms(1-3) m(3) mods_of_append[OF assms(4)]
    by (simp add: add_mod_to_modlist_def read_modlist_def)
qed

section \<open>Instances\<close>

definition demo_list :: "string \<Rightarrow> files" where
  "demo_list t = [([''profiles'', ''D'', ''modlist.txt''], \<lparr>bom = True, file_text = t\<rparr>)]"

abbreviation demo_path :: parts where
  "demo_path \<equiv> [''profiles'', ''D'', ''modlist.txt'']"

lemma demo_reads:
  "read_modlist Inr [] ''D'' (demo_list (''+A'' @ [NEWLINE])) = Inr [(''A'', True)]"
  "modlist_path Inr [] ''D'' = Inr demo_path"
  "assert_safe_component (Some ''B'') = Inr ''B''"
  by code_simp+

lemma demo_add:
  "add_mod_to_modlist Inr (\<lambda>d. True) [] ''B'' ''D'' (demo_list (''+A'' @ [NEWLINE]))
    = Inr (demo_list (''+A'' @ [NEWLINE] @ ''+B'' @ [NEWLINE]))"
  by code_simp

theorem added_mod_is_read_back_witness:
  "read_modlist Inr [] ''D'' (demo_list (''+A'' @ [NEWLINE] @ ''+B'' @ [NEWLINE])) = Inr [(''A'', True), (''B'', True)]"
proof -
  have "strip ''B'' = ''B''" by code_simp
  moreover have "dget (demo_list (''+A'' @ [NEWLINE])) demo_path = Some f \<Longrightarrow> finished (file_text f)" for f
    by (auto simp: demo_list_def finished_def)
  ultimately show ?thesis using added_mod_is_read_back[OF demo_add _ demo_reads(1,2)] by simp
qed

theorem edited_modlist_is_read_back_witness:
  "\<exists>fs1. toggle_mod_in_modlist Inr [] ''A'' ''D'' False (demo_list (''+A'' @ [NEWLINE])) = Inr fs1
    \<and> read_modlist Inr [] ''D'' fs1 = Inr [(''A'', False)]"
proof -
  have "assert_safe_component (Some ''A'') = Inr ''A''" by code_simp
  from edited_modlist_is_read_back[OF demo_reads(1,2) this, of False] show ?thesis by (auto simp: set_state_def)
qed

theorem unfinished_line_swallows_mod_witness:
  "\<exists>fs'. add_mod_to_modlist Inr (\<lambda>d. True) [] ''B'' ''D'' (demo_list ''+A'') = Inr fs'
    \<and> read_modlist Inr [] ''D'' fs' = Inr [(''A+B'', True)]"
proof -
  have "modlist_target Inr [] ''B'' ''D'' = Inr demo_path" "strip ''A'' = ''A''" "strip ''B'' = ''B''"
    "dget (demo_list ''+A'') demo_path = Some \<lparr>bom = True, file_text = ''+A''\<rparr>"
    "mods_of ''+A'' = [(''A'', True)]" "mods_of [] = []" "NEWLINE \<notin> set ''A''" by code_simp+
  then show ?thesis
    using unfinished_line_swallows_mod[of Inr "[]" "''B''" "''D''" demo_path "demo_list ''+A''" "\<lparr>bom = True, file_text = ''+A''\<rparr>"
        "[]" "CHR ''+''" "''A''" "\<lambda>d. True"]
    by (auto simp: finished_def)
qed

end
