(* ===== verification/Sync_Engine.thy ===== *)
theory Sync_Engine
  imports Step_System Json_Values Circuit_Breakers Mod_Registry Modlist
begin

text \<open>
  The load order synchronisation of \<open>sky_claw/antigravity/orchestrator/sync_engine.py\<close>: the metadata fetch with
  its retries, the batches, and the producer and worker tasks of \<open>SyncEngine.run\<close> around their bounded
  queue.  The tasks interleave at their awaits: an action is what one of them does between two of them.
  Tracing spans and metrics counters for observability are left out.
\<close>

section \<open>Configuration and results\<close>

record sync_config =
  worker_count :: int
  batch_size :: int
  queue_maxsize :: int

definition default_sync_config :: sync_config where
  "default_sync_config = \<lparr>worker_count = 4, batch_size = 20, queue_maxsize = 50\<rparr>"

record sync_result =
  processed :: nat
  failed :: nat
  skipped :: nat
  sync_errors :: "string list"

definition no_result :: sync_result where
  "no_result = \<lparr>processed = 0, failed = 0, skipped = 0, sync_errors = []\<rparr>"

text \<open>What ends the whole run: the exceptions no handler of the engine expects.\<close>

datatype crash =
    Bad_Value
  | Fetch_Crash fetch_error
  | Write_Failed registry_error
  | Put_Timed_Out
  | Modlist_Failed modlist_error
  | Meta_Failed string

text \<open>
  What surrounds the engine: the \<open>modid\<close> option of the General section of a mod's \<open>meta.ini\<close> (\<open>None\<close> where
  there is no such file or option, or it cannot be read; an exception of another kind is \<open>Inl\<close>), the number a float's text stands for, and the
  message of \<open>CircuitOpenError\<close>.
\<close>

record sync_env =
  meta_modid :: "string \<Rightarrow> string + string option"
  float_int :: "string \<Rightarrow> int option"
  circuit_text :: string

section \<open>Fetching with retries\<close>

text \<open>\<open>MasterlistFetchError\<close> (of which \<open>CircuitOpenError\<close> is a subclass), \<open>RetryError\<close>, \<open>ClientError\<close>.\<close>

fun expected :: "fetch_error \<Rightarrow> bool" where
  "expected Circuit_Open = True"
| "expected (Fetch_Error s) = True"
| "expected (Passed_On (Client_Error s)) = True"
| "expected (Passed_On (Os_Error s)) = False"
| "expected (Passed_On (Other_Error s)) = False"

definition error_text :: "sync_env \<Rightarrow> fetch_error \<Rightarrow> string" where
  "error_text env e =
    (case e of
       Circuit_Open \<Rightarrow> circuit_text env
     | Fetch_Error s \<Rightarrow> s
     | Passed_On (Client_Error s) \<Rightarrow> s
     | Passed_On (Os_Error s) \<Rightarrow> s
     | Passed_On (Other_Error s) \<Rightarrow> s)"

text \<open>
  The \<open>i\<close>-th attempt: its clock readings, the gateway's reply, and what other tasks did to the breaker
  while this one waited before it.
\<close>

record attempt =
  t_ask :: real
  t_fail :: real
  reply :: gateway_reply
  meanwhile :: "fetch_breaker \<Rightarrow> fetch_breaker"

definition MAX_ATTEMPTS :: nat where
  "MAX_ATTEMPTS = 5"

text \<open>\<open>wait_exponential(multiplier=2, min=2, max=30)\<close> after the attempt \<open>n\<close>, counted from 1.\<close>

definition retry_wait :: "nat \<Rightarrow> real" where
  "retry_wait n = max 2 (min (2 * 2 ^ (n - 1)) 30)"

function fetch_from :: "(nat \<Rightarrow> attempt) \<Rightarrow> int \<Rightarrow> nat \<Rightarrow> fetch_breaker \<Rightarrow> fetch_breaker \<times> (fetch_error + json) \<times> nat" where
  "fetch_from attempts nexus n b =
    (let a = attempts n in
     case fetch_mod_info (meanwhile a b) nexus (t_ask a) (t_fail a) (reply a) of
       (b', Inr info) \<Rightarrow> (b', Inr info, n)
     | (b', Inl e) \<Rightarrow> if expected e \<and> n < MAX_ATTEMPTS then fetch_from attempts nexus (Suc n) b' else (b', Inl e, n))"
  by auto
termination by (relation "measure (\<lambda>(attempts, nexus, n, b). MAX_ATTEMPTS - n)") auto

declare fetch_from.simps [simp del]

text \<open>The last component is the number of attempts.\<close>

definition safe_fetch_info :: "(nat \<Rightarrow> attempt) \<Rightarrow> int \<Rightarrow> fetch_breaker \<Rightarrow> fetch_breaker \<times> (fetch_error + json) \<times> nat" where
  "safe_fetch_info attempts nexus b = fetch_from attempts nexus 1 b"

section \<open>One mod\<close>

definition extract_nexus_id :: "sync_env \<Rightarrow> string \<Rightarrow> crash + int option" where
  "extract_nexus_id env name =
    (case assert_safe_component (Some name) of
       Inl _ \<Rightarrow> Inr None
     | Inr _ \<Rightarrow>
        (case find (\<lambda>s. isdigit s \<and> 2 \<le> length s) (map strip (split_on (CHR ''-'') name)) of
           Some s \<Rightarrow> (case str_int s of Some n \<Rightarrow> Inr (Some n) | None \<Rightarrow> Inl Bad_Value)
         | None \<Rightarrow>
            (case meta_modid env name of
               Inl e \<Rightarrow> Inl (Meta_Failed e)
             | Inr None \<Rightarrow> Inr None
             | Inr (Some modid) \<Rightarrow>
                 if isdigit modid \<and> modid \<noteq> ''0''
                 then (case str_int modid of Some n \<Rightarrow> Inr (Some n) | None \<Rightarrow> Inl Bad_Value)
                 else Inr None)))"

definition field_text :: "(string \<times> json) list \<Rightarrow> string \<Rightarrow> string \<Rightarrow> string" where
  "field_text d k dflt = (case dget d k of None \<Rightarrow> dflt | Some v \<Rightarrow> py_str v)"

text \<open>The row of a mod from its metadata; \<open>Inr None\<close> when they are empty or name no mod.\<close>

definition mod_values_of :: "sync_env \<Rightarrow> string \<Rightarrow> bool \<Rightarrow> json \<Rightarrow> crash + mod_values option" where
  "mod_values_of env name enabled info =
    (if \<not> truthy info then Inr None
     else case info of
       JDict d \<Rightarrow>
        (case dget d ''mod_id'' of
           None \<Rightarrow> Inr None
         | Some v \<Rightarrow>
            (case py_int (float_int env) v of
               None \<Rightarrow> Inl Bad_Value
             | Some n \<Rightarrow> Inr (Some \<lparr>v_nexus = n, v_name = field_text d ''name'' name, v_version = field_text d ''version'' [],
                 v_author = field_text d ''author'' [], v_category = field_text d ''category_id'' [],
                 v_url = field_text d ''download_url'' [], v_installed = True, v_enabled = enabled\<rparr>)))
     | JStr s \<Rightarrow> if sublist ''mod_id'' s then Inl Bad_Value else Inr None
     | JList xs \<Rightarrow> if JStr ''mod_id'' \<in> set xs then Inl Bad_Value else Inr None
     | _ \<Rightarrow> Inl Bad_Value)"

type_synonym log_row = "nat option \<times> string \<times> string \<times> string"

text \<open>The loop body of \<open>_process_batch_inner\<close>, given the outcome of the fetch.\<close>

definition sync_mod ::
  "sync_env \<Rightarrow> string \<times> bool \<Rightarrow> fetch_error + json \<Rightarrow> sync_result \<Rightarrow> mod_values list \<Rightarrow> log_row list \<Rightarrow>
   crash + sync_result \<times> mod_values list \<times> log_row list" where
  "sync_mod env m fetched res rows logs =
    (case extract_nexus_id env (fst m) of
       Inl c \<Rightarrow> Inl c
     | Inr None \<Rightarrow> Inr (res\<lparr>skipped := skipped res + 1\<rparr>, rows, logs)
     | Inr (Some _) \<Rightarrow>
        (case fetched of
           Inl e \<Rightarrow>
             if expected e then
               (let line = fst m @ '': '' @ error_text env e in
                Inr (res\<lparr>failed := failed res + 1, sync_errors := sync_errors res @ [line]\<rparr>, rows,
                     logs @ [(None, ''sync'', ''error'', line)]))
             else Inl (Fetch_Crash e)
         | Inr info \<Rightarrow>
            (case mod_values_of env (fst m) (snd m) info of
               Inl c \<Rightarrow> Inl c
             | Inr None \<Rightarrow> Inr (res\<lparr>skipped := skipped res + 1\<rparr>, rows, logs)
             | Inr (Some v) \<Rightarrow> Inr (res\<lparr>processed := processed res + 1\<rparr>, rows @ [v], logs @ [(None, ''sync'', ''ok'', fst m)]))))"

section \<open>The statements after a batch\<close>

datatype db_write = Write_Mods "mod_values list" | Write_Logs "log_row list" | Write_Commit

definition task_of :: "string \<Rightarrow> log_row \<Rightarrow> task_row" where
  "task_of now l = (case l of (i, a, s, d) \<Rightarrow> \<lparr>task_mod_id = i, action = a, task_status = s, detail = d, logged_at = now\<rparr>)"

text \<open>\<open>upsert_mods_batch\<close> and \<open>log_tasks_batch\<close>, cut at their awaits; neither does anything for no rows.\<close>

definition batch_writes :: "mod_values list \<Rightarrow> log_row list \<Rightarrow> db_write list" where
  "batch_writes rows logs =
    (if rows = [] then [] else [Write_Mods rows, Write_Commit]) @ (if logs = [] then [] else [Write_Logs logs, Write_Commit])"

definition do_write :: "bool \<Rightarrow> string \<Rightarrow> db_write \<Rightarrow> database \<Rightarrow> database \<times> bool" where
  "do_write burn now w db =
    (case w of
       Write_Mods vs \<Rightarrow> execute_many (upsert_batch_sql burn now) vs db
     | Write_Logs ls \<Rightarrow> execute_many log_task_sql (map (task_of now) ls) db
     | Write_Commit \<Rightarrow> (commit db, True))"

section \<open>The tasks\<close>

type_synonym batch = "(string \<times> bool) list"

text \<open>A poisoning producer has \<open>n\<close> pills left and then raises the exception, if any, that stopped it.\<close>

datatype producer = Reading batch | Putting batch | Poisoning nat "crash option" | Produced

datatype worker =
    Waiting
  | Handling batch batch "mod_values list" "log_row list"
  | Saving batch "db_write list"
  | Finished

record sync_run =
  source :: batch
  source_error :: "crash option"
  producer :: producer
  queue :: "batch option list"
  workers :: "worker list"
  result :: sync_result
  store :: "database option"
  crashed :: "crash option"

definition sync_start :: "sync_config \<Rightarrow> modlist_error + batch \<Rightarrow> database option \<Rightarrow> sync_run" where
  "sync_start cfg modlist db =
    \<lparr>source = (case modlist of Inl _ \<Rightarrow> [] | Inr ms \<Rightarrow> ms),
     source_error = (case modlist of Inl e \<Rightarrow> Some (Modlist_Failed e) | Inr _ \<Rightarrow> None),
     producer = Reading [], queue = [], workers = replicate (nat (worker_count cfg)) Waiting,
     result = no_result, store = db, crashed = None\<rparr>"

definition queue_full :: "sync_config \<Rightarrow> sync_run \<Rightarrow> bool" where
  "queue_full cfg s \<longleftrightarrow> queue_maxsize cfg > 0 \<and> queue_maxsize cfg \<le> int (length (queue s))"

definition poisoning :: "sync_config \<Rightarrow> crash option \<Rightarrow> producer" where
  "poisoning cfg e = Poisoning (nat (worker_count cfg)) e"

definition produce :: "sync_config \<Rightarrow> sync_run \<Rightarrow> sync_run option" where
  "produce cfg s =
    (case producer s of
       Reading b \<Rightarrow>
        (case source s of
           m # ms \<Rightarrow>
             (let b' = b @ [m] in
              Some (s\<lparr>source := ms, producer := (if int (length b') \<ge> batch_size cfg then Putting b' else Reading b')\<rparr>))
         | [] \<Rightarrow>
            (case source_error s of
               Some c \<Rightarrow> Some (s\<lparr>producer := poisoning cfg (Some c)\<rparr>)
             | None \<Rightarrow> Some (s\<lparr>producer := (if b \<noteq> [] then Putting b else poisoning cfg None)\<rparr>)))
     | Putting b \<Rightarrow> if queue_full cfg s then None else Some (s\<lparr>queue := queue s @ [Some b], producer := Reading []\<rparr>)
     | Poisoning (Suc n) e \<Rightarrow> if queue_full cfg s then None else Some (s\<lparr>queue := queue s @ [None], producer := Poisoning n e\<rparr>)
     | Poisoning 0 e \<Rightarrow> Some (s\<lparr>producer := Produced, crashed := e\<rparr>)
     | Produced \<Rightarrow> None)"

text \<open>\<open>wait_for(queue.put(...))\<close> runs out of time.\<close>

definition put_timeout :: "sync_config \<Rightarrow> sync_run \<Rightarrow> sync_run option" where
  "put_timeout cfg s =
    (if \<not> queue_full cfg s then None
     else case producer s of
       Putting b \<Rightarrow> Some (s\<lparr>producer := poisoning cfg (Some Put_Timed_Out)\<rparr>)
     | Poisoning (Suc n) e \<Rightarrow> Some (s\<lparr>crashed := Some Put_Timed_Out\<rparr>)
     | _ \<Rightarrow> None)"

definition set_worker :: "nat \<Rightarrow> worker \<Rightarrow> sync_run \<Rightarrow> sync_run" where
  "set_worker i w s = s\<lparr>workers := (workers s)[i := w]\<rparr>"

definition saving :: "batch \<Rightarrow> db_write list \<Rightarrow> worker" where
  "saving b ws = (if ws = [] then Waiting else Saving b ws)"

definition handling :: "batch \<Rightarrow> batch \<Rightarrow> mod_values list \<Rightarrow> log_row list \<Rightarrow> worker" where
  "handling b todo rows logs = (if todo = [] then saving b (batch_writes rows logs) else Handling b todo rows logs)"

text \<open>The handlers of \<open>_consume\<close>: an expected exception fails the whole batch, another one the whole run.\<close>

definition batch_raises :: "nat \<Rightarrow> batch \<Rightarrow> crash \<Rightarrow> sync_run \<Rightarrow> sync_run" where
  "batch_raises i b c s =
    (case c of
       Fetch_Crash e \<Rightarrow>
         if expected e then (set_worker i Waiting s)\<lparr>result := (result s)\<lparr>failed := failed (result s) + length b\<rparr>\<rparr>
         else s\<lparr>crashed := Some c\<rparr>
     | _ \<Rightarrow> s\<lparr>crashed := Some c\<rparr>)"

definition take_batch :: "nat \<Rightarrow> sync_run \<Rightarrow> sync_run option" where
  "take_batch i s =
    (if i < length (workers s) \<and> workers s ! i = Waiting then
       (case queue s of
          [] \<Rightarrow> None
        | None # q \<Rightarrow> Some (set_worker i Finished (s\<lparr>queue := q\<rparr>))
        | Some b # q \<Rightarrow> Some (set_worker i (handling b b [] []) (s\<lparr>queue := q\<rparr>)))
     else None)"

definition handle_mod :: "sync_env \<Rightarrow> nat \<Rightarrow> fetch_error + json \<Rightarrow> sync_run \<Rightarrow> sync_run option" where
  "handle_mod env i fetched s =
    (if i < length (workers s) then
       (case workers s ! i of
          Handling b (m # todo) rows logs \<Rightarrow>
            (case sync_mod env m fetched (result s) rows logs of
               Inl c \<Rightarrow> Some (batch_raises i b c s)
             | Inr (res, rows', logs') \<Rightarrow> Some (set_worker i (handling b todo rows' logs') (s\<lparr>result := res\<rparr>)))
        | _ \<Rightarrow> None)
     else None)"

text \<open>A failed statement is rolled back and raises \<open>DatabaseError\<close>; a closed registry raises at once.\<close>

definition save_batch :: "nat \<Rightarrow> bool \<Rightarrow> string \<Rightarrow> sync_run \<Rightarrow> sync_run option" where
  "save_batch i burn now s =
    (if i < length (workers s) then
       (case workers s ! i of
          Saving b (w # ws) \<Rightarrow>
            (case store s of
               None \<Rightarrow> Some (batch_raises i b (Write_Failed Not_Open) s)
             | Some db \<Rightarrow>
                (case do_write burn now w db of
                   (db', True) \<Rightarrow> Some (set_worker i (saving b ws) (s\<lparr>store := Some db'\<rparr>))
                 | (db', False) \<Rightarrow> Some (batch_raises i b (Write_Failed Database_Error) (s\<lparr>store := Some (rollback db')\<rparr>))))
        | _ \<Rightarrow> None)
     else None)"

datatype sync_action =
    Produce
  | Put_Timeout
  | Take nat
  | Handle nat "fetch_error + json"
  | Save nat bool string

text \<open>The first crash cancels every task of the group.\<close>

definition sync_step :: "sync_env \<Rightarrow> sync_config \<Rightarrow> sync_action \<Rightarrow> sync_run \<Rightarrow> sync_run option" where
  "sync_step env cfg a s =
    (if crashed s \<noteq> None then None
     else case a of
       Produce \<Rightarrow> produce cfg s
     | Put_Timeout \<Rightarrow> put_timeout cfg s
     | Take i \<Rightarrow> take_batch i s
     | Handle i fetched \<Rightarrow> handle_mod env i fetched s
     | Save i burn now \<Rightarrow> save_batch i burn now s)"

text \<open>\<open>run\<close> has returned its result, or has raised.\<close>

definition completed :: "sync_run \<Rightarrow> bool" where
  "completed s \<longleftrightarrow> crashed s = None \<and> producer s = Produced \<and> list_all (\<lambda>w. w = Finished) (workers s)"

definition ended :: "sync_run \<Rightarrow> bool" where
  "ended s \<longleftrightarrow> crashed s \<noteq> None \<or> completed s"

end
