(* ===== verification/Sync_Run.thy ===== *)
theory Sync_Run
  imports Sync_Engine
begin

text \<open>
  What holds of every run of the synchronisation: it is bounded and never stuck, each worker gets its pill
  after the last batch, and a run that returns has counted every mod once and committed what it wrote.
\<close>

section \<open>The work left\<close>

lemma sum_list_update_nat:
  fixes f :: "'a \<Rightarrow> nat"
  shows "i < length xs \<Longrightarrow> sum_list (map f (xs[i := y])) + f (xs ! i) = sum_list (map f xs) + f y"
proof (induction xs arbitrary: i)
  case (Cons x xs)
  then show ?case by (cases i) auto
qed simp

text \<open>How many steps are left at most.\<close>

fun worker_work :: "worker \<Rightarrow> nat" where
  "worker_work Waiting = 0"
| "worker_work (Handling b todo rows logs) = length todo + 4"
| "worker_work (Saving b ws) = length ws"
| "worker_work Finished = 0"

fun entry_work :: "batch option \<Rightarrow> nat" where
  "entry_work None = 1"
| "entry_work (Some b) = length b + 5"

fun producer_work :: "nat \<Rightarrow> nat \<Rightarrow> producer \<Rightarrow> nat" where
  "producer_work wc n (Reading b) = 9 * n + 8 * length b + 2 * wc + 2"
| "producer_work wc n (Putting b) = 9 * n + length b + 6 + 2 * wc + 2"
| "producer_work wc n (Poisoning k e) = 2 * k + 1"
| "producer_work wc n Produced = 0"

definition sync_work :: "sync_config \<Rightarrow> sync_run \<Rightarrow> nat" where
  "sync_work cfg s = (if crashed s \<noteq> None then 0 else
     Suc (producer_work (nat (worker_count cfg)) (length (source s)) (producer s)
      + sum_list (map entry_work (queue s)) + sum_list (map worker_work (workers s))))"

lemma set_worker_simps [simp]:
  "workers (set_worker i w s) = (workers s)[i := w]" "source (set_worker i w s) = source s" "source_error (set_worker i w s) = source_error s"
  "producer (set_worker i w s) = producer s" "queue (set_worker i w s) = queue s" "result (set_worker i w s) = result s"
  "store (set_worker i w s) = store s" "crashed (set_worker i w s) = crashed s"
  by (simp_all add: set_worker_def)

lemma saving_work: "worker_work (saving b ws) = length ws"
  by (simp add: saving_def)

lemma batch_writes_length: "length (batch_writes rows logs) \<le> 4"
  by (simp add: batch_writes_def)

lemma handling_work: "worker_work (handling b todo rows logs) \<le> length todo + 4"
  using batch_writes_length by (simp add: handling_def saving_work)

lemma set_worker_work:
  assumes "i < length (workers s)" "crashed s = None" "worker_work w + x < worker_work (workers s ! i) + y"
    and "producer t = producer s" "source t = source s" "sum_list (map entry_work (queue t)) + y = sum_list (map entry_work (queue s)) + x"
      "workers t = (workers s)[i := w]" "crashed t = None"
  shows "sync_work cfg t < sync_work cfg s"
  using sum_list_update_nat[OF assms(1), of worker_work w] assms by (simp add: sync_work_def)

lemma produce_work:
  assumes "produce cfg s = Some t" "crashed s = None"
  shows "sync_work cfg t < sync_work cfg s"
  using assms by (auto simp: neq_Nil_conv produce_def poisoning_def sync_work_def Let_def split: producer.splits list.splits option.splits nat.splits if_splits)

lemma put_timeout_work:
  assumes "put_timeout cfg s = Some t" "crashed s = None"
  shows "sync_work cfg t < sync_work cfg s"
  using assms by (auto simp: put_timeout_def poisoning_def sync_work_def split: producer.splits nat.splits if_splits)

lemma sync_work_pos: "crashed s = None \<Longrightarrow> 0 < sync_work cfg s" "crashed s \<noteq> None \<Longrightarrow> sync_work cfg s = 0"
  by (simp_all add: sync_work_def)

lemma batch_raises_crashes:
  "crashed s = None \<Longrightarrow> crashed (batch_raises i b c s) = (case c of Fetch_Crash e \<Rightarrow> if expected e then None else Some c | _ \<Rightarrow> Some c)"
  by (auto simp: batch_raises_def split: crash.split)


text \<open>The outer handler of \<open>_consume\<close> never sees an exception it expects: they are handled mod by mod.\<close>

lemma extract_crash: "extract_nexus_id env n \<noteq> Inl (Fetch_Crash e)"
  by (auto simp: extract_nexus_id_def split: sum.splits option.splits)

lemma values_crash: "mod_values_of env n en info \<noteq> Inl (Fetch_Crash e)"
  by (auto simp: mod_values_of_def split: json.splits option.splits)

lemma sync_mod_crash: "sync_mod env m fetched res rows logs = Inl c \<Longrightarrow> crashed s = None \<Longrightarrow> crashed (batch_raises i b c s) = Some c"
  by (auto simp: sync_mod_def Let_def batch_raises_crashes extract_crash values_crash split: sum.splits option.splits if_splits crash.splits)

text \<open>What a step that does not crash does to the workers.\<close>

lemma take_batch_cases:
  assumes "take_batch i s = Some t"
  obtains q where "queue s = None # q" "t = set_worker i Finished (s\<lparr>queue := q\<rparr>)" "i < length (workers s)" "workers s ! i = Waiting"
  | b q where "queue s = Some b # q" "t = set_worker i (handling b b [] []) (s\<lparr>queue := q\<rparr>)" "i < length (workers s)" "workers s ! i = Waiting"
  using assms by (auto simp: take_batch_def split: if_splits list.splits option.splits)

lemma handle_mod_cases:
  assumes "handle_mod env i fetched s = Some t" "crashed s = None"
  obtains c where "crashed t = Some c"
  | b m todo rows logs res rows' logs' where "i < length (workers s)" "workers s ! i = Handling b (m # todo) rows logs"
      "sync_mod env m fetched (result s) rows logs = Inr (res, rows', logs')"
      "t = set_worker i (handling b todo rows' logs') (s\<lparr>result := res\<rparr>)"
proof -
  obtain b m todo rows logs where w: "i < length (workers s)" "workers s ! i = Handling b (m # todo) rows logs"
    and t: "t = (case sync_mod env m fetched (result s) rows logs of Inl c \<Rightarrow> batch_raises i b c s
      | Inr (res, rows', logs') \<Rightarrow> set_worker i (handling b todo rows' logs') (s\<lparr>result := res\<rparr>))"
    using assms(1) by (auto simp: handle_mod_def split: if_splits worker.splits list.splits sum.splits)
  show thesis
  proof (cases "sync_mod env m fetched (result s) rows logs")
    case (Inl c)
    then show ?thesis using that(1)[of c] sync_mod_crash[OF Inl assms(2)] t by simp
  next
    case (Inr r)
    then show ?thesis using that(2)[OF w] t by (cases r) auto
  qed
qed

lemma save_batch_cases:
  assumes "save_batch i burn now s = Some t" "crashed s = None"
  obtains c where "crashed t = Some c"
  | b w ws db db' where "i < length (workers s)" "workers s ! i = Saving b (w # ws)" "store s = Some db"
      "do_write burn now w db = (db', True)" "t = set_worker i (saving b ws) (s\<lparr>store := Some db'\<rparr>)"
  using assms by (auto simp: save_batch_def batch_raises_def split: if_splits worker.splits list.splits option.splits prod.splits bool.splits)

lemma sync_step_work:
  assumes "sync_step env cfg a s = Some t"
  shows "sync_work cfg t < sync_work cfg s"
proof -
  have c: "crashed s = None" using assms by (auto simp: sync_step_def split: if_splits)
  note pos = sync_work_pos(1)[OF c, of cfg]
  show ?thesis
  proof (cases a)
    case Produce
    then show ?thesis using assms c by (auto simp: sync_step_def intro: produce_work)
  next
    case Put_Timeout
    then show ?thesis using assms c by (auto simp: sync_step_def intro: put_timeout_work)
  next
    case (Take i)
    then have "take_batch i s = Some t" using assms c by (simp add: sync_step_def)
    then show ?thesis
    proof (cases rule: take_batch_cases)
      case (1 q)
      then show ?thesis using c by (intro set_worker_work[of i s Finished 0 1]) auto
    next
      case (2 b q)
      then show ?thesis using c handling_work[of b b "[]" "[]"]
        by (intro set_worker_work[of i s "handling b b [] []" 0 "length b + 5"]) auto
    qed
  next
    case (Handle i fetched)
    then have h: "handle_mod env i fetched s = Some t" using assms c by (simp add: sync_step_def)
    from h c show ?thesis
    proof (cases rule: handle_mod_cases)
      case (1 k)
      then show ?thesis using pos by (simp add: sync_work_pos)
    next
      case (2 b m todo rows logs res rows' logs')
      then show ?thesis using c handling_work[of b todo rows' logs']
        by (intro set_worker_work[of i s "handling b todo rows' logs'" 0 0]) auto
    qed
  next
    case (Save i burn now)
    then have h: "save_batch i burn now s = Some t" using assms c by (simp add: sync_step_def)
    from h c show ?thesis
    proof (cases rule: save_batch_cases)
      case (1 k)
      then show ?thesis using pos by (simp add: sync_work_pos)
    next
      case (2 b w ws db db')
      then show ?thesis using c by (intro set_worker_work[of i s "saving b ws" 0 0]) (auto simp: saving_work)
    qed
  qed
qed

section \<open>Where every mod is\<close>

definition tally :: "(worker \<Rightarrow> nat) \<Rightarrow> sync_run \<Rightarrow> nat" where
  "tally f s = sum_list (map f (workers s))"

lemma tally_step:
  assumes "i < length (workers s)" "workers t = (workers s)[i := w]" "workers s ! i = v"
  shows "tally f t + f v = tally f s + f w"
  using sum_list_update_nat[OF assms(1), of f w] assms by (simp add: tally_def)

fun in_hand :: "worker \<Rightarrow> nat" where
  "in_hand (Handling b todo rows logs) = length todo"
| "in_hand _ = 0"

fun entry_mods :: "batch option \<Rightarrow> nat" where
  "entry_mods None = 0"
| "entry_mods (Some b) = length b"

fun producer_mods :: "producer \<Rightarrow> nat" where
  "producer_mods (Reading b) = length b"
| "producer_mods (Putting b) = length b"
| "producer_mods _ = 0"

definition counted :: "sync_result \<Rightarrow> nat" where
  "counted r = processed r + failed r + skipped r"

definition accounted :: "sync_run \<Rightarrow> nat" where
  "accounted s = counted (result s) + tally in_hand s + sum_list (map entry_mods (queue s)) + length (source s) + producer_mods (producer s)"

fun giving_up :: "producer \<Rightarrow> bool" where
  "giving_up (Poisoning k (Some c)) = True"
| "giving_up _ = False"

lemma giving_up_iff [simp]: "giving_up (Poisoning k c) \<longleftrightarrow> c \<noteq> None"
  by (cases c) auto

declare giving_up.simps(1) [simp del]

lemma in_hand_handling [simp]: "in_hand (handling b todo rows logs) = length todo" "in_hand (saving b ws) = 0"
  by (simp_all add: handling_def saving_def)

lemma sync_mod_counts:
  "sync_mod env m fetched res rows logs = Inr (res', rows', logs') \<Longrightarrow> counted res' = Suc (counted res)
     \<and> length (sync_errors res') + failed res = length (sync_errors res) + failed res'"
  by (auto simp: sync_mod_def counted_def Let_def split: sum.splits option.splits if_splits)

text \<open>The steps of a run that goes on.\<close>

lemma sync_step_cases:
  assumes "sync_step env cfg a s = Some t"
  obtains (crash) c where "crashed t = Some c"
  | (produce) "produce cfg s = Some t" "crashed s = None"
  | (timeout) "put_timeout cfg s = Some t" "crashed s = None"
  | (pill) i q where "queue s = None # q" "t = set_worker i Finished (s\<lparr>queue := q\<rparr>)" "i < length (workers s)" "workers s ! i = Waiting"
  | (batch) i b q where "queue s = Some b # q" "t = set_worker i (handling b b [] []) (s\<lparr>queue := q\<rparr>)" "i < length (workers s)" "workers s ! i = Waiting"
  | (mod) i fetched b m todo rows logs res rows' logs' where "i < length (workers s)" "workers s ! i = Handling b (m # todo) rows logs"
      "sync_mod env m fetched (result s) rows logs = Inr (res, rows', logs')"
      "t = set_worker i (handling b todo rows' logs') (s\<lparr>result := res\<rparr>)"
  | (save) i burn now b w ws db db' where "i < length (workers s)" "workers s ! i = Saving b (w # ws)" "store s = Some db"
      "do_write burn now w db = (db', True)" "t = set_worker i (saving b ws) (s\<lparr>store := Some db'\<rparr>)"
proof -
  have c: "crashed s = None" using assms by (auto simp: sync_step_def split: if_splits)
  show thesis
  proof (cases a)
    case Produce
    then show ?thesis using assms c that(2) by (simp add: sync_step_def)
  next
    case Put_Timeout
    then show ?thesis using assms c that(3) by (simp add: sync_step_def)
  next
    case (Take i)
    then have "take_batch i s = Some t" using assms c by (simp add: sync_step_def)
    then show ?thesis by (cases rule: take_batch_cases) (rule that(4,5); assumption)+
  next
    case (Handle i fetched)
    then have h: "handle_mod env i fetched s = Some t" using assms c by (simp add: sync_step_def)
    from h c show ?thesis by (cases rule: handle_mod_cases) (rule that(1,6); assumption)+
  next
    case (Save i burn now)
    then have h: "save_batch i burn now s = Some t" using assms c by (simp add: sync_step_def)
    from h c show ?thesis by (cases rule: save_batch_cases) (rule that(1,7); assumption)+
  qed
qed

lemma accounted_step:
  assumes "sync_step env cfg a s = Some t" "crashed t = None" "\<not> giving_up (producer t)" "\<not> giving_up (producer s) \<Longrightarrow> accounted s = n"
  shows "accounted t = n"
  using assms(1)
proof (cases rule: sync_step_cases)
  case (crash c)
  then show ?thesis using assms(2) by simp
next
  case produce
  then show ?thesis using assms(2,3,4)
    by (auto simp: produce_def poisoning_def accounted_def Let_def tally_def split: producer.splits list.splits option.splits nat.splits if_splits)
next
  case timeout
  then show ?thesis using assms(2,3)
    by (auto simp: put_timeout_def poisoning_def accounted_def tally_def split: producer.splits nat.splits if_splits)
next
  case (pill i q)
  then show ?thesis using assms(3,4) tally_step[of i s t Finished Waiting in_hand] by (simp add: accounted_def)
next
  case (batch i b q)
  then show ?thesis using assms(3,4) tally_step[of i s t "handling b b [] []" Waiting in_hand] by (simp add: accounted_def)
next
  case (mod i fetched b m todo rows logs res rows' logs')
  then show ?thesis
    using assms(3,4) tally_step[of i s t "handling b todo rows' logs'" _ in_hand] sync_mod_counts[OF mod(3)]
    by (simp add: accounted_def)
next
  case (save i burn now b w ws db db')
  then show ?thesis using assms(3,4) tally_step[of i s t "saving b ws" _ in_hand] by (simp add: accounted_def)
qed

definition errors_listed :: "sync_run \<Rightarrow> bool" where
  "errors_listed s \<longleftrightarrow> length (sync_errors (result s)) = failed (result s)"

lemma errors_step:
  assumes "sync_step env cfg a s = Some t" "errors_listed s" "crashed t = None"
  shows "errors_listed t"
  using assms(1)
proof (cases rule: sync_step_cases)
  case produce
  then show ?thesis using assms(2)
    by (auto simp: produce_def errors_listed_def Let_def split: producer.splits list.splits option.splits nat.splits if_splits)
next
  case timeout
  then show ?thesis using assms(2) by (auto simp: put_timeout_def errors_listed_def split: producer.splits nat.splits if_splits)
qed (use assms(2,3) in \<open>auto simp: errors_listed_def dest!: sync_mod_counts\<close>)

section \<open>Every worker gets its pill, after the last batch\<close>

fun pills_left :: "nat \<Rightarrow> producer \<Rightarrow> nat" where
  "pills_left wc (Poisoning k e) = k"
| "pills_left wc Produced = 0"
| "pills_left wc _ = wc"

fun closing :: "producer \<Rightarrow> bool" where
  "closing (Poisoning k e) = True"
| "closing Produced = True"
| "closing _ = False"

definition pills :: "batch option list \<Rightarrow> nat" where
  "pills q = length (filter (\<lambda>e. e = None) q)"

definition alive :: "worker \<Rightarrow> nat" where
  "alive w = (if w = Finished then 0 else 1)"

definition orderly :: "sync_config \<Rightarrow> sync_run \<Rightarrow> bool" where
  "orderly cfg s \<longleftrightarrow> length (workers s) = nat (worker_count cfg)
    \<and> pills (queue s) + pills_left (nat (worker_count cfg)) (producer s) = tally alive s
    \<and> (closing (producer s) \<longrightarrow> giving_up (producer s) \<or> source s = [] \<and> source_error s = None)
    \<and> (\<exists>bs k. queue s = map Some bs @ replicate k None \<and> (k > 0 \<or> Finished \<in> set (workers s) \<longrightarrow> closing (producer s))
        \<and> (Finished \<in> set (workers s) \<longrightarrow> bs = []))"

lemma alive_simps [simp]: "alive Finished = 0" "alive Waiting = 1" "alive (Handling b t r l) = 1" "alive (Saving b ws) = 1"
  "alive (saving b ws) = 1" "alive (handling b t r l) = 1"
  by (simp_all add: alive_def saving_def handling_def)

lemma pills_simps [simp]: "pills [] = 0" "pills (None # q) = Suc (pills q)" "pills (Some b # q) = pills q" "pills (q @ r) = pills q + pills r"
  by (simp_all add: pills_def)

lemma pills_replicate [simp]: "pills (map Some bs) = 0" "pills (replicate k None) = k"
  by (simp_all add: pills_def)

lemma not_finished [simp]: "handling b t r l \<noteq> Finished" "saving b ws \<noteq> Finished"
  "Finished \<noteq> handling b t r l" "Finished \<noteq> saving b ws"
  by (simp_all add: saving_def handling_def)

lemma finished_update: "i < length ws \<Longrightarrow> ws ! i \<noteq> Finished \<Longrightarrow> w \<noteq> Finished \<Longrightarrow> Finished \<in> set (ws[i := w]) \<longleftrightarrow> Finished \<in> set ws"
proof -
  assume a: "i < length ws" "ws ! i \<noteq> Finished" "w \<noteq> Finished"
  have "Finished \<in> set ws" if "Finished \<in> set (ws[i := w])" using set_update_subset_insert[of ws i w] that a(3) by blast
  moreover have "Finished \<in> set (ws[i := w])" if f: "Finished \<in> set ws"
  proof -
    obtain j where "j < length ws" "ws ! j = Finished" using f by (metis in_set_conv_nth)
    then have "ws[i := w] ! j = Finished" "j < length (ws[i := w])" using a(2) by (metis nth_list_update_neq, simp)
    then show ?thesis by (metis nth_mem)
  qed
  ultimately show ?thesis by blast
qed

lemma orderly_start: "orderly cfg (sync_start cfg m db)"
proof -
  have "tally alive (sync_start cfg m db) = nat (worker_count cfg)"
    by (simp add: tally_def sync_start_def sum_list_replicate)
  moreover have "queue (sync_start cfg m db) = map Some [] @ replicate 0 None" by (simp add: sync_start_def)
  ultimately show ?thesis unfolding orderly_def by (auto simp: sync_start_def pills_def)
qed

text \<open>The queue as batches and pills, once and for all.\<close>

lemma orderlyE:
  assumes "orderly cfg s"
  obtains bs k where "queue s = map Some bs @ replicate k None" "length (workers s) = nat (worker_count cfg)"
    "k + pills_left (nat (worker_count cfg)) (producer s) = tally alive s"
    "closing (producer s) \<Longrightarrow> giving_up (producer s) \<or> source s = [] \<and> source_error s = None"
    "k > 0 \<or> Finished \<in> set (workers s) \<Longrightarrow> closing (producer s)" "Finished \<in> set (workers s) \<Longrightarrow> bs = []"
proof -
  obtain bs k where "queue s = map Some bs @ replicate k None" "k > 0 \<or> Finished \<in> set (workers s) \<longrightarrow> closing (producer s)"
    "Finished \<in> set (workers s) \<longrightarrow> bs = []"
    using assms unfolding orderly_def by blast
  then show thesis using assms by (intro that[of bs k]) (auto simp: orderly_def)
qed

lemma orderlyI:
  assumes "queue s = map Some bs @ replicate k None" "length (workers s) = nat (worker_count cfg)"
    "k + pills_left (nat (worker_count cfg)) (producer s) = tally alive s"
    "closing (producer s) \<Longrightarrow> giving_up (producer s) \<or> source s = [] \<and> source_error s = None"
    "k > 0 \<or> Finished \<in> set (workers s) \<Longrightarrow> closing (producer s)" "Finished \<in> set (workers s) \<Longrightarrow> bs = []"
  shows "orderly cfg s"
  using assms unfolding orderly_def by (auto intro!: exI[of _ bs] exI[of _ k])

lemma replicate_snoc: "replicate k x @ [x] = replicate (Suc k) x"
  by (simp add: replicate_append_same)

lemma orderly_step:
  assumes "sync_step env cfg a s = Some t" "crashed t = None" "orderly cfg s"
  shows "orderly cfg t"
proof -
  obtain bs k where o: "queue s = map Some bs @ replicate k None" "length (workers s) = nat (worker_count cfg)"
    "k + pills_left (nat (worker_count cfg)) (producer s) = tally alive s"
    "closing (producer s) \<Longrightarrow> giving_up (producer s) \<or> source s = [] \<and> source_error s = None"
    "k > 0 \<or> Finished \<in> set (workers s) \<Longrightarrow> closing (producer s)" "Finished \<in> set (workers s) \<Longrightarrow> bs = []"
    using assms(3) by (rule orderlyE) blast
  have k0: "k = 0" "Finished \<notin> set (workers s)" if "\<not> closing (producer s)"
    using o(5) that neq0_conv by metis+
  have worker: ?thesis if "i < length (workers s)" "workers s ! i \<noteq> Finished" "w \<noteq> Finished"
    "workers t = (workers s)[i := w]" "producer t = producer s" "source t = source s" "source_error t = source_error s"
    "queue t = queue s \<or> (\<exists>b. queue s = Some b # queue t)" for i w
  proof -
    have f: "Finished \<in> set (workers t) \<longleftrightarrow> Finished \<in> set (workers s)"
      using finished_update[OF that(1-3)] that(4) by simp
    have a: "tally alive t = tally alive s"
      using tally_step[OF that(1,4) refl, of alive] that(2,3) by (simp add: alive_def)
    note q = that(8)
    obtain bs' where b: "queue t = map Some bs' @ replicate k None" "bs = [] \<Longrightarrow> bs' = []"
    proof (cases "queue t = queue s")
      case True
      then show thesis using o(1) that[of bs] by simp
    next
      case False
      then obtain b where b: "queue s = Some b # queue t" using q by blast
      then show thesis using o(1) that[of "tl bs"] by (cases bs; cases k) auto
    qed
    show ?thesis by (rule orderlyI[OF b(1)]) (use o f a b(2) that in auto)
  qed
  show ?thesis
    using assms(1)
  proof (cases rule: sync_step_cases)
    case (crash c)
    then show ?thesis using assms(2) by simp
  next
    case produce
    show ?thesis
    proof (cases "producer s")
      case (Reading b)
      then have t: "workers t = workers s" "queue t = queue s"
        "pills_left (nat (worker_count cfg)) (producer t) = nat (worker_count cfg)"
        "closing (producer t) \<Longrightarrow> giving_up (producer t) \<or> source t = [] \<and> source_error t = None"
        using produce by (auto simp: produce_def Let_def poisoning_def split: list.splits option.splits if_splits)
      have k: "k = 0" "Finished \<notin> set (workers s)" using Reading k0 by simp_all
      show ?thesis
        by (rule orderlyI[of t bs 0, OF _ _ _ t(4)]) (use o(1,2,3) k t(1-3) Reading in \<open>simp_all add: tally_def\<close>)
    next
      case (Putting b)
      then have t: "workers t = workers s" "queue t = queue s @ [Some b]" "producer t = Reading []"
        using produce by (auto simp: produce_def split: if_splits)
      have k: "k = 0" "Finished \<notin> set (workers s)" using Putting k0 by simp_all
      show ?thesis
        by (rule orderlyI[of t "bs @ [b]" 0]) (use o(1,2,3) k t Putting in \<open>simp_all add: tally_def\<close>)
    next
      case (Poisoning n e)
      show ?thesis
      proof (cases n)
        case 0
        then have "t = s\<lparr>producer := Produced, crashed := None\<rparr>" "e = None" using produce Poisoning assms(2) by (auto simp: produce_def)
        then show ?thesis using o Poisoning 0 by (intro orderlyI[of t bs k]) (auto simp: tally_def)
      next
        case (Suc n')
        then have "t = s\<lparr>queue := queue s @ [None], producer := Poisoning n' e\<rparr>" using produce Poisoning by (auto simp: produce_def split: if_splits)
        then show ?thesis using o Poisoning Suc by (intro orderlyI[of t bs "Suc k"]) (auto simp: tally_def replicate_append_same)
      qed
    next
      case Produced
      then show ?thesis using produce by (simp add: produce_def)
    qed
  next
    case timeout
    then obtain b where "producer s = Putting b" "t = s\<lparr>producer := poisoning cfg (Some Put_Timed_Out)\<rparr>"
      using assms(2) by (auto simp: put_timeout_def split: producer.splits nat.splits if_splits)
    then show ?thesis using o by (intro orderlyI[of t bs k]) (auto simp: poisoning_def tally_def)
  next
    case (pill i q)
    have bs: "bs = []" "k > 0" "q = replicate (k - 1) None" using pill(1) o(1) by (cases bs; cases k; auto)+
    have "tally alive t + 1 = tally alive s" using tally_step[of i s t Finished Waiting alive] pill by simp
    then show ?thesis using o bs pill by (intro orderlyI[of t "[]" "k - 1"]) auto
  next
    case (batch i b q)
    then show ?thesis by (intro worker[of i "handling b b [] []"]) auto
  next
    case (mod i fetched b m todo rows logs res rows' logs')
    then show ?thesis by (intro worker[of i "handling b todo rows' logs'"]) auto
  next
    case (save i burn now b w ws db db')
    then show ?thesis by (intro worker[of i "saving b ws"]) auto
  qed
qed

section \<open>What a batch writes\<close>

fun paired :: "db_write list \<Rightarrow> bool" where
  "paired [] = True"
| "paired (Write_Commit # ws) = paired ws"
| "paired (w # ws) = (case ws of Write_Commit # ws' \<Rightarrow> paired ws' | _ \<Rightarrow> False)"

fun shaped :: "worker \<Rightarrow> bool" where
  "shaped (Handling b todo rows logs) = (todo \<noteq> [])"
| "shaped (Saving b ws) = (ws \<noteq> [] \<and> paired ws)"
| "shaped _ = True"

lemma paired_tl: "paired (w # ws) \<Longrightarrow> paired ws"
  by (cases w) (auto split: list.splits db_write.splits)

lemma shaped_smart [simp]: "shaped (saving b ws) = paired ws" "shaped (handling b todo rows logs)"
  by (auto simp: saving_def handling_def batch_writes_def)

definition all_shaped :: "sync_run \<Rightarrow> bool" where
  "all_shaped s \<longleftrightarrow> (\<forall>w \<in> set (workers s). shaped w)"

lemma update_all: "\<forall>x \<in> set xs. P x \<Longrightarrow> P y \<Longrightarrow> \<forall>x \<in> set (xs[i := y]). P x"
  using set_update_subset_insert[of xs i y] by blast

lemma produce_workers: "produce cfg s = Some t \<Longrightarrow> workers t = workers s \<and> store t = store s \<and> result t = result s"
  by (auto simp: produce_def Let_def split: producer.splits list.splits option.splits nat.splits if_splits)

lemma timeout_workers: "put_timeout cfg s = Some t \<Longrightarrow> workers t = workers s \<and> store t = store s \<and> result t = result s"
  by (auto simp: put_timeout_def split: producer.splits nat.splits if_splits)

lemma shaped_set: "all_shaped s \<Longrightarrow> shaped w \<Longrightarrow> workers t = (workers s)[i := w] \<Longrightarrow> all_shaped t"
  using update_all[of "workers s" shaped w i] by (simp add: all_shaped_def)

lemma shaped_step:
  assumes "sync_step env cfg a s = Some t" "all_shaped s" "crashed t = None"
  shows "all_shaped t"
  using assms(1)
proof (cases rule: sync_step_cases)
  case (save i burn now b w ws db db')
  then have "shaped (Saving b (w # ws))" using assms(2) by (metis all_shaped_def nth_mem)
  then show ?thesis using save(5) shaped_set[OF assms(2), of "saving b ws" t i] paired_tl by auto
next
  case (pill i q)
  then show ?thesis using shaped_set[OF assms(2), of Finished t i] by simp
next
  case (batch i b q)
  then show ?thesis using shaped_set[OF assms(2), of "handling b b [] []" t i] by simp
next
  case (mod i fetched b m todo rows logs res rows' logs')
  then show ?thesis using shaped_set[OF assms(2), of "handling b todo rows' logs'" t i] by simp
qed (use assms in \<open>auto simp: all_shaped_def dest: produce_workers timeout_workers\<close>)

fun written_logs :: "db_write \<Rightarrow> log_row list" where
  "written_logs (Write_Logs ls) = ls"
| "written_logs _ = []"

fun pending_logs :: "worker \<Rightarrow> log_row list" where
  "pending_logs (Handling b todo rows logs) = logs"
| "pending_logs (Saving b ws) = concat (map written_logs ws)"
| "pending_logs _ = []"

definition with_status :: "string \<Rightarrow> log_row list \<Rightarrow> nat" where
  "with_status st ls = length (filter (\<lambda>(i, a, s, d). s = st) ls)"

definition logged :: "string \<Rightarrow> database option \<Rightarrow> nat" where
  "logged st db = (case db of None \<Rightarrow> 0 | Some d \<Rightarrow> length (filter (\<lambda>t. task_status t = st) (task_log (working d))))"

definition log_total :: "string \<Rightarrow> sync_run \<Rightarrow> nat" where
  "log_total st s = logged st (store s) + tally (\<lambda>w. with_status st (pending_logs w)) s"

lemma with_status_simps [simp]: "with_status st [] = 0" "with_status st (xs @ ys) = with_status st xs + with_status st ys"
  "with_status st ((i, a, s, d) # xs) = (if s = st then 1 else 0) + with_status st xs"
  by (simp_all add: with_status_def)

lemma pending_smart [simp]: "pending_logs (saving b ws) = concat (map written_logs ws)" "pending_logs (handling b todo rows logs) = logs"
  by (simp_all add: saving_def handling_def batch_writes_def)

lemma sync_mod_logs:
  "sync_mod env m fetched res rows logs = Inr (res', rows', logs') \<Longrightarrow>
     with_status ''ok'' logs' + processed res = with_status ''ok'' logs + processed res'
   \<and> with_status ''error'' logs' + failed res = with_status ''error'' logs + failed res'"
  by (auto simp: sync_mod_def Let_def split: sum.splits option.splits if_splits)

lemma upserts_keep_log: "run_rows (upsert_batch_sql burn now) vs r = (r', ok) \<Longrightarrow> task_log r' = task_log r"
  by (induction vs arbitrary: r) (auto simp: upsert_batch_sql_def upsert_sql_def split: option.splits)

lemma logs_add_log: "run_rows log_task_sql ts r = (r', True) \<Longrightarrow> task_log r' = task_log r @ ts"
  by (induction ts arbitrary: r) (auto simp: log_task_sql_def split: option.splits if_splits)

lemma do_write_log: "do_write burn now w db = (db', True) \<Longrightarrow> task_log (working db') = task_log (working db) @ map (task_of now) (written_logs w)"
  by (auto simp: do_write_def execute_many_def commit_def split: db_write.splits prod.splits dest: upserts_keep_log logs_add_log)

lemma status_task_of: "length (filter (\<lambda>t. task_status t = st) (map (task_of now) ls)) = with_status st ls"
  by (induction ls) (auto simp: with_status_def task_of_def)

lemma logged_write: "do_write burn now w db = (db', True) \<Longrightarrow> logged st (Some db') = logged st (Some db) + with_status st (written_logs w)"
  using do_write_log[of burn now w db db'] status_task_of[of st now "written_logs w"] by (simp add: logged_def)

text \<open>\<open>f\<close> counts what \<open>log_total st\<close> counts beyond the start.\<close>

lemma log_total_step:
  assumes "sync_step env cfg a s = Some t" "crashed t = None" "log_total st s = n + f (result s)"
    and "(st, f) \<in> {(''ok'', processed), (''error'', failed)}"
  shows "log_total st t = n + f (result t)"
  using assms(1)
proof (cases rule: sync_step_cases)
  case (crash c)
  then show ?thesis using assms(2) by simp
next
  case produce
  then show ?thesis using assms(3) produce_workers[OF produce(1)] by (simp add: log_total_def tally_def)
next
  case timeout
  then show ?thesis using assms(3) timeout_workers[OF timeout(1)] by (simp add: log_total_def tally_def)
next
  case (pill i q)
  then show ?thesis using assms(3) tally_step[of i s t Finished Waiting "\<lambda>w. with_status st (pending_logs w)"] by (simp add: log_total_def)
next
  case (batch i b q)
  then show ?thesis using assms(3) tally_step[of i s t "handling b b [] []" Waiting "\<lambda>w. with_status st (pending_logs w)"]
    by (simp add: log_total_def)
next
  case (mod i fetched b m todo rows logs res rows' logs')
  then show ?thesis using assms(3,4) sync_mod_logs[OF mod(3)]
      tally_step[of i s t "handling b todo rows' logs'" _ "\<lambda>w. with_status st (pending_logs w)"]
    by (auto simp: log_total_def)
next
  case (save i burn now b w ws db db')
  then show ?thesis using assms(3) logged_write[OF save(4), of st]
      tally_step[of i s t "saving b ws" _ "\<lambda>w. with_status st (pending_logs w)"]
    by (simp add: log_total_def)
qed

fun awaits_commit :: "worker \<Rightarrow> bool" where
  "awaits_commit (Saving b (Write_Commit # ws)) = True"
| "awaits_commit _ = False"

definition committed_when_quiet :: "sync_run \<Rightarrow> bool" where
  "committed_when_quiet s \<longleftrightarrow> (\<forall>db. store s = Some db \<longrightarrow> (\<forall>w \<in> set (workers s). \<not> awaits_commit w) \<longrightarrow> committed db = working db)"

lemma quiet_update: "i < length ws \<Longrightarrow> \<not> P (ws ! i) \<Longrightarrow> \<forall>w \<in> set (ws[i := y]). \<not> P w \<Longrightarrow> \<forall>w \<in> set ws. \<not> P w"
  by (metis in_set_conv_nth length_list_update nth_list_update_neq)

lemma quiet_set:
  "committed_when_quiet s \<Longrightarrow> i < length (workers s) \<Longrightarrow> \<not> awaits_commit (workers s ! i) \<Longrightarrow> workers t = (workers s)[i := w] \<Longrightarrow>
     store t = store s \<Longrightarrow> committed_when_quiet t"
  using quiet_update[of i "workers s" awaits_commit w] by (auto simp: committed_when_quiet_def)

lemma quiet_step:
  assumes "sync_step env cfg a s = Some t" "crashed t = None" "all_shaped s" "committed_when_quiet s"
  shows "committed_when_quiet t"
  using assms(1)
proof (cases rule: sync_step_cases)
  case (save i burn now b w ws db db')
  then have sh: "shaped (Saving b (w # ws))" using assms(3) by (metis all_shaped_def nth_mem)
  have new: "saving b ws \<in> set (workers t)" using save by (simp add: set_update_memI)
  show ?thesis
  proof (cases w)
    case Write_Commit
    then show ?thesis using save by (auto simp: committed_when_quiet_def do_write_def commit_def)
  qed (use sh new in \<open>auto simp: committed_when_quiet_def saving_def split: list.splits db_write.splits\<close>)
next
  case (pill i q)
  then show ?thesis using quiet_set[OF assms(4), of i t Finished] by simp
next
  case (batch i b q)
  then show ?thesis using quiet_set[OF assms(4), of i t "handling b b [] []"] by simp
next
  case (mod i fetched b m todo rows logs res rows' logs')
  then show ?thesis using quiet_set[OF assms(4), of i t "handling b todo rows' logs'"] by simp
qed (use assms in \<open>auto simp: committed_when_quiet_def dest: produce_workers timeout_workers\<close>)

lemma source_error_step: "sync_step env cfg a s = Some t \<Longrightarrow> source_error t = source_error s"
  by (auto simp: sync_step_def produce_def put_timeout_def take_batch_def handle_mod_def save_batch_def batch_raises_def Let_def
      split: if_splits sync_action.splits producer.splits list.splits option.splits nat.splits worker.splits sum.splits prod.splits
        crash.splits bool.splits)

lemma source_error_run: "run_actions (sync_step env cfg) acts s = Some t \<Longrightarrow> source_error t = source_error s"
  by (induction acts arbitrary: s) (auto split: option.splits dest: source_error_step)

section \<open>The whole run\<close>

definition sync_inv :: "sync_config \<Rightarrow> nat \<Rightarrow> database option \<Rightarrow> sync_run \<Rightarrow> bool" where
  "sync_inv cfg n db0 s \<longleftrightarrow> crashed s \<noteq> None \<or>
    (orderly cfg s \<and> all_shaped s \<and> errors_listed s \<and> committed_when_quiet s \<and> (\<not> giving_up (producer s) \<longrightarrow> accounted s = n)
      \<and> log_total ''ok'' s = logged ''ok'' db0 + processed (result s) \<and> log_total ''error'' s = logged ''error'' db0 + failed (result s)
      \<and> (store s = None \<longleftrightarrow> db0 = None))"

lemma store_step: "sync_step env cfg a s = Some t \<Longrightarrow> crashed t = None \<Longrightarrow> store t = None \<longleftrightarrow> store s = None"
  by (erule sync_step_cases) (auto dest: produce_workers timeout_workers)

lemma sync_inv_step:
  assumes "sync_inv cfg n db0 s" "sync_step env cfg a s = Some t"
  shows "sync_inv cfg n db0 t"
proof (cases "crashed t")
  case None
  have "crashed s = None" using assms(2) by (auto simp: sync_step_def split: if_splits)
  then have i: "orderly cfg s" "all_shaped s" "errors_listed s" "committed_when_quiet s" "\<not> giving_up (producer s) \<Longrightarrow> accounted s = n"
    "log_total ''ok'' s = logged ''ok'' db0 + processed (result s)" "log_total ''error'' s = logged ''error'' db0 + failed (result s)"
    "store s = None \<longleftrightarrow> db0 = None"
    using assms(1) by (auto simp: sync_inv_def)
  show ?thesis unfolding sync_inv_def
    using orderly_step[OF assms(2) None i(1)] shaped_step[OF assms(2) i(2) None] errors_step[OF assms(2) i(3) None]
      quiet_step[OF assms(2) None i(2,4)] accounted_step[OF assms(2) None _ i(5)]
      log_total_step[where st = "''ok''" and f = processed, OF assms(2) None i(6)]
      log_total_step[where st = "''error''" and f = failed, OF assms(2) None i(7)] store_step[OF assms(2) None] i(8)
    by simp
qed (simp add: sync_inv_def)

lemma sync_inv_start:
  assumes "case db of None \<Rightarrow> True | Some d \<Rightarrow> committed d = working d"
  shows "sync_inv cfg (case modlist of Inl _ \<Rightarrow> 0 | Inr ms \<Rightarrow> length ms) db (sync_start cfg modlist db)"
proof -
  have r: "sum_list (map f (replicate k Waiting)) = k * f Waiting" for f k by (simp add: sum_list_replicate)
  show ?thesis using assms orderly_start[of cfg modlist db] unfolding sync_inv_def
    by (auto simp: all_shaped_def errors_listed_def committed_when_quiet_def accounted_def log_total_def tally_def r
        sync_start_def no_result_def counted_def split: sum.split option.splits)
qed

lemma worker_can_move:
  assumes "crashed s = None" "w \<in> set (workers s)" "shaped w" "w \<noteq> Waiting" "w \<noteq> Finished"
  shows "\<exists>a t. sync_step env cfg a s = Some t"
proof -
  obtain i where i: "i < length (workers s)" "workers s ! i = w" using assms(2) by (metis in_set_conv_nth)
  show ?thesis
  proof (cases w)
    case (Handling b todo rows logs)
    then obtain m ms where "todo = m # ms" using assms(3) by (cases todo) auto
    then have "handle_mod env i (Inl Circuit_Open) s \<noteq> None" using i Handling by (simp add: handle_mod_def split: sum.split prod.split)
    then show ?thesis using assms(1) by (intro exI[of _ "Handle i (Inl Circuit_Open)"]) (auto simp: sync_step_def)
  next
    case (Saving b ws)
    then obtain w' ws' where "ws = w' # ws'" using assms(3) by (cases ws) auto
    then have "save_batch i False [] s \<noteq> None" using i Saving by (simp add: save_batch_def split: option.split prod.split bool.split)
    then show ?thesis using assms(1) by (intro exI[of _ "Save i False []"]) (auto simp: sync_step_def)
  qed (use assms in auto)
qed

lemma sync_can_move:
  assumes "0 < worker_count cfg" "orderly cfg s" "all_shaped s" "\<not> ended s"
  shows "\<exists>a t. sync_step env cfg a s = Some t"
proof (cases "\<exists>w \<in> set (workers s). w \<noteq> Waiting \<and> w \<noteq> Finished")
  case True
  then show ?thesis using worker_can_move assms(3,4) by (auto simp: all_shaped_def ended_def)
next
  case idle: False
  have c: "crashed s = None" using assms(4) by (auto simp: ended_def)
  obtain bs k where o: "queue s = map Some bs @ replicate k None" "length (workers s) = nat (worker_count cfg)"
    "k + pills_left (nat (worker_count cfg)) (producer s) = tally alive s" "Finished \<in> set (workers s) \<Longrightarrow> bs = []"
    "k > 0 \<or> Finished \<in> set (workers s) \<Longrightarrow> closing (producer s)"
    using assms(2) by (rule orderlyE) blast
  show ?thesis
  proof (cases "Waiting \<in> set (workers s) \<and> queue s \<noteq> []")
    case True
    then obtain i where "i < length (workers s)" "workers s ! i = Waiting" by (metis in_set_conv_nth)
    then have "take_batch i s \<noteq> None" using True by (auto simp: take_batch_def neq_Nil_conv split: option.split)
    then show ?thesis using c by (intro exI[of _ "Take i"]) (auto simp: sync_step_def)
  next
    case False
    have "queue s = []"
    proof (rule ccontr)
      assume q: "queue s \<noteq> []"
      then have f: "\<forall>w \<in> set (workers s). w = Finished" using False idle by auto
      then have "\<forall>w \<in> set (workers s). alive w = 0" by (metis alive_simps(1))
      then have "tally alive s = 0" by (simp add: tally_def)
      moreover have "workers s \<noteq> []" using o(2) assms(1) by auto
      ultimately show False using q o f by (cases "workers s") auto
    qed
    then have nf: "\<not> queue_full cfg s" "k = 0" using o(1) by (auto simp: queue_full_def)
    have "producer s \<noteq> Produced"
    proof
      assume p: "producer s = Produced"
      then have "sum_list (map alive (workers s)) = 0" using o(3) nf by (simp add: tally_def)
      then have "\<forall>w \<in> set (workers s). alive w = 0" by (simp add: sum_list_eq_0_iff)
      then have "list_all (\<lambda>w. w = Finished) (workers s)" by (auto simp: alive_def list_all_iff split: if_splits)
      then show False using p c assms(4) by (simp add: ended_def completed_def)
    qed
    then have "produce cfg s \<noteq> None" using nf(1)
      by (auto simp: produce_def Let_def split: producer.split list.split option.split nat.split)
    then show ?thesis using c by (intro exI[of _ Produce]) (auto simp: sync_step_def)
  qed
qed

text \<open>Ended runs stay as they are, so the interface's steps are those of runs with at least one worker.\<close>

definition live_inv :: "sync_config \<Rightarrow> nat \<Rightarrow> database option \<Rightarrow> sync_run \<Rightarrow> bool" where
  "live_inv cfg n db0 s \<longleftrightarrow> 0 < worker_count cfg \<and> sync_inv cfg n db0 s"

interpretation sync: settling "sync_step env cfg" "live_inv cfg n db0" ended "sync_work cfg" for env cfg n db0
proof
  show "live_inv cfg n db0 t" if "live_inv cfg n db0 s" "sync_step env cfg a s = Some t" for s a t
    using that sync_inv_step by (auto simp: live_inv_def)
  show "sync_work cfg t < sync_work cfg s" if "live_inv cfg n db0 s" "sync_step env cfg a s = Some t" for s a t
    using that(2) by (rule sync_step_work)
  show "\<exists>a t. sync_step env cfg a s = Some t" if "live_inv cfg n db0 s" "\<not> ended s" for s
    using that sync_can_move[of cfg s env] by (auto simp: live_inv_def sync_inv_def ended_def)
qed

text \<open>
  C14: a synchronisation ends: however its producer and workers interleave and whatever the fetches give, with
  at least one worker it takes at most a number of steps linear in the mods, and until it has returned or raised
  some task can go on (neither the bounded queue nor the pills block it).
\<close>

theorem sync_run_ends:
  assumes "0 < worker_count cfg" "case db of None \<Rightarrow> True | Some d \<Rightarrow> committed d = working d"
    and "run_actions (sync_step env cfg) acts (sync_start cfg (Inr ms) db) = Some s"
  shows "length acts \<le> 9 * length ms + 2 * nat (worker_count cfg) + 3
    \<and> (\<not> ended s \<longrightarrow> (\<exists>a t. sync_step env cfg a s = Some t))
    \<and> (\<exists>more t. run_actions (sync_step env cfg) more s = Some t \<and> ended t)"
proof -
  let ?s0 = "sync_start cfg (Inr ms) db"
  have i: "live_inv cfg (length ms) db ?s0" using sync_inv_start[OF assms(2), of cfg "Inr ms"] assms(1) by (simp add: live_inv_def)
  note j = sync.run_inv[OF i assms(3)]
  have "sync_work cfg ?s0 = 9 * length ms + 2 * nat (worker_count cfg) + 3"
    by (simp add: sync_work_def sync_start_def sum_list_replicate)
  then show ?thesis using sync.run_bounded[OF i assms(3)] sync.settles[OF j] sync.moves[OF j] by auto
qed

text \<open>
  A synchronisation that returns has accounted for every mod of the list exactly once, as processed, failed
  or skipped; it names an error for each failed one, everything it wrote is committed, and the task log has one
  new \<open>ok\<close> row for each processed mod and one new \<open>error\<close> row for each failed one.
\<close>

theorem sync_accounts_for_every_mod:
  assumes "0 < worker_count cfg" "committed db = working db"
    and "run_actions (sync_step env cfg) acts (sync_start cfg modlist (Some db)) = Some s" "completed s"
  shows "\<exists>ms db'. modlist = Inr ms \<and> store s = Some db' \<and> committed db' = working db'
    \<and> processed (result s) + failed (result s) + skipped (result s) = length ms
    \<and> length (sync_errors (result s)) = failed (result s)
    \<and> logged ''ok'' (Some db') = logged ''ok'' (Some db) + processed (result s)
    \<and> logged ''error'' (Some db') = logged ''error'' (Some db) + failed (result s)"
proof -
  let ?n = "case modlist of Inl _ \<Rightarrow> 0 | Inr ms \<Rightarrow> length ms"
  have "live_inv cfg ?n (Some db) (sync_start cfg modlist (Some db))"
    using sync_inv_start[of "Some db" cfg modlist] assms(1,2) by (simp add: live_inv_def)
  from sync.run_inv[OF this assms(3)] have i: "sync_inv cfg ?n (Some db) s" by (simp add: live_inv_def)
  have f: "crashed s = None" "producer s = Produced" "\<forall>w \<in> set (workers s). w = Finished"
    using assms(4) by (auto simp: completed_def list_all_iff)
  have w: "workers s = replicate (length (workers s)) Finished" using replicate_length_same[OF f(3)] by simp
  have t: "tally g s = length (workers s) * g Finished" for g
    using arg_cong[OF w, of "\<lambda>x. sum_list (map g x)"] by (simp add: tally_def sum_list_replicate)
  from i f have j: "orderly cfg s" "errors_listed s" "committed_when_quiet s" "accounted s = ?n"
    "log_total ''ok'' s = logged ''ok'' (Some db) + processed (result s)" "log_total ''error'' s = logged ''error'' (Some db) + failed (result s)"
    by (simp_all add: sync_inv_def)
  obtain db' where db: "store s = Some db'" using i f by (auto simp: sync_inv_def)
  obtain bs k where o: "queue s = map Some bs @ replicate k None" "length (workers s) = nat (worker_count cfg)"
    "k + pills_left (nat (worker_count cfg)) (producer s) = tally alive s" "Finished \<in> set (workers s) \<Longrightarrow> bs = []"
    "closing (producer s) \<Longrightarrow> giving_up (producer s) \<or> source s = [] \<and> source_error s = None"
    using j(1) by (rule orderlyE) blast
  have "workers s \<noteq> []" using o(2) assms(1) by auto
  then have "queue s = []" using o(1,3,4) f t[of alive] by (cases "workers s") auto
  moreover have src: "source s = []" "source_error s = None" using o(5) f by simp_all
  ultimately have n: "counted (result s) = ?n" using j(4) f t[of in_hand] by (simp add: accounted_def)
  have "\<forall>w \<in> set (workers s). \<not> awaits_commit w" using f(3) by auto
  then have "committed db' = working db'" using j(3) db by (simp add: committed_when_quiet_def)
  moreover obtain ms where "modlist = Inr ms"
    using source_error_run[OF assms(3)] src(2) by (cases modlist) (auto simp: sync_start_def)
  ultimately show ?thesis using n j(2,5,6) db t[of "\<lambda>w. with_status _ (pending_logs w)"]
    by (simp add: log_total_def counted_def errors_listed_def)
qed

definition demo_env :: sync_env where
  "demo_env = \<lparr>meta_modid = (\<lambda>_. Inr None), float_int = (\<lambda>_. None), circuit_text = ''open''\<rparr>"

definition demo_cfg :: sync_config where
  "demo_cfg = \<lparr>worker_count = 2, batch_size = 2, queue_maxsize = 1\<rparr>"

definition demo_mods :: "(string \<times> bool) list" where
  "demo_mods = [(''SkyUI-12604-5'', True), (''Notes'', False), (''USSEP-266'', True)]"

definition demo_acts :: "sync_action list" where
  "demo_acts = [Produce, Produce, Produce, Take 1, Produce, Produce, Produce, Handle 1 (Inr (JDict [(''mod_id'', JInt 12604)])), Take 0,
     Handle 0 (Inl Circuit_Open), Handle 1 (Inl Circuit_Open), Save 1 False ''t'', Save 0 False ''t'', Save 1 False ''t'', Save 0 False ''t'',
     Save 1 False ''t'', Save 1 False ''t'', Produce, Produce, Take 0, Produce, Take 1, Produce]"

definition demo_run :: "sync_run option" where
  "demo_run = run_actions (sync_step demo_env demo_cfg) demo_acts (sync_start demo_cfg (Inr demo_mods) (Some (autocommitted empty_registry)))"

lemma demo_completes: "case demo_run of None \<Rightarrow> False | Some s \<Rightarrow> completed s \<and> processed (result s) = 1"
  by code_simp

theorem sync_run_ends_witness: "length demo_acts \<le> 34"
proof -
  obtain s where s: "demo_run = Some s" using demo_completes by (auto split: option.splits)
  have "0 < worker_count demo_cfg" by (simp add: demo_cfg_def)
  moreover have "case Some (autocommitted empty_registry) of None \<Rightarrow> True | Some d \<Rightarrow> committed d = working d"
    by (simp add: autocommitted_def)
  ultimately have "length demo_acts \<le> 9 * length demo_mods + 2 * nat (worker_count demo_cfg) + 3"
    using sync_run_ends s[unfolded demo_run_def] by blast
  then show ?thesis by (simp add: demo_mods_def demo_cfg_def)
qed

theorem sync_accounts_for_every_mod_witness:
  "\<exists>s db'. demo_run = Some s \<and> processed (result s) = 1 \<and> failed (result s) + skipped (result s) = 2
     \<and> store s = Some db' \<and> logged ''ok'' (Some db') = 1"
proof -
  obtain s where s: "demo_run = Some s" "completed s" "processed (result s) = 1" using demo_completes by (auto split: option.splits)
  have c: "0 < worker_count demo_cfg" "committed (autocommitted empty_registry) = working (autocommitted empty_registry)"
    by (simp_all add: demo_cfg_def autocommitted_def)
  have "logged ''ok'' (Some (autocommitted empty_registry)) = 0" "length demo_mods = 3"
    by (simp_all add: logged_def autocommitted_def empty_registry_def demo_mods_def)
  with sync_accounts_for_every_mod[OF c s(1)[unfolded demo_run_def] s(2)] s show ?thesis by auto
qed

section \<open>Retries\<close>

lemma fetch_from_attempts:
  "fetch_from attempts i n b = (b', r, k) \<Longrightarrow> n \<le> MAX_ATTEMPTS \<Longrightarrow>
     n \<le> k \<and> k \<le> MAX_ATTEMPTS \<and> (\<forall>e. r = Inl e \<longrightarrow> expected e \<longrightarrow> k = MAX_ATTEMPTS)"
proof (induction attempts i n b rule: fetch_from.induct)
  case (1 attempts i n b)
  let ?f = "fetch_mod_info (meanwhile (attempts n) b) i (t_ask (attempts n)) (t_fail (attempts n)) (reply (attempts n))"
  obtain b1 o1 where f: "?f = (b1, o1)" by fastforce
  show ?case
  proof (cases "\<exists>e. o1 = Inl e \<and> expected e \<and> n < MAX_ATTEMPTS")
    case True
    then obtain e where e: "o1 = Inl e" "expected e" "n < MAX_ATTEMPTS" by blast
    then have "fetch_from attempts i (Suc n) b1 = (b', r, k)"
      using 1(2) f by (subst (asm) fetch_from.simps) (simp add: Let_def)
    with 1(1)[OF refl f[symmetric] e(1)] e have "Suc n \<le> k \<and> k \<le> MAX_ATTEMPTS \<and> (\<forall>e. r = Inl e \<longrightarrow> expected e \<longrightarrow> k = MAX_ATTEMPTS)"
      by simp
    then show ?thesis by simp
  next
    case False
    then have "(b', r, k) = (b1, o1, n)" using 1(2) f by (subst (asm) fetch_from.simps) (auto simp: Let_def split: sum.splits if_splits)
    then show ?thesis using False 1(3) by auto
  qed
qed

text \<open>
  A fetch makes at most five attempts, and reports a network or service error only after all five; with the
  breaker open for all of them it waits half a minute (the four waits) without sending a request.
\<close>

theorem fetch_retries_bounded:
  assumes "safe_fetch_info attempts i b = (b', r, k)"
  shows "1 \<le> k \<and> k \<le> 5 \<and> (\<forall>e. r = Inl e \<longrightarrow> expected e \<longrightarrow> k = 5)"
  using fetch_from_attempts[of attempts i 1 b b' r k] assms by (simp add: safe_fetch_info_def MAX_ATTEMPTS_def)

lemma open_breaker_wastes_retries:
  assumes "fetch_state b = Open" "\<And>n. t_ask (attempts n) < last_failure_time b + recovery_timeout b" "\<And>n x. meanwhile (attempts n) x = x"
  shows "safe_fetch_info attempts i b = (b, Inl Circuit_Open, 5) \<and> (\<Sum>n \<leftarrow> [1, 2, 3, 4]. retry_wait n) = 30"
proof -
  have f: "fetch_mod_info (meanwhile (attempts n) b) i (t_ask (attempts n)) (t_fail (attempts n)) (reply (attempts n)) = (b, Inl Circuit_Open)" for n
    using assms(1) assms(2)[of n] by (simp add: fetch_mod_info_def allow_request_def promote_def assms(3) Let_def)
  have u: "fetch_from attempts i n b = (if n < 5 then fetch_from attempts i (Suc n) b else (b, Inl Circuit_Open, n))" for n
    by (subst fetch_from.simps) (simp add: f Let_def MAX_ATTEMPTS_def)
  have "fetch_from attempts i 1 b = (b, Inl Circuit_Open, 5)"
    using u[of 1] u[of 2] u[of 3] u[of 4] u[of 5] by (simp add: numeral_eq_Suc)
  then show ?thesis by (simp add: safe_fetch_info_def retry_wait_def)
qed

theorem fetch_retries_bounded_witness:
  "\<exists>k. safe_fetch_info (\<lambda>_. \<lparr>t_ask = 0, t_fail = 0, reply = Raises (Client_Error ''x''), meanwhile = (\<lambda>b. b)\<rparr>) 1 (new_fetch_breaker 9 60)
     = (fst (safe_fetch_info (\<lambda>_. \<lparr>t_ask = 0, t_fail = 0, reply = Raises (Client_Error ''x''), meanwhile = (\<lambda>b. b)\<rparr>) 1 (new_fetch_breaker 9 60)),
        Inl (Passed_On (Client_Error ''x'')), k) \<and> k \<le> 5"
proof -
  let ?a = "\<lambda>_::nat. \<lparr>t_ask = 0, t_fail = 0, reply = Raises (Client_Error ''x''), meanwhile = (\<lambda>b::fetch_breaker. b)\<rparr>"
  obtain b r k where s: "safe_fetch_info ?a 1 (new_fetch_breaker 9 60) = (b, r, k)" by (metis surj_pair)
  have "fst (snd (safe_fetch_info ?a 1 (new_fetch_breaker 9 60))) = Inl (Passed_On (Client_Error ''x''))"
    by (simp add: safe_fetch_info_def fetch_from.simps fetch_mod_info_def fetch_body_def allow_request_def promote_def new_fetch_breaker_def
        record_failure_def MAX_ATTEMPTS_def Let_def)
  then show ?thesis using s fetch_retries_bounded[OF s] by simp
qed

section \<open>What aborts a run\<close>

text \<open>A network timeout is no \<open>ClientError\<close>: no handler expects it.\<close>

lemma timeout_aborts_run:
  assumes "crashed s = None" "i < length (workers s)" "workers s ! i = Handling b (m # todo) rows logs" "extract_nexus_id env (fst m) = Inr (Some n)"
  shows "\<exists>t. sync_step env cfg (Handle i (Inl (Passed_On (Os_Error x)))) s = Some t \<and> crashed t = Some (Fetch_Crash (Passed_On (Os_Error x)))"
  using assms by (simp add: sync_step_def handle_mod_def sync_mod_def batch_raises_def)

text \<open>A part of the name made of digits and superscripts passes \<open>isdigit\<close>, and \<open>int\<close> raises.\<close>

lemma superscript_name_aborts: "extract_nexus_id env (''Relief-10'' @ [char_of (178::nat)]) = Inl Bad_Value"
  by code_simp

end
