(* ===== verification/Update_Cycle.thy ===== *)
theory Update_Cycle
  imports Sync_Engine Journal Hitl_Guard
begin

text \<open>
  The update cycle of \<open>sky_claw/antigravity/orchestrator/sync_engine.py\<close>: \<open>check_for_updates\<close>, which runs a
  task per installed mod, at most 15 at a time, and \<open>_check_and_update_mod\<close>, the life of one task.  A task
  begins its journal transaction, waits for the services (fetch, file information, operator, download), and
  then writes; what the services gave is the argument of its last step, and other tasks may begin and end
  between the two.  Also the background downloads, whose failures are recorded.
\<close>

section \<open>One mod\<close>

text \<open>What a call raises, by the handlers that see it: \<open>Failed_Else\<close> is any class none of them names.\<close>

datatype update_exn =
    Failed_Fetch fetch_error
  | Failed_Client string
  | Failed_Os string
  | Failed_Value string
  | Failed_Else string

text \<open>The handler of \<open>_check_and_update_mod\<close>, and the one of \<open>_wrapped_worker\<close>.\<close>

fun network :: "update_exn \<Rightarrow> bool" where
  "network (Failed_Fetch e) = expected e"
| "network (Failed_Client s) = True"
| "network _ = False"

fun isolated :: "update_exn \<Rightarrow> bool" where
  "isolated (Failed_Fetch (Passed_On (Other_Error s))) = False"
| "isolated (Failed_Else s) = False"
| "isolated _ = True"

definition exn_text :: "sync_env \<Rightarrow> update_exn \<Rightarrow> string" where
  "exn_text env x =
    (case x of
       Failed_Fetch e \<Rightarrow> error_text env e
     | Failed_Client s \<Rightarrow> s
     | Failed_Os s \<Rightarrow> s
     | Failed_Value s \<Rightarrow> s
     | Failed_Else s \<Rightarrow> s)"

text \<open>What the services answer one task, with the clocks of its writes; no downloader, no operator is \<open>None\<close>.\<close>

record answers =
  fetched :: "fetch_error + json"
  file_url :: "(update_exn + string) option"
  operator :: "(update_exn + decision) option"
  downloaded :: "update_exn + string"
  t_write :: string
  t_journal :: int
  burn_id :: bool

datatype report =
    Updated string int string string string "nat option"
  | Up_To_Date string
  | Update_Error string int string

record shared =
  sh_journal :: "journal option"
  sh_store :: "database option"

definition commit_tx :: "nat option \<Rightarrow> int \<Rightarrow> shared \<Rightarrow> shared \<times> (update_exn + unit)" where
  "commit_tx tx now s =
    (case (sh_journal s, tx) of
       (Some j, Some n) \<Rightarrow>
        (case commit_transaction j n now of
           (j', Inl (Journal_Transaction_Error m)) \<Rightarrow> (s\<lparr>sh_journal := Some j'\<rparr>, Inl (Failed_Else m))
         | (j', Inr _) \<Rightarrow> (s\<lparr>sh_journal := Some j'\<rparr>, Inr ()))
     | _ \<Rightarrow> (s, Inr ()))"

definition roll_back_tx :: "nat option \<Rightarrow> int \<Rightarrow> shared \<Rightarrow> shared" where
  "roll_back_tx tx now s =
    (case (sh_journal s, tx) of
       (Some j, Some n) \<Rightarrow> s\<lparr>sh_journal := Some (mark_transaction_rolled_back j n now)\<rparr>
     | _ \<Rightarrow> s)"

definition begin_update :: "mod_row \<Rightarrow> int \<Rightarrow> shared \<Rightarrow> shared \<times> nat option" where
  "begin_update m now s =
    (case sh_journal s of
       None \<Rightarrow> (s, None)
     | Some j \<Rightarrow> (let (j', n) = begin_transaction j (''update_'' @ mod_name m) (Some (nexus_id m)) now
                  in (s\<lparr>sh_journal := Some j'\<rparr>, Some n)))"

text \<open>A report after the commit of the task's transaction, or what the commit raises.\<close>

definition commit_and :: "nat option \<Rightarrow> int \<Rightarrow> report \<Rightarrow> shared \<Rightarrow> shared \<times> (update_exn + report)" where
  "commit_and tx now r s = (case commit_tx tx now s of (s', Inl e) \<Rightarrow> (s', Inl e) | (s', Inr _) \<Rightarrow> (s', Inr r))"

text \<open>
  The name goes to SQLite as it came: a null breaks \<open>NOT NULL\<close>, a list or an object cannot be bound, and a
  number is stored as its text.
\<close>

fun bind_text :: "json \<Rightarrow> string option" where
  "bind_text (JStr s) = Some s"
| "bind_text (JInt i) = Some (int_str i)"
| "bind_text (JBool b) = Some (if b then ''1'' else ''0'')"
| "bind_text (JFloat t) = Some t"
| "bind_text _ = None"

definition update_values :: "mod_row \<Rightarrow> (string \<times> json) list \<Rightarrow> string \<Rightarrow> string \<Rightarrow> string \<Rightarrow> mod_values" where
  "update_values m info name ver url =
    \<lparr>v_nexus = nexus_id m, v_name = name, v_version = ver, v_author = field_text info ''author'' [],
     v_category = field_text info ''category_id'' [], v_url = url, v_installed = False, v_enabled = False\<rparr>"

text \<open>The writes after the download; an error of the registry is of no expected class.\<close>

definition write_update ::
  "answers \<Rightarrow> mod_row \<Rightarrow> (string \<times> json) list \<Rightarrow> string \<Rightarrow> string \<Rightarrow> shared \<Rightarrow> shared \<times> (update_exn + unit)" where
  "write_update ans m info ver url s =
    (case (case dget info ''name'' of None \<Rightarrow> Some (mod_name m) | Some v \<Rightarrow> bind_text v) of
       None \<Rightarrow> (s, Inl (Failed_Else ''upsert_mod''))
     | Some name \<Rightarrow>
        (case upsert_mod (burn_id ans) (t_write ans) (update_values m info name ver url) (sh_store s) of
           (db1, Inl _) \<Rightarrow> (s\<lparr>sh_store := db1\<rparr>, Inl (Failed_Else ''upsert_mod''))
         | (db1, Inr _) \<Rightarrow>
            (case log_tasks_batch [task_of (t_write ans) (None, ''update_mod'', ''success'',
                 mod_name m @ '': '' @ mod_version m @ '' -> '' @ ver)] db1 of
               (db2, Inl _) \<Rightarrow> (s\<lparr>sh_store := db2\<rparr>, Inl (Failed_Else ''log_tasks_batch''))
             | (db2, Inr _) \<Rightarrow> (s\<lparr>sh_store := db2\<rparr>, Inr ()))))"

text \<open>The body of the \<open>try\<close>, after the transaction has begun.\<close>

definition update_body :: "answers \<Rightarrow> mod_row \<Rightarrow> nat option \<Rightarrow> shared \<Rightarrow> shared \<times> (update_exn + report)" where
  "update_body ans m tx s =
    (let err = Update_Error (mod_name m) (nexus_id m) in
     case fetched ans of
       Inl e \<Rightarrow> (s, Inl (Failed_Fetch e))
     | Inr doc \<Rightarrow>
        if \<not> truthy doc then commit_and tx (t_journal ans) (err ''No metadata returned'') s
        else case doc of
          JDict info \<Rightarrow>
           (let nexus_version = field_text info ''version'' [] in
            if nexus_version = [] \<or> nexus_version = mod_version m
            then commit_and tx (t_journal ans) (Up_To_Date (mod_name m)) s
            else case file_url ans of
              None \<Rightarrow> commit_and tx (t_journal ans) (err ''Downloader not configured'') s
            | Some (Inl e) \<Rightarrow> (s, Inl e)
            | Some (Inr url) \<Rightarrow>
               (case operator ans of
                  Some (Inl e) \<Rightarrow> (s, Inl e)
                | Some (Inr Denied) \<Rightarrow> (roll_back_tx tx (t_journal ans) s, Inr (err ''Descarga abortada por HITL''))
                | Some (Inr Timeout) \<Rightarrow> (roll_back_tx tx (t_journal ans) s, Inr (err ''Descarga abortada por HITL''))
                | _ \<Rightarrow>
                   (case downloaded ans of
                      Inl e \<Rightarrow> (s, Inl e)
                    | Inr file \<Rightarrow>
                       (case write_update ans m info nexus_version url s of
                          (s', Inl e) \<Rightarrow> (s', Inl e)
                        | (s', Inr _) \<Rightarrow> commit_and tx (t_journal ans)
                            (Updated (mod_name m) (nexus_id m) (mod_version m) nexus_version file tx) s'))))
        | _ \<Rightarrow> (s, Inl (Failed_Else ''AttributeError'')))"

text \<open>With both handlers of \<open>_check_and_update_mod\<close>: only a network error becomes a report.\<close>

definition finish_update :: "sync_env \<Rightarrow> answers \<Rightarrow> mod_row \<Rightarrow> nat option \<Rightarrow> shared \<Rightarrow> shared \<times> (update_exn + report)" where
  "finish_update env ans m tx s =
    (case update_body ans m tx s of
       (s', Inr r) \<Rightarrow> (s', Inr r)
     | (s', Inl e) \<Rightarrow>
        (roll_back_tx tx (t_journal ans) s',
         if network e then Inr (Update_Error (mod_name m) (nexus_id m) (exn_text env e)) else Inl e))"

section \<open>The cycle\<close>

datatype slot = Queued | Running "nat option" | Ended "nat option" "update_exn + report"

record cycle =
  tracked :: "mod_row list"
  slots :: "slot list"
  world :: shared
  aborted :: "update_exn option"

definition LIFECYCLES :: nat where
  "LIFECYCLES = 15"

definition cycle_start :: "shared \<Rightarrow> registry \<Rightarrow> cycle" where
  "cycle_start s r =
    (let ms = filter installed (search_mods [] r)
     in \<lparr>tracked = ms, slots = replicate (length ms) Queued, world = s, aborted = None\<rparr>)"

fun is_running :: "slot \<Rightarrow> bool" where
  "is_running (Running tx) = True"
| "is_running _ = False"

datatype cycle_action = Begin_Mod nat int | Finish_Mod nat answers

definition cycle_step :: "sync_env \<Rightarrow> cycle_action \<Rightarrow> cycle \<Rightarrow> cycle option" where
  "cycle_step env a c =
    (if aborted c \<noteq> None then None
     else case a of
       Begin_Mod i now \<Rightarrow>
         if i < length (slots c) \<and> slots c ! i = Queued \<and> length (filter is_running (slots c)) < LIFECYCLES
         then (case begin_update (tracked c ! i) now (world c) of
                 (s, tx) \<Rightarrow> Some (c\<lparr>slots := (slots c)[i := Running tx], world := s\<rparr>))
         else None
     | Finish_Mod i ans \<Rightarrow>
         if i < length (slots c)
         then (case slots c ! i of
                 Running tx \<Rightarrow>
                  (case finish_update env ans (tracked c ! i) tx (world c) of
                     (s, Inl e) \<Rightarrow>
                       if isolated e then Some (c\<lparr>slots := (slots c)[i := Ended tx (Inl e)], world := s\<rparr>)
                       else Some (c\<lparr>world := s, aborted := Some e\<rparr>)
                   | (s, Inr r) \<Rightarrow> Some (c\<lparr>slots := (slots c)[i := Ended tx (Inr r)], world := s\<rparr>))
               | _ \<Rightarrow> None)
         else None)"

fun has_ended :: "slot \<Rightarrow> bool" where
  "has_ended (Ended tx r) = True"
| "has_ended _ = False"

definition cycle_over :: "cycle \<Rightarrow> bool" where
  "cycle_over c \<longleftrightarrow> aborted c \<noteq> None \<or> list_all has_ended (slots c)"

record update_payload =
  total_checked :: nat
  updated_mods :: "report list"
  failed_mods :: "report list"
  up_to_date_mods :: "string list"

definition empty_payload :: "nat \<Rightarrow> update_payload" where
  "empty_payload n = \<lparr>total_checked = n, updated_mods = [], failed_mods = [], up_to_date_mods = []\<rparr>"

definition add_result :: "sync_env \<Rightarrow> mod_row \<times> slot \<Rightarrow> update_payload \<Rightarrow> update_payload" where
  "add_result env x p =
    (case x of
       (m, Ended tx (Inl e)) \<Rightarrow> p\<lparr>failed_mods := failed_mods p @ [Update_Error (mod_name m) (nexus_id m) (exn_text env e)]\<rparr>
     | (m, Ended tx (Inr (Up_To_Date n))) \<Rightarrow> p\<lparr>up_to_date_mods := up_to_date_mods p @ [n]\<rparr>
     | (m, Ended tx (Inr (Updated n i old new file roll))) \<Rightarrow> p\<lparr>updated_mods := updated_mods p @ [Updated n i old new file roll]\<rparr>
     | (m, Ended tx (Inr (Update_Error n i t))) \<Rightarrow> p\<lparr>failed_mods := failed_mods p @ [Update_Error n i t]\<rparr>
     | _ \<Rightarrow> p)"

definition payload_of :: "sync_env \<Rightarrow> cycle \<Rightarrow> update_payload" where
  "payload_of env c = fold (add_result env) (zip (tracked c) (slots c)) (empty_payload (length (tracked c)))"

text \<open>What \<open>check_for_updates\<close> returns or raises once its tasks are over.\<close>

definition check_for_updates :: "sync_env \<Rightarrow> cycle \<Rightarrow> update_exn + update_payload" where
  "check_for_updates env c = (case aborted c of Some e \<Rightarrow> Inl e | None \<Rightarrow> Inr (payload_of env c))"

section \<open>Background downloads\<close>

record sync_metrics =
  error_count :: nat
  error_types :: "(string, nat) dict"

definition increment_error_type :: "string \<Rightarrow> sync_metrics \<Rightarrow> sync_metrics" where
  "increment_error_type name m =
    m\<lparr>error_count := error_count m + 1, error_types := dset name (dget_or (error_types m) name 0 + 1) (error_types m)\<rparr>"

text \<open>
  The end of the task \<open>enqueue_download\<close> starts: the coroutine's error, by its class name and text, is logged
  as a failed task and counted whether or not the log could be written; cancellation passes through.
\<close>

definition download_wrapper ::
  "string \<Rightarrow> string \<Rightarrow> (string \<times> string) option \<Rightarrow> database option \<Rightarrow> sync_metrics \<Rightarrow> database option \<times> sync_metrics" where
  "download_wrapper now context failure db m =
    (case failure of
       None \<Rightarrow> (db, m)
     | Some (name, text) \<Rightarrow>
        (fst (log_tasks_batch [task_of now (None, ''download_mod'', ''failed'', context @ '' failed: '' @ text)] db),
         increment_error_type name m))"

section \<open>Transactions of the tasks\<close>

definition tx_state :: "journal \<Rightarrow> nat \<Rightarrow> transaction_status option" where
  "tx_state j n = map_option tx_status (get_transaction j n)"

definition closes :: "nat \<Rightarrow> transaction_status \<Rightarrow> journal \<Rightarrow> journal \<Rightarrow> bool" where
  "closes n st j j' \<longleftrightarrow> journal_ok j' \<and> last_tx j' = last_tx j \<and> tx_state j' n = Some st \<and> (\<forall>k. k \<noteq> n \<longrightarrow> tx_state j' k = tx_state j k)"

lemma find_map_id:
  "(\<And>r. tx_id (f r) = tx_id r) \<Longrightarrow> find (\<lambda>r. tx_id r = n) (map (\<lambda>r. if P r then f r else r) rs)
     = map_option (\<lambda>r. if P r then f r else r) (find (\<lambda>r. tx_id r = n) rs)"
  by (induction rs) auto

lemma tx_state_some: "tx_state j n = Some st \<longleftrightarrow> (\<exists>r. get_transaction j n = Some r \<and> tx_status r = st)"
  by (auto simp: tx_state_def)

lemma get_tx_id: "get_transaction j n = Some r \<Longrightarrow> tx_id r = n \<and> r \<in> set (transactions j)"
  by (auto simp: get_transaction_def find_Some_iff)

lemma commit_closes:
  assumes "journal_ok j" "tx_state j n = Some TX_PENDING"
  shows "\<exists>j'. commit_transaction j n now = (j', Inr ()) \<and> closes n TX_COMMITTED j j'"
proof -
  obtain r where r: "get_transaction j n = Some r" "tx_status r = TX_PENDING" using assms(2) by (auto simp: tx_state_some)
  then have hit: "list_ex (\<lambda>r. tx_id r = n \<and> tx_status r = TX_PENDING) (transactions j)"
    using get_tx_id[OF r(1)] by (auto simp: list_ex_iff)
  obtain j' where j': "commit_transaction j n now = (j', Inr ())" using hit by (auto simp: commit_transaction_def Let_def)
  have ok: "journal_ok j'" using journal_step_ok[OF j_commit[of j n now] assms(1)] j' by simp
  have tr: "transactions j' = map (\<lambda>r. if tx_id r = n \<and> tx_status r = TX_PENDING
      then r\<lparr>tx_status := TX_COMMITTED, tx_committed_at := Some now\<rparr> else r) (transactions j)" "last_tx j' = last_tx j"
    using j' hit by (auto simp: commit_transaction_def update_tx_def Let_def split: if_splits)
  have g: "get_transaction j' k = map_option (\<lambda>r. if tx_id r = n \<and> tx_status r = TX_PENDING
      then r\<lparr>tx_status := TX_COMMITTED, tx_committed_at := Some now\<rparr> else r) (get_transaction j k)" for k
    unfolding get_transaction_def tr(1) by (rule find_map_id) simp
  have "tx_state j' n = Some TX_COMMITTED" using r get_tx_id[OF r(1)] g by (simp add: tx_state_def)
  moreover have "tx_state j' k = tx_state j k" if "k \<noteq> n" for k
    using that get_tx_id[of j k] by (cases "get_transaction j k") (auto simp: tx_state_def g)
  ultimately show ?thesis using j' ok tr(2) by (auto simp: closes_def)
qed

lemma roll_back_closes:
  assumes "journal_ok j" "tx_state j n = Some st"
  shows "closes n TX_ROLLED_BACK j (mark_transaction_rolled_back j n now)"
proof -
  let ?j = "mark_transaction_rolled_back j n now"
  obtain r where r: "get_transaction j n = Some r" using assms(2) by (auto simp: tx_state_some)
  have g: "get_transaction ?j k = map_option (\<lambda>r. if tx_id r = n
      then r\<lparr>tx_status := TX_ROLLED_BACK, tx_rolled_back_at := Some now\<rparr> else r) (get_transaction j k)" for k
    unfolding get_transaction_def mark_transaction_rolled_back_def update_tx_def by (simp add: find_map_id)
  have "tx_state ?j n = Some TX_ROLLED_BACK" using r get_tx_id[OF r] g by (simp add: tx_state_def)
  moreover have "tx_state ?j k = tx_state j k" if "k \<noteq> n" for k
    using that get_tx_id[of j k] by (cases "get_transaction j k") (auto simp: tx_state_def g)
  moreover have "journal_ok ?j" "last_tx ?j = last_tx j"
    using journal_step_ok[OF j_roll_tx[of j n now] assms(1)] by (simp_all add: mark_transaction_rolled_back_def update_tx_def)
  ultimately show ?thesis by (simp add: closes_def)
qed

lemma begin_opens:
  assumes "journal_ok j" "begin_transaction j d m now = (j', n)"
  shows "n = Suc (last_tx j) \<and> journal_ok j' \<and> last_tx j' = n \<and> tx_state j' n = Some TX_PENDING \<and> (\<forall>k. k \<noteq> n \<longrightarrow> tx_state j' k = tx_state j k)"
proof -
  have n: "n = Suc (last_tx j)" "last_tx j' = n" using assms(2) by (auto simp: begin_transaction_def Let_def)
  let ?row = "\<lparr>tx_id = n, tx_mod = m, tx_description = d, tx_status = TX_PENDING, tx_created = now, tx_committed_at = None, tx_rolled_back_at = None\<rparr>"
  have tr: "transactions j' = transactions j @ [?row]" using assms(2) by (auto simp: begin_transaction_def Let_def)
  have "set (map tx_id (transactions j)) = {1..<Suc (last_tx j)}" using assms(1) by (metis journal_ok_def set_upt)
  then have "\<forall>r \<in> set (transactions j). tx_id r \<noteq> n" using n(1) by force
  then have "get_transaction j' n = Some ?row" unfolding get_transaction_def tr by (simp add: find_snoc_new)
  moreover have "get_transaction j' k = get_transaction j k" if "k \<noteq> n" for k
  proof -
    have "find (\<lambda>r. tx_id r = k) (xs @ [?row]) = find (\<lambda>r. tx_id r = k) xs" for xs using that by (induction xs) auto
    then show ?thesis by (simp add: get_transaction_def tr)
  qed
  moreover have "journal_ok j'" using journal_step_ok[OF j_begin[of j d m now] assms(1)] assms(2) by simp
  ultimately show ?thesis using n by (auto simp: tx_state_def)
qed

lemma closes_trans: "closes n st j j' \<Longrightarrow> closes n st' j' j'' \<Longrightarrow> closes n st' j j''"
  by (simp add: closes_def)

text \<open>The report of a task whose changes were kept.\<close>

fun kept :: "report \<Rightarrow> bool" where
  "kept (Updated n i old new f r) = True"
| "kept (Up_To_Date n) = True"
| "kept (Update_Error n i t) = False"

definition journal_after :: "nat \<Rightarrow> journal \<Rightarrow> shared \<Rightarrow> update_exn + report \<Rightarrow> bool" where
  "journal_after n j s r \<longleftrightarrow> (\<exists>j'. sh_journal s = Some j' \<and> (case r of
     Inl e \<Rightarrow> j' = j
   | Inr rep \<Rightarrow> if kept rep then closes n TX_COMMITTED j j' else closes n TX_COMMITTED j j' \<or> closes n TX_ROLLED_BACK j j'))"

lemma commit_and_after:
  assumes "sh_journal s = Some j" "journal_ok j" "tx_state j n = Some TX_PENDING" "commit_and (Some n) now rep s = (s', r)"
  shows "r = Inr rep \<and> journal_after n j s' r"
proof -
  obtain j' where c: "commit_transaction j n now = (j', Inr ())" "closes n TX_COMMITTED j j'"
    using commit_closes[OF assms(2,3)] by blast
  then show ?thesis using assms(1,4) by (auto simp: commit_and_def commit_tx_def journal_after_def)
qed

lemma write_update_journal: "write_update ans m info v url s = (s', r) \<Longrightarrow> sh_journal s' = sh_journal s"
  by (cases "case dget info ''name'' of None \<Rightarrow> Some (mod_name m) | Some v \<Rightarrow> bind_text v")
    (auto simp: write_update_def split: prod.splits sum.splits)

lemma update_body_after:
  assumes "sh_journal s = Some j" "journal_ok j" "tx_state j n = Some TX_PENDING" "update_body ans m (Some n) s = (s', r)"
  shows "journal_after n j s' r"
proof -
  note commits = commit_and_after[OF assms(1-3)]
  have roll: "journal_after n j (roll_back_tx (Some n) now s) (Inr (Update_Error a b c))" for now a b c
    using roll_back_closes[OF assms(2,3)] assms(1) by (simp add: journal_after_def roll_back_tx_def)
  have stay: "sh_journal t = sh_journal s \<Longrightarrow> journal_after n j t (Inl e)" for t e
    using assms(1) by (simp add: journal_after_def)
  have wr: "journal_after n j s' r" if "write_update ans m info v url s = (s1, Inr ())" "commit_and (Some n) now rep s1 = (s', r)" for info v url s1 now rep
  proof -
    have "sh_journal s1 = Some j" using write_update_journal[OF that(1)] assms(1) by simp
    then show ?thesis using commit_and_after[OF _ assms(2,3) that(2)] by blast
  qed
  show ?thesis
    using assms(4) unfolding update_body_def Let_def
    by (auto split: sum.splits if_splits json.splits option.splits decision.splits prod.splits
        dest: commits wr write_update_journal intro: stay roll simp: roll)
qed

lemma finish_update_after:
  assumes "sh_journal s = Some j" "journal_ok j" "tx_state j n = Some TX_PENDING" "finish_update env ans m (Some n) s = (s', r)"
  shows "\<exists>j' st. sh_journal s' = Some j' \<and> closes n st j j' \<and> st \<in> {TX_COMMITTED, TX_ROLLED_BACK}
    \<and> (\<forall>rep. r = Inr rep \<longrightarrow> kept rep \<longrightarrow> st = TX_COMMITTED)"
proof -
  obtain s1 r1 where b: "update_body ans m (Some n) s = (s1, r1)" by fastforce
  note a = update_body_after[OF assms(1-3) b]
  show ?thesis
  proof (cases r1)
    case (Inl e)
    then have "sh_journal s1 = Some j" using a by (simp add: journal_after_def)
    then have "sh_journal s' = Some (mark_transaction_rolled_back j n (t_journal ans))" "\<forall>rep. r = Inr rep \<longrightarrow> \<not> kept rep"
      using assms(4) b Inl by (auto simp: finish_update_def roll_back_tx_def split: if_splits)
    then show ?thesis using roll_back_closes[OF assms(2,3)] by blast
  next
    case (Inr rep)
    then have "s' = s1" "r = Inr rep" using assms(4) b by (auto simp: finish_update_def)
    then show ?thesis using a Inr by (auto simp: journal_after_def split: if_splits)
  qed
qed

section \<open>The cycle ends\<close>

fun slot_work :: "slot \<Rightarrow> nat" where
  "slot_work Queued = 2"
| "slot_work (Running tx) = 1"
| "slot_work (Ended tx r) = 0"

definition cycle_work :: "cycle \<Rightarrow> nat" where
  "cycle_work c = (if aborted c = None then Suc (sum_list (map slot_work (slots c))) else 0)"

definition matched :: "cycle \<Rightarrow> bool" where
  "matched c \<longleftrightarrow> length (slots c) = length (tracked c)"

lemma cycle_step_cases:
  assumes "cycle_step env a c = Some c'"
  obtains (start) i now s tx where "a = Begin_Mod i now" "i < length (slots c)" "slots c ! i = Queued" "begin_update (tracked c ! i) now (world c) = (s, tx)"
      "c' = c\<lparr>slots := (slots c)[i := Running tx], world := s\<rparr>" "aborted c = None"
  | (finish) i ans tx s r where "a = Finish_Mod i ans" "i < length (slots c)" "slots c ! i = Running tx" "finish_update env ans (tracked c ! i) tx (world c) = (s, r)"
      "c' = c\<lparr>slots := (slots c)[i := Ended tx r], world := s\<rparr>" "aborted c = None" "\<And>e. r = Inl e \<Longrightarrow> isolated e"
  | (abort) i ans tx s e where "a = Finish_Mod i ans" "i < length (slots c)" "slots c ! i = Running tx" "finish_update env ans (tracked c ! i) tx (world c) = (s, Inl e)"
      "c' = c\<lparr>world := s, aborted := Some e\<rparr>" "\<not> isolated e" "aborted c = None"
  using assms by (auto simp: cycle_step_def split: if_splits cycle_action.splits prod.splits slot.splits sum.splits)

lemma slot_sum:
  fixes xs :: "slot list"
  assumes "i < length xs" "slot_work x < slot_work (xs ! i)"
  shows "sum_list (map slot_work (xs[i := x])) < sum_list (map slot_work xs)"
proof -
  have "sum_list (map slot_work (xs[i := x])) + slot_work (xs ! i) = sum_list (map slot_work xs) + slot_work x"
    using assms(1)
  proof (induction xs arbitrary: i)
    case (Cons y ys)
    then show ?case by (cases i) auto
  qed simp
  then show ?thesis using assms(2) by linarith
qed

lemma cycle_step_work: "cycle_step env a c = Some c' \<Longrightarrow> cycle_work c' < cycle_work c"
  by (erule cycle_step_cases) (auto simp: cycle_work_def intro!: slot_sum)

lemma cycle_can_move:
  assumes "\<not> cycle_over c"
  shows "\<exists>a c'. cycle_step env a c = Some c'"
proof -
  have ab: "aborted c = None" and ne: "\<exists>x \<in> set (slots c). \<not> has_ended x" using assms by (auto simp: cycle_over_def list_all_iff)
  show ?thesis
  proof (cases "\<exists>x \<in> set (slots c). is_running x")
    case True
    then obtain i where i: "i < length (slots c)" "is_running (slots c ! i)" by (metis in_set_conv_nth)
    then obtain tx where tx: "slots c ! i = Running tx" by (cases "slots c ! i") auto
    obtain ans :: answers where True by blast
    obtain s r where "finish_update env ans (tracked c ! i) tx (world c) = (s, r)" by fastforce
    then have "cycle_step env (Finish_Mod i ans) c \<noteq> None" using ab i(1) tx by (auto simp: cycle_step_def split: sum.split)
    then show ?thesis by blast
  next
    case False
    then have none: "filter is_running (slots c) = []" by (simp add: filter_empty_conv)
    from ne obtain i where i: "i < length (slots c)" "\<not> has_ended (slots c ! i)" by (metis in_set_conv_nth)
    have "\<not> is_running (slots c ! i)" using False i(1) nth_mem by blast
    with i have "slots c ! i = Queued" by (cases "slots c ! i") auto
    then have "cycle_step env (Begin_Mod i 0) c \<noteq> None" using ab i(1) none by (auto simp: cycle_step_def LIFECYCLES_def split: prod.split)
    then show ?thesis by blast
  qed
qed

interpretation updates: settling "cycle_step env" matched cycle_over cycle_work for env
proof
  show "matched c'" if "matched c" "cycle_step env a c = Some c'" for c a c'
    using that(2,1) by (cases rule: cycle_step_cases) (auto simp: matched_def)
qed (use cycle_step_work cycle_can_move in \<open>blast+\<close>)

fun report_name :: "report \<Rightarrow> string" where
  "report_name (Updated n i old new f r) = n"
| "report_name (Up_To_Date n) = n"
| "report_name (Update_Error n i t) = n"

lemma commit_and_report: "commit_and tx now rep s = (s', Inr rep') \<Longrightarrow> rep' = rep"
  by (auto simp: commit_and_def split: prod.splits sum.splits)

lemma finish_update_name: "finish_update env ans m tx s = (s', Inr rep) \<Longrightarrow> report_name rep = mod_name m"
  by (auto simp: finish_update_def update_body_def Let_def split: prod.splits sum.splits if_splits json.splits option.splits decision.splits
      dest!: commit_and_report)

definition named :: "cycle \<Rightarrow> bool" where
  "named c \<longleftrightarrow> matched c \<and> (\<forall>i tx rep. i < length (slots c) \<longrightarrow> slots c ! i = Ended tx (Inr rep) \<longrightarrow> report_name rep = mod_name (tracked c ! i))"

lemma named_step: "cycle_step env a c = Some c' \<Longrightarrow> named c \<Longrightarrow> named c'"
  by (erule cycle_step_cases) (auto simp: named_def matched_def nth_list_update dest: finish_update_name)

lemma tracked_step: "cycle_step env a c = Some c' \<Longrightarrow> tracked c' = tracked c"
  by (erule cycle_step_cases) auto

lemma run_named: "run_actions (cycle_step env) as c = Some c' \<Longrightarrow> named c \<Longrightarrow> named c' \<and> tracked c' = tracked c"
proof (induction as arbitrary: c)
  case (Cons a as)
  then obtain u where u: "cycle_step env a c = Some u" "run_actions (cycle_step env) as u = Some c'" by (auto split: option.splits)
  show ?case using Cons.IH[OF u(2)] named_step[OF u(1) Cons.prems(2)] tracked_step[OF u(1)] by simp
qed simp

text \<open>The payload lists every mod once.\<close>

definition payload_names :: "update_payload \<Rightarrow> string multiset" where
  "payload_names p = mset (map report_name (updated_mods p) @ map report_name (failed_mods p) @ up_to_date_mods p)"

lemma add_result_names:
  "(\<And>rep. r = Inr rep \<Longrightarrow> report_name rep = mod_name m) \<Longrightarrow>
   payload_names (add_result env (m, Ended tx r) p) = add_mset (mod_name m) (payload_names p)"
  by (cases r) (auto simp: add_result_def payload_names_def split: report.splits)

lemma fold_names:
  "length ms = length ss \<Longrightarrow> (\<forall>i < length ss. \<exists>tx r. ss ! i = Ended tx r \<and> (\<forall>rep. r = Inr rep \<longrightarrow> report_name rep = mod_name (ms ! i))) \<Longrightarrow>
   payload_names (fold (add_result env) (zip ms ss) p) = mset (map mod_name ms) + payload_names p"
proof (induction ms ss arbitrary: p rule: list_induct2)
  case (Cons m ms s ss)
  then obtain tx r where r: "s = Ended tx r" "\<forall>rep. r = Inr rep \<longrightarrow> report_name rep = mod_name m"
    by (metis length_Cons nth_Cons_0 zero_less_Suc)
  have "\<forall>i < length ss. \<exists>tx r. ss ! i = Ended tx r \<and> (\<forall>rep. r = Inr rep \<longrightarrow> report_name rep = mod_name (ms ! i))"
    using Cons.prems by (metis Suc_less_eq length_Cons nth_Cons_Suc)
  from Cons.IH[OF this, of "add_result env (m, s) p"] show ?case using r add_result_names[of r m env tx p] by simp
qed simp

text \<open>
  C31: an update cycle of n mods is over after at most 2n + 1 steps of its tasks, none of which can block the others
  (at most 15 run at a time); when no exception is passed on, its payload names every tracked mod exactly once, as
  updated, failed or up to date.
\<close>

theorem update_cycle_reports_every_mod:
  assumes "run_actions (cycle_step env) acts (cycle_start s r) = Some c"
  shows "length acts \<le> 2 * length (filter installed (search_mods [] r)) + 1
    \<and> (\<not> cycle_over c \<longrightarrow> (\<exists>a c'. cycle_step env a c = Some c'))
    \<and> (\<forall>p. cycle_over c \<longrightarrow> check_for_updates env c = Inr p \<longrightarrow>
         payload_names p = mset (map mod_name (filter installed (search_mods [] r))))"
proof -
  let ?c0 = "cycle_start s r" and ?ms = "filter installed (search_mods [] r)"
  have m0: "matched ?c0" by (simp add: matched_def cycle_start_def Let_def)
  have "cycle_work ?c0 = 2 * length ?ms + 1" by (simp add: cycle_work_def cycle_start_def Let_def sum_list_replicate)
  then have bound: "length acts \<le> 2 * length ?ms + 1" using updates.run_bounded[OF m0 assms] by simp
  have "named ?c0" using m0 by (simp add: named_def cycle_start_def Let_def)
  from run_named[OF assms this] have n: "named c" "tracked c = ?ms" by (simp_all add: cycle_start_def Let_def)
  have "payload_names p = mset (map mod_name ?ms)" if "cycle_over c" "check_for_updates env c = Inr p" for p
  proof -
    have p: "aborted c = None" "p = payload_of env c" using that(2) by (auto simp: check_for_updates_def split: option.splits)
    then have e: "\<forall>x \<in> set (slots c). has_ended x" using that(1) by (simp add: cycle_over_def list_all_iff)
    have "\<exists>tx r. slots c ! i = Ended tx r \<and> (\<forall>rep. r = Inr rep \<longrightarrow> report_name rep = mod_name (tracked c ! i))" if "i < length (slots c)" for i
    proof -
      have "has_ended (slots c ! i)" using e that by simp
      then show ?thesis using n(1) that by (cases "slots c ! i") (auto simp: named_def)
    qed
    then show ?thesis using fold_names[of "tracked c" "slots c" env] n p(2)
      by (simp add: payload_of_def named_def matched_def payload_names_def empty_payload_def)
  qed
  then show ?thesis using bound cycle_can_move by blast
qed

section \<open>The journal after the cycle\<close>

fun slot_tx :: "slot \<Rightarrow> nat option" where
  "slot_tx Queued = None"
| "slot_tx (Running tx) = tx"
| "slot_tx (Ended tx r) = tx"

fun slot_settled :: "journal \<Rightarrow> nat \<Rightarrow> slot \<Rightarrow> bool" where
  "slot_settled j base Queued = True"
| "slot_settled j base (Running tx) = (\<exists>n. tx = Some n \<and> base < n \<and> n \<le> last_tx j \<and> tx_state j n = Some TX_PENDING)"
| "slot_settled j base (Ended tx r) = (\<exists>n. tx = Some n \<and> base < n \<and> n \<le> last_tx j \<and> tx_state j n \<in> {Some TX_COMMITTED, Some TX_ROLLED_BACK}
     \<and> (\<forall>rep. r = Inr rep \<longrightarrow> kept rep \<longrightarrow> tx_state j n = Some TX_COMMITTED))"

definition tx_inv :: "journal \<Rightarrow> cycle \<Rightarrow> bool" where
  "tx_inv j0 c \<longleftrightarrow> aborted c \<noteq> None \<or> (\<exists>j. sh_journal (world c) = Some j \<and> journal_ok j \<and> last_tx j0 \<le> last_tx j
    \<and> (\<forall>i < length (slots c). slot_settled j (last_tx j0) (slots c ! i))
    \<and> (\<forall>i k n. i < length (slots c) \<longrightarrow> k < length (slots c) \<longrightarrow> slot_tx (slots c ! i) = Some n \<longrightarrow> slot_tx (slots c ! k) = Some n \<longrightarrow> i = k)
    \<and> (\<forall>n. last_tx j0 < n \<longrightarrow> n \<le> last_tx j \<longrightarrow> (\<exists>i < length (slots c). slot_tx (slots c ! i) = Some n))
    \<and> (\<forall>n \<le> last_tx j0. tx_state j n = tx_state j0 n))"

lemma slot_settled_other:
  assumes "slot_settled j base s" "last_tx j \<le> last_tx j'" "\<forall>k. k \<noteq> n \<longrightarrow> tx_state j' k = tx_state j k" "slot_tx s \<noteq> Some n"
  shows "slot_settled j' base s"
  using assms by (cases s) (auto intro: order_trans)

lemma slot_tx_bound: "slot_settled j base s \<Longrightarrow> slot_tx s = Some n \<Longrightarrow> base < n \<and> n \<le> last_tx j"
  by (cases s) auto

lemma tx_inv_step:
  assumes "cycle_step env a c = Some c'" "tx_inv j0 c"
  shows "tx_inv j0 c'"
  using assms(1)
proof (cases rule: cycle_step_cases)
  case (start i now s tx)
  obtain j where j: "sh_journal (world c) = Some j" "journal_ok j" "last_tx j0 \<le> last_tx j"
    "\<forall>i < length (slots c). slot_settled j (last_tx j0) (slots c ! i)"
    "\<forall>i k n. i < length (slots c) \<longrightarrow> k < length (slots c) \<longrightarrow> slot_tx (slots c ! i) = Some n \<longrightarrow> slot_tx (slots c ! k) = Some n \<longrightarrow> i = k"
    "\<forall>n. last_tx j0 < n \<longrightarrow> n \<le> last_tx j \<longrightarrow> (\<exists>i < length (slots c). slot_tx (slots c ! i) = Some n)"
    "\<forall>n \<le> last_tx j0. tx_state j n = tx_state j0 n" using assms(2) start(6) unfolding tx_inv_def by auto
  obtain j' n where b: "begin_transaction j (''update_'' @ mod_name (tracked c ! i)) (Some (nexus_id (tracked c ! i))) now = (j', n)" by fastforce
  then have s: "sh_journal s = Some j'" "tx = Some n" using start(4) j(1) by (auto simp: begin_update_def)
  note o = begin_opens[OF j(2) b]
  have old: "slot_tx (slots c ! k) \<noteq> Some n" if "k < length (slots c)" for k
    using slot_tx_bound j(4) that o by fastforce
  have "slot_settled j' (last_tx j0) (slots c' ! k)" if "k < length (slots c')" for k
    using that start(2,5) o s(2) j(3,4) old[of k] slot_settled_other[of j "last_tx j0" "slots c ! k" j' n] by (cases "k = i") auto
  moreover have "l = k" if "l < length (slots c')" "k < length (slots c')" "slot_tx (slots c' ! l) = Some m" "slot_tx (slots c' ! k) = Some m" for l k m
    using that start(2,5) s(2) j(5) old[of l] old[of k] by (cases "l = i"; cases "k = i") auto
  moreover have "\<exists>k < length (slots c'). slot_tx (slots c' ! k) = Some m" if m: "last_tx j0 < m" "m \<le> last_tx j'" for m
  proof (cases "m = n")
    case True
    then show ?thesis using start(2,5) s(2) by (intro exI[of _ i]) auto
  next
    case False
    then obtain k where "k < length (slots c)" "slot_tx (slots c ! k) = Some m" using j(6) m o by (metis le_SucE)
    then show ?thesis using start(2,3,5) by (intro exI[of _ k]) (auto simp: nth_list_update)
  qed
  moreover have "\<forall>m \<le> last_tx j0. tx_state j' m = tx_state j0 m" using j(3,7) o by auto
  ultimately show ?thesis using start(5) s o j(3) unfolding tx_inv_def by auto
next
  case (finish i ans tx s r)
  obtain j where j: "sh_journal (world c) = Some j" "journal_ok j" "last_tx j0 \<le> last_tx j"
    "\<forall>i < length (slots c). slot_settled j (last_tx j0) (slots c ! i)"
    "\<forall>i k n. i < length (slots c) \<longrightarrow> k < length (slots c) \<longrightarrow> slot_tx (slots c ! i) = Some n \<longrightarrow> slot_tx (slots c ! k) = Some n \<longrightarrow> i = k"
    "\<forall>n. last_tx j0 < n \<longrightarrow> n \<le> last_tx j \<longrightarrow> (\<exists>i < length (slots c). slot_tx (slots c ! i) = Some n)"
    "\<forall>n \<le> last_tx j0. tx_state j n = tx_state j0 n" using assms(2) finish(6) unfolding tx_inv_def by auto
  obtain n where n: "tx = Some n" "last_tx j0 < n" "n \<le> last_tx j" "tx_state j n = Some TX_PENDING" using j(4) finish(2,3) by force
  obtain j' st where f: "sh_journal s = Some j'" "closes n st j j'" "st \<in> {TX_COMMITTED, TX_ROLLED_BACK}"
    "\<forall>rep. r = Inr rep \<longrightarrow> kept rep \<longrightarrow> st = TX_COMMITTED"
    using finish_update_after[OF j(1,2) n(4)] finish(4) n(1) by blast
  have same: "slot_tx (slots c' ! k) = slot_tx (slots c ! k)" "length (slots c') = length (slots c)" for k
    using finish(2,3,5) by (cases "k = i"; auto)+
  have "slot_settled j' (last_tx j0) (slots c' ! k)" if "k < length (slots c')" for k
  proof (cases "k = i")
    case True
    then show ?thesis using finish(2,5) n f by (auto simp: closes_def)
  next
    case False
    then have "slot_tx (slots c ! k) \<noteq> Some n" using j(5) finish(2,3) n(1) that same(2) by (metis slot_tx.simps(2))
    then show ?thesis using False that finish(5) j(4) f(2) slot_settled_other[of j "last_tx j0" "slots c ! k" j' n] by (auto simp: closes_def)
  qed
  then show ?thesis using finish(5) f(1,2) j(3,5,6,7) n(2) same unfolding tx_inv_def closes_def
    by (intro disjI2 exI[of _ j']) auto
next
  case (abort i ans tx s e)
  then show ?thesis by (simp add: tx_inv_def)
qed

lemma run_tx_inv: "run_actions (cycle_step env) as c = Some c' \<Longrightarrow> tx_inv j0 c \<Longrightarrow> tx_inv j0 c'"
  by (induction as arbitrary: c) (auto split: option.splits dest: tx_inv_step)

text \<open>
  With a journal, an update cycle that returns has closed every transaction it began: none is left pending,
  those of the mods reported updated or up to date are committed, and the older ones are as they were.
\<close>

theorem update_cycle_closes_transactions:
  assumes "journal_ok j0" "sh_journal s = Some j0" "run_actions (cycle_step env) acts (cycle_start s r) = Some c"
    and "cycle_over c" "check_for_updates env c = Inr p"
  shows "\<exists>j. sh_journal (world c) = Some j \<and> journal_ok j
    \<and> (\<forall>n. last_tx j0 < n \<longrightarrow> n \<le> last_tx j \<longrightarrow> tx_state j n \<in> {Some TX_COMMITTED, Some TX_ROLLED_BACK})
    \<and> (\<forall>n \<le> last_tx j0. tx_state j n = tx_state j0 n)
    \<and> (\<forall>i tx rep. i < length (slots c) \<longrightarrow> slots c ! i = Ended tx (Inr rep) \<longrightarrow> kept rep \<longrightarrow>
         (\<exists>n. tx = Some n \<and> tx_state j n = Some TX_COMMITTED))"
proof -
  have "tx_inv j0 (cycle_start s r)" using assms(1,2) by (auto simp: tx_inv_def cycle_start_def Let_def)
  from run_tx_inv[OF assms(3) this] have i: "tx_inv j0 c" .
  have ab: "aborted c = None" using assms(5) by (auto simp: check_for_updates_def split: option.splits)
  then have e: "\<forall>i < length (slots c). has_ended (slots c ! i)" using assms(4) by (simp add: cycle_over_def list_all_length)
  obtain j where j: "sh_journal (world c) = Some j" "journal_ok j" "\<forall>i < length (slots c). slot_settled j (last_tx j0) (slots c ! i)"
    "\<forall>n. last_tx j0 < n \<longrightarrow> n \<le> last_tx j \<longrightarrow> (\<exists>i < length (slots c). slot_tx (slots c ! i) = Some n)"
    "\<forall>n \<le> last_tx j0. tx_state j n = tx_state j0 n" using i ab unfolding tx_inv_def by auto
  have "tx_state j n \<in> {Some TX_COMMITTED, Some TX_ROLLED_BACK}" if "last_tx j0 < n" "n \<le> last_tx j" for n
  proof -
    note n = that
    obtain i where k: "i < length (slots c)" "slot_tx (slots c ! i) = Some n" using j(4) n by blast
    then obtain r where "slots c ! i = Ended (Some n) r" using e by (cases "slots c ! i") auto
    then show ?thesis using j(3) k(1) by force
  qed
  moreover have "\<exists>n. tx = Some n \<and> tx_state j n = Some TX_COMMITTED"
    if "i < length (slots c)" "slots c ! i = Ended tx (Inr rep)" "kept rep" for i tx rep
    using j(3) that by force
  ultimately show ?thesis using j(1,2,5) by blast
qed

section \<open>One update\<close>

text \<open>
  The failure of one mod's download is not isolated: a \<open>DownloadError\<close> (a wrong hash, an unknown file, a
  missing key) is of no class the cycle expects, so it aborts the cycle, whose result is lost.
\<close>

theorem failed_download_aborts_cycle:
  assumes "aborted c = None" "i < length (slots c)" "slots c ! i = Running tx"
    and "fetched ans = Inr (JDict info)" "field_text info ''version'' [] \<notin> {[], mod_version (tracked c ! i)}"
    and "file_url ans = Some (Inr url)" "operator ans \<in> {None, Some (Inr Approved)}" "downloaded ans = Inl (Failed_Else x)"
  shows "\<exists>c'. cycle_step env (Finish_Mod i ans) c = Some c' \<and> check_for_updates env c' = Inl (Failed_Else x)
    \<and> (\<forall>a. cycle_step env a c' = None)"
proof -
  have "info \<noteq> []" using assms(5) by (auto simp: field_text_def)
  then have b: "update_body ans (tracked c ! i) tx (world c) = (world c, Inl (Failed_Else x))"
    using assms by (auto simp: update_body_def Let_def split: option.split)
  then show ?thesis using assms(1-3) by (auto simp: cycle_step_def finish_update_def check_for_updates_def)
qed

lemma get_mod_update: "get_mod n r = Some m \<Longrightarrow> (\<And>x. nexus_id (f x) = nexus_id x) \<Longrightarrow> get_mod n (update_mods n f r) = Some (f m)"
proof -
  assume a: "get_mod n r = Some m" "\<And>x. nexus_id (f x) = nexus_id x"
  have "find (\<lambda>m. nexus_id m = n) (map (\<lambda>m. if nexus_id m = n then f m else m) xs) = map_option f (find (\<lambda>m. nexus_id m = n) xs)" for xs
    by (induction xs) (auto simp: a(2))
  then show ?thesis using a(1) by (simp add: get_mod_def update_mods_def)
qed

lemma get_mod_upsert:
  "\<exists>m'. get_mod (v_nexus v) (upsert_mod_sql burn now v r) = Some m' \<and> mod_version m' = v_version v \<and> mod_name m' = v_name v
     \<and> (\<forall>m. get_mod (v_nexus v) r = Some m \<longrightarrow> installed m' = installed m \<and> enabled_in_vfs m' = enabled_in_vfs m)"
proof (cases "get_mod (v_nexus v) r")
  case None
  then have "find (\<lambda>m. nexus_id m = v_nexus v) (mods r @ [x]) = (if nexus_id x = v_nexus v then Some x else None)" for x
    unfolding get_mod_def by (induction "mods r") (auto simp: find_snoc_new find_None_iff)
  with None show ?thesis by (simp add: upsert_mod_sql_def upsert_sql_def get_mod_def new_row_def Let_def)
next
  case (Some m)
  then have "get_mod (v_nexus v) (upsert_mod_sql burn now v r) = Some (with_values now (v\<lparr>v_installed := False, v_enabled := False\<rparr>) m)"
    using get_mod_update[OF Some, of "with_values now (v\<lparr>v_installed := False, v_enabled := False\<rparr>)"]
    by (simp add: upsert_mod_sql_def upsert_sql_def Let_def get_mod_def with_values_def)
  then show ?thesis using Some by (simp add: with_values_def)
qed

lemma write_update_row:
  assumes "write_update ans m info ver url s = (s', Inr u)"
  shows "\<exists>d d' m'. sh_store s = Some d \<and> sh_store s' = Some d' \<and> get_mod (nexus_id m) (committed d') = Some m'
    \<and> mod_version m' = ver \<and> (\<forall>m0. get_mod (nexus_id m) (working d) = Some m0 \<longrightarrow> installed m' = installed m0)"
proof -
  obtain nm d where d: "(case dget info ''name'' of None \<Rightarrow> Some (mod_name m) | Some v \<Rightarrow> bind_text v) = Some nm" "sh_store s = Some d"
    using assms by (auto simp: write_update_def upsert_mod_def split: option.splits)
  let ?v = "update_values m info nm ver url"
  let ?r = "upsert_mod_sql (burn_id ans) (t_write ans) ?v (working d)"
  have v: "v_nexus ?v = nexus_id m" "v_version ?v = ver" by (simp_all add: update_values_def)
  obtain m' where m: "get_mod (nexus_id m) ?r = Some m'" "mod_version m' = ver"
    "\<forall>m0. get_mod (nexus_id m) (working d) = Some m0 \<longrightarrow> installed m' = installed m0"
    using get_mod_upsert[of ?v "burn_id ans" "t_write ans" "working d"] unfolding v by auto
  have "get_mod (nexus_id m) (r\<lparr>task_log := l\<rparr>) = get_mod (nexus_id m) r" for r l by (simp add: get_mod_def)
  then have "\<exists>d'. sh_store s' = Some d' \<and> get_mod (nexus_id m) (committed d') = Some m'"
    using assms d(2) m(1) v unfolding write_update_def d(1)
    by (auto simp: upsert_mod_def Let_def log_tasks_batch_def batch_write_def execute_many_def log_task_sql_def task_of_def
        commit_def rollback_def split: option.splits)
  then show ?thesis using d m by blast
qed

text \<open>
  An update, once done, is not done again: after a report of a new version the committed row of the mod has
  that version (and keeps its installed flag), and the same metadata then lead to the report that it is up to date,
  without a download.
\<close>

theorem update_is_idempotent:
  assumes "finish_update env ans m tx s = (s', Inr (Updated n i old new file roll))" "fetched ans = Inr (JDict info)"
  shows "\<exists>d d' m'. sh_store s = Some d \<and> sh_store s' = Some d' \<and> get_mod (nexus_id m) (committed d') = Some m' \<and> mod_version m' = new
    \<and> (\<forall>m0. get_mod (nexus_id m) (working d) = Some m0 \<longrightarrow> installed m' = installed m0)
    \<and> (\<forall>ans2 tx2 s2. fetched ans2 = fetched ans \<longrightarrow> update_body ans2 m' tx2 s2 = commit_and tx2 (t_journal ans2) (Up_To_Date (mod_name m')) s2)"
proof -
  let ?ver = "field_text info ''version'' []"
  obtain url s1 u where w: "info \<noteq> []" "?ver \<noteq> []" "write_update ans m info ?ver url s = (s1, Inr u)"
    "commit_and tx (t_journal ans) (Updated (mod_name m) (nexus_id m) (mod_version m) ?ver file tx) s1 = (s', Inr (Updated n i old new file roll))"
    using assms by (auto simp: finish_update_def update_body_def Let_def split: prod.splits sum.splits if_splits option.splits decision.splits
        dest: commit_and_report)
  have new: "new = ?ver" using commit_and_report[OF w(4)] by simp
  obtain d d' m' where r: "sh_store s = Some d" "sh_store s1 = Some d'" "get_mod (nexus_id m) (committed d') = Some m'" "mod_version m' = ?ver"
    "\<forall>m0. get_mod (nexus_id m) (working d) = Some m0 \<longrightarrow> installed m' = installed m0"
    using write_update_row[OF w(3)] by blast
  have "sh_store s' = Some d'" using w(4) r(2) by (auto simp: commit_and_def commit_tx_def split: option.splits prod.splits sum.splits journal_error.splits)
  moreover have "update_body ans2 m' tx2 s2 = commit_and tx2 (t_journal ans2) (Up_To_Date (mod_name m')) s2"
    if "fetched ans2 = fetched ans" for ans2 tx2 s2
    using that assms(2) w(1) r(4) by (simp add: update_body_def Let_def)
  ultimately show ?thesis using r new by blast
qed

definition demo_mod :: mod_row where
  "demo_mod = \<lparr>mod_id = 1, nexus_id = 7, mod_name = ''A'', mod_version = ''1'', author = [], category = [], download_url = [],
     installed = True, enabled_in_vfs = True, created_at = [], updated_at = []\<rparr>"

definition demo_world :: shared where
  "demo_world = \<lparr>sh_journal = Some new_journal,
     sh_store = Some (autocommitted (empty_registry\<lparr>mods := [demo_mod], mod_seq := 1\<rparr>))\<rparr>"

definition demo_answers :: "string \<Rightarrow> answers" where
  "demo_answers v = \<lparr>fetched = Inr (JDict [(''version'', JStr v)]), file_url = Some (Inr ''u''), operator = None, downloaded = Inr ''f'',
     t_write = ''t'', t_journal = 5, burn_id = False\<rparr>"

definition demo_update_env :: sync_env where
  "demo_update_env = \<lparr>meta_modid = (\<lambda>_. Inr None), float_int = (\<lambda>_. None), circuit_text = ''open''\<rparr>"

definition demo_cycle :: "cycle option" where
  "demo_cycle = run_actions (cycle_step demo_update_env) [Begin_Mod 0 4, Finish_Mod 0 (demo_answers ''2'')]
     (cycle_start demo_world (empty_registry\<lparr>mods := [demo_mod], mod_seq := 1\<rparr>))"

lemma demo_cycle_over:
  "case demo_cycle of None \<Rightarrow> False | Some c \<Rightarrow> cycle_over c \<and> aborted c = None \<and> slots c = [Ended (Some 1) (Inr (Updated ''A'' 7 ''1'' ''2'' ''f'' (Some 1)))]"
  by code_simp

theorem update_cycle_reports_every_mod_witness:
  "\<exists>c p. demo_cycle = Some c \<and> check_for_updates demo_update_env c = Inr p \<and> payload_names p = {#''A''#}"
proof -
  obtain c where c: "demo_cycle = Some c" "cycle_over c" "aborted c = None" using demo_cycle_over by (auto split: option.splits)
  then have "check_for_updates demo_update_env c = Inr (payload_of demo_update_env c)" by (simp add: check_for_updates_def)
  moreover have "map mod_name (filter installed (search_mods [] (empty_registry\<lparr>mods := [demo_mod], mod_seq := 1\<rparr>))) = [''A'']" by code_simp
  ultimately show ?thesis using update_cycle_reports_every_mod[OF c(1)[unfolded demo_cycle_def]] c by auto
qed

theorem update_cycle_closes_transactions_witness:
  "\<exists>c j. demo_cycle = Some c \<and> sh_journal (world c) = Some j \<and> tx_state j 1 = Some TX_COMMITTED"
proof -
  obtain c where c: "demo_cycle = Some c" "cycle_over c" "aborted c = None"
    "slots c = [Ended (Some 1) (Inr (Updated ''A'' 7 ''1'' ''2'' ''f'' (Some 1)))]"
    using demo_cycle_over by (auto split: option.splits)
  then have p: "check_for_updates demo_update_env c = Inr (payload_of demo_update_env c)" by (simp add: check_for_updates_def)
  have "sh_journal demo_world = Some new_journal" by (simp add: demo_world_def)
  from update_cycle_closes_transactions[OF new_journal_ok this c(1)[unfolded demo_cycle_def] c(2) p] c(1,4) show ?thesis by fastforce
qed

theorem failed_download_aborts_cycle_witness:
  "\<exists>c'. cycle_step demo_update_env (Finish_Mod 0 ((demo_answers ''2'')\<lparr>downloaded := Inl (Failed_Else ''404'')\<rparr>))
     \<lparr>tracked = [demo_mod], slots = [Running None], world = demo_world, aborted = None\<rparr> = Some c'
     \<and> check_for_updates demo_update_env c' = Inl (Failed_Else ''404'')"
proof -
  let ?c = "\<lparr>tracked = [demo_mod], slots = [Running None], world = demo_world, aborted = None\<rparr>"
  have "field_text [(''version'', JStr ''2'')] ''version'' [] \<notin> {[], mod_version (tracked ?c ! 0)}" by code_simp
  then show ?thesis
    using failed_download_aborts_cycle[of ?c 0 None "(demo_answers ''2'')\<lparr>downloaded := Inl (Failed_Else ''404'')\<rparr>" "[(''version'', JStr ''2'')]" "''u''" "''404''" demo_update_env]
    by (auto simp: demo_answers_def)
qed

theorem update_is_idempotent_witness:
  "\<exists>d m'. sh_store (fst (finish_update demo_update_env (demo_answers ''2'') demo_mod None demo_world)) = Some d
     \<and> get_mod 7 (committed d) = Some m' \<and> mod_version m' = ''2'' \<and> installed m'"
proof -
  let ?f = "finish_update demo_update_env (demo_answers ''2'') demo_mod None demo_world"
  have "snd ?f = Inr (Updated ''A'' 7 ''1'' ''2'' ''f'' None)" by code_simp
  then have f: "?f = (fst ?f, Inr (Updated ''A'' 7 ''1'' ''2'' ''f'' None))" by (metis prod.collapse)
  have "fetched (demo_answers ''2'') = Inr (JDict [(''version'', JStr ''2'')])" by (simp add: demo_answers_def)
  from update_is_idempotent[OF f this] show ?thesis
    by (auto simp: demo_world_def demo_mod_def autocommitted_def get_mod_def)
qed

end
