(* ===== verification/Spec2Isabelle.thy ===== *)
theory Spec2Isabelle
  imports Governance Auth_Token Db_Lifecycle Chat_Router Nexus_Download Fomod_Install Search_Runs Xedit_Service
    Dyndolod_Service Vramr_Service Loop_Guardrail Tool_Middleware Supervisor_Graph Circuit_Breakers Token_Budget
    Fomod Transaction_Lock Journal Event_Bus Network_Gateway Ssrf_Validator Hitl_Guard Path_Guard Patch_Plans
    File_Operation Sync_Run Update_Cycle
begin

text \<open>
  A verification development of Sky-Claw, the agent that manages the mods of a Skyrim installation: it
  talks to a language model, downloads and installs mods, patches plugins with external tools and keeps a
  record of what it did so that it can be undone.  The paths below are under \<open>src/sky_claw/\<close>.

  \<^bold>\<open>The program and how its parts interact.\<close>  A request reaches the supervisor's graph
  (\<open>orchestrator/state_graph.py\<close>), which routes it from state to state and dispatches tools.  A dispatched
  tool passes the middlewares of \<open>orchestrator/tool_strategies/middleware.py\<close>: the error wrapper, the idempotency
  guard over the task state machine (\<open>tool_state_machine.py\<close>), the approval gate (\<open>security/hitl.py\<close>) and the
  progress events.  Loops of the model are cut by \<open>security/loop_guardrail.py\<close>, its cost by
  \<open>agent/token_budget.py\<close> and \<open>token_circuit_breaker.py\<close>.  A tool that changes files runs inside
  \<open>SnapshotTransactionLock\<close> (\<open>db/locks.py\<close>): a lease in the lock table, snapshots of the target files
  (\<open>db/snapshot_manager.py\<close>), a transaction of the journal (\<open>db/journal.py\<close>), the body, and restoration
  when the body fails.  The tools are \<open>local/tools/synthesis_service.py\<close>, \<open>dyndolod_service.py\<close>,
  \<open>vramr_service.py\<close> and \<open>xedit_service.py\<close>, each over a runner that starts the external program.
  \<open>orchestrator/sync_engine.py\<close> keeps the table of mods (\<open>db/async_registry.py\<close>) in step with the profile
  (\<open>local/mo2/vfs.py\<close>) and the site's metadata, and downloads updates.  Events travel over
  \<open>core/event_bus.py\<close>; those whose handler fails go to the queue of \<open>core/dlq_manager.py\<close>.  Every request that
  leaves the machine passes \<open>security/network_gateway.py\<close>, every path that comes from outside
  \<open>security/path_validator.py\<close> or \<open>core/validators/path.py\<close>, every URL given to a tool
  \<open>core/validators/ssrf.py\<close>.

  \<^bold>\<open>The theories.\<close>

  \<^item> \<open>Prelude\<close>: Python dicts as association lists in insertion order, results (\<open>Inl\<close> an error, \<open>Inr\<close> a value),
    the string functions the sources share.  \<open>Json_Values\<close>: \<open>str\<close>, \<open>int\<close>, \<open>isdigit\<close> on parsed JSON.
    \<open>Glob\<close>: \<open>fnmatch\<close>.  \<open>Net_Address\<close>: \<open>ipaddress\<close> on 32 and 128 bit words.  \<open>Urls\<close>: \<open>urlparse\<close> and
    \<open>pathlib\<close>.
  \<^item> Interfaces.  \<open>Table_Machine\<close> (locale \<open>table_machine\<close>, interpreted for the task machine and for the
    graph's transition validator); \<open>Step_System\<close> (\<open>checked_loop\<close> and \<open>ending_loop\<close> for sequential loops,
    interpreted for the searches; \<open>stepping\<close> and \<open>settling\<close> for concurrent components, interpreted for the
    synchronisation, the update cycle and the pool of connections); \<open>timed_breaker\<close> in \<open>Circuit_Breakers\<close> (both breakers);
    \<open>lease_provider\<close> and \<open>snapshot_provider\<close> in \<open>Transaction_Lock\<close> (the lock manager and the snapshot
    manager are what the transaction needs); \<open>letter_box\<close> in \<open>Event_Bus\<close> (the dead letter queue);
    \<open>locked_service\<close> in \<open>Locked_Run\<close> (a body and a settlement that run under the lock: the Synthesis and the
    xEdit service).
  \<^item> \<open>Tool_State_Machine\<close> (\<open>orchestrator/tool_state_machine.py\<close>): the guard is the dict of active tasks, the
    machine the dict of states; \<open>Tool_Middleware\<close>: one step relation in which several calls are interleaved
    at every \<open>await\<close>, so exclusion and approval are claims about all interleavings.
  \<^item> \<open>Loop_Guardrail\<close>, \<open>Token_Budget\<close>, \<open>Circuit_Breakers\<close>: the functions and records of the files named above;
    the guardrail is shown equal to a counter of the current streak.
  \<^item> \<open>Supervisor_Graph\<close>: the states, every node, every edge and the runs of the graph as \<open>graph_trace\<close>.
  \<^item> \<open>Lock_Manager\<close>, \<open>Snapshots\<close>, \<open>Transaction_Lock\<close>, \<open>Journal\<close>, \<open>File_Operation\<close>: tables are lists of rows,
    the file system a map from paths to contents, each SQL statement a function on the table.
  \<^item> \<open>Locked_Run\<close>, \<open>Synthesis_Runner\<close>, \<open>Synthesis_Service\<close>, \<open>Dyndolod_Runner\<close>, \<open>Dyndolod_Service\<close>,
    \<open>Vramr_Service\<close>, \<open>Xedit_Scripts\<close>, \<open>Xedit_Runner\<close>, \<open>Xedit_Service\<close>, \<open>Patcher_Pipeline\<close>: the tool services;
    what an external program does is a parameter of the run (its exit, its output and the files it leaves).
  \<^item> \<open>Conflicts\<close>, \<open>Patch_Plans\<close> (\<open>local/xedit/conflict_analyzer.py\<close>, \<open>patch_orchestrator.py\<close>); \<open>Fomod\<close>
    (\<open>local/fomod/\<close>); \<open>Modlist\<close> (\<open>local/mo2/vfs.py\<close>); \<open>Mod_Registry\<close>.
  \<^item> \<open>Sync_Engine\<close> and \<open>Sync_Run\<close>: producer, workers and the writer as a transition system over the bounded
    queue; \<open>Update_Cycle\<close>: the update of all tracked mods under the semaphore, and the approval of downloads.
  \<^item> \<open>Dead_Letters\<close>, \<open>Event_Bus\<close>; \<open>Network_Gateway\<close>, \<open>Ssrf_Validator\<close>, \<open>Hitl_Guard\<close>, \<open>Path_Guard\<close>.
  \<^item> \<open>Thoughts\<close>, \<open>Searches\<close>, \<open>Search_Trees\<close>, \<open>Search_Runs\<close> (\<open>reasoning/\<close>): the tree of thoughts and its five
    searches; the generator, evaluator and checker are parameters.
  \<^item> \<open>Chat_Router\<close> (\<open>agent/router.py\<close>, \<open>hermes_parser.py\<close>): a conversation turn with its rounds of tool calls, native
    and in text; the provider is a parameter.  \<open>Nexus_Download\<close> (\<open>scraper/nexus_downloader.py\<close>): metadata, download
    attempts over the gateway and the check of the hashes.
  \<^item> \<open>Fomod_Parser\<close> and \<open>Fomod_Install\<close> (\<open>local/fomod/parser.py\<close>, \<open>installer.py\<close>) from the document to the files
    copied below the mod; \<open>File_Names\<close>: \<open>suffix\<close>, \<open>stem\<close> and \<open>with_suffix\<close>.
  \<^item> \<open>Governance\<close> (\<open>security/governance.py\<close>): a save of the signed whitelist as the list of its file operations, so a
    crash is a prefix; \<open>Auth_Token\<close> (\<open>security/auth_token_manager.py\<close>); \<open>Db_Lifecycle\<close>
    (\<open>core/db_lifecycle.py\<close>): the pool of connections, its callers interleaved (an interpretation of \<open>settling\<close>).

  \<^bold>\<open>What the lemmas show.\<close>  A failed transaction gives the target files their old content, as long as the
  snapshots fit their store and no I/O fails, and while a lease lasts, and nobody releases it in its owner's name or by
  force, nobody else gets the resource.  The services build on both: they close the journal's row by the outcome, but
  for the row of a cancelled run of Synthesis or xEdit, which stays pending, and of runs whose journal fails at the
  wrong moment.  Undo goes back through the operations in reverse order while the snapshots are in place.  A tool call
  that may destroy something does not run unless the operator approved it, and two calls with the same key never run
  together.  The graph never raises from an edge and bounds its error retries; the same call is not dispatched three
  times in a row, but the mark the callback leaves does not reach the graph.  The gateway lets no request through that
  its policy excludes; what the path checks and the script generator exclude, and what they miss (a leading backslash, a
  line break in a name), is stated with them.  The concurrent parts end, and account for every mod, row or event once.
  The searches end and what they return was reached by the generator and accepted by the checker.

  \<^bold>\<open>Bounds and fuel.\<close>  Loops are structural wherever the source's are bounded.  \<open>run_loop\<close> and \<open>run_search\<close>
  take a number of steps; \<open>search_bound\<close> is a number that is always enough (\<open>every_search_ends\<close>), because every
  step spends the potential of \<open>Search_Runs\<close> (the thoughts that the depth and branching limits still allow).  The
  synchronisation and the update cycle have measures (\<open>sync_work\<close>, \<open>cycle_work\<close>) that every step lowers, so
  no interleaving runs for ever.  The graph's retries are bounded by its own limit; the dead letter queue's by
  \<open>max_attempts\<close>; a loop of attempts (\<open>tenacity\<close>) is a recursion over the attempts that are left.

  \<^bold>\<open>What is a parameter.\<close>  Clocks, random tokens, SHA-256, JSON text parsing, DNS, HTTP, SQLite's storage, the
  model's answers, external programs and the operator: each operation takes their answers as arguments, and a theorem
  that needs one of them well-behaved says so in a premise.  Floats are reals.

  \<^bold>\<open>Not modelled.\<close>  The graphical and web interfaces (\<open>gui/\<close>, \<open>web/\<close>), the transports
  (\<open>comms/\<close>: Telegram, websockets, the bridge to the front end), the wiring of the program (\<open>app_context.py\<close>,
  \<open>__main__.py\<close>, \<open>modes/\<close>, \<open>orchestrator/supervisor.py\<close>) and the clients of the language models
  (\<open>agent/providers.py\<close>, \<open>semantic_router.py\<close>, \<open>context_manager.py\<close>): they call the parts above and libraries that are not in the
  repository.  The installers and the detection of tools (\<open>local/tools_installer.py\<close>, \<open>auto_detect.py\<close>,
  \<open>discovery/\<close>) read registries and disks.  The heuristics over text (\<open>security/purple_scanner.py\<close>,
  \<open>sanitize.py\<close>, \<open>prompt_armor.py\<close>) are lists of regular expressions of Python's \<open>re\<close>, and the credential store
  and the file permissions rest on \<open>cryptography\<close> and on the operating system.  Of the modelled files, opening and
  closing database connections, logging and reports are left out.
\<close>

end
